(* ===== verification/Prelude.thy ===== *)
theory Prelude
  imports Main "HOL-Library.Word" "HOL-Library.Monad_Syntax"
begin

text \<open>
  Shared vocabulary of the development: bytes, C strings, C integers, bounded buffer
  accesses, and the generic lemmas on lists and options the components use.

  Conventions.  A computation that may hit undefined behaviour, a failing \<open>ASSERT\<close>, an
  access outside a buffer or the end of its fuel has type \<open>'a option\<close>, and \<open>None\<close> is that
  outcome; every theorem that says an operation works states that the result is a \<open>Some\<close>.
  Pointers into a buffer are offsets (\<open>nat\<close>) from its first byte.
\<close>

unbundle bit_operations_syntax

type_synonym byte = "8 word"

named_theorems buf_simps \<open>bounded reads and writes of a buffer\<close>
named_theorems stream_simps \<open>the state predicates of the stream model\<close>
named_theorems proto_simps \<open>the FastCGI encoders and decoders\<close>
named_theorems mp_simps \<open>the multipart machine\<close>

section \<open>Buffers\<close>

definition buf_read :: "nat \<Rightarrow> nat \<Rightarrow> 'a list \<Rightarrow> 'a list option" where
  "buf_read off n b = (if off + n \<le> length b then Some (take n (drop off b)) else None)"

definition buf_write :: "nat \<Rightarrow> 'a list \<Rightarrow> 'a list \<Rightarrow> 'a list option" where
  "buf_write off xs b =
     (if off + length xs \<le> length b
      then Some (take off b @ xs @ drop (off + length xs) b) else None)"

lemma buf_read_ok [buf_simps]: "off + n \<le> length b \<Longrightarrow> buf_read off n b = Some (take n (drop off b))"
  by (simp add: buf_read_def)

lemma buf_write_ok [buf_simps]:
  "off + length xs \<le> length b \<Longrightarrow>
   buf_write off xs b = Some (take off b @ xs @ drop (off + length xs) b)"
  by (simp add: buf_write_def)

lemma buf_write_SomeD:
  "buf_write off xs b = Some b' \<Longrightarrow>
   off + length xs \<le> length b \<and> b' = take off b @ xs @ drop (off + length xs) b"
  by (auto simp: buf_write_def split: if_splits)

lemma buf_write_length: "buf_write off xs b = Some b' \<Longrightarrow> length b' = length b"
  by (auto dest!: buf_write_SomeD)

lemma take_drop_split: "k \<le> n \<Longrightarrow> take n xs = take k xs @ take (n - k) (drop k xs)"
  by (metis le_add_diff_inverse take_add)

lemma take_eq_Cons_drop:
  "i < n \<Longrightarrow> n \<le> length xs \<Longrightarrow> take (n - i) (drop i xs) = xs ! i # take (n - Suc i) (drop (Suc i) xs)"
  by (metis Cons_nth_drop_Suc Suc_diff_Suc less_le_trans take_Suc_Cons)

section \<open>C strings\<close>

text \<open>
  A \<open>char *\<close> is the list of its characters; the bytes from the first NUL on are not part
  of the C string it denotes.
\<close>

definition NUL :: char where
  "NUL = CHR 0x00"

definition CR :: char where
  "CR = CHR 0x0D"

definition LF :: char where
  "LF = CHR 0x0A"

definition cstr :: "string \<Rightarrow> string" where
  "cstr s = takeWhile (\<lambda>c. c \<noteq> NUL) s"

lemma cstr_id: "NUL \<notin> set s \<Longrightarrow> cstr s = s"
  unfolding cstr_def by (metis (mono_tags, lifting) takeWhile_eq_all_conv)

lemma NUL_notin_cstr [simp]: "NUL \<notin> set (cstr s)"
  by (auto simp: cstr_def dest: set_takeWhileD)

lemma cstr_idem [simp]: "cstr (cstr s) = cstr s"
  by (simp add: cstr_id)

text \<open>\<open>isspace\<close> and \<open>tolower\<close> in the C locale.\<close>

definition isspace :: "char \<Rightarrow> bool" where
  "isspace c \<longleftrightarrow> c \<in> {CHR '' '', CHR 0x09, CHR 0x0A, CHR 0x0B, CHR 0x0C, CHR 0x0D}"

definition tolower :: "char \<Rightarrow> char" where
  "tolower c =
     (let n = of_char c :: nat in if 65 \<le> n \<and> n \<le> 90 then char_of (n + 32) else c)"

text \<open>The bytes of a string.\<close>

definition ascii :: "string \<Rightarrow> byte list" where
  "ascii s = map of_char s"

section \<open>Options\<close>

lemma bind_Some_iff:
  "Option.bind m f = Some y \<longleftrightarrow> (\<exists>x. m = Some x \<and> f x = Some y)"
  by (cases m) auto

end
