(* ===== verification/Fcgi_Base.thy ===== *)
theory Fcgi_Base
  imports Prelude
begin

text \<open>
  The FastCGI wire format (\<open>fastcgi.h\<close> and the \<open>Make*\<close> functions of \<open>fcgiapp.c\<close>), the
  state of a stream and of a request, and the pass-through calls to the operating system
  (\<open>OS_Read\<close>, \<open>OS_Write\<close>, \<open>write_it_all\<close>).

  The operating system is part of the state: \<open>rd_script\<close> is what the coming calls of
  \<open>read(2)\<close> on the connection find (a chunk of bytes, an error, end of file when the list
  is used up), \<open>wr_script\<close> what the coming calls of \<open>write(2)\<close> do (take up to so many
  bytes, fail; when used up, take everything), \<open>sent\<close> the bytes written so far,
  \<open>accept_events\<close> what \<open>accept(2)\<close> is going to find, and \<open>closed_fds\<close> the log of closed
  descriptors, each with the flag that asks for an orderly shutdown and with what had been
  sent on it.
\<close>

section \<open>Constants of the protocol\<close>

definition FCGI_VERSION_1 :: byte where "FCGI_VERSION_1 = 1"
definition FCGI_HEADER_LEN :: nat where "FCGI_HEADER_LEN = 8"
definition FCGI_MAX_LENGTH :: int where "FCGI_MAX_LENGTH = 65535"
definition FCGI_BEGIN_REQUEST :: int where "FCGI_BEGIN_REQUEST = 1"
definition FCGI_ABORT_REQUEST :: int where "FCGI_ABORT_REQUEST = 2"
definition FCGI_END_REQUEST :: int where "FCGI_END_REQUEST = 3"
definition FCGI_PARAMS :: int where "FCGI_PARAMS = 4"
definition FCGI_STDIN :: int where "FCGI_STDIN = 5"
definition FCGI_STDOUT :: int where "FCGI_STDOUT = 6"
definition FCGI_STDERR :: int where "FCGI_STDERR = 7"
definition FCGI_DATA :: int where "FCGI_DATA = 8"
definition FCGI_GET_VALUES :: int where "FCGI_GET_VALUES = 9"
definition FCGI_GET_VALUES_RESULT :: int where "FCGI_GET_VALUES_RESULT = 10"
definition FCGI_UNKNOWN_TYPE :: int where "FCGI_UNKNOWN_TYPE = 11"
definition FCGI_NULL_REQUEST_ID :: int where "FCGI_NULL_REQUEST_ID = 0"
definition FCGI_KEEP_CONN :: byte where "FCGI_KEEP_CONN = 1"
definition FCGI_RESPONDER :: int where "FCGI_RESPONDER = 1"
definition FCGI_AUTHORIZER :: int where "FCGI_AUTHORIZER = 2"
definition FCGI_FILTER :: int where "FCGI_FILTER = 3"
definition FCGI_REQUEST_COMPLETE :: int where "FCGI_REQUEST_COMPLETE = 0"
definition FCGI_CANT_MPX_CONN :: int where "FCGI_CANT_MPX_CONN = 1"

definition FCGX_UNSUPPORTED_VERSION :: int where "FCGX_UNSUPPORTED_VERSION = -2"
definition FCGX_PROTOCOL_ERROR :: int where "FCGX_PROTOCOL_ERROR = -3"
definition FCGX_PARAMS_ERROR :: int where "FCGX_PARAMS_ERROR = -4"
definition FCGX_CALL_SEQ_ERROR :: int where "FCGX_CALL_SEQ_ERROR = -5"

definition EOF_int :: int where "EOF_int = -1"

lemmas fcgi_types = FCGI_BEGIN_REQUEST_def FCGI_ABORT_REQUEST_def FCGI_END_REQUEST_def
  FCGI_PARAMS_def FCGI_STDIN_def FCGI_STDOUT_def FCGI_STDERR_def FCGI_DATA_def
  FCGI_GET_VALUES_def FCGI_GET_VALUES_RESULT_def FCGI_UNKNOWN_TYPE_def

lemmas fcgx_errors = FCGX_UNSUPPORTED_VERSION_def FCGX_PROTOCOL_ERROR_def
  FCGX_PARAMS_ERROR_def FCGX_CALL_SEQ_ERROR_def

section \<open>Records of the protocol\<close>

record FCGI_Header =
  version :: byte
  htype :: byte
  requestIdB1 :: byte
  requestIdB0 :: byte
  contentLengthB1 :: byte
  contentLengthB0 :: byte
  paddingLength :: byte
  reserved :: byte

record FCGI_EndRequestBody =
  appStatusB3 :: byte
  appStatusB2 :: byte
  appStatusB1 :: byte
  appStatusB0 :: byte
  protocolStatus :: byte
  er_reserved :: "byte list"

text \<open>The bytes of a structure in memory, in the order of its fields.\<close>

definition header_bytes :: "FCGI_Header \<Rightarrow> byte list" where
  "header_bytes h =
     [version h, htype h, requestIdB1 h, requestIdB0 h,
      contentLengthB1 h, contentLengthB0 h, paddingLength h, reserved h]"

definition header_of :: "byte list \<Rightarrow> FCGI_Header" where
  "header_of bs =
     \<lparr>version = bs ! 0, htype = bs ! 1, requestIdB1 = bs ! 2, requestIdB0 = bs ! 3,
      contentLengthB1 = bs ! 4, contentLengthB0 = bs ! 5, paddingLength = bs ! 6, reserved = bs ! 7\<rparr>"

definition end_body_bytes :: "FCGI_EndRequestBody \<Rightarrow> byte list" where
  "end_body_bytes b =
     [appStatusB3 b, appStatusB2 b, appStatusB1 b, appStatusB0 b, protocolStatus b] @ er_reserved b"

lemma length_header_bytes [simp]: "length (header_bytes h) = 8"
  by (simp add: header_bytes_def)

lemma header_of_bytes [simp]: "header_of (header_bytes h) = h"
  by (simp add: header_of_def header_bytes_def)

text \<open>\<open>MakeHeader\<close> starts with two assertions on its lengths.\<close>

definition MakeHeader :: "int \<Rightarrow> int \<Rightarrow> int \<Rightarrow> int \<Rightarrow> FCGI_Header option" where
  "MakeHeader type requestId contentLength padLength =
     (if \<not> (0 \<le> contentLength \<and> contentLength \<le> FCGI_MAX_LENGTH) then None
      else if \<not> (0 \<le> padLength \<and> padLength \<le> 255) then None
      else Some
       \<lparr>version = FCGI_VERSION_1,
        htype = word_of_int type,
        requestIdB1 = word_of_int (drop_bit 8 requestId AND 255),
        requestIdB0 = word_of_int (requestId AND 255),
        contentLengthB1 = word_of_int (drop_bit 8 contentLength AND 255),
        contentLengthB0 = word_of_int (contentLength AND 255),
        paddingLength = word_of_int padLength,
        reserved = 0\<rparr>)"

definition MakeEndRequestBody :: "int \<Rightarrow> int \<Rightarrow> FCGI_EndRequestBody" where
  "MakeEndRequestBody appStatus protoStatus =
     \<lparr>appStatusB3 = word_of_int (drop_bit 24 appStatus AND 255),
      appStatusB2 = word_of_int (drop_bit 16 appStatus AND 255),
      appStatusB1 = word_of_int (drop_bit 8 appStatus AND 255),
      appStatusB0 = word_of_int (appStatus AND 255),
      protocolStatus = word_of_int protoStatus,
      er_reserved = [0, 0, 0]\<rparr>"

text \<open>An unknown-type body is its type byte and seven reserved bytes.\<close>

definition MakeUnknownTypeBody :: "int \<Rightarrow> byte list" where
  "MakeUnknownTypeBody type = word_of_int type # replicate 7 0"

definition AlignInt8 :: "32 word \<Rightarrow> 32 word" where
  "AlignInt8 n = (n + 7) AND (4294967295 - 7)"

definition AlignPtr8 :: "64 word \<Rightarrow> 64 word" where
  "AlignPtr8 p = (let u = ((p + 7) AND (18446744073709551615 - 7)) - p in p + u)"

section \<open>The state\<close>

text \<open>
  \<open>FCGX_Stream\<close> with its \<open>FCGX_Stream_Data\<close>: the fields of \<open>*stream->data\<close> stand beside those
  of the stream itself.  The pointers are offsets into \<open>buff\<close>.  The two procedure pointers
  \<open>fillBuffProc\<close> and \<open>emptyBuffProc\<close> are arguments of the operations that call them.
\<close>

record FCGX_Stream =
  buff :: "byte list"
  bufflen :: nat
  buffStop :: nat
  stype :: int
  eorStop :: bool
  skip :: bool
  contentLen :: nat
  paddingLen :: nat
  isAnythingWritten :: bool
  rawWrite :: bool
  rdNext :: nat
  wrNext :: nat
  stop :: nat
  stopUnget :: "nat option"
  isReader :: bool
  isClosed :: bool
  wasFCloseCalled :: bool
  FCGI_errno :: int

datatype read_result = RData "byte list" | RErr int

datatype write_result = WTake nat | WErr int

text \<open>Who connects: a local process, an IPv4 address, or an address of another family.\<close>

datatype peer = Unix_peer | Inet_peer "32 word" | Other_peer

text \<open>
  What the coming calls of \<open>accept(2)\<close> on the listening socket find: an error, the signal
  \<open>SIGUSR1\<close> during the call, the signal between two calls, or a connection with its
  descriptor, its peer, whether data shows up on it in time (\<open>poll\<close>), and its scripts.
\<close>

datatype accept_event =
    Accept_error int
  | Accept_signal
  | Signal_before
  | Accept_conn int peer bool "read_result list" "write_result list"

record os_state =
  shutdownPending :: bool
  shutdownNow :: bool
  accept_events :: "accept_event list"
  closed_fds :: "(int \<times> bool \<times> byte list) list"
  rd_script :: "read_result list"
  wr_script :: "write_result list"
  sent :: "byte list"
  os_errno :: int

text \<open>The part of \<open>FCGX_Request\<close> that its streams share, on top of the operating system.\<close>

record conn = os_state +
  requestId :: int
  role :: int
  ipcFd :: int
  isBeginProcessed :: bool
  keepConnection :: bool
  appStatus :: int
  nWriters :: int

section \<open>Operating system calls\<close>

definition OS_Read :: "nat \<Rightarrow> 'z os_state_scheme \<Rightarrow> int \<times> byte list \<times> 'z os_state_scheme" where
  "OS_Read len c =
     (if shutdownNow c then (-1, [], c)
      else case rd_script c of
        [] \<Rightarrow> (0, [], c)
      | RErr e # rs \<Rightarrow> (-1, [], c\<lparr>rd_script := rs, os_errno := e\<rparr>)
      | RData bs # rs \<Rightarrow>
          (int (min len (length bs)), take len bs,
           c\<lparr>rd_script := (if drop len bs = [] then rs else RData (drop len bs) # rs)\<rparr>))"

definition OS_Write :: "byte list \<Rightarrow> 'z os_state_scheme \<Rightarrow> int \<times> 'z os_state_scheme" where
  "OS_Write bs c =
     (if shutdownNow c then (-1, c)
      else case wr_script c of
        [] \<Rightarrow> (int (length bs), c\<lparr>sent := sent c @ bs\<rparr>)
      | WErr e # ws \<Rightarrow> (-1, c\<lparr>wr_script := ws, os_errno := e\<rparr>)
      | WTake k # ws \<Rightarrow>
          (int (min k (length bs)), c\<lparr>wr_script := ws, sent := sent c @ take k bs\<rparr>))"

text \<open>
  The loop of \<open>write_it_all\<close>; every call either moves bytes or uses up an entry of
  \<open>wr_script\<close>, so it returns.
\<close>

function write_it_all :: "byte list \<Rightarrow> 'z os_state_scheme \<Rightarrow> int \<times> 'z os_state_scheme" where
  "write_it_all bs c =
     (if bs = [] then (0, c)
      else let (wrote, c') = OS_Write bs c
           in if wrote < 0 then (wrote, c')
              else write_it_all (drop (nat wrote) bs) c')"
  by pat_completeness auto
termination
  by (relation "measure (\<lambda>(bs, c). length bs + length (wr_script c))")
     (auto simp: OS_Write_def split: if_splits list.splits write_result.splits)

declare write_it_all.simps [simp del]

definition SetError :: "int \<Rightarrow> FCGX_Stream \<Rightarrow> FCGX_Stream" where
  "SetError e s = (if FCGI_errno s = 0 then s\<lparr>FCGI_errno := e\<rparr> else s)\<lparr>isClosed := True\<rparr>"

definition FCGX_GetError :: "FCGX_Stream \<Rightarrow> int" where
  "FCGX_GetError s = FCGI_errno s"

definition FCGX_ClearError :: "FCGX_Stream \<Rightarrow> FCGX_Stream" where
  "FCGX_ClearError s = s\<lparr>FCGI_errno := 0\<rparr>"

lemma uint_byte_eq: "0 \<le> n \<Longrightarrow> n < 256 \<Longrightarrow> uint (b :: byte) = n \<longleftrightarrow> b = word_of_int n"
proof
  assume "0 \<le> n" "n < 256" "b = word_of_int n"
  then show "uint b = n" by (simp add: unsigned_of_int take_bit_int_eq_self)
qed (metis word_of_int_uint)

section \<open>Alignment and complete writes\<close>

text \<open>\<open>pad8 n\<close> bytes bring \<open>n\<close> up to a multiple of 8.\<close>

definition pad8 :: "nat \<Rightarrow> nat" where
  "pad8 n = (8 - n mod 8) mod 8"

lemma and_align32: "x AND 4294967288 = x div 8 * 8" if "0 \<le> x" "x < 4294967296" for x :: int
proof -
  have m: "mask 32 AND NOT (mask 3) = (4294967288 :: int)" by (simp add: mask_eq_exp_minus_1)
  have "take_bit 29 (drop_bit 3 x) = drop_bit 3 x"
    by (rule take_bit_int_eq_self) (use that in \<open>auto simp: drop_bit_eq_div\<close>)
  then show ?thesis
    using slice_eq_mask [of 3 29 x] m by (simp add: and.assoc push_bit_eq_mult drop_bit_eq_div)
qed

lemma and_align64: "x AND 18446744073709551608 = x div 8 * 8"
  if "0 \<le> x" "x < 18446744073709551616" for x :: int
proof -
  have m: "mask 64 AND NOT (mask 3) = (18446744073709551608 :: int)" by (simp add: mask_eq_exp_minus_1)
  have "take_bit 61 (drop_bit 3 x) = drop_bit 3 x"
    by (rule take_bit_int_eq_self) (use that in \<open>auto simp: drop_bit_eq_div\<close>)
  then show ?thesis
    using slice_eq_mask [of 3 61 x] m by (simp add: and.assoc push_bit_eq_mult drop_bit_eq_div)
qed

lemma div8_up: "(n + 7) div 8 * 8 = n + pad8 n"
proof -
  define q r where "q = n div 8" and "r = n mod 8"
  have n: "n = 8 * q + r" and r: "r < 8" by (simp_all add: q_def r_def)
  have "(r + 7) div 8 = (if r = 0 then 0 else 1)" using r by (simp add: div_nat_eqI)
  moreover have "(n + 7) div 8 = q + (r + 7) div 8" by (simp add: n add.assoc)
  moreover have "pad8 n = (if r = 0 then 0 else 8 - r)" using r by (simp add: pad8_def r_def [symmetric])
  ultimately show ?thesis using n r by auto
qed

lemma pad8_less: "pad8 n < 8"
  by (simp add: pad8_def)

lemma pad8_56: "n \<le> 55 \<Longrightarrow> n + pad8 n \<le> 56"
proof -
  assume "n \<le> 55"
  then have "(n + 7) div 8 \<le> 62 div 8" by (intro div_le_mono) simp
  then show ?thesis using div8_up [of n] by simp
qed

lemma pad8_le:
  assumes "n \<le> m" "m mod 8 = 0"
  shows "n + pad8 n \<le> m"
proof -
  obtain q where q: "m = 8 * q" using assms(2) by auto
  have "(n + 7) div 8 \<le> (8 * q + 7) div 8" using assms(1) q by (intro div_le_mono) simp
  then have "(n + 7) div 8 * 8 \<le> 8 * q" by simp
  then show ?thesis unfolding div8_up q .
qed

lemma AlignInt8_nat:
  assumes "n + 7 < 2 ^ 32"
  shows "unat (AlignInt8 (word_of_nat n)) = n + pad8 n"
proof -
  have "uint (word_of_nat n + 7 :: 32 word) = uint (word_of_nat (n + 7) :: 32 word)" by simp
  also have "\<dots> = int (n + 7)" 
    using assms by (simp add: unsigned_of_nat take_bit_nat_eq_self del: of_nat_add)
  finally have "uint (AlignInt8 (word_of_nat n)) = int (n + 7) div 8 * 8"
    using assms and_align32 [of "int (n + 7)"] unfolding AlignInt8_def
    by (simp add: unsigned_and_eq del: of_nat_add)
  also have "\<dots> = int ((n + 7) div 8 * 8)" by (simp add: of_nat_div)
  finally show ?thesis unfolding div8_up by (metis nat_int unat_eq_nat_uint)
qed

lemma AlignPtr8_aligned:
  assumes "unat p + 7 < 2 ^ 64"
  shows "unat (AlignPtr8 p) = unat p + pad8 (unat p)"
proof -
  have "uint (p + 7) = int (unat p + 7)"
  proof -
    have "int (unat p + 7) < int (2 ^ 64)" using assms by (simp only: of_nat_less_iff)
    then have "uint p + 7 < 18446744073709551616" by simp
    then show ?thesis by (simp add: uint_word_ariths(1))
  qed
  then have "uint (AlignPtr8 p) = int (unat p + 7) div 8 * 8"
    using assms and_align64 [of "int (unat p + 7)"] unfolding AlignPtr8_def Let_def
    by (simp add: unsigned_and_eq del: of_nat_add)
  also have "\<dots> = int ((unat p + 7) div 8 * 8)" by (simp add: of_nat_div)
  finally show ?thesis unfolding div8_up by (metis nat_int unat_eq_nat_uint)
qed

lemma and_255: "x AND 255 = x mod 256" for x :: int
  using take_bit_eq_mask [of 8 x] by (simp add: take_bit_eq_mod mask_eq_exp_minus_1)

text \<open>
  A connection that takes bytes: partial writes of any sizes, but no error and no shutdown.
  Then \<open>write_it_all\<close> writes all of its buffer.
\<close>

definition out_ok :: "'z conn_scheme \<Rightarrow> bool" where
  "out_ok c \<longleftrightarrow> \<not> shutdownNow c \<and> (\<forall>w \<in> set (wr_script c). \<exists>k. w = WTake k)"

lemma write_it_all_ok:
  "out_ok c \<Longrightarrow> \<exists>ws. write_it_all bs c = (0, c\<lparr>sent := sent c @ bs, wr_script := ws\<rparr>) \<and>
     out_ok (c\<lparr>sent := sent c @ bs, wr_script := ws\<rparr>)"
proof (induction bs c rule: write_it_all.induct)
  case (1 bs c)
  show ?case
  proof (cases "bs = []")
    case True
    then show ?thesis using 1(2) by (intro exI [of _ "wr_script c"]) (simp add: write_it_all.simps)
  next
    case False
    show ?thesis
    proof (cases "wr_script c")
      case Nil
      then have "OS_Write bs c = (int (length bs), c\<lparr>sent := sent c @ bs\<rparr>)"
        using 1(2) by (simp add: OS_Write_def out_ok_def)
      moreover have "c\<lparr>sent := sent c @ bs\<rparr> = c\<lparr>sent := sent c @ bs, wr_script := []\<rparr>"
        using Nil by simp
      ultimately show ?thesis using False 1(2)
        by (intro exI [of _ "[]"])
          (simp add: write_it_all.simps [of bs] write_it_all.simps [of "[]"] out_ok_def)
    next
      case (Cons w ws)
      then obtain k where k: "w = WTake k" using 1(2) by (auto simp: out_ok_def)
      define d where "d = c\<lparr>wr_script := ws, sent := sent c @ take k bs\<rparr>"
      have w: "OS_Write bs c = (int (min k (length bs)), d)"
        using 1(2) Cons k by (simp add: OS_Write_def out_ok_def d_def)
      have "out_ok d" using 1(2) Cons by (simp add: out_ok_def d_def)
      from 1(1) [OF False w [symmetric] refl _ this] obtain v where
        v: "write_it_all (drop (min k (length bs)) bs) d =
             (0, d\<lparr>sent := sent d @ drop (min k (length bs)) bs, wr_script := v\<rparr>)"
        "out_ok (d\<lparr>sent := sent d @ drop (min k (length bs)) bs, wr_script := v\<rparr>)"
        by auto
      moreover have "sent d @ drop (min k (length bs)) bs = sent c @ bs"
        by (simp add: d_def min_def)
      ultimately have "write_it_all bs c = (0, d\<lparr>sent := sent c @ bs, wr_script := v\<rparr>)"
        using False w by (simp add: write_it_all.simps [of bs])
      then show ?thesis using v(2) \<open>sent d @ _ = _\<close> by (intro exI [of _ v]) (simp add: d_def)
    qed
  qed
qed

end
