(* ===== verification/Fcgi_Stream.thy ===== *)
theory Fcgi_Stream
  imports Fcgi_Base
begin

text \<open>
  The operations of \<open>fcgiapp.c\<close> a program calls on a stream.  \<open>fill\<close> and \<open>emp\<close> stand for
  \<open>stream->fillBuffProc\<close> and \<open>stream->emptyBuffProc\<close>.  The locale \<open>byte_source\<close> is the
  contract of a reader's \<open>fillBuffProc\<close>, and the lemmas inside it say what the reading
  operations then do; the reader of theory \<open>Fcgi_Reader\<close> interprets it twice, for the client
  and for \<open>ProcessHeader\<close>, which reads through the same stream.  \<open>byte_sink\<close> is the contract of a
  writer's \<open>emptyBuffProc\<close>, interpreted twice in theory \<open>Fcgi_Writer\<close>, for records and for raw
  writes.
\<close>

type_synonym 'z fill_proc =
  "FCGX_Stream \<Rightarrow> 'z conn_scheme \<Rightarrow> (FCGX_Stream \<times> 'z conn_scheme) option"

type_synonym 'z empty_proc =
  "FCGX_Stream \<Rightarrow> bool \<Rightarrow> 'z conn_scheme \<Rightarrow> (FCGX_Stream \<times> 'z conn_scheme) option"

section \<open>Reading\<close>

text \<open>
  The bytes a reader has not consumed: those of its buffer and those the connection still
  has.  It bounds the rounds of the loops below.
\<close>

fun script_size :: "read_result list \<Rightarrow> nat" where
  "script_size [] = 0"
| "script_size (RData bs # rs) = length bs + script_size rs"
| "script_size (RErr e # rs) = script_size rs"

definition input_size :: "FCGX_Stream \<Rightarrow> 'z conn_scheme \<Rightarrow> nat" where
  "input_size s c = (buffStop s - rdNext s) + script_size (rd_script c)"

text \<open>\<open>*stream->rdNext++\<close>: a byte inside the buffer.\<close>

definition next_byte :: "FCGX_Stream \<Rightarrow> (int \<times> FCGX_Stream) option" where
  "next_byte s =
     (if rdNext s < length (buff s)
      then Some (uint (buff s ! rdNext s), s\<lparr>rdNext := Suc (rdNext s)\<rparr>) else None)"

definition FCGX_GetChar ::
  "'z fill_proc \<Rightarrow> FCGX_Stream \<Rightarrow> 'z conn_scheme \<Rightarrow> (int \<times> FCGX_Stream \<times> 'z conn_scheme) option" where
  "FCGX_GetChar fill s c =
     (if isClosed s \<or> \<not> isReader s then Some (EOF_int, s, c)
      else if rdNext s \<noteq> stop s then do { (b, s) \<leftarrow> next_byte s; Some (b, s, c) }
      else do {
        (s, c) \<leftarrow> fill s c;
        if isClosed s then Some (EOF_int, s, c)
        else do {
          let s = s\<lparr>stopUnget := Some (rdNext s)\<rparr>;
          if rdNext s \<noteq> stop s then do { (b, s) \<leftarrow> next_byte s; Some (b, s, c) }
          else None
        }
      })"

text \<open>
  The loop of \<open>FCGX_GetStr\<close>.  \<open>acc\<close> is what has been copied to \<open>str\<close>, so \<open>bytesMoved\<close> is its
  length.  Every round but the first copies at least one byte.
\<close>

primrec GetStr_loop ::
  "'z fill_proc \<Rightarrow> nat \<Rightarrow> nat \<Rightarrow> byte list \<Rightarrow> FCGX_Stream \<Rightarrow> 'z conn_scheme \<Rightarrow>
   (byte list \<times> FCGX_Stream \<times> 'z conn_scheme) option" where
  "GetStr_loop fill 0 n acc s c = None"
| "GetStr_loop fill (Suc fuel) n acc s c = do {
     let m = (if rdNext s \<noteq> stop s then min (n - length acc) (stop s - rdNext s) else 0);
     bs \<leftarrow> buf_read (rdNext s) m (buff s);
     let acc = acc @ bs;
     let s = s\<lparr>rdNext := rdNext s + m\<rparr>;
     if 0 < m \<and> length acc = n then Some (acc, s, c)
     else if isClosed s \<or> \<not> isReader s then Some (acc, s, c)
     else do {
       (s, c) \<leftarrow> fill s c;
       if isClosed s then Some (acc, s, c)
       else GetStr_loop fill fuel n acc (s\<lparr>stopUnget := Some (rdNext s)\<rparr>) c
     }
   }"

declare GetStr_loop.simps(2) [simp del]

definition FCGX_GetStr ::
  "'z fill_proc \<Rightarrow> int \<Rightarrow> FCGX_Stream \<Rightarrow> 'z conn_scheme \<Rightarrow>
   (byte list \<times> FCGX_Stream \<times> 'z conn_scheme) option" where
  "FCGX_GetStr fill n s c =
     (if isClosed s \<or> \<not> isReader s \<or> n \<le> 0 then Some ([], s, c)
      else if n \<le> int (stop s) - int (rdNext s) then do {
        bs \<leftarrow> buf_read (rdNext s) (nat n) (buff s);
        Some (bs, s\<lparr>rdNext := rdNext s + nat n\<rparr>, c)
      }
      else GetStr_loop fill (nat n + 2) (nat n) [] s c)"

text \<open>
  \<open>FCGX_GetLine\<close>: \<open>None\<close> inside the result is the NULL it returns when end of file is the
  first thing read.
\<close>

primrec GetLine_loop ::
  "'z fill_proc \<Rightarrow> nat \<Rightarrow> byte list \<Rightarrow> FCGX_Stream \<Rightarrow> 'z conn_scheme \<Rightarrow>
   (byte list option \<times> FCGX_Stream \<times> 'z conn_scheme) option" where
  "GetLine_loop fill 0 acc s c = Some (Some acc, s, c)"
| "GetLine_loop fill (Suc n) acc s c = do {
     (ch, s, c) \<leftarrow> FCGX_GetChar fill s c;
     if ch = EOF_int then Some (if acc = [] then None else Some acc, s, c)
     else if ch = 10 then Some (Some (acc @ [word_of_int ch]), s, c)
     else GetLine_loop fill n (acc @ [word_of_int ch]) s c
   }"

declare GetLine_loop.simps(2) [simp del]

definition FCGX_GetLine ::
  "'z fill_proc \<Rightarrow> int \<Rightarrow> FCGX_Stream \<Rightarrow> 'z conn_scheme \<Rightarrow>
   (byte list option \<times> FCGX_Stream \<times> 'z conn_scheme) option" where
  "FCGX_GetLine fill n s c = GetLine_loop fill (nat (n - 1)) [] s c"

definition FCGX_UnGetChar :: "int \<Rightarrow> FCGX_Stream \<Rightarrow> (int \<times> FCGX_Stream) option" where
  "FCGX_UnGetChar ch s =
     (if ch = EOF_int \<or> isClosed s \<or> \<not> isReader s \<or> Some (rdNext s) = stopUnget s
      then Some (EOF_int, s)
      else if rdNext s = 0 then None
      else do {
        b \<leftarrow> buf_write (rdNext s - 1) [word_of_int ch] (buff s);
        Some (ch, s\<lparr>rdNext := rdNext s - 1, buff := b\<rparr>)
      })"

definition FCGX_HasSeenEOF :: "FCGX_Stream \<Rightarrow> int" where
  "FCGX_HasSeenEOF s = (if isClosed s then EOF_int else 0)"

section \<open>The contract of a fill procedure\<close>

text \<open>
  \<open>rel s c body t\<close> says that a reader in state \<open>s\<close> over the connection \<open>c\<close> still has exactly
  \<open>body\<close> to give, of which the window between \<open>rdNext\<close> and \<open>stop\<close> is the start; \<open>fin s c t\<close>
  says what holds after the end of the stream has been seen.  \<open>t\<close> stands for what lies
  behind the end.  \<open>line_of n\<close> are the bytes up to the first newline, at most \<open>n\<close> of them.
\<close>

fun line_of :: "nat \<Rightarrow> byte list \<Rightarrow> byte list" where
  "line_of 0 body = []"
| "line_of (Suc n) [] = []"
| "line_of (Suc n) (b # bs) = (if b = 10 then [b] else b # line_of n bs)"

lemma uint_eq_iff10: "uint (b :: byte) = 10 \<longleftrightarrow> b = 10"
proof
  assume "uint b = 10"
  then have "word_of_int (uint b) = (word_of_int 10 :: byte)" by simp
  then show "b = 10" by simp
qed simp

lemma uint_not_EOF [simp]: "uint (b :: byte) \<noteq> EOF_int"
  using unsigned_greater_eq [of b] unfolding EOF_int_def by (metis not_one_le_zero le_minus_one_simps(3))

locale byte_source =
  fixes fill :: "'z fill_proc"
    and rel :: "FCGX_Stream \<Rightarrow> 'z conn_scheme \<Rightarrow> byte list \<Rightarrow> 't \<Rightarrow> bool"
    and fin :: "FCGX_Stream \<Rightarrow> 'z conn_scheme \<Rightarrow> 't \<Rightarrow> bool"
  assumes rel_open: "rel s c body t \<Longrightarrow> isReader s \<and> \<not> isClosed s"
    and rel_bounds: "rel s c body t \<Longrightarrow> rdNext s \<le> stop s \<and> stop s \<le> length (buff s)"
    and rel_window: "rel s c body t \<Longrightarrow>
       \<exists>rest. body = take (stop s - rdNext s) (drop (rdNext s) (buff s)) @ rest"
    and rel_size: "rel s c body t \<Longrightarrow> length body \<le> input_size s c"
    and rel_take: "rel s c body t \<Longrightarrow> k \<le> stop s - rdNext s \<Longrightarrow>
       rel (s\<lparr>rdNext := rdNext s + k\<rparr>) c (drop k body) t"
    and rel_unget: "rel s c body t \<Longrightarrow> rel (s\<lparr>stopUnget := u\<rparr>) c body t"
    and fill_more: "rel s c body t \<Longrightarrow> rdNext s = stop s \<Longrightarrow> body \<noteq> [] \<Longrightarrow>
       \<exists>s' c'. fill s c = Some (s', c') \<and> rel s' c' body t \<and> rdNext s' < stop s'"
    and fill_end: "rel s c [] t \<Longrightarrow> rdNext s = stop s \<Longrightarrow>
       \<exists>s' c'. fill s c = Some (s', c') \<and> isClosed s' \<and> fin s' c' t"
begin

lemma rel_take1:
  "rel s c (b # bs) t \<Longrightarrow> rdNext s < stop s \<Longrightarrow>
   next_byte s = Some (uint b, s\<lparr>rdNext := Suc (rdNext s)\<rparr>) \<and> rel (s\<lparr>rdNext := Suc (rdNext s)\<rparr>) c bs t"
  using rel_take [of s c "b # bs" t 1] rel_bounds [of s c "b # bs" t] rel_window [of s c "b # bs" t]
  by (auto simp: next_byte_def take_eq_Cons_drop)

lemma GetChar_Cons:
  assumes r: "rel s c (b # bs) t"
  shows "\<exists>s' c'. FCGX_GetChar fill s c = Some (uint b, s', c') \<and> rel s' c' bs t"
proof (cases "rdNext s = stop s")
  case False
  then show ?thesis
    using rel_take1 [OF r] rel_open [OF r] rel_bounds [OF r] by (auto simp: FCGX_GetChar_def)
next
  case True
  obtain s' c' where f: "fill s c = Some (s', c')" and r': "rel s' c' (b # bs) t"
    and lt: "rdNext s' < stop s'"
    using fill_more [OF r True] by auto
  let ?u = "s'\<lparr>stopUnget := Some (rdNext s')\<rparr>"
  have "rel ?u c' (b # bs) t" using rel_unget [OF r'] .
  then show ?thesis
    using rel_take1 [of ?u] rel_open [OF r] rel_open [OF r'] lt f True
    by (auto simp: FCGX_GetChar_def)
qed

lemma rel_Nil_window: "rel s c [] t \<Longrightarrow> rdNext s = stop s"
  using rel_window [of s c "[]" t] rel_bounds [of s c "[]" t] by auto

lemma GetChar_Nil:
  assumes r: "rel s c [] t"
  shows "\<exists>s' c'. FCGX_GetChar fill s c = Some (EOF_int, s', c') \<and> isClosed s' \<and> fin s' c' t"
  using fill_end [OF r rel_Nil_window [OF r]] rel_Nil_window [OF r] rel_open [OF r]
  by (auto simp: FCGX_GetChar_def)

text \<open>The copy loop, when what is asked for is there and when the stream ends before.\<close>

lemma window_le: "rel s c body t \<Longrightarrow> stop s - rdNext s \<le> length body"
  using rel_window [of s c body t] rel_bounds [of s c body t] by auto

lemma window_read:
  assumes r: "rel s c body t" and k: "k \<le> stop s - rdNext s"
  shows "buf_read (rdNext s) k (buff s) = Some (take k body)"
proof -
  obtain rest where b: "body = take (stop s - rdNext s) (drop (rdNext s) (buff s)) @ rest"
    using rel_window [OF r] ..
  have "rdNext s + k \<le> length (buff s)" using rel_bounds [OF r] k by auto
  moreover have "take k body = take k (drop (rdNext s) (buff s))"
    using k rel_bounds [OF r] by (auto simp: b)
  ultimately show ?thesis by (simp add: buf_read_def)
qed

lemma GetStr_loop_round:
  assumes r: "rel s c body t" and k: "k = min (n - length acc) (stop s - rdNext s)"
  shows "GetStr_loop fill (Suc fuel) n acc s c =
    (let s1 = s\<lparr>rdNext := rdNext s + k\<rparr>; acc = acc @ take k body
     in if 0 < k \<and> length acc = n then Some (acc, s1, c)
        else do { (s2, c) \<leftarrow> fill s1 c;
                  if isClosed s2 then Some (acc, s2, c)
                  else GetStr_loop fill fuel n acc (s2\<lparr>stopUnget := Some (rdNext s2)\<rparr>) c })"
proof -
  have m: "(if rdNext s \<noteq> stop s then min (n - length acc) (stop s - rdNext s) else 0) = k"
    using k by simp
  have "buf_read (rdNext s) k (buff s) = Some (take k body)" using window_read [OF r] k by simp
  then show ?thesis
    using rel_open [OF r] by (simp only: GetStr_loop.simps(2) m) (simp add: Let_def)
qed

lemma GetStr_loop_enough:
  assumes "rel s c body t" "length acc < n" "n - length acc \<le> length body"
    "n - length acc + (if rdNext s = stop s then 1 else 0) < fuel"
  shows "\<exists>s' c'. GetStr_loop fill fuel n acc s c = Some (acc @ take (n - length acc) body, s', c') \<and>
           rel s' c' (drop (n - length acc) body) t"
  using assms
proof (induction fuel arbitrary: acc s c body)
  case 0
  then show ?case by simp
next
  case (Suc fuel)
  define m where "m = min (n - length acc) (stop s - rdNext s)"
  let ?s1 = "s\<lparr>rdNext := rdNext s + m\<rparr>" and ?acc = "acc @ take m body"
  note r = Suc.prems(1)
  note round = GetStr_loop_round [OF r m_def]
  have ml: "m \<le> length body" using window_le [OF r] by (simp add: m_def)
  then have la: "length ?acc = length acc + m" by simp
  have r1: "rel ?s1 c (drop m body) t" by (rule rel_take [OF r]) (simp add: m_def)
  show ?case
  proof (cases "n - length acc \<le> stop s - rdNext s")
    case True
    then have "m = n - length acc" by (simp add: m_def)
    then show ?thesis using Suc.prems(2) r1 la by (auto simp: round Let_def)
  next
    case False
    then have mw: "m = stop s - rdNext s" by (simp add: m_def)
    have ne: "drop m body \<noteq> []" using False Suc.prems(3) mw by simp
    have eq: "rdNext ?s1 = stop ?s1" using mw rel_bounds [OF r] by simp
    obtain s2 c2 where f: "fill ?s1 c = Some (s2, c2)" and r2: "rel s2 c2 (drop m body) t"
      and lt: "rdNext s2 < stop s2"
      using fill_more [OF r1 eq ne] by auto
    let ?s3 = "s2\<lparr>stopUnget := Some (rdNext s2)\<rparr>"
    have "\<exists>s' c'. GetStr_loop fill fuel n ?acc ?s3 c2 =
        Some (?acc @ take (n - length ?acc) (drop m body), s', c') \<and>
        rel s' c' (drop (n - length ?acc) (drop m body)) t"
    proof (rule Suc.IH [OF rel_unget [OF r2]])
      show "length ?acc < n" using la False mw by simp
      show "n - length ?acc \<le> length (drop m body)" using la Suc.prems(3) by simp
      show "n - length ?acc + (if rdNext ?s3 = stop ?s3 then 1 else 0) < fuel"
        using la lt Suc.prems(2,4) mw rel_bounds [OF r] by (auto split: if_splits)
    qed
    moreover have "?acc @ take (n - length ?acc) (drop m body) = acc @ take (n - length acc) body"
      using la mw False by (simp add: take_drop_split [of m "n - length acc" body])
    moreover have "drop (n - length ?acc) (drop m body) = drop (n - length acc) body"
      using la mw False by simp
    moreover have "length ?acc \<noteq> n" using la mw False by simp
    ultimately show ?thesis using f rel_open [OF r2] by (simp add: round Let_def)
  qed
qed

lemma GetStr_loop_short:
  assumes "rel s c body t" "length acc + length body < n"
    "length body + (if rdNext s = stop s then 1 else 0) < fuel"
  shows "\<exists>s' c'. GetStr_loop fill fuel n acc s c = Some (acc @ body, s', c') \<and>
           isClosed s' \<and> fin s' c' t"
  using assms
proof (induction fuel arbitrary: acc s c body)
  case 0
  then show ?case by simp
next
  case (Suc fuel)
  define m where "m = min (n - length acc) (stop s - rdNext s)"
  let ?s1 = "s\<lparr>rdNext := rdNext s + m\<rparr>" and ?acc = "acc @ take m body"
  note r = Suc.prems(1)
  note round = GetStr_loop_round [OF r m_def]
  have mw: "m = stop s - rdNext s" using window_le [OF r] Suc.prems(2) by (simp add: m_def)
  have ml: "m \<le> length body" using window_le [OF r] mw by simp
  then have la: "length ?acc = length acc + m" "length ?acc \<noteq> n" using Suc.prems(2) by auto
  have r1: "rel ?s1 c (drop m body) t" by (rule rel_take [OF r]) (simp add: mw)
  have eq: "rdNext ?s1 = stop ?s1" using mw rel_bounds [OF r] by simp
  show ?case
  proof (cases "drop m body = []")
    case True
    then obtain s2 c2 where "fill ?s1 c = Some (s2, c2)" "isClosed s2" "fin s2 c2 t"
      using fill_end [of ?s1 c t] r1 eq by auto
    then show ?thesis using True la by (simp add: round Let_def)
  next
    case False
    obtain s2 c2 where f: "fill ?s1 c = Some (s2, c2)" and r2: "rel s2 c2 (drop m body) t"
      and lt: "rdNext s2 < stop s2"
      using fill_more [OF r1 eq False] by auto
    let ?s3 = "s2\<lparr>stopUnget := Some (rdNext s2)\<rparr>"
    have "\<exists>s' c'. GetStr_loop fill fuel n ?acc ?s3 c2 = Some (?acc @ drop m body, s', c') \<and>
        isClosed s' \<and> fin s' c' t"
    proof (rule Suc.IH [OF rel_unget [OF r2]])
      show "length ?acc + length (drop m body) < n" using la Suc.prems(2) ml by simp
      show "length (drop m body) + (if rdNext ?s3 = stop ?s3 then 1 else 0) < fuel"
        using lt Suc.prems(3) mw ml rel_bounds [OF r] by (auto split: if_splits)
    qed
    then show ?thesis using f la rel_open [OF r2] by (simp add: round Let_def)
  qed
qed

lemma GetStr_enough:
  assumes r: "rel s c body t" and n: "n \<le> length body"
  shows "\<exists>s' c'. FCGX_GetStr fill (int n) s c = Some (take n body, s', c') \<and> rel s' c' (drop n body) t"
proof (cases "n = 0 \<or> n \<le> stop s - rdNext s")
  case True
  have "rel (s\<lparr>rdNext := rdNext s + n\<rparr>) c (drop n body) t" if "n \<le> stop s - rdNext s"
    using rel_take [OF r that] .
  then show ?thesis
    using True r rel_open [OF r] rel_bounds [OF r] window_read [OF r, of n]
    by (auto simp: FCGX_GetStr_def)
next
  case False
  then have "\<not> int n \<le> int (stop s) - int (rdNext s)" using rel_bounds [OF r] by arith
  moreover have "\<exists>s' c'. GetStr_loop fill (n + 2) n [] s c = Some ([] @ take (n - length ([] :: byte list)) body, s', c') \<and>
           rel s' c' (drop (n - length ([] :: byte list)) body) t"
    by (rule GetStr_loop_enough) (use r False n in \<open>auto split: if_splits\<close>)
  ultimately show ?thesis using False rel_open [OF r] by (simp add: FCGX_GetStr_def)
qed

lemma GetStr_short:
  assumes r: "rel s c body t" and n: "length body < n"
  shows "\<exists>s' c'. FCGX_GetStr fill (int n) s c = Some (body, s', c') \<and> isClosed s' \<and> fin s' c' t"
proof -
  have "\<not> int n \<le> int (stop s) - int (rdNext s)" using window_le [OF r] n by arith
  moreover have "\<exists>s' c'. GetStr_loop fill (n + 2) n [] s c = Some ([] @ body, s', c') \<and>
           isClosed s' \<and> fin s' c' t"
    by (rule GetStr_loop_short) (use r n in \<open>auto split: if_splits\<close>)
  ultimately show ?thesis using n rel_open [OF r] by (simp add: FCGX_GetStr_def)
qed

text \<open>\<open>FCGX_GetLine\<close>: a whole line, a line cut by the size of the array, or the last line.\<close>

lemma GetLine_loop_line:
  assumes "rel s c body t" "line_of n body = body \<longrightarrow> length body = n \<or> (body \<noteq> [] \<and> last body = 10)"
  shows "\<exists>s' c'. GetLine_loop fill n acc s c = Some (Some (acc @ line_of n body), s', c') \<and>
           rel s' c' (drop (length (line_of n body)) body) t"
  using assms
proof (induction n arbitrary: acc s c body)
  case 0
  then show ?case by auto
next
  case (Suc n)
  then obtain b bs where b: "body = b # bs" by (cases body) auto
  obtain s1 c1 where g: "FCGX_GetChar fill s c = Some (uint b, s1, c1)" and r: "rel s1 c1 bs t"
    using GetChar_Cons Suc.prems(1) b by blast
  show ?case
  proof (cases "b = 10")
    case True
    then show ?thesis using g r b by (simp add: GetLine_loop.simps(2) uint_eq_iff10 EOF_int_def)
  next
    case False
    then have "line_of n bs = bs \<longrightarrow> length bs = n \<or> (bs \<noteq> [] \<and> last bs = 10)"
      using Suc.prems(2) b by (auto split: if_splits)
    with Suc.IH [OF r this, of "acc @ [b]"] False g b uint_eq_iff10 [of b]
    show ?thesis by (simp add: GetLine_loop.simps(2))
  qed
qed

lemma GetLine_loop_end:
  assumes "rel s c body t" "length body < n" "10 \<notin> set body"
  shows "\<exists>s' c'. GetLine_loop fill n acc s c =
             Some (if acc @ body = [] then None else Some (acc @ body), s', c') \<and>
           isClosed s' \<and> fin s' c' t"
  using assms
proof (induction n arbitrary: acc s c body)
  case 0
  then show ?case by simp
next
  case (Suc n)
  show ?case
  proof (cases body)
    case Nil
    then show ?thesis
      using GetChar_Nil [of s c t] Suc.prems(1) by (auto simp: GetLine_loop.simps(2))
  next
    case (Cons b bs)
    then obtain s1 c1 where "FCGX_GetChar fill s c = Some (uint b, s1, c1)" "rel s1 c1 bs t"
      using GetChar_Cons Suc.prems(1) by blast
    with Suc.IH [of s1 c1 bs "acc @ [b]"] Suc.prems Cons uint_eq_iff10 [of b]
    show ?thesis by (auto simp: GetLine_loop.simps(2))
  qed
qed

end

section \<open>Writing\<close>

definition put_byte :: "int \<Rightarrow> FCGX_Stream \<Rightarrow> (int \<times> FCGX_Stream) option" where
  "put_byte ch s = do {
     b \<leftarrow> buf_write (wrNext s) [word_of_int ch] (buff s);
     Some (uint (word_of_int ch :: byte), s\<lparr>buff := b, wrNext := Suc (wrNext s)\<rparr>)
   }"

definition FCGX_PutChar ::
  "'z empty_proc \<Rightarrow> int \<Rightarrow> FCGX_Stream \<Rightarrow> 'z conn_scheme \<Rightarrow>
   (int \<times> FCGX_Stream \<times> 'z conn_scheme) option" where
  "FCGX_PutChar emp ch s c =
     (if wrNext s \<noteq> stop s then do { (r, s) \<leftarrow> put_byte ch s; Some (r, s, c) }
      else if isClosed s \<or> isReader s then Some (EOF_int, s, c)
      else do {
        (s, c) \<leftarrow> emp s False c;
        if wrNext s \<noteq> stop s then do { (r, s) \<leftarrow> put_byte ch s; Some (r, s, c) }
        else if isClosed s then Some (EOF_int, s, c) else None
      })"

text \<open>The loop of \<open>FCGX_PutStr\<close>; \<open>str\<close> is what is left to write.\<close>

primrec PutStr_loop ::
  "'z empty_proc \<Rightarrow> nat \<Rightarrow> int \<Rightarrow> byte list \<Rightarrow> FCGX_Stream \<Rightarrow> 'z conn_scheme \<Rightarrow>
   (int \<times> FCGX_Stream \<times> 'z conn_scheme) option" where
  "PutStr_loop emp 0 n str s c = None"
| "PutStr_loop emp (Suc fuel) n str s c = do {
     let m = (if wrNext s \<noteq> stop s then min (length str) (stop s - wrNext s) else 0);
     b \<leftarrow> buf_write (wrNext s) (take m str) (buff s);
     let s' = s\<lparr>buff := b, wrNext := wrNext s + m\<rparr>;
     let str' = drop m str;
     if wrNext s \<noteq> stop s \<and> str' = [] then Some (n, s', c)
     else if isClosed s' \<or> isReader s' then Some (-1, s', c)
     else do {
       (s'', c) \<leftarrow> emp s' False c;
       PutStr_loop emp fuel n str' s'' c
     }
   }"

declare PutStr_loop.simps(2) [simp del]

definition FCGX_PutStr ::
  "'z empty_proc \<Rightarrow> byte list \<Rightarrow> FCGX_Stream \<Rightarrow> 'z conn_scheme \<Rightarrow>
   (int \<times> FCGX_Stream \<times> 'z conn_scheme) option" where
  "FCGX_PutStr emp str s c =
     (if int (length str) \<le> int (stop s) - int (wrNext s) then do {
        b \<leftarrow> buf_write (wrNext s) str (buff s);
        Some (int (length str), s\<lparr>buff := b, wrNext := wrNext s + length str\<rparr>, c)
      }
      else PutStr_loop emp (length str + 2) (int (length str)) str s c)"

definition FCGX_PutS ::
  "'z empty_proc \<Rightarrow> byte list \<Rightarrow> FCGX_Stream \<Rightarrow> 'z conn_scheme \<Rightarrow>
   (int \<times> FCGX_Stream \<times> 'z conn_scheme) option" where
  "FCGX_PutS emp str s c = FCGX_PutStr emp (takeWhile (\<lambda>b. b \<noteq> 0) str) s c"

definition FCGX_FFlush ::
  "'z empty_proc \<Rightarrow> FCGX_Stream \<Rightarrow> 'z conn_scheme \<Rightarrow> (int \<times> FCGX_Stream \<times> 'z conn_scheme) option" where
  "FCGX_FFlush emp s c =
     (if isClosed s \<or> isReader s then Some (0, s, c)
      else do {
        (s, c) \<leftarrow> emp s False c;
        Some (if isClosed s then -1 else 0, s, c)
      })"

definition FCGX_FClose ::
  "'z empty_proc \<Rightarrow> FCGX_Stream option \<Rightarrow> 'z conn_scheme \<Rightarrow>
   (int \<times> FCGX_Stream option \<times> 'z conn_scheme) option" where
  "FCGX_FClose emp so c =
     (case so of None \<Rightarrow> Some (0, None, c)
      | Some s \<Rightarrow> do {
          (s, c) \<leftarrow> (if wasFCloseCalled s then Some (s, c)
                     else do {
                       (s, c) \<leftarrow> (if isReader s then Some (s, c) else emp s True c);
                       let s = s\<lparr>wasFCloseCalled := True, isClosed := True\<rparr>;
                       Some (if isReader s then s\<lparr>stop := rdNext s, wrNext := rdNext s\<rparr>
                             else s\<lparr>stop := wrNext s, rdNext := wrNext s\<rparr>, c)
                     });
          Some (if FCGI_errno s = 0 then 0 else EOF_int, Some s, c)
        })"

section \<open>The contract of an empty procedure\<close>

text \<open>
  \<open>rel s c out\<close> says that \<open>out\<close> is what has been written through the stream so far, sent or
  still in its buffer.
\<close>

definition put_bytes :: "byte list \<Rightarrow> FCGX_Stream \<Rightarrow> FCGX_Stream" where
  "put_bytes bs s =
     s\<lparr>buff := take (wrNext s) (buff s) @ bs @ drop (wrNext s + length bs) (buff s),
       wrNext := wrNext s + length bs\<rparr>"

locale byte_sink =
  fixes emp :: "'z empty_proc"
    and rel :: "FCGX_Stream \<Rightarrow> 'z conn_scheme \<Rightarrow> byte list \<Rightarrow> bool"
  assumes rel_open: "rel s c out \<Longrightarrow> \<not> isReader s \<and> \<not> isClosed s"
    and rel_bounds: "rel s c out \<Longrightarrow> wrNext s \<le> stop s \<and> stop s \<le> length (buff s)"
    and rel_put: "rel s c out \<Longrightarrow> length bs \<le> stop s - wrNext s \<Longrightarrow> rel (put_bytes bs s) c (out @ bs)"
    and flush: "rel s c out \<Longrightarrow>
       \<exists>s' c'. emp s False c = Some (s', c') \<and> rel s' c' out \<and> wrNext s' < stop s'"
begin

lemma write_put:
  "rel s c out \<Longrightarrow> length bs \<le> stop s - wrNext s \<Longrightarrow>
   buf_write (wrNext s) bs (buff s) = Some (buff (put_bytes bs s))"
  using rel_bounds [of s c out] by (auto simp: buf_write_def put_bytes_def)

lemma put_byte_rel:
  assumes "rel s c out" "wrNext s < stop s"
  shows "put_byte (uint b) s = Some (uint b, put_bytes [b] s) \<and> rel (put_bytes [b] s) c (out @ [b])"
  using write_put [OF assms(1), of "[b]"] rel_put [OF assms(1), of "[b]"] assms(2)
  by (auto simp: put_byte_def put_bytes_def)

lemma PutChar_rel:
  assumes r: "rel s c out"
  shows "\<exists>s' c'. FCGX_PutChar emp (uint b) s c = Some (uint b, s', c') \<and> rel s' c' (out @ [b])"
proof (cases "wrNext s = stop s")
  case False
  then show ?thesis
    using put_byte_rel [OF r, of b] rel_bounds [OF r] by (auto simp: FCGX_PutChar_def)
next
  case True
  obtain s' c' where "emp s False c = Some (s', c')" "rel s' c' out" "wrNext s' < stop s'"
    using flush [OF r] by blast
  then show ?thesis
    using True put_byte_rel [of s' c' out b] rel_open [OF r] by (auto simp: FCGX_PutChar_def)
qed

lemma PutStr_loop_rel:
  assumes "rel s c out" "stop s - wrNext s < length bs" "length bs + (if wrNext s = stop s then 1 else 0) < fuel"
  shows "\<exists>s' c'. PutStr_loop emp fuel n bs s c = Some (n, s', c') \<and> rel s' c' (out @ bs)"
  using assms
proof (induction fuel arbitrary: s c out bs)
  case 0
  then show ?case by simp
next
  case (Suc fuel)
  note r = Suc.prems(1)
  define m where "m = stop s - wrNext s"
  have m: "(if wrNext s \<noteq> stop s then min (length bs) (stop s - wrNext s) else 0) = m"
    using Suc.prems(2) by (simp add: m_def)
  let ?s = "put_bytes (take m bs) s" and ?bs = "drop m bs"
  have l: "length (take m bs) = m" using Suc.prems(2) by (simp add: m_def)
  have w: "buf_write (wrNext s) (take m bs) (buff s) = Some (buff ?s)"
    using write_put [OF r, of "take m bs"] l by (simp add: m_def)
  have r1: "rel ?s c (out @ take m bs)" using rel_put [OF r, of "take m bs"] l by (simp add: m_def)
  have s1: "s\<lparr>buff := buff ?s, wrNext := wrNext s + m\<rparr> = ?s" using l by (simp add: put_bytes_def)
  obtain s2 c2 where f: "emp ?s False c = Some (s2, c2)" and r2: "rel s2 c2 (out @ take m bs)"
    and lt: "wrNext s2 < stop s2" using flush [OF r1] by blast
  have ne: "?bs \<noteq> []" using Suc.prems(2) by (simp add: m_def)
  have step: "PutStr_loop emp (Suc fuel) n bs s c = PutStr_loop emp fuel n ?bs s2 c2"
    using ne f rel_open [OF r] by (simp only: PutStr_loop.simps(2) m Let_def w s1) (simp add: s1 w)
  have progress: "length ?bs < fuel" using Suc.prems(2,3) rel_bounds [OF r] by (auto simp: m_def split: if_splits)
  show ?case
  proof (cases "length ?bs \<le> stop s2 - wrNext s2")
    case True
    obtain f where fl: "fuel = Suc f" using progress by (cases fuel) auto
    have m2: "(if wrNext s2 \<noteq> stop s2 then min (length ?bs) (stop s2 - wrNext s2) else 0) = length ?bs"
      using True lt by simp
    have "PutStr_loop emp fuel n ?bs s2 c2 = Some (n, put_bytes ?bs s2, c2)"
      using lt write_put [OF r2 True]
      unfolding fl PutStr_loop.simps(2) m2 Let_def by (simp add: put_bytes_def)
    then show ?thesis using step rel_put [OF r2 True] by simp
  next
    case False
    have "\<exists>s' c'. PutStr_loop emp fuel n ?bs s2 c2 = Some (n, s', c') \<and> rel s' c' ((out @ take m bs) @ ?bs)"
      by (rule Suc.IH [OF r2]) (use False lt progress in auto)
    then show ?thesis using step by simp
  qed
qed

lemma PutStr_rel:
  assumes r: "rel s c out"
  shows "\<exists>s' c'. FCGX_PutStr emp bs s c = Some (int (length bs), s', c') \<and> rel s' c' (out @ bs)"
proof (cases "length bs \<le> stop s - wrNext s")
  case True
  then have "int (length bs) \<le> int (stop s) - int (wrNext s)" using rel_bounds [OF r] by linarith
  then show ?thesis
    using write_put [OF r True] rel_put [OF r True] by (simp add: FCGX_PutStr_def put_bytes_def)
next
  case False
  then have "\<not> int (length bs) \<le> int (stop s) - int (wrNext s)" by linarith
  moreover have "\<exists>s' c'. PutStr_loop emp (length bs + 2) (int (length bs)) bs s c =
      Some (int (length bs), s', c') \<and> rel s' c' (out @ bs)"
    by (rule PutStr_loop_rel [OF r]) (use False in auto)
  ultimately show ?thesis by (simp add: FCGX_PutStr_def)
qed

lemma FFlush_rel:
  assumes r: "rel s c out"
  shows "\<exists>s' c'. FCGX_FFlush emp s c = Some (0, s', c') \<and> rel s' c' out"
  using flush [OF r] rel_open [OF r] rel_open by (fastforce simp: FCGX_FFlush_def)

end

end
