(* ===== verification/Fcgi_Params.thy ===== *)
theory Fcgi_Params
  imports Fcgi_Stream
begin

text \<open>
  The parameter vector of \<open>fcgiapp.c\<close> and the decoder of FastCGI name-value pairs.
  \<open>vec\<close> is the array of pointers, \<open>None\<close> for NULL; \<open>cur\<close> is the index \<open>paramsPtr->cur\<close> points to.
\<close>

section \<open>The vector\<close>

record Params =
  vec :: "byte list option list"
  vlength :: nat
  cur :: nat

text \<open>
  \<open>NewParams\<close> writes NULL to the first slot, so a vector of length 0 is an overflow.  The other
  slots are not initialised; they are never read before they are written, and hold NULL here.
\<close>

definition NewParams :: "nat \<Rightarrow> Params option" where
  "NewParams n =
     (if n = 0 then None else Some \<lparr>vec = replicate n None, vlength = n, cur = 0\<rparr>)"

definition PutParam :: "Params \<Rightarrow> byte list \<Rightarrow> Params option" where
  "PutParam p nameValue = do {
     v \<leftarrow> buf_write (cur p) [Some nameValue] (vec p);
     let size = Suc (cur p);
     let p = p\<lparr>vec := v, cur := size\<rparr>;
     let p = (if vlength p \<le> size
              then p\<lparr>vlength := vlength p * 2,
                     vec := vec p @ replicate (vlength p * 2 - length (vec p)) None\<rparr>
              else p);
     v \<leftarrow> buf_write (cur p) [None] (vec p);
     Some (p\<lparr>vec := v\<rparr>)
   }"

text \<open>The strings from \<open>vec\<close> up to \<open>cur\<close>.\<close>

definition params_list :: "Params \<Rightarrow> byte list list" where
  "params_list p = map the (take (cur p) (vec p))"

definition params_wf :: "Params \<Rightarrow> bool" where
  "params_wf p \<longleftrightarrow>
     length (vec p) = vlength p \<and> cur p < vlength p \<and>
     (\<forall>i < cur p. vec p ! i \<noteq> None) \<and> vec p ! cur p = None"

text \<open>
  \<open>FCGX_GetParam\<close> walks the entries up to the NULL pointer.  An entry is a C string \<open>name=value\<close>;
  \<open>strncmp\<close> stops at its NUL.
\<close>

fun FCGX_GetParam :: "byte list \<Rightarrow> byte list option list \<Rightarrow> byte list option" where
  "FCGX_GetParam name [] = None"
| "FCGX_GetParam name (None # envp) = None"
| "FCGX_GetParam name (Some e # envp) =
     (let p = takeWhile (\<lambda>b. b \<noteq> 0) e; len = length name
      in if take len p = name \<and> len < length p \<and> p ! len = 61
         then Some (drop (Suc len) p) else FCGX_GetParam name envp)"

section \<open>Name-value pairs\<close>

text \<open>
  The four-byte length: \<open>((b & 0x7f) << 24) + (b2 << 16) + (b1 << 8) + b0\<close>.
\<close>

definition long_len :: "int \<Rightarrow> byte list \<Rightarrow> int" where
  "long_len b bs =
     push_bit 24 (b AND 127) + push_bit 16 (uint (bs ! 0)) + push_bit 8 (uint (bs ! 1)) + uint (bs ! 2)"

text \<open>
  The allocation \<open>Malloc(nameLen + valueLen + 2)\<close>: the sum is computed at the width of \<open>int\<close> and
  converted to \<open>size_t\<close>, here to 64 bits with sign extension.  A sum that wraps to a negative
  number asks for more than any \<open>malloc\<close> gives, so \<open>Malloc\<close> fails; a sum that wraps to a small
  one returns a block the copies below overrun.  Either way the outcome is \<open>None\<close>.
\<close>

definition params_alloc :: "int \<Rightarrow> int \<Rightarrow> 64 word" where
  "params_alloc nameLen valueLen =
     signed (word_of_int nameLen + word_of_int valueLen + 2 :: 32 word)"

definition Malloc :: "64 word \<Rightarrow> nat option" where
  "Malloc n = (if unat n < 2 ^ 63 then Some (unat n) else None)"

text \<open>A length field: one byte, or four when the top bit of the first is set.\<close>

definition read_len ::
  "'z fill_proc \<Rightarrow> int \<Rightarrow> FCGX_Stream \<Rightarrow> 'z conn_scheme \<Rightarrow>
   (int option \<times> FCGX_Stream \<times> 'z conn_scheme) option" where
  "read_len fill b s c =
     (if b AND 128 \<noteq> 0 then do {
        (bs, s, c) \<leftarrow> FCGX_GetStr fill 3 s c;
        if length bs \<noteq> 3 then Some (None, SetError FCGX_PARAMS_ERROR s, c)
        else Some (Some (long_len b bs), s, c)
      } else Some (Some b, s, c))"

text \<open>
  One pair, after its first byte \<open>b\<close> has been read.  The result is \<open>None\<close> for the error
  return, else the string \<open>name=value\<close>.
\<close>

definition read_pair ::
  "'z fill_proc \<Rightarrow> int \<Rightarrow> FCGX_Stream \<Rightarrow> 'z conn_scheme \<Rightarrow>
   (byte list option \<times> FCGX_Stream \<times> 'z conn_scheme) option" where
  "read_pair fill b s c = do {
     (nl, s, c) \<leftarrow> read_len fill b s c;
     case nl of None \<Rightarrow> Some (None, s, c) | Some nameLen \<Rightarrow> do {
       (b2, s, c) \<leftarrow> FCGX_GetChar fill s c;
       if b2 = EOF_int then Some (None, SetError FCGX_PARAMS_ERROR s, c)
       else do {
         (vl, s, c) \<leftarrow> read_len fill b2 s c;
         case vl of None \<Rightarrow> Some (None, s, c) | Some valueLen \<Rightarrow> do {
           size \<leftarrow> Malloc (params_alloc nameLen valueLen);
           (name, s, c) \<leftarrow> FCGX_GetStr fill nameLen s c;
           if size < length name then None
           else if int (length name) \<noteq> nameLen
           then Some (None, SetError FCGX_PARAMS_ERROR s, c)
           else if int size \<le> nameLen then None
           else do {
             (val, s, c) \<leftarrow> FCGX_GetStr fill valueLen s c;
             if int size < nameLen + 1 + int (length val) then None
             else if int (length val) \<noteq> valueLen
             then Some (None, SetError FCGX_PARAMS_ERROR s, c)
             else if int size \<le> nameLen + valueLen + 1 then None
             else Some (Some (name @ [61] @ val), s, c)
           }
         }
       }
     }
   }"

primrec ReadParams_loop ::
  "'z fill_proc \<Rightarrow> nat \<Rightarrow> Params \<Rightarrow> FCGX_Stream \<Rightarrow> 'z conn_scheme \<Rightarrow>
   (int \<times> Params \<times> FCGX_Stream \<times> 'z conn_scheme) option" where
  "ReadParams_loop fill 0 p s c = None"
| "ReadParams_loop fill (Suc fuel) p s c = do {
     (b, s, c) \<leftarrow> FCGX_GetChar fill s c;
     if b = EOF_int then Some (0, p, s, c)
     else do {
       (nv, s, c) \<leftarrow> read_pair fill b s c;
       case nv of None \<Rightarrow> Some (-1, p, s, c)
       | Some nameValue \<Rightarrow> do {
           p \<leftarrow> PutParam p nameValue;
           ReadParams_loop fill fuel p s c
         }
     }
   }"

declare ReadParams_loop.simps(2) [simp del]

text \<open>
  Every round of the loop takes at least one byte, so the bytes not yet consumed bound the
  number of rounds.
\<close>

definition ReadParams ::
  "'z fill_proc \<Rightarrow> Params \<Rightarrow> FCGX_Stream \<Rightarrow> 'z conn_scheme \<Rightarrow>
   (int \<times> Params \<times> FCGX_Stream \<times> 'z conn_scheme) option" where
  "ReadParams fill p s c = ReadParams_loop fill (Suc (input_size s c)) p s c"

section \<open>The encoding of a pair\<close>

text \<open>
  What the peer sends for a pair: the two lengths, in one byte or in four, then name and value.
  The peer may use the long form for a short length too.  \<open>nv_entry\<close> is the string the
  decoder is to store for it.
\<close>

definition len_bytes :: "bool \<Rightarrow> nat \<Rightarrow> byte list" where
  "len_bytes long n =
     (if long then [word_of_nat (128 + n div 2 ^ 24), word_of_nat (n div 2 ^ 16),
                    word_of_nat (n div 2 ^ 8), word_of_nat n]
      else [word_of_nat n])"

record nv_pair =
  nv_long_name :: bool
  nv_long_value :: bool
  nv_name :: "byte list"
  nv_value :: "byte list"

definition nv_bytes :: "nv_pair \<Rightarrow> byte list" where
  "nv_bytes p = len_bytes (nv_long_name p) (length (nv_name p)) @
     len_bytes (nv_long_value p) (length (nv_value p)) @ nv_name p @ nv_value p"

definition nv_ok :: "nv_pair \<Rightarrow> bool" where
  "nv_ok p \<longleftrightarrow>
     (nv_long_name p \<or> length (nv_name p) < 128) \<and>
     (nv_long_value p \<or> length (nv_value p) < 128) \<and>
     length (nv_name p) + length (nv_value p) + 2 < 2 ^ 31"

definition nv_entry :: "nv_pair \<Rightarrow> byte list" where
  "nv_entry p = nv_name p @ [61] @ nv_value p"

lemma and_127: "x AND 127 = x mod 128" for x :: int
  using take_bit_eq_mask [of 7 x] by (simp add: take_bit_eq_mod mask_eq_exp_minus_1)

lemma and_128: "x AND 128 \<noteq> 0 \<longleftrightarrow> odd (x div 128)" for x :: int
  using and_exp_eq_0_iff_not_bit [of x 7] by (simp add: bit_iff_odd)

lemma uint_byte_of_nat: "uint (word_of_nat n :: byte) = int n mod 256"
proof -
  have "uint (word_of_nat n :: byte) = take_bit 8 (int n)"
    by (simp add: unsigned_of_nat take_bit_of_nat)
  then show ?thesis by (simp add: take_bit_eq_mod)
qed

lemma byte_and_128: "uint (word_of_nat n :: byte) AND 128 \<noteq> 0 \<longleftrightarrow> 128 \<le> n mod 256"
proof -
  have "odd (k div 128) \<longleftrightarrow> 128 \<le> k" if "k < 256" for k :: nat
  proof (cases "128 \<le> k")
    case True
    then have "k div 128 = 1" using that by (simp add: div_nat_eqI)
    then show ?thesis using True by simp
  qed simp
  from this [of "n mod 256"] have "odd (int (n mod 256 div 128)) \<longleftrightarrow> 128 \<le> n mod 256" by simp
  then show ?thesis unfolding and_128 uint_byte_of_nat by (simp only: of_nat_div of_nat_mod of_nat_numeral)
qed

lemma bytes4_value:
  "int (n div 16777216) * 16777216 + int (n div 65536) mod 256 * 65536 +
   int (n div 256) mod 256 * 256 + int n mod 256 = int n"
proof -
  define a b c where "a = int n div 256" and "b = a div 256" and "c = b div 256"
  have d: "int (n div 256) = a" "int (n div 65536) = b" "int (n div 16777216) = c"
    by (simp_all add: a_def b_def c_def of_nat_div zdiv_zmult2_eq [symmetric])
  have "int n = a * 256 + int n mod 256" "a = b * 256 + a mod 256" "b = c * 256 + b mod 256"
    by (simp_all add: a_def b_def c_def)
  then show ?thesis unfolding d by linarith
qed

lemma long_len_bytes:
  "n < 2 ^ 31 \<Longrightarrow>
   long_len (uint (word_of_nat (128 + n div 2 ^ 24) :: byte))
     [word_of_nat (n div 2 ^ 16), word_of_nat (n div 2 ^ 8), word_of_nat n] = int n"
proof -
  assume n: "n < 2 ^ 31"
  have "(128 + n div 16777216) mod 256 mod 128 = n div 16777216" using n by simp
  then have "int ((128 + n div 16777216) mod 256 mod 128) = int (n div 16777216)" by simp
  then have 1: "int (128 + n div 16777216) mod 256 mod 128 = int (n div 16777216)"
    by (simp only: of_nat_mod of_nat_numeral)
  show ?thesis
    using n 1 unfolding long_len_def and_127
    by (simp add: uint_byte_of_nat push_bit_eq_mult bytes4_value del: of_nat_add)
qed

lemma params_alloc_small:
  assumes "n + v + 2 < 2 ^ 31"
  shows "unat (params_alloc (int n) (int v)) = n + v + 2"
proof -
  have "word_of_int (int n) + word_of_int (int v) + 2 = (word_of_int (int (n + v + 2)) :: 32 word)"
    by simp
  moreover have "signed_take_bit 31 (int (n + v + 2)) = int (n + v + 2)"
    by (rule signed_take_bit_int_eq_self) (use assms in simp_all)
  ultimately have "params_alloc (int n) (int v) = word_of_int (int (n + v + 2))"
    unfolding params_alloc_def by (simp only: signed_of_int) simp
  then have "unat (params_alloc (int n) (int v)) = nat (take_bit 64 (int (n + v + 2)))"
    by (simp only: unsigned_of_int) simp
  moreover have "take_bit 64 (int (n + v + 2)) = int (n + v + 2)"
    by (rule take_bit_int_eq_self) (use assms in simp_all)
  ultimately show ?thesis by simp
qed

section \<open>The vector grows\<close>

lemma PutParam_wf:
  assumes p: "params_wf p"
  shows "\<exists>p'. PutParam p e = Some p' \<and> params_wf p' \<and> params_list p' = params_list p @ [e]"
proof -
  define k where "k = cur p"
  define v where "v = take k (vec p) @ Some e # drop (Suc k) (vec p)"
  have len: "length v = vlength p" and k: "k < vlength p" and vec: "length (vec p) = vlength p"
    using p by (auto simp: params_wf_def v_def k_def)
  have w: "buf_write (cur p) [Some e] (vec p) = Some v"
    using k vec by (simp add: buf_simps v_def k_def)
  have n: "v ! i \<noteq> None" if "i \<le> k" for i
    using that p vec k by (cases "i = k") (auto simp: v_def params_wf_def k_def nth_append)
  have t: "take (Suc k) v = take k (vec p) @ [Some e]"
    using k vec by (simp add: v_def)
  define u where "u = (if vlength p \<le> Suc k then v @ replicate (vlength p) None else v)"
  have u: "Suc k < length u" "take (Suc k) u = take (Suc k) v" "\<forall>i \<le> k. u ! i \<noteq> None"
    using k len n by (auto simp: u_def nth_append)
  define u' where "u' = take (Suc k) u @ None # drop (Suc (Suc k)) u"
  have b: "buf_write (Suc k) [None] u = Some u'" using u(1) by (simp add: buf_simps u'_def)
  have u': "length u' = length u" "take (Suc k) u' = take (Suc k) u" "u' ! Suc k = None"
    "\<forall>i \<le> k. u' ! i \<noteq> None"
    using u(1,3) by (auto simp: u'_def nth_append)
  have "PutParam p e = Some \<lparr>vec = u', vlength = length u, cur = Suc k\<rparr>"
    using w b len k by (auto simp: PutParam_def k_def [symmetric] u_def)
  moreover have "params_list \<lparr>vec = u', vlength = length u, cur = Suc k\<rparr> = params_list p @ [e]"
    using u(2) u'(2) t by (simp add: params_list_def k_def)
  ultimately show ?thesis using u' u(1) by (auto simp: params_wf_def less_Suc_eq_le)
qed

section \<open>Decoding what was encoded\<close>

context byte_source
begin

lemma read_len_bytes:
  assumes r: "rel s c (len_bytes l n @ rest) t" and n: "l \<or> n < 128" "n < 2 ^ 31"
  shows "\<exists>s1 c1 b s' c'. FCGX_GetChar fill s c = Some (b, s1, c1) \<and> b \<noteq> EOF_int \<and>
           read_len fill b s1 c1 = Some (Some (int n), s', c') \<and> rel s' c' rest t"
proof (cases l)
  case False
  then have lb: "len_bytes l n = [word_of_nat n]" and small: "n < 128" using n by (simp_all add: len_bytes_def)
  obtain s1 c1 where g: "FCGX_GetChar fill s c = Some (uint (word_of_nat n :: byte), s1, c1)"
    and r1: "rel s1 c1 rest t"
    using GetChar_Cons [of s c "word_of_nat n" rest t] r lb by auto
  have "read_len fill (uint (word_of_nat n :: byte)) s1 c1 = Some (Some (int n), s1, c1)"
    using byte_and_128 [of n] small by (simp add: read_len_def uint_byte_of_nat)
  then show ?thesis using g r1 uint_not_EOF by blast
next
  case True
  let ?h = "word_of_nat (128 + n div 2 ^ 24) :: byte"
  let ?bs = "[word_of_nat (n div 2 ^ 16), word_of_nat (n div 2 ^ 8), word_of_nat n] :: byte list"
  have "len_bytes l n @ rest = ?h # (?bs @ rest)" using True by (simp add: len_bytes_def)
  then obtain s1 c1 where g: "FCGX_GetChar fill s c = Some (uint ?h, s1, c1)"
    and r1: "rel s1 c1 (?bs @ rest) t"
    using GetChar_Cons [of s c ?h "?bs @ rest" t] r by auto
  obtain s2 c2 where g2: "FCGX_GetStr fill 3 s1 c1 = Some (?bs, s2, c2)" and r2: "rel s2 c2 rest t"
    using GetStr_enough [OF r1, of 3] by auto
  have "128 \<le> (128 + n div 2 ^ 24) mod 256" using n by simp
  then have "read_len fill (uint ?h) s1 c1 = Some (Some (int n), s2, c2)"
    using g2 long_len_bytes [OF n(2)] byte_and_128 [of "128 + n div 2 ^ 24"]
    by (simp add: read_len_def)
  then show ?thesis using g r2 uint_not_EOF by blast
qed

lemma read_pair_bytes:
  assumes r: "rel s c (nv_bytes p @ rest) t" and p: "nv_ok p"
  shows "\<exists>s1 c1 b s' c'. FCGX_GetChar fill s c = Some (b, s1, c1) \<and> b \<noteq> EOF_int \<and>
           read_pair fill b s1 c1 = Some (Some (nv_entry p), s', c') \<and> rel s' c' rest t"
proof -
  let ?n = "length (nv_name p)" and ?v = "length (nv_value p)"
  have r': "rel s c (len_bytes (nv_long_name p) ?n @ len_bytes (nv_long_value p) ?v @
      nv_name p @ nv_value p @ rest) t"
    using r by (simp add: nv_bytes_def)
  obtain s1 c1 b s2 c2 where 1: "FCGX_GetChar fill s c = Some (b, s1, c1)" "b \<noteq> EOF_int"
    "read_len fill b s1 c1 = Some (Some (int ?n), s2, c2)"
    and r2: "rel s2 c2 (len_bytes (nv_long_value p) ?v @ nv_name p @ nv_value p @ rest) t"
    using read_len_bytes [OF r'] p by (fastforce simp: nv_ok_def)
  obtain s3 c3 b2 s4 c4 where 2: "FCGX_GetChar fill s2 c2 = Some (b2, s3, c3)" "b2 \<noteq> EOF_int"
    "read_len fill b2 s3 c3 = Some (Some (int ?v), s4, c4)"
    and r4: "rel s4 c4 (nv_name p @ nv_value p @ rest) t"
    using read_len_bytes [OF r2] p by (fastforce simp: nv_ok_def)
  obtain s5 c5 where 3: "FCGX_GetStr fill (int ?n) s4 c4 = Some (nv_name p, s5, c5)"
    and r5: "rel s5 c5 (nv_value p @ rest) t"
    using GetStr_enough [OF r4, of ?n] by auto
  obtain s6 c6 where 4: "FCGX_GetStr fill (int ?v) s5 c5 = Some (nv_value p, s6, c6)"
    and r6: "rel s6 c6 rest t"
    using GetStr_enough [OF r5, of ?v] by auto
  have a: "unat (params_alloc (int ?n) (int ?v)) = ?n + ?v + 2"
    by (rule params_alloc_small) (use p in \<open>simp add: nv_ok_def\<close>)
  then have "Malloc (params_alloc (int ?n) (int ?v)) = Some (?n + ?v + 2)"
    using p by (simp add: Malloc_def nv_ok_def)
  then have "read_pair fill b s1 c1 = Some (Some (nv_entry p), s6, c6)"
    using 1 2 3 4 by (simp add: read_pair_def nv_entry_def)
  then show ?thesis using 1 r6 by blast
qed

lemma ReadParams_loop_bytes:
  assumes "rel s c (concat (map nv_bytes ps)) t" "\<forall>p \<in> set ps. nv_ok p" "params_wf v"
    "length ps < fuel"
  shows "\<exists>v' s' c'. ReadParams_loop fill fuel v s c = Some (0, v', s', c') \<and> params_wf v' \<and>
           params_list v' = params_list v @ map nv_entry ps \<and> isClosed s' \<and> fin s' c' t"
  using assms
proof (induction ps arbitrary: s c v fuel)
  case Nil
  then obtain f where "fuel = Suc f" by (cases fuel) auto
  then show ?case using GetChar_Nil [of s c t] Nil by (auto simp: ReadParams_loop.simps(2))
next
  case (Cons p ps)
  then obtain f where f: "fuel = Suc f" "length ps < f" by (cases fuel) auto
  have r: "rel s c (nv_bytes p @ concat (map nv_bytes ps)) t" using Cons.prems by simp
  obtain s1 c1 b s2 c2 where 1: "FCGX_GetChar fill s c = Some (b, s1, c1)" "b \<noteq> EOF_int"
    "read_pair fill b s1 c1 = Some (Some (nv_entry p), s2, c2)" and r2: "rel s2 c2 (concat (map nv_bytes ps)) t"
    using read_pair_bytes [OF r] Cons.prems by fastforce
  obtain v1 where 2: "PutParam v (nv_entry p) = Some v1" "params_wf v1"
    "params_list v1 = params_list v @ [nv_entry p]"
    using PutParam_wf Cons.prems by blast
  show ?case using Cons.IH [OF r2 _ 2(2) f(2)] Cons.prems 1 2 f by (auto simp: ReadParams_loop.simps(2))
qed

lemma nv_bytes_length: "length ps \<le> length (concat (map nv_bytes ps))"
proof (induction ps)
  case (Cons p ps)
  have "1 \<le> length (nv_bytes p)" by (simp add: nv_bytes_def len_bytes_def)
  with Cons show ?case by simp
qed simp

lemma ReadParams_bytes:
  assumes r: "rel s c (concat (map nv_bytes ps)) t" and "\<forall>p \<in> set ps. nv_ok p" "params_wf v"
  shows "\<exists>v' s' c'. ReadParams fill v s c = Some (0, v', s', c') \<and> params_wf v' \<and>
           params_list v' = params_list v @ map nv_entry ps \<and> isClosed s' \<and> fin s' c' t"
  unfolding ReadParams_def
  by (rule ReadParams_loop_bytes [OF r]) (use assms rel_size [OF r] nv_bytes_length [of ps] in auto)

end

end
