(* ===== verification/Fcgi_Reader.thy ===== *)
theory Fcgi_Reader
  imports Fcgi_Params
begin

text \<open>
  The reading side of the FastCGI connection: \<open>FillBuffProc\<close>, which takes records off the
  connection and gives a stream client the content of the records of its own stream, and the
  \<open>Process*\<close> functions that interpret the other records.

  \<open>FillBuffProc\<close> calls \<open>ProcessHeader\<close>, and \<open>ProcessHeader\<close> reads the body of a record through
  the same stream and so calls \<open>FillBuffProc\<close> again, with \<open>eorStop\<close> set.  A call with \<open>eorStop\<close>
  set returns before it interprets a header, so the recursion is tied by hand:
  \<open>FillBuffProc_loop\<close> takes the header procedure as an argument, \<open>FillBuffProc_eor\<close> is the
  inner call, which never runs its header procedure, and \<open>FillBuffProc\<close> the outer one.
\<close>

section \<open>Return codes of the Process functions\<close>

definition STREAM_RECORD :: int where "STREAM_RECORD = 0"
definition SKIP :: int where "SKIP = 1"
definition BEGIN_RECORD :: int where "BEGIN_RECORD = 2"
definition MGMT_RECORD :: int where "MGMT_RECORD = 3"

lemmas process_codes = STREAM_RECORD_def SKIP_def BEGIN_RECORD_def MGMT_RECORD_def

section \<open>FillBuffProc\<close>

text \<open>If the buffer is empty, do a read; \<open>False\<close> is the error return.\<close>

definition fill_read ::
  "FCGX_Stream \<Rightarrow> 'z conn_scheme \<Rightarrow> (bool \<times> FCGX_Stream \<times> 'z conn_scheme) option" where
  "fill_read s c =
     (if rdNext s = buffStop s then
        let (count, bs, c) = OS_Read (bufflen s) c
        in if count \<le> 0
           then Some (False, SetError (if count = 0 then FCGX_PROTOCOL_ERROR else os_errno c) s, c)
           else do {
             b \<leftarrow> buf_write 0 bs (buff s);
             Some (True, s\<lparr>buff := b, rdNext := 0, buffStop := nat count\<rparr>, c)
           }
      else Some (True, s, c))"

definition avail :: "FCGX_Stream \<Rightarrow> nat" where
  "avail s = buffStop s - rdNext s"

text \<open>Content of a record: deliver it, or step over it when it is to be skipped.\<close>

definition fill_deliver :: "FCGX_Stream \<Rightarrow> FCGX_Stream" where
  "fill_deliver s =
     (let count = min (contentLen s) (avail s)
      in s\<lparr>contentLen := contentLen s - count, stop := rdNext s + count, wrNext := rdNext s + count\<rparr>)"

definition fill_skip :: "FCGX_Stream \<Rightarrow> FCGX_Stream" where
  "fill_skip s =
     (let count = min (contentLen s) (avail s);
          s = s\<lparr>contentLen := contentLen s - count, rdNext := rdNext s + count\<rparr>
      in if 0 < contentLen s then s else s\<lparr>skip := False\<rparr>)"

definition fill_padding :: "FCGX_Stream \<Rightarrow> FCGX_Stream" where
  "fill_padding s =
     (let count = min (paddingLen s) (avail s)
      in s\<lparr>paddingLen := paddingLen s - count, rdNext := rdNext s + count\<rparr>)"

text \<open>What the loop does with the code \<open>ProcessHeader\<close> returned: \<open>True\<close> to go on.\<close>

definition fill_status :: "int \<Rightarrow> FCGX_Stream \<Rightarrow> (bool \<times> FCGX_Stream) option" where
  "fill_status status s =
     (if status = STREAM_RECORD then
        (if contentLen s = 0
         then Some (False, s\<lparr>stop := rdNext s, wrNext := rdNext s, isClosed := True\<rparr>)
         else Some (True, s))
      else if status = SKIP then Some (True, s\<lparr>skip := True\<rparr>)
      else if status = BEGIN_RECORD then Some (False, s)
      else if status = MGMT_RECORD then Some (True, s)
      else if status < 0 then Some (False, SetError status s)
      else None)"

type_synonym 'z header_proc =
  "FCGI_Header \<Rightarrow> FCGX_Stream \<Rightarrow> 'z conn_scheme \<Rightarrow> (int \<times> FCGX_Stream \<times> 'z conn_scheme) option"

text \<open>\<open>hdr\<close> is the part of the header structure that is filled; its length is \<open>headerLen\<close>.\<close>

primrec FillBuffProc_loop ::
  "'z header_proc \<Rightarrow> nat \<Rightarrow> byte list \<Rightarrow> FCGX_Stream \<Rightarrow> 'z conn_scheme \<Rightarrow>
   (FCGX_Stream \<times> 'z conn_scheme) option" where
  "FillBuffProc_loop ph 0 hdr s c = None"
| "FillBuffProc_loop ph (Suc fuel) hdr s c = do {
     (ok, s, c) \<leftarrow> fill_read s c;
     if \<not> ok then Some (s, c)
     else if 0 < contentLen s \<and> \<not> skip s then Some (fill_deliver s, c)
     else do {
       let s1 = (if 0 < contentLen s then fill_skip s else s);
       if 0 < contentLen s1 then FillBuffProc_loop ph fuel hdr s1 c
       else do {
         let s2 = (if 0 < paddingLen s1 then fill_padding s1 else s1);
         if 0 < paddingLen s2 then FillBuffProc_loop ph fuel hdr s2 c
         else if eorStop s2 then Some (s2\<lparr>stop := rdNext s2, isClosed := True\<rparr>, c)
         else do {
           let count = min (8 - length hdr) (avail s2);
           bs \<leftarrow> buf_read (rdNext s2) count (buff s2);
           let hdr' = hdr @ bs;
           let s3 = s2\<lparr>rdNext := rdNext s2 + count\<rparr>;
           if length hdr' < 8 then FillBuffProc_loop ph fuel hdr' s3 c
           else do {
             (status, s4, c) \<leftarrow> ph (header_of hdr') (s3\<lparr>eorStop := True, stop := rdNext s3\<rparr>) c;
             (go, s5) \<leftarrow> fill_status status (s4\<lparr>eorStop := False, isClosed := False\<rparr>);
             if go then FillBuffProc_loop ph fuel [] s5 c else Some (s5, c)
           }
         }
       }
     }
   }"

declare FillBuffProc_loop.simps(2) [simp del]

text \<open>Every round takes a byte off the buffer or the connection.\<close>

definition FillBuffProc_with :: "'z header_proc \<Rightarrow> 'z fill_proc" where
  "FillBuffProc_with ph s c = FillBuffProc_loop ph (Suc (input_size s c)) [] s c"

definition FillBuffProc_eor :: "'z fill_proc" where
  "FillBuffProc_eor = FillBuffProc_with (\<lambda>h s c. None)"

section \<open>Management records\<close>

definition mgmt_value :: "byte list \<Rightarrow> byte option" where
  "mgmt_value name =
     (if name = ascii ''FCGI_MAX_CONNS'' then Some 49
      else if name = ascii ''FCGI_MAX_REQS'' then Some 49
      else if name = ascii ''FCGI_MPXS_CONNS'' then Some 48
      else None)"

text \<open>
  The loop over the parameters.  Each known name is printed at \<open>responseP\<close> with
  \<open>sprintf("%c%c%s%c", len, 1, name, value)\<close>, which also writes a final NUL.
\<close>

fun mgmt_values :: "byte list list \<Rightarrow> byte list \<Rightarrow> nat \<Rightarrow> (byte list \<times> nat) option" where
  "mgmt_values [] response responseP = Some (response, responseP)"
| "mgmt_values (e # es) response responseP =
     (let name = takeWhile (\<lambda>b. b \<noteq> 61) (takeWhile (\<lambda>b. b \<noteq> 0) e)
      in case mgmt_value name of
           None \<Rightarrow> mgmt_values es response responseP
         | Some v \<Rightarrow> do {
             let len = length name;
             r \<leftarrow> buf_write responseP ([word_of_nat len, 1] @ name @ [v, 0]) response;
             mgmt_values es r (responseP + len + 3)
           })"

text \<open>
  The 64 bytes of \<open>response\<close> start as zeros here; in C they are not initialised, which only
  shows in the padding bytes of the answer.
\<close>

definition mgmt_response :: "byte list list \<Rightarrow> (byte list \<times> nat) option" where
  "mgmt_response ps = do {
     (response, responseP) \<leftarrow> mgmt_values ps (replicate 64 0) FCGI_HEADER_LEN;
     let len = responseP - FCGI_HEADER_LEN;
     let paddedLen = unat (AlignInt8 (word_of_nat len));
     h \<leftarrow> MakeHeader FCGI_GET_VALUES_RESULT FCGI_NULL_REQUEST_ID (int len) (int (paddedLen - len));
     response \<leftarrow> buf_write 0 (header_bytes h) response;
     Some (response, paddedLen)
   }"

definition ProcessManagementRecord ::
  "'z fill_proc \<Rightarrow> int \<Rightarrow> FCGX_Stream \<Rightarrow> 'z conn_scheme \<Rightarrow>
   (int \<times> FCGX_Stream \<times> 'z conn_scheme) option" where
  "ProcessManagementRecord fill type s c = do {
     (answer, s, c) \<leftarrow>
       (if type = FCGI_GET_VALUES then do {
          p \<leftarrow> NewParams 3;
          (_, p, s, c) \<leftarrow> ReadParams fill p s c;
          if FCGX_GetError s \<noteq> 0 \<or> contentLen s \<noteq> 0 then Some (None, s, c)
          else do {
            (response, paddedLen) \<leftarrow> mgmt_response (params_list p);
            bs \<leftarrow> buf_read 0 (FCGI_HEADER_LEN + paddedLen) response;
            Some (Some bs, s, c)
          }
        } else do {
          h \<leftarrow> MakeHeader FCGI_UNKNOWN_TYPE FCGI_NULL_REQUEST_ID 8 0;
          Some (Some (header_bytes h @ MakeUnknownTypeBody type), s, c)
        });
     case answer of
       None \<Rightarrow> Some (FCGX_PROTOCOL_ERROR, s, c)
     | Some bs \<Rightarrow>
         (let (r, c) = write_it_all bs c
          in if r < 0 then Some (-1, SetError (os_errno c) s, c)
             else Some (MGMT_RECORD, s, c))
   }"

section \<open>Begin records and headers\<close>

definition ProcessBeginRecord ::
  "'z fill_proc \<Rightarrow> int \<Rightarrow> FCGX_Stream \<Rightarrow> 'z conn_scheme \<Rightarrow>
   (int \<times> FCGX_Stream \<times> 'z conn_scheme) option" where
  "ProcessBeginRecord fill reqId s c =
     (if reqId = 0 \<or> contentLen s \<noteq> 8 then Some (FCGX_PROTOCOL_ERROR, s, c)
      else if isBeginProcessed c then do {
        h \<leftarrow> MakeHeader FCGI_END_REQUEST reqId 8 0;
        (let (r, c) = write_it_all
               (header_bytes h @ end_body_bytes (MakeEndRequestBody 0 FCGI_CANT_MPX_CONN)) c
         in if r < 0 then Some (-1, SetError (os_errno c) s, c) else Some (SKIP, s, c))
      }
      else do {
        let c = c\<lparr>requestId := reqId\<rparr>;
        (body, s, c) \<leftarrow> FCGX_GetStr fill 8 s c;
        if length body \<noteq> 8 then Some (FCGX_PROTOCOL_ERROR, s, c)
        else Some (BEGIN_RECORD, s,
               c\<lparr>keepConnection := (body ! 2 AND FCGI_KEEP_CONN \<noteq> 0),
                 role := push_bit 8 (uint (body ! 0)) + uint (body ! 1),
                 isBeginProcessed := True\<rparr>)
      })"

definition ProcessHeader_with :: "'z fill_proc \<Rightarrow> 'z header_proc" where
  "ProcessHeader_with fill h s c =
     (if version h \<noteq> FCGI_VERSION_1 then Some (FCGX_UNSUPPORTED_VERSION, s, c)
      else do {
        let reqId = push_bit 8 (uint (requestIdB1 h)) + uint (requestIdB0 h);
        let s = s\<lparr>contentLen := nat (push_bit 8 (uint (contentLengthB1 h)) + uint (contentLengthB0 h)),
                  paddingLen := unat (paddingLength h)\<rparr>;
        let type = uint (htype h);
        if type = FCGI_BEGIN_REQUEST then ProcessBeginRecord fill reqId s c
        else if reqId = FCGI_NULL_REQUEST_ID then ProcessManagementRecord fill type s c
        else if reqId \<noteq> requestId c then Some (SKIP, s, c)
        else if type \<noteq> stype s then Some (FCGX_PROTOCOL_ERROR, s, c)
        else Some (STREAM_RECORD, s, c)
      })"

definition ProcessHeader :: "'z header_proc" where
  "ProcessHeader = ProcessHeader_with FillBuffProc_eor"

definition FillBuffProc :: "'z fill_proc" where
  "FillBuffProc = FillBuffProc_with ProcessHeader"

end
