(* ===== verification/Fcgi_Frames.thy ===== *)
theory Fcgi_Frames
  imports Fcgi_Params
begin

text \<open>
  The abstract view of a FastCGI connection: a sequence of records.  A \<open>frame\<close> is a record as
  the peer means it, \<open>frame_bytes\<close> the bytes it is on the wire.  This theory relates them to the
  header structure of the code, which sees the bytes only.
\<close>

section \<open>Frames\<close>

record frame =
  f_type :: byte
  f_id :: nat
  f_content :: "byte list"
  f_pad :: "byte list"
  f_reserved :: byte

definition frame_header :: "frame \<Rightarrow> byte list" where
  "frame_header f =
     [FCGI_VERSION_1, f_type f, word_of_nat (f_id f div 256), word_of_nat (f_id f mod 256),
      word_of_nat (length (f_content f) div 256), word_of_nat (length (f_content f) mod 256),
      word_of_nat (length (f_pad f)), f_reserved f]"

definition frame_bytes :: "frame \<Rightarrow> byte list" where
  "frame_bytes f = frame_header f @ f_content f @ f_pad f"

definition frame_wf :: "frame \<Rightarrow> bool" where
  "frame_wf f \<longleftrightarrow> f_id f < 65536 \<and> length (f_content f) < 65536 \<and> length (f_pad f) < 256"

lemma length_frame_header [simp]: "length (frame_header f) = 8"
  by (simp add: frame_header_def)

lemma bytes2_value:
  assumes "n < 65536"
  shows "push_bit 8 (uint (word_of_nat (n div 256) :: byte)) + uint (word_of_nat (n mod 256) :: byte) = int n"
proof -
  have "int (n div 256 * 256 + n mod 256) = int n" by simp
  then have "int (n div 256) * 256 + int (n mod 256) = int n" by (simp only: of_nat_add of_nat_mult of_nat_numeral)
  moreover have "n div 256 < 256" using assms by (simp add: less_mult_imp_div_less)
  then have "int (n div 256) mod 256 = int (n div 256)" by (simp del: of_nat_div)
  moreover have "int (n mod 256) mod 256 = int (n mod 256)" by simp
  ultimately show ?thesis
    unfolding uint_byte_of_nat push_bit_eq_mult by (simp del: of_nat_mod)
qed

lemma frame_header_fields:
  assumes "frame_wf f"
  shows "version (header_of (frame_header f)) = FCGI_VERSION_1"
    and "uint (htype (header_of (frame_header f))) = uint (f_type f)"
    and "push_bit 8 (uint (requestIdB1 (header_of (frame_header f)))) +
         uint (requestIdB0 (header_of (frame_header f))) = int (f_id f)"
    and "nat (push_bit 8 (uint (contentLengthB1 (header_of (frame_header f)))) +
         uint (contentLengthB0 (header_of (frame_header f)))) = length (f_content f)"
    and "unat (paddingLength (header_of (frame_header f))) = length (f_pad f)"
  using assms bytes2_value [of "f_id f"] bytes2_value [of "length (f_content f)"]
  by (simp_all add: frame_wf_def frame_header_def header_of_def unat_of_nat)

text \<open>The header the code makes is that of a frame.\<close>

lemma MakeHeader_frame:
  assumes "frame_wf f" "f_reserved f = 0"
  shows "\<exists>h. MakeHeader (uint (f_type f)) (int (f_id f)) (int (length (f_content f))) (int (length (f_pad f))) = Some h
     \<and> header_bytes h = frame_header f"
proof -
  have m: "int n div 256 mod 256 = int (n div 256)" if "n < 65536" for n
    using that by (simp add: less_mult_imp_div_less of_nat_div)
  have w: "word_of_int (int n mod 256) = (word_of_nat (n mod 256) :: byte)" for n
  proof -
    have "int n mod 256 = int (n mod 256)" by (simp add: of_nat_mod)
    then show ?thesis by (simp only: of_int_of_nat_eq)
  qed
  show ?thesis
    using assms w m [of "f_id f"] m [of "length (f_content f)"]
    by (simp add: MakeHeader_def frame_header_def header_bytes_def frame_wf_def FCGI_MAX_LENGTH_def
      and_255 drop_bit_eq_div )
qed

end
