(* ===== verification/Fcgi_Demux.thy ===== *)
theory Fcgi_Demux
  imports Fcgi_Reader Fcgi_Frames
begin

text \<open>
  What \<open>FillBuffProc\<close> gives its client.  The bytes a reader has not consumed are those in its
  buffer and those the connection is still going to deliver, in chunks of any sizes (\<open>raw\<close>).
  The two relations of this theory say how these bytes are divided into the rest of the current
  record and the frames behind it, and interpret the contract \<open>byte_source\<close>: \<open>eor_rel\<close> for the
  calls made inside one record, \<open>reader_rel\<close> for those of the stream's client.
\<close>

section \<open>The bytes a reader has not consumed\<close>

fun script_bytes :: "read_result list \<Rightarrow> byte list" where
  "script_bytes [] = []"
| "script_bytes (RData bs # rs) = bs @ script_bytes rs"
| "script_bytes (RErr e # rs) = script_bytes rs"

lemma script_size_bytes: "script_size rs = length (script_bytes rs)"
  by (induction rs rule: script_bytes.induct) auto

definition buffered :: "FCGX_Stream \<Rightarrow> byte list" where
  "buffered s = take (buffStop s - rdNext s) (drop (rdNext s) (buff s))"

definition window :: "FCGX_Stream \<Rightarrow> byte list" where
  "window s = take (stop s - rdNext s) (drop (rdNext s) (buff s))"

definition raw :: "FCGX_Stream \<Rightarrow> 'z conn_scheme \<Rightarrow> byte list" where
  "raw s c = buffered s @ script_bytes (rd_script c)"

definition net_ok :: "'z conn_scheme \<Rightarrow> bool" where
  "net_ok c \<longleftrightarrow> \<not> shutdownNow c \<and> (\<forall>r \<in> set (rd_script c). \<exists>bs. r = RData bs \<and> bs \<noteq> [])"

definition reader_ok :: "FCGX_Stream \<Rightarrow> bool" where
  "reader_ok s \<longleftrightarrow> isReader s \<and> 0 < bufflen s \<and> bufflen s = length (buff s) \<and>
     rdNext s \<le> buffStop s \<and> buffStop s \<le> length (buff s)"

lemma length_buffered: "reader_ok s \<Longrightarrow> length (buffered s) = avail s"
  by (auto simp: reader_ok_def buffered_def avail_def)

lemma length_raw: "reader_ok s \<Longrightarrow> length (raw s c) = input_size s c"
  using length_buffered [of s] by (simp add: raw_def input_size_def script_size_bytes avail_def)

lemma avail_le_raw: "reader_ok s \<Longrightarrow> avail s \<le> length (raw s c)"
  using length_buffered [of s] by (simp add: raw_def)

lemma raw_advance:
  "reader_ok s \<Longrightarrow> k \<le> avail s \<Longrightarrow>
   raw (s\<lparr>rdNext := rdNext s + k\<rparr>) c = drop k (raw s c) \<and> reader_ok (s\<lparr>rdNext := rdNext s + k\<rparr>)"
  by (auto simp: raw_def buffered_def reader_ok_def avail_def drop_take add.commute diff_diff_eq)

lemma raw_take_window:
  "reader_ok s \<Longrightarrow> k \<le> avail s \<Longrightarrow> take k (raw s c) = take k (drop (rdNext s) (buff s))"
  by (auto simp: raw_def buffered_def reader_ok_def avail_def)

lemma raw_script_cong: "buff s' = buff s \<Longrightarrow> rdNext s' = rdNext s \<Longrightarrow> buffStop s' = buffStop s \<Longrightarrow>
  rd_script c' = rd_script c \<Longrightarrow> raw s' c' = raw s c"
  by (simp add: raw_def buffered_def)

text \<open>A read brings the next bytes in and changes nothing else.\<close>

lemma fill_read_more:
  assumes s: "reader_ok s" and c: "net_ok c" and ne: "raw s c \<noteq> []"
  shows "\<exists>b n m rs. fill_read s c = Some (True, s\<lparr>buff := b, rdNext := n, buffStop := m\<rparr>, c\<lparr>rd_script := rs\<rparr>) \<and>
     reader_ok (s\<lparr>buff := b, rdNext := n, buffStop := m\<rparr>) \<and> n < m \<and>
     net_ok (c\<lparr>rd_script := rs\<rparr>) \<and>
     raw (s\<lparr>buff := b, rdNext := n, buffStop := m\<rparr>) (c\<lparr>rd_script := rs\<rparr>) = raw s c"
proof (cases "rdNext s = buffStop s")
  case False
  then have "s\<lparr>buff := buff s, rdNext := rdNext s, buffStop := buffStop s\<rparr> = s"
    "c\<lparr>rd_script := rd_script c\<rparr> = c" "rdNext s < buffStop s"
    using s by (simp_all add: reader_ok_def)
  then show ?thesis using s c False
    by (intro exI [of _ "buff s"] exI [of _ "rdNext s"] exI [of _ "buffStop s"] exI [of _ "rd_script c"])
      (simp add: fill_read_def)
next
  case True
  then have "script_bytes (rd_script c) \<noteq> []" using ne by (simp add: raw_def buffered_def)
  then obtain bs rs where rs: "rd_script c = RData bs # rs" and bs: "bs \<noteq> []"
    using c by (cases "rd_script c") (auto simp: net_ok_def)
  define n where "n = min (bufflen s) (length bs)"
  define rs' where "rs' = (if drop (bufflen s) bs = [] then rs else RData (drop (bufflen s) bs) # rs)"
  have n: "0 < n" "n \<le> length (buff s)" using s bs by (auto simp: n_def reader_ok_def)
  have rd: "OS_Read (bufflen s) c = (int n, take (bufflen s) bs, c\<lparr>rd_script := rs'\<rparr>)"
    using c rs by (simp add: OS_Read_def net_ok_def n_def rs'_def)
  have ln: "length (take (bufflen s) bs) = n" by (simp add: n_def)
  let ?b = "take (bufflen s) bs @ drop n (buff s)"
  have w: "buf_write 0 (take (bufflen s) bs) (buff s) = Some ?b"
    using n ln by (simp add: buf_write_def)
  let ?s = "s\<lparr>buff := ?b, rdNext := 0, buffStop := n\<rparr>"
  have 1: "fill_read s c = Some (True, ?s, c\<lparr>rd_script := rs'\<rparr>)"
    using True rd n w by (simp add: fill_read_def)
  have 2: "net_ok (c\<lparr>rd_script := rs'\<rparr>)"
    using c rs by (auto simp: net_ok_def rs'_def)
  have "length ?b = length (buff s)" using n ln by simp
  then have 3: "reader_ok ?s" using s n by (auto simp: reader_ok_def)
  have "script_bytes rs' = drop (bufflen s) bs @ script_bytes rs" by (simp add: rs'_def)
  moreover have "buffered ?s = take (bufflen s) bs" by (simp add: buffered_def n_def min_def)
  moreover have "buffered s = []" using True by (simp add: buffered_def)
  ultimately have 4: "raw ?s (c\<lparr>rd_script := rs'\<rparr>) = raw s c" using rs by (simp add: raw_def)
  show ?thesis using 1 2 3 4 n(1) by blast
qed

section \<open>What is left of the current record\<close>

definition pend :: "FCGX_Stream \<Rightarrow> 'z conn_scheme \<Rightarrow> byte list \<Rightarrow> byte list \<Rightarrow> byte list \<Rightarrow> bool" where
  "pend s c C P rest \<longleftrightarrow> reader_ok s \<and> net_ok c \<and>
     contentLen s = length C \<and> paddingLen s = length P \<and> raw s c = C @ P @ rest"

text \<open>Fields these predicates do not look at.\<close>

lemma reader_frame_simps [simp]:
  "reader_ok (s\<lparr>isClosed := b\<rparr>) = reader_ok s" "reader_ok (s\<lparr>eorStop := b\<rparr>) = reader_ok s"
  "reader_ok (s\<lparr>stop := i\<rparr>) = reader_ok s" "reader_ok (s\<lparr>wrNext := i\<rparr>) = reader_ok s"
  "reader_ok (s\<lparr>stopUnget := u\<rparr>) = reader_ok s" "reader_ok (s\<lparr>skip := b\<rparr>) = reader_ok s"
  "reader_ok (s\<lparr>contentLen := i\<rparr>) = reader_ok s" "reader_ok (s\<lparr>paddingLen := i\<rparr>) = reader_ok s"
  "raw (s\<lparr>isClosed := b\<rparr>) c = raw s c" "raw (s\<lparr>eorStop := b\<rparr>) c = raw s c"
  "raw (s\<lparr>stop := i\<rparr>) c = raw s c" "raw (s\<lparr>wrNext := i\<rparr>) c = raw s c"
  "raw (s\<lparr>stopUnget := u\<rparr>) c = raw s c" "raw (s\<lparr>skip := b\<rparr>) c = raw s c"
  "raw (s\<lparr>contentLen := i\<rparr>) c = raw s c" "raw (s\<lparr>paddingLen := i\<rparr>) c = raw s c"
  "window (s\<lparr>stopUnget := u\<rparr>) = window s"
  by (simp_all add: reader_ok_def raw_def buffered_def window_def)

lemma pend_frame_simps [simp]:
  "pend (s\<lparr>isClosed := b\<rparr>) c C P rest = pend s c C P rest"
  "pend (s\<lparr>eorStop := b\<rparr>) c C P rest = pend s c C P rest"
  "pend (s\<lparr>stop := i\<rparr>) c C P rest = pend s c C P rest"
  "pend (s\<lparr>wrNext := i\<rparr>) c C P rest = pend s c C P rest"
  "pend (s\<lparr>skip := b\<rparr>) c C P rest = pend s c C P rest"
  by (simp_all add: pend_def)

lemma fill_read_pend:
  assumes p: "pend s c C P rest" and ne: "C @ P @ rest \<noteq> []"
  obtains b n m rs where
    "fill_read s c = Some (True, s\<lparr>buff := b, rdNext := n, buffStop := m\<rparr>, c\<lparr>rd_script := rs\<rparr>)"
    "pend (s\<lparr>buff := b, rdNext := n, buffStop := m\<rparr>) (c\<lparr>rd_script := rs\<rparr>) C P rest"
    "n < m"
proof -
  have "reader_ok s" "net_ok c" "raw s c \<noteq> []" using p ne by (simp_all add: pend_def)
  from fill_read_more [OF this] that p show thesis by (auto simp: pend_def)
qed

lemma pend_deliver:
  assumes p: "pend s c C P rest" and ne: "C \<noteq> []" and a: "0 < avail s"
  shows "let s' = fill_deliver s; k = min (length C) (avail s) in
     reader_ok s' \<and> rdNext s' < stop s' \<and> stop s' \<le> buffStop s' \<and> window s' = take k C \<and>
     contentLen s' = length (drop k C) \<and> raw s' c = take k C @ drop k C @ P @ rest"
proof -
  define k where "k = min (length C) (avail s)"
  have r: "reader_ok s" "raw s c = C @ P @ rest" "contentLen s = length C"
    using p by (simp_all add: pend_def)
  have k: "k \<le> avail s" "0 < k" "k \<le> length C" using ne a by (auto simp: k_def)
  have d: "fill_deliver s = s\<lparr>contentLen := length C - k, stop := rdNext s + k, wrNext := rdNext s + k\<rparr>"
    using r by (simp add: fill_deliver_def Let_def k_def)
  have "window (fill_deliver s) = take k (raw s c)"
    using raw_take_window [OF r(1) k(1), of c] by (simp add: d window_def)
  then have "window (fill_deliver s) = take k C" using r(2) k by simp
  moreover have "raw (fill_deliver s) c = raw s c" by (rule raw_script_cong) (simp_all add: d)
  moreover have "C @ P @ rest = take k C @ drop k C @ P @ rest" by simp
  ultimately show ?thesis unfolding k_def [symmetric] Let_def
    using r k by (auto simp: d reader_ok_def avail_def)
qed

lemma pend_padding:
  assumes p: "pend s c [] P rest"
  shows "pend (fill_padding s) c [] (drop (min (length P) (avail s)) P) rest"
proof -
  define k where "k = min (length P) (avail s)"
  have r: "reader_ok s" "raw s c = P @ rest" "paddingLen s = length P"
    using p by (simp_all add: pend_def)
  have k: "k \<le> avail s" "k \<le> length P" by (simp_all add: k_def)
  have d: "fill_padding s = s\<lparr>rdNext := rdNext s + k\<rparr>\<lparr>paddingLen := length P - k\<rparr>"
    using r by (simp add: fill_padding_def Let_def k_def)
  have "raw (fill_padding s) c = raw (s\<lparr>rdNext := rdNext s + k\<rparr>) c"
    by (rule raw_script_cong) (simp_all add: d)
  then have "raw (fill_padding s) c = drop k P @ rest"
    using raw_advance [OF r(1) k(1), of c] r k by simp
  then show ?thesis
    using p raw_advance [OF r(1) k(1), of c] r k unfolding k_def [symmetric] pend_def
    by (simp add: d reader_ok_def)
qed

lemma pend_skip:
  assumes p: "pend s c C P rest"
  shows "pend (fill_skip s) c (drop (min (length C) (avail s)) C) P rest"
proof -
  define k where "k = min (length C) (avail s)"
  have r: "reader_ok s" "raw s c = C @ P @ rest" "contentLen s = length C"
    using p by (simp_all add: pend_def)
  have k: "k \<le> avail s" "k \<le> length C" by (simp_all add: k_def)
  have d: "fill_skip s = s\<lparr>rdNext := rdNext s + k\<rparr>\<lparr>contentLen := length C - k,
      skip := (if k < length C then skip s else False)\<rparr>"
    using r by (simp add: fill_skip_def Let_def k_def)
  have "raw (fill_skip s) c = raw (s\<lparr>rdNext := rdNext s + k\<rparr>) c"
    by (rule raw_script_cong) (simp_all add: d)
  then have "raw (fill_skip s) c = drop k C @ P @ rest"
    using raw_advance [OF r(1) k(1), of c] r k by simp
  then show ?thesis
    using p raw_advance [OF r(1) k(1), of c] r k unfolding k_def [symmetric] pend_def
    by (simp add: d reader_ok_def)
qed

lemma fill_padding_fields [simp]:
  "skip (fill_padding s) = skip s" "eorStop (fill_padding s) = eorStop s"
  "isReader (fill_padding s) = isReader s" "isClosed (fill_padding s) = isClosed s"
  "stype (fill_padding s) = stype s" "FCGI_errno (fill_padding s) = FCGI_errno s"
  by (simp_all add: fill_padding_def Let_def)

lemma fill_skip_fields [simp]:
  "eorStop (fill_skip s) = eorStop s"
  "isReader (fill_skip s) = isReader s" "isClosed (fill_skip s) = isClosed s"
  "stype (fill_skip s) = stype s" "FCGI_errno (fill_skip s) = FCGI_errno s"
  by (simp_all add: fill_skip_def Let_def)

lemma fill_deliver_fields [simp]:
  "skip (fill_deliver s) = skip s" "eorStop (fill_deliver s) = eorStop s"
  "isReader (fill_deliver s) = isReader s" "isClosed (fill_deliver s) = isClosed s"
  "stype (fill_deliver s) = stype s" "FCGI_errno (fill_deliver s) = FCGI_errno s"
  "paddingLen (fill_deliver s) = paddingLen s"
  by (simp_all add: fill_deliver_def Let_def)

lemma fill_padding_zero: "paddingLen s = 0 \<Longrightarrow> fill_padding s = s"
  by (simp add: fill_padding_def Let_def)

lemma fill_padding_if: "(if 0 < paddingLen s then fill_padding s else s) = fill_padding s"
  by (simp add: fill_padding_zero)

section \<open>Inside one record\<close>

definition eor_rel ::
  "FCGX_Stream \<Rightarrow> 'z conn_scheme \<Rightarrow> byte list \<Rightarrow> byte list \<times> 'z conn_scheme \<times> int \<times> nat \<Rightarrow> bool" where
  "eor_rel s c body t \<longleftrightarrow>
     (case t of (tail, k, ty, pl) \<Rightarrow>
        reader_ok s \<and> net_ok c \<and> \<not> isClosed s \<and> eorStop s \<and> \<not> skip s \<and>
        rdNext s \<le> stop s \<and> stop s \<le> buffStop s \<and> tail \<noteq> [] \<and>
        c\<lparr>rd_script := []\<rparr> = k \<and> stype s = ty \<and> FCGI_errno s = 0 \<and>
        (\<exists>C P. raw s c = window s @ C @ P @ tail \<and> contentLen s = length C \<and>
               paddingLen s = length P \<and> length P \<le> pl \<and> body = window s @ C))"

definition eor_fin ::
  "FCGX_Stream \<Rightarrow> 'z conn_scheme \<Rightarrow> byte list \<times> 'z conn_scheme \<times> int \<times> nat \<Rightarrow> bool" where
  "eor_fin s c t \<longleftrightarrow>
     (case t of (tail, k, ty, pl) \<Rightarrow>
        pend s c [] [] tail \<and> \<not> skip s \<and>
        c\<lparr>rd_script := []\<rparr> = k \<and> stype s = ty \<and> FCGI_errno s = 0)"

lemma eor_loop:
  assumes "pend s c C P tail" "\<not> isClosed s" "eorStop s" "\<not> skip s" "tail \<noteq> []"
    "c\<lparr>rd_script := []\<rparr> = k" "stype s = ty" "FCGI_errno s = 0" "length (C @ P) < fuel" "length P \<le> pl"
  shows "\<exists>s' c'. FillBuffProc_loop ph fuel [] s c = Some (s', c') \<and>
     (if C = [] then isClosed s' \<and> eor_fin s' c' (tail, k, ty, pl)
      else eor_rel s' c' C (tail, k, ty, pl) \<and> rdNext s' < stop s')"
  using assms
proof (induction fuel arbitrary: s c P)
  case 0
  then show ?case by simp
next
  case (Suc fuel)
  have ne: "C @ P @ tail \<noteq> []" using Suc.prems by simp
  obtain b n m rs where
    rd: "fill_read s c = Some (True, s\<lparr>buff := b, rdNext := n, buffStop := m\<rparr>, c\<lparr>rd_script := rs\<rparr>)"
    and p: "pend (s\<lparr>buff := b, rdNext := n, buffStop := m\<rparr>) (c\<lparr>rd_script := rs\<rparr>) C P tail"
    and a: "n < m"
    by (rule fill_read_pend [OF Suc.prems(1) ne])
  define s1 c1 where "s1 = s\<lparr>buff := b, rdNext := n, buffStop := m\<rparr>" and "c1 = c\<lparr>rd_script := rs\<rparr>"
  have f1: "\<not> isClosed s1" "eorStop s1" "\<not> skip s1" "c1\<lparr>rd_script := []\<rparr> = k" "stype s1 = ty"
    "FCGI_errno s1 = 0" and p1: "pend s1 c1 C P tail" and a1: "0 < avail s1"
    using Suc.prems p a by (simp_all add: s1_def c1_def avail_def)
  have rd1: "fill_read s c = Some (True, s1, c1)" using rd by (simp add: s1_def c1_def)
  show ?case
  proof (cases "C = []")
    case False
    then have "0 < contentLen s1" using p1 by (simp add: pend_def)
    then have e: "FillBuffProc_loop ph (Suc fuel) [] s c = Some (fill_deliver s1, c1)"
      using rd1 f1 by (simp add: FillBuffProc_loop.simps(2))
    define C' where "C' = drop (min (length C) (avail s1)) C"
    have d: "reader_ok (fill_deliver s1)" "rdNext (fill_deliver s1) < stop (fill_deliver s1)"
      "stop (fill_deliver s1) \<le> buffStop (fill_deliver s1)"
      "C = window (fill_deliver s1) @ C'" "contentLen (fill_deliver s1) = length C'"
      "raw (fill_deliver s1) c1 = window (fill_deliver s1) @ C' @ P @ tail"
      "paddingLen (fill_deliver s1) = length P"
      using pend_deliver [OF p1 False a1] p1 unfolding Let_def C'_def by (simp_all add: pend_def)
    then have "\<exists>C' P. raw (fill_deliver s1) c1 = window (fill_deliver s1) @ C' @ P @ tail \<and>
        contentLen (fill_deliver s1) = length C' \<and> paddingLen (fill_deliver s1) = length P \<and>
        length P \<le> pl \<and> C = window (fill_deliver s1) @ C'" using Suc.prems(10) by blast
    then have "eor_rel (fill_deliver s1) c1 C (tail, k, ty, pl)"
      using f1 Suc.prems(5) p1 d(1-3) unfolding eor_rel_def by (simp add: pend_def)
    then show ?thesis using e False d(2) by simp
  next
    case True
    let ?s2 = "fill_padding s1" and ?P = "drop (min (length P) (avail s1)) P"
    have z: "contentLen s1 = 0" using p1 True by (simp add: pend_def)
    have p2: "pend ?s2 c1 [] ?P tail" using pend_padding p1 True by simp
    show ?thesis
    proof (cases "?P = []")
      case True
      then have "paddingLen ?s2 = 0" using p2 unfolding pend_def by simp
      then have e: "FillBuffProc_loop ph (Suc fuel) [] s c = Some (?s2\<lparr>stop := rdNext ?s2, isClosed := True\<rparr>, c1)"
        using rd1 z f1 by (simp add: FillBuffProc_loop.simps(2) fill_padding_if Let_def)
      have "pend (?s2\<lparr>stop := rdNext ?s2, isClosed := True\<rparr>) c1 [] [] tail"
        using p2 True by simp
      then show ?thesis using e \<open>C = []\<close> f1 by (simp add: eor_fin_def)
    next
      case False
      then have "0 < paddingLen ?s2" using p2 unfolding pend_def by simp
      then have e: "FillBuffProc_loop ph (Suc fuel) [] s c = FillBuffProc_loop ph fuel [] ?s2 c1"
        using rd1 z f1 by (simp add: FillBuffProc_loop.simps(2) fill_padding_if)
      have "length ?P < fuel" using a1 Suc.prems(9) False by auto
      moreover have "length ?P \<le> pl" using Suc.prems(10) by simp
      ultimately show ?thesis
        using Suc.IH [of ?s2 c1 ?P] p2 f1 Suc.prems(5) \<open>C = []\<close> e by auto
    qed
  qed
qed


lemma window_advance:
  "reader_ok s \<Longrightarrow> stop s \<le> buffStop s \<Longrightarrow> k \<le> stop s - rdNext s \<Longrightarrow>
   window (s\<lparr>rdNext := rdNext s + k\<rparr>) = drop k (window s)"
  by (simp add: window_def reader_ok_def drop_take add.commute)

lemma length_window: "reader_ok s \<Longrightarrow> stop s \<le> buffStop s \<Longrightarrow> length (window s) = stop s - rdNext s"
  by (auto simp: window_def reader_ok_def)

lemma eor_rel_pend:
  assumes "eor_rel s c body (tail, k, ty, pl)" "rdNext s = stop s"
  shows "\<exists>P. pend s c body P tail \<and> length P \<le> pl"
  using assms by (auto simp: eor_rel_def pend_def window_def)

lemma eor_fill:
  assumes r: "eor_rel s c body t" and e: "rdNext s = stop s"
  shows "\<exists>s' c'. FillBuffProc_eor s c = Some (s', c') \<and>
     (if body = [] then isClosed s' \<and> eor_fin s' c' t
      else eor_rel s' c' body t \<and> rdNext s' < stop s')"
proof -
  obtain tail k ty pl where t: "t = (tail, k, ty, pl)" by (cases t)
  obtain P where p: "pend s c body P tail" and pl: "length P \<le> pl" using eor_rel_pend r e t by blast
  then have "length (body @ P) < Suc (input_size s c)"
    using length_raw [of s c] by (simp add: pend_def)
  then show ?thesis
    using eor_loop [OF p] r pl unfolding t FillBuffProc_eor_def FillBuffProc_with_def
    by (simp add: eor_rel_def)
qed

interpretation inside: byte_source FillBuffProc_eor eor_rel eor_fin
proof
  fix s :: FCGX_Stream and c :: "'a conn_scheme" and body t
  assume r: "eor_rel s c body t"
  obtain tail k ty pl where t: "t = (tail, k, ty, pl)" by (cases t)
  show "isReader s \<and> \<not> isClosed s" using r by (auto simp: eor_rel_def reader_ok_def)
  show "rdNext s \<le> stop s \<and> stop s \<le> length (buff s)" using r by (auto simp: eor_rel_def reader_ok_def)
  show "\<exists>rest. body = take (stop s - rdNext s) (drop (rdNext s) (buff s)) @ rest"
    using r by (auto simp: eor_rel_def window_def)
  show "length body \<le> input_size s c" using r length_raw [of s c] by (auto simp: eor_rel_def)
  show "eor_rel (s\<lparr>stopUnget := u\<rparr>) c body t" for u using r by (simp add: eor_rel_def)
  show "eor_rel (s\<lparr>rdNext := rdNext s + k\<rparr>) c (drop k body) t" if "k \<le> stop s - rdNext s" for k
    using r that window_advance [of s k] raw_advance [of s k c] length_window [of s]
    unfolding eor_rel_def by (fastforce simp: avail_def)
  show "\<exists>s' c'. FillBuffProc_eor s c = Some (s', c') \<and> eor_rel s' c' body t \<and> rdNext s' < stop s'"
    if "rdNext s = stop s" "body \<noteq> []"
    using eor_fill [OF r that(1)] that by simp
next
  fix s :: FCGX_Stream and c :: "'a conn_scheme" and t
  assume "eor_rel s c [] t" "rdNext s = stop s"
  then show "\<exists>s' c'. FillBuffProc_eor s c = Some (s', c') \<and> isClosed s' \<and> eor_fin s' c' t"
    using eor_fill by fastforce
qed

end
