(* ===== verification/Fcgi_Packets.thy ===== *)
theory Fcgi_Packets
  imports Fcgi_Demux
begin

text \<open>
  What a peer may send between two records of a stream, and what the application answers.
  A \<open>packet\<close> is a message with its padding and its reserved byte; \<open>packet_frame ty r\<close> is the
  frame it travels in when the stream being read has type \<open>ty\<close> and the request has id \<open>r\<close>.
  \<open>packet_data\<close> is what it adds to the stream, \<open>packet_answer\<close> what is written back for it.
\<close>

section \<open>Packets\<close>

datatype peer_msg =
    Data "byte list"
  | Other byte nat "byte list"
  | Begin nat "byte list"
  | GetValues "nv_pair list"
  | Mgmt byte

type_synonym packet = "peer_msg \<times> byte list \<times> byte"

fun packet_frame :: "byte \<Rightarrow> nat \<Rightarrow> packet \<Rightarrow> frame" where
  "packet_frame ty r (Data d, pad, x) = \<lparr>f_type = ty, f_id = r, f_content = d, f_pad = pad, f_reserved = x\<rparr>"
| "packet_frame ty r (Other t i d, pad, x) = \<lparr>f_type = t, f_id = i, f_content = d, f_pad = pad, f_reserved = x\<rparr>"
| "packet_frame ty r (Begin i d, pad, x) = \<lparr>f_type = 1, f_id = i, f_content = d, f_pad = pad, f_reserved = x\<rparr>"
| "packet_frame ty r (GetValues ps, pad, x) =
     \<lparr>f_type = 9, f_id = 0, f_content = concat (map nv_bytes ps), f_pad = pad, f_reserved = x\<rparr>"
| "packet_frame ty r (Mgmt t, pad, x) = \<lparr>f_type = t, f_id = 0, f_content = [], f_pad = pad, f_reserved = x\<rparr>"

definition end_frame :: "byte \<Rightarrow> nat \<Rightarrow> byte list \<Rightarrow> byte \<Rightarrow> frame" where
  "end_frame ty r pad x = \<lparr>f_type = ty, f_id = r, f_content = [], f_pad = pad, f_reserved = x\<rparr>"

fun packet_data :: "packet \<Rightarrow> byte list" where
  "packet_data (Data d, _) = d"
| "packet_data _ = []"

text \<open>The values the application gives for the names it knows.\<close>

fun values_content :: "nv_pair list \<Rightarrow> byte list" where
  "values_content [] = []"
| "values_content (p # ps) =
     (case mgmt_value (nv_name p) of
        None \<Rightarrow> []
      | Some v \<Rightarrow> [word_of_nat (length (nv_name p)), 1] @ nv_name p @ [v]) @ values_content ps"

fun packet_answer :: "packet \<Rightarrow> byte list" where
  "packet_answer (Begin i d, _) = frame_bytes
     \<lparr>f_type = 3, f_id = i, f_content = [0, 0, 0, 0, 1, 0, 0, 0], f_pad = [], f_reserved = 0\<rparr>"
| "packet_answer (GetValues ps, _) = frame_bytes
     \<lparr>f_type = 10, f_id = 0, f_content = values_content ps,
      f_pad = replicate (pad8 (length (values_content ps))) 0, f_reserved = 0\<rparr>"
| "packet_answer (Mgmt t, _) = frame_bytes
     \<lparr>f_type = 11, f_id = 0, f_content = [t, 0, 0, 0, 0, 0, 0, 0], f_pad = [], f_reserved = 0\<rparr>"
| "packet_answer _ = []"

text \<open>
  What the reader handles as the protocol means it.  Left out are packets it does not: empty records of other requests, after
  which a record of its own is skipped; management records of unknown type with content, which is taken for data; an
  answer to \<open>GET_VALUES\<close> of more than 55 bytes, which does not fit its buffer with the NUL; and records of
  another type for its own request, which end the stream with an error.
\<close>

fun packet_ok :: "byte \<Rightarrow> nat \<Rightarrow> packet \<Rightarrow> bool" where
  "packet_ok ty r (Data d, _) = (d \<noteq> [])"
| "packet_ok ty r (Other t i d, _) = (t \<noteq> 1 \<and> i \<noteq> 0 \<and> i \<noteq> r \<and> d \<noteq> [])"
| "packet_ok ty r (Begin i d, _) = (i \<noteq> 0 \<and> length d = 8)"
| "packet_ok ty r (GetValues ps, _) =
     (length (values_content ps) \<le> 55 \<and>
      (\<forall>p \<in> set ps. nv_ok p \<and> 0 \<notin> set (nv_name p) \<and> 61 \<notin> set (nv_name p)))"
| "packet_ok ty r (Mgmt t, _) = (t \<noteq> 1 \<and> t \<noteq> 9)"


section \<open>The answers\<close>

lemma mgmt_name:
  assumes "0 \<notin> set (nv_name p)" "61 \<notin> set (nv_name p)"
  shows "takeWhile (\<lambda>b. b \<noteq> 61) (takeWhile (\<lambda>b. b \<noteq> 0) (nv_entry p)) = nv_name p"
proof -
  have 1: "takeWhile (\<lambda>b. b \<noteq> 0) (nv_entry p) = nv_name p @ 61 # takeWhile (\<lambda>b. b \<noteq> 0) (nv_value p)"
    using assms(1) unfolding nv_entry_def by (subst takeWhile_append2) auto
  show ?thesis using assms(2) unfolding 1 by (subst takeWhile_append2) auto
qed

lemma mgmt_values_content:
  assumes "length pre + length (values_content ps) < n"
    "\<forall>p \<in> set ps. 0 \<notin> set (nv_name p) \<and> 61 \<notin> set (nv_name p)"
  shows "mgmt_values (map nv_entry ps) (pre @ replicate (n - length pre) 0) (length pre) =
     Some (pre @ values_content ps @ replicate (n - length pre - length (values_content ps)) 0,
           length pre + length (values_content ps))"
  using assms
proof (induction ps arbitrary: pre)
  case Nil
  then show ?case by simp
next
  case (Cons p ps)
  have nm: "takeWhile (\<lambda>b. b \<noteq> 61) (takeWhile (\<lambda>b. b \<noteq> 0) (nv_entry p)) = nv_name p"
    using Cons.prems mgmt_name by simp
  show ?case
  proof (cases "mgmt_value (nv_name p)")
    case None
    then show ?thesis using Cons nm by simp
  next
    case (Some v)
    define e where "e = [word_of_nat (length (nv_name p)), 1] @ nv_name p @ [v]"
    have vc: "values_content (p # ps) = e @ values_content ps" using Some by (simp add: e_def)
    have le: "length e = length (nv_name p) + 3" by (simp add: e_def)
    have n: "length pre + length e < n" using Cons.prems vc by simp
    then have r: "replicate (n - length pre) (0::byte) =
        replicate (length e + 1) 0 @ replicate (n - length pre - length e - 1) 0"
      by (simp add: replicate_add [symmetric] del: replicate_Suc)
    have w: "buf_write (length pre) (e @ [0]) (pre @ replicate (n - length pre) 0) =
        Some ((pre @ e) @ replicate (n - length (pre @ e)) 0)"
    proof -
      have "replicate (n - length (pre @ e)) (0::byte) = 0 # replicate (n - length pre - length e - 1) 0"
        using n by (simp flip: replicate_Suc)
      then show ?thesis using n by (simp add: buf_write_def r)
    qed
    have "mgmt_values (map nv_entry (p # ps)) (pre @ replicate (n - length pre) 0) (length pre) =
       mgmt_values (map nv_entry ps) ((pre @ e) @ replicate (n - length (pre @ e)) 0) (length (pre @ e))"
      using w nm Some le by (simp add: e_def Let_def numeral_3_eq_3)
    also have "\<dots> = Some ((pre @ e) @ values_content ps @
        replicate (n - length (pre @ e) - length (values_content ps)) 0, length (pre @ e) + length (values_content ps))"
      by (rule Cons.IH) (use Cons.prems vc in auto)
    finally show ?thesis unfolding vc by (simp del: mgmt_values.simps)
  qed
qed

lemma mgmt_response_values:
  assumes l: "length (values_content ps) \<le> 55"
    and "\<forall>p \<in> set ps. 0 \<notin> set (nv_name p) \<and> 61 \<notin> set (nv_name p)"
  shows "\<exists>r n. mgmt_response (map nv_entry ps) = Some (r, n) \<and>
           buf_read 0 (FCGI_HEADER_LEN + n) r = Some (packet_answer (GetValues ps, pad, x))"
proof -
  let ?c = "values_content ps" and ?n = "length (values_content ps)"
  define f where "f = \<lparr>f_type = 10, f_id = 0, f_content = ?c,
      f_pad = replicate (pad8 ?n) 0, f_reserved = 0\<rparr>"
  have p: "pad8 ?n < 8" "?n + pad8 ?n \<le> 56" using l by (simp_all add: pad8_less pad8_56)
  have v: "mgmt_values (map nv_entry ps) (replicate 64 0) 8 = Some (replicate 8 0 @ ?c @ replicate (56 - ?n) 0, 8 + ?n)"
    using mgmt_values_content [of "replicate 8 0" ps 64] assms by (simp flip: replicate_add)
  have "frame_wf f" "f_reserved f = 0" using l p by (auto simp: f_def frame_wf_def)
  from MakeHeader_frame [OF this] obtain h where
    h: "MakeHeader 10 0 (int ?n) (int (pad8 ?n)) = Some h" "header_bytes h = frame_header f"
    by (auto simp: f_def)
  have a: "unat (AlignInt8 (word_of_nat ?n)) = ?n + pad8 ?n" by (rule AlignInt8_nat) (use l in simp)
  let ?r = "frame_header f @ ?c @ replicate (56 - ?n) 0"
  have w: "buf_write 0 (header_bytes h) (replicate 8 0 @ ?c @ replicate (56 - ?n) 0) = Some ?r"
    using h(2) by (simp add: buf_write_def)
  have "mgmt_response (map nv_entry ps) = Some (?r, ?n + pad8 ?n)"
    using v h(1) a w by (simp add: mgmt_response_def Let_def FCGI_HEADER_LEN_def
      FCGI_GET_VALUES_RESULT_def FCGI_NULL_REQUEST_ID_def)
  moreover have "buf_read 0 (FCGI_HEADER_LEN + (?n + pad8 ?n)) ?r = Some (frame_bytes f)"
    using p by (simp add: buf_read_def FCGI_HEADER_LEN_def frame_bytes_def f_def min_def)
  ultimately show ?thesis by (simp add: f_def)
qed

section \<open>A stream among the other records\<close>

definition conn_fixed :: "'z conn_scheme \<Rightarrow> 'z conn_scheme" where
  "conn_fixed c = c\<lparr>rd_script := [], wr_script := [], sent := []\<rparr>"

definition packets_bytes :: "byte \<Rightarrow> nat \<Rightarrow> packet list \<Rightarrow> byte list" where
  "packets_bytes ty r ms = concat (map (\<lambda>m. frame_bytes (packet_frame ty r m)) ms)"

definition packets_ok :: "byte \<Rightarrow> nat \<Rightarrow> packet list \<Rightarrow> bool" where
  "packets_ok ty r ms \<longleftrightarrow> (\<forall>m \<in> set ms. packet_ok ty r m \<and> frame_wf (packet_frame ty r m))"

definition packets_data :: "packet list \<Rightarrow> byte list" where
  "packets_data ms = concat (map packet_data ms)"

definition packets_answer :: "packet list \<Rightarrow> byte list" where
  "packets_answer ms = concat (map packet_answer ms)"

lemma packets_simps [simp]:
  "packets_bytes ty r [] = []"
  "packets_bytes ty r (m # ms) = frame_bytes (packet_frame ty r m) @ packets_bytes ty r ms"
  "packets_ok ty r []"
  "packets_ok ty r (m # ms) = (packet_ok ty r m \<and> frame_wf (packet_frame ty r m) \<and> packets_ok ty r ms)"
  "packets_data [] = []" "packets_data (m # ms) = packet_data m @ packets_data ms"
  "packets_answer [] = []" "packets_answer (m # ms) = packet_answer m @ packets_answer ms"
  by (auto simp: packets_bytes_def packets_ok_def packets_data_def packets_answer_def)

text \<open>The state of the connection a reader of stream \<open>ty\<close> of request \<open>r\<close> works on.\<close>

definition reading :: "byte \<Rightarrow> nat \<Rightarrow> FCGX_Stream \<Rightarrow> 'z conn_scheme \<Rightarrow> 'z conn_scheme \<Rightarrow> bool" where
  "reading ty r s c k \<longleftrightarrow> ty \<noteq> 1 \<and> 0 < r \<and> r < 65536 \<and> out_ok c \<and> conn_fixed c = k \<and>
     isBeginProcessed k \<and> requestId k = int r \<and> stype s = uint ty \<and> FCGI_errno s = 0"

lemma reading_conn: "reading ty r s c k \<Longrightarrow> isBeginProcessed c \<and> requestId c = int r"
  by (auto simp: reading_def conn_fixed_def)

text \<open>
  What processing a packet leaves: its content is still to be delivered, or to be skipped, or has
  been read; the padding of a record whose content was read is gone too.
\<close>

definition handled :: "packet \<Rightarrow> byte list \<Rightarrow> nat \<Rightarrow> byte \<Rightarrow> nat \<Rightarrow> 'z conn_scheme \<Rightarrow> byte list \<Rightarrow> FCGX_Stream \<Rightarrow> 'z conn_scheme \<Rightarrow> bool" where
  "handled m nxt n ty r k snt s c \<longleftrightarrow>
     (\<exists>C P. pend s c C P nxt \<and> (skip s \<longrightarrow> C \<noteq> []) \<and> (if skip s then [] else C) = packet_data m) \<and>
     reading ty r s c k \<and> \<not> isClosed s \<and> \<not> eorStop s \<and> sent c = snt @ packet_answer m \<and>
     length (raw s c) \<le> n"

lemma reading_simps [simp]:
  "reading ty r (s\<lparr>isClosed := b\<rparr>) c k = reading ty r s c k"
  "reading ty r (s\<lparr>eorStop := b\<rparr>) c k = reading ty r s c k"
  "reading ty r (s\<lparr>skip := b\<rparr>) c k = reading ty r s c k"
  "reading ty r (s\<lparr>contentLen := i\<rparr>) c k = reading ty r s c k"
  "reading ty r (s\<lparr>paddingLen := i\<rparr>) c k = reading ty r s c k"
  "reading ty r (s\<lparr>rdNext := i\<rparr>) c k = reading ty r s c k"
  "reading ty r (s\<lparr>stop := i\<rparr>) c k = reading ty r s c k"
  "reading ty r (s\<lparr>wrNext := i\<rparr>) c k = reading ty r s c k"
  "reading ty r (s\<lparr>stopUnget := u\<rparr>) c k = reading ty r s c k"
  "reading ty r (fill_padding s) c k = reading ty r s c k"
  "reading ty r (fill_skip s) c k = reading ty r s c k"
  "reading ty r (fill_deliver s) c k = reading ty r s c k"
  by (simp_all add: reading_def)

lemma reading_sent:
  "reading ty r s c k \<Longrightarrow> out_ok (c\<lparr>sent := x, wr_script := ws\<rparr>) \<Longrightarrow>
   reading ty r s (c\<lparr>sent := x, wr_script := ws\<rparr>) k"
  by (auto simp: reading_def conn_fixed_def)

text \<open>The state in which \<open>FillBuffProc\<close> calls \<open>ProcessHeader\<close>, and the header's lengths stored.\<close>

definition at_body :: "FCGX_Stream \<Rightarrow> 'z conn_scheme \<Rightarrow> frame \<Rightarrow> byte list \<Rightarrow> bool" where
  "at_body s c f nxt \<longleftrightarrow>
     pend (s\<lparr>contentLen := length (f_content f), paddingLen := length (f_pad f)\<rparr>) c (f_content f) (f_pad f) nxt
     \<and> eorStop s \<and> stop s = rdNext s \<and> \<not> skip s \<and> \<not> isClosed s"

lemma ProcessHeader_frame:
  assumes "frame_wf f"
  shows "ProcessHeader_with fill (header_of (frame_header f)) s c =
    (let s = s\<lparr>contentLen := length (f_content f), paddingLen := length (f_pad f)\<rparr>; type = uint (f_type f)
     in if type = FCGI_BEGIN_REQUEST then ProcessBeginRecord fill (int (f_id f)) s c
        else if f_id f = 0 then ProcessManagementRecord fill type s c
        else if int (f_id f) \<noteq> requestId c then Some (SKIP, s, c)
        else if type \<noteq> stype s then Some (FCGX_PROTOCOL_ERROR, s, c)
        else Some (STREAM_RECORD, s, c))"
  unfolding ProcessHeader_with_def frame_header_fields [OF assms]
  by (simp add: FCGI_NULL_REQUEST_ID_def Let_def)

lemma answer_MakeHeader:
  assumes "i < 65536" "length d = 8"
  shows "\<exists>h. MakeHeader (uint (t :: byte)) (int i) 8 0 = Some h \<and> header_bytes h @ d =
     frame_bytes \<lparr>f_type = t, f_id = i, f_content = d, f_pad = [], f_reserved = 0\<rparr>"
  using MakeHeader_frame [of "\<lparr>f_type = t, f_id = i, f_content = d, f_pad = [], f_reserved = 0\<rparr>"] assms
  by (auto simp: frame_wf_def frame_bytes_def)

lemma process_packet:
  assumes ok: "packet_ok ty r m" and wf: "frame_wf (packet_frame ty r m)"
    and st: "at_body s c (packet_frame ty r m) nxt" and rd: "reading ty r s c k" and ne: "nxt \<noteq> []"
  shows "\<exists>status s4 c4 s5. ProcessHeader (header_of (frame_header (packet_frame ty r m))) s c = Some (status, s4, c4) \<and>
     fill_status status (s4\<lparr>eorStop := False, isClosed := False\<rparr>) = Some (True, s5) \<and>
     handled m nxt (length (raw s c)) ty r k (sent c) s5 c4"
proof -
  obtain msg pad x where m: "m = (msg, pad, x)" by (cases m)
  define f where "f = packet_frame ty r m"
  define s1 where "s1 = s\<lparr>contentLen := length (f_content f), paddingLen := length (f_pad f)\<rparr>"
  have p1: "pend s1 c (f_content f) (f_pad f) nxt" and e1: "eorStop s1" "stop s1 = rdNext s1" "\<not> skip s1" "\<not> isClosed s1"
    using st by (simp_all add: at_body_def s1_def f_def)
  have l1: "raw s1 c = raw s c" by (simp add: s1_def)
  have r1: "reading ty r s1 c k" using rd by (simp add: s1_def)
  have c: "isBeginProcessed c" "requestId c = int r" using reading_conn [OF rd] by simp_all
  have t1: "uint (f_type f) = FCGI_BEGIN_REQUEST \<longleftrightarrow> f_type f = 1"
    by (simp add: FCGI_BEGIN_REQUEST_def uint_byte_eq)
  have ph: "ProcessHeader (header_of (frame_header f)) s c =
    (if f_type f = 1 then ProcessBeginRecord FillBuffProc_eor (int (f_id f)) s1 c
     else if f_id f = 0 then ProcessManagementRecord FillBuffProc_eor (uint (f_type f)) s1 c
     else if int (f_id f) \<noteq> requestId c then Some (SKIP, s1, c)
     else if uint (f_type f) \<noteq> stype s1 then Some (FCGX_PROTOCOL_ERROR, s1, c)
     else Some (STREAM_RECORD, s1, c))"
    using wf unfolding ProcessHeader_def f_def [symmetric] s1_def
    by (simp add: ProcessHeader_frame Let_def t1)
  have "\<exists>status s4 c4 s5. ProcessHeader (header_of (frame_header f)) s c = Some (status, s4, c4) \<and>
     fill_status status (s4\<lparr>eorStop := False, isClosed := False\<rparr>) = Some (True, s5) \<and>
     handled m nxt (length (raw s c)) ty r k (sent c) s5 c4"
  proof (cases msg)
    case (Data d)
    then have f: "f_type f = ty" "f_id f = r" "f_content f = d" "d \<noteq> []"
      using m ok by (simp_all add: f_def)
    have "ProcessHeader (header_of (frame_header f)) s c = Some (STREAM_RECORD, s1, c)"
      using r1 c unfolding ph f by (simp add: reading_def Let_def)
    moreover have "fill_status STREAM_RECORD (s1\<lparr>eorStop := False, isClosed := False\<rparr>) =
        Some (True, s1\<lparr>eorStop := False, isClosed := False\<rparr>)"
      using f p1 by (simp add: fill_status_def pend_def)
    moreover have "handled m nxt (length (raw s c)) ty r k (sent c) (s1\<lparr>eorStop := False, isClosed := False\<rparr>) c"
      using p1 e1 r1 f m Data l1 by (auto simp: handled_def)
    ultimately show ?thesis by blast
  next
    case (Other t i d)
    then have f: "f_type f = t" "f_id f = i" "f_content f = d" "t \<noteq> 1" "i \<noteq> 0" "i \<noteq> r" "d \<noteq> []"
      using m ok by (simp_all add: f_def)
    have "ProcessHeader (header_of (frame_header f)) s c = Some (SKIP, s1, c)"
      using c unfolding ph f(1,2) by (simp add: f Let_def)
    moreover have "fill_status SKIP (s1\<lparr>eorStop := False, isClosed := False\<rparr>) =
        Some (True, s1\<lparr>eorStop := False, isClosed := False, skip := True\<rparr>)"
      by (simp add: fill_status_def process_codes)
    moreover have "handled m nxt (length (raw s c)) ty r k (sent c) (s1\<lparr>eorStop := False, isClosed := False, skip := True\<rparr>) c"
      using p1 e1 r1 f m Other l1 by (auto simp: handled_def)
    ultimately show ?thesis by blast
  next
    case (Begin i d)
    then have f: "f_type f = 1" "f_id f = i" "f_content f = d" "i \<noteq> 0" "length d = 8"
      using m ok by (simp_all add: f_def)
    have "i < 65536" using wf f unfolding f_def [symmetric] by (simp add: frame_wf_def)
    then obtain h where h: "MakeHeader (uint (3 :: byte)) (int i) 8 0 = Some h"
      "header_bytes h @ [0, 0, 0, 0, 1, 0, 0, 0] = packet_answer m"
      using answer_MakeHeader [of i "[0, 0, 0, 0, 1, 0, 0, 0]" 3] m Begin by auto
    have b: "end_body_bytes (MakeEndRequestBody 0 FCGI_CANT_MPX_CONN) = [0, 0, 0, 0, 1, 0, 0, 0]"
      by (simp add: end_body_bytes_def MakeEndRequestBody_def FCGI_CANT_MPX_CONN_def)
    obtain ws where w: "write_it_all (packet_answer m) c = (0, c\<lparr>sent := sent c @ packet_answer m, wr_script := ws\<rparr>)"
      "out_ok (c\<lparr>sent := sent c @ packet_answer m, wr_script := ws\<rparr>)"
      using write_it_all_ok [of c] rd by (auto simp: reading_def)
    define c4 where "c4 = c\<lparr>sent := sent c @ packet_answer m, wr_script := ws\<rparr>"
    have "contentLen s1 = 8" using f by (simp add: s1_def)
    then have "ProcessHeader (header_of (frame_header f)) s c = Some (SKIP, s1, c4)"
      using c h w(1) f(4) unfolding ph f(1,2)
      by (simp add: ProcessBeginRecord_def b FCGI_END_REQUEST_def c4_def)
    moreover have "fill_status SKIP (s1\<lparr>eorStop := False, isClosed := False\<rparr>) =
        Some (True, s1\<lparr>eorStop := False, isClosed := False, skip := True\<rparr>)"
      by (simp add: fill_status_def process_codes)
    moreover have l4: "raw s1 c4 = raw s c" using l1 by (simp add: c4_def raw_def)
    moreover have "pend s1 c4 (f_content f) (f_pad f) nxt" using p1 w(2)
      by (simp add: c4_def pend_def raw_def net_ok_def)
    then have "handled m nxt (length (raw s c)) ty r k (sent c) (s1\<lparr>eorStop := False, isClosed := False, skip := True\<rparr>) c4"
      using reading_sent [OF r1 w(2)] f m Begin l4 by (auto simp: handled_def c4_def)
    ultimately show ?thesis by blast
  next
    case (Mgmt t)
    then have f: "f_type f = t" "f_id f = 0" "f_content f = []" "t \<noteq> 1" "t \<noteq> 9"
      using m ok by (simp_all add: f_def)
    then have t9: "uint t \<noteq> FCGI_GET_VALUES" by (simp add: FCGI_GET_VALUES_def uint_byte_eq)
    have rep: "replicate 7 (0 :: byte) = [0, 0, 0, 0, 0, 0, 0]" by (simp add: numeral_eq_Suc)
    obtain h where h: "MakeHeader (uint (11 :: byte)) 0 8 0 = Some h"
      "header_bytes h @ t # replicate 7 0 = packet_answer m"
      using answer_MakeHeader [of 0 "t # replicate 7 0" 11] m Mgmt rep by auto
    obtain ws where w: "write_it_all (packet_answer m) c = (0, c\<lparr>sent := sent c @ packet_answer m, wr_script := ws\<rparr>)"
      "out_ok (c\<lparr>sent := sent c @ packet_answer m, wr_script := ws\<rparr>)"
      using write_it_all_ok [of c] rd by (auto simp: reading_def)
    define c4 where "c4 = c\<lparr>sent := sent c @ packet_answer m, wr_script := ws\<rparr>"
    have "ProcessHeader (header_of (frame_header f)) s c = Some (MGMT_RECORD, s1, c4)"
      using c h w(1) f(4) t9 unfolding ph f(1,2)
      by (simp add: ProcessManagementRecord_def MakeUnknownTypeBody_def FCGI_UNKNOWN_TYPE_def
          FCGI_NULL_REQUEST_ID_def c4_def Let_def)
    moreover have "fill_status MGMT_RECORD (s1\<lparr>eorStop := False, isClosed := False\<rparr>) =
        Some (True, s1\<lparr>eorStop := False, isClosed := False\<rparr>)"
      by (simp add: fill_status_def process_codes)
    moreover have l4: "raw s1 c4 = raw s c" using l1 by (simp add: c4_def raw_def)
    moreover have "pend s1 c4 (f_content f) (f_pad f) nxt" using p1 w(2)
      by (simp add: c4_def pend_def raw_def net_ok_def)
    then have "handled m nxt (length (raw s c)) ty r k (sent c) (s1\<lparr>eorStop := False, isClosed := False\<rparr>) c4"
      using reading_sent [OF r1 w(2)] f m Mgmt e1 l4 by (auto simp: handled_def c4_def)
    ultimately show ?thesis by blast
  next
    case (GetValues ps)
    then have f: "f_type f = 9" "f_id f = 0" "f_content f = concat (map nv_bytes ps)"
      and ps: "length (values_content ps) \<le> 55"
        "\<forall>p \<in> set ps. nv_ok p \<and> 0 \<notin> set (nv_name p) \<and> 61 \<notin> set (nv_name p)"
      using m ok by (simp_all add: f_def)
    have rel: "eor_rel s1 c (f_content f) (nxt, c\<lparr>rd_script := []\<rparr>, uint ty, length (f_pad f))"
      using p1 e1 r1 ne unfolding eor_rel_def pend_def
      by (auto simp: window_def reader_ok_def reading_def)
    obtain v where v: "NewParams 3 = Some v" "params_wf v" "params_list v = []"
      by (auto simp: NewParams_def params_wf_def params_list_def)
    obtain v' s2 c2 where rp: "ReadParams FillBuffProc_eor v s1 c = Some (0, v', s2, c2)"
      "params_list v' = map nv_entry ps" and fin: "eor_fin s2 c2 (nxt, c\<lparr>rd_script := []\<rparr>, uint ty, length (f_pad f))"
      and cl: "isClosed s2"
      using inside.ReadParams_bytes [OF rel [unfolded f(3)] _ v(2)] ps(2) v(3) by auto
    have p2: "pend s2 c2 [] [] nxt" "\<not> skip s2" "c2\<lparr>rd_script := []\<rparr> = c\<lparr>rd_script := []\<rparr>"
      "stype s2 = uint ty" "FCGI_errno s2 = 0" using fin by (simp_all add: eor_fin_def)
    have "c2\<lparr>rd_script := []\<rparr>\<lparr>rd_script := rd_script c2\<rparr> = c\<lparr>rd_script := []\<rparr>\<lparr>rd_script := rd_script c2\<rparr>"
      by (simp only: p2(3))
    then obtain rs where c2: "c2 = c\<lparr>rd_script := rs\<rparr>" by (intro that [of "rd_script c2"]) simp
    have snt: "sent c2 = sent c" and cf: "conn_fixed c2 = conn_fixed c" and o2: "out_ok c2"
      using rd by (simp_all add: c2 conn_fixed_def out_ok_def reading_def)
    obtain rb n where mr: "mgmt_response (map nv_entry ps) = Some (rb, n)"
      "buf_read 0 (FCGI_HEADER_LEN + n) rb = Some (packet_answer m)"
      using mgmt_response_values [of ps pad x] ps m GetValues by auto
    obtain ws where w: "write_it_all (packet_answer m) c2 = (0, c2\<lparr>sent := sent c2 @ packet_answer m, wr_script := ws\<rparr>)"
      "out_ok (c2\<lparr>sent := sent c2 @ packet_answer m, wr_script := ws\<rparr>)"
      using write_it_all_ok [OF o2] by auto
    define c4 where "c4 = c2\<lparr>sent := sent c2 @ packet_answer m, wr_script := ws\<rparr>"
    have "contentLen s2 = 0" using p2 by (simp add: pend_def)
    then have R: "ProcessHeader (header_of (frame_header f)) s c = Some (MGMT_RECORD, s2, c4)"
      using v(1) rp mr w(1) p2(5) unfolding ph f(1,2)
      by (simp add: ProcessManagementRecord_def FCGI_GET_VALUES_def FCGX_GetError_def c4_def Let_def)
    have S: "fill_status MGMT_RECORD (s2\<lparr>eorStop := False, isClosed := False\<rparr>) =
        Some (True, s2\<lparr>eorStop := False, isClosed := False\<rparr>)"
      by (simp add: fill_status_def process_codes)
    have p4: "pend s2 c4 [] [] nxt" using p2(1) w(2)
      by (simp add: c4_def pend_def raw_def net_ok_def)
    moreover have "length (raw s2 c4) \<le> length (raw s c)"
      using p4 p1 l1 unfolding pend_def by simp
    moreover have "reading ty r s2 c2 k" using rd p2 cf o2 by (simp add: reading_def)
    then have "reading ty r s2 c4 k" using reading_sent w(2) by (simp add: c4_def)
    ultimately have "handled m nxt (length (raw s c)) ty r k (sent c) (s2\<lparr>eorStop := False, isClosed := False\<rparr>) c4"
      using p2(2) m GetValues snt by (auto simp: handled_def c4_def)
    then show ?thesis
      using R S by blast
  qed
  then show ?thesis by (simp only: f_def)
qed

end
