(* ===== verification/Fcgi_Client.thy ===== *)
theory Fcgi_Client
  imports Fcgi_Packets
begin

text \<open>
  \<open>FillBuffProc\<close> against its contract: for every division of the connection's bytes into chunks,
  the client of a stream gets the contents of the records of its stream, in order, until the
  empty record that ends it; the records of other requests are skipped and the management and
  begin records are answered.  \<open>rd_inv\<close> is the invariant of the loop, \<open>reader_rel\<close> the relation of
  a reader between two calls, \<open>reader_fin\<close> its state at the end of the stream.
\<close>

section \<open>The loop of FillBuffProc\<close>

text \<open>
  Between two rounds of the loop: \<open>h\<close> is the part of a header that has been read, \<open>C\<close> and \<open>P\<close>
  what is left of the content and of the padding of the current record, \<open>ms\<close> the packets before
  the record that ends the stream.  The target \<open>(tail, pl, S, k)\<close> says what is to hold at the
  end of the stream: the bytes behind its last header, the padding these begin with, all that
  will have been sent, and the rest of the connection's state.
\<close>

definition rd_at :: "byte \<Rightarrow> nat \<Rightarrow> byte list \<Rightarrow> FCGX_Stream \<Rightarrow> 'z conn_scheme \<Rightarrow> byte list \<Rightarrow>
    byte list \<times> nat \<times> byte list \<times> 'z conn_scheme \<Rightarrow>
    byte list \<Rightarrow> byte list \<Rightarrow> byte list \<Rightarrow> packet list \<Rightarrow> byte list \<Rightarrow> byte \<Rightarrow> bool" where
  "rd_at ty r h s c body t C P X ms pad x \<longleftrightarrow>
     (case t of (tail, pl, S, k) \<Rightarrow>
        pend s c C P X \<and>
        h @ X = packets_bytes ty r ms @ frame_header (end_frame ty r pad x) @ tail \<and>
        length pad = pl \<and> pl < 256 \<and> length h < 8 \<and> (h \<noteq> [] \<longrightarrow> C = [] \<and> P = []) \<and>
        (skip s \<longrightarrow> C \<noteq> []) \<and> packets_ok ty r ms \<and>
        body = (if skip s then [] else C) @ packets_data ms \<and>
        S = sent c @ packets_answer ms \<and> reading ty r s c k \<and> \<not> isClosed s \<and> \<not> eorStop s)"

definition rd_inv :: "byte \<Rightarrow> nat \<Rightarrow> byte list \<Rightarrow> FCGX_Stream \<Rightarrow> 'z conn_scheme \<Rightarrow> byte list \<Rightarrow>
    byte list \<times> nat \<times> byte list \<times> 'z conn_scheme \<Rightarrow> bool" where
  "rd_inv ty r h s c body t \<longleftrightarrow> (\<exists>C P X ms pad x. rd_at ty r h s c body t C P X ms pad x)"

definition rel_at :: "byte \<Rightarrow> nat \<Rightarrow> FCGX_Stream \<Rightarrow> 'z conn_scheme \<Rightarrow> byte list \<Rightarrow>
    byte list \<times> nat \<times> byte list \<times> 'z conn_scheme \<Rightarrow>
    byte list \<Rightarrow> byte list \<Rightarrow> packet list \<Rightarrow> byte list \<Rightarrow> byte \<Rightarrow> bool" where
  "rel_at ty r s c body t C P ms pad x \<longleftrightarrow>
     (case t of (tail, pl, S, k) \<Rightarrow>
        reader_ok s \<and> net_ok c \<and> rdNext s \<le> stop s \<and> stop s \<le> buffStop s \<and>
        reading ty r s c k \<and> \<not> isClosed s \<and> \<not> eorStop s \<and> \<not> skip s \<and>
        raw s c = window s @ C @ P @ packets_bytes ty r ms @ frame_header (end_frame ty r pad x) @ tail \<and>
        contentLen s = length C \<and> paddingLen s = length P \<and>
        length pad = pl \<and> pl < 256 \<and> packets_ok ty r ms \<and>
        body = window s @ C @ packets_data ms \<and> S = sent c @ packets_answer ms)"

definition reader_rel :: "byte \<Rightarrow> nat \<Rightarrow> FCGX_Stream \<Rightarrow> 'z conn_scheme \<Rightarrow> byte list \<Rightarrow>
    byte list \<times> nat \<times> byte list \<times> 'z conn_scheme \<Rightarrow> bool" where
  "reader_rel ty r s c body t \<longleftrightarrow> (\<exists>C P ms pad x. rel_at ty r s c body t C P ms pad x)"

definition reader_fin :: "byte \<Rightarrow> nat \<Rightarrow> FCGX_Stream \<Rightarrow> 'z conn_scheme \<Rightarrow>
    byte list \<times> nat \<times> byte list \<times> 'z conn_scheme \<Rightarrow> bool" where
  "reader_fin ty r s c t \<longleftrightarrow>
     (case t of (tail, pl, S, k) \<Rightarrow>
        reader_ok s \<and> net_ok c \<and> reading ty r s c k \<and> \<not> eorStop s \<and> \<not> skip s \<and>
        contentLen s = 0 \<and> paddingLen s = pl \<and> raw s c = tail \<and> sent c = S \<and>
        stop s = rdNext s)"

lemma reading_read:
  "reading ty r (s\<lparr>buff := b, rdNext := n, buffStop := m\<rparr>) (c\<lparr>rd_script := rs\<rparr>) k = reading ty r s c k"
  by (simp add: reading_def conn_fixed_def out_ok_def)

lemma rd_invI: "rd_at ty r h s c body t C P X ms pad x \<Longrightarrow> rd_inv ty r h s c body t"
  unfolding rd_inv_def by blast

lemma reader_relI: "rel_at ty r s c body t C P ms pad x \<Longrightarrow> reader_rel ty r s c body t"
  unfolding reader_rel_def by blast

lemma rd_inv_read:
  assumes i: "rd_inv ty r h s c body t"
  shows "\<exists>s1 c1. fill_read s c = Some (True, s1, c1) \<and> rd_inv ty r h s1 c1 body t \<and>
     0 < avail s1 \<and> length (raw s1 c1) = length (raw s c)"
proof -
  obtain C P X ms pad x where a: "rd_at ty r h s c body t C P X ms pad x"
    using i unfolding rd_inv_def by blast
  then have p: "pend s c C P X" by (auto simp: rd_at_def)
  obtain tail where e: "h @ X = packets_bytes ty r ms @ frame_header (end_frame ty r pad x) @ tail"
    and "length h < 8" using a by (auto simp: rd_at_def)
  moreover have "8 \<le> length (h @ X)" unfolding e by simp
  ultimately have ne: "C @ P @ X \<noteq> []" by auto
  obtain b n m rs where
    rd: "fill_read s c = Some (True, s\<lparr>buff := b, rdNext := n, buffStop := m\<rparr>, c\<lparr>rd_script := rs\<rparr>)"
    and p1: "pend (s\<lparr>buff := b, rdNext := n, buffStop := m\<rparr>) (c\<lparr>rd_script := rs\<rparr>) C P X"
    and nm: "n < m"
    by (rule fill_read_pend [OF p ne])
  have "rd_at ty r h (s\<lparr>buff := b, rdNext := n, buffStop := m\<rparr>) (c\<lparr>rd_script := rs\<rparr>) body t C P X ms pad x"
    using a p1 unfolding rd_at_def by (auto simp: reading_read)
  then show ?thesis using rd nm p p1 unfolding rd_inv_def pend_def avail_def by fastforce
qed

lemma rd_inv_deliver:
  assumes i: "rd_inv ty r h s c body t" and s: "0 < contentLen s" "\<not> skip s" "0 < avail s"
  shows "reader_rel ty r (fill_deliver s) c body t \<and> rdNext (fill_deliver s) < stop (fill_deliver s) \<and> body \<noteq> []"
proof -
  obtain C P X ms pad x where a: "rd_at ty r h s c body t C P X ms pad x"
    using i unfolding rd_inv_def by blast
  then have p: "pend s c C P X" by (auto simp: rd_at_def)
  then have C: "C \<noteq> []" using s(1) by (auto simp: pend_def)
  define s' C' where "s' = fill_deliver s" and "C' = drop (min (length C) (avail s)) C"
  have d: "reader_ok s'" "rdNext s' < stop s'" "stop s' \<le> buffStop s'" "C = window s' @ C'"
    "contentLen s' = length C'" "raw s' c = window s' @ C' @ P @ X" "paddingLen s' = length P" "net_ok c"
    using pend_deliver [OF p C s(3)] p unfolding Let_def C'_def s'_def by (simp_all add: pend_def)
  have "rel_at ty r s' c body t C' P ms pad x"
    using a d(1-3,5-8) s(2) C unfolding rd_at_def rel_at_def
    by (auto simp: s'_def [symmetric] d(4) [symmetric]) (auto simp: s'_def)
  moreover have "body \<noteq> []" using C a s(2) unfolding rd_at_def by auto
  ultimately show ?thesis using d(2) reader_relI by (simp add: s'_def)
qed

lemma rd_inv_skip:
  assumes i: "rd_inv ty r h s c body t" and s: "0 < contentLen s" "skip s" "0 < avail s"
  shows "rd_inv ty r h (fill_skip s) c body t \<and> length (raw (fill_skip s) c) < length (raw s c)"
proof -
  obtain C P X ms pad x where a: "rd_at ty r h s c body t C P X ms pad x"
    using i unfolding rd_inv_def by blast
  then have p: "pend s c C P X" by (auto simp: rd_at_def)
  then have C: "contentLen s = length C" by (simp add: pend_def)
  define C' where "C' = drop (min (length C) (avail s)) C"
  have p': "pend (fill_skip s) c C' P X" using pend_skip [OF p] by (simp add: C'_def)
  have sk: "skip (fill_skip s) \<longleftrightarrow> C' \<noteq> []" using C s by (auto simp: fill_skip_def C'_def Let_def)
  have "rd_inv ty r h (fill_skip s) c body t"
    by (rule rd_invI [of _ _ _ _ _ _ _ C' P X ms pad x], use a p' sk s C in \<open>auto simp: rd_at_def C'_def\<close>)
  moreover have "length C' < length C" using C s by (auto simp: C'_def)
  ultimately show ?thesis using p p' unfolding pend_def by auto
qed

lemma rd_inv_padding:
  assumes i: "rd_inv ty r h s c body t" and s: "contentLen s = 0"
  shows "rd_inv ty r h (fill_padding s) c body t \<and> contentLen (fill_padding s) = 0 \<and>
     (if 0 < paddingLen s \<and> 0 < avail s then length (raw (fill_padding s) c) < length (raw s c)
      else length (raw (fill_padding s) c) \<le> length (raw s c))"
proof -
  obtain C P X ms pad x where a: "rd_at ty r h s c body t C P X ms pad x"
    using i unfolding rd_inv_def by blast
  then have p: "pend s c [] P X" and C: "C = []" using s by (auto simp: rd_at_def pend_def)
  define P' where "P' = drop (min (length P) (avail s)) P"
  have p': "pend (fill_padding s) c [] P' X" using pend_padding [OF p] by (simp add: P'_def)
  have "rd_inv ty r h (fill_padding s) c body t"
    by (rule rd_invI [of _ _ _ _ _ _ _ "[]" P' X ms pad x], use a p' C in \<open>auto simp: rd_at_def P'_def\<close>)
  then show ?thesis using p p' unfolding pend_def P'_def by auto
qed

lemma rd_inv_header:
  assumes i: "rd_inv ty r h s c body t" and s: "contentLen s = 0" "paddingLen s = 0"
    and l: "length h + n < 8" "n \<le> avail s"
  shows "rd_inv ty r (h @ take n (raw s c)) (s\<lparr>rdNext := rdNext s + n\<rparr>) c body t"
proof -
  obtain C P X ms pad x where a: "rd_at ty r h s c body t C P X ms pad x"
    using i unfolding rd_inv_def by blast
  then have p: "pend s c [] [] X" and CP: "C = []" "P = []" using s by (auto simp: rd_at_def pend_def)
  have X: "raw s c = X" and "reader_ok s" using p by (auto simp: pend_def)
  then have "pend (s\<lparr>rdNext := rdNext s + n\<rparr>) c [] [] (drop n X)"
    using raw_advance [of s n c] l(2) p by (simp add: pend_def)
  then have "rd_at ty r (h @ take n X) (s\<lparr>rdNext := rdNext s + n\<rparr>) c body t [] [] (drop n X) ms pad x"
    using a CP l(1) unfolding rd_at_def by auto
  then show ?thesis unfolding rd_inv_def X by blast
qed


lemma append_split: "a @ c = b @ d \<Longrightarrow> length a = length b \<Longrightarrow> a = b \<and> c = d"
  by simp

lemma ProcessHeader_end:
  assumes rd: "reading ty r s c k" and pad: "length pad < 256"
  shows "ProcessHeader (header_of (frame_header (end_frame ty r pad x))) s c =
     Some (STREAM_RECORD, s\<lparr>contentLen := 0, paddingLen := length pad\<rparr>, c)"
proof -
  have wf: "frame_wf (end_frame ty r pad x)" using rd pad by (simp add: frame_wf_def end_frame_def reading_def)
  have "uint ty \<noteq> FCGI_BEGIN_REQUEST" using rd by (simp add: reading_def FCGI_BEGIN_REQUEST_def uint_byte_eq)
  then show ?thesis using rd reading_conn [OF rd]
    unfolding ProcessHeader_def ProcessHeader_frame [OF wf] by (simp add: end_frame_def reading_def Let_def)
qed

lemma rd_inv_full:
  fixes s n
  defines "s3 \<equiv> s\<lparr>rdNext := rdNext s + n\<rparr>"
  assumes i: "rd_inv ty r h s c body t" and z: "contentLen s = 0" "paddingLen s = 0"
    and l: "length h + n = 8" "n \<le> avail s"
  shows "\<exists>status s4 c4 go s5.
    ProcessHeader (header_of (h @ take n (raw s c))) (s3\<lparr>eorStop := True, stop := rdNext s3\<rparr>) c = Some (status, s4, c4) \<and>
    fill_status status (s4\<lparr>eorStop := False, isClosed := False\<rparr>) = Some (go, s5) \<and>
    (if go then rd_inv ty r [] s5 c4 body t \<and> length (raw s5 c4) \<le> length (raw s3 c)
     else body = [] \<and> isClosed s5 \<and> reader_fin ty r s5 c4 t)"
proof -
  obtain C P X ms pad x where a: "rd_at ty r h s c body t C P X ms pad x"
    using i unfolding rd_inv_def by blast
  obtain tail pl S k where t: "t = (tail, pl, S, k)" by (cases t)
  from a z have p: "pend s c [] [] X" and body: "body = packets_data ms" and nsk: "\<not> skip s"
    and pl: "length pad = pl" "pl < 256" and ok: "packets_ok ty r ms" and S: "S = sent c @ packets_answer ms"
    and rd: "reading ty r s c k" and cl: "\<not> isClosed s"
    and e: "h @ X = packets_bytes ty r ms @ frame_header (end_frame ty r pad x) @ tail"
    unfolding rd_at_def t by (auto simp: pend_def)
  define s' where "s' = s3\<lparr>eorStop := True, stop := rdNext s3\<rparr>"
  have X: "raw s c = X" and "reader_ok s" and net: "net_ok c" using p by (auto simp: pend_def)
  then have r3: "raw s3 c = drop n X" "reader_ok s3" using raw_advance [of s n c] l(2) by (simp_all add: s3_def)
  have rd': "reading ty r s' c k" using rd by (simp add: s'_def s3_def)
  have nX: "n \<le> length X" using X avail_le_raw [OF \<open>reader_ok s\<close>, of c] l(2) by simp
  then have l8: "length (h @ take n X) = 8" using l(1) by simp
  have e8: "(h @ take n X) @ drop n X = packets_bytes ty r ms @ frame_header (end_frame ty r pad x) @ tail"
    using e by simp
  show ?thesis
  proof (cases ms)
    case Nil
    have "(h @ take n X) @ drop n X = frame_header (end_frame ty r pad x) @ tail"
      unfolding e8 by (simp add: Nil)
    from append_split [OF this] have h: "h @ take n X = frame_header (end_frame ty r pad x)"
      and d: "drop n X = tail"
      unfolding l8 by simp_all
    have "ProcessHeader (header_of (h @ take n X)) s' c =
       Some (STREAM_RECORD, s'\<lparr>contentLen := 0, paddingLen := length pad\<rparr>, c)"
      unfolding h by (rule ProcessHeader_end [OF rd']) (use pl in simp)
    moreover define s5 where "s5 = s'\<lparr>contentLen := 0, paddingLen := length pad, eorStop := False,
       stop := rdNext s', wrNext := rdNext s', isClosed := True\<rparr>"
    have "fill_status STREAM_RECORD (s'\<lparr>contentLen := 0, paddingLen := length pad\<rparr>\<lparr>eorStop := False, isClosed := False\<rparr>)
        = Some (False, s5)"
      by (simp add: fill_status_def s5_def s'_def)
    moreover have "reader_fin ty r s5 c t" using r3 d net rd pl S Nil nsk
      unfolding reader_fin_def t s5_def s'_def by (simp add: s3_def)
    moreover have "isClosed s5" by (simp add: s5_def)
    ultimately show ?thesis using body Nil unfolding X s'_def [symmetric]
      by (metis (no_types, lifting) packets_simps(5))
  next
    case (Cons m ms')
    define f nxt where "f = packet_frame ty r m"
      and "nxt = packets_bytes ty r ms' @ frame_header (end_frame ty r pad x) @ tail"
    have "(h @ take n X) @ drop n X = frame_header f @ (f_content f @ f_pad f @ nxt)"
      unfolding e8 by (simp add: Cons f_def nxt_def frame_bytes_def)
    from append_split [OF this] have h: "h @ take n X = frame_header f"
      and d: "drop n X = f_content f @ f_pad f @ nxt"
      unfolding l8 by simp_all
    have wf: "packet_ok ty r m" "frame_wf f" "packets_ok ty r ms'" using ok Cons by (simp_all add: f_def)
    have "frame_header (end_frame ty r pad x) \<noteq> []" by (simp add: frame_header_def)
    then have ne: "nxt \<noteq> []" by (simp add: nxt_def)
    have rs: "raw s' c = drop n X" using r3 by (simp add: s'_def)
    have "at_body s' c f nxt" using r3 net d nsk cl unfolding at_body_def pend_def
      by (simp add: s'_def s3_def)
    from process_packet [OF wf(1) wf(2) [unfolded f_def] this [unfolded f_def] rd' ne]
    obtain status s4 c4 s5 where ph: "ProcessHeader (header_of (frame_header f)) s' c = Some (status, s4, c4)"
      "fill_status status (s4\<lparr>eorStop := False, isClosed := False\<rparr>) = Some (True, s5)"
      and hd: "handled m nxt (length (raw s' c)) ty r k (sent c) s5 c4"
      unfolding f_def [symmetric] by blast
    from hd obtain C5 P5 where "pend s5 c4 C5 P5 nxt" "skip s5 \<longrightarrow> C5 \<noteq> []"
      "(if skip s5 then [] else C5) = packet_data m"
      "reading ty r s5 c4 k" "\<not> isClosed s5" "\<not> eorStop s5" "sent c4 = sent c @ packet_answer m"
      "length (raw s5 c4) \<le> length (raw s' c)"
      unfolding handled_def by blast
    then have "rd_at ty r [] s5 c4 body t C5 P5 nxt ms' pad x" "length (raw s5 c4) \<le> length (raw s3 c)"
      using pl wf(3) body S Cons rs r3 unfolding rd_at_def t nxt_def by simp_all
    then show ?thesis using ph rd_invI unfolding X h s'_def [symmetric] by (metis (full_types))
  qed
qed

text \<open>One round that does not deliver anything.\<close>

lemma FillBuffProc_round:
  assumes rd: "fill_read s c = Some (True, s1, c1)" and n: "(0 < contentLen s1 \<and> \<not> skip s1) = False"
    and s2: "s2 = (if 0 < contentLen s1 then fill_skip s1 else s1)"
    and s3: "s3 = fill_padding s2" and eor: "\<not> eorStop s3"
  shows "FillBuffProc_loop ph (Suc fuel) h s c =
    (if 0 < contentLen s2 then FillBuffProc_loop ph fuel h s2 c1
     else if 0 < paddingLen s3 then FillBuffProc_loop ph fuel h s3 c1
     else do {
       let n = min (8 - length h) (avail s3);
       bs \<leftarrow> buf_read (rdNext s3) n (buff s3);
       let s4 = s3\<lparr>rdNext := rdNext s3 + n\<rparr>;
       if length (h @ bs) < 8 then FillBuffProc_loop ph fuel (h @ bs) s4 c1
       else do {
         (status, s5, c) \<leftarrow> ph (header_of (h @ bs)) (s4\<lparr>eorStop := True, stop := rdNext s4\<rparr>) c1;
         (go, s6) \<leftarrow> fill_status status (s5\<lparr>eorStop := False, isClosed := False\<rparr>);
         if go then FillBuffProc_loop ph fuel [] s6 c else Some (s6, c)
       }
     })"
  unfolding FillBuffProc_loop.simps(2) rd s3 Option.bind.bind_lunit prod.case n s2 [symmetric] fill_padding_if Let_def
  using eor unfolding s3 by simp

lemma reader_loop:
  assumes "rd_inv ty r h s c body t" "length (raw s c) < fuel"
  shows "\<exists>s' c'. FillBuffProc_loop ProcessHeader fuel h s c = Some (s', c') \<and>
     (if body = [] then isClosed s' \<and> reader_fin ty r s' c' t
      else reader_rel ty r s' c' body t \<and> rdNext s' < stop s')"
  using assms
proof (induction fuel arbitrary: h s c)
  case 0
  then show ?case by simp
next
  case (Suc fuel)
  obtain s1 c1 where rd: "fill_read s c = Some (True, s1, c1)" and i1: "rd_inv ty r h s1 c1 body t"
    and a1: "0 < avail s1" and l1: "length (raw s1 c1) \<le> fuel"
    using rd_inv_read [OF Suc.prems(1)] Suc.prems(2) by auto
  show ?case
  proof (cases "0 < contentLen s1 \<and> \<not> skip s1")
    case True
    then show ?thesis using rd rd_inv_deliver [OF i1 _ _ a1] by (auto simp: FillBuffProc_loop.simps(2))
  next
    case nodel: False
    define s2 where s2: "s2 = (if 0 < contentLen s1 then fill_skip s1 else s1)"
    have i2: "rd_inv ty r h s2 c1 body t" and l2: "length (raw s2 c1) \<le> length (raw s1 c1)"
      "0 < contentLen s1 \<Longrightarrow> length (raw s2 c1) < length (raw s1 c1)"
      using rd_inv_skip [OF i1 _ _ a1] nodel i1 by (auto simp: s2)
    define s3 where s3: "s3 = fill_padding s2"
    have "\<not> eorStop s3" using i2 by (auto simp: rd_inv_def rd_at_def s3)
    note round = FillBuffProc_round [where ph = ProcessHeader and fuel = fuel and h = h, OF rd _ s2 s3 this]
    have nodel': "(0 < contentLen s1 \<and> \<not> skip s1) = False" using nodel by blast
    show ?thesis
    proof (cases "0 < contentLen s2")
      case True
      then have "0 < contentLen s1" by (auto simp: s2 split: if_splits)
      then have "length (raw s2 c1) < fuel" using l1 l2(2) by simp
      from Suc.IH [OF i2 this] show ?thesis using True unfolding round [OF nodel'] by simp
    next
      case z2: False
      have i3: "rd_inv ty r h s3 c1 body t" and z3: "contentLen s3 = 0"
        and l3: "length (raw s3 c1) \<le> length (raw s2 c1)"
        "0 < paddingLen s2 \<Longrightarrow> 0 < avail s2 \<Longrightarrow> length (raw s3 c1) < length (raw s2 c1)"
        using rd_inv_padding [OF i2] z2 unfolding s3 by (auto split: if_splits)
      have prog: "length (raw s3 c1) < fuel \<or> (avail s3 = avail s1 \<and> paddingLen s3 = 0)"
      proof (cases "0 < contentLen s1 \<or> 0 < paddingLen s2")
        case True
        then show ?thesis using l1 l2 l3 a1 by (cases "0 < contentLen s1") (auto simp: s2)
      next
        case False
        then have "s2 = s1" "paddingLen s1 = 0" by (auto simp: s2 split: if_splits)
        then show ?thesis by (simp add: s3 fill_padding_zero)
      qed
      show ?thesis
      proof (cases "0 < paddingLen s3")
        case True
        then have "length (raw s3 c1) < fuel" using prog by simp
        from Suc.IH [OF i3 this] show ?thesis using True z2 unfolding round [OF nodel'] by simp
      next
        case False
        then have p3: "paddingLen s3 = 0" by simp
        define n where "n = min (8 - length h) (avail s3)"
        define s4 where "s4 = s3\<lparr>rdNext := rdNext s3 + n\<rparr>"
        have ok3: "reader_ok s3" and h8: "length h < 8"
          using i3 by (auto simp: rd_inv_def rd_at_def pend_def)
        have n: "n \<le> avail s3" by (simp add: n_def)
        have l4: "length (raw s4 c1) < fuel"
        proof -
          have "length (raw s4 c1) = length (raw s3 c1) - n" "n \<le> length (raw s3 c1)"
            using raw_advance [OF ok3 n, of c1] avail_le_raw [OF ok3, of c1] n by (simp_all add: s4_def)
          moreover have "0 < n" if "avail s3 = avail s1" using that a1 h8 by (simp add: n_def)
          ultimately show ?thesis using prog l1 l2(1) l3(1) by linarith
        qed
        have "rdNext s3 + n \<le> length (buff s3)" using ok3 n unfolding reader_ok_def avail_def by arith
        then have b: "buf_read (rdNext s3) n (buff s3) = Some (take n (raw s3 c1))"
          using raw_take_window [OF ok3 n, of c1] by (simp add: buf_read_def)
        have ln: "length (take n (raw s3 c1)) = n" using avail_le_raw [OF ok3, of c1] n by simp
        note eqn = round [OF nodel', unfolded Let_def, folded n_def, unfolded b, folded s4_def]
        show ?thesis
        proof (cases "length h + n < 8")
          case True
          have i4: "rd_inv ty r (h @ take n (raw s3 c1)) s4 c1 body t"
            unfolding s4_def by (rule rd_inv_header [OF i3 z3 p3 True n])
          from Suc.IH [OF i4 l4] show ?thesis using z2 False True ln unfolding eqn by simp
        next
          case full: False
          then have "length h + n = 8" using h8 by (simp add: n_def)
          from rd_inv_full [OF i3 z3 p3 this n] obtain status s5 c5 go s6 where
            ph: "ProcessHeader (header_of (h @ take n (raw s3 c1))) (s4\<lparr>eorStop := True, stop := rdNext s4\<rparr>) c1 = Some (status, s5, c5)"
            "fill_status status (s5\<lparr>eorStop := False, isClosed := False\<rparr>) = Some (go, s6)"
            and res: "if go then rd_inv ty r [] s6 c5 body t \<and> length (raw s6 c5) \<le> length (raw s4 c1)
              else body = [] \<and> isClosed s6 \<and> reader_fin ty r s6 c5 t"
            unfolding s4_def by blast
          have e: "FillBuffProc_loop ProcessHeader (Suc fuel) h s c =
             (if go then FillBuffProc_loop ProcessHeader fuel [] s6 c5 else Some (s6, c5))"
            using z2 False full ln ph unfolding eqn by simp
          show ?thesis using res Suc.IH [of "[]" s6 c5] l4 unfolding e by (cases go) auto
        qed
      qed
    qed
  qed
qed


section \<open>The reader keeps its contract\<close>

lemma reader_rel_inv:
  assumes "reader_rel ty r s c body t" "rdNext s = stop s"
  shows "rd_inv ty r [] s c body t"
proof -
  obtain C P ms pad x where "rel_at ty r s c body t C P ms pad x" using assms by (auto simp: reader_rel_def)
  moreover have "window s = []" using assms(2) by (simp add: window_def)
  ultimately show ?thesis
    by (intro rd_invI [of _ _ _ _ _ _ _ C P _ ms pad x]) (auto simp: rel_at_def rd_at_def pend_def)
qed

lemma reader_fill:
  assumes r: "reader_rel ty r s c body t" and e: "rdNext s = stop s"
  shows "\<exists>s' c'. FillBuffProc s c = Some (s', c') \<and>
     (if body = [] then isClosed s' \<and> reader_fin ty r s' c' t
      else reader_rel ty r s' c' body t \<and> rdNext s' < stop s')"
proof -
  have "reader_ok s" using r by (auto simp: reader_rel_def rel_at_def)
  then have "length (raw s c) < Suc (input_size s c)" using length_raw [of s c] by simp
  from reader_loop [OF reader_rel_inv [OF r e] this] show ?thesis
    by (simp add: FillBuffProc_def FillBuffProc_with_def)
qed

lemma length_packets_data: "length (packets_data ms) \<le> length (packets_bytes ty r ms)"
proof (induction ms)
  case (Cons m ms)
  have "length (packet_data m) \<le> length (frame_bytes (packet_frame ty r m))"
    by (cases m; cases "fst m") (auto simp: frame_bytes_def)
  with Cons show ?case by simp
qed simp

interpretation client: byte_source FillBuffProc "reader_rel ty r" "reader_fin ty r"
proof
  fix s :: FCGX_Stream and c :: "'a conn_scheme" and body t
  assume rel: "reader_rel ty r s c body t"
  obtain C P ms pad x where a: "rel_at ty r s c body t C P ms pad x" using rel by (auto simp: reader_rel_def)
  then have ok: "reader_ok s" "stop s \<le> buffStop s" by (auto simp: rel_at_def)
  show "isReader s \<and> \<not> isClosed s" using a by (auto simp: rel_at_def reader_ok_def)
  show "rdNext s \<le> stop s \<and> stop s \<le> length (buff s)" using a by (auto simp: rel_at_def reader_ok_def)
  show "\<exists>rest. body = take (stop s - rdNext s) (drop (rdNext s) (buff s)) @ rest"
    using a by (auto simp: rel_at_def window_def)
  show "length body \<le> input_size s c"
    using a length_raw [OF ok(1), of c] length_packets_data [of ms ty r] by (auto simp: rel_at_def)
  show "reader_rel ty r (s\<lparr>stopUnget := u\<rparr>) c body t" for u
    using a by (intro reader_relI [of _ _ _ _ _ _ C P ms pad x]) (simp add: rel_at_def)
  show "reader_rel ty r (s\<lparr>rdNext := rdNext s + k\<rparr>) c (drop k body) t" if k: "k \<le> stop s - rdNext s" for k
  proof -
    have "k \<le> avail s" "k \<le> length (window s)" using ok k length_window [of s] by (simp_all add: avail_def)
    then show ?thesis
      using a window_advance [OF ok k] raw_advance [OF ok(1), of k c] k
      by (intro reader_relI [of _ _ _ _ _ _ C P ms pad x]) (auto simp: rel_at_def)
  qed
  show "\<exists>s' c'. FillBuffProc s c = Some (s', c') \<and> reader_rel ty r s' c' body t \<and> rdNext s' < stop s'"
    if "rdNext s = stop s" "body \<noteq> []"
    using reader_fill [OF rel that(1)] that by simp
next
  fix s :: FCGX_Stream and c :: "'a conn_scheme" and t
  assume "reader_rel ty r s c [] t" "rdNext s = stop s"
  then show "\<exists>s' c'. FillBuffProc s c = Some (s', c') \<and> isClosed s' \<and> reader_fin ty r s' c' t"
    using reader_fill by fastforce
qed

section \<open>Reading in pieces\<close>

primrec read_pieces ::
  "'z fill_proc \<Rightarrow> nat list \<Rightarrow> FCGX_Stream \<Rightarrow> 'z conn_scheme \<Rightarrow>
   (byte list list \<times> FCGX_Stream \<times> 'z conn_scheme) option" where
  "read_pieces fill [] s c = Some ([], s, c)"
| "read_pieces fill (n # ns) s c = do {
     (b, s, c) \<leftarrow> FCGX_GetStr fill (int n) s c;
     (bs, s, c) \<leftarrow> read_pieces fill ns s c;
     Some (b # bs, s, c)
   }"

lemma take_add_append: "take m xs @ take n (drop m xs) = take (m + n) xs"
  by (simp add: take_add)

context byte_source
begin

lemma read_pieces_rel:
  assumes "rel s c body t" "sum_list ns \<le> length body"
  shows "\<exists>bs s' c'. read_pieces fill ns s c = Some (bs, s', c') \<and> map length bs = ns \<and>
    concat bs = take (sum_list ns) body \<and> rel s' c' (drop (sum_list ns) body) t"
  using assms
proof (induction ns arbitrary: s c body)
  case (Cons n ns)
  obtain s1 c1 where 1: "FCGX_GetStr fill (int n) s c = Some (take n body, s1, c1)" "rel s1 c1 (drop n body) t"
    using GetStr_enough [OF Cons.prems(1), of n] Cons.prems(2) by auto
  have "sum_list ns \<le> length (drop n body)" using Cons.prems(2) by (simp add: le_diff_conv2)
  then obtain bs s2 c2 where 2: "read_pieces fill ns s1 c1 = Some (bs, s2, c2)" "map length bs = ns"
    "concat bs = take (sum_list ns) (drop n body)" "rel s2 c2 (drop (sum_list ns) (drop n body)) t"
    using Cons.IH [OF 1(2)] by blast
  show ?case using 1(1) 2 Cons.prems(2) by (simp add: take_add_append add.commute)
qed simp

end

section \<open>Streams from their start\<close>

text \<open>A stream that has just been created or given its type, with \<open>bs\<close> on the connection.\<close>

definition at_start :: "byte \<Rightarrow> nat \<Rightarrow> FCGX_Stream \<Rightarrow> 'z conn_scheme \<Rightarrow> byte list \<Rightarrow> bool" where
  "at_start ty r s c bs \<longleftrightarrow>
     reader_ok s \<and> net_ok c \<and> out_ok c \<and> rdNext s = stop s \<and>
     contentLen s = 0 \<and> paddingLen s = 0 \<and> \<not> skip s \<and> \<not> eorStop s \<and> \<not> isClosed s \<and>
     FCGI_errno s = 0 \<and> stype s = uint ty \<and> ty \<noteq> 1 \<and>
     isBeginProcessed c \<and> requestId c = int r \<and> 0 < r \<and> r < 65536 \<and> raw s c = bs"

lemma at_start_rel:
  assumes "at_start ty r s c (packets_bytes ty r ms @ frame_bytes (end_frame ty r pad x) @ rest)"
    "packets_ok ty r ms" "length pad < 256"
  shows "reader_rel ty r s c (packets_data ms) (pad @ rest, length pad, sent c @ packets_answer ms, conn_fixed c)"
proof -
  have f: "frame_bytes (end_frame ty r pad x) = frame_header (end_frame ty r pad x) @ pad"
    by (simp add: frame_bytes_def end_frame_def)
  show ?thesis
    by (rule reader_relI [of _ _ _ _ _ _ "[]" "[]" ms pad x])
      (use assms in \<open>auto simp: at_start_def rel_at_def window_def reading_def reader_ok_def f conn_fixed_def\<close>)
qed

text \<open>
  C3. A reader gets exactly the data of its own stream, when the peer sends what the reader can handle.  Between
  the data records of the stream there may be records of other requests that have content, begin records, \<open>GET_VALUES\<close>
  records whose answer has at most 55 bytes, and management records of unknown type without content (\<open>packet_ok\<close>),
  in any number and order.  Whatever the sizes of the chunks in which the connection delivers its bytes, and however the
  data is divided into records: reading more than there is returns the data up to the end-of-stream record,
  closes the stream without error, has answered the begin and management packets on the way, and has
  consumed nothing behind the header of the end record.  Of the other packets this is not said: behind an
  empty record of another request data is lost (\<open>empty_record_loses\<close>), and the content of a management record of
  unknown type is taken for data (\<open>unknown_content_taken\<close>).
\<close>

theorem read_to_end:
  assumes "at_start ty r s c (packets_bytes ty r ms @ frame_bytes (end_frame ty r pad x) @ rest)"
    and "packets_ok ty r ms" "length pad < 256" "length (packets_data ms) < n"
  shows "\<exists>s' c'. FCGX_GetStr FillBuffProc (int n) s c = Some (packets_data ms, s', c') \<and>
     isClosed s' \<and> FCGX_GetError s' = 0 \<and> sent c' = sent c @ packets_answer ms \<and>
     raw s' c' = pad @ rest"
proof -
  obtain s' c' where "FCGX_GetStr FillBuffProc (int n) s c = Some (packets_data ms, s', c')"
    "isClosed s'" "reader_fin ty r s' c' (pad @ rest, length pad, sent c @ packets_answer ms, conn_fixed c)"
    using client.GetStr_short [OF at_start_rel [OF assms(1-3)] assms(4)] by blast
  then show ?thesis by (auto simp: reader_fin_def reading_def FCGX_GetError_def)
qed

definition sample_reader :: "byte list \<Rightarrow> FCGX_Stream" where
  "sample_reader b = \<lparr>buff = b, bufflen = length b, buffStop = 0, stype = 5, eorStop = False, skip = False,
     contentLen = 0, paddingLen = 0, isAnythingWritten = False, rawWrite = False, rdNext = 0,
     wrNext = 0, stop = 0, stopUnget = Some 0, isReader = True, isClosed = False,
     wasFCloseCalled = False, FCGI_errno = 0\<rparr>"

definition sample_conn :: "byte list list \<Rightarrow> conn" where
  "sample_conn chunks = \<lparr>shutdownPending = False, shutdownNow = False, accept_events = [], closed_fds = [],
     rd_script = map RData chunks, wr_script = [WTake 3], sent = [],
     os_errno = 0, requestId = 1, role = 1, ipcFd = 5, isBeginProcessed = True, keepConnection = True,
     appStatus = 0, nWriters = 2\<rparr>"

definition sample_packets :: "packet list" where
  "sample_packets = [(Data [72, 105], [0, 0], 0), (Other 5 2 [1, 2, 3], [], 0),
     (Begin 3 (replicate 8 0), [], 0), (Mgmt 77, [0], 0), (Data [33], [], 0)]"

definition sample_bytes :: "byte list" where
  "sample_bytes = packets_bytes 5 1 sample_packets @ frame_bytes (end_frame 5 1 [0] 0) @ [1, 5]"

lemma sample_at_start:
  "at_start 5 1 (sample_reader (replicate 32 0)) (sample_conn [take 5 sample_bytes, drop 5 sample_bytes]) sample_bytes"
  by (simp add: at_start_def reader_ok_def net_ok_def out_ok_def sample_reader_def sample_conn_def
    raw_def buffered_def sample_bytes_def sample_packets_def frame_bytes_def frame_header_def)

lemma sample_packets_ok: "packets_ok 5 1 sample_packets"
  by (simp add: sample_packets_def frame_wf_def)

lemma sample_packets_data: "packets_data sample_packets = [72, 105, 33]"
  by (simp add: sample_packets_def)

text \<open>What the reader of stream 5 of request 1 gets from these bytes, and its error.\<close>

definition read_sample :: "byte list \<Rightarrow> (byte list \<times> int) option" where
  "read_sample bs = do {
     (data, s, c) \<leftarrow> FCGX_GetStr FillBuffProc 9 (sample_reader (replicate 32 0)) (sample_conn [bs]);
     Some (data, FCGX_GetError s)
   }"

text \<open>A record of a stream of request \<open>i\<close>, without padding.\<close>

definition plain_record :: "byte \<Rightarrow> nat \<Rightarrow> byte list \<Rightarrow> byte list" where
  "plain_record ty i d = frame_bytes \<lparr>f_type = ty, f_id = i, f_content = d, f_pad = [], f_reserved = 0\<rparr>"

lemma empty_record_loses:
  "read_sample (plain_record 5 1 [72] @ plain_record 5 2 [] @ plain_record 5 1 [105] @ plain_record 5 1 [33] @ plain_record 5 1 []) =
     Some ([72, 33], 0)"
  by code_simp

lemma unknown_content_taken:
  "read_sample (plain_record 77 0 [72, 105] @ plain_record 5 1 [33] @ plain_record 5 1 []) = Some ([72, 105, 33], 0)"
  by code_simp

lemma read_to_end_witness:
  "\<exists>s' c'. FCGX_GetStr FillBuffProc (int 9) (sample_reader (replicate 32 0))
       (sample_conn [take 5 sample_bytes, drop 5 sample_bytes]) = Some ([72, 105, 33], s', c') \<and> isClosed s'"
  using read_to_end [of 5 1 _ _ sample_packets "[0]" 0 "[1, 5]" 9,
      OF sample_at_start [unfolded sample_bytes_def] sample_packets_ok]
  unfolding sample_packets_data sample_bytes_def by auto

text \<open>
  How the client divides its reads does not matter: successive reads of any sizes
  \<open>ns\<close> return successive pieces of these sizes, and a last read returns what is left.
\<close>

theorem read_in_pieces:
  assumes "at_start ty r s c (packets_bytes ty r ms @ frame_bytes (end_frame ty r pad x) @ rest)"
    and "packets_ok ty r ms" "length pad < 256" "sum_list ns \<le> length (packets_data ms)"
    and "length (packets_data ms) < sum_list ns + n"
  shows "\<exists>bs s1 c1 b s' c'. read_pieces FillBuffProc ns s c = Some (bs, s1, c1) \<and> map length bs = ns \<and>
     FCGX_GetStr FillBuffProc (int n) s1 c1 = Some (b, s', c') \<and>
     concat bs @ b = packets_data ms \<and> isClosed s' \<and> FCGX_GetError s' = 0 \<and>
     sent c' = sent c @ packets_answer ms \<and> raw s' c' = pad @ rest"
proof -
  obtain bs s1 c1 where 1: "read_pieces FillBuffProc ns s c = Some (bs, s1, c1)" "map length bs = ns"
    "concat bs = take (sum_list ns) (packets_data ms)"
    and r1: "reader_rel ty r s1 c1 (drop (sum_list ns) (packets_data ms))
       (pad @ rest, length pad, sent c @ packets_answer ms, conn_fixed c)"
    using client.read_pieces_rel [OF at_start_rel [OF assms(1-3)] assms(4)] by blast
  have "length (drop (sum_list ns) (packets_data ms)) < n" using assms(4,5) by (simp add: less_diff_conv2)
  then obtain s' c' where 2: "FCGX_GetStr FillBuffProc (int n) s1 c1 = Some (drop (sum_list ns) (packets_data ms), s', c')"
    "isClosed s'" "reader_fin ty r s' c' (pad @ rest, length pad, sent c @ packets_answer ms, conn_fixed c)"
    using client.GetStr_short [OF r1, of n] by blast
  show ?thesis using 1 2 by (auto simp: reader_fin_def reading_def FCGX_GetError_def)
qed

lemma read_in_pieces_witness:
  "\<exists>bs s1 c1 b s' c'. read_pieces FillBuffProc [1, 0, 1] (sample_reader (replicate 32 0))
       (sample_conn [take 5 sample_bytes, drop 5 sample_bytes]) = Some (bs, s1, c1) \<and>
     FCGX_GetStr FillBuffProc (int 9) s1 c1 = Some (b, s', c') \<and> concat bs @ b = [72, 105, 33]"
  using read_in_pieces [of 5 1 _ _ sample_packets "[0]" 0 "[1, 5]" "[1, 0, 1]" 9,
      OF sample_at_start [unfolded sample_bytes_def] sample_packets_ok]
  unfolding sample_packets_data sample_bytes_def by fastforce

text \<open>
  C24. The environment of a request is decoded faithfully: when the data of the stream is the
  encoding of the pairs \<open>ps\<close>, however it is divided into records and chunks, \<open>ReadParams\<close>
  succeeds and appends to the vector exactly the strings \<open>name=value\<close>, in order; the vector
  stays well formed.
\<close>

theorem read_params:
  assumes "at_start ty r s c (packets_bytes ty r ms @ frame_bytes (end_frame ty r pad x) @ rest)"
    and "packets_ok ty r ms" "length pad < 256"
    and "packets_data ms = concat (map nv_bytes ps)" "\<forall>p \<in> set ps. nv_ok p" "params_wf v"
  shows "\<exists>v' s' c'. ReadParams FillBuffProc v s c = Some (0, v', s', c') \<and> params_wf v' \<and>
     params_list v' = params_list v @ map nv_entry ps \<and> isClosed s' \<and> FCGX_GetError s' = 0 \<and>
     sent c' = sent c @ packets_answer ms \<and> raw s' c' = pad @ rest"
proof -
  obtain v' s' c' where "ReadParams FillBuffProc v s c = Some (0, v', s', c')" "params_wf v'"
    "params_list v' = params_list v @ map nv_entry ps" "isClosed s'"
    "reader_fin ty r s' c' (pad @ rest, length pad, sent c @ packets_answer ms, conn_fixed c)"
    using client.ReadParams_bytes [OF at_start_rel [OF assms(1-3), unfolded assms(4)] assms(5,6)] by blast
  then show ?thesis by (auto simp: reader_fin_def reading_def FCGX_GetError_def)
qed

definition sample_pairs :: "nv_pair list" where
  "sample_pairs = [\<lparr>nv_long_name = False, nv_long_value = True, nv_name = [65, 66], nv_value = [67]\<rparr>,
     \<lparr>nv_long_name = False, nv_long_value = False, nv_name = [88], nv_value = []\<rparr>]"

lemma read_params_witness:
  "\<exists>v' s' c'. ReadParams FillBuffProc \<lparr>vec = [None], vlength = 1, cur = 0\<rparr> (sample_reader (replicate 8 0)\<lparr>stype := 4\<rparr>)
       (sample_conn [packets_bytes 4 1 [(Data (concat (map nv_bytes sample_pairs)), [], 0)],
          frame_bytes (end_frame 4 1 [] 0)]) = Some (0, v', s', c') \<and>
     params_list v' = [[65, 66, 61, 67], [88, 61]]"
proof -
  let ?ms = "[(Data (concat (map nv_bytes sample_pairs)), [], 0)] :: packet list"
  have 1: "at_start 4 1 (sample_reader (replicate 8 0)\<lparr>stype := 4\<rparr>)
     (sample_conn [packets_bytes 4 1 ?ms, frame_bytes (end_frame 4 1 [] 0)])
     (packets_bytes 4 1 ?ms @ frame_bytes (end_frame 4 1 [] 0) @ [])"
    by (simp add: at_start_def reader_ok_def net_ok_def out_ok_def sample_reader_def sample_conn_def
      raw_def buffered_def frame_bytes_def frame_header_def)
  have 2: "packets_ok 4 1 ?ms" by (simp add: frame_wf_def sample_pairs_def nv_bytes_def len_bytes_def)
  have 3: "packets_data ?ms = concat (map nv_bytes sample_pairs)" by simp
  have 4: "\<forall>p \<in> set sample_pairs. nv_ok p" by (simp add: sample_pairs_def nv_ok_def)
  have 5: "params_wf \<lparr>vec = [None], vlength = 1, cur = 0\<rparr>" by (simp add: params_wf_def)
  have 6: "params_list \<lparr>vec = [None], vlength = 1, cur = 0\<rparr> = []" by (simp add: params_list_def)
  have 7: "map nv_entry sample_pairs = [[65, 66, 61, 67], [88, 61]]" by (simp add: sample_pairs_def nv_entry_def)
  show ?thesis using read_params [OF 1 2 _ 3 4 5] unfolding 6 7 by auto
qed

end
