(* ===== verification/Fcgi_Writer.thy ===== *)
theory Fcgi_Writer
  imports Fcgi_Frames
begin

text \<open>
  The writing side of the FastCGI connection: \<open>EmptyBuffProc\<close> wraps the buffered bytes of a
  stream in a record and writes it, \<open>WriteCloseRecords\<close> adds the records that end the stream
  and the request.  \<open>WriteCloseRecords\<close> writes through the same stream in raw mode, and the
  \<open>EmptyBuffProc\<close> calls it makes have \<open>doClose\<close> off and never come back to it:
  \<open>EmptyBuffProc_inner\<close> is such a call.
\<close>

section \<open>EmptyBuffProc\<close>

text \<open>
  The first part: fill in the header of the record under construction and pad it, or give
  the header's room back when there is no content.
\<close>

definition empty_seal :: "FCGX_Stream \<Rightarrow> 'z conn_scheme \<Rightarrow> FCGX_Stream option" where
  "empty_seal s c =
     (if rawWrite s then Some s
      else
        let cLen = int (wrNext s) - int FCGI_HEADER_LEN
        in if 0 < cLen then do {
             let eLen = uint (AlignInt8 (word_of_int cLen));
             let pad = nat (eLen - cLen);
             b \<leftarrow> buf_write (wrNext s) (replicate pad 0) (buff s);
             h \<leftarrow> MakeHeader (stype s) (requestId c) cLen (eLen - cLen);
             b \<leftarrow> buf_write 0 (header_bytes h) b;
             Some (s\<lparr>buff := b, wrNext := wrNext s + pad\<rparr>)
           } else Some (s\<lparr>wrNext := 0\<rparr>))"

text \<open>The last part: write the buffer out and make it empty.\<close>

definition empty_write ::
  "FCGX_Stream \<Rightarrow> 'z conn_scheme \<Rightarrow> (FCGX_Stream \<times> 'z conn_scheme) option" where
  "empty_write s c =
     (if wrNext s \<noteq> 0 then do {
        bs \<leftarrow> buf_read 0 (wrNext s) (buff s);
        (let s = s\<lparr>isAnythingWritten := True\<rparr>;
             (r, c) = write_it_all bs c
         in if r < 0 then Some (SetError (os_errno c) s, c)
            else let s = s\<lparr>wrNext := 0\<rparr>
                 in Some (if rawWrite s then s else s\<lparr>wrNext := FCGI_HEADER_LEN\<rparr>, c))
      } else Some (if rawWrite s then s else s\<lparr>wrNext := FCGI_HEADER_LEN\<rparr>, c))"

definition EmptyBuffProc_with ::
  "(FCGX_Stream \<Rightarrow> 'z conn_scheme \<Rightarrow> (FCGX_Stream \<times> 'z conn_scheme) option) \<Rightarrow> 'z empty_proc" where
  "EmptyBuffProc_with wcr s doClose c = do {
     s \<leftarrow> empty_seal s c;
     (s, c) \<leftarrow> (if doClose then wcr s c else Some (s, c));
     empty_write s c
   }"

definition EmptyBuffProc_inner :: "'z empty_proc" where
  "EmptyBuffProc_inner = EmptyBuffProc_with (\<lambda>s c. None)"

section \<open>WriteCloseRecords\<close>

definition WriteCloseRecords ::
  "FCGX_Stream \<Rightarrow> 'z conn_scheme \<Rightarrow> (FCGX_Stream \<times> 'z conn_scheme) option" where
  "WriteCloseRecords s c = do {
     let s = s\<lparr>rawWrite := True\<rparr>;
     (s, c) \<leftarrow>
       (if \<not> (stype s = FCGI_STDERR \<and> wrNext s = 0 \<and> \<not> isAnythingWritten s) then do {
          h \<leftarrow> MakeHeader (stype s) (requestId c) 0 0;
          (_, s, c) \<leftarrow> FCGX_PutStr EmptyBuffProc_inner (header_bytes h) s c;
          Some (s, c)
        } else Some (s, c));
     (s, c) \<leftarrow>
       (if nWriters c = 1 then do {
          h \<leftarrow> MakeHeader FCGI_END_REQUEST (requestId c) 8 0;
          (_, s, c) \<leftarrow> FCGX_PutStr EmptyBuffProc_inner
             (header_bytes h @ end_body_bytes (MakeEndRequestBody (appStatus c) FCGI_REQUEST_COMPLETE))
             s c;
          Some (s, c)
        } else Some (s, c));
     Some (s, c\<lparr>nWriters := nWriters c - 1\<rparr>)
   }"

definition EmptyBuffProc :: "'z empty_proc" where
  "EmptyBuffProc = EmptyBuffProc_with WriteCloseRecords"

section \<open>Raw writes\<close>

text \<open>
  In raw mode the buffer is sent as it is.  \<open>conn_kept\<close> is the state of the connection that
  writing does not change; \<open>base\<close> is what had been sent before, \<open>out\<close> what was put since.
\<close>

definition conn_kept :: "'z conn_scheme \<Rightarrow> 'z conn_scheme" where
  "conn_kept c = c\<lparr>wr_script := [], sent := []\<rparr>"

definition raw_rel ::
  "int \<Rightarrow> byte list \<Rightarrow> 'z conn_scheme \<Rightarrow> FCGX_Stream \<Rightarrow> 'z conn_scheme \<Rightarrow> byte list \<Rightarrow> bool" where
  "raw_rel ty base k s c out \<longleftrightarrow>
     \<not> isReader s \<and> \<not> isClosed s \<and> rawWrite s \<and> FCGI_errno s = 0 \<and> stype s = ty \<and>
     buff s \<noteq> [] \<and> stop s = length (buff s) \<and> wrNext s \<le> stop s \<and>
     out_ok c \<and> conn_kept c = k \<and> sent c @ take (wrNext s) (buff s) = base @ out"

lemma conn_keptD:
  "conn_kept c = k \<Longrightarrow> nWriters c = nWriters k \<and> requestId c = requestId k \<and> appStatus c = appStatus k \<and>
     shutdownNow c = shutdownNow k \<and> rd_script c = rd_script k \<and> keepConnection c = keepConnection k \<and>
     isBeginProcessed c = isBeginProcessed k \<and> role c = role k \<and> ipcFd c = ipcFd k"
  by (auto simp: conn_kept_def)

lemma empty_write_ok:
  assumes "wrNext s \<le> length (buff s)" "out_ok c"
  shows "\<exists>ws b. empty_write s c = Some (s\<lparr>isAnythingWritten := b, wrNext := (if rawWrite s then 0 else 8)\<rparr>,
      c\<lparr>sent := sent c @ take (wrNext s) (buff s), wr_script := ws\<rparr>) \<and>
    out_ok (c\<lparr>sent := sent c @ take (wrNext s) (buff s), wr_script := ws\<rparr>) \<and>
    b = (isAnythingWritten s \<or> wrNext s \<noteq> 0)"
proof (cases "wrNext s = 0")
  case True
  then show ?thesis using assms(2)
    by (intro exI [of _ "wr_script c"] exI [of _ "isAnythingWritten s"])
      (simp add: empty_write_def FCGI_HEADER_LEN_def)
next
  case False
  let ?bs = "take (wrNext s) (buff s)"
  obtain ws where "write_it_all ?bs c = (0, c\<lparr>sent := sent c @ ?bs, wr_script := ws\<rparr>)"
    "out_ok (c\<lparr>sent := sent c @ ?bs, wr_script := ws\<rparr>)"
    using write_it_all_ok [OF assms(2)] by blast
  then show ?thesis using False assms(1)
    by (intro exI [of _ ws] exI [of _ True]) (simp add: empty_write_def buf_read_def FCGI_HEADER_LEN_def)
qed

lemma conn_kept_sent [simp]: "conn_kept (c\<lparr>sent := x, wr_script := ws\<rparr>) = conn_kept c"
  by (simp add: conn_kept_def)

lemma raw_flush:
  assumes r: "raw_rel ty base k s c out"
  shows "\<exists>s' c'. EmptyBuffProc_inner s False c = Some (s', c') \<and> raw_rel ty base k s' c' out \<and> wrNext s' = 0 \<and> 0 < stop s'"
proof -
  obtain ws b where "empty_write s c = Some (s\<lparr>isAnythingWritten := b, wrNext := 0\<rparr>,
      c\<lparr>sent := sent c @ take (wrNext s) (buff s), wr_script := ws\<rparr>)"
    "out_ok (c\<lparr>sent := sent c @ take (wrNext s) (buff s), wr_script := ws\<rparr>)"
    using empty_write_ok [of s c] r by (auto simp: raw_rel_def)
  moreover have "raw_rel ty base k (s\<lparr>isAnythingWritten := b, wrNext := 0\<rparr>)
      (c\<lparr>sent := sent c @ take (wrNext s) (buff s), wr_script := ws\<rparr>) out"
    using r calculation(2) by (simp add: raw_rel_def)
  ultimately show ?thesis using r
    by (auto simp: EmptyBuffProc_inner_def EmptyBuffProc_with_def empty_seal_def raw_rel_def)
qed

interpretation raw_out: byte_sink EmptyBuffProc_inner "raw_rel ty base k"
proof
  fix s :: FCGX_Stream and c :: "'a conn_scheme" and out bs
  assume r: "raw_rel ty base k s c out"
  show "\<not> isReader s \<and> \<not> isClosed s" "wrNext s \<le> stop s \<and> stop s \<le> length (buff s)"
    using r by (simp_all add: raw_rel_def)
  show "\<exists>s' c'. EmptyBuffProc_inner s False c = Some (s', c') \<and> raw_rel ty base k s' c' out \<and> wrNext s' < stop s'"
    using raw_flush [OF r] by fastforce
  show "raw_rel ty base k (put_bytes bs s) c (out @ bs)" if "length bs \<le> stop s - wrNext s"
    using r that by (auto simp: raw_rel_def put_bytes_def)
qed

section \<open>Records\<close>

text \<open>
  What a stream writer sends is a sequence of frames of its type, each with a piece of the
  data, padded to a multiple of 8; \<open>pending\<close> is the data still in the buffer.  \<open>base\<close> is what
  had been sent before, \<open>u\<close> whether some of it was from this stream.
\<close>

definition out_frame :: "byte \<Rightarrow> nat \<Rightarrow> byte list \<Rightarrow> frame" where
  "out_frame ty r d = \<lparr>f_type = ty, f_id = r, f_content = d, f_pad = replicate (pad8 (length d)) 0, f_reserved = 0\<rparr>"

definition out_frames :: "byte \<Rightarrow> nat \<Rightarrow> byte list list \<Rightarrow> byte list" where
  "out_frames ty r ds = concat (map (\<lambda>d. frame_bytes (out_frame ty r d)) ds)"

definition pending :: "FCGX_Stream \<Rightarrow> byte list" where
  "pending s = drop 8 (take (wrNext s) (buff s))"

definition writer_ok :: "byte \<Rightarrow> FCGX_Stream \<Rightarrow> bool" where
  "writer_ok ty s \<longleftrightarrow> \<not> isReader s \<and> \<not> isClosed s \<and> \<not> wasFCloseCalled s \<and> \<not> rawWrite s \<and> FCGI_errno s = 0 \<and>
     stype s = uint ty \<and> stop s = length (buff s) \<and> length (buff s) mod 8 = 0 \<and>
     16 \<le> length (buff s) \<and> length (buff s) \<le> 65536 \<and> 8 \<le> wrNext s \<and> wrNext s \<le> stop s"

definition writer_rel ::
  "byte \<Rightarrow> nat \<Rightarrow> byte list \<Rightarrow> 'z conn_scheme \<Rightarrow> bool \<Rightarrow> FCGX_Stream \<Rightarrow> 'z conn_scheme \<Rightarrow> byte list \<Rightarrow> bool" where
  "writer_rel ty r base k u s c out \<longleftrightarrow> writer_ok ty s \<and>
     out_ok c \<and> conn_kept c = k \<and> requestId k = int r \<and> r < 65536 \<and>
     (\<exists>ds. sent c = base @ out_frames ty r ds \<and> out = concat ds @ pending s \<and>
        (\<forall>d \<in> set ds. d \<noteq> [] \<and> length d \<le> 65528) \<and> (isAnythingWritten s \<longleftrightarrow> u \<or> ds \<noteq> []))"

text \<open>Sealing makes the buffer a whole frame.\<close>

lemma empty_seal_ok:
  assumes s: "writer_ok ty s" and id: "requestId c = int r" "r < 65536"
  shows "\<exists>b. empty_seal s c = Some (s\<lparr>buff := b, wrNext := (if pending s = [] then 0 else 8 + length (pending s) + pad8 (length (pending s)))\<rparr>) \<and>
     length b = length (buff s) \<and>
     (pending s \<noteq> [] \<longrightarrow>
       take (8 + length (pending s) + pad8 (length (pending s))) b = frame_bytes (out_frame ty r (pending s)) \<and>
       8 + length (pending s) + pad8 (length (pending s)) \<le> length b)"
proof (cases "wrNext s = 8")
  case True
  then show ?thesis using s
    by (intro exI [of _ "buff s"]) (simp add: empty_seal_def writer_ok_def pending_def FCGI_HEADER_LEN_def)
next
  case False
  define D R where "D = pending s" and "R = drop (wrNext s) (buff s)"
  have w: "8 < wrNext s" "wrNext s \<le> length (buff s)" using False s by (auto simp: writer_ok_def)
  then have lD: "length D = wrNext s - 8" by (simp add: D_def pending_def)
  then have D: "0 < length D" "wrNext s = 8 + length D" using w by simp_all
  have b: "buff s = take 8 (buff s) @ D @ R"
  proof -
    have "take 8 (buff s) @ D = take (wrNext s) (buff s)"
      using w append_take_drop_id [of 8 "take (wrNext s) (buff s)"] by (simp add: D_def pending_def min_def)
    then have "(take 8 (buff s) @ D) @ R = buff s" by (simp add: R_def)
    then show ?thesis by simp
  qed
  have "(length (buff s) - 8) mod 8 = 0" using s by (simp add: writer_ok_def mod_eq_0_iff_dvd)
  then have "length D + pad8 (length D) \<le> length (buff s) - 8" using w lD by (intro pad8_le) auto
  then have room: "8 + length D + pad8 (length D) \<le> length (buff s)" using w by simp
  define f where "f = out_frame ty r D"
  have lb: "length (buff s) \<le> 65536" using s by (simp add: writer_ok_def)
  have wf: "frame_wf f" using id room lb pad8_less [of "length D"] by (simp add: f_def out_frame_def frame_wf_def)
  have a: "uint (AlignInt8 (word_of_int (int (length D)))) = int (length D + pad8 (length D))"
    using AlignInt8_nat [of "length D"] room lb by (simp add: uint_nat del: of_nat_unat)
  obtain h where h: "MakeHeader (uint ty) (int r) (int (length D)) (int (pad8 (length D))) = Some h"
    "header_bytes h = frame_header f"
    using MakeHeader_frame [OF wf] by (auto simp: f_def out_frame_def)
  have lR: "pad8 (length D) \<le> length R" using room b w by (simp add: R_def D)
  define b' where "b' = frame_header f @ D @ replicate (pad8 (length D)) 0 @ drop (pad8 (length D)) R"
  have l8: "length (take 8 (buff s)) = 8" using w by simp
  have w1: "buf_write (wrNext s) (replicate (pad8 (length D)) 0) (buff s) =
     Some (take 8 (buff s) @ D @ replicate (pad8 (length D)) 0 @ drop (pad8 (length D)) R)"
    unfolding D(2) by (subst (1 2) b) (use l8 lR in \<open>simp add: buf_write_def\<close>)
  have w2: "buf_write 0 (header_bytes h) (take 8 (buff s) @ D @ replicate (pad8 (length D)) 0 @ drop (pad8 (length D)) R) = Some b'"
    using l8 h(2) by (simp add: buf_write_def b'_def)
  have "empty_seal s c = Some (s\<lparr>buff := b', wrNext := 8 + length D + pad8 (length D)\<rparr>)"
    using s id(1) D w1 w2 h a by (simp add: empty_seal_def writer_ok_def FCGI_HEADER_LEN_def Let_def)
  moreover have "8 + (length D + length R) = length (buff s)" using w D(2) by (simp add: R_def)
  ultimately show ?thesis using D lR room unfolding D_def [symmetric]
    by (intro exI [of _ b']) (simp add: b'_def f_def frame_bytes_def out_frame_def)
qed


lemma out_frames_simps [simp]:
  "out_frames ty r [] = []" "out_frames ty r (d # ds) = frame_bytes (out_frame ty r d) @ out_frames ty r ds"
  "out_frames ty r (ds @ es) = out_frames ty r ds @ out_frames ty r es"
  by (simp_all add: out_frames_def)

text \<open>What sealing leaves to be written.\<close>

definition sealed :: "byte \<Rightarrow> nat \<Rightarrow> byte list \<Rightarrow> byte list" where
  "sealed ty r d = (if d = [] then [] else frame_bytes (out_frame ty r d))"

lemma empty_seal_sealed:
  assumes s: "writer_ok ty s" and id: "requestId c = int r" "r < 65536"
  shows "\<exists>b n. empty_seal s c = Some (s\<lparr>buff := b, wrNext := n\<rparr>) \<and> length b = length (buff s) \<and>
     take n b = sealed ty r (pending s) \<and> n \<le> length b \<and> (n = 0 \<longleftrightarrow> pending s = [])"
  using empty_seal_ok [OF assms] by (cases "pending s = []") (auto simp: sealed_def)

lemma pending_length: "writer_ok ty s \<Longrightarrow> length (pending s) \<le> 65528"
  by (auto simp: pending_def writer_ok_def)

lemma writer_conn: "writer_rel ty r base k u s c out \<Longrightarrow> requestId c = int r \<and> r < 65536"
  by (auto simp: writer_rel_def conn_kept_def)

text \<open>The list of pieces once the buffer is written too.\<close>

lemma writer_rel_pieces:
  assumes "writer_rel ty r base k u s c out"
  obtains ds where "sent c @ sealed ty r (pending s) = base @ out_frames ty r ds" "out = concat ds"
    "\<forall>d \<in> set ds. d \<noteq> [] \<and> length d \<le> 65528"
    "isAnythingWritten s \<or> pending s \<noteq> [] \<longleftrightarrow> u \<or> ds \<noteq> []"
proof -
  obtain ds where ds: "sent c = base @ out_frames ty r ds" "out = concat ds @ pending s"
    "\<forall>d \<in> set ds. d \<noteq> [] \<and> length d \<le> 65528" "isAnythingWritten s \<longleftrightarrow> u \<or> ds \<noteq> []"
    using assms by (auto simp: writer_rel_def)
  have "length (pending s) \<le> 65528" using assms pending_length by (auto simp: writer_rel_def)
  then show thesis
    using ds that [of ds] that [of "ds @ [pending s]"] by (cases "pending s = []") (simp_all add: sealed_def)
qed

lemma writer_flush:
  assumes r: "writer_rel ty r base k u s c out"
  shows "\<exists>s' c'. EmptyBuffProc s False c = Some (s', c') \<and> writer_rel ty r base k u s' c' out \<and> wrNext s' = 8 \<and> 8 < stop s'"
proof -
  have ok: "writer_ok ty s" "out_ok c" "conn_kept c = k" "requestId k = int r" using r by (auto simp: writer_rel_def)
  obtain b n where b: "empty_seal s c = Some (s\<lparr>buff := b, wrNext := n\<rparr>)" "length b = length (buff s)"
    "take n b = sealed ty r (pending s)" "n \<le> length b" "n = 0 \<longleftrightarrow> pending s = []"
    using empty_seal_sealed [OF ok(1)] writer_conn [OF r] by blast
  obtain ds where ds: "sent c @ sealed ty r (pending s) = base @ out_frames ty r ds" "out = concat ds"
    "\<forall>d \<in> set ds. d \<noteq> [] \<and> length d \<le> 65528" "isAnythingWritten s \<or> pending s \<noteq> [] \<longleftrightarrow> u \<or> ds \<noteq> []"
    by (rule writer_rel_pieces [OF r])
  obtain ws a where w: "empty_write (s\<lparr>buff := b, wrNext := n\<rparr>) c =
      Some (s\<lparr>buff := b, wrNext := n\<rparr>\<lparr>isAnythingWritten := a, wrNext := 8\<rparr>,
        c\<lparr>sent := sent c @ take n b, wr_script := ws\<rparr>)"
    "out_ok (c\<lparr>sent := sent c @ take n b, wr_script := ws\<rparr>)" "a = (isAnythingWritten s \<or> n \<noteq> 0)"
    using empty_write_ok [of "s\<lparr>buff := b, wrNext := n\<rparr>" c] b(4) ok by (auto simp: writer_ok_def)
  define s' c' where "s' = s\<lparr>buff := b, isAnythingWritten := a, wrNext := 8\<rparr>"
    and "c' = c\<lparr>sent := sent c @ take n b, wr_script := ws\<rparr>"
  have "EmptyBuffProc s False c = Some (s', c')"
    using b(1) w(1) by (simp add: EmptyBuffProc_def EmptyBuffProc_with_def s'_def c'_def)
  moreover have "writer_ok ty s'" "pending s' = []" "8 < stop s'" "wrNext s' = 8" "isAnythingWritten s' = a"
    using ok(1) b(2) by (auto simp: writer_ok_def s'_def pending_def)
  moreover have "sent c' = base @ out_frames ty r ds" "conn_kept c' = k" "out_ok c'"
    using ds(1) b(3) ok w(2) by (simp_all add: c'_def)
  ultimately show ?thesis using ok ds writer_conn [OF r] w(3) b(5) unfolding writer_rel_def by auto
qed

interpretation records: byte_sink EmptyBuffProc "writer_rel ty r base k u"
proof
  fix s :: FCGX_Stream and c :: "'a conn_scheme" and out bs
  assume r: "writer_rel ty r base k u s c out"
  show "\<not> isReader s \<and> \<not> isClosed s" "wrNext s \<le> stop s \<and> stop s \<le> length (buff s)"
    using r by (simp_all add: writer_rel_def writer_ok_def)
  show "\<exists>s' c'. EmptyBuffProc s False c = Some (s', c') \<and> writer_rel ty r base k u s' c' out \<and> wrNext s' < stop s'"
    using writer_flush [OF r] by fastforce
  show "writer_rel ty r base k u (put_bytes bs s) c (out @ bs)" if l: "length bs \<le> stop s - wrNext s"
  proof -
    have ok: "writer_ok ty s" using r by (simp add: writer_rel_def)
    have "pending (put_bytes bs s) = pending s @ bs"
    proof -
      have "8 \<le> wrNext s" "wrNext s \<le> length (buff s)" using ok by (auto simp: writer_ok_def)
      then show ?thesis by (simp add: pending_def put_bytes_def)
    qed
    moreover have "writer_ok ty (put_bytes bs s)" using ok l by (auto simp: writer_ok_def put_bytes_def)
    moreover have "isAnythingWritten (put_bytes bs s) = isAnythingWritten s" by (simp add: put_bytes_def)
    ultimately show ?thesis using r by (auto simp: writer_rel_def)
  qed
qed

section \<open>Closing\<close>

definition eof_bytes :: "byte \<Rightarrow> nat \<Rightarrow> byte list" where
  "eof_bytes ty r = frame_bytes (out_frame ty r [])"

definition end_request_bytes :: "nat \<Rightarrow> int \<Rightarrow> byte list" where
  "end_request_bytes r status =
     frame_bytes (out_frame 3 r (end_body_bytes (MakeEndRequestBody status FCGI_REQUEST_COMPLETE)))"

text \<open>What \<open>WriteCloseRecords\<close> puts behind the records of the stream.\<close>

definition close_bytes :: "byte \<Rightarrow> nat \<Rightarrow> bool \<Rightarrow> int \<Rightarrow> int \<Rightarrow> byte list" where
  "close_bytes ty r used status writers =
     (if ty = 7 \<and> \<not> used then [] else eof_bytes ty r) @
     (if writers = 1 then end_request_bytes r status else [])"

lemma raw_put_record:
  assumes r: "raw_rel ty base k s c out" and h: "mh = Some h" "header_bytes h @ d = bytes"
  shows "\<exists>s' c'. (if P then do { h \<leftarrow> mh; (_, s, c) \<leftarrow> FCGX_PutStr EmptyBuffProc_inner (header_bytes h @ d) s c; Some (s, c) }
      else Some (s, c)) = Some (s', c') \<and> raw_rel ty base k s' c' (out @ (if P then bytes else []))"
  using raw_out.PutStr_rel [OF r, of bytes] r h by (cases P) auto

lemma writer_close:
  assumes r: "writer_rel ty r base k u s c out"
  shows "\<exists>s' c' ds. EmptyBuffProc s True c = Some (s', c') \<and> FCGI_errno s' = 0 \<and> \<not> isReader s' \<and>
     out = concat ds \<and> (\<forall>d \<in> set ds. d \<noteq> [] \<and> length d \<le> 65528) \<and>
     sent c' = base @ out_frames ty r ds @ close_bytes ty r (u \<or> ds \<noteq> []) (appStatus k) (nWriters k) \<and>
     conn_kept c' = k\<lparr>nWriters := nWriters k - 1\<rparr> \<and> out_ok c'"
proof -
  have ok: "writer_ok ty s" "out_ok c" "conn_kept c = k" using r by (auto simp: writer_rel_def)
  have id: "requestId c = int r" "r < 65536" using writer_conn [OF r] by simp_all
  obtain b n where b: "empty_seal s c = Some (s\<lparr>buff := b, wrNext := n\<rparr>)" "length b = length (buff s)"
    "take n b = sealed ty r (pending s)" "n \<le> length b" "n = 0 \<longleftrightarrow> pending s = []"
    using empty_seal_sealed [OF ok(1) id] by blast
  obtain ds where ds: "sent c @ sealed ty r (pending s) = base @ out_frames ty r ds" "out = concat ds"
    "\<forall>d \<in> set ds. d \<noteq> [] \<and> length d \<le> 65528" "isAnythingWritten s \<or> pending s \<noteq> [] \<longleftrightarrow> u \<or> ds \<noteq> []"
    by (rule writer_rel_pieces [OF r])
  define s1 where "s1 = s\<lparr>buff := b, wrNext := n\<rparr>\<lparr>rawWrite := True\<rparr>"
  have r1: "raw_rel (uint ty) (base @ out_frames ty r ds) k s1 c []"
    using ok b ds(1) by (auto simp: raw_rel_def writer_ok_def s1_def)
  have used: "(stype s1 = FCGI_STDERR \<and> wrNext s1 = 0 \<and> \<not> isAnythingWritten s1) \<longleftrightarrow> ty = 7 \<and> \<not> (u \<or> ds \<noteq> [])"
    using ok(1) ds(4) b(5) by (auto simp: s1_def writer_ok_def FCGI_STDERR_def uint_byte_eq)
  have s1: "stype s1 = uint ty" "isReader s1 = False" "requestId c = int r" "FCGI_errno s1 = 0"
    using ok(1) id by (simp_all add: s1_def writer_ok_def)
  obtain h1 where h1: "MakeHeader (uint ty) (int r) 0 0 = Some h1" "header_bytes h1 @ [] = eof_bytes ty r"
    using MakeHeader_frame [of "out_frame ty r []"] id
    by (auto simp: out_frame_def frame_wf_def eof_bytes_def frame_bytes_def pad8_def)
  from raw_put_record [OF r1 h1, of "\<not> (ty = 7 \<and> \<not> (u \<or> ds \<noteq> []))"] obtain s2 c2 where
    2: "(if \<not> (ty = 7 \<and> \<not> (u \<or> ds \<noteq> [])) then do { h \<leftarrow> MakeHeader (uint ty) (int r) 0 0;
          (_, s, c) \<leftarrow> FCGX_PutStr EmptyBuffProc_inner (header_bytes h) s1 c; Some (s, c) }
        else Some (s1, c)) = Some (s2, c2)"
    and r2: "raw_rel (uint ty) (base @ out_frames ty r ds) k s2 c2 (if ty = 7 \<and> \<not> (u \<or> ds \<noteq> []) then [] else eof_bytes ty r)"
    by (auto split: if_splits)
  have k2: "nWriters c2 = nWriters k" "requestId c2 = int r" "appStatus c2 = appStatus k"
    using r2 id conn_keptD [OF ok(3)] conn_keptD [of c2 k] by (auto simp: raw_rel_def)
  let ?body = "end_body_bytes (MakeEndRequestBody (appStatus k) FCGI_REQUEST_COMPLETE)"
  have lb: "length ?body = 8" by (simp add: end_body_bytes_def MakeEndRequestBody_def)
  obtain h2 where h2: "MakeHeader FCGI_END_REQUEST (int r) 8 0 = Some h2" "header_bytes h2 @ ?body = end_request_bytes r (appStatus k)"
    using MakeHeader_frame [of "out_frame 3 r ?body"] id lb
    by (auto simp: out_frame_def frame_wf_def end_request_bytes_def frame_bytes_def pad8_def FCGI_END_REQUEST_def)
  from raw_put_record [OF r2 h2, of "nWriters k = 1"] obtain s3 c3 where
    3: "(if nWriters k = 1 then do { h \<leftarrow> MakeHeader FCGI_END_REQUEST (int r) 8 0;
          (_, s, c) \<leftarrow> FCGX_PutStr EmptyBuffProc_inner (header_bytes h @ ?body) s2 c2; Some (s, c) }
        else Some (s2, c2)) = Some (s3, c3)"
    and r3: "raw_rel (uint ty) (base @ out_frames ty r ds) k s3 c3 (close_bytes ty r (u \<or> ds \<noteq> []) (appStatus k) (nWriters k))"
    unfolding close_bytes_def by blast
  define c4 where "c4 = c3\<lparr>nWriters := nWriters k - 1\<rparr>"
  have wcr: "WriteCloseRecords (s\<lparr>buff := b, wrNext := n\<rparr>) c = Some (s3, c4)"
  proof -
    have "nWriters c3 = nWriters k" using r3 conn_keptD [of c3 k] by (auto simp: raw_rel_def)
    then show ?thesis
      using 2 3 unfolding WriteCloseRecords_def s1_def [symmetric] Let_def used c4_def unfolding s1
      by (cases "nWriters k = 1") (simp_all add: k2 split del: if_split)
  qed
  have c4: "out_ok c4" "sent c4 = sent c3" "conn_kept c4 = k\<lparr>nWriters := nWriters k - 1\<rparr>"
    using r3 by (auto simp: c4_def raw_rel_def out_ok_def conn_kept_def)
  obtain ws a where w: "empty_write s3 c4 = Some (s3\<lparr>isAnythingWritten := a, wrNext := 0\<rparr>,
      c4\<lparr>sent := sent c4 @ take (wrNext s3) (buff s3), wr_script := ws\<rparr>)"
    "out_ok (c4\<lparr>sent := sent c4 @ take (wrNext s3) (buff s3), wr_script := ws\<rparr>)"
    using empty_write_ok [of s3 c4] r3 c4(1) by (auto simp: raw_rel_def)
  have e: "EmptyBuffProc s True c = Some (s3\<lparr>isAnythingWritten := a, wrNext := 0\<rparr>,
      c4\<lparr>sent := sent c4 @ take (wrNext s3) (buff s3), wr_script := ws\<rparr>)"
    using b(1) wcr w(1) by (simp add: EmptyBuffProc_def EmptyBuffProc_with_def)
  have "sent c4 @ take (wrNext s3) (buff s3) =
     base @ out_frames ty r ds @ close_bytes ty r (u \<or> ds \<noteq> []) (appStatus k) (nWriters k)"
    using r3 c4(2) by (simp add: raw_rel_def)
  then show ?thesis using e ds r3 w(2) c4(3) by (auto simp: raw_rel_def)
qed

section \<open>A stream from its first byte to its end\<close>

text \<open>The calls of a program that writes: the operations of the stream, in any order.\<close>

datatype out_op = Op_PutStr "byte list" | Op_PutChar byte | Op_FFlush

fun op_data :: "out_op \<Rightarrow> byte list" where
  "op_data (Op_PutStr bs) = bs"
| "op_data (Op_PutChar b) = [b]"
| "op_data Op_FFlush = []"

fun run_op :: "'z empty_proc \<Rightarrow> out_op \<Rightarrow> FCGX_Stream \<Rightarrow> 'z conn_scheme \<Rightarrow> (FCGX_Stream \<times> 'z conn_scheme) option" where
  "run_op emp (Op_PutStr bs) s c = do { (_, s, c) \<leftarrow> FCGX_PutStr emp bs s c; Some (s, c) }"
| "run_op emp (Op_PutChar b) s c = do { (_, s, c) \<leftarrow> FCGX_PutChar emp (uint b) s c; Some (s, c) }"
| "run_op emp Op_FFlush s c = do { (_, s, c) \<leftarrow> FCGX_FFlush emp s c; Some (s, c) }"

primrec run_ops :: "'z empty_proc \<Rightarrow> out_op list \<Rightarrow> FCGX_Stream \<Rightarrow> 'z conn_scheme \<Rightarrow> (FCGX_Stream \<times> 'z conn_scheme) option" where
  "run_ops emp [] s c = Some (s, c)"
| "run_ops emp (p # ps) s c = do { (s, c) \<leftarrow> run_op emp p s c; run_ops emp ps s c }"

definition ops_data :: "out_op list \<Rightarrow> byte list" where
  "ops_data ps = concat (map op_data ps)"

context byte_sink
begin

lemma run_op_rel:
  assumes r: "rel s c out"
  shows "\<exists>s' c'. run_op emp p s c = Some (s', c') \<and> rel s' c' (out @ op_data p)"
proof (cases p)
  case (Op_PutStr bs)
  then show ?thesis using PutStr_rel [OF r, of bs] by auto
next
  case (Op_PutChar b)
  then show ?thesis using PutChar_rel [OF r, of b] by auto
next
  case Op_FFlush
  then show ?thesis using FFlush_rel [OF r] by auto
qed

lemma run_ops_rel:
  "rel s c out \<Longrightarrow> \<exists>s' c'. run_ops emp ps s c = Some (s', c') \<and> rel s' c' (out @ ops_data ps)"
proof (induction ps arbitrary: s c out)
  case (Cons p ps)
  obtain s1 c1 where 1: "run_op emp p s c = Some (s1, c1)" "rel s1 c1 (out @ op_data p)"
    using run_op_rel [OF Cons.prems] by blast
  then show ?case using Cons.IH [OF 1(2)] by (simp add: ops_data_def)
qed (simp add: ops_data_def)

end

lemma writer_FClose:
  assumes r: "writer_rel ty r base k u s c out"
  shows "\<exists>s' c' ds. FCGX_FClose EmptyBuffProc (Some s) c = Some (0, Some s', c') \<and> isClosed s' \<and>
     wasFCloseCalled s' \<and> out = concat ds \<and> (\<forall>d \<in> set ds. d \<noteq> [] \<and> length d \<le> 65528) \<and>
     sent c' = base @ out_frames ty r ds @ close_bytes ty r (u \<or> ds \<noteq> []) (appStatus k) (nWriters k) \<and>
     conn_kept c' = k\<lparr>nWriters := nWriters k - 1\<rparr> \<and> out_ok c'"
proof -
  have s: "\<not> wasFCloseCalled s" "\<not> isReader s" using r by (auto simp: writer_rel_def writer_ok_def)
  obtain s1 c1 ds where "EmptyBuffProc s True c = Some (s1, c1)" "FCGI_errno s1 = 0" "\<not> isReader s1"
    "out = concat ds" "\<forall>d \<in> set ds. d \<noteq> [] \<and> length d \<le> 65528"
    "sent c1 = base @ out_frames ty r ds @ close_bytes ty r (u \<or> ds \<noteq> []) (appStatus k) (nWriters k)"
    "conn_kept c1 = k\<lparr>nWriters := nWriters k - 1\<rparr>" "out_ok c1"
    using writer_close [OF r] by blast
  then show ?thesis using s by (fastforce simp: FCGX_FClose_def Let_def)
qed

text \<open>The same, seen from any state of the stream: what one call adds to what was sent.\<close>

definition writer_at :: "byte \<Rightarrow> nat \<Rightarrow> FCGX_Stream \<Rightarrow> 'z conn_scheme \<Rightarrow> bool" where
  "writer_at ty r s c \<longleftrightarrow> writer_ok ty s \<and> out_ok c \<and> requestId c = int r \<and> r < 65536"

lemma writer_at_rel:
  "writer_at ty r s c \<Longrightarrow> writer_rel ty r (sent c) (conn_kept c) (isAnythingWritten s) s c (pending s)"
  by (auto simp: writer_at_def writer_rel_def conn_kept_def intro: exI [of _ "[]"])

lemma writer_op:
  assumes w: "writer_at ty r s c"
  shows "\<exists>s' c' ds. run_op EmptyBuffProc p s c = Some (s', c') \<and> writer_at ty r s' c' \<and>
     sent c' = sent c @ out_frames ty r ds \<and> concat ds @ pending s' = pending s @ op_data p \<and>
     (\<forall>d \<in> set ds. d \<noteq> [] \<and> length d \<le> 65528) \<and> conn_kept c' = conn_kept c \<and>
     (isAnythingWritten s' \<longleftrightarrow> isAnythingWritten s \<or> ds \<noteq> [])"
proof -
  obtain s' c' where e: "run_op EmptyBuffProc p s c = Some (s', c')"
    and r: "writer_rel ty r (sent c) (conn_kept c) (isAnythingWritten s) s' c' (pending s @ op_data p)"
    using records.run_op_rel [OF writer_at_rel [OF w]] by blast
  then show ?thesis using conn_keptD [of c' "conn_kept c"] conn_keptD [of c "conn_kept c"] w
    by (fastforce simp: writer_rel_def writer_at_def)
qed

lemma writer_at_FClose:
  assumes w: "writer_at ty r s c"
  shows "\<exists>s' c' ds. FCGX_FClose EmptyBuffProc (Some s) c = Some (0, Some s', c') \<and> isClosed s' \<and>
     wasFCloseCalled s' \<and> pending s = concat ds \<and> (\<forall>d \<in> set ds. d \<noteq> [] \<and> length d \<le> 65528) \<and>
     sent c' = sent c @ out_frames ty r ds @
       close_bytes ty r (isAnythingWritten s \<or> ds \<noteq> []) (appStatus c) (nWriters c) \<and>
     conn_kept c' = (conn_kept c)\<lparr>nWriters := nWriters c - 1\<rparr> \<and> out_ok c'"
  using writer_FClose [OF writer_at_rel [OF w]] by (simp add: conn_kept_def)

lemma out_frame_aligned: "8 dvd length (frame_bytes (out_frame ty r d))"
proof -
  have "8 dvd length d + pad8 (length d)" unfolding div8_up [symmetric] by simp
  then show ?thesis by (simp add: frame_bytes_def out_frame_def)
qed

text \<open>
  C19. What reaches the connection.  Whatever sequence of writes and flushes a program makes on a
  fresh writer, and however the connection splits the writes, closing the stream succeeds, and
  what has been sent is a sequence of frames of the stream, each a multiple of 8 bytes,
  whose contents concatenate to exactly the bytes written, followed by the closing records:
  the empty record of the stream (for standard error only when it was used) and, from the
  last writer of the request and only from it, the end-request record with the exit status.
\<close>

theorem written_records:
  assumes "writer_ok ty s" "wrNext s = 8" "\<not> isAnythingWritten s"
    and "out_ok c" "requestId c = int r" "r < 65536"
  shows "\<exists>s1 c1 s2 c2 ds. run_ops EmptyBuffProc ps s c = Some (s1, c1) \<and>
     FCGX_FClose EmptyBuffProc (Some s1) c1 = Some (0, Some s2, c2) \<and> isClosed s2 \<and>
     sent c2 = sent c @ out_frames ty r ds @ close_bytes ty r (ds \<noteq> []) (appStatus c) (nWriters c) \<and>
     concat ds = ops_data ps \<and>
     (\<forall>d \<in> set ds. d \<noteq> [] \<and> frame_wf (out_frame ty r d) \<and> 8 dvd length (frame_bytes (out_frame ty r d))) \<and>
     nWriters c2 = nWriters c - 1"
proof -
  have "pending s = []" using assms(1,2) by (simp add: pending_def)
  then have r0: "writer_rel ty r (sent c) (conn_kept c) False s c []"
    using assms unfolding writer_rel_def by (intro conjI exI [of _ "[]"]) (auto simp: conn_kept_def)
  obtain s1 c1 where 1: "run_ops EmptyBuffProc ps s c = Some (s1, c1)"
    and r1: "writer_rel ty r (sent c) (conn_kept c) False s1 c1 (ops_data ps)"
    using records.run_ops_rel [OF r0, of ps] by auto
  obtain s2 c2 ds where 2: "FCGX_FClose EmptyBuffProc (Some s1) c1 = Some (0, Some s2, c2)" "isClosed s2"
    "ops_data ps = concat ds" "\<forall>d \<in> set ds. d \<noteq> [] \<and> length d \<le> 65528"
    "sent c2 = sent c @ out_frames ty r ds @ close_bytes ty r (False \<or> ds \<noteq> []) (appStatus (conn_kept c)) (nWriters (conn_kept c))"
    "conn_kept c2 = (conn_kept c)\<lparr>nWriters := nWriters (conn_kept c) - 1\<rparr>"
    using writer_FClose [OF r1] by blast
  have "nWriters c2 = nWriters c - 1" using conn_keptD [OF 2(6)] by (simp add: conn_kept_def)
  moreover have "frame_wf (out_frame ty r d)" if "d \<in> set ds" for d
    using that 2(4) assms(6) pad8_less [of "length d"] by (fastforce simp: frame_wf_def out_frame_def)
  ultimately show ?thesis using 1 2 out_frame_aligned by (auto simp: conn_kept_def)
qed

definition sample_writer :: "byte list \<Rightarrow> FCGX_Stream" where
  "sample_writer b = \<lparr>buff = b, bufflen = length b, buffStop = length b, stype = 6, eorStop = False, skip = False,
     contentLen = 0, paddingLen = 0, isAnythingWritten = False, rawWrite = False, rdNext = length b,
     wrNext = 8, stop = length b, stopUnget = None, isReader = False, isClosed = False,
     wasFCloseCalled = False, FCGI_errno = 0\<rparr>"

definition sample_out_conn :: conn where
  "sample_out_conn = \<lparr>shutdownPending = False, shutdownNow = False, accept_events = [], closed_fds = [],
     rd_script = [], wr_script = [WTake 5, WTake 0], sent = [9], os_errno = 0, requestId = 1, role = 1, ipcFd = 5,
     isBeginProcessed = True, keepConnection = True, appStatus = 3, nWriters = 1\<rparr>"

definition sample_ops :: "out_op list" where
  "sample_ops = [Op_PutStr [1, 2, 3, 4, 5, 6, 7, 8, 9, 10], Op_PutChar 11, Op_FFlush, Op_PutChar 12]"

lemma sample_writer_ok: "writer_ok 6 (sample_writer (replicate 16 0))"
  by (simp add: writer_ok_def sample_writer_def)

lemma written_records_witness:
  "\<exists>s1 c1 s2 c2 ds. run_ops EmptyBuffProc sample_ops (sample_writer (replicate 16 0)) sample_out_conn = Some (s1, c1) \<and>
     FCGX_FClose EmptyBuffProc (Some s1) c1 = Some (0, Some s2, c2) \<and>
     concat ds = [1, 2, 3, 4, 5, 6, 7, 8, 9, 10, 11, 12] \<and>
     sent c2 = 9 # out_frames 6 1 ds @ close_bytes 6 1 (ds \<noteq> []) 3 1"
proof -
  have 1: "wrNext (sample_writer (replicate 16 0)) = 8" "\<not> isAnythingWritten (sample_writer (replicate 16 0))"
    "out_ok sample_out_conn" "requestId sample_out_conn = int 1" "(1 :: nat) < 65536"
    by (simp_all add: sample_writer_def sample_out_conn_def out_ok_def)
  have 2: "ops_data sample_ops = [1, 2, 3, 4, 5, 6, 7, 8, 9, 10, 11, 12]" by (simp add: ops_data_def sample_ops_def)
  have 3: "sent sample_out_conn = [9]" "appStatus sample_out_conn = 3" "nWriters sample_out_conn = 1"
    by (simp_all add: sample_out_conn_def)
  show ?thesis using written_records [OF sample_writer_ok 1, of sample_ops] unfolding 2 3 by auto
qed

end
