(* ===== verification/Os_Unix.thy ===== *)
theory Os_Unix
  imports Fcgi_Base
begin

text \<open>
  The operating system layer of \<open>os_unix.c\<close> that a FastCGI server process uses: accepting a
  connection (\<open>OS_Accept\<close>, with the check of the peer's address and the check that a local
  connection has data) and closing it.  The build without \<open>USE_LOCKING\<close> is modelled, the one
  for Linux: \<open>AcquireLock\<close> and \<open>ReleaseLock\<close> do nothing and return 0 there.  The table for
  asynchronous input and output, which this process does not use, is in \<open>Os_Async\<close>.
\<close>

section \<open>Errors of accept\<close>

definition EINTR :: int where "EINTR = 4"
definition EPROTO :: int where "EPROTO = 71"
definition ENETUNREACH :: int where "ENETUNREACH = 101"
definition ECONNABORTED :: int where "ECONNABORTED = 103"
definition ECONNRESET :: int where "ECONNRESET = 104"
definition ETIMEDOUT :: int where "ETIMEDOUT = 110"
definition EHOSTUNREACH :: int where "EHOSTUNREACH = 113"

definition is_reasonable_accept_errno :: "int \<Rightarrow> bool" where
  "is_reasonable_accept_errno e \<longleftrightarrow>
     e \<in> {EPROTO, ECONNABORTED, ECONNRESET, ETIMEDOUT, EHOSTUNREACH, ENETUNREACH}"

definition OS_ShutdownPending :: "'z os_state_scheme \<Rightarrow> 'z os_state_scheme" where
  "OS_ShutdownPending c = c\<lparr>shutdownPending := True\<rparr>"

section \<open>The address check\<close>

text \<open>
  The list is split at commas; every field is read by \<open>inet_addr\<close> of the C library, a parameter
  of the model, and compared with the address of the peer.
\<close>

fun comma_fields :: "string \<Rightarrow> string list" where
  "comma_fields [] = [[]]"
| "comma_fields (c # cs) =
     (if c = CHR '','' then [] # comma_fields cs
      else case comma_fields cs of [] \<Rightarrow> [[c]] | f # fs \<Rightarrow> (c # f) # fs)"

definition ClientAddrOK :: "(string \<Rightarrow> 32 word) \<Rightarrow> 32 word \<Rightarrow> string option \<Rightarrow> bool" where
  "ClientAddrOK inet_addr addr clientList =
     (case clientList of None \<Rightarrow> True
      | Some l \<Rightarrow> cstr l = [] \<or> list_ex (\<lambda>f. inet_addr f = addr) (comma_fields (cstr l)))"

section \<open>Closing\<close>

text \<open>
  \<open>OS_Close\<close> as the streams see it: -1 is no descriptor; any other is closed, and the log keeps it with what was sent,
  and whether an orderly shutdown was asked for.  The shutdown with its drain and the table of asynchronous
  operations are in \<open>Close_fd\<close> of \<open>Os_Async\<close>, which has the whole function.
\<close>

definition OS_Close :: "int \<Rightarrow> bool \<Rightarrow> 'z os_state_scheme \<Rightarrow> 'z os_state_scheme" where
  "OS_Close fd shutdown_ok c =
     (if fd = -1 then c
      else c\<lparr>closed_fds := closed_fds c @ [(fd, shutdown_ok, sent c)],
             rd_script := [], wr_script := [], sent := []\<rparr>)"

definition OS_IpcClose :: "int \<Rightarrow> bool \<Rightarrow> 'z os_state_scheme \<Rightarrow> 'z os_state_scheme" where
  "OS_IpcClose fd shutdown c = OS_Close fd shutdown c"

section \<open>Accepting\<close>

text \<open>
  The loops of \<open>OS_Accept\<close>, over the events to come.  \<open>socket\<close> is the variable of that name, which
  keeps the descriptor of a local connection that was given up.  When a shutdown is
  pending and \<open>socket\<close> is such a descriptor, \<open>poll\<close> never reports data on it and the loops spin
  for ever; when there are no more events, \<open>accept\<close> blocks for ever.  Both are \<open>None\<close>.  Only the address of an
  IPv4 peer is checked, and only a local connection is looked at for data.
\<close>

definition close_rejected :: "int \<Rightarrow> 'z os_state_scheme \<Rightarrow> 'z os_state_scheme" where
  "close_rejected fd c = c\<lparr>closed_fds := closed_fds c @ [(fd, False, [])]\<rparr>"

primrec accept_loop ::
  "(32 word \<Rightarrow> bool) \<Rightarrow> bool \<Rightarrow> accept_event list \<Rightarrow> int \<Rightarrow> 'z os_state_scheme \<Rightarrow>
   (int \<times> 'z os_state_scheme) option" where
  "accept_loop ok fail_on_intr [] socket c =
     (if shutdownPending c \<and> socket < 0 then Some (-1, c) else None)"
| "accept_loop ok fail_on_intr (e # es) socket c =
     (if shutdownPending c then (if socket < 0 then Some (-1, c) else None)
      else
        let c = c\<lparr>accept_events := es\<rparr>
        in case e of
             Signal_before \<Rightarrow> accept_loop ok fail_on_intr es socket (OS_ShutdownPending c)
           | Accept_signal \<Rightarrow> Some (-1, (OS_ShutdownPending c)\<lparr>os_errno := EINTR\<rparr>)
           | Accept_error n \<Rightarrow>
               (if n = EINTR \<and> \<not> fail_on_intr
                then accept_loop ok fail_on_intr es (-1) (c\<lparr>os_errno := n\<rparr>)
                else if is_reasonable_accept_errno n
                then accept_loop ok fail_on_intr es (-1) (c\<lparr>os_errno := 0\<rparr>)
                else Some (-1, c\<lparr>os_errno := n\<rparr>))
           | Accept_conn fd p data rd wr \<Rightarrow>
               (case p of
                  Inet_peer a \<Rightarrow>
                    (if ok a then Some (fd, c\<lparr>rd_script := rd, wr_script := wr, sent := []\<rparr>)
                     else accept_loop ok fail_on_intr es (-1) (close_rejected fd c))
                | Unix_peer \<Rightarrow>
                    (if data then Some (fd, c\<lparr>rd_script := rd, wr_script := wr, sent := []\<rparr>)
                     else accept_loop ok fail_on_intr es fd (close_rejected fd c))
                | Other_peer \<Rightarrow> Some (fd, c\<lparr>rd_script := rd, wr_script := wr, sent := []\<rparr>)))"

definition OS_Accept ::
  "(string \<Rightarrow> 32 word) \<Rightarrow> bool \<Rightarrow> string option \<Rightarrow> 'z os_state_scheme \<Rightarrow>
   (int \<times> 'z os_state_scheme) option" where
  "OS_Accept inet_addr fail_on_intr webServerAddrs c =
     accept_loop (\<lambda>a. ClientAddrOK inet_addr a webServerAddrs) fail_on_intr (accept_events c) (-1) c"

end
