(* ===== verification/Fcgi_Request.thy ===== *)
theory Fcgi_Request
  imports Fcgi_Client Fcgi_Writer Os_Unix
begin

text \<open>Streams are created here, and a request is accepted and finished.\<close>

section \<open>Streams\<close>

text \<open>
  \<open>mBuff\<close> is the address \<open>Malloc\<close> returned; the buffer starts at the next multiple of 8, and is
  8 bytes shorter when that is not \<open>mBuff\<close> itself.  Its bytes are not initialised; they are
  zeros here, and nothing reads them before they are written.
\<close>

definition stream_bufflen :: "int \<Rightarrow> 64 word \<Rightarrow> nat" where
  "stream_bufflen len mBuff =
     (let n = unat (AlignInt8 (word_of_int (min (max len 32) (FCGI_MAX_LENGTH + 1))))
      in if AlignPtr8 mBuff \<noteq> mBuff then n - 8 else n)"

definition NewStream :: "64 word \<Rightarrow> int \<Rightarrow> bool \<Rightarrow> int \<Rightarrow> FCGX_Stream" where
  "NewStream mBuff len reader streamType =
     (let n = stream_bufflen len mBuff
      in \<lparr>buff = replicate n 0, bufflen = n,
          buffStop = (if reader then 0 else n),
          stype = streamType, eorStop = False, skip = False,
          contentLen = 0, paddingLen = 0, isAnythingWritten = False, rawWrite = False,
          rdNext = (if reader then 0 else n),
          wrNext = (if reader then 0 else FCGI_HEADER_LEN),
          stop = (if reader then 0 else n),
          stopUnget = (if reader then Some 0 else None),
          isReader = reader, isClosed = False, wasFCloseCalled = False, FCGI_errno = 0\<rparr>)"

definition NewReader :: "64 word \<Rightarrow> int \<Rightarrow> int \<Rightarrow> FCGX_Stream" where
  "NewReader mBuff len streamType = NewStream mBuff len True streamType"

definition NewWriter :: "64 word \<Rightarrow> int \<Rightarrow> int \<Rightarrow> FCGX_Stream" where
  "NewWriter mBuff len streamType = NewStream mBuff len False streamType"

definition SetReaderType :: "FCGX_Stream \<Rightarrow> int \<Rightarrow> FCGX_Stream option" where
  "SetReaderType s streamType =
     (if \<not> isReader s then None
      else Some (s\<lparr>stype := streamType, eorStop := False, skip := False, contentLen := 0,
                  paddingLen := 0, stop := rdNext s, wrNext := rdNext s, isClosed := False\<rparr>))"

definition SetExitStatus :: "int \<Rightarrow> 'z conn_scheme \<Rightarrow> 'z conn_scheme" where
  "SetExitStatus status c = c\<lparr>appStatus := status\<rparr>"

definition StartFilterData :: "FCGX_Stream \<Rightarrow> 'z conn_scheme \<Rightarrow> (int \<times> FCGX_Stream) option" where
  "StartFilterData s c =
     (if role c \<noteq> FCGI_FILTER \<or> \<not> isReader s \<or> \<not> isClosed s \<or> stype s \<noteq> FCGI_STDIN
      then Some (-1, SetError FCGX_CALL_SEQ_ERROR s)
      else do { s \<leftarrow> SetReaderType s FCGI_DATA; Some (0, s) })"

section \<open>The request\<close>

text \<open>
  \<open>FCGX_Request\<close>, with the three globals of \<open>fcgiapp.c\<close> an accept looks at.  \<open>envp\<close> is
  \<open>paramsPtr->vec\<close>; the strings behind it are those of the vector.
\<close>

record FCGX_Request = conn +
  in_stream :: "FCGX_Stream option"
  out_stream :: "FCGX_Stream option"
  err_stream :: "FCGX_Stream option"
  envp :: "byte list option list"
  paramsPtr :: "Params option"
  rq_flags :: int
  listen_sock :: int
  detached :: bool
  libInitialized :: bool
  webServerAddressList :: "string option"

text \<open>\<open>memset\<close> clears the request; the operating system and the globals stay.\<close>

definition FCGX_InitRequest :: "int \<Rightarrow> int \<Rightarrow> 'z FCGX_Request_scheme \<Rightarrow> 'z FCGX_Request_scheme" where
  "FCGX_InitRequest sock flags r =
     r\<lparr>requestId := 0, role := 0, ipcFd := -1, isBeginProcessed := False, keepConnection := False,
       appStatus := 0, nWriters := 0, in_stream := None, out_stream := None, err_stream := None,
       envp := [], paramsPtr := None, rq_flags := flags, listen_sock := sock, detached := False\<rparr>"

definition FCGX_Free :: "bool \<Rightarrow> 'z FCGX_Request_scheme \<Rightarrow> 'z FCGX_Request_scheme" where
  "FCGX_Free close r =
     (let r = r\<lparr>in_stream := None, out_stream := None, err_stream := None, paramsPtr := None\<rparr>
      in if close then (OS_IpcClose (ipcFd r) (\<not> detached r) r)\<lparr>ipcFd := -1, detached := False\<rparr> else r)"

definition FCGX_Finish_r :: "'z FCGX_Request_scheme \<Rightarrow> 'z FCGX_Request_scheme option" where
  "FCGX_Finish_r r =
     (case in_stream r of
        None \<Rightarrow> Some (FCGX_Free (\<not> keepConnection r) r)
      | Some s \<Rightarrow> do {
          (e, so, r') \<leftarrow> FCGX_FClose EmptyBuffProc (err_stream r) r;
          let r = r'\<lparr>err_stream := so\<rparr>;
          (e', so, r') \<leftarrow> FCGX_FClose EmptyBuffProc (out_stream r) r;
          let r = r'\<lparr>out_stream := so\<rparr>;
          Some (FCGX_Free (\<not> keepConnection r \<or> e \<noteq> 0 \<or> e' \<noteq> 0 \<or> FCGX_GetError s \<noteq> 0) r)
        })"

definition FCGX_Attach :: "'z FCGX_Request_scheme \<Rightarrow> int \<times> 'z FCGX_Request_scheme" where
  "FCGX_Attach r = (0, r\<lparr>detached := False\<rparr>)"

definition FCGX_Detach :: "'z FCGX_Request_scheme \<Rightarrow> int \<times> 'z FCGX_Request_scheme" where
  "FCGX_Detach r = (if ipcFd r \<le> 0 then (-1, r) else (0, r\<lparr>detached := True\<rparr>))"

section \<open>Accepting a request\<close>

definition FCGI_FAIL_ACCEPT_ON_INTR :: int where "FCGI_FAIL_ACCEPT_ON_INTR = 1"

definition role_string :: "int \<Rightarrow> byte list option" where
  "role_string r =
     (if r = FCGI_RESPONDER then Some (ascii ''FCGI_ROLE=RESPONDER'')
      else if r = FCGI_AUTHORIZER then Some (ascii ''FCGI_ROLE=AUTHORIZER'')
      else if r = FCGI_FILTER then Some (ascii ''FCGI_ROLE=FILTER'')
      else None)"

text \<open>
  One round on an open connection: \<open>True\<close> when the environment of a request has been read,
  \<open>False\<close> for \<open>goto TryAgain\<close>.  \<open>mb\<close> is the address \<open>Malloc\<close> gives for the buffer.
\<close>

definition read_request :: "64 word \<Rightarrow> 'z FCGX_Request_scheme \<Rightarrow> (bool \<times> 'z FCGX_Request_scheme) option" where
  "read_request mb r = do {
     let r = r\<lparr>isBeginProcessed := False\<rparr>;
     (s, r) \<leftarrow> FillBuffProc (NewReader mb 8192 0) r;
     let r = r\<lparr>in_stream := Some s\<rparr>;
     if \<not> isBeginProcessed r then Some (False, r)
     else case role_string (role r) of
       None \<Rightarrow> Some (False, r)
     | Some str \<Rightarrow> do {
         p \<leftarrow> NewParams 30;
         p \<leftarrow> PutParam p str;
         s \<leftarrow> SetReaderType s FCGI_PARAMS;
         (rc, p, s, r) \<leftarrow> ReadParams FillBuffProc p s r;
         Some (0 \<le> rc, r\<lparr>in_stream := Some s, paramsPtr := Some p\<rparr>)
       }
   }"

text \<open>
  The loop.  Every round that fails closes the connection, so the next one takes an event of
  \<open>accept(2)\<close>; the number of events bounds the number of rounds.
\<close>

primrec accept_rounds ::
  "(string \<Rightarrow> 32 word) \<Rightarrow> 64 word \<Rightarrow> nat \<Rightarrow> 'z FCGX_Request_scheme \<Rightarrow>
   (int \<times> 'z FCGX_Request_scheme) option" where
  "accept_rounds inet_addr mb 0 r = None"
| "accept_rounds inet_addr mb (Suc fuel) r = do {
     (fd, r) \<leftarrow> (if ipcFd r < 0 then do {
         (fd, r) \<leftarrow> OS_Accept inet_addr (rq_flags r AND FCGI_FAIL_ACCEPT_ON_INTR \<noteq> 0)
            (webServerAddressList r) r;
         Some (fd, r\<lparr>ipcFd := fd\<rparr>)
       } else Some (ipcFd r, r));
     if fd < 0 then Some (if 0 < os_errno r then - os_errno r else -9999, r)
     else do {
       (ok, r) \<leftarrow> read_request mb r;
       if ok then Some (0, r) else accept_rounds inet_addr mb fuel (FCGX_Free True r)
     }
   }"

declare accept_rounds.simps(2) [simp del]

text \<open>\<open>mb\<close>, \<open>mo\<close> and \<open>me\<close> are the addresses of the buffers of the three streams.\<close>

definition FCGX_Accept_r ::
  "(string \<Rightarrow> 32 word) \<Rightarrow> 64 word \<Rightarrow> 64 word \<Rightarrow> 64 word \<Rightarrow> 'z FCGX_Request_scheme \<Rightarrow>
   (int \<times> 'z FCGX_Request_scheme) option" where
  "FCGX_Accept_r inet_addr mb mo me r =
     (if \<not> libInitialized r then Some (-9998, r)
      else do {
        r \<leftarrow> FCGX_Finish_r r;
        (rc, r) \<leftarrow> accept_rounds inet_addr mb (Suc (Suc (length (accept_events r)))) r;
        if rc \<noteq> 0 then Some (rc, r)
        else do {
          s \<leftarrow> in_stream r;
          s \<leftarrow> SetReaderType s FCGI_STDIN;
          p \<leftarrow> paramsPtr r;
          Some (0, r\<lparr>in_stream := Some s,
                     out_stream := Some (NewWriter mo 8192 FCGI_STDOUT),
                     err_stream := Some (NewWriter me 512 FCGI_STDERR),
                     nWriters := 2, envp := vec p\<rparr>)
        }
      })"

section \<open>New streams\<close>

lemma stream_bufflen_bounds:
  "stream_bufflen len mBuff mod 8 = 0 \<and> 24 \<le> stream_bufflen len mBuff \<and> stream_bufflen len mBuff \<le> 65536"
proof -
  define n where "n = nat (min (max len 32) 65536)"
  have n: "32 \<le> n" "n \<le> 65536" and i: "min (max len 32) (FCGI_MAX_LENGTH + 1) = int n"
    by (auto simp: n_def FCGI_MAX_LENGTH_def)
  define m where "m = unat (AlignInt8 (word_of_int (int n)))"
  have m: "m = n + pad8 n" using AlignInt8_nat [of n] n by (simp add: m_def)
  have "8 dvd m" unfolding m div8_up [symmetric] by simp
  then have "m mod 8 = 0" "(m - 8) mod 8 = 0" by (auto simp: mod_eq_0_iff_dvd)
  moreover have "32 \<le> m" "m \<le> 65536" using n pad8_le [of n 65536] by (auto simp: m)
  moreover have "stream_bufflen len mBuff = (if AlignPtr8 mBuff \<noteq> mBuff then m - 8 else m)"
    by (simp add: stream_bufflen_def i m_def Let_def)
  ultimately show ?thesis by auto
qed

text \<open>
  The buffer of a stream lies inside the block that was allocated for it, at whatever
  address the allocator put that block: it starts at the next multiple of 8 and ends before
  the end of the block, has room for a record header and content, and content and header fit in one
  record.
\<close>

theorem NewStream_in_block:
  assumes "unat mBuff + 7 < 2 ^ 64"
  shows "unat mBuff \<le> unat (AlignPtr8 mBuff) \<and> unat (AlignPtr8 mBuff) mod 8 = 0 \<and>
    unat (AlignPtr8 mBuff) + length (buff (NewStream mBuff len rd ty)) \<le>
      unat mBuff + unat (AlignInt8 (word_of_int (min (max len 32) (FCGI_MAX_LENGTH + 1)))) \<and>
    24 \<le> length (buff (NewStream mBuff len rd ty)) \<and> length (buff (NewStream mBuff len rd ty)) mod 8 = 0 \<and>
    int (length (buff (NewStream mBuff len rd ty))) - int FCGI_HEADER_LEN \<le> FCGI_MAX_LENGTH"
proof -
  have a: "unat (AlignPtr8 mBuff) = unat mBuff + pad8 (unat mBuff)" by (rule AlignPtr8_aligned [OF assms])
  have "8 dvd unat mBuff + pad8 (unat mBuff)" unfolding div8_up [symmetric] by simp
  then have m: "(unat mBuff + pad8 (unat mBuff)) mod 8 = 0" by (simp add: mod_eq_0_iff_dvd)
  have l: "length (buff (NewStream mBuff len rd ty)) = stream_bufflen len mBuff"
    by (simp add: NewStream_def Let_def)
  have "stream_bufflen len mBuff + pad8 (unat mBuff) \<le>
      unat (AlignInt8 (word_of_int (min (max len 32) (FCGI_MAX_LENGTH + 1))))"
  proof (cases "AlignPtr8 mBuff = mBuff")
    case True
    then have "pad8 (unat mBuff) = 0" using a by simp
    then show ?thesis using True by (simp add: stream_bufflen_def)
  next
    case False
    define n where "n = unat (AlignInt8 (word_of_int (min (max len 32) (FCGI_MAX_LENGTH + 1))))"
    have "stream_bufflen len mBuff = n - 8" using False by (simp add: stream_bufflen_def Let_def n_def)
    then show ?thesis using stream_bufflen_bounds [of len mBuff] pad8_less [of "unat mBuff"]
      unfolding n_def [symmetric] by linarith
  qed
  then show ?thesis using a m l stream_bufflen_bounds [of len mBuff]
    by (simp add: FCGI_HEADER_LEN_def FCGI_MAX_LENGTH_def)
qed

lemma NewStream_in_block_witness:
  "unat (AlignPtr8 (4100 :: 64 word)) = 4104 \<and> length (buff (NewStream 4100 8192 True 5)) = 8184 \<and>
   unat (AlignPtr8 (4100 :: 64 word)) + length (buff (NewStream 4100 8192 True 5)) \<le> 4100 + 8192"
  using NewStream_in_block [of 4100 8192 True 5] by (simp add: AlignPtr8_def AlignInt8_def NewStream_def stream_bufflen_def FCGI_MAX_LENGTH_def)

lemma NewReader_ok:
  "reader_ok (NewReader mBuff len ty) \<and> rdNext (NewReader mBuff len ty) = stop (NewReader mBuff len ty) \<and>
   contentLen (NewReader mBuff len ty) = 0 \<and> paddingLen (NewReader mBuff len ty) = 0 \<and>
   \<not> skip (NewReader mBuff len ty) \<and> \<not> eorStop (NewReader mBuff len ty) \<and> \<not> isClosed (NewReader mBuff len ty) \<and>
   FCGI_errno (NewReader mBuff len ty) = 0 \<and> raw (NewReader mBuff len ty) c = script_bytes (rd_script c)"
  using stream_bufflen_bounds [of len mBuff]
  by (auto simp: NewReader_def NewStream_def Let_def reader_ok_def raw_def buffered_def)

lemma NewWriter_ok:
  "writer_ok ty (NewWriter mBuff len (uint ty)) \<and> wrNext (NewWriter mBuff len (uint ty)) = 8 \<and>
   \<not> isAnythingWritten (NewWriter mBuff len (uint ty))"
  using stream_bufflen_bounds [of len mBuff]
  by (auto simp: NewWriter_def NewStream_def Let_def writer_ok_def FCGI_HEADER_LEN_def)

section \<open>The record that begins a request\<close>

definition begin_frame :: "nat \<Rightarrow> int \<Rightarrow> byte \<Rightarrow> byte list \<Rightarrow> byte list \<Rightarrow> byte \<Rightarrow> frame" where
  "begin_frame r ro flags res pad x =
     \<lparr>f_type = 1, f_id = r, f_content = [word_of_int (ro div 256), word_of_int (ro mod 256), flags] @ res,
      f_pad = pad, f_reserved = x\<rparr>"

lemma header_loop:
  assumes "pend s c [] [] X" "h @ X = frame_header f @ Y" "length h < 8" "\<not> skip s" "\<not> eorStop s" "length X < fuel"
  shows "\<exists>fuel' b n m rs. let s' = s\<lparr>buff := b, rdNext := n, buffStop := m\<rparr>; c' = c\<lparr>rd_script := rs\<rparr> in
     FillBuffProc_loop ph fuel h s c = do {
         (status, s5, c) \<leftarrow> ph (header_of (frame_header f)) (s'\<lparr>eorStop := True, stop := rdNext s'\<rparr>) c';
         (go, s6) \<leftarrow> fill_status status (s5\<lparr>eorStop := False, isClosed := False\<rparr>);
         if go then FillBuffProc_loop ph fuel' [] s6 c else Some (s6, c) } \<and>
     pend s' c' [] [] Y \<and> length Y < fuel'"
  using assms
proof (induction fuel arbitrary: h s c X)
  case 0
  then show ?case by simp
next
  case (Suc fuel)
  have "length (h @ X) = 8 + length Y" using Suc.prems(2) by simp
  then have ne: "[] @ [] @ X \<noteq> []" using Suc.prems(3) by auto
  obtain b n m rs where
    rd: "fill_read s c = Some (True, s\<lparr>buff := b, rdNext := n, buffStop := m\<rparr>, c\<lparr>rd_script := rs\<rparr>)"
    and p1: "pend (s\<lparr>buff := b, rdNext := n, buffStop := m\<rparr>) (c\<lparr>rd_script := rs\<rparr>) [] [] X"
    and a: "n < m"
    by (rule fill_read_pend [OF Suc.prems(1) ne])
  define s1 c1 where "s1 = s\<lparr>buff := b, rdNext := n, buffStop := m\<rparr>" and "c1 = c\<lparr>rd_script := rs\<rparr>"
  have z1: "contentLen s1 = 0" "paddingLen s1 = 0" "raw s1 c1 = X" "reader_ok s1" "0 < avail s1"
    using p1 a by (simp_all add: s1_def c1_def pend_def avail_def)
  have rd1: "fill_read s c = Some (True, s1, c1)" using rd by (simp add: s1_def c1_def)
  define k where "k = min (8 - length h) (avail s1)"
  have k: "k \<le> avail s1" "0 < k" using z1(5) Suc.prems(3) by (auto simp: k_def)
  have kX: "k \<le> length X" using avail_le_raw [OF z1(4), of c1] z1(3) k by simp
  define s2 where "s2 = s1\<lparr>rdNext := rdNext s1 + k\<rparr>"
  have p2: "pend s2 c1 [] [] (drop k X)"
    using raw_advance [OF z1(4) k(1), of c1] p1 z1 by (simp add: s2_def pend_def s1_def [symmetric] c1_def [symmetric])
  have f2: "\<not> skip s2" "\<not> eorStop s2" using Suc.prems by (simp_all add: s2_def s1_def)
  have "rdNext s1 + k \<le> length (buff s1)" using z1(4) k(1) unfolding reader_ok_def avail_def by arith
  then have br: "buf_read (rdNext s1) k (buff s1) = Some (take k X)"
    using raw_take_window [OF z1(4) k(1), of c1] z1(3) by (simp add: buf_read_def)
  have n0: "(0 < contentLen s1 \<and> \<not> skip s1) = False" using z1 by simp
  have pad0: "fill_padding s1 = s1" using z1 by (simp add: fill_padding_zero)
  have eor: "\<not> eorStop (fill_padding s1)" using Suc.prems(5) by (simp add: s1_def)
  note round = FillBuffProc_round [where ph = ph and fuel = fuel and h = h and s = s and c = c,
      OF rd1 n0 _ refl, of s1, unfolded pad0, OF _ eor [unfolded pad0]]
  have step: "FillBuffProc_loop ph (Suc fuel) h s c =
     (if length (h @ take k X) < 8 then FillBuffProc_loop ph fuel (h @ take k X) s2 c1
      else do {
         (status, s5, c) \<leftarrow> ph (header_of (h @ take k X)) (s2\<lparr>eorStop := True, stop := rdNext s2\<rparr>) c1;
         (go, s6) \<leftarrow> fill_status status (s5\<lparr>eorStop := False, isClosed := False\<rparr>);
         if go then FillBuffProc_loop ph fuel [] s6 c else Some (s6, c) })"
    using z1 unfolding k_def [symmetric] s2_def [symmetric]
    by (subst round) (simp_all add: Let_def k_def [symmetric] br s2_def)
  have s2eq: "s2 = s\<lparr>buff := b, rdNext := n + k, buffStop := m\<rparr>" by (simp add: s2_def s1_def)
  show ?case
  proof (cases "length (h @ take k X) < 8")
    case True
    have e: "(h @ take k X) @ drop k X = frame_header f @ Y" using Suc.prems(2) by simp
    have "length (drop k X) < fuel" using Suc.prems(6) k kX by simp
    from Suc.IH [OF p2 e True f2 this] obtain fuel' b' n' m' rs' where
      ih: "FillBuffProc_loop ph fuel (h @ take k X) s2 c1 = do {
         (status, s5, c) \<leftarrow> ph (header_of (frame_header f)) (s2\<lparr>buff := b', rdNext := n', buffStop := m'\<rparr>\<lparr>eorStop := True,
             stop := rdNext (s2\<lparr>buff := b', rdNext := n', buffStop := m'\<rparr>)\<rparr>) (c1\<lparr>rd_script := rs'\<rparr>);
         (go, s6) \<leftarrow> fill_status status (s5\<lparr>eorStop := False, isClosed := False\<rparr>);
         if go then FillBuffProc_loop ph fuel' [] s6 c else Some (s6, c) }"
      "pend (s2\<lparr>buff := b', rdNext := n', buffStop := m'\<rparr>) (c1\<lparr>rd_script := rs'\<rparr>) [] [] Y" "length Y < fuel'"
      unfolding Let_def by blast
    show ?thesis using ih True unfolding step
      by (intro exI [of _ fuel'] exI [of _ b'] exI [of _ n'] exI [of _ m'] exI [of _ rs'])
        (simp add: s2eq c1_def)
  next
    case False
    then have l8: "length (h @ take k X) = 8" using Suc.prems(3) by (simp add: k_def)
    have "(h @ take k X) @ drop k X = frame_header f @ Y" using Suc.prems(2) by simp
    from append_split [OF this] l8 have h: "h @ take k X = frame_header f" "drop k X = Y" by simp_all
    have "length Y < fuel" using h(2) Suc.prems(6) k kX by auto
    then show ?thesis using False p2 h unfolding step
      by (intro exI [of _ fuel] exI [of _ b] exI [of _ "n + k"] exI [of _ m] exI [of _ rs])
        (simp add: s2eq c1_def)
  qed
qed


text \<open>The record is read into the request.\<close>

lemma ProcessHeader_begin:
  assumes wf: "frame_wf (begin_frame r ro flags res [] x)" and res: "length res = 5" and r: "0 < r"
    and p: "pend s c [] [] (f_content (begin_frame r ro flags res [] x) @ Y)"
    and s: "\<not> isClosed s" "\<not> skip s" "FCGI_errno s = 0" and c: "\<not> isBeginProcessed c" and ne: "Y \<noteq> []"
    and ro: "0 \<le> ro" "ro < 65536"
  shows "\<exists>s' rs. ProcessHeader (header_of (frame_header (begin_frame r ro flags res [] x)))
      (s\<lparr>eorStop := True, stop := rdNext s\<rparr>) c =
      Some (BEGIN_RECORD, s', c\<lparr>rd_script := rs, requestId := int r, keepConnection := (flags AND FCGI_KEEP_CONN \<noteq> 0),
        role := ro, isBeginProcessed := True\<rparr>) \<and>
      pend s' (c\<lparr>rd_script := rs\<rparr>) [] [] Y \<and> \<not> skip s' \<and> FCGI_errno s' = 0"
proof -
  define f where "f = begin_frame r ro flags res [] x"
  have f: "f_type f = 1" "f_id f = r" "f_pad f = []" "length (f_content f) = 8"
    "f_content f ! 2 = flags" "push_bit 8 (uint (f_content f ! 0)) + uint (f_content f ! 1) = ro"
  proof -
    have div_nonneg: "0 \<le> ro div 256" "ro div 256 < 256" using ro by presburger+
    have "uint (word_of_int (ro div 256) :: byte) = ro div 256" "uint (word_of_int (ro mod 256) :: byte) = ro mod 256"
      using ro uint_byte_eq [of "ro div 256" "word_of_int (ro div 256)"]
        uint_byte_eq [of "ro mod 256" "word_of_int (ro mod 256)"] by (simp_all add: div_nonneg)
    then show "push_bit 8 (uint (f_content f ! 0)) + uint (f_content f ! 1) = ro"
      by (simp add: f_def begin_frame_def push_bit_eq_mult)
  qed (simp_all add: f_def begin_frame_def res)
  define s1 c1 where "s1 = s\<lparr>eorStop := True, stop := rdNext s, contentLen := 8, paddingLen := 0\<rparr>"
    and "c1 = c\<lparr>requestId := int r\<rparr>"
  have rel: "eor_rel s1 c1 (f_content f) (Y, c1\<lparr>rd_script := []\<rparr>, stype s, 0)"
  proof -
    have "raw s1 c1 = raw s c" by (rule raw_script_cong) (simp_all add: s1_def c1_def)
    moreover have "reader_ok s1" "net_ok c1" "rdNext s1 \<le> buffStop s1" "window s1 = []"
      using p by (auto simp: s1_def c1_def pend_def net_ok_def window_def reader_ok_def)
    ultimately show ?thesis
      using p s ne f(4) unfolding eor_rel_def f_def [symmetric] pend_def by (auto simp: s1_def c1_def)
  qed
  have 8: "(8 :: nat) \<le> length (f_content f)" using f(4) by simp
  obtain s2 c2 where g: "FCGX_GetStr FillBuffProc_eor 8 s1 c1 = Some (f_content f, s2, c2)"
    and r2: "eor_rel s2 c2 [] (Y, c1\<lparr>rd_script := []\<rparr>, stype s, 0)"
    using inside.GetStr_enough [OF rel 8] f(4) by auto
  have "c2\<lparr>rd_script := []\<rparr>\<lparr>rd_script := rd_script c2\<rparr> = c1\<lparr>rd_script := []\<rparr>\<lparr>rd_script := rd_script c2\<rparr>"
    using r2 by (simp add: eor_rel_def)
  then obtain rs where c2: "c2 = c1\<lparr>rd_script := rs\<rparr>" by (intro that [of "rd_script c2"]) simp
  have p2: "pend s2 c2 [] [] Y" "\<not> skip s2" "FCGI_errno s2 = 0" using r2 by (auto simp: eor_rel_def pend_def)
  have ph: "ProcessHeader (header_of (frame_header f)) (s\<lparr>eorStop := True, stop := rdNext s\<rparr>) c =
     ProcessBeginRecord FillBuffProc_eor (int r) s1 c"
    unfolding ProcessHeader_def ProcessHeader_frame [OF wf, folded f_def]
    by (simp add: f FCGI_BEGIN_REQUEST_def s1_def Let_def)
  have "ProcessBeginRecord FillBuffProc_eor (int r) s1 c =
     Some (BEGIN_RECORD, s2, c2\<lparr>keepConnection := (flags AND FCGI_KEEP_CONN \<noteq> 0), role := ro, isBeginProcessed := True\<rparr>)"
    using r c g f by (simp add: ProcessBeginRecord_def s1_def c1_def)
  moreover have "pend s2 (c\<lparr>rd_script := rs\<rparr>) [] [] Y"
    using p2(1) by (simp add: c2 c1_def pend_def raw_def net_ok_def)
  ultimately show ?thesis using ph p2(2,3) unfolding f_def [symmetric]
    by (intro exI [of _ s2] exI [of _ rs]) (simp add: c2 c1_def)
qed

lemma FillBuffProc_begin:
  assumes wf: "frame_wf (begin_frame r ro flags res [] x)" and res: "length res = 5" and r: "0 < r"
    and s: "reader_ok s" "contentLen s = 0" "paddingLen s = 0" "\<not> isClosed s" "\<not> skip s" "\<not> eorStop s"
      "FCGI_errno s = 0"
    and c: "net_ok c" "\<not> isBeginProcessed c"
    and raw: "raw s c = frame_bytes (begin_frame r ro flags res [] x) @ Y"
    and ne: "Y \<noteq> []" and ro: "0 \<le> ro" "ro < 65536"
  shows "\<exists>s' rs. FillBuffProc s c = Some (s', c\<lparr>rd_script := rs, requestId := int r,
        keepConnection := (flags AND FCGI_KEEP_CONN \<noteq> 0), role := ro, isBeginProcessed := True\<rparr>) \<and>
      pend s' (c\<lparr>rd_script := rs\<rparr>) [] [] Y \<and> \<not> skip s' \<and> FCGI_errno s' = 0 \<and> \<not> isClosed s'"
proof -
  define f where "f = begin_frame r ro flags res [] x"
  have pad: "f_pad f = []" by (simp add: f_def begin_frame_def)
  have p0: "pend s c [] [] (raw s c)" using s c by (simp add: pend_def)
  have h0: "[] @ raw s c = frame_header f @ (f_content f @ Y)"
    using raw pad by (simp add: f_def frame_bytes_def)
  have l: "length (raw s c) < Suc (input_size s c)" using length_raw [OF s(1), of c] by simp
  obtain fuel' b n m rs where
    e: "FillBuffProc s c = do {
         (status, s5, c) \<leftarrow> ProcessHeader (header_of (frame_header f))
           (s\<lparr>buff := b, rdNext := n, buffStop := m\<rparr>\<lparr>eorStop := True, stop := rdNext (s\<lparr>buff := b, rdNext := n, buffStop := m\<rparr>)\<rparr>)
           (c\<lparr>rd_script := rs\<rparr>);
         (go, s6) \<leftarrow> fill_status status (s5\<lparr>eorStop := False, isClosed := False\<rparr>);
         if go then FillBuffProc_loop ProcessHeader fuel' [] s6 c else Some (s6, c) }"
    and p1: "pend (s\<lparr>buff := b, rdNext := n, buffStop := m\<rparr>) (c\<lparr>rd_script := rs\<rparr>) [] [] (f_content f @ Y)"
    using header_loop [OF p0 h0 _ s(5,6) l, of ProcessHeader]
    unfolding Let_def FillBuffProc_def FillBuffProc_with_def by auto
  let ?s = "s\<lparr>buff := b, rdNext := n, buffStop := m\<rparr>" and ?c = "c\<lparr>rd_script := rs\<rparr>"
  have s': "\<not> isClosed ?s" "\<not> skip ?s" "FCGI_errno ?s = 0" "\<not> isBeginProcessed ?c" using s c by simp_all
  obtain s2 rs2 where ph: "ProcessHeader (header_of (frame_header f)) (?s\<lparr>eorStop := True, stop := rdNext ?s\<rparr>) ?c =
      Some (BEGIN_RECORD, s2, ?c\<lparr>rd_script := rs2, requestId := int r, keepConnection := (flags AND FCGI_KEEP_CONN \<noteq> 0),
        role := ro, isBeginProcessed := True\<rparr>)"
    "pend s2 (?c\<lparr>rd_script := rs2\<rparr>) [] [] Y" "\<not> skip s2" "FCGI_errno s2 = 0"
    using ProcessHeader_begin [OF wf res r p1 [unfolded f_def] s' ne ro] unfolding f_def [symmetric] by blast
  have st: "fill_status BEGIN_RECORD (s2\<lparr>eorStop := False, isClosed := False\<rparr>) = Some (False, s2\<lparr>eorStop := False, isClosed := False\<rparr>)"
    by (simp add: fill_status_def process_codes)
  show ?thesis using ph(2-4) unfolding e ph(1)
    by (intro exI [of _ "s2\<lparr>eorStop := False, isClosed := False\<rparr>"] exI [of _ rs2]) (simp add: st)
qed

section \<open>A request is accepted\<close>

lemma SetReaderType_start:
  assumes p: "pend s c [] [] Y" and e: "FCGI_errno s = 0" and c: "out_ok c" "isBeginProcessed c" "requestId c = int r"
    and r: "0 < r" "r < 65536" and ty: "ty \<noteq> 1"
  shows "\<exists>s'. SetReaderType s (uint ty) = Some s' \<and> at_start ty r s' c Y"
  using assms by (auto simp: SetReaderType_def at_start_def pend_def reader_ok_def raw_def buffered_def)

lemma accept_loop_conn:
  "\<not> shutdownPending c \<Longrightarrow> accept_events c = Accept_conn fd p data rd wr # es \<Longrightarrow>
   (case p of Inet_peer a \<Rightarrow> ClientAddrOK inet_addr a addrs | Unix_peer \<Rightarrow> data | Other_peer \<Rightarrow> True) \<Longrightarrow>
   OS_Accept inet_addr fail addrs c = Some (fd, c\<lparr>accept_events := es, rd_script := rd, wr_script := wr, sent := []\<rparr>)"
  by (auto simp: OS_Accept_def split: peer.splits)

lemma NewParams_PutParam:
  "\<exists>p q. NewParams 30 = Some p \<and> PutParam p e = Some q \<and> params_wf q \<and> params_list q = [e]"
proof -
  obtain p where p: "NewParams 30 = Some p" "params_wf p" "params_list p = []"
    by (auto simp: NewParams_def params_wf_def params_list_def)
  then show ?thesis using PutParam_wf [OF p(2), of e] by auto
qed


lemma conn_fixed_detached: "conn_fixed c = conn_fixed d \<Longrightarrow> detached c = detached d"
proof -
  assume e: "conn_fixed c = conn_fixed d"
  have "detached (conn_fixed c) = detached (conn_fixed d)" unfolding e by (rule refl)
  then show ?thesis by (simp add: conn_fixed_def)
qed

lemma conn_fixedD:
  assumes "conn_fixed c = conn_fixed d"
  shows "requestId c = requestId d \<and> role c = role d \<and> keepConnection c = keepConnection d \<and>
     isBeginProcessed c = isBeginProcessed d \<and> ipcFd c = ipcFd d \<and> appStatus c = appStatus d \<and>
     closed_fds c = closed_fds d"
proof -
  have "requestId (conn_fixed c) = requestId (conn_fixed d)" "role (conn_fixed c) = role (conn_fixed d)"
    "keepConnection (conn_fixed c) = keepConnection (conn_fixed d)"
    "isBeginProcessed (conn_fixed c) = isBeginProcessed (conn_fixed d)"
    "ipcFd (conn_fixed c) = ipcFd (conn_fixed d)" "appStatus (conn_fixed c) = appStatus (conn_fixed d)"
    "closed_fds (conn_fixed c) = closed_fds (conn_fixed d)"
    unfolding assms by (rule refl)+
  then show ?thesis by (simp add: conn_fixed_def)
qed

lemma read_request_ok:
  fixes r0 :: "'z FCGX_Request_scheme"
  assumes net: "net_ok r0" "out_ok r0"
    and wf: "frame_wf (begin_frame r ro flags res [] x)" and res: "length res = 5" and r: "0 < r" "r < 65536"
    and ro: "0 \<le> ro" "ro < 65536" and role: "role_string ro = Some str"
    and bytes: "script_bytes (rd_script r0) = frame_bytes (begin_frame r ro flags res [] x) @
       packets_bytes 4 r ms @ frame_bytes (end_frame 4 r [] y) @ rest"
    and ms: "packets_ok 4 r ms" "packets_data ms = concat (map nv_bytes ps)" "\<forall>p \<in> set ps. nv_ok p"
  shows "\<exists>r1 s p. read_request mb r0 = Some (True, r1) \<and> in_stream r1 = Some s \<and> paramsPtr r1 = Some p \<and>
     params_wf p \<and> params_list p = str # map nv_entry ps \<and> requestId r1 = int r \<and> role r1 = ro \<and>
     keepConnection r1 = (flags AND FCGI_KEEP_CONN \<noteq> 0) \<and> isBeginProcessed r1 \<and> ipcFd r1 = ipcFd r0 \<and>
     appStatus r1 = appStatus r0 \<and> closed_fds r1 = closed_fds r0 \<and> detached r1 = detached r0 \<and>
     sent r1 = sent r0 @ packets_answer ms \<and> out_ok r1 \<and> pend s r1 [] [] rest \<and>
     FCGI_errno s = 0"
proof -
  define ra where "ra = r0\<lparr>isBeginProcessed := False\<rparr>"
  define s0 where "s0 = NewReader mb 8192 0"
  let ?Y = "packets_bytes 4 r ms @ frame_bytes (end_frame 4 r [] y) @ rest"
  have s0: "reader_ok s0" "contentLen s0 = 0" "paddingLen s0 = 0" "\<not> isClosed s0" "\<not> skip s0" "\<not> eorStop s0"
    "FCGI_errno s0 = 0" using NewReader_ok [of mb 8192 0 ra] by (simp_all add: s0_def)
  have na: "net_ok ra" "\<not> isBeginProcessed ra" using net by (simp_all add: ra_def net_ok_def)
  have raw: "raw s0 ra = frame_bytes (begin_frame r ro flags res [] x) @ ?Y"
    using NewReader_ok [of mb 8192 0 ra] bytes by (simp add: s0_def ra_def)
  have ne: "?Y \<noteq> []" by (simp add: frame_bytes_def frame_header_def)
  obtain s1 rs where fill: "FillBuffProc s0 ra = Some (s1, ra\<lparr>rd_script := rs, requestId := int r,
        keepConnection := (flags AND FCGI_KEEP_CONN \<noteq> 0), role := ro, isBeginProcessed := True\<rparr>)"
    and p1: "pend s1 (ra\<lparr>rd_script := rs\<rparr>) [] [] ?Y" and e1: "FCGI_errno s1 = 0"
    using FillBuffProc_begin [OF wf res r(1) s0 na raw ne ro] by blast
  define rb where "rb = ra\<lparr>rd_script := rs, requestId := int r, keepConnection := (flags AND FCGI_KEEP_CONN \<noteq> 0),
     role := ro, isBeginProcessed := True\<rparr>\<lparr>in_stream := Some s1\<rparr>"
  have pb: "pend s1 rb [] [] ?Y" using p1 by (simp add: rb_def pend_def raw_def net_ok_def)
  obtain v q where v: "NewParams 30 = Some v" "PutParam v str = Some q" "params_wf q" "params_list q = [str]"
    using NewParams_PutParam by blast
  have "out_ok rb" "isBeginProcessed rb" "requestId rb = int r" using net by (simp_all add: rb_def ra_def out_ok_def)
  from SetReaderType_start [OF pb e1 this r, of 4] obtain s2 where
    s2: "SetReaderType s1 FCGI_PARAMS = Some s2" "at_start 4 r s2 rb ?Y"
    by (auto simp: FCGI_PARAMS_def)
  obtain p s3 rc where rp: "ReadParams FillBuffProc q s2 rb = Some (0, p, s3, rc)" "params_wf p"
    "params_list p = str # map nv_entry ps"
    and fin: "reader_fin 4 r s3 rc (rest, 0, sent rb @ packets_answer ms, conn_fixed rb)"
    using client.ReadParams_bytes [OF at_start_rel [OF s2(2) ms(1), unfolded ms(2)] ms(3) v(3)] v(4) by auto
  have cf: "conn_fixed rc = conn_fixed rb" using fin by (simp add: reader_fin_def reading_def)
  have f: "requestId rc = requestId rb" "role rc = role rb" "keepConnection rc = keepConnection rb"
    "isBeginProcessed rc = isBeginProcessed rb" "ipcFd rc = ipcFd rb" "appStatus rc = appStatus rb"
    "closed_fds rc = closed_fds rb" "detached rc = detached rb"
    using conn_fixedD [OF cf] conn_fixed_detached [OF cf] by simp_all
  define r1 where "r1 = rc\<lparr>in_stream := Some s3, paramsPtr := Some p\<rparr>"
  have "read_request mb r0 = Some (True, r1)"
    using fill s2(1) v(1,2) rp(1) role unfolding read_request_def Let_def ra_def [symmetric] s0_def [symmetric]
    by (simp add: rb_def [symmetric] r1_def) (simp add: rb_def)
  moreover have "pend s3 r1 [] [] rest" "out_ok r1" "FCGI_errno s3 = 0"
    using fin by (auto simp: reader_fin_def reading_def pend_def r1_def raw_def net_ok_def out_ok_def)
  moreover have "sent r1 = sent r0 @ packets_answer ms" using fin by (simp add: reader_fin_def r1_def rb_def ra_def)
  ultimately show ?thesis using rp f
    by (intro exI [of _ r1] exI [of _ s3] exI [of _ p]) (simp add: r1_def rb_def ra_def)
qed


lemma params_wf_envp:
  assumes "params_wf p"
  shows "\<exists>unused. vec p = map Some (params_list p) @ None # unused"
proof -
  have c: "cur p < length (vec p)" using assms by (simp add: params_wf_def)
  have "map Some (params_list p) = take (cur p) (vec p)"
    using assms by (auto simp: params_list_def params_wf_def intro!: nth_equalityI)
  moreover have "vec p = take (cur p) (vec p) @ vec p ! cur p # drop (Suc (cur p)) (vec p)"
    by (rule id_take_nth_drop [OF c])
  ultimately show ?thesis using assms by (metis params_wf_def)
qed

text \<open>
  The bytes of a whole request: the record that begins it, its environment, and what follows.  The record that
  begins it and the one that ends the environment have no padding: \<open>SetReaderType\<close> forgets what padding is still to
  come, and the reader would take its bytes for a header.
\<close>

definition request_bytes :: "nat \<Rightarrow> int \<Rightarrow> byte \<Rightarrow> packet list \<Rightarrow> byte list \<Rightarrow> byte list" where
  "request_bytes r ro flags ms rest =
     frame_bytes (begin_frame r ro flags (replicate 5 0) [] 0) @ packets_bytes 4 r ms @
     frame_bytes (end_frame 4 r [] 0) @ rest"

definition peer_ok :: "(string \<Rightarrow> 32 word) \<Rightarrow> string option \<Rightarrow> peer \<Rightarrow> bool \<Rightarrow> bool" where
  "peer_ok inet_addr addrs p data =
     (case p of Inet_peer a \<Rightarrow> ClientAddrOK inet_addr a addrs | Unix_peer \<Rightarrow> data | Other_peer \<Rightarrow> True)"

definition chunks_ok :: "read_result list \<Rightarrow> write_result list \<Rightarrow> bool" where
  "chunks_ok rd wr \<longleftrightarrow> (\<forall>x \<in> set rd. \<exists>bs. x = RData bs \<and> bs \<noteq> []) \<and> (\<forall>w \<in> set wr. \<exists>k. w = WTake k)"

text \<open>A process that waits for a connection.\<close>

definition idle :: "'z FCGX_Request_scheme \<Rightarrow> bool" where
  "idle r \<longleftrightarrow> libInitialized r \<and> in_stream r = None \<and> ipcFd r = -1 \<and>
     \<not> shutdownPending r \<and> \<not> shutdownNow r"

text \<open>
  What a peer means by the bytes \<open>rd\<close> it sends: request \<open>i\<close> of role \<open>ro\<close>, its environment \<open>ps\<close> in the
  packets \<open>ms\<close>, and \<open>rest\<close>.
\<close>

definition peer_request :: "nat \<Rightarrow> int \<Rightarrow> byte \<Rightarrow> packet list \<Rightarrow> nv_pair list \<Rightarrow> byte list \<Rightarrow> byte list \<Rightarrow> bool" where
  "peer_request i ro flags ms ps rest bs \<longleftrightarrow>
     bs = request_bytes i ro flags ms rest \<and> 0 < i \<and> i < 65536 \<and> role_string ro \<noteq> None \<and>
     packets_ok 4 i ms \<and> packets_data ms = concat (map nv_bytes ps) \<and> (\<forall>p \<in> set ps. nv_ok p)"

text \<open>
  A request that has been accepted on descriptor \<open>fd\<close>: \<open>env\<close> is its environment, \<open>rest\<close> what is
  still to be read, \<open>snt\<close> what has been sent on the connection.
\<close>

definition accepted ::
  "nat \<Rightarrow> int \<Rightarrow> byte \<Rightarrow> byte list list \<Rightarrow> int \<Rightarrow> byte list \<Rightarrow> byte list \<Rightarrow> 'z FCGX_Request_scheme \<Rightarrow> bool" where
  "accepted i ro flags env fd snt rest r \<longleftrightarrow>
     requestId r = int i \<and> role r = ro \<and> keepConnection r = (flags AND FCGI_KEEP_CONN \<noteq> 0) \<and>
     ipcFd r = fd \<and> nWriters r = 2 \<and>
     (\<exists>unused. envp r = map Some env @ None # unused) \<and>
     (\<exists>s. in_stream r = Some s \<and> at_start 5 i s r rest) \<and>
     (\<exists>s. out_stream r = Some s \<and> writer_ok 6 s \<and> wrNext s = 8 \<and> \<not> isAnythingWritten s) \<and>
     (\<exists>s. err_stream r = Some s \<and> writer_ok 7 s \<and> wrNext s = 8 \<and> \<not> isAnythingWritten s) \<and>
     sent r = snt"

lemma Accept_r_ok:
  fixes r0 :: "'z FCGX_Request_scheme"
  assumes idle0: "idle r0"
    and ev: "accept_events r0 = Accept_conn fd p data rd wr # es" "0 \<le> fd"
      "peer_ok inet_addr (webServerAddressList r0) p data" "chunks_ok rd wr"
    and req: "peer_request i ro flags ms ps rest (script_bytes rd)"
  shows "\<exists>r. FCGX_Accept_r inet_addr mb mo me r0 = Some (0, r) \<and>
     accepted i ro flags (the (role_string ro) # map nv_entry ps) fd (packets_answer ms) rest r \<and>
     closed_fds r = closed_fds r0 \<and> appStatus r = appStatus r0 \<and> (detached r \<longrightarrow> detached r0)"
proof -
  obtain str where str: "role_string ro = Some str" using req by (auto simp: peer_request_def)
  have bytes: "script_bytes rd = request_bytes i ro flags ms rest"
    and i: "0 < i" "i < 65536" and role: "role_string ro = Some str"
    and ms: "packets_ok 4 i ms" "packets_data ms = concat (map nv_bytes ps)" "\<forall>p \<in> set ps. nv_ok p"
    using req str by (simp_all add: peer_request_def)
  have idle: "libInitialized r0" "in_stream r0 = None" "ipcFd r0 = -1" "\<not> shutdownPending r0" "\<not> shutdownNow r0"
    using idle0 by (simp_all add: idle_def)
  define r1 where "r1 = FCGX_Free (\<not> keepConnection r0) r0"
  have r1: "FCGX_Finish_r r0 = Some r1" "ipcFd r1 = -1" "accept_events r1 = accept_events r0"
    "shutdownPending r1 = shutdownPending r0" "shutdownNow r1 = shutdownNow r0"
    "webServerAddressList r1 = webServerAddressList r0" "rq_flags r1 = rq_flags r0"
    using idle by (auto simp: FCGX_Finish_r_def r1_def FCGX_Free_def OS_IpcClose_def OS_Close_def Let_def)
  define r2 where "r2 = r1\<lparr>accept_events := es, rd_script := rd, wr_script := wr, sent := []\<rparr>\<lparr>ipcFd := fd\<rparr>"
  have acc: "OS_Accept inet_addr (rq_flags r1 AND FCGI_FAIL_ACCEPT_ON_INTR \<noteq> 0) (webServerAddressList r1) r1 =
      Some (fd, r1\<lparr>accept_events := es, rd_script := rd, wr_script := wr, sent := []\<rparr>)"
  proof (rule accept_loop_conn)
    show "case p of Unix_peer \<Rightarrow> data | Inet_peer a \<Rightarrow> ClientAddrOK inet_addr a (webServerAddressList r1) | Other_peer \<Rightarrow> True"
      using ev(3) unfolding r1(6) peer_ok_def .
  qed (use idle ev r1 in simp_all)
  have net: "net_ok r2" "out_ok r2" using idle(5) r1 ev(4) by (auto simp: r2_def net_ok_def out_ok_def chunks_ok_def)
  have ro: "0 \<le> ro" "ro < 65536"
    using role by (auto simp: role_string_def FCGI_RESPONDER_def FCGI_AUTHORIZER_def FCGI_FILTER_def split: if_splits)
  have wf: "frame_wf (begin_frame i ro flags (replicate 5 0) [] 0)" using i by (simp add: frame_wf_def begin_frame_def)
  have b2: "script_bytes (rd_script r2) = frame_bytes (begin_frame i ro flags (replicate 5 0) [] 0) @
       packets_bytes 4 i ms @ frame_bytes (end_frame 4 i [] 0) @ rest"
    using bytes by (simp add: r2_def request_bytes_def)
  obtain r3 s q where rr: "read_request mb r2 = Some (True, r3)" "in_stream r3 = Some s" "paramsPtr r3 = Some q"
    and q: "params_wf q" "params_list q = str # map nv_entry ps"
    and f3: "requestId r3 = int i" "role r3 = ro" "keepConnection r3 = (flags AND FCGI_KEEP_CONN \<noteq> 0)"
      "isBeginProcessed r3" "ipcFd r3 = ipcFd r2" "sent r3 = sent r2 @ packets_answer ms" "out_ok r3"
    and k3: "closed_fds r3 = closed_fds r2" "appStatus r3 = appStatus r2" "detached r3 = detached r2"
    and p3: "pend s r3 [] [] rest" "FCGI_errno s = 0"
    using read_request_ok [OF net wf _ i ro role b2 ms, of mb] by auto
  obtain s' where s': "SetReaderType s FCGI_STDIN = Some s'" "at_start 5 i s' r3 rest"
    using SetReaderType_start [OF p3 f3(7,4,1) i, of 5] by (auto simp: FCGI_STDIN_def)
  have rounds: "accept_rounds inet_addr mb (Suc (Suc (length (accept_events r1)))) r1 = Some (0, r3)"
    using acc r1(2) ev(2) rr(1) by (simp add: accept_rounds.simps(2) r2_def [symmetric])
  define r4 where "r4 = r3\<lparr>in_stream := Some s', out_stream := Some (NewWriter mo 8192 FCGI_STDOUT),
      err_stream := Some (NewWriter me 512 FCGI_STDERR), nWriters := 2, envp := vec q\<rparr>"
  have e: "FCGX_Accept_r inet_addr mb mo me r0 = Some (0, r4)"
    using idle(1) r1(1) rounds rr(2,3) s'(1) by (simp add: FCGX_Accept_r_def r4_def)
  have "at_start 5 i s' r4 rest" using s'(2)
    by (simp add: at_start_def r4_def net_ok_def out_ok_def raw_def)
  moreover have "\<exists>unused. vec q = map Some (str # map nv_entry ps) @ None # unused"
    using params_wf_envp [OF q(1)] q(2) by simp
  moreover have "writer_ok 6 (NewWriter mo 8192 FCGI_STDOUT)" "wrNext (NewWriter mo 8192 FCGI_STDOUT) = 8"
    "\<not> isAnythingWritten (NewWriter mo 8192 FCGI_STDOUT)"
    using NewWriter_ok [of 6 mo 8192] by (simp_all add: FCGI_STDOUT_def)
  moreover have "writer_ok 7 (NewWriter me 512 FCGI_STDERR)" "wrNext (NewWriter me 512 FCGI_STDERR) = 8"
    "\<not> isAnythingWritten (NewWriter me 512 FCGI_STDERR)"
    using NewWriter_ok [of 7 me 512] by (simp_all add: FCGI_STDERR_def)
  moreover have "closed_fds r4 = closed_fds r0" "appStatus r4 = appStatus r0" "detached r4 \<longrightarrow> detached r0"
    using k3 idle by (simp_all add: r4_def r2_def r1_def FCGX_Free_def OS_IpcClose_def OS_Close_def Let_def)
  ultimately show ?thesis using e f3 str by (auto simp: accepted_def r4_def r2_def)
qed

text \<open>
  C5. A request is accepted as it was sent.  A process without a connection accepts the next one,
  from an allowed peer; when what arrives on it, in chunks of any sizes, is a begin record of
  a known role, the environment \<open>ps\<close> in records interleaved with other packets that the reader can handle (\<open>packet_ok\<close>), and \<open>rest\<close>, then
  \<open>FCGX_Accept_r\<close> returns 0 and the request has that id, role and keep-connection flag,
  its environment is the role followed by the pairs in order and ends with NULL, its input stream
  is at the start of \<open>rest\<close> as STDIN, the two output streams are fresh, and the packets
  have been answered.
\<close>

theorem accept_request:
  assumes "idle r0" "accept_events r0 = Accept_conn fd p data rd wr # es" "0 \<le> fd"
    and "peer_ok inet_addr (webServerAddressList r0) p data" "chunks_ok rd wr"
    and "peer_request i ro flags ms ps rest (script_bytes rd)"
  shows "\<exists>r. FCGX_Accept_r inet_addr mb mo me r0 = Some (0, r) \<and>
     accepted i ro flags (the (role_string ro) # map nv_entry ps) fd (packets_answer ms) rest r"
  using Accept_r_ok [OF assms] by blast

definition sample_request :: "accept_event list \<Rightarrow> FCGX_Request" where
  "sample_request es =
     \<lparr>shutdownPending = False, shutdownNow = False, accept_events = es, closed_fds = [],
      rd_script = [], wr_script = [], sent = [], os_errno = 0, requestId = 0, role = 0, ipcFd = -1,
      isBeginProcessed = False, keepConnection = False, appStatus = 0, nWriters = 0,
      in_stream = None, out_stream = None, err_stream = None, envp = [], paramsPtr = None,
      rq_flags = 0, listen_sock = 0, detached = False, libInitialized = True, webServerAddressList = None\<rparr>"

definition sample_env :: "packet list" where
  "sample_env = [(Data (concat (map nv_bytes sample_pairs)), [0], 0), (Mgmt 50, [], 0)]"

lemma sample_env_ok:
  "packets_ok 4 1 sample_env" "packets_data sample_env = concat (map nv_bytes sample_pairs)"
  "\<forall>p \<in> set sample_pairs. nv_ok p"
  by (simp_all add: sample_env_def frame_wf_def sample_pairs_def nv_bytes_def len_bytes_def nv_ok_def)

definition sample_incoming :: "byte list" where
  "sample_incoming = request_bytes 1 1 1 sample_env [1, 5, 0, 1]"

lemma sample_incoming_request:
  "peer_request 1 1 1 sample_env sample_pairs [1, 5, 0, 1] sample_incoming"
  using sample_env_ok by (simp add: peer_request_def sample_incoming_def role_string_def FCGI_RESPONDER_def)

definition sample_conn_event :: accept_event where
  "sample_conn_event = Accept_conn 7 Unix_peer True [RData (take 13 sample_incoming), RData (drop 13 sample_incoming)] [WTake 2]"

lemma sample_incoming_chunks: "take 13 sample_incoming \<noteq> []" "drop 13 sample_incoming \<noteq> []"
  by (simp_all add: sample_incoming_def request_bytes_def frame_bytes_def frame_header_def begin_frame_def)

lemma accept_request_witness:
  "\<exists>r. FCGX_Accept_r (\<lambda>s. 0) 4100 8192 16384 (sample_request [sample_conn_event]) = Some (0, r) \<and>
     requestId r = 1 \<and> keepConnection r \<and>
     (\<exists>unused. envp r = map Some [ascii ''FCGI_ROLE=RESPONDER'', [65, 66, 61, 67], [88, 61]] @ None # unused)"
proof -
  let ?rd = "[RData (take 13 sample_incoming), RData (drop 13 sample_incoming)]"
  have 1: "idle (sample_request [sample_conn_event])" by (simp add: idle_def sample_request_def)
  have 2: "accept_events (sample_request [sample_conn_event]) = Accept_conn 7 Unix_peer True ?rd [WTake 2] # []"
    by (simp add: sample_request_def sample_conn_event_def)
  have 3: "peer_ok (\<lambda>s. 0) (webServerAddressList (sample_request [sample_conn_event])) Unix_peer True"
    by (simp add: peer_ok_def)
  have 4: "chunks_ok ?rd [WTake 2]" using sample_incoming_chunks by (simp add: chunks_ok_def)
  have 5: "peer_request 1 1 1 sample_env sample_pairs [1, 5, 0, 1] (script_bytes ?rd)"
    using sample_incoming_request by simp
  have 6: "map nv_entry sample_pairs = [[65, 66, 61, 67], [88, 61]]" by (simp add: sample_pairs_def nv_entry_def)
  have 7: "(1 :: byte) AND FCGI_KEEP_CONN \<noteq> 0" by (simp add: FCGI_KEEP_CONN_def)
  have 8: "role_string 1 = Some (ascii ''FCGI_ROLE=RESPONDER'')" by (simp add: role_string_def FCGI_RESPONDER_def)
  show ?thesis
    using accept_request [OF 1 2 _ 3 4 5, of 4100 8192 16384] 7
    unfolding accepted_def 6 8 option.sel by auto
qed

text \<open>
  The environment can be looked up.  For the vector an accept builds, \<open>FCGX_GetParam\<close> returns
  the value of the first pair with the given name, and NULL when there is none; names that are
  prefixes of each other are not confused.
\<close>

theorem get_param:
  assumes "\<forall>p \<in> set ps. 0 \<notin> set (nv_name p) \<and> 61 \<notin> set (nv_name p) \<and> 0 \<notin> set (nv_value p)"
    and "61 \<notin> set name"
  shows "FCGX_GetParam name (map Some (map nv_entry ps) @ None # unused) =
    map_of (map (\<lambda>p. (nv_name p, nv_value p)) ps) name"
  using assms(1)
proof (induction ps)
  case (Cons p ps)
  define e where "e = nv_name p @ 61 # nv_value p"
  have e: "takeWhile (\<lambda>b. b \<noteq> 0) (nv_entry p) = e"
    using Cons.prems unfolding nv_entry_def e_def by (auto simp: takeWhile_eq_all_conv)
  have "(take (length name) e = name \<and> length name < length e \<and> e ! length name = 61) \<longleftrightarrow> nv_name p = name"
  proof
    assume a: "take (length name) e = name \<and> length name < length e \<and> e ! length name = 61"
    have "length name = length (nv_name p)"
    proof (rule linorder_cases)
      assume "length name < length (nv_name p)"
      then have "nv_name p ! length name = 61" using a by (simp add: e_def nth_append)
      then show ?thesis using Cons.prems \<open>length name < _\<close> by (metis list.set_intros(1) nth_mem)
    next
      assume l: "length (nv_name p) < length name"
      then have "name ! length (nv_name p) = take (length name) e ! length (nv_name p)" using a by simp
      also have "\<dots> = e ! length (nv_name p)" using l by simp
      also have "\<dots> = 61" by (simp add: e_def)
      finally show ?thesis using assms(2) l by (metis nth_mem)
    qed
    then show "nv_name p = name" using a by (simp add: e_def)
  next
    assume "nv_name p = name"
    then show "take (length name) e = name \<and> length name < length e \<and> e ! length name = 61"
      by (auto simp: e_def)
  qed
  then show ?case using Cons e by (simp add: Let_def) (simp add: e_def)
qed simp

lemma get_param_witness:
  "FCGX_GetParam [88] (map Some (map nv_entry sample_pairs) @ None # []) = Some []"
  by (subst get_param) (simp_all add: sample_pairs_def)

end
