(* ===== verification/Fcgi_Serve.thy ===== *)
theory Fcgi_Serve
  imports Fcgi_Request
begin

text \<open>
  From the acceptance of a request to its end: a handler writes to the two output streams of the
  request in any order, and \<open>FCGX_Finish_r\<close> completes the response and closes the connection or keeps
  it.  \<open>serving_at\<close> is the invariant that relates the two buffers, the frames sent so far and what
  the handler has written.
\<close>

section \<open>A request is answered\<close>

text \<open>The output of a request's handler: writes on its two output streams, in any order.\<close>

datatype io_op = On_out out_op | On_err out_op

definition run_io_op :: "io_op \<Rightarrow> 'z FCGX_Request_scheme \<Rightarrow> 'z FCGX_Request_scheme option" where
  "run_io_op p r =
     (case p of
        On_out q \<Rightarrow> do { s \<leftarrow> out_stream r; (s, r) \<leftarrow> run_op EmptyBuffProc q s r; Some (r\<lparr>out_stream := Some s\<rparr>) }
      | On_err q \<Rightarrow> do { s \<leftarrow> err_stream r; (s, r) \<leftarrow> run_op EmptyBuffProc q s r; Some (r\<lparr>err_stream := Some s\<rparr>) })"

primrec run_io :: "io_op list \<Rightarrow> 'z FCGX_Request_scheme \<Rightarrow> 'z FCGX_Request_scheme option" where
  "run_io [] r = Some r"
| "run_io (p # ps) r = do { r \<leftarrow> run_io_op p r; run_io ps r }"

fun io_out :: "io_op \<Rightarrow> byte list" where
  "io_out (On_out q) = op_data q"
| "io_out (On_err q) = []"

fun io_err :: "io_op \<Rightarrow> byte list" where
  "io_err (On_err q) = op_data q"
| "io_err (On_out q) = []"

definition frames_bytes :: "frame list \<Rightarrow> byte list" where
  "frames_bytes fs = concat (map frame_bytes fs)"

definition frames_data :: "byte \<Rightarrow> frame list \<Rightarrow> byte list" where
  "frames_data ty fs = concat (map f_content (filter (\<lambda>f. f_type f = ty) fs))"

text \<open>A frame of one of the two output streams of request \<open>i\<close>.\<close>

definition response_frame :: "nat \<Rightarrow> frame \<Rightarrow> bool" where
  "response_frame i f \<longleftrightarrow> frame_wf f \<and> f_id f = i \<and> f_type f \<in> {6, 7} \<and> f_content f \<noteq> [] \<and>
     8 dvd length (frame_bytes f)"

definition request_kept :: "'z FCGX_Request_scheme \<Rightarrow>
    FCGX_Stream option \<times> bool \<times> int \<times> int \<times> int \<times> bool \<times> (int \<times> bool \<times> byte list) list" where
  "request_kept r = (in_stream r, keepConnection r, appStatus r, nWriters r, ipcFd r, detached r, closed_fds r)"

text \<open>
  The invariant while a response is written: \<open>fs\<close> are the frames sent since \<open>base\<close>, \<open>outd\<close> and \<open>errd\<close>
  what has been written to the two streams, \<open>k\<close> the part of the request that does not change.
\<close>

definition serving_at :: "nat \<Rightarrow> byte list \<Rightarrow> frame list \<Rightarrow> byte list \<Rightarrow> byte list \<Rightarrow> 'z FCGX_Request_scheme \<Rightarrow>
    FCGX_Stream \<Rightarrow> FCGX_Stream \<Rightarrow> bool" where
  "serving_at i base fs outd errd r out err \<longleftrightarrow>
     out_stream r = Some out \<and> err_stream r = Some err \<and>
     writer_at 6 i out r \<and> writer_at 7 i err r \<and>
     sent r = base @ frames_bytes fs \<and> (\<forall>f \<in> set fs. response_frame i f) \<and>
     frames_data 6 fs @ pending out = outd \<and> frames_data 7 fs @ pending err = errd \<and>
     (isAnythingWritten err \<longleftrightarrow> frames_data 7 fs \<noteq> [])"

lemma conn_kept_request:
  assumes "conn_kept c = conn_kept d"
  shows "request_kept c = request_kept d \<and> out_stream c = out_stream d \<and> err_stream c = err_stream d"
proof -
  have "in_stream (conn_kept c) = in_stream (conn_kept d)" "keepConnection (conn_kept c) = keepConnection (conn_kept d)"
    "appStatus (conn_kept c) = appStatus (conn_kept d)" "nWriters (conn_kept c) = nWriters (conn_kept d)"
    "ipcFd (conn_kept c) = ipcFd (conn_kept d)" "detached (conn_kept c) = detached (conn_kept d)"
    "closed_fds (conn_kept c) = closed_fds (conn_kept d)" "out_stream (conn_kept c) = out_stream (conn_kept d)"
    "err_stream (conn_kept c) = err_stream (conn_kept d)"
    unfolding assms by (rule refl)+
  then show ?thesis by (simp add: conn_kept_def request_kept_def)
qed

lemma frames_append [simp]:
  "frames_bytes (fs @ gs) = frames_bytes fs @ frames_bytes gs"
  "frames_data ty (fs @ gs) = frames_data ty fs @ frames_data ty gs"
  by (simp_all add: frames_bytes_def frames_data_def)

lemma frames_of_pieces [simp]:
  "frames_bytes (map (out_frame ty i) ds) = out_frames ty i ds"
  "frames_data ty (map (out_frame ty' i) ds) = (if ty = ty' then concat ds else [])"
  by (induction ds) (auto simp: frames_bytes_def frames_data_def out_frames_def out_frame_def)

lemma response_frames:
  assumes "ty \<in> {6, 7}" "i < 65536" "\<forall>d \<in> set ds. d \<noteq> [] \<and> length d \<le> 65528"
  shows "\<forall>f \<in> set (map (out_frame ty i) ds). response_frame i f"
proof
  fix f assume "f \<in> set (map (out_frame ty i) ds)"
  then obtain d where d: "f = out_frame ty i d" "d \<noteq> []" "length d \<le> 65528" using assms(3) by auto
  have "pad8 (length d) < 256" using pad8_less [of "length d"] by simp
  then have "frame_wf f" using d assms(2) by (simp add: frame_wf_def out_frame_def)
  moreover have "8 dvd length (frame_bytes f)" unfolding d(1) by (rule out_frame_aligned)
  moreover have "f_id f = i" "f_type f = ty" "f_content f = d" by (simp_all add: d(1) out_frame_def)
  ultimately show "response_frame i f" using assms(1) d(2) by (simp add: response_frame_def)
qed

text \<open>A step of one of the two writers.\<close>

lemma serving_out:
  assumes s: "serving_at i base fs outd errd r out err"
    and e: "writer_at 6 i s' r'" "sent r' = sent r @ out_frames 6 i ds" "concat ds @ pending s' = pending out @ bs"
      "\<forall>d \<in> set ds. d \<noteq> [] \<and> length d \<le> 65528" "conn_kept r' = conn_kept r"
  shows "serving_at i base (fs @ map (out_frame 6 i) ds) (outd @ bs) errd (r'\<lparr>out_stream := Some s'\<rparr>) s' err \<and>
     request_kept (r'\<lparr>out_stream := Some s'\<rparr>) = request_kept r"
proof -
  have k: "request_kept r' = request_kept r" "err_stream r' = err_stream r" using conn_kept_request [OF e(5)] by simp_all
  have "serving_at i base (fs @ map (out_frame 6 i) ds) (outd @ bs) errd (r'\<lparr>out_stream := Some s'\<rparr>) s' err"
    using s e k response_frames [of 6 i ds] conn_keptD [of r' "conn_kept r"] conn_keptD [of r "conn_kept r"]
    unfolding serving_at_def by (auto simp: writer_at_def out_ok_def)
  then show ?thesis using k by (simp add: request_kept_def)
qed

lemma serving_err:
  assumes s: "serving_at i base fs outd errd r out err"
    and e: "writer_at 7 i s' r'" "sent r' = sent r @ out_frames 7 i ds" "concat ds @ pending s' = pending err @ bs"
      "\<forall>d \<in> set ds. d \<noteq> [] \<and> length d \<le> 65528" "conn_kept r' = conn_kept r"
      "isAnythingWritten s' \<longleftrightarrow> isAnythingWritten err \<or> ds \<noteq> []"
  shows "serving_at i base (fs @ map (out_frame 7 i) ds) outd (errd @ bs) (r'\<lparr>err_stream := Some s'\<rparr>) out s' \<and>
     request_kept (r'\<lparr>err_stream := Some s'\<rparr>) = request_kept r"
proof -
  have k: "request_kept r' = request_kept r" "out_stream r' = out_stream r" using conn_kept_request [OF e(5)] by simp_all
  have ne: "concat ds = [] \<longleftrightarrow> ds = []" using e(4) by (cases ds) auto
  have "serving_at i base (fs @ map (out_frame 7 i) ds) outd (errd @ bs) (r'\<lparr>err_stream := Some s'\<rparr>) out s'"
    using s e k ne response_frames [of 7 i ds] conn_keptD [of r' "conn_kept r"] conn_keptD [of r "conn_kept r"]
    unfolding serving_at_def by (auto simp: writer_at_def out_ok_def)
  then show ?thesis using k by (simp add: request_kept_def)
qed

lemma run_io_op_serving:
  assumes s: "serving_at i base fs outd errd r out err"
  shows "\<exists>r' fs' out' err'. run_io_op p r = Some r' \<and> request_kept r' = request_kept r \<and>
     serving_at i base (fs @ fs') (outd @ io_out p) (errd @ io_err p) r' out' err'"
proof (cases p)
  case (On_out q)
  have w: "writer_at 6 i out r" using s by (simp add: serving_at_def)
  obtain s' r' ds where e: "run_op EmptyBuffProc q out r = Some (s', r')" "writer_at 6 i s' r'"
    "sent r' = sent r @ out_frames 6 i ds" "concat ds @ pending s' = pending out @ op_data q"
    "\<forall>d \<in> set ds. d \<noteq> [] \<and> length d \<le> 65528" "conn_kept r' = conn_kept r"
    using writer_op [OF w] by blast
  have "run_io_op p r = Some (r'\<lparr>out_stream := Some s'\<rparr>)" using e(1) s On_out by (simp add: run_io_op_def serving_at_def)
  then show ?thesis using serving_out [OF s e(2-6)] On_out by auto
next
  case (On_err q)
  have w: "writer_at 7 i err r" using s by (simp add: serving_at_def)
  obtain s' r' ds where e: "run_op EmptyBuffProc q err r = Some (s', r')" "writer_at 7 i s' r'"
    "sent r' = sent r @ out_frames 7 i ds" "concat ds @ pending s' = pending err @ op_data q"
    "\<forall>d \<in> set ds. d \<noteq> [] \<and> length d \<le> 65528" "conn_kept r' = conn_kept r"
    "isAnythingWritten s' \<longleftrightarrow> isAnythingWritten err \<or> ds \<noteq> []"
    using writer_op [OF w] by blast
  have "run_io_op p r = Some (r'\<lparr>err_stream := Some s'\<rparr>)" using e(1) s On_err by (simp add: run_io_op_def serving_at_def)
  then show ?thesis using serving_err [OF s e(2-7)] On_err by auto
qed

lemma run_io_serving:
  assumes "serving_at i base fs outd errd r out err"
  shows "\<exists>r' fs' out' err'. run_io ps r = Some r' \<and> request_kept r' = request_kept r \<and>
     serving_at i base (fs @ fs') (outd @ concat (map io_out ps)) (errd @ concat (map io_err ps)) r' out' err'"
  using assms
proof (induction ps arbitrary: fs outd errd r out err)
  case Nil
  then show ?case by (intro exI [of _ r] exI [of _ "[]"] exI [of _ out] exI [of _ err]) simp
next
  case (Cons p ps)
  obtain r1 fs1 out1 err1 where 1: "run_io_op p r = Some r1" "request_kept r1 = request_kept r"
    and s1: "serving_at i base (fs @ fs1) (outd @ io_out p) (errd @ io_err p) r1 out1 err1"
    using run_io_op_serving [OF Cons.prems] by blast
  obtain r2 fs2 out2 err2 where 2: "run_io ps r1 = Some r2" "request_kept r2 = request_kept r1"
    "serving_at i base ((fs @ fs1) @ fs2) ((outd @ io_out p) @ concat (map io_out ps))
       ((errd @ io_err p) @ concat (map io_err ps)) r2 out2 err2"
    using Cons.IH [OF s1] by blast
  show ?case using 1 2 by (intro exI [of _ r2] exI [of _ "fs1 @ fs2"] exI [of _ out2] exI [of _ err2]) simp
qed


text \<open>
  The response to request \<open>i\<close>: frames, the end of standard error if it was used, frames of
  standard output, its end, and the end of the request.
\<close>

definition response_bytes :: "nat \<Rightarrow> int \<Rightarrow> frame list \<Rightarrow> bool \<Rightarrow> frame list \<Rightarrow> byte list" where
  "response_bytes i status fs err_used gs =
     frames_bytes fs @ (if err_used then eof_bytes 7 i else []) @
     frames_bytes gs @ eof_bytes 6 i @ end_request_bytes i status"

lemma Finish_serving:
  assumes s1: "serving_at i base fs outd errd r1 out1 err1"
    and k1: "in_stream r1 = Some s" "FCGX_GetError s = 0" "nWriters r1 = 2" "0 \<le> ipcFd r1" "\<not> detached r1"
  shows "\<exists>r2 es gs. FCGX_Finish_r r1 = Some r2 \<and>
     (\<forall>f \<in> set (fs @ es @ gs). response_frame i f) \<and> (\<forall>f \<in> set gs. f_type f = 6) \<and>
     frames_data 6 (fs @ es @ gs) = outd \<and> frames_data 7 (fs @ es @ gs) = errd \<and>
     (let all = base @ response_bytes i (appStatus r1) (fs @ es) (errd \<noteq> []) gs
      in if keepConnection r1 then sent r2 = all \<and> closed_fds r2 = closed_fds r1 \<and> ipcFd r2 = ipcFd r1
         else closed_fds r2 = closed_fds r1 @ [(ipcFd r1, True, all)] \<and> ipcFd r2 = -1)"
proof -
  have w: "writer_at 7 i err1 r1" "writer_at 6 i out1 r1" "err_stream r1 = Some err1" "out_stream r1 = Some out1"
    using s1 by (simp_all add: serving_at_def)
  obtain err2 r2 es where c1: "FCGX_FClose EmptyBuffProc (Some err1) r1 = Some (0, Some err2, r2)"
    "pending err1 = concat es" "\<forall>d \<in> set es. d \<noteq> [] \<and> length d \<le> 65528"
    "sent r2 = sent r1 @ out_frames 7 i es @ close_bytes 7 i (isAnythingWritten err1 \<or> es \<noteq> []) (appStatus r1) (nWriters r1)"
    "conn_kept r2 = (conn_kept r1)\<lparr>nWriters := nWriters r1 - 1\<rparr>" "out_ok r2"
    using writer_at_FClose [OF w(1)] by blast
  have k2: "requestId r2 = int i" "nWriters r2 = 1" "appStatus r2 = appStatus r1"
    using conn_keptD [OF c1(5)] w(1) k1 by (simp_all add: conn_kept_def writer_at_def)
  have c1': "conn_kept r2 = conn_kept (r1\<lparr>nWriters := 1\<rparr>)" using c1(5) k1(3) by (simp add: conn_kept_def)
  define r2' where "r2' = r2\<lparr>err_stream := Some err2\<rparr>"
  have w2: "writer_at 6 i out1 r2'" using w(2) c1(6) k2 by (simp add: writer_at_def r2'_def out_ok_def)
  obtain out2 r3 os where c2: "FCGX_FClose EmptyBuffProc (Some out1) r2' = Some (0, Some out2, r3)"
    "pending out1 = concat os" "\<forall>d \<in> set os. d \<noteq> [] \<and> length d \<le> 65528"
    "sent r3 = sent r2' @ out_frames 6 i os @ close_bytes 6 i (isAnythingWritten out1 \<or> os \<noteq> []) (appStatus r2') (nWriters r2')"
    "conn_kept r3 = (conn_kept r2')\<lparr>nWriters := nWriters r2' - 1\<rparr>"
    using writer_at_FClose [OF w2] by blast
  define r3' where "r3' = r3\<lparr>out_stream := Some out2\<rparr>"
  have c2': "conn_kept r3 = conn_kept (r2'\<lparr>nWriters := nWriters r2' - 1\<rparr>)" using c2(5) by (simp add: conn_kept_def)
  have k3: "keepConnection r3' = keepConnection r1" "ipcFd r3' = ipcFd r1" "\<not> detached r3'" "closed_fds r3' = closed_fds r1"
    using conn_kept_request [OF c1'] conn_kept_request [OF c2'] k1
    by (simp_all add: r3'_def request_kept_def r2'_def)
  have out2: "out_stream r2' = Some out1" using conn_kept_request [OF c1'] w(4) by (simp add: r2'_def)
  have fin: "FCGX_Finish_r r1 = Some (FCGX_Free (\<not> keepConnection r1) r3')"
    using k1(1) w(3) c1(1) c2(1) out2 k3(1) k1(2) unfolding r2'_def r3'_def
    by (simp add: FCGX_Finish_r_def)
  define gs where "gs = map (out_frame 7 i) es"
  define hs where "hs = map (out_frame 6 i) os"
  have fs: "\<forall>f \<in> set fs. response_frame i f" "sent r1 = base @ frames_bytes fs"
    "frames_data 6 fs @ pending out1 = outd" "frames_data 7 fs @ pending err1 = errd"
    "isAnythingWritten err1 \<longleftrightarrow> frames_data 7 fs \<noteq> []"
    using s1 by (simp_all add: serving_at_def)
  have ne: "concat es = [] \<longleftrightarrow> es = []" using c1(3) by (cases es) auto
  have used: "isAnythingWritten err1 \<or> es \<noteq> [] \<longleftrightarrow> errd \<noteq> []"
    using fs(5) ne c1(2) fs(4) [symmetric] by auto
  have "i < 65536" using w(1) by (simp add: writer_at_def)
  have all: "sent r3' = base @ response_bytes i (appStatus r1) (fs @ gs) (errd \<noteq> []) hs"
    using c2(4) c1(4) fs(2) k2 k1(3) used
    by (simp add: r3'_def r2'_def close_bytes_def gs_def hs_def response_bytes_def)
  have "\<forall>f \<in> set (fs @ gs @ hs). response_frame i f"
    using fs(1) response_frames [of 7 i es] response_frames [of 6 i os] c1(3) c2(3) \<open>i < 65536\<close>
    unfolding gs_def hs_def by auto
  moreover have "\<forall>f \<in> set hs. f_type f = 6" by (auto simp: hs_def out_frame_def)
  moreover have "frames_data 6 (fs @ gs @ hs) = outd" using fs(3) c2(2) by (simp add: gs_def hs_def)
  moreover have "frames_data 7 (fs @ gs @ hs) = errd" using fs(4) c1(2) by (simp add: gs_def hs_def)
  ultimately show ?thesis using fin all k3 k1(4)
    by (intro exI [of _ "FCGX_Free (\<not> keepConnection r1) r3'"] exI [of _ gs] exI [of _ hs])
      (simp add: Let_def FCGX_Free_def OS_IpcClose_def OS_Close_def)
qed

lemma serving_start:
  assumes "out_stream r0 = Some out" "writer_ok 6 out" "wrNext out = 8"
    and "err_stream r0 = Some err" "writer_ok 7 err" "wrNext err = 8" "\<not> isAnythingWritten err"
    and "out_ok r0" "requestId r0 = int i" "i < 65536"
  shows "serving_at i (sent r0) [] [] [] r0 out err"
  using assms by (simp add: serving_at_def writer_at_def frames_bytes_def frames_data_def pending_def)

lemma run_io_Finish:
  assumes "serving_at i (sent r0) [] [] [] r0 out err"
    and k: "in_stream r0 = Some s" "FCGX_GetError s = 0" "nWriters r0 = 2" "0 \<le> ipcFd r0" "\<not> detached r0"
  shows "\<exists>r1 r2 fs gs. run_io ps r0 = Some r1 \<and> FCGX_Finish_r r1 = Some r2 \<and>
     (\<forall>f \<in> set (fs @ gs). response_frame i f) \<and> (\<forall>f \<in> set gs. f_type f = 6) \<and>
     frames_data 6 (fs @ gs) = concat (map io_out ps) \<and> frames_data 7 (fs @ gs) = concat (map io_err ps) \<and>
     (let all = sent r0 @ response_bytes i (appStatus r0) fs (concat (map io_err ps) \<noteq> []) gs
      in if keepConnection r0 then sent r2 = all \<and> closed_fds r2 = closed_fds r0 \<and> ipcFd r2 = ipcFd r0
         else closed_fds r2 = closed_fds r0 @ [(ipcFd r0, True, all)] \<and> ipcFd r2 = -1)"
proof -
  obtain r1 fs out1 err1 where 1: "run_io ps r0 = Some r1" "request_kept r1 = request_kept r0"
    and s1: "serving_at i (sent r0) fs (concat (map io_out ps)) (concat (map io_err ps)) r1 out1 err1"
    using run_io_serving [OF assms(1), of ps] by auto
  have k1: "in_stream r1 = in_stream r0" "keepConnection r1 = keepConnection r0" "appStatus r1 = appStatus r0"
    "nWriters r1 = nWriters r0" "ipcFd r1 = ipcFd r0" "detached r1 = detached r0" "closed_fds r1 = closed_fds r0"
    using 1(2) by (simp_all add: request_kept_def)
  have "in_stream r1 = Some s" "FCGX_GetError s = 0" "nWriters r1 = 2" "0 \<le> ipcFd r1" "\<not> detached r1"
    using k k1 by simp_all
  from Finish_serving [OF s1 this] obtain r2 es gs where 2: "FCGX_Finish_r r1 = Some r2"
    "\<forall>f \<in> set (fs @ es @ gs). response_frame i f" "\<forall>f \<in> set gs. f_type f = 6"
    "frames_data 6 (fs @ es @ gs) = concat (map io_out ps)" "frames_data 7 (fs @ es @ gs) = concat (map io_err ps)"
    "let all = sent r0 @ response_bytes i (appStatus r1) (fs @ es) (concat (map io_err ps) \<noteq> []) gs
     in if keepConnection r1 then sent r2 = all \<and> closed_fds r2 = closed_fds r1 \<and> ipcFd r2 = ipcFd r1
        else closed_fds r2 = closed_fds r1 @ [(ipcFd r1, True, all)] \<and> ipcFd r2 = -1"
    by blast
  show ?thesis using 1(1) 2 unfolding k1
    by (intro exI [of _ r1] exI [of _ r2] exI [of _ "fs @ es"] exI [of _ gs]) simp
qed

text \<open>
  C12. A request is answered in full.  After any sequence of writes and flushes on the two output
  streams, \<open>FCGX_Finish_r\<close> succeeds; what has been sent on the connection is a sequence of
  well-formed frames of the two streams whose contents are, stream by stream, exactly what was
  written, then the end of standard error (when it was used), the rest of standard output,
  its end, and the end-request record with the exit status, and nothing behind it.  The
  connection is closed, once and with an orderly shutdown, unless the peer asked to keep it, in
  which case nothing is closed.
\<close>

theorem finish_request:
  assumes "out_stream r0 = Some out" "writer_ok 6 out" "wrNext out = 8"
    and "err_stream r0 = Some err" "writer_ok 7 err" "wrNext err = 8" "\<not> isAnythingWritten err"
    and "out_ok r0" "requestId r0 = int i" "i < 65536"
    and "in_stream r0 = Some s" "FCGX_GetError s = 0" "nWriters r0 = 2" "0 \<le> ipcFd r0" "\<not> detached r0"
  shows "\<exists>r1 r2 fs gs. run_io ps r0 = Some r1 \<and> FCGX_Finish_r r1 = Some r2 \<and>
     (\<forall>f \<in> set (fs @ gs). response_frame i f) \<and> (\<forall>f \<in> set gs. f_type f = 6) \<and>
     frames_data 6 (fs @ gs) = concat (map io_out ps) \<and> frames_data 7 (fs @ gs) = concat (map io_err ps) \<and>
     (let all = sent r0 @ response_bytes i (appStatus r0) fs (concat (map io_err ps) \<noteq> []) gs
      in if keepConnection r0 then sent r2 = all \<and> closed_fds r2 = closed_fds r0 \<and> ipcFd r2 = ipcFd r0
         else closed_fds r2 = closed_fds r0 @ [(ipcFd r0, True, all)] \<and> ipcFd r2 = -1)"
  by (rule run_io_Finish [OF serving_start [OF assms(1-10)] assms(11-15)])

definition sample_serving :: "FCGX_Request" where
  "sample_serving = (sample_request [])\<lparr>in_stream := Some (NewReader 0 32 5), out_stream := Some (NewWriter 0 32 6),
     err_stream := Some (NewWriter 0 32 7), nWriters := 2, ipcFd := 7, requestId := 1, appStatus := 3\<rparr>"

lemma finish_request_witness:
  "\<exists>r1 r2 fs gs. run_io [On_out (Op_PutStr [72, 105]), On_err (Op_PutChar 33)] sample_serving = Some r1 \<and>
     FCGX_Finish_r r1 = Some r2 \<and> frames_data 6 (fs @ gs) = [72, 105] \<and> frames_data 7 (fs @ gs) = [33] \<and>
     closed_fds r2 = [(7, True, response_bytes 1 3 fs True gs)]"
proof -
  let ?o = "NewWriter 0 32 6" and ?e = "NewWriter 0 32 7" and ?i = "NewReader 0 32 5"
  have o: "writer_ok 6 ?o" "wrNext ?o = 8" using NewWriter_ok [of 6 0 32] by simp_all
  have e: "writer_ok 7 ?e" "wrNext ?e = 8" "\<not> isAnythingWritten ?e" using NewWriter_ok [of 7 0 32] by simp_all
  have i: "FCGX_GetError ?i = 0" by (simp add: FCGX_GetError_def NewReader_def NewStream_def Let_def)
  have r: "out_stream sample_serving = Some ?o" "err_stream sample_serving = Some ?e" "in_stream sample_serving = Some ?i"
    "out_ok sample_serving" "requestId sample_serving = int 1" "nWriters sample_serving = 2"
    "0 \<le> ipcFd sample_serving" "\<not> detached sample_serving"
    by (simp_all add: sample_serving_def sample_request_def out_ok_def)
  have c: "sent sample_serving = []" "closed_fds sample_serving = []" "keepConnection sample_serving = False"
    "ipcFd sample_serving = 7" "appStatus sample_serving = 3"
    by (simp_all add: sample_serving_def sample_request_def)
  show ?thesis
    using finish_request [OF r(1) o r(2) e r(4,5) _ r(3) i r(6,7,8), of "[On_out (Op_PutStr [72, 105]), On_err (Op_PutChar 33)]"]
    unfolding c by (auto simp: Let_def)
qed

end
