(* ===== verification/Multipart_Parser.thy ===== *)
theory Multipart_Parser
  imports Prelude
begin

text \<open>
  The incremental parser for multipart bodies, \<open>multipart-parser.c\<close>: a state machine that is
  fed the body in chunks and tells a client through callbacks what it has found.

  The client's data (\<open>p->data\<close>) is an argument of type \<open>'d\<close>; a callback gets it and the bytes it
  is called with, and returns its result code and the new data, or \<open>None\<close> when it aborts.  The
  loop over the chunk is \<open>mp_loop\<close>, with one definition for the code of each case.
\<close>

section \<open>The parser\<close>

datatype mp_state =
    s_uninitialized
  | s_start
  | s_start_boundary
  | s_header_field_start
  | s_header_field
  | s_headers_almost_done
  | s_header_value_start
  | s_header_value
  | s_header_value_almost_done
  | s_part_data_start
  | s_part_data
  | s_part_data_almost_boundary
  | s_part_data_boundary
  | s_part_data_almost_end
  | s_part_data_end
  | s_part_data_final_hyphen
  | s_end

text \<open>
  \<open>mem\<close> is the memory from \<open>multipart_boundary\<close> on: the boundary with its NUL, and behind it
  the bytes of \<open>lookbehind\<close>, to the end of the allocated block.  Where pointers have 8 bytes,
  \<open>multipart_boundary\<close> is at offset 48 of a structure of 56 bytes, 7 of which are padding: the block has
  \<open>8 + 2 * strlen(boundary) + 9\<close> bytes from there on.
\<close>

record mp_parser =
  mp_index :: nat
  boundary_length :: nat
  mp_state :: mp_state
  mem :: string

type_synonym 'd data_cb = "'d \<Rightarrow> string \<Rightarrow> (int \<times> 'd) option"
type_synonym 'd notify_cb = "'d \<Rightarrow> (int \<times> 'd) option"

record 'd mp_settings =
  on_header_field :: "'d data_cb option"
  on_header_value :: "'d data_cb option"
  on_part_data :: "'d data_cb option"
  on_part_data_begin :: "'d notify_cb option"
  on_headers_complete :: "'d notify_cb option"
  on_part_data_end :: "'d notify_cb option"
  on_body_end :: "'d notify_cb option"

definition multipart_parser_init :: "string \<Rightarrow> mp_parser" where
  "multipart_parser_init boundary =
     (let b = cstr boundary
      in \<lparr>mp_index = 0, boundary_length = length b, mp_state = s_start,
          mem = b @ NUL # replicate (length b + 16) NUL\<rparr>)"

definition lookbehind :: "mp_parser \<Rightarrow> nat" where
  "lookbehind p = boundary_length p + 1"

text \<open>One byte of \<open>mem\<close>.\<close>

definition mem_at :: "mp_parser \<Rightarrow> nat \<Rightarrow> char option" where
  "mem_at p i = (if i < length (mem p) then Some (mem p ! i) else None)"

definition mem_set :: "mp_parser \<Rightarrow> nat \<Rightarrow> char \<Rightarrow> mp_parser option" where
  "mem_set p i c = (if i < length (mem p) then Some (p\<lparr>mem := (mem p)[i := c]\<rparr>) else None)"

section \<open>Callbacks\<close>

text \<open>\<open>NOTIFY_CB\<close> and \<open>EMIT_DATA_CB\<close>: \<open>False\<close> is the \<open>return i\<close>.\<close>

definition NOTIFY_CB :: "'d notify_cb option \<Rightarrow> 'd \<Rightarrow> (bool \<times> 'd) option" where
  "NOTIFY_CB cb d =
     (case cb of None \<Rightarrow> Some (True, d)
      | Some f \<Rightarrow> do { (rc, d) \<leftarrow> f d; Some (rc = 0, d) })"

definition EMIT_DATA_CB :: "'d data_cb option \<Rightarrow> 'd \<Rightarrow> string \<Rightarrow> (bool \<times> 'd) option" where
  "EMIT_DATA_CB cb d bytes =
     (case cb of None \<Rightarrow> Some (True, d)
      | Some f \<Rightarrow> do { (rc, d) \<leftarrow> f d bytes; Some (rc = 0, d) })"

text \<open>The bytes of the chunk from \<open>mark\<close> to before \<open>i\<close>.\<close>

definition slice :: "string \<Rightarrow> nat \<Rightarrow> nat \<Rightarrow> string" where
  "slice buf mark i = take (i - mark) (drop mark buf)"

section \<open>The cases of the machine\<close>

text \<open>
  What a case does with the loop: return from \<open>multipart_parser_execute\<close> with a count, or go on
  with an index and a mark.
\<close>

datatype mp_out = Return nat | Go nat nat

type_synonym 'd mp_result = "(mp_out \<times> mp_parser \<times> 'd) option"

definition start_boundary ::
  "'d mp_settings \<Rightarrow> char \<Rightarrow> nat \<Rightarrow> nat \<Rightarrow> mp_parser \<Rightarrow> 'd \<Rightarrow> 'd mp_result" where
  "start_boundary st c i mark p d =
     (if mp_index p = boundary_length p then
        (if c \<noteq> CR then Some (Return i, p, d)
         else Some (Go (i + 1) mark, p\<lparr>mp_index := mp_index p + 1\<rparr>, d))
      else if mp_index p = boundary_length p + 1 then
        (if c \<noteq> LF then Some (Return i, p, d)
         else do {
           let p = p\<lparr>mp_index := 0\<rparr>;
           (ok, d) \<leftarrow> NOTIFY_CB (on_part_data_begin st) d;
           if ok then Some (Go (i + 1) mark, p\<lparr>mp_state := s_header_field_start\<rparr>, d)
           else Some (Return i, p, d)
         })
      else do {
        b \<leftarrow> mem_at p (mp_index p);
        if c \<noteq> b then Some (Return i, p, d)
        else Some (Go (i + 1) mark, p\<lparr>mp_index := mp_index p + 1\<rparr>, d)
      })"

definition header_char :: "char \<Rightarrow> bool" where
  "header_char c \<longleftrightarrow>
     c = CHR ''-'' \<or>
     \<not> (of_char (tolower c) < (of_char CHR ''a'' :: nat) \<or> (of_char CHR ''z'' :: nat) < of_char (tolower c))"

definition header_field ::
  "'d mp_settings \<Rightarrow> string \<Rightarrow> char \<Rightarrow> nat \<Rightarrow> nat \<Rightarrow> mp_parser \<Rightarrow> 'd \<Rightarrow> 'd mp_result" where
  "header_field st buf c i mark p d =
     (if c = CR then Some (Go (i + 1) mark, p\<lparr>mp_state := s_headers_almost_done\<rparr>, d)
      else if c = CHR '':'' then do {
        (ok, d) \<leftarrow> EMIT_DATA_CB (on_header_field st) d (slice buf mark i);
        if ok then Some (Go (i + 1) mark, p\<lparr>mp_state := s_header_value_start\<rparr>, d)
        else Some (Return i, p, d)
      }
      else if \<not> header_char c then Some (Return i, p, d)
      else if i + 1 = length buf then do {
        (ok, d) \<leftarrow> EMIT_DATA_CB (on_header_field st) d (slice buf mark (i + 1));
        if ok then Some (Go (i + 1) mark, p, d) else Some (Return i, p, d)
      }
      else Some (Go (i + 1) mark, p, d))"

definition header_value ::
  "'d mp_settings \<Rightarrow> string \<Rightarrow> char \<Rightarrow> nat \<Rightarrow> nat \<Rightarrow> mp_parser \<Rightarrow> 'd \<Rightarrow> 'd mp_result" where
  "header_value st buf c i mark p d =
     (if c = CR then do {
        (ok, d) \<leftarrow> EMIT_DATA_CB (on_header_value st) d (slice buf mark i);
        if ok then Some (Go (i + 1) mark, p\<lparr>mp_state := s_header_value_almost_done\<rparr>, d)
        else Some (Return i, p, d)
      }
      else if i + 1 = length buf then do {
        (ok, d) \<leftarrow> EMIT_DATA_CB (on_header_value st) d (slice buf mark (i + 1));
        if ok then Some (Go (i + 1) mark, p, d) else Some (Return i, p, d)
      }
      else Some (Go (i + 1) mark, p, d))"

definition part_data ::
  "'d mp_settings \<Rightarrow> string \<Rightarrow> char \<Rightarrow> nat \<Rightarrow> nat \<Rightarrow> mp_parser \<Rightarrow> 'd \<Rightarrow> 'd mp_result" where
  "part_data st buf c i mark p d =
     (if c = CR then do {
        (ok, d) \<leftarrow> EMIT_DATA_CB (on_part_data st) d (slice buf mark i);
        if ok then do {
          p \<leftarrow> mem_set (p\<lparr>mp_state := s_part_data_almost_boundary\<rparr>) (lookbehind p) CR;
          Some (Go (i + 1) i, p, d)
        } else Some (Return i, p, d)
      }
      else if i + 1 = length buf then do {
        (ok, d) \<leftarrow> EMIT_DATA_CB (on_part_data st) d (slice buf mark (i + 1));
        if ok then Some (Go (i + 1) mark, p, d) else Some (Return i, p, d)
      }
      else Some (Go (i + 1) mark, p, d))"

text \<open>
  A mismatch puts the bytes that were held back into the data and has the byte looked at
  again: \<open>mark = i --\<close>, and the end of the loop adds 1.
\<close>

definition almost_boundary ::
  "'d mp_settings \<Rightarrow> char \<Rightarrow> nat \<Rightarrow> nat \<Rightarrow> mp_parser \<Rightarrow> 'd \<Rightarrow> 'd mp_result" where
  "almost_boundary st c i mark p d =
     (if c = LF then do {
        p \<leftarrow> mem_set (p\<lparr>mp_state := s_part_data_boundary\<rparr>) (lookbehind p + 1) LF;
        Some (Go (i + 1) mark, p\<lparr>mp_index := 0\<rparr>, d)
      }
      else do {
        bs \<leftarrow> buf_read (lookbehind p) 1 (mem p);
        (ok, d) \<leftarrow> EMIT_DATA_CB (on_part_data st) d bs;
        if ok then Some (Go i i, p\<lparr>mp_state := s_part_data\<rparr>, d) else Some (Return i, p, d)
      })"

definition data_boundary ::
  "'d mp_settings \<Rightarrow> char \<Rightarrow> nat \<Rightarrow> nat \<Rightarrow> mp_parser \<Rightarrow> 'd \<Rightarrow> 'd mp_result" where
  "data_boundary st c i mark p d = do {
     b \<leftarrow> mem_at p (mp_index p);
     if b \<noteq> c then do {
       bs \<leftarrow> buf_read (lookbehind p) (2 + mp_index p) (mem p);
       (ok, d) \<leftarrow> EMIT_DATA_CB (on_part_data st) d bs;
       if ok then Some (Go i i, p\<lparr>mp_state := s_part_data\<rparr>, d) else Some (Return i, p, d)
     }
     else do {
       p \<leftarrow> mem_set p (lookbehind p + 2 + mp_index p) c;
       let p = p\<lparr>mp_index := mp_index p + 1\<rparr>;
       if mp_index p = boundary_length p then do {
         (ok, d) \<leftarrow> NOTIFY_CB (on_part_data_end st) d;
         if ok then Some (Go (i + 1) mark, p\<lparr>mp_state := s_part_data_almost_end\<rparr>, d)
         else Some (Return i, p, d)
       }
       else Some (Go (i + 1) mark, p, d)
     }
   }"

text \<open>The \<open>switch\<close>, with the cases that fall through.\<close>

definition mp_step ::
  "'d mp_settings \<Rightarrow> string \<Rightarrow> char \<Rightarrow> nat \<Rightarrow> nat \<Rightarrow> mp_parser \<Rightarrow> 'd \<Rightarrow> 'd mp_result" where
  "mp_step st buf c i mark p d =
     (case mp_state p of
        s_start \<Rightarrow> start_boundary st c i mark (p\<lparr>mp_index := 0, mp_state := s_start_boundary\<rparr>) d
      | s_start_boundary \<Rightarrow> start_boundary st c i mark p d
      | s_header_field_start \<Rightarrow> header_field st buf c i i (p\<lparr>mp_state := s_header_field\<rparr>) d
      | s_header_field \<Rightarrow> header_field st buf c i mark p d
      | s_headers_almost_done \<Rightarrow>
          (if c \<noteq> LF then Some (Return i, p, d)
           else Some (Go (i + 1) mark, p\<lparr>mp_state := s_part_data_start\<rparr>, d))
      | s_header_value_start \<Rightarrow>
          (if c = CHR '' '' then Some (Go (i + 1) mark, p, d)
           else header_value st buf c i i (p\<lparr>mp_state := s_header_value\<rparr>) d)
      | s_header_value \<Rightarrow> header_value st buf c i mark p d
      | s_header_value_almost_done \<Rightarrow>
          (if c \<noteq> LF then Some (Return i, p, d)
           else Some (Go (i + 1) mark, p\<lparr>mp_state := s_header_field_start\<rparr>, d))
      | s_part_data_start \<Rightarrow> do {
          (ok, d) \<leftarrow> NOTIFY_CB (on_headers_complete st) d;
          if ok then part_data st buf c i i (p\<lparr>mp_state := s_part_data\<rparr>) d
          else Some (Return i, p, d)
        }
      | s_part_data \<Rightarrow> part_data st buf c i mark p d
      | s_part_data_almost_boundary \<Rightarrow> almost_boundary st c i mark p d
      | s_part_data_boundary \<Rightarrow> data_boundary st c i mark p d
      | s_part_data_almost_end \<Rightarrow>
          (if c = CHR ''-'' then Some (Go (i + 1) mark, p\<lparr>mp_state := s_part_data_final_hyphen\<rparr>, d)
           else if c = CR then Some (Go (i + 1) mark, p\<lparr>mp_state := s_part_data_end\<rparr>, d)
           else Some (Return i, p, d))
      | s_part_data_final_hyphen \<Rightarrow>
          (if c = CHR ''-'' then do {
             (ok, d) \<leftarrow> NOTIFY_CB (on_body_end st) d;
             if ok then Some (Go (i + 1) mark, p\<lparr>mp_state := s_end\<rparr>, d) else Some (Return i, p, d)
           } else Some (Return i, p, d))
      | s_part_data_end \<Rightarrow>
          (if c = LF then do {
             let p = p\<lparr>mp_state := s_header_field_start\<rparr>;
             (ok, d) \<leftarrow> NOTIFY_CB (on_part_data_begin st) d;
             if ok then Some (Go (i + 1) mark, p, d) else Some (Return i, p, d)
           } else Some (Return i, p, d))
      | s_end \<Rightarrow> Some (Go (i + 1) mark, p, d)
      | s_uninitialized \<Rightarrow> Some (Return 0, p, d))"

section \<open>The loop over a chunk\<close>

text \<open>
  Every second round moves on by a byte (lemma \<open>mp_step_again\<close>), so twice the length of the
  chunk is enough fuel.
\<close>

primrec mp_loop ::
  "'d mp_settings \<Rightarrow> string \<Rightarrow> nat \<Rightarrow> nat \<Rightarrow> nat \<Rightarrow> mp_parser \<Rightarrow> 'd \<Rightarrow>
   (nat \<times> mp_parser \<times> 'd) option" where
  "mp_loop st buf 0 i mark p d = None"
| "mp_loop st buf (Suc fuel) i mark p d =
     (if i < length buf then do {
        (out, p, d) \<leftarrow> mp_step st buf (buf ! i) i mark p d;
        case out of Return n \<Rightarrow> Some (n, p, d) | Go j m \<Rightarrow> mp_loop st buf fuel j m p d
      }
      else Some (length buf, p, d))"

definition multipart_parser_execute ::
  "'d mp_settings \<Rightarrow> string \<Rightarrow> mp_parser \<Rightarrow> 'd \<Rightarrow> (nat \<times> mp_parser \<times> 'd) option" where
  "multipart_parser_execute st buf p d = mp_loop st buf (Suc (2 * length buf)) 0 0 p d"

section \<open>Feeding the parser byte by byte\<close>

text \<open>
  \<open>feed\<close> hands the bytes of the body over one at a time and succeeds when every one is
  consumed.  It asks for two things more: a line of the header that has a name also has its
  colon (the parser hands the piece of a name over at the end of a chunk, before it knows), and
  a NUL stands only where the client takes one, since the client keeps C strings.
\<close>

definition nul_ok :: "'d mp_settings \<Rightarrow> ('d \<Rightarrow> bool) \<Rightarrow> mp_parser \<Rightarrow> 'd \<Rightarrow> bool" where
  "nul_ok st takes_nul p d \<longleftrightarrow>
     (case mp_state p of
        s_part_data_start \<Rightarrow> (case NOTIFY_CB (on_headers_complete st) d of None \<Rightarrow> False | Some (_, d) \<Rightarrow> takes_nul d)
      | s_part_data \<Rightarrow> takes_nul d
      | s_part_data_almost_boundary \<Rightarrow> takes_nul d
      | s_part_data_boundary \<Rightarrow> takes_nul d
      | _ \<Rightarrow> False)"

definition feed_ok :: "'d mp_settings \<Rightarrow> ('d \<Rightarrow> bool) \<Rightarrow> mp_parser \<Rightarrow> 'd \<Rightarrow> char \<Rightarrow> bool" where
  "feed_ok st takes_nul p d c \<longleftrightarrow>
     \<not> (mp_state p = s_header_field \<and> c = CR) \<and> (c \<noteq> NUL \<or> nul_ok st takes_nul p d)"

definition feed_byte ::
  "'d mp_settings \<Rightarrow> ('d \<Rightarrow> bool) \<Rightarrow> mp_parser \<Rightarrow> 'd \<Rightarrow> char \<Rightarrow> (mp_parser \<times> 'd) option" where
  "feed_byte st takes_nul p d c =
     (if feed_ok st takes_nul p d c then do {
        (n, p, d) \<leftarrow> multipart_parser_execute st [c] p d;
        if n = 1 then Some (p, d) else None
      } else None)"

primrec feed ::
  "'d mp_settings \<Rightarrow> ('d \<Rightarrow> bool) \<Rightarrow> string \<Rightarrow> mp_parser \<Rightarrow> 'd \<Rightarrow> (mp_parser \<times> 'd) option" where
  "feed st takes_nul [] p d = Some (p, d)"
| "feed st takes_nul (c # cs) p d = do {
     (p, d) \<leftarrow> feed_byte st takes_nul p d c;
     feed st takes_nul cs p d
   }"

lemma feed_append:
  "feed st tn (xs @ ys) p d = do { (p, d) \<leftarrow> feed st tn xs p d; feed st tn ys p d }"
  by (induction xs arbitrary: p d) (auto split: Option.bind_splits)

section \<open>Rounds of the loop\<close>

lemmas mp_cases = start_boundary_def header_field_def header_value_def part_data_def
  almost_boundary_def data_boundary_def

lemma mem_set_SomeD: "mem_set p i c = Some p' \<Longrightarrow> i < length (mem p) \<and> p' = p\<lparr>mem := (mem p)[i := c]\<rparr>"
  by (auto simp: mem_set_def split: if_splits)

text \<open>A round that does not move on goes to the data, where a round always moves on.\<close>

lemma mp_step_again:
  "mp_step st buf c i mark p d = Some (Go j m, p', d') \<Longrightarrow>
   j = i + 1 \<or> (j = i \<and> m = i \<and> mp_state p \<in> {s_part_data_almost_boundary, s_part_data_boundary} \<and>
     mp_state p' = s_part_data)"
  by (cases "mp_state p")
     (auto simp: mp_step_def mp_cases Let_def bind_eq_Some_conv dest!: mem_set_SomeD split: if_splits)

lemma mp_step_data:
  "mp_step st buf c i mark p d = Some (Go j m, p', d') \<Longrightarrow> mp_state p = s_part_data \<Longrightarrow> j = i + 1"
  using mp_step_again by fastforce

lemma slice_self [simp]: "slice buf i i = []"
  by (simp add: slice_def)

lemma slice_Suc: "m \<le> i \<Longrightarrow> i < length buf \<Longrightarrow> slice buf m (Suc i) = slice buf m i @ [buf ! i]"
  by (simp add: slice_def Suc_diff_le take_Suc_conv_app_nth)

lemma slice_Suc_self [simp]: "i < length buf \<Longrightarrow> slice buf i (Suc i) = [buf ! i]"
  using slice_Suc [of i i buf] by simp

lemma slice_byte [simp]: "slice [c] 0 (Suc 0) = [c]"
  by (simp add: slice_def)

lemma mp_step_return: "mp_step st buf c i mark p d = Some (Return n, p', d') \<Longrightarrow> n \<le> i"
  by (cases "mp_state p")
     (auto simp: mp_step_def mp_cases Let_def bind_eq_Some_conv split: if_splits)

lemma execute_byte:
  assumes "multipart_parser_execute st [c] p d = Some (1, p', d')"
  obtains (one) m where "mp_step st [c] c 0 0 p d = Some (Go 1 m, p', d')"
  | (two) p1 d1 m where "mp_step st [c] c 0 0 p d = Some (Go 0 0, p1, d1)" "mp_state p1 = s_part_data"
      "mp_step st [c] c 0 0 p1 d1 = Some (Go 1 m, p', d')"
proof -
  have l: "mp_loop st [c] (Suc (Suc (Suc 0))) 0 0 p d = Some (1, p', d')"
    using assms by (simp add: multipart_parser_execute_def numeral_3_eq_3)
  then obtain out p1 d1 where s: "mp_step st [c] c 0 0 p d = Some (out, p1, d1)"
    by (auto simp: bind_eq_Some_conv)
  show thesis
  proof (cases out)
    case (Return n)
    then show ?thesis using l s mp_step_return [of st "[c]" c 0 0 p d n] by auto
  next
    case (Go j m)
    from mp_step_again [OF s [unfolded Go]] consider "j = 1" | "j = 0" "m = 0" "mp_state p1 = s_part_data" by auto
    then show ?thesis
    proof cases
      case 1
      then show ?thesis using l s Go one by auto
    next
      case 2
      with l s Go have l2: "mp_loop st [c] (Suc (Suc 0)) 0 0 p1 d1 = Some (1, p', d')" by auto
      then obtain out2 p2 d2 where s2: "mp_step st [c] c 0 0 p1 d1 = Some (out2, p2, d2)"
        by (auto simp: bind_eq_Some_conv)
      show ?thesis
      proof (cases out2)
        case (Return n)
        then show ?thesis using l2 s2 mp_step_return [of st "[c]" c 0 0 p1 d1 n] by auto
      next
        case (Go j2 m2)
        with mp_step_data [OF s2 [unfolded Go] 2(3)] show ?thesis
          using l2 s2 s \<open>out = Go j m\<close> 2 two by auto
      qed
    qed
  qed
qed

section \<open>Chunks do not matter\<close>

text \<open>
  What a client has to guarantee so that the division of the body into chunks makes no
  difference: being called with two pieces of a token leaves it where being called with the whole
  of them does.
\<close>

definition emits :: "'d data_cb option \<Rightarrow> 'd \<Rightarrow> string \<Rightarrow> 'd \<Rightarrow> bool" where
  "emits cb d bytes d' \<longleftrightarrow> EMIT_DATA_CB cb d bytes = Some (True, d')"

locale mp_client =
  fixes st :: "'d mp_settings" and takes_nul :: "'d \<Rightarrow> bool"
  assumes field_join: "emits (on_header_field st) d a d1 \<Longrightarrow> emits (on_header_field st) d1 b d2 \<Longrightarrow>
      NUL \<notin> set (a @ b) \<Longrightarrow> emits (on_header_field st) d (a @ b) d2"
    and value_join: "emits (on_header_value st) d a d1 \<Longrightarrow> emits (on_header_value st) d1 b d2 \<Longrightarrow>
      NUL \<notin> set (a @ b) \<Longrightarrow> emits (on_header_value st) d (a @ b) d2"
    and data_join: "emits (on_part_data st) d a d1 \<Longrightarrow> emits (on_part_data st) d1 b d2 \<Longrightarrow>
      takes_nul d \<or> NUL \<notin> set (a @ b) \<Longrightarrow> emits (on_part_data st) d (a @ b) d2"
    and takes_nul_kept: "emits (on_part_data st) d a d1 \<Longrightarrow> takes_nul d1 = takes_nul d"
begin

text \<open>The client that gets the bytes one by one is ahead by what has not been handed over.\<close>

definition ahead :: "'d data_cb option \<Rightarrow> 'd \<Rightarrow> string \<Rightarrow> 'd \<Rightarrow> bool" where
  "ahead cb d x db \<longleftrightarrow> (if x = [] then d = db else emits cb d x db)"

definition chunk_rel :: "string \<Rightarrow> nat \<Rightarrow> nat \<Rightarrow> mp_parser \<Rightarrow> 'd \<Rightarrow> 'd \<Rightarrow> bool" where
  "chunk_rel buf i m p d db \<longleftrightarrow> m \<le> i \<and>
     (case mp_state p of
        s_header_field \<Rightarrow> ahead (on_header_field st) d (slice buf m i) db \<and> NUL \<notin> set (slice buf m i)
      | s_header_value \<Rightarrow> ahead (on_header_value st) d (slice buf m i) db \<and> NUL \<notin> set (slice buf m i)
      | s_part_data \<Rightarrow> ahead (on_part_data st) d (slice buf m i) db \<and>
          (takes_nul d \<or> NUL \<notin> set (slice buf m i))
      | _ \<Rightarrow> d = db)"

definition chunk_next :: "string \<Rightarrow> nat \<Rightarrow> nat \<Rightarrow> mp_parser \<Rightarrow> 'd \<Rightarrow> 'd \<Rightarrow> bool" where
  "chunk_next buf i m p d db \<longleftrightarrow> (if i = length buf then d = db else chunk_rel buf i m p d db)"

lemma ahead_field:
  "ahead (on_header_field st) d x db \<Longrightarrow> emits (on_header_field st) db y db' \<Longrightarrow> NUL \<notin> set (x @ y) \<Longrightarrow>
   emits (on_header_field st) d (x @ y) db'"
  using field_join by (auto simp: ahead_def split: if_splits)

lemma ahead_value:
  "ahead (on_header_value st) d x db \<Longrightarrow> emits (on_header_value st) db y db' \<Longrightarrow> NUL \<notin> set (x @ y) \<Longrightarrow>
   emits (on_header_value st) d (x @ y) db'"
  using value_join by (auto simp: ahead_def split: if_splits)

lemma ahead_data:
  "ahead (on_part_data st) d x db \<Longrightarrow> emits (on_part_data st) db y db' \<Longrightarrow>
   takes_nul d \<or> NUL \<notin> set (x @ y) \<Longrightarrow> emits (on_part_data st) d (x @ y) db'"
  using data_join by (auto simp: ahead_def split: if_splits)

text \<open>What the last byte of a slice does in the two runs.\<close>

lemma chunk_nextI:
  "m \<le> i \<Longrightarrow> (Suc i = length buf \<Longrightarrow> d = db) \<Longrightarrow> (Suc i \<noteq> length buf \<Longrightarrow> chunk_rel buf (Suc i) m p d db) \<Longrightarrow>
   chunk_next buf (Suc i) m p d db"
  by (simp add: chunk_next_def)

lemma header_field_sim:
  assumes b: "header_field st [c] c 0 0 p db = Some (Go k m', p1, db1)" and p: "mp_state p = s_header_field"
    and a: "ahead (on_header_field st) d (slice buf m i) db" and i: "m \<le> i" "i < length buf" "buf ! i = c"
    and n: "NUL \<notin> set (slice buf m i)" "c \<noteq> NUL" and cr: "c = CR \<Longrightarrow> d = db"
  shows "\<exists>d1. header_field st buf c i m p d = Some (Go (Suc i) m, p1, d1) \<and> chunk_next buf (Suc i) m p1 d1 db1"
proof -
  have s: "slice buf m (Suc i) = slice buf m i @ [c]" using i by (simp add: slice_Suc)
  consider (cr) "c = CR" | (colon) "c = CHR '':''" "c \<noteq> CR" | (letter) "c \<noteq> CR" "c \<noteq> CHR '':''" "header_char c"
    using b by (force simp: header_field_def split: if_splits)
  then show ?thesis
  proof cases
    case cr
    then show ?thesis using b assms(9) i by (auto simp: header_field_def chunk_next_def chunk_rel_def)
  next
    case colon
    with b have e: "emits (on_header_field st) db [] db1" and p1: "p1 = p\<lparr>mp_state := s_header_value_start\<rparr>"
      by (auto simp: header_field_def emits_def bind_eq_Some_conv split: if_splits)
    from ahead_field [OF a e] n have "emits (on_header_field st) d (slice buf m i) db1" by simp
    then show ?thesis using colon i p1 by (auto simp: header_field_def emits_def chunk_next_def chunk_rel_def)
  next
    case letter
    with b have e: "emits (on_header_field st) db [c] db1" and p1: "p1 = p"
      by (auto simp: header_field_def emits_def bind_eq_Some_conv split: if_splits)
    from ahead_field [OF a e] n have e': "emits (on_header_field st) d (slice buf m i @ [c]) db1" by simp
    then show ?thesis using letter i p p1 n s
      by (auto simp: header_field_def emits_def chunk_next_def chunk_rel_def ahead_def)
  qed
qed

lemma header_value_sim:
  assumes b: "header_value st [c] c 0 0 p db = Some (Go k m', p1, db1)" and p: "mp_state p = s_header_value"
    and a: "ahead (on_header_value st) d (slice buf m i) db" and i: "m \<le> i" "i < length buf" "buf ! i = c"
    and n: "NUL \<notin> set (slice buf m i)" "c \<noteq> NUL"
  shows "\<exists>d1. header_value st buf c i m p d = Some (Go (Suc i) m, p1, d1) \<and> chunk_next buf (Suc i) m p1 d1 db1"
proof -
  have s: "slice buf m (Suc i) = slice buf m i @ [c]" using i by (simp add: slice_Suc)
  show ?thesis
  proof (cases "c = CR")
    case True
    with b have e: "emits (on_header_value st) db [] db1" and p1: "p1 = p\<lparr>mp_state := s_header_value_almost_done\<rparr>"
      by (auto simp: header_value_def emits_def bind_eq_Some_conv split: if_splits)
    from ahead_value [OF a e] n have "emits (on_header_value st) d (slice buf m i) db1" by simp
    then show ?thesis using True i p1 by (auto simp: header_value_def emits_def chunk_next_def chunk_rel_def)
  next
    case False
    with b have e: "emits (on_header_value st) db [c] db1" and p1: "p1 = p"
      by (auto simp: header_value_def emits_def bind_eq_Some_conv split: if_splits)
    from ahead_value [OF a e] n have e': "emits (on_header_value st) d (slice buf m i @ [c]) db1" by simp
    then show ?thesis using False i p p1 n s
      by (auto simp: header_value_def emits_def chunk_next_def chunk_rel_def ahead_def)
  qed
qed

lemma part_data_sim:
  assumes b: "part_data st [c] c 0 0 p db = Some (Go k m', p1, db1)" and p: "mp_state p = s_part_data"
    and a: "ahead (on_part_data st) d (slice buf m i) db" and i: "m \<le> i" "i < length buf" "buf ! i = c"
    and n: "takes_nul d \<or> NUL \<notin> set (slice buf m i @ [c])"
  shows "\<exists>m1 d1. part_data st buf c i m p d = Some (Go (Suc i) m1, p1, d1) \<and> chunk_next buf (Suc i) m1 p1 d1 db1"
proof -
  have s: "slice buf m (Suc i) = slice buf m i @ [c]" using i by (simp add: slice_Suc)
  show ?thesis
  proof (cases "c = CR")
    case True
    with b have e: "emits (on_part_data st) db [] db1"
      and p1: "mem_set (p\<lparr>mp_state := s_part_data_almost_boundary\<rparr>) (lookbehind p) CR = Some p1"
      by (auto simp: part_data_def emits_def bind_eq_Some_conv split: if_splits)
    from ahead_data [OF a e] n have "emits (on_part_data st) d (slice buf m i) db1" by auto
    then show ?thesis using True i p1
      by (auto simp: part_data_def emits_def chunk_next_def chunk_rel_def dest: mem_set_SomeD)
  next
    case False
    with b have e: "emits (on_part_data st) db [c] db1" and p1: "p1 = p"
      by (auto simp: part_data_def emits_def bind_eq_Some_conv split: if_splits)
    from ahead_data [OF a e n] have e': "emits (on_part_data st) d (slice buf m i @ [c]) db1" .
    then show ?thesis using False i p p1 n s
      by (auto simp: part_data_def emits_def chunk_next_def chunk_rel_def ahead_def)
  qed
qed

lemma ahead_takes_nul: "ahead (on_part_data st) d x db \<Longrightarrow> takes_nul db = takes_nul d"
  using takes_nul_kept by (auto simp: ahead_def split: if_splits)

lemma chunk_rel_here: "d = db \<Longrightarrow> chunk_rel buf i i p d db"
  by (simp add: chunk_rel_def ahead_def split: mp_state.split)

text \<open>One round on the chunk does what a round on the single byte does.\<close>

lemma step_data_sim:
  assumes b: "mp_step st [c] c 0 0 p db = Some (Go k m', p1, db1)" and p: "mp_state p = s_part_data"
    and r: "chunk_rel buf i m p d db" and i: "i < length buf" "buf ! i = c" and n: "c = NUL \<Longrightarrow> takes_nul db"
  shows "\<exists>m1 d1. mp_step st buf c i m p d = Some (Go (Suc i) m1, p1, d1) \<and> chunk_next buf (Suc i) m1 p1 d1 db1"
proof -
  from r p have a: "ahead (on_part_data st) d (slice buf m i) db" "m \<le> i"
      "takes_nul d \<or> NUL \<notin> set (slice buf m i)"
    by (auto simp: chunk_rel_def)
  have "takes_nul d \<or> NUL \<notin> set (slice buf m i @ [c])" using a(3) n ahead_takes_nul [OF a(1)] by auto
  from part_data_sim [OF _ p a(1,2) i this] b p show ?thesis by (simp add: mp_step_def)
qed

lemma almost_boundary_sim:
  assumes b: "almost_boundary st c 0 m0 p d = Some (Go k m', p1, d1)" and p: "mp_state p = s_part_data_almost_boundary"
    and i: "m \<le> i"
  shows "\<exists>m1. almost_boundary st c i m p d = Some (Go (i + k) m1, p1, d1) \<and>
    (if k = 0 then m1 = i \<and> mp_state p1 = s_part_data \<and> takes_nul d1 = takes_nul d
     else chunk_next buf (i + k) m1 p1 d1 d1)"
  using b i p takes_nul_kept unfolding almost_boundary_def
  by (auto simp: bind_eq_Some_conv chunk_next_def chunk_rel_def emits_def mem_set_def split: if_splits)

lemma data_boundary_sim:
  assumes b: "data_boundary st c 0 m0 p d = Some (Go k m', p1, d1)" and p: "mp_state p = s_part_data_boundary"
    and i: "m \<le> i"
  shows "\<exists>m1. data_boundary st c i m p d = Some (Go (i + k) m1, p1, d1) \<and>
    (if k = 0 then m1 = i \<and> mp_state p1 = s_part_data \<and> takes_nul d1 = takes_nul d
     else chunk_next buf (i + k) m1 p1 d1 d1)"
proof -
  from b obtain y where y: "mem_at p (mp_index p) = Some y" by (auto simp: data_boundary_def bind_eq_Some_conv)
  show ?thesis using b i p takes_nul_kept unfolding data_boundary_def y
    by (auto simp: Let_def bind_eq_Some_conv ex_bool_eq chunk_next_def chunk_rel_def emits_def mem_set_def
        split: if_splits)
qed

lemma start_boundary_sim:
  assumes b: "start_boundary st c 0 m0 p d = Some (Go k m', p1, d1)" and p: "mp_state p = s_start_boundary"
    and i: "m \<le> i"
  shows "k = 1 \<and> start_boundary st c i m p d = Some (Go (Suc i) m, p1, d1) \<and> chunk_next buf (Suc i) m p1 d1 d1"
  using b i p unfolding start_boundary_def
  by (auto simp: Let_def bind_eq_Some_conv chunk_next_def chunk_rel_def split: if_splits)

lemma step_sim:
  assumes b: "mp_step st [c] c 0 0 p db = Some (Go k m', p1, db1)" and ok: "feed_ok st takes_nul p db c"
    and r: "chunk_rel buf i m p d db" and i: "i < length buf" "buf ! i = c"
  shows "\<exists>m1 d1. mp_step st buf c i m p d = Some (Go (i + k) m1, p1, d1) \<and>
    (if k = 0 then m1 = i \<and> d1 = db1 \<and> mp_state p1 = s_part_data \<and> (c = NUL \<longrightarrow> takes_nul db1)
     else k = 1 \<and> chunk_next buf (i + k) m1 p1 d1 db1)"
proof -
  note k = mp_step_again [OF b]
  have mi: "m \<le> i" using r by (simp add: chunk_rel_def)
  show ?thesis
  proof (cases "mp_state p")
    case s_header_field_start
    then have d: "d = db" and n: "c \<noteq> NUL" using r ok by (auto simp: chunk_rel_def feed_ok_def nul_ok_def)
    from header_field_sim [of c "p\<lparr>mp_state := s_header_field\<rparr>" db k m' p1 db1 d buf i i] b i k s_header_field_start d n
    show ?thesis by (auto simp: mp_step_def ahead_def)
  next
    case s_header_field
    then have a: "ahead (on_header_field st) d (slice buf m i) db" "NUL \<notin> set (slice buf m i)" and n: "c \<noteq> NUL" "c \<noteq> CR"
      using r ok by (auto simp: chunk_rel_def feed_ok_def nul_ok_def)
    from header_field_sim [of c p db k m' p1 db1 d buf m i] b i k s_header_field mi a n
    show ?thesis by (auto simp: mp_step_def)
  next
    case s_header_value_start
    then have d: "d = db" and n: "c \<noteq> NUL" using r ok by (auto simp: chunk_rel_def feed_ok_def nul_ok_def)
    show ?thesis
    proof (cases "c = CHR '' ''")
      case True
      then show ?thesis using b d mi s_header_value_start by (auto simp: mp_step_def chunk_next_def chunk_rel_def)
    next
      case False
      from header_value_sim [of c "p\<lparr>mp_state := s_header_value\<rparr>" db k m' p1 db1 d buf i i] b i k
        s_header_value_start d n False
      show ?thesis by (auto simp: mp_step_def ahead_def)
    qed
  next
    case s_header_value
    then have a: "ahead (on_header_value st) d (slice buf m i) db" "NUL \<notin> set (slice buf m i)" and n: "c \<noteq> NUL"
      using r ok by (auto simp: chunk_rel_def feed_ok_def nul_ok_def)
    from header_value_sim [of c p db k m' p1 db1 d buf m i] b i k s_header_value mi a n
    show ?thesis by (auto simp: mp_step_def)
  next
    case s_part_data_start
    then have d: "d = db" using r by (auto simp: chunk_rel_def)
    from b s_part_data_start obtain d2 where h: "NOTIFY_CB (on_headers_complete st) db = Some (True, d2)"
      and b2: "part_data st [c] c 0 0 (p\<lparr>mp_state := s_part_data\<rparr>) d2 = Some (Go k m', p1, db1)"
      by (auto simp: mp_step_def bind_eq_Some_conv split: if_splits)
    have n: "takes_nul d2 \<or> NUL \<notin> set (slice buf i i @ [c])"
      using ok s_part_data_start h by (auto simp: feed_ok_def nul_ok_def)
    from part_data_sim [OF b2 _ _ _ i n] h d k s_part_data_start show ?thesis
      by (auto simp: mp_step_def ahead_def)
  next
    case s_part_data
    have "c = NUL \<Longrightarrow> takes_nul db" using ok s_part_data by (auto simp: feed_ok_def nul_ok_def)
    from step_data_sim [OF b s_part_data r i this] k s_part_data show ?thesis by auto
  next
    case s_part_data_almost_boundary
    then have d: "d = db" using r by (auto simp: chunk_rel_def)
    from almost_boundary_sim [of c 0 p db k m' p1 db1 m i buf] b mi s_part_data_almost_boundary d ok k show ?thesis
      by (auto simp: mp_step_def feed_ok_def nul_ok_def split: if_splits)
  next
    case s_part_data_boundary
    then have d: "d = db" using r by (auto simp: chunk_rel_def)
    from data_boundary_sim [of c 0 p db k m' p1 db1 m i buf] b mi s_part_data_boundary d ok k show ?thesis
      by (auto simp: mp_step_def feed_ok_def nul_ok_def split: if_splits)
  next
    case s_start
    from start_boundary_sim [of c 0 "p\<lparr>mp_index := 0, mp_state := s_start_boundary\<rparr>" db k m' p1 db1 m i buf] b mi s_start r
    show ?thesis by (auto simp: mp_step_def chunk_rel_def)
  next
    case s_start_boundary
    from start_boundary_sim [of c 0 p db k m' p1 db1 m i buf] b mi s_start_boundary r
    show ?thesis by (auto simp: mp_step_def chunk_rel_def)
  qed (use b r mi in \<open>auto simp: mp_step_def Let_def chunk_rel_def chunk_next_def bind_eq_Some_conv ex_bool_eq
      split: if_splits\<close>)
qed

lemma loop_sim:
  "feed st takes_nul (drop i cs) p db = Some (p', d') \<Longrightarrow> chunk_next cs i m p d db \<Longrightarrow> i \<le> length cs \<Longrightarrow>
   2 * (length cs - i) < fuel \<Longrightarrow> mp_loop st cs fuel i m p d = Some (length cs, p', d')"
proof (induction "length cs - i" arbitrary: i m p d db fuel)
  case 0
  then show ?case by (cases fuel) (auto simp: chunk_next_def)
next
  case (Suc n)
  then have i: "i < length cs" by simp
  then have dr: "drop i cs = cs ! i # drop (Suc i) cs" by (simp add: Cons_nth_drop_Suc)
  with Suc.prems(1) obtain p1 d1 where f: "feed_byte st takes_nul p db (cs ! i) = Some (p1, d1)"
    and rest: "feed st takes_nul (drop (Suc i) cs) p1 d1 = Some (p', d')"
    by (auto simp: bind_eq_Some_conv)
  from f have ok: "feed_ok st takes_nul p db (cs ! i)"
    and x: "multipart_parser_execute st [cs ! i] p db = Some (1, p1, d1)"
    by (auto simp: feed_byte_def bind_eq_Some_conv split: if_splits)
  have r: "chunk_rel cs i m p d db" using Suc.prems(2) i by (simp add: chunk_next_def)
  obtain fuel1 where fu: "fuel = Suc (Suc fuel1)" using Suc.prems(4) i
    by (metis Suc_less_eq2 Suc_diff_Suc less_imp_Suc_add mult_2 add_Suc_right add_Suc)
  have n: "n = length cs - Suc i" using Suc.hyps(2) by simp
  from x show ?case
  proof (cases rule: execute_byte)
    case (one m')
    from step_sim [OF one ok r i refl] obtain m1 di where
      "mp_step st cs (cs ! i) i m p d = Some (Go (Suc i) m1, p1, di)" "chunk_next cs (Suc i) m1 p1 di d1" by auto
    then show ?thesis using Suc.hyps(1) [OF n rest, of m1 di "Suc fuel1"] i Suc.prems(4) fu by simp
  next
    case (two p2 d2 m')
    from step_sim [OF two(1) ok r i refl] have s: "mp_step st cs (cs ! i) i m p d = Some (Go i i, p2, d2)"
      and nn: "cs ! i = NUL \<Longrightarrow> takes_nul d2" by auto
    from step_data_sim [OF two(3,2) chunk_rel_here [OF refl] i refl nn] obtain m1 di where
      "mp_step st cs (cs ! i) i i p2 d2 = Some (Go (Suc i) m1, p1, di)" "chunk_next cs (Suc i) m1 p1 di d1" by auto
    then show ?thesis using Suc.hyps(1) [OF n rest, of m1 di fuel1] i Suc.prems(4) fu s by simp
  qed
qed

lemma execute_feed:
  "feed st takes_nul cs p d = Some (p', d') \<Longrightarrow>
   multipart_parser_execute st cs p d = Some (length cs, p', d')"
  unfolding multipart_parser_execute_def
  by (rule loop_sim) (auto simp: chunk_next_def chunk_rel_here)

end

end
