(* ===== verification/Multipart_Body.thy ===== *)
theory Multipart_Body
  imports Multipart_Parser
begin

text \<open>
  Multipart bodies: how one is written, and that the parser, given it in any chunks, tells its
  client the parts it was made of.
\<close>

section \<open>Bodies\<close>

text \<open>
  The parser is given the whole delimiter \<open>b\<close>, the two hyphens included.
\<close>

record part =
  part_headers :: "(string \<times> string) list"
  part_content :: string

definition header_line :: "string \<times> string \<Rightarrow> string" where
  "header_line h = fst h @ CHR '':'' # CHR '' '' # snd h @ [CR, LF]"

definition part_text :: "part \<Rightarrow> string" where
  "part_text pt = concat (map header_line (part_headers pt)) @ [CR, LF] @ part_content pt"

definition delimited :: "string \<Rightarrow> part \<Rightarrow> string" where
  "delimited b pt = [CR, LF] @ part_text pt @ [CR, LF] @ b"

definition body_text :: "string \<Rightarrow> part list \<Rightarrow> string \<Rightarrow> string" where
  "body_text b pts epilogue = b @ concat (map (delimited b) pts) @ ''--'' @ epilogue"

text \<open>What the parts may hold; the content must not contain the delimiter.\<close>

definition boundary_ok :: "string \<Rightarrow> bool" where
  "boundary_ok b \<longleftrightarrow> b \<noteq> [] \<and> CR \<notin> set b \<and> NUL \<notin> set b"

definition header_ok :: "string \<times> string \<Rightarrow> bool" where
  "header_ok h \<longleftrightarrow> list_all (\<lambda>c. header_char c \<and> c \<noteq> CHR '':'' \<and> c \<noteq> CR \<and> c \<noteq> NUL) (fst h) \<and>
     CR \<notin> set (snd h) \<and> NUL \<notin> set (snd h) \<and> (snd h = [] \<or> hd (snd h) \<noteq> CHR '' '')"

definition delimiter_last :: "string \<Rightarrow> string \<Rightarrow> bool" where
  "delimiter_last delim z \<longleftrightarrow> (\<forall>u v. z @ delim = u @ delim @ v \<longrightarrow> v = [])"

definition part_ok :: "string \<Rightarrow> part \<Rightarrow> bool" where
  "part_ok b pt \<longleftrightarrow> list_all header_ok (part_headers pt) \<and> delimiter_last ([CR, LF] @ b) (part_content pt)"

section \<open>What the client is told\<close>

definition notified :: "'d notify_cb option \<Rightarrow> 'd \<Rightarrow> 'd option" where
  "notified cb d = (case NOTIFY_CB cb d of Some (True, d) \<Rightarrow> Some d | _ \<Rightarrow> None)"

definition told :: "'d data_cb option \<Rightarrow> 'd \<Rightarrow> string \<Rightarrow> 'd option" where
  "told cb d x = (case EMIT_DATA_CB cb d x of Some (True, d) \<Rightarrow> Some d | _ \<Rightarrow> None)"

primrec tell_headers :: "'d mp_settings \<Rightarrow> (string \<times> string) list \<Rightarrow> 'd \<Rightarrow> 'd option" where
  "tell_headers st [] d = Some d"
| "tell_headers st (h # hs) d = do {
     d \<leftarrow> told (on_header_field st) d (fst h);
     d \<leftarrow> told (on_header_value st) d (snd h);
     tell_headers st hs d
   }"

text \<open>A part whose content has a NUL needs a client that takes it.\<close>

definition tell_part :: "'d mp_settings \<Rightarrow> ('d \<Rightarrow> bool) \<Rightarrow> part \<Rightarrow> 'd \<Rightarrow> 'd option" where
  "tell_part st takes_nul pt d = do {
     d \<leftarrow> notified (on_part_data_begin st) d;
     d \<leftarrow> tell_headers st (part_headers pt) d;
     d \<leftarrow> notified (on_headers_complete st) d;
     if takes_nul d \<or> NUL \<notin> set (part_content pt) then do {
       d \<leftarrow> told (on_part_data st) d (part_content pt);
       notified (on_part_data_end st) d
     } else None
   }"

primrec tell_parts :: "'d mp_settings \<Rightarrow> ('d \<Rightarrow> bool) \<Rightarrow> part list \<Rightarrow> 'd \<Rightarrow> 'd option" where
  "tell_parts st takes_nul [] d = notified (on_body_end st) d"
| "tell_parts st takes_nul (pt # pts) d = do {
     d \<leftarrow> tell_part st takes_nul pt d;
     tell_parts st takes_nul pts d
   }"

lemma notified_iff: "notified cb d = Some d' \<longleftrightarrow> NOTIFY_CB cb d = Some (True, d')"
  by (auto simp: notified_def split: option.splits bool.splits)

lemma told_iff: "told cb d x = Some d' \<longleftrightarrow> emits cb d x d'"
  by (auto simp: told_def emits_def split: option.splits bool.splits)

section \<open>Single bytes\<close>

lemma feed_byte_one:
  "mp_step st [c] c 0 0 p d = Some (Go 1 m, p', d') \<Longrightarrow> feed_ok st tn p d c \<Longrightarrow>
   feed_byte st tn p d c = Some (p', d')"
  by (simp add: feed_byte_def multipart_parser_execute_def numeral_3_eq_3)

lemma feed_byte_two:
  "mp_step st [c] c 0 0 p d = Some (Go 0 0, p1, d1) \<Longrightarrow> mp_step st [c] c 0 0 p1 d1 = Some (Go 1 m, p', d') \<Longrightarrow>
   feed_ok st tn p d c \<Longrightarrow> feed_byte st tn p d c = Some (p', d')"
  by (simp add: feed_byte_def multipart_parser_execute_def numeral_3_eq_3)

lemma CR_facts [simp]: "CR \<noteq> LF" "LF \<noteq> CR" "CR \<noteq> NUL" "LF \<noteq> NUL" "NUL \<noteq> CR" "NUL \<noteq> LF"
    "CR \<noteq> CHR '':''" "CR \<noteq> CHR '' ''" "CR \<noteq> CHR ''-''" "NUL \<noteq> CHR ''-''" "NUL \<noteq> CHR '' ''" "NUL \<noteq> CHR '':''"
    "CHR '':'' \<noteq> CR" "CHR '' '' \<noteq> CR" "CHR ''-'' \<noteq> CR" "CHR ''-'' \<noteq> NUL" "CHR '' '' \<noteq> NUL" "CHR '':'' \<noteq> NUL"
  by (simp_all add: CR_def LF_def NUL_def)

section \<open>States of the parser\<close>

text \<open>
  \<open>held b p w\<close>: the parser is in the content and holds back the beginning \<open>w\<close> of what may be the
  delimiter.
\<close>

definition held :: "string \<Rightarrow> mp_parser \<Rightarrow> string \<Rightarrow> bool" where
  "held b p w \<longleftrightarrow> boundary_length p = length b \<and> length (mem p) = 2 * length b + 17 \<and>
     take (length b) (mem p) = b \<and>
     (case mp_state p of
        s_part_data \<Rightarrow> w = []
      | s_part_data_almost_boundary \<Rightarrow> w = [CR] \<and> mem p ! (length b + 1) = CR
      | s_part_data_boundary \<Rightarrow> mp_index p < length b \<and> w = CR # LF # take (mp_index p) b \<and>
          take (2 + mp_index p) (drop (length b + 1) (mem p)) = w
      | _ \<Rightarrow> False)"

definition mem_ok :: "string \<Rightarrow> mp_parser \<Rightarrow> bool" where
  "mem_ok b p \<longleftrightarrow> boundary_length p = length b \<and> length (mem p) = 2 * length b + 17 \<and> take (length b) (mem p) = b"

lemma held_mem_ok: "held b p w \<Longrightarrow> mem_ok b p"
  by (simp add: held_def mem_ok_def)

lemma held_data: "mem_ok b p \<Longrightarrow> held b (p\<lparr>mp_state := s_part_data\<rparr>) []"
  by (simp add: held_def mem_ok_def)

lemma held_length: "held b p w \<Longrightarrow> length w < length b + 2 \<or> b = []"
  by (auto simp: held_def split: mp_state.splits)

text \<open>Behind a delimiter, the first one or one that ended a part.\<close>

definition at_delimiter :: "string \<Rightarrow> mp_parser \<Rightarrow> bool" where
  "at_delimiter b p \<longleftrightarrow> mem_ok b p \<and> (mp_state p = s_part_data_almost_end \<or>
     mp_state p = s_start_boundary \<and> mp_index p = length b)"

section \<open>Clients that take tokens in pieces\<close>

text \<open>A client that takes a token as a whole also takes it in pieces.\<close>

locale mp_client_split = mp_client st takes_nul for st :: "'d mp_settings" and takes_nul :: "'d \<Rightarrow> bool" +
  assumes field_split: "emits (on_header_field st) d (a @ b) d2 \<Longrightarrow> NUL \<notin> set (a @ b) \<Longrightarrow>
      \<exists>d1. emits (on_header_field st) d a d1 \<and> emits (on_header_field st) d1 b d2"
    and value_split: "emits (on_header_value st) d (a @ b) d2 \<Longrightarrow> NUL \<notin> set (a @ b) \<Longrightarrow>
      \<exists>d1. emits (on_header_value st) d a d1 \<and> emits (on_header_value st) d1 b d2"
    and data_split: "emits (on_part_data st) d (a @ b) d2 \<Longrightarrow> takes_nul d \<or> NUL \<notin> set (a @ b) \<Longrightarrow>
      \<exists>d1. emits (on_part_data st) d a d1 \<and> emits (on_part_data st) d1 b d2"
begin

subsection \<open>The header\<close>

lemma feed_name:
  "mp_state p = s_header_field \<Longrightarrow> list_all (\<lambda>c. header_char c \<and> c \<noteq> CHR '':'' \<and> c \<noteq> CR \<and> c \<noteq> NUL) x \<Longrightarrow>
   emits (on_header_field st) d x d' \<Longrightarrow>
   feed st takes_nul (x @ [CHR '':'']) p d = Some (p\<lparr>mp_state := s_header_value_start\<rparr>, d')"
proof (induction x arbitrary: d)
  case Nil
  then have "feed_byte st takes_nul p d (CHR '':'') = Some (p\<lparr>mp_state := s_header_value_start\<rparr>, d')"
    by (intro feed_byte_one [where m = 0]) (auto simp: mp_step_def header_field_def emits_def feed_ok_def)
  then show ?case by simp
next
  case (Cons c x)
  from field_split [of d "[c]" x d'] Cons.prems obtain d1 where
    e: "emits (on_header_field st) d [c] d1" and r: "emits (on_header_field st) d1 x d'"
    by (auto simp: list_all_iff)
  have "feed_byte st takes_nul p d c = Some (p, d1)"
    using Cons.prems e by (intro feed_byte_one [where m = 0]) (auto simp: mp_step_def header_field_def emits_def feed_ok_def)
  then show ?case using Cons.IH [OF Cons.prems(1) _ r] Cons.prems(2) by simp
qed

lemma feed_field:
  assumes p: "mp_state p = s_header_field_start"
    and x: "list_all (\<lambda>c. header_char c \<and> c \<noteq> CHR '':'' \<and> c \<noteq> CR \<and> c \<noteq> NUL) x"
    and e: "emits (on_header_field st) d x d'"
  shows "feed st takes_nul (x @ [CHR '':'']) p d = Some (p\<lparr>mp_state := s_header_value_start\<rparr>, d')"
proof -
  have "feed_byte st takes_nul p d c = feed_byte st takes_nul (p\<lparr>mp_state := s_header_field\<rparr>) d c" if "c \<noteq> CR" for c
    using that p by (simp add: feed_byte_def feed_ok_def nul_ok_def multipart_parser_execute_def numeral_3_eq_3 mp_step_def)
  then have "feed st takes_nul (x @ [CHR '':'']) p d = feed st takes_nul (x @ [CHR '':'']) (p\<lparr>mp_state := s_header_field\<rparr>) d"
    using x by (cases x) auto
  then show ?thesis using feed_name [of "p\<lparr>mp_state := s_header_field\<rparr>" x d d'] x e by simp
qed

lemma feed_value:
  "mp_state p = s_header_value \<Longrightarrow> CR \<notin> set v \<Longrightarrow> NUL \<notin> set v \<Longrightarrow> emits (on_header_value st) d v d' \<Longrightarrow>
   feed st takes_nul (v @ [CR, LF]) p d = Some (p\<lparr>mp_state := s_header_field_start\<rparr>, d')"
proof (induction v arbitrary: d)
  case Nil
  then have "feed_byte st takes_nul p d CR = Some (p\<lparr>mp_state := s_header_value_almost_done\<rparr>, d')"
    by (intro feed_byte_one [where m = 0]) (auto simp: mp_step_def header_value_def emits_def feed_ok_def)
  moreover have "feed_byte st takes_nul (p\<lparr>mp_state := s_header_value_almost_done\<rparr>) d' LF =
      Some (p\<lparr>mp_state := s_header_field_start\<rparr>, d')"
    by (intro feed_byte_one [where m = 0]) (auto simp: mp_step_def feed_ok_def)
  ultimately show ?case by simp
next
  case (Cons c v)
  from value_split [of d "[c]" v d'] Cons.prems obtain d1 where
    e: "emits (on_header_value st) d [c] d1" and r: "emits (on_header_value st) d1 v d'" by auto
  have "feed_byte st takes_nul p d c = Some (p, d1)"
    using Cons.prems e by (intro feed_byte_one [where m = 0]) (auto simp: mp_step_def header_value_def emits_def feed_ok_def)
  then show ?case using Cons.IH [OF Cons.prems(1) _ _ r] Cons.prems(2,3) by simp
qed

lemma feed_line_value:
  assumes p: "mp_state p = s_header_value_start" and v: "CR \<notin> set v" "NUL \<notin> set v" "v = [] \<or> hd v \<noteq> CHR '' ''"
    and e: "emits (on_header_value st) d v d'"
  shows "feed st takes_nul (CHR '' '' # v @ [CR, LF]) p d = Some (p\<lparr>mp_state := s_header_field_start\<rparr>, d')"
proof -
  have b: "feed_byte st takes_nul p d (CHR '' '') = Some (p, d)"
    using p by (intro feed_byte_one [where m = 0]) (auto simp: mp_step_def feed_ok_def)
  have "feed_byte st takes_nul p d c = feed_byte st takes_nul (p\<lparr>mp_state := s_header_value\<rparr>) d c" if "c \<noteq> CHR '' ''" for c
    using that p by (simp add: feed_byte_def feed_ok_def nul_ok_def multipart_parser_execute_def numeral_3_eq_3 mp_step_def)
  then have "feed st takes_nul (v @ [CR, LF]) p d = feed st takes_nul (v @ [CR, LF]) (p\<lparr>mp_state := s_header_value\<rparr>) d"
    using v by (cases v) auto
  then show ?thesis using b feed_value [of "p\<lparr>mp_state := s_header_value\<rparr>" v d d'] v e by simp
qed

lemma feed_header_line:
  assumes p: "mp_state p = s_header_field_start" and h: "header_ok h"
    and f: "emits (on_header_field st) d (fst h) d1" and v: "emits (on_header_value st) d1 (snd h) d2"
  shows "feed st takes_nul (header_line h) p d = Some (p, d2)"
proof -
  have l: "header_line h = (fst h @ [CHR '':'']) @ (CHR '' '' # snd h @ [CR, LF])" by (simp add: header_line_def)
  have "p\<lparr>mp_state := s_header_field_start\<rparr> = p" using p by simp
  then show ?thesis
    using feed_field [OF p _ f] feed_line_value [of "p\<lparr>mp_state := s_header_value_start\<rparr>" "snd h" d1 d2] h v
    by (simp add: l feed_append header_ok_def del: append_assoc)
qed

lemma feed_headers:
  "mp_state p = s_header_field_start \<Longrightarrow> list_all header_ok hs \<Longrightarrow> tell_headers st hs d = Some d' \<Longrightarrow>
   feed st takes_nul (concat (map header_line hs) @ [CR, LF]) p d = Some (p\<lparr>mp_state := s_part_data_start\<rparr>, d')"
proof (induction hs arbitrary: d)
  case Nil
  then have "feed_byte st takes_nul p d CR = Some (p\<lparr>mp_state := s_headers_almost_done\<rparr>, d)"
    by (intro feed_byte_one [where m = 0]) (auto simp: mp_step_def header_field_def feed_ok_def)
  moreover have "feed_byte st takes_nul (p\<lparr>mp_state := s_headers_almost_done\<rparr>) d LF =
      Some (p\<lparr>mp_state := s_part_data_start\<rparr>, d)"
    by (intro feed_byte_one [where m = 0]) (auto simp: mp_step_def feed_ok_def)
  ultimately show ?case using Nil.prems(3) by simp
next
  case (Cons h hs)
  from Cons.prems obtain d1 d2 where e: "emits (on_header_field st) d (fst h) d1" "emits (on_header_value st) d1 (snd h) d2"
    and r: "tell_headers st hs d2 = Some d'"
    by (auto simp: bind_eq_Some_conv told_iff)
  then show ?case using Cons.IH [OF Cons.prems(1) _ r] feed_header_line [OF Cons.prems(1) _ e] Cons.prems(2)
    by (simp add: feed_append)
qed

subsection \<open>The content\<close>

text \<open>The content without what is held: nothing more is told when it is empty.\<close>

definition remaining :: "string \<Rightarrow> 'd \<Rightarrow> string \<Rightarrow> 'd \<Rightarrow> bool" where
  "remaining w d z d' \<longleftrightarrow> (if w \<noteq> [] \<and> z = [] then d = d' else emits (on_part_data st) d z d')"

lemma remaining_CR:
  assumes "emits (on_part_data st) d z d'" "takes_nul d \<or> NUL \<notin> set z" "w \<noteq> []"
  shows "\<exists>d1. emits (on_part_data st) d [] d1 \<and> remaining w d1 z d'"
proof -
  from data_split [of d "[]" z d'] assms obtain d1 where
    e: "emits (on_part_data st) d [] d1" "emits (on_part_data st) d1 z d'" by auto
  moreover have "z = [] \<Longrightarrow> d1 = d'" using e(1) assms(1) by (auto simp: emits_def)
  ultimately show ?thesis using assms(3) by (auto simp: remaining_def)
qed

lemma remaining_split:
  assumes "remaining w d (a @ z) d'" "a \<noteq> []" "takes_nul d \<or> NUL \<notin> set (a @ z)"
  shows "\<exists>d1. emits (on_part_data st) d a d1 \<and> emits (on_part_data st) d1 z d' \<and> takes_nul d1 = takes_nul d"
  using assms data_split [of d a z d'] takes_nul_kept by (fastforce simp: remaining_def)

lemma take_drop_update:
  "n + m < length xs \<Longrightarrow> take (Suc m) (drop n (xs[n + m := c])) = take m (drop n xs) @ [c]"
  by (simp add: drop_update_swap take_Suc_conv_app_nth)

text \<open>A byte of the content in the three states.\<close>

lemma step_data_CR:
  assumes "mem_ok b p" "mp_state p = s_part_data" "emits (on_part_data st) d [] d1"
  shows "\<exists>p1. mp_step st [CR] CR 0 0 p d = Some (Go 1 0, p1, d1) \<and> held b p1 [CR]"
  using assms by (auto simp: mp_step_def part_data_def emits_def mem_set_def lookbehind_def mem_ok_def held_def)

lemma step_data_byte:
  assumes "mp_state p = s_part_data" "c \<noteq> CR" "emits (on_part_data st) d [c] d1"
  shows "mp_step st [c] c 0 0 p d = Some (Go 1 0, p, d1)"
  using assms by (auto simp: mp_step_def part_data_def emits_def)

lemma step_almost_LF:
  assumes "held b p [CR]" "b \<noteq> []" "mp_state p = s_part_data_almost_boundary"
  shows "\<exists>p1. mp_step st [LF] LF 0 0 p d = Some (Go 1 0, p1, d) \<and> held b p1 [CR, LF]"
proof -
  have l: "Suc (length b) < length (mem p)" "Suc (Suc (length b)) < length (mem p)" "mem p ! Suc (length b) = CR"
    using assms by (auto simp: held_def)
  then have "take 2 (drop (Suc (length b)) ((mem p)[Suc (Suc (length b)) := LF])) = [CR, LF]"
    by (simp add: numeral_2_eq_2 take_Suc_conv_app_nth)
  then show ?thesis using assms l
    by (auto simp: mp_step_def almost_boundary_def mem_set_def lookbehind_def held_def)
qed

lemma step_held_mismatch:
  assumes h: "held b p w" "w \<noteq> []" and e: "emits (on_part_data st) d w d1"
    and c: "mp_state p = s_part_data_almost_boundary \<Longrightarrow> c \<noteq> LF"
      "mp_state p = s_part_data_boundary \<Longrightarrow> b ! mp_index p \<noteq> c"
  shows "mp_step st [c] c 0 0 p d = Some (Go 0 0, p\<lparr>mp_state := s_part_data\<rparr>, d1)"
proof (cases "mp_state p = s_part_data_almost_boundary")
  case True
  then have "take (Suc 0) (drop (Suc (length b)) (mem p)) = [CR]" using h
    by (simp add: held_def take_Suc_conv_app_nth)
  then show ?thesis using True assms by (simp add: mp_step_def almost_boundary_def buf_read_def lookbehind_def held_def emits_def)
next
  case False
  then have s: "mp_state p = s_part_data_boundary" using h by (auto simp: held_def split: mp_state.splits)
  have m: "mem_at p (mp_index p) = Some (b ! mp_index p)" using h s
    by (auto simp: held_def mem_at_def) (metis nth_take)
  have "buf_read (lookbehind p) (2 + mp_index p) (mem p) = Some w" using h s
    by (auto simp: held_def buf_read_def lookbehind_def)
  then show ?thesis using s m c e by (simp add: mp_step_def data_boundary_def emits_def)
qed

lemma step_boundary_match:
  assumes h: "held b p w" and s: "mp_state p = s_part_data_boundary" and c: "c = b ! mp_index p" and i: "Suc (mp_index p) < length b"
  shows "\<exists>p1. mp_step st [c] c 0 0 p d = Some (Go 1 0, p1, d) \<and> held b p1 (w @ [c])"
proof -
  have m: "mem_at p (mp_index p) = Some c" using h s c
    by (auto simp: held_def mem_at_def) (metis nth_take)
  define k where "k = Suc (length b) + (2 + mp_index p)"
  have k: "k < length (mem p)" using h s i by (simp add: held_def k_def)
  have "take (Suc (2 + mp_index p)) (drop (Suc (length b)) ((mem p)[k := c])) = w @ [c]"
    using h s take_drop_update [of "Suc (length b)" "2 + mp_index p" "mem p" c] k by (simp add: held_def k_def)
  moreover have "w @ [c] = CR # LF # take (Suc (mp_index p)) b" using h s c i
    by (simp add: held_def take_Suc_conv_app_nth)
  ultimately show ?thesis using h s m i k
    by (auto simp: mp_step_def data_boundary_def mem_set_def lookbehind_def held_def k_def)
qed

lemma step_boundary_end:
  assumes h: "held b p w" and s: "mp_state p = s_part_data_boundary" and c: "c = b ! mp_index p" and i: "Suc (mp_index p) = length b"
    and n: "notified (on_part_data_end st) d = Some d1"
  shows "\<exists>p1. mp_step st [c] c 0 0 p d = Some (Go 1 0, p1, d1) \<and> mem_ok b p1 \<and> mp_state p1 = s_part_data_almost_end"
proof -
  have m: "mem_at p (mp_index p) = Some c" using h s c
    by (auto simp: held_def mem_at_def) (metis nth_take)
  have k: "Suc (length b) + (2 + mp_index p) < length (mem p)" using h s i by (simp add: held_def)
  then show ?thesis using h s m i n
    by (auto simp: mp_step_def data_boundary_def mem_set_def lookbehind_def held_def mem_ok_def notified_iff)
qed

text \<open>Where the delimiter starts, the bytes held back are the beginning of the delimiter or of the content.\<close>

lemma delimiter_last_drop: "delimiter_last delim (a @ z) \<Longrightarrow> delimiter_last delim z"
  unfolding delimiter_last_def by (metis append.assoc)

lemma held_prefix:
  assumes b: "CR \<notin> set b" and w: "w = CR # LF # take j b" and j: "j < length b"
    and eq: "w @ c # y = z @ CR # LF # b" and c: "b ! j \<noteq> c"
  shows "\<exists>z'. z = w @ z' \<and> c # y = z' @ CR # LF # b"
proof (cases "length w \<le> length z")
  case True
  then show ?thesis using eq by (auto simp: append_eq_append_conv_if) (metis append_eq_append_conv_if append_take_drop_id)
next
  case False
  then obtain t where t: "w = z @ t" "t \<noteq> []" "t @ c # y = CR # LF # b"
    using eq by (auto simp: append_eq_append_conv2)
  show ?thesis
  proof (cases z)
    case Nil
    then have "take j b @ c # y = b" using t(1,3) unfolding w by auto
    then have "b ! j = c" using j by (metis length_take min.absorb4 nth_append_length)
    then show ?thesis using c by simp
  next
    case (Cons a z1)
    with t(1) w have t1: "LF # take j b = z1 @ t" by simp
    from t(2,3) have "CR \<in> set t" by (cases t) auto
    with t1 have "CR \<in> set (LF # take j b)" by simp
    then show ?thesis using b by (auto dest: in_set_takeD)
  qed
qed

lemma feed_content:
  assumes b: "boundary_ok b"
  shows "held b p w \<Longrightarrow> w @ y = z @ [CR, LF] @ b \<Longrightarrow> delimiter_last ([CR, LF] @ b) z \<Longrightarrow>
    remaining w d z d' \<Longrightarrow> takes_nul d \<or> NUL \<notin> set z \<Longrightarrow> notified (on_part_data_end st) d' = Some d2 \<Longrightarrow>
    \<exists>p'. feed st takes_nul y p d = Some (p', d2) \<and> mem_ok b p' \<and> mp_state p' = s_part_data_almost_end"
proof (induction y arbitrary: p w z d)
  case Nil
  then have "length w < length b + 2" using held_length [OF Nil.prems(1)] b by (simp add: boundary_ok_def)
  moreover have "length w = length z + 2 + length b" using arg_cong [OF Nil.prems(2), of length] by simp
  ultimately show ?case by simp
next
  case (Cons c y)
  note h = Cons.prems(1) and eq = Cons.prems(2) and dl = Cons.prems(3) and rem = Cons.prems(4)
    and nul = Cons.prems(5) and fin = Cons.prems(6)
  have cb: "CR \<notin> set b" "NUL \<notin> set b" "b \<noteq> []" using b by (auto simp: boundary_ok_def)
  have cn: "c = NUL \<Longrightarrow> takes_nul d"
  proof -
    assume "c = NUL"
    moreover have "c \<in> set (z @ [CR, LF] @ b)" unfolding eq [symmetric] by simp
    ultimately show ?thesis using nul cb by auto
  qed
  \<comment> \<open>a byte looked at as content\<close>
  have data: "\<exists>p'. feed st takes_nul y p1 d1 = Some (p', d2) \<and> mem_ok b p' \<and> mp_state p' = s_part_data_almost_end"
    if "mp_step st [c] c 0 0 q e = Some (Go 1 0, p1, d1)" "held b p1 w1" "w1 @ y = z1 @ [CR, LF] @ b"
      "delimiter_last ([CR, LF] @ b) z1" "remaining w1 d1 z1 d'" "takes_nul d1 \<or> NUL \<notin> set z1" for q e p1 d1 w1 z1
    using Cons.IH that fin by blast
  have content: "\<exists>p1 d1. mp_step st [c] c 0 0 q e = Some (Go 1 0, p1, d1) \<and>
      (\<exists>p'. feed st takes_nul y p1 d1 = Some (p', d2) \<and> mem_ok b p' \<and> mp_state p' = s_part_data_almost_end)"
    if q: "mem_ok b q" "mp_state q = s_part_data" and yz: "c # y = z1 @ [CR, LF] @ b"
      and d1: "delimiter_last ([CR, LF] @ b) z1" and r1: "emits (on_part_data st) e z1 d'"
      and n1: "takes_nul e \<or> NUL \<notin> set z1" for q e z1
  proof (cases "c = CR")
    case True
    from remaining_CR [OF r1 n1, of "[CR]"] obtain e1 where
      e1: "emits (on_part_data st) e [] e1" "remaining [CR] e1 z1 d'" by auto
    from step_data_CR [OF q e1(1)] True obtain p1 where
      p1: "mp_step st [c] c 0 0 q e = Some (Go 1 0, p1, e1)" "held b p1 [CR]" by auto
    have "[CR] @ y = z1 @ [CR, LF] @ b" using yz True by simp
    from data [OF p1 this d1 e1(2)] n1 takes_nul_kept [OF e1(1)] p1(1) show ?thesis by auto
  next
    case False
    then obtain z2 where z1: "z1 = c # z2" "y = z2 @ [CR, LF] @ b" using yz by (cases z1) auto
    from data_split [of e "[c]" z2 d'] r1 n1 z1 obtain e1 where
      e1: "emits (on_part_data st) e [c] e1" "emits (on_part_data st) e1 z2 d'" by auto
    have s: "mp_step st [c] c 0 0 q e = Some (Go 1 0, q, e1)" using step_data_byte [OF q(2) False e1(1)] .
    have hq: "held b q []" using q by (simp add: held_def mem_ok_def)
    have "delimiter_last ([CR, LF] @ b) z2" using delimiter_last_drop [of _ "[c]" z2] d1 z1 by simp
    from data [OF s hq _ this] z1 e1 n1 takes_nul_kept [OF e1(1)] s show ?thesis by (auto simp: remaining_def)
  qed
  \<comment> \<open>bytes held back turn out to be content\<close>
  have mismatch: ?case if w: "w \<noteq> []" and z: "z = w @ z'" "c # y = z' @ [CR, LF] @ b"
      and c: "mp_state p = s_part_data_almost_boundary \<Longrightarrow> c \<noteq> LF" "mp_state p = s_part_data_boundary \<Longrightarrow> b ! mp_index p \<noteq> c"
    for z'
  proof -
    from remaining_split [OF rem [unfolded z(1)] w] nul z obtain d1 where
      d1: "emits (on_part_data st) d w d1" "emits (on_part_data st) d1 z' d'" "takes_nul d1 = takes_nul d" by auto
    have s: "mp_step st [c] c 0 0 p d = Some (Go 0 0, p\<lparr>mp_state := s_part_data\<rparr>, d1)"
      using step_held_mismatch [OF h w d1(1) c] by simp
    have "mem_ok b (p\<lparr>mp_state := s_part_data\<rparr>)" using held_mem_ok [OF h] by (simp add: mem_ok_def)
    from content [OF this _ z(2) _ d1(2)] delimiter_last_drop [of _ w z'] dl z(1) nul d1(3) obtain p1 e1 where
      s1: "mp_step st [c] c 0 0 (p\<lparr>mp_state := s_part_data\<rparr>) d1 = Some (Go 1 0, p1, e1)"
      and f: "\<exists>p'. feed st takes_nul y p1 e1 = Some (p', d2) \<and> mem_ok b p' \<and> mp_state p' = s_part_data_almost_end" by auto
    have "feed_ok st takes_nul p d c" using h w cn by (auto simp: feed_ok_def nul_ok_def held_def split: mp_state.splits)
    from feed_byte_two [OF s s1 this] f show ?thesis by auto
  qed
  have step: ?case if "mp_step st [c] c 0 0 p d = Some (Go 1 0, p1, d1)"
      "\<exists>p'. feed st takes_nul y p1 d1 = Some (p', d2) \<and> mem_ok b p' \<and> mp_state p' = s_part_data_almost_end" for p1 d1
  proof -
    have "feed_ok st takes_nul p d c" using h cn by (auto simp: feed_ok_def nul_ok_def held_def split: mp_state.splits)
    from feed_byte_one [OF that(1) this] that(2) show ?thesis by auto
  qed
  consider (d) "mp_state p = s_part_data" "w = []" | (a) "mp_state p = s_part_data_almost_boundary" "w = [CR]"
    | (bd) "mp_state p = s_part_data_boundary" "w = CR # LF # take (mp_index p) b" "mp_index p < length b"
    using h by (auto simp: held_def split: mp_state.splits)
  then show ?case
  proof cases
    case d
    from content [OF held_mem_ok [OF h] d(1) _ dl _ nul] eq rem d(2) step show ?thesis by (auto simp: remaining_def)
  next
    case a
    show ?thesis
    proof (cases "c = LF")
      case True
      from step_almost_LF [of b p d] h a cb True obtain p1 where
        p1: "mp_step st [c] c 0 0 p d = Some (Go 1 0, p1, d)" "held b p1 [CR, LF]" by auto
      have "[CR, LF] @ y = z @ [CR, LF] @ b" using eq a True by simp
      from data [OF p1 this dl _ nul] rem a step [OF p1(1)] show ?thesis by (auto simp: remaining_def)
    next
      case False
      then obtain z' where "z = CR # z'" using eq a by (cases z) auto
      then show ?thesis using mismatch [of z'] eq a False by simp
    qed
  next
    case bd
    show ?thesis
    proof (cases "c = b ! mp_index p")
      case True
      show ?thesis
      proof (cases "Suc (mp_index p) < length b")
        case lt: True
        from step_boundary_match [OF h bd(1) True lt] obtain p1 where
          p1: "mp_step st [c] c 0 0 p d = Some (Go 1 0, p1, d)" "held b p1 (w @ [c])" by auto
        from data [OF p1 _ dl _ nul] eq rem bd step [OF p1(1)] show ?thesis by (auto simp: remaining_def)
      next
        case False
        then have n: "Suc (mp_index p) = length b" using bd(3) by simp
        have "take (mp_index p) b @ [c] = b" using True bd(3) n take_Suc_conv_app_nth [of "mp_index p" b] by simp
        then have wc: "w @ c # y = [CR, LF] @ b @ y" using bd(2) by (metis append.assoc append_Cons append_Nil)
        with eq have "z @ ([CR, LF] @ b) = [] @ ([CR, LF] @ b) @ y" by simp
        with dl have "y = []" unfolding delimiter_last_def by blast
        with eq wc have "z = []" by simp
        then have "d = d'" using rem bd(2) by (simp add: remaining_def)
        with step_boundary_end [OF h bd(1) True n] fin obtain p1 where
          "mp_step st [c] c 0 0 p d = Some (Go 1 0, p1, d2)" "mem_ok b p1" "mp_state p1 = s_part_data_almost_end" by blast
        then show ?thesis using step \<open>y = []\<close> by auto
      qed
    next
      case False
      from held_prefix [OF cb(1) bd(2,3), of c y z] eq False obtain z' where
        "z = w @ z'" "c # y = z' @ [CR, LF] @ b" by auto
      then show ?thesis using mismatch [of z'] bd False by auto
    qed
  qed
qed

subsection \<open>Parts and bodies\<close>

lemma feed_data_start:
  assumes p: "mp_state p = s_part_data_start" and n: "notified (on_headers_complete st) d = Some d1" and y: "y \<noteq> []"
    and f: "feed st takes_nul y (p\<lparr>mp_state := s_part_data\<rparr>) d1 = Some r"
  shows "feed st takes_nul y p d = Some r"
proof -
  obtain c y' where c: "y = c # y'" using y by (cases y) auto
  have "feed_byte st takes_nul p d c = feed_byte st takes_nul (p\<lparr>mp_state := s_part_data\<rparr>) d1 c"
    using p n unfolding feed_byte_def feed_ok_def nul_ok_def multipart_parser_execute_def
    by (simp add: numeral_3_eq_3 mp_step_def notified_iff)
  then show ?thesis using f c by simp
qed

lemma feed_join:
  "feed st tn xs p d = Some (p1, d1) \<Longrightarrow> feed st tn ys p1 d1 = Some r \<Longrightarrow> feed st tn (xs @ ys) p d = Some r"
  by (simp add: feed_append)

lemma feed_line_end:
  assumes p: "at_delimiter b p" and n: "notified (on_part_data_begin st) d = Some d1"
  shows "\<exists>q. feed st takes_nul [CR, LF] p d = Some (q, d1) \<and> mem_ok b q \<and> mp_state q = s_header_field_start"
proof (cases "mp_state p = s_part_data_almost_end")
  case True
  have "feed_byte st takes_nul p d CR = Some (p\<lparr>mp_state := s_part_data_end\<rparr>, d)"
    using True by (intro feed_byte_one [where m = 0]) (auto simp: mp_step_def feed_ok_def)
  moreover have "feed_byte st takes_nul (p\<lparr>mp_state := s_part_data_end\<rparr>) d LF =
      Some (p\<lparr>mp_state := s_header_field_start\<rparr>, d1)"
    using n by (intro feed_byte_one [where m = 0]) (auto simp: mp_step_def feed_ok_def notified_iff)
  ultimately show ?thesis using p by (simp add: at_delimiter_def mem_ok_def)
next
  case False
  then have s: "mp_state p = s_start_boundary" "mp_index p = boundary_length p" using p
    by (auto simp: at_delimiter_def mem_ok_def)
  have "feed_byte st takes_nul p d CR = Some (p\<lparr>mp_index := mp_index p + 1\<rparr>, d)"
    using s by (intro feed_byte_one [where m = 0]) (auto simp: mp_step_def start_boundary_def feed_ok_def)
  moreover have "feed_byte st takes_nul (p\<lparr>mp_index := mp_index p + 1\<rparr>) d LF =
      Some (p\<lparr>mp_index := 0, mp_state := s_header_field_start\<rparr>, d1)"
    using s n by (intro feed_byte_one [where m = 0])
      (auto simp: mp_step_def start_boundary_def feed_ok_def notified_iff)
  ultimately show ?thesis using p by (simp add: at_delimiter_def mem_ok_def)
qed

text \<open>From behind a delimiter to behind the next one.\<close>

lemma feed_part:
  assumes b: "boundary_ok b" and p: "at_delimiter b p" and pt: "part_ok b pt"
    and t: "tell_part st takes_nul pt d = Some d'"
  shows "\<exists>p'. feed st takes_nul (delimited b pt) p d = Some (p', d') \<and> mem_ok b p' \<and> mp_state p' = s_part_data_almost_end"
proof -
  from t obtain d1 d2 d3 d4 where n1: "notified (on_part_data_begin st) d = Some d1"
    and h: "tell_headers st (part_headers pt) d1 = Some d2" and n2: "notified (on_headers_complete st) d2 = Some d3"
    and nul: "takes_nul d3 \<or> NUL \<notin> set (part_content pt)"
    and c: "emits (on_part_data st) d3 (part_content pt) d4" and n3: "notified (on_part_data_end st) d4 = Some d'"
    by (auto simp: tell_part_def bind_eq_Some_conv told_iff split: if_splits)
  from feed_line_end [OF p n1] obtain q where
    q: "feed st takes_nul [CR, LF] p d = Some (q, d1)" "mem_ok b q" "mp_state q = s_header_field_start" by blast
  let ?r = "q\<lparr>mp_state := s_part_data_start\<rparr>"
  have hd: "feed st takes_nul (concat (map header_line (part_headers pt)) @ [CR, LF]) q d1 = Some (?r, d2)"
    using feed_headers [OF q(3) _ h] pt by (simp add: part_ok_def)
  have "held b (q\<lparr>mp_state := s_part_data\<rparr>) []" by (rule held_data [OF q(2)])
  from feed_content [OF b this, of "part_content pt @ [CR, LF] @ b" "part_content pt" d3 d4 d'] pt c nul n3 obtain p' where
    f: "feed st takes_nul (part_content pt @ [CR, LF] @ b) (q\<lparr>mp_state := s_part_data\<rparr>) d3 = Some (p', d')"
      "mem_ok b p'" "mp_state p' = s_part_data_almost_end"
    by (auto simp: part_ok_def remaining_def)
  have "feed st takes_nul (part_content pt @ [CR, LF] @ b) ?r d2 = Some (p', d')"
    by (rule feed_data_start [OF _ n2]) (use f in auto)
  from feed_join [OF q(1) feed_join [OF hd this]] f(2,3) show ?thesis
    by (simp add: delimited_def part_text_def)
qed

lemma feed_end:
  "mp_state p = s_end \<Longrightarrow> NUL \<notin> set x \<Longrightarrow> feed st takes_nul x p d = Some (p, d)"
proof (induction x)
  case (Cons c x)
  then have "feed_byte st takes_nul p d c = Some (p, d)"
    by (intro feed_byte_one [where m = 0]) (auto simp: mp_step_def feed_ok_def)
  then show ?case using Cons by simp
qed simp

lemma feed_parts:
  assumes b: "boundary_ok b" and e: "NUL \<notin> set epilogue"
  shows "at_delimiter b p \<Longrightarrow> pts \<noteq> [] \<or> mp_state p = s_part_data_almost_end \<Longrightarrow> list_all (part_ok b) pts \<Longrightarrow>
    tell_parts st takes_nul pts d = Some d' \<Longrightarrow>
    \<exists>p'. feed st takes_nul (concat (map (delimited b) pts) @ ''--'' @ epilogue) p d = Some (p', d') \<and> mp_state p' = s_end"
proof (induction pts arbitrary: p d)
  case Nil
  have "feed_byte st takes_nul p d (CHR ''-'') = Some (p\<lparr>mp_state := s_part_data_final_hyphen\<rparr>, d)"
    using Nil by (intro feed_byte_one [where m = 0]) (auto simp: mp_step_def feed_ok_def)
  moreover have "feed_byte st takes_nul (p\<lparr>mp_state := s_part_data_final_hyphen\<rparr>) d (CHR ''-'') =
      Some (p\<lparr>mp_state := s_end\<rparr>, d')"
    using Nil by (intro feed_byte_one [where m = 0]) (auto simp: mp_step_def feed_ok_def notified_iff)
  ultimately show ?case using feed_end [OF _ e] by simp
next
  case (Cons pt pts)
  from Cons.prems(4) obtain d1 where t: "tell_part st takes_nul pt d = Some d1" "tell_parts st takes_nul pts d1 = Some d'"
    by (auto simp: bind_eq_Some_conv)
  from feed_part [OF b Cons.prems(1) _ t(1)] Cons.prems(3) obtain p1 where
    f: "feed st takes_nul (delimited b pt) p d = Some (p1, d1)" "mem_ok b p1" "mp_state p1 = s_part_data_almost_end" by auto
  then have "at_delimiter b p1" by (simp add: at_delimiter_def)
  from Cons.IH [OF this _ _ t(2)] Cons.prems(3) f show ?case by (auto simp: feed_append)
qed

text \<open>The first delimiter has no line end before it.\<close>

lemma feed_start_boundary:
  assumes b: "boundary_ok b"
  shows "mem_ok b p \<Longrightarrow> mp_state p = s_start_boundary \<Longrightarrow> mp_index p + k = length b \<Longrightarrow>
    feed st takes_nul (drop (mp_index p) b) p d = Some (p\<lparr>mp_index := length b\<rparr>, d)"
proof (induction k arbitrary: p)
  case 0
  then show ?case by auto
next
  case (Suc k)
  then have i: "mp_index p < length b" by simp
  have m: "mem_at p (mp_index p) = Some (b ! mp_index p)" using Suc.prems(1) i
    by (auto simp: mem_ok_def mem_at_def) (metis nth_take)
  have "b ! mp_index p \<noteq> NUL" using b i nth_mem by (fastforce simp: boundary_ok_def)
  then have "feed_byte st takes_nul p d (b ! mp_index p) = Some (p\<lparr>mp_index := mp_index p + 1\<rparr>, d)"
    using Suc.prems m i by (intro feed_byte_one [where m = 0]) (auto simp: mp_step_def start_boundary_def feed_ok_def mem_ok_def)
  moreover have "drop (mp_index p) b = b ! mp_index p # drop (mp_index p + 1) b" using i by (simp add: Cons_nth_drop_Suc)
  ultimately show ?case using Suc.IH [of "p\<lparr>mp_index := mp_index p + 1\<rparr>"] Suc.prems by (simp add: mem_ok_def)
qed

lemma feed_body:
  assumes b: "boundary_ok b" and pts: "pts \<noteq> []" "list_all (part_ok b) pts" and e: "NUL \<notin> set epilogue"
    and t: "tell_parts st takes_nul pts d = Some d'"
  shows "\<exists>p'. feed st takes_nul (body_text b pts epilogue) (multipart_parser_init b) d = Some (p', d') \<and> mp_state p' = s_end"
proof -
  have c: "cstr b = b" using b by (simp add: boundary_ok_def cstr_id)
  let ?p = "(multipart_parser_init b)\<lparr>mp_state := s_start_boundary\<rparr>"
  have m: "mem_ok b ?p" "mp_state ?p = s_start_boundary" "mp_index ?p = 0"
    by (auto simp: multipart_parser_init_def Let_def c mem_ok_def)
  have "feed_byte st takes_nul (multipart_parser_init b) d x = feed_byte st takes_nul ?p d x" for x
    unfolding feed_byte_def feed_ok_def nul_ok_def multipart_parser_execute_def
    by (simp add: numeral_3_eq_3 mp_step_def multipart_parser_init_def Let_def)
  then have s: "feed st takes_nul (body_text b pts epilogue) (multipart_parser_init b) d =
      feed st takes_nul (body_text b pts epilogue) ?p d"
    using b by (cases b) (auto simp: body_text_def boundary_ok_def)
  from feed_start_boundary [OF b m(1,2), of "length b" d] m(3) have
    f: "feed st takes_nul b ?p d = Some (?p\<lparr>mp_index := length b\<rparr>, d)" by simp
  have "at_delimiter b (?p\<lparr>mp_index := length b\<rparr>)" using m by (simp add: at_delimiter_def mem_ok_def)
  from feed_parts [OF b e this _ pts(2) t] pts(1) obtain p' where
    "feed st takes_nul (concat (map (delimited b) pts) @ ''--'' @ epilogue) (?p\<lparr>mp_index := length b\<rparr>) d = Some (p', d')"
    "mp_state p' = s_end" by blast
  with feed_join [OF f this(1)] s show ?thesis by (auto simp: body_text_def)
qed

end

end
