(* ===== verification/Mpart_Body.thy ===== *)
theory Mpart_Body
  imports Multipart_Body
begin

text \<open>
  The client of the multipart parser that collects a form, \<open>mpart-body-processor.c\<close>: the
  callbacks, which keep the headers of the current part and its data, and
  \<open>parse_content_as_multipart_form_data\<close>, which reads the body in chunks of 256 bytes.

  The values of the form are variants of the PurC library; its functions are the fields of the
  parameter \<open>P\<close>.  A key-value list is a map here (theory \<open>Kvlist\<close> shows that the code's lists
  are maps).  The file system is part of the processor's state: \<open>mkstemps\<close> is what the
  coming calls of \<open>mkstemp\<close> and \<open>fdopen\<close> do, \<open>disk\<close> the temporary files, \<open>space\<close> the bytes that
  can still be written.
\<close>

section \<open>C strings\<close>

text \<open>\<open>strsep\<close> with a single delimiter: the token and what is left, \<open>None\<close> for \<open>NULL\<close>.\<close>

definition strsep :: "string option \<Rightarrow> char \<Rightarrow> string option \<times> string option" where
  "strsep s delim =
     (case s of None \<Rightarrow> (None, None)
      | Some x \<Rightarrow>
          (Some (takeWhile (\<lambda>c. c \<noteq> delim) x),
           if delim \<in> set x then Some (tl (dropWhile (\<lambda>c. c \<noteq> delim) x)) else None))"

definition str_starts_with :: "string \<Rightarrow> string \<Rightarrow> bool" where
  "str_starts_with str substr \<longleftrightarrow> take (length substr) str = substr"

text \<open>The loops at the end of the string stop at its first character, which is none to strip.\<close>

definition strip_end :: "(char \<Rightarrow> bool) \<Rightarrow> string \<Rightarrow> string" where
  "strip_end f s = rev (dropWhile f (rev s))"

definition str_trim :: "string \<Rightarrow> string" where
  "str_trim str = strip_end isspace (dropWhile isspace str)"

definition is_quote :: "char \<Rightarrow> bool" where
  "is_quote c \<longleftrightarrow> c = CHR 0x22 \<or> c = CHR 0x27"

definition str_strip_quotes :: "string \<Rightarrow> string" where
  "str_strip_quotes str = strip_end is_quote (dropWhile is_quote str)"

definition str_sanitize :: "string \<Rightarrow> string" where
  "str_sanitize str = map (\<lambda>c. if isspace c then CHR ''_'' else c) str"

section \<open>Attributes of a header value\<close>

text \<open>
  \<open>attrs_map_parse\<close> on the pieces between the semicolons.  A piece without \<open>=\<close> leaves \<open>value\<close> the
  null pointer, which \<open>str_strip_quotes\<close> follows: \<open>None\<close>.
\<close>

definition attr_pair :: "string \<Rightarrow> string option \<times> string option" where
  "attr_pair pair =
     (let (name, rest) = strsep (Some pair) CHR ''=''; (val, rest) = strsep rest CHR ''='' in (name, val))"

fun split_at :: "char \<Rightarrow> string \<Rightarrow> string list" where
  "split_at c [] = [[]]"
| "split_at c (x # xs) =
     (if x = c then [] # split_at c xs
      else case split_at c xs of [] \<Rightarrow> [[x]] | y # ys \<Rightarrow> (x # y) # ys)"

primrec attrs_loop :: "string list \<Rightarrow> (string \<rightharpoonup> string) \<Rightarrow> (string \<rightharpoonup> string) option" where
  "attrs_loop [] m = Some m"
| "attrs_loop (pair # pairs) m =
     (case attr_pair pair of
        (Some name, Some val) \<Rightarrow> attrs_loop pairs (m(str_trim name \<mapsto> str_trim (str_strip_quotes val)))
      | _ \<Rightarrow> None)"

definition attrs_map_parse :: "string \<Rightarrow> (string \<rightharpoonup> string) option" where
  "attrs_map_parse str = attrs_loop (split_at CHR '';'' (dropWhile isspace str)) Map.empty"

section \<open>Variants\<close>

text \<open>
  The functions of PurC the code calls.  \<open>make_string\<close> checks the encoding; an invalid variant
  is \<open>None\<close>.  An object is changed in place; here the operation returns the changed object.
\<close>

record 'v purc =
  make_object_0 :: 'v
  make_null :: 'v
  make_string :: "string \<Rightarrow> 'v option"
  make_ulongint :: "nat \<Rightarrow> 'v"
  object_set :: "'v \<Rightarrow> string \<Rightarrow> 'v option \<Rightarrow> 'v"
  object_get :: "'v \<Rightarrow> string \<Rightarrow> 'v option"

section \<open>The processor\<close>

record 'v mpart_body_processor =
  post :: 'v
  files :: 'v
  headers :: "(string \<rightharpoonup> string) option"
  last_header_name :: "string option"
  last_header_name_len :: nat
  last_header_value :: "string option"
  last_header_value_len :: nat
  mp_name :: "string option"
  mp_data :: "string option"
  data_len :: nat
  fp :: "string option"
  mkstemps :: "(string option \<times> bool) list"
  disk :: "string \<rightharpoonup> string"
  space :: nat

type_synonym 'v processor = "'v mpart_body_processor"

text \<open>
  A string grows: \<open>malloc (len + n + 1)\<close>, \<open>strcpy\<close>, \<open>strncat\<close>.  The copy has to fit into the block,
  whose size is computed from the length that was recorded.
\<close>

definition append_piece :: "string \<Rightarrow> nat \<Rightarrow> string \<Rightarrow> string option" where
  "append_piece old len piece =
     (if length old + length (cstr piece) + 1 \<le> len + length piece + 1 then Some (old @ cstr piece) else None)"

definition add_new_header :: "'v processor \<Rightarrow> 'v processor option" where
  "add_new_header d =
     (case (last_header_name d, last_header_value d, headers d) of
        (Some name, Some val, Some hs) \<Rightarrow>
          Some (d\<lparr>headers := Some (hs(name \<mapsto> val)), last_header_name := None, last_header_value := None,
                  last_header_name_len := 0, last_header_value_len := 0\<rparr>)
      | _ \<Rightarrow> None)"

text \<open>The header that has been collected, if there is one, is stored.\<close>

definition flush_header :: "'v processor \<Rightarrow> 'v processor option" where
  "flush_header d =
     (if last_header_name d \<noteq> None \<and> last_header_value d \<noteq> None then add_new_header d else Some d)"

definition header_field_cb :: "'v processor data_cb" where
  "header_field_cb d buf = do {
     d \<leftarrow> flush_header d;
     case last_header_name d of
       None \<Rightarrow> Some (0, d\<lparr>last_header_name := Some (cstr buf), last_header_name_len := length buf\<rparr>)
     | Some old \<Rightarrow> do {
         new \<leftarrow> append_piece old (last_header_name_len d) buf;
         Some (0, d\<lparr>last_header_name := Some new, last_header_name_len := last_header_name_len d + length buf\<rparr>)
       }
   }"

definition header_value_cb :: "'v processor data_cb" where
  "header_value_cb d buf =
     (if last_header_name d = None then Some (-1, d)
      else case last_header_value d of
        None \<Rightarrow> Some (0, d\<lparr>last_header_value := Some (cstr buf), last_header_value_len := length buf\<rparr>)
      | Some old \<Rightarrow> do {
          new \<leftarrow> append_piece old (last_header_value_len d) buf;
          Some (0, d\<lparr>last_header_value := Some new, last_header_value_len := last_header_value_len d + length buf\<rparr>)
        })"

text \<open>The temporary file of an upload; \<open>None\<close> when it cannot be made.\<close>

definition open_upload :: "'v processor \<Rightarrow> string option \<times> 'v processor" where
  "open_upload d =
     (case mkstemps d of
        (Some tmp, True) # rest \<Rightarrow>
          (Some tmp, d\<lparr>mkstemps := rest, fp := Some tmp, disk := (disk d)(tmp \<mapsto> [])\<rparr>)
      | (Some tmp, False) # rest \<Rightarrow> (None, d\<lparr>mkstemps := rest, fp := None, disk := (disk d)(tmp \<mapsto> [])\<rparr>)
      | _ # rest \<Rightarrow> (None, d\<lparr>mkstemps := rest\<rparr>)
      | [] \<Rightarrow> (None, d))"

definition upload_object :: "'v purc \<Rightarrow> string \<Rightarrow> string \<Rightarrow> string \<Rightarrow> 'v" where
  "upload_object P filename content_type template =
     (let file = make_object_0 P;
          file = object_set P file ''name'' (make_string P filename);
          file = object_set P file ''type'' (make_string P content_type)
      in object_set P file ''tmp_name'' (make_string P template))"

definition headers_complete_cb :: "'v purc \<Rightarrow> 'v processor notify_cb" where
  "headers_complete_cb P d = do {
     d \<leftarrow> flush_header d;
     hs \<leftarrow> headers d;
     case hs ''Content-Disposition'' of
       None \<Rightarrow> Some (-1, d)
     | Some content_disposition \<Rightarrow>
         if \<not> str_starts_with content_disposition ''form-data;'' then Some (-1, d)
         else do {
           attrs \<leftarrow> attrs_map_parse (drop 10 content_disposition);
           case attrs ''name'' of
             None \<Rightarrow> Some (-1, d)
           | Some name \<Rightarrow>
               (case attrs ''filename'' of
                  Some filename \<Rightarrow>
                    (case open_upload d of
                       (None, d) \<Rightarrow> Some (-1, d)
                     | (Some template, d) \<Rightarrow>
                         (case hs ''Content-Type'' of
                            None \<Rightarrow> Some (-1, d)
                          | Some content_type \<Rightarrow>
                              Some (0, d\<lparr>files := object_set P (files d) name
                                           (Some (upload_object P (str_sanitize filename) content_type template)),
                                         mp_name := Some name, headers := None\<rparr>)))
                | None \<Rightarrow>
                    Some (0, d\<lparr>post := object_set P (post d) name (Some (make_null P)),
                               fp := None, mp_name := Some name, headers := None\<rparr>))
         }
   }"

definition part_data_cb :: "'v processor data_cb" where
  "part_data_cb d buf =
     (if mp_name d = None then None
      else case fp d of
        Some f \<Rightarrow> do {
          old \<leftarrow> disk d f;
          let n = min (length buf) (space d);
          let d = d\<lparr>disk := (disk d)(f \<mapsto> old @ take n buf), space := space d - n\<rparr>;
          Some (if n < length buf then (-1, d) else (0, d\<lparr>data_len := data_len d + length buf\<rparr>))
        }
      | None \<Rightarrow>
          (case mp_data d of
             None \<Rightarrow> Some (0, d\<lparr>mp_data := Some (cstr buf), data_len := length buf\<rparr>)
           | Some old \<Rightarrow> do {
               new \<leftarrow> append_piece old (data_len d) buf;
               Some (0, d\<lparr>mp_data := Some new, data_len := data_len d + length buf\<rparr>)
             }))"

definition part_data_begin_cb :: "'v processor notify_cb" where
  "part_data_begin_cb d = (if headers d \<noteq> None then None else Some (0, d\<lparr>headers := Some Map.empty\<rparr>))"

definition part_data_end_cb :: "'v purc \<Rightarrow> 'v processor notify_cb" where
  "part_data_end_cb P d = do {
     name \<leftarrow> mp_name d;
     d \<leftarrow> (case fp d of
        Some f \<Rightarrow> do {
          file \<leftarrow> object_get P (files d) name;
          let file = object_set P file ''size'' (Some (make_ulongint P (data_len d)));
          Some (d\<lparr>files := object_set P (files d) name (Some file), fp := None\<rparr>)
        }
      | None \<Rightarrow>
          Some (case mp_data d of
             None \<Rightarrow> d
           | Some x \<Rightarrow> d\<lparr>post := object_set P (post d) name (make_string P x), mp_data := None\<rparr>));
     Some (0, d\<lparr>mp_name := None\<rparr>)
   }"

definition body_end_cb :: "'v processor notify_cb" where
  "body_end_cb d = Some (0, d)"

definition settings :: "'v purc \<Rightarrow> 'v processor mp_settings" where
  "settings P =
     \<lparr>on_header_field = Some header_field_cb,
      on_header_value = Some header_value_cb,
      on_part_data = Some part_data_cb,
      on_part_data_begin = Some part_data_begin_cb,
      on_headers_complete = Some (headers_complete_cb P),
      on_part_data_end = Some (part_data_end_cb P),
      on_body_end = Some body_end_cb\<rparr>"

section \<open>Reading the body\<close>

definition new_processor ::
  "'v purc \<Rightarrow> (string option \<times> bool) list \<Rightarrow> (string \<rightharpoonup> string) \<Rightarrow> nat \<Rightarrow> 'v processor" where
  "new_processor P tmps dsk sp =
     \<lparr>post = make_object_0 P, files = make_object_0 P, headers = None,
      last_header_name = None, last_header_name_len = 0, last_header_value = None, last_header_value_len = 0,
      mp_name = None, mp_data = None, data_len = 0, fp = None, mkstemps = tmps, disk = dsk, space = sp\<rparr>"

text \<open>
  The loop over the chunks \<open>fread\<close> delivers: 256 bytes, fewer only at the end.  It stops
  when the parser does not take a chunk; every round takes 256 bytes off the input.
\<close>

function body_loop ::
  "'v purc \<Rightarrow> string \<Rightarrow> mp_parser \<Rightarrow> 'v processor \<Rightarrow> nat \<Rightarrow> (nat \<times> mp_parser \<times> 'v processor) option" where
  "body_loop P inp p d nr_bytes =
     (case multipart_parser_execute (settings P) (take 256 inp) p d of
        None \<Rightarrow> None
      | Some (consumed, p, d) \<Rightarrow>
          let n = length (take 256 inp) in
          if consumed < n then Some (nr_bytes, p, d)
          else if n < 256 then Some (nr_bytes + n, p, d)
          else body_loop P (drop 256 inp) p d (nr_bytes + n))"
  by pat_completeness auto

termination
  by (relation "measure (\<lambda>(P, inp, p, d, nr). length inp)") auto

declare body_loop.simps [simp del]

text \<open>The results are the two objects, whatever happened; the function returns 0 always.\<close>

definition parse_content_as_multipart_form_data ::
  "'v purc \<Rightarrow> string \<Rightarrow> string \<Rightarrow> (string option \<times> bool) list \<Rightarrow> (string \<rightharpoonup> string) \<Rightarrow> nat \<Rightarrow>
   (int \<times> 'v \<times> 'v \<times> (string \<rightharpoonup> string)) option" where
  "parse_content_as_multipart_form_data P inp boundary tmps dsk sp = do {
     (nr, p, d) \<leftarrow> body_loop P inp (multipart_parser_init boundary) (new_processor P tmps dsk sp) 0;
     Some (0, post d, files d, disk d)
   }"

section \<open>The value of a cookie\<close>

text \<open>
  \<open>purc_make_object_from_http_header_value\<close>: here \<open>str_trim\<close> follows the null pointer of a missing value.
\<close>

primrec header_value_loop :: "'v purc \<Rightarrow> string list \<Rightarrow> 'v \<Rightarrow> 'v option" where
  "header_value_loop P [] obj = Some obj"
| "header_value_loop P (pair # pairs) obj =
     (case attr_pair pair of
        (Some name, Some val) \<Rightarrow>
          (case (make_string P (str_trim name), make_string P (str_trim val)) of
             (Some k, Some v) \<Rightarrow> header_value_loop P pairs (object_set P obj (str_trim name) (Some v))
           | _ \<Rightarrow> header_value_loop P pairs obj)
      | _ \<Rightarrow> None)"

definition purc_make_object_from_http_header_value :: "'v purc \<Rightarrow> string \<Rightarrow> 'v option" where
  "purc_make_object_from_http_header_value P line =
     header_value_loop P (split_at CHR '';'' (dropWhile isspace line)) (make_object_0 P)"

end
