(* ===== verification/Mpart_Form.thy ===== *)
theory Mpart_Form
  imports Mpart_Body
begin

text \<open>
  The form processor is a client of the multipart parser to which the division into chunks makes
  no difference, and it collects the items of a form from the body they are written as.
\<close>

section \<open>The callbacks and the pieces of a token\<close>

lemma cstr_append: "NUL \<notin> set a \<Longrightarrow> cstr (a @ b) = a @ cstr b"
  by (induction a) (auto simp: cstr_def)

lemma emits_Some [simp]: "emits (Some f) d x d' \<longleftrightarrow> f d x = Some (0, d')"
  by (auto simp: emits_def EMIT_DATA_CB_def bind_eq_Some_conv)

lemma append_piece_id: "NUL \<notin> set piece \<Longrightarrow> append_piece old len piece = (if length old \<le> len then Some (old @ piece) else None)"
  by (simp add: append_piece_def cstr_id)

text \<open>A value is kept only for a name.\<close>

definition header_inv :: "'v processor \<Rightarrow> bool" where
  "header_inv d \<longleftrightarrow> (last_header_name d = None \<longrightarrow> last_header_value d = None)"

definition guarded_field_cb :: "'v processor data_cb" where
  "guarded_field_cb d buf = (if header_inv d then header_field_cb d buf else None)"

lemma flush_header_cases:
  assumes "flush_header d = Some d'" "header_inv d"
  shows "last_header_value d' = None \<and> header_inv d'"
  using assms by (auto simp: flush_header_def add_new_header_def header_inv_def split: if_splits option.splits)

lemma flush_header_done: "last_header_value d = None \<Longrightarrow> flush_header d = Some d"
  by (simp add: flush_header_def)

lemma header_field_pieces:
  assumes n: "NUL \<notin> set (a @ b)"
  shows "guarded_field_cb d (a @ b) =
    do { (rc, d) \<leftarrow> guarded_field_cb d a; if rc = 0 then guarded_field_cb d b else Some (rc, d) }"
proof (cases "header_inv d \<and> flush_header d \<noteq> None")
  case True
  then obtain d1 where f: "flush_header d = Some d1" by auto
  with flush_header_cases [OF f] True have v: "last_header_value d1 = None" and i: "header_inv d" by auto
  show ?thesis using n i v f
    by (cases "last_header_name d1")
       (auto simp: guarded_field_cb_def header_field_cb_def flush_header_done append_piece_id cstr_id header_inv_def)
qed (auto simp: guarded_field_cb_def header_field_cb_def)

lemma header_value_pieces:
  assumes "NUL \<notin> set (a @ b)"
  shows "header_value_cb d (a @ b) = do { (rc, d) \<leftarrow> header_value_cb d a; if rc = 0 then header_value_cb d b else Some (rc, d) }"
  using assms by (auto simp: header_value_cb_def append_piece_id cstr_id split: option.splits)

text \<open>For an upload this holds as long as the disk is not full.\<close>

definition uploads :: "'v processor \<Rightarrow> bool" where
  "uploads d \<longleftrightarrow> fp d \<noteq> None"

lemma part_data_file:
  assumes "fp d = Some f"
  shows "part_data_cb d x = Some (0, d') \<longleftrightarrow> mp_name d \<noteq> None \<and> length x \<le> space d \<and>
    (\<exists>old. disk d f = Some old \<and>
      d' = d\<lparr>disk := (disk d)(f \<mapsto> old @ x), space := space d - length x, data_len := data_len d + length x\<rparr>)"
  using assms by (auto simp: part_data_cb_def Let_def min_def bind_eq_Some_conv split: if_splits)

lemma part_data_pieces:
  assumes "uploads d \<or> NUL \<notin> set (a @ b)"
  shows "part_data_cb d (a @ b) = Some (0, d2) \<longleftrightarrow>
    (\<exists>d1. part_data_cb d a = Some (0, d1) \<and> part_data_cb d1 b = Some (0, d2))"
proof (cases "fp d")
  case None
  then show ?thesis using assms
    by (cases "mp_data d") (auto simp: uploads_def part_data_cb_def append_piece_id cstr_id)
next
  case (Some f)
  show ?thesis
  proof
    assume "part_data_cb d (a @ b) = Some (0, d2)"
    then obtain old where o: "mp_name d \<noteq> None" "disk d f = Some old" "length a + length b \<le> space d"
      "d2 = d\<lparr>disk := (disk d)(f \<mapsto> old @ a @ b), space := space d - (length a + length b), data_len := data_len d + (length a + length b)\<rparr>"
      by (auto simp: part_data_file [OF Some])
    let ?d = "d\<lparr>disk := (disk d)(f \<mapsto> old @ a), space := space d - length a, data_len := data_len d + length a\<rparr>"
    have "part_data_cb d a = Some (0, ?d)" using o by (simp add: part_data_file [OF Some])
    moreover have "part_data_cb ?d b = Some (0, d2)" using o Some by (simp add: part_data_file [of ?d f])
    ultimately show "\<exists>d1. part_data_cb d a = Some (0, d1) \<and> part_data_cb d1 b = Some (0, d2)" by blast
  next
    assume "\<exists>d1. part_data_cb d a = Some (0, d1) \<and> part_data_cb d1 b = Some (0, d2)"
    then obtain old where o: "mp_name d \<noteq> None" "disk d f = Some old" "length a \<le> space d"
      "part_data_cb (d\<lparr>disk := (disk d)(f \<mapsto> old @ a), space := space d - length a, data_len := data_len d + length a\<rparr>) b = Some (0, d2)"
      by (auto simp: part_data_file [OF Some])
    then show "part_data_cb d (a @ b) = Some (0, d2)" using Some
      by (auto simp: part_data_file [OF Some] part_data_file [of "d\<lparr>disk := (disk d)(f \<mapsto> old @ a), space := space d - length a, data_len := data_len d + length a\<rparr>" f])
  qed
qed

section \<open>The processor as a client\<close>

definition guarded_settings :: "'v purc \<Rightarrow> 'v processor mp_settings" where
  "guarded_settings P = (settings P)\<lparr>on_header_field := Some guarded_field_cb\<rparr>"

lemma guarded_fields [simp]:
  "on_header_field (guarded_settings P) = Some guarded_field_cb"
  "on_header_value (guarded_settings P) = Some header_value_cb"
  "on_part_data (guarded_settings P) = Some part_data_cb"
  "on_part_data_begin (guarded_settings P) = Some part_data_begin_cb"
  "on_headers_complete (guarded_settings P) = Some (headers_complete_cb P)"
  "on_part_data_end (guarded_settings P) = Some (part_data_end_cb P)"
  "on_body_end (guarded_settings P) = Some body_end_cb"
  by (simp_all add: guarded_settings_def settings_def)

lemma part_data_fp: "part_data_cb d a = Some (0, d') \<Longrightarrow> uploads d' = uploads d"
proof (cases "fp d")
  case None
  then show "part_data_cb d a = Some (0, d') \<Longrightarrow> uploads d' = uploads d"
    by (cases "mp_data d") (auto simp: uploads_def part_data_cb_def bind_eq_Some_conv split: if_splits)
next
  case (Some f)
  then show "part_data_cb d a = Some (0, d') \<Longrightarrow> uploads d' = uploads d"
    by (auto simp: uploads_def part_data_file [OF Some])
qed

lemma pieces_iff:
  assumes "f d (a @ b) = Option.bind (f d a) (\<lambda>(rc, d). if rc = 0 then f d b else Some (rc, d))"
  shows "f d (a @ b) = Some (0 :: int, d2) \<longleftrightarrow> (\<exists>d1. f d a = Some (0, d1) \<and> f d1 b = Some (0, d2))"
  unfolding assms by (auto simp: bind_eq_Some_conv split: if_splits)

interpretation form: mp_client_split "guarded_settings P" uploads for P :: "'v purc"
proof (unfold_locales, goal_cases)
  case (1 d a d1 b d2) then show ?case using pieces_iff [of guarded_field_cb d a b d2] header_field_pieces [of a b d] by auto
next
  case (2 d a d1 b d2) then show ?case using pieces_iff [of header_value_cb d a b d2] header_value_pieces [of a b d] by auto
next
  case (3 d a d1 b d2) then show ?case using part_data_pieces [of d a b d2] by auto
next
  case (4 d a d1) then show ?case by (simp add: part_data_fp)
next
  case (5 d a b d2) then show ?case using pieces_iff [of guarded_field_cb d a b d2] header_field_pieces [of a b d] by auto
next
  case (6 d a b d2) then show ?case using pieces_iff [of header_value_cb d a b d2] header_value_pieces [of a b d] by auto
next
  case (7 d a b d2) then show ?case using part_data_pieces [of d a b d2] by auto
qed

text \<open>A run with the guard is a run of the code.\<close>

lemma guarded_emit:
  "EMIT_DATA_CB (on_header_field (guarded_settings P)) d x = Some r \<Longrightarrow>
   EMIT_DATA_CB (on_header_field (settings P)) d x = Some r"
  by (auto simp: EMIT_DATA_CB_def guarded_field_cb_def settings_def split: if_splits)

lemma guarded_step:
  assumes "mp_step (guarded_settings P) buf c i m p d = Some r"
  shows "mp_step (settings P) buf c i m p d = Some r"
proof -
  have hf: "header_field (settings P) buf c i m' q d = Some r" if "header_field (guarded_settings P) buf c i m' q d = Some r" for m' q
  proof (cases "c = CHR '':'' \<or> header_char c \<and> i + 1 = length buf")
    case True
    define x where "x = (if c = CHR '':'' then slice buf m' i else slice buf m' (i + 1))"
    show ?thesis
    proof (cases "EMIT_DATA_CB (on_header_field (guarded_settings P)) d x")
      case None
      with that True show ?thesis unfolding header_field_def x_def by (auto split: if_splits)
    next
      case (Some y)
      with guarded_emit [OF Some] that True show ?thesis unfolding header_field_def x_def by (auto split: if_splits)
    qed
  next
    case False
    with that show ?thesis unfolding header_field_def by (auto split: if_splits)
  qed
  have "mp_step (guarded_settings P) buf c i m p d = mp_step (settings P) buf c i m p d"
    if "mp_state p \<noteq> s_header_field" "mp_state p \<noteq> s_header_field_start"
    using that by (cases "mp_state p") (simp_all add: mp_step_def mp_cases guarded_settings_def cong: if_cong)
  then show ?thesis using assms hf by (cases "mp_state p = s_header_field \<or> mp_state p = s_header_field_start") (auto simp: mp_step_def)
qed

lemma guarded_loop:
  "mp_loop (guarded_settings P) buf fuel i m p d = Some r \<Longrightarrow> mp_loop (settings P) buf fuel i m p d = Some r"
proof (induction fuel arbitrary: i m p d)
  case (Suc fuel)
  show ?case
  proof (cases "i < length buf")
    case True
    with Suc.prems obtain out p1 d1 where s: "mp_step (guarded_settings P) buf (buf ! i) i m p d = Some (out, p1, d1)"
      by (auto simp: bind_eq_Some_conv)
    with Suc.prems True guarded_step [OF s] Suc.IH show ?thesis by (cases out) auto
  qed (use Suc.prems in simp)
qed simp

lemma guarded_execute:
  "multipart_parser_execute (guarded_settings P) buf p d = Some r \<Longrightarrow>
   multipart_parser_execute (settings P) buf p d = Some r"
  by (simp add: multipart_parser_execute_def guarded_loop del: mp_loop.simps)

section \<open>The loop over the chunks\<close>

lemma body_loop_feed:
  "feed (guarded_settings P) uploads inp p d = Some (p', d') \<Longrightarrow>
   body_loop P inp p d nr = Some (nr + length inp, p', d')"
proof (induction P inp p d nr rule: body_loop.induct)
  case (1 P inp p d nr)
  have "feed (guarded_settings P) uploads (take 256 inp @ drop 256 inp) p d = Some (p', d')" using "1.prems" by simp
  then obtain p1 d1 where f: "feed (guarded_settings P) uploads (take 256 inp) p d = Some (p1, d1)"
      "feed (guarded_settings P) uploads (drop 256 inp) p1 d1 = Some (p', d')"
    unfolding feed_append by (auto simp: bind_eq_Some_conv)
  have e: "multipart_parser_execute (settings P) (take 256 inp) p d = Some (length (take 256 inp), p1, d1)"
    by (rule guarded_execute [OF form.execute_feed [OF f(1)]])
  show ?case
  proof (cases "length inp < 256")
    case True
    then show ?thesis using e f(2) by (subst body_loop.simps) simp
  next
    case False
    then have n: "length (take 256 inp) = 256" by simp
    have "body_loop P (drop 256 inp) p1 d1 (nr + 256) = Some (nr + 256 + length (drop 256 inp), p', d')"
      using "1.IH" [OF e refl refl n [symmetric]] f(2) n by simp
    then show ?thesis using e n False by (subst body_loop.simps) simp
  qed
qed

section \<open>Forms\<close>

text \<open>The items of a form and the parts they are sent as.\<close>

datatype form_item =
    Text_item string string
  | Upload_item string string string string

definition quoted :: "string \<Rightarrow> string" where
  "quoted s = CHR 0x22 # s @ [CHR 0x22]"

fun item_part :: "form_item \<Rightarrow> part" where
  "item_part (Text_item n v) =
     \<lparr>part_headers = [(''Content-Disposition'', ''form-data; name='' @ quoted n)], part_content = v\<rparr>"
| "item_part (Upload_item n f ct c) =
     \<lparr>part_headers = [(''Content-Disposition'', ''form-data; name='' @ quoted n @ ''; filename='' @ quoted f),
                      (''Content-Type'', ct)], part_content = c\<rparr>"

text \<open>A name goes into the header as it is, so it must be free of what means something there.\<close>

definition name_ok :: "string \<Rightarrow> bool" where
  "name_ok n \<longleftrightarrow> list_all (\<lambda>c. \<not> is_quote c \<and> c \<noteq> CHR '';'' \<and> c \<noteq> CHR ''='' \<and> c \<noteq> CR \<and> c \<noteq> NUL) n \<and> str_trim n = n"

fun item_ok :: "string \<Rightarrow> form_item \<Rightarrow> bool" where
  "item_ok b (Text_item n v) \<longleftrightarrow> name_ok n \<and> NUL \<notin> set v \<and> delimiter_last ([CR, LF] @ b) v"
| "item_ok b (Upload_item n f ct c) \<longleftrightarrow> name_ok n \<and> name_ok f \<and> header_ok (''Content-Type'', ct) \<and>
     delimiter_last ([CR, LF] @ b) c"

text \<open>
  What the processor makes of an item.  The size of an upload is counted from what \<open>data_len\<close>
  was before, which is not always 0.
\<close>

fun collect_item :: "'v purc \<Rightarrow> form_item \<Rightarrow> 'v processor \<Rightarrow> 'v processor option" where
  "collect_item P (Text_item n v) d =
     Some (d\<lparr>post := object_set P (object_set P (post d) n (Some (make_null P))) n (make_string P v),
             data_len := length v\<rparr>)"
| "collect_item P (Upload_item n f ct c) d =
     (case open_upload d of
        (Some tmp, _) \<Rightarrow>
          (if length c \<le> space d then
             (let file = upload_object P (str_sanitize f) ct tmp
              in Some (d\<lparr>mkstemps := tl (mkstemps d),
                   files := object_set P (object_set P (files d) n (Some file)) n
                     (Some (object_set P file ''size'' (Some (make_ulongint P (data_len d + length c))))),
                   disk := (disk d)(tmp \<mapsto> c), space := space d - length c, data_len := data_len d + length c\<rparr>))
           else None)
      | (None, _) \<Rightarrow> None)"

primrec collect :: "'v purc \<Rightarrow> form_item list \<Rightarrow> 'v processor \<Rightarrow> 'v processor option" where
  "collect P [] d = Some d"
| "collect P (it # its) d = do { d \<leftarrow> collect_item P it d; collect P its d }"

subsection \<open>Attributes\<close>

lemma split_at_none: "c \<notin> set x \<Longrightarrow> split_at c x = [x]"
  by (induction x) auto

lemma split_at_append: "c \<notin> set x \<Longrightarrow> split_at c (x @ c # y) = x # split_at c y"
  by (induction x) auto

lemma while_until:
  "c \<notin> set x \<Longrightarrow> takeWhile (\<lambda>a. a \<noteq> c) (x @ c # y) = x \<and> dropWhile (\<lambda>a. a \<noteq> c) (x @ c # y) = c # y"
  by (induction x) auto

lemma while_none: "c \<notin> set x \<Longrightarrow> takeWhile (\<lambda>a. a \<noteq> c) x = x"
  by (induction x) auto

lemma attr_pair_eq: "CHR ''='' \<notin> set n \<Longrightarrow> CHR ''='' \<notin> set v \<Longrightarrow> attr_pair (n @ CHR ''='' # v) = (Some n, Some v)"
  by (simp add: attr_pair_def strsep_def while_until while_none)

lemma strip_quoted:
  assumes "list_all (\<lambda>c. \<not> is_quote c) s"
  shows "str_strip_quotes (quoted s) = s"
proof -
  have q: "is_quote (CHR 0x22)" by (simp add: is_quote_def)
  have d: "dropWhile is_quote (s @ [CHR 0x22]) = (if s = [] then [] else s @ [CHR 0x22])"
    using assms q by (cases s) auto
  have r: "dropWhile is_quote (rev s) = rev s" using assms
    by (auto simp: dropWhile_eq_self_iff list_all_iff hd_rev)
  show ?thesis using q d r by (auto simp: str_strip_quotes_def quoted_def strip_end_def)
qed

lemma name_okD:
  assumes "name_ok n"
  shows "list_all (\<lambda>c. \<not> is_quote c) n" "CHR '';'' \<notin> set (quoted n)" "CHR ''='' \<notin> set (quoted n)" "CR \<notin> set (quoted n)"
    "NUL \<notin> set (quoted n)" "str_trim (str_strip_quotes (quoted n)) = n"
proof -
  have "list_all (\<lambda>c. \<not> is_quote c) n" and t: "str_trim n = n" using assms by (auto simp: name_ok_def list_all_iff)
  then show "list_all (\<lambda>c. \<not> is_quote c) n" "str_trim (str_strip_quotes (quoted n)) = n" by (simp_all add: strip_quoted)
qed (use assms in \<open>auto simp: name_ok_def quoted_def list_all_iff CR_def NUL_def\<close>)

lemma text_attrs:
  assumes "name_ok n"
  shows "attrs_map_parse ('' name='' @ quoted n) = Some [''name'' \<mapsto> n]"
proof -
  have "attrs_map_parse ('' name='' @ quoted n) = attrs_loop (split_at CHR '';'' (''name='' @ quoted n)) Map.empty"
    by (simp add: attrs_map_parse_def isspace_def)
  also have "split_at CHR '';'' (''name='' @ quoted n) = [''name'' @ CHR ''='' # quoted n]"
    using name_okD(2) [OF assms] by (subst split_at_none) auto
  finally show ?thesis using attr_pair_eq [of "''name''" "quoted n"] name_okD(3,6) [OF assms]
    by (simp add: str_trim_def strip_end_def isspace_def)
qed

lemma upload_attrs:
  assumes "name_ok n" "name_ok f"
  shows "attrs_map_parse ('' name='' @ quoted n @ ''; filename='' @ quoted f) = Some [''name'' \<mapsto> n, ''filename'' \<mapsto> f]"
proof -
  have "attrs_map_parse ('' name='' @ quoted n @ ''; filename='' @ quoted f) =
      attrs_loop (split_at CHR '';'' ((''name='' @ quoted n) @ CHR '';'' # ('' filename='' @ quoted f))) Map.empty"
    by (simp add: attrs_map_parse_def isspace_def)
  also have "split_at CHR '';'' ((''name='' @ quoted n) @ CHR '';'' # ('' filename='' @ quoted f)) =
      [''name'' @ CHR ''='' # quoted n, '' filename'' @ CHR ''='' # quoted f]"
    using name_okD(2) [OF assms(1)] name_okD(2) [OF assms(2)] by (subst split_at_append) (auto simp: split_at_none)
  finally show ?thesis
    using attr_pair_eq [of "''name''" "quoted n"] attr_pair_eq [of "'' filename''" "quoted f"]
      name_okD(3,6) [OF assms(1)] name_okD(3,6) [OF assms(2)]
    by (simp add: str_trim_def strip_end_def isspace_def)
qed

subsection \<open>One item\<close>

definition idle_processor :: "'v processor \<Rightarrow> bool" where
  "idle_processor d \<longleftrightarrow> headers d = None \<and> last_header_name d = None \<and> last_header_value d = None \<and>
     last_header_name_len d = 0 \<and> last_header_value_len d = 0 \<and> mp_name d = None \<and> mp_data d = None \<and> fp d = None"

lemma told_Some: "told (Some f) d x = (case f d x of Some (rc, d') \<Rightarrow> if rc = 0 then Some d' else None | None \<Rightarrow> None)"
  by (auto simp: told_def EMIT_DATA_CB_def split: option.splits)

lemma notified_Some: "notified (Some f) d = (case f d of Some (rc, d') \<Rightarrow> if rc = 0 then Some d' else None | None \<Rightarrow> None)"
  by (auto simp: notified_def NOTIFY_CB_def split: option.splits)

lemmas callbacks = told_Some notified_Some guarded_field_cb_def header_field_cb_def header_value_cb_def
  flush_header_def add_new_header_def header_inv_def part_data_begin_cb_def body_end_cb_def

lemma collect_text:
  assumes d: "idle_processor d" and n: "name_ok n" and v: "NUL \<notin> set v"
  shows "tell_part (guarded_settings P) uploads (item_part (Text_item n v)) d = collect_item P (Text_item n v) d"
proof -
  have c: "cstr ''Content-Disposition'' = ''Content-Disposition''"
      "cstr (''form-data; name='' @ quoted n) = ''form-data; name='' @ quoted n"
    using name_okD(5) [OF n] by (auto intro!: cstr_id simp: NUL_def)
  have a: "attrs_map_parse (drop 10 (''form-data; name='' @ quoted n)) = Some [''name'' \<mapsto> n]"
    using text_attrs [OF n] by simp
  show ?thesis using d a c v
    by (simp add: tell_part_def callbacks headers_complete_cb_def str_starts_with_def part_data_cb_def part_data_end_cb_def
        idle_processor_def cstr_id)
qed

text \<open>What the code relies on in PurC: a property that was set is found.\<close>

definition purc_laws :: "'v purc \<Rightarrow> bool" where
  "purc_laws P \<longleftrightarrow> (\<forall>ob k v. object_get P (object_set P ob k (Some v)) k = Some v)"

lemma collect_upload:
  assumes d: "idle_processor d" and n: "name_ok n" "name_ok f" and ct: "NUL \<notin> set ct" and P: "purc_laws P"
    and c: "collect_item P (Upload_item n f ct c) d = Some d'"
  shows "tell_part (guarded_settings P) uploads (item_part (Upload_item n f ct c)) d = Some d'"
proof -
  from c obtain tmp rest where m: "mkstemps d = (Some tmp, True) # rest" and sp: "length c \<le> space d"
    by (auto simp: open_upload_def split: list.splits option.splits prod.splits bool.splits if_splits)
  have cs: "cstr ''Content-Disposition'' = ''Content-Disposition''" "cstr ''Content-Type'' = ''Content-Type''"
      "cstr (''form-data; name='' @ quoted n @ ''; filename='' @ quoted f) = ''form-data; name='' @ quoted n @ ''; filename='' @ quoted f"
      "cstr ct = ct"
    using name_okD(5) [OF n(1)] name_okD(5) [OF n(2)] ct by (auto intro!: cstr_id simp: NUL_def)
  have a: "attrs_map_parse (drop 10 (''form-data; name='' @ quoted n @ ''; filename='' @ quoted f)) =
      Some [''name'' \<mapsto> n, ''filename'' \<mapsto> f]"
    using upload_attrs [OF n] by simp
  show ?thesis using d a cs m sp c P
    by (simp add: tell_part_def callbacks headers_complete_cb_def str_starts_with_def part_data_cb_def part_data_end_cb_def
        idle_processor_def open_upload_def uploads_def purc_laws_def Let_def upload_object_def)
      (cases d; auto)
qed

lemma collect_idle: "collect_item P it d = Some d' \<Longrightarrow> idle_processor d \<Longrightarrow> idle_processor d'"
  by (cases it) (auto simp: idle_processor_def Let_def split: option.splits prod.splits if_splits)

lemma item_partD: "item_ok b it \<Longrightarrow> part_ok b (item_part it)"
  by (cases it) (auto simp: part_ok_def header_ok_def header_char_def name_okD tolower_def CR_def NUL_def dest: name_okD(4,5))

lemma collect_tell_part:
  assumes "collect_item P it d = Some d'" "item_ok b it" "idle_processor d" "purc_laws P"
  shows "tell_part (guarded_settings P) uploads (item_part it) d = Some d'"
  using assms by (cases it) (auto simp: collect_text header_ok_def simp del: item_part.simps collect_item.simps intro!: collect_upload)

lemma collect_tell_parts:
  "collect P its d = Some d' \<Longrightarrow> list_all (item_ok b) its \<Longrightarrow> idle_processor d \<Longrightarrow> purc_laws P \<Longrightarrow>
   tell_parts (guarded_settings P) uploads (map item_part its) d = Some d'"
proof (induction its arbitrary: d)
  case Nil
  then show ?case by (simp add: notified_Some body_end_cb_def)
next
  case (Cons it its)
  then obtain d1 where "collect_item P it d = Some d1" "collect P its d1 = Some d'" by (auto simp: bind_eq_Some_conv)
  with Cons show ?case using collect_tell_part [of P it d d1 b] collect_idle [of P it d d1] by simp
qed

section \<open>The form arrives\<close>

text \<open>
  C2. A form that is sent as a multipart body whose delimiter is the boundary the parser was
  given is collected whatever the chunks: the two objects hold what each item says, with the
  uploads on the disk, for any contents that do not contain the delimiter.
\<close>

theorem form_collected:
  assumes "boundary_ok b" "its \<noteq> []" "list_all (item_ok b) its" "NUL \<notin> set epilogue" "purc_laws P"
    "collect P its (new_processor P tmps dsk sp) = Some d"
  shows "parse_content_as_multipart_form_data P (body_text b (map item_part its) epilogue) b tmps dsk sp =
    Some (0, post d, files d, disk d)"
proof -
  have i: "idle_processor (new_processor P tmps dsk sp)" by (simp add: idle_processor_def new_processor_def)
  have "tell_parts (guarded_settings P) uploads (map item_part its) (new_processor P tmps dsk sp) = Some d"
    by (rule collect_tell_parts [OF assms(6,3) i assms(5)])
  moreover have "list_all (part_ok b) (map item_part its)" using assms(3) by (auto simp: list_all_iff item_partD)
  ultimately obtain p' where
    "feed (guarded_settings P) uploads (body_text b (map item_part its) epilogue) (multipart_parser_init b)
      (new_processor P tmps dsk sp) = Some (p', d)"
    using form.feed_body [OF assms(1) _ _ assms(4)] assms(2) by blast
  from body_loop_feed [OF this] show ?thesis by (simp add: parse_content_as_multipart_form_data_def)
qed

text \<open>A form of PurC objects that are association lists.\<close>

datatype sample_variant = SNull | SStr string | SNum nat | SObj "(string \<times> sample_variant) list"

definition sample_purc :: "sample_variant purc" where
  "sample_purc =
     \<lparr>make_object_0 = SObj [], make_null = SNull, make_string = (\<lambda>s. Some (SStr s)), make_ulongint = SNum,
      object_set = (\<lambda>ob k v. case v of None \<Rightarrow> ob
        | Some x \<Rightarrow> (case ob of SObj kvs \<Rightarrow> SObj ((k, x) # filter (\<lambda>kv. fst kv \<noteq> k) kvs) | _ \<Rightarrow> SObj [(k, x)])),
      object_get = (\<lambda>ob k. case ob of SObj kvs \<Rightarrow> map_of kvs k | _ \<Rightarrow> None)\<rparr>"

lemma sample_purc_laws: "purc_laws sample_purc"
  by (auto simp: purc_laws_def sample_purc_def split: sample_variant.split)

definition sample_items :: "form_item list" where
  "sample_items = [Text_item ''user'' (''a'' @ [CR, LF] @ ''--x''), Upload_item ''doc'' ''my file'' ''text/plain'' [NUL, CR, CR, LF]]"

lemma delimiter_lastI:
  assumes "list_all (\<lambda>k. take (length delim) (drop k (z @ delim)) \<noteq> delim) [0..<length z]"
  shows "delimiter_last delim z"
  unfolding delimiter_last_def
proof (intro allI impI)
  fix u v assume e: "z @ delim = u @ delim @ v"
  have l: "length u + length v = length z" using arg_cong [OF e, of length] by simp
  have "take (length delim) (drop (length u) (z @ delim)) = delim" unfolding e by simp
  then have "\<not> length u < length z" using assms by (auto simp: list_all_iff)
  with l show "v = []" by (cases v) auto
qed

lemma sample_form:
  "list_all (item_ok ''--xyz'') sample_items" "boundary_ok ''--xyz''" "NUL \<notin> set [CR, LF]" "sample_items \<noteq> []"
proof -
  have dl: "delimiter_last ([CR, LF] @ ''--xyz'') (''a'' @ [CR, LF] @ ''--x'')"
      "delimiter_last ([CR, LF] @ ''--xyz'') [NUL, CR, CR, LF]"
    by (rule delimiter_lastI, simp add: CR_def LF_def NUL_def upt_rec)+
  have n: "name_ok ''user''" "name_ok ''doc''" "name_ok ''my file''"
    by (simp_all add: name_ok_def is_quote_def str_trim_def strip_end_def isspace_def CR_def NUL_def)
  show "list_all (item_ok ''--xyz'') sample_items"
    using dl n by (simp add: sample_items_def header_ok_def header_char_def tolower_def CR_def NUL_def LF_def)
qed (simp_all add: boundary_ok_def CR_def NUL_def LF_def sample_items_def)

lemma form_collected_witness:
  "parse_content_as_multipart_form_data sample_purc (body_text ''--xyz'' (map item_part sample_items) [CR, LF]) ''--xyz''
     [(Some ''/var/tmp/hvml-1'', True)] Map.empty 1000 =
   Some (0, SObj [(''user'', SStr (''a'' @ [CR, LF] @ ''--x''))],
     SObj [(''doc'', SObj [(''size'', SNum 10), (''tmp_name'', SStr ''/var/tmp/hvml-1''), (''type'', SStr ''text/plain''),
        (''name'', SStr ''my_file'')])],
     [''/var/tmp/hvml-1'' \<mapsto> [NUL, CR, CR, LF]])"
proof -
  obtain d where d: "collect sample_purc sample_items (new_processor sample_purc [(Some ''/var/tmp/hvml-1'', True)] Map.empty 1000) = Some d"
      "post d = SObj [(''user'', SStr (''a'' @ [CR, LF] @ ''--x''))]"
      "files d = SObj [(''doc'', SObj [(''size'', SNum 10), (''tmp_name'', SStr ''/var/tmp/hvml-1''), (''type'', SStr ''text/plain''),
        (''name'', SStr ''my_file'')])]"
      "disk d = [''/var/tmp/hvml-1'' \<mapsto> [NUL, CR, CR, LF]]"
    by (simp add: sample_items_def new_processor_def open_upload_def upload_object_def sample_purc_def Let_def
        str_sanitize_def isspace_def)
  show ?thesis using form_collected [OF sample_form(2,4,1,3) sample_purc_laws d(1)] d(2-4) by simp
qed

section \<open>A standard body\<close>

text \<open>
  RFC 2046 puts two hyphens before the boundary parameter in every delimiter.  The parser compares
  with what it was given, and \<open>make_request\<close> hands over the parameter as it is.
\<close>

lemma start_boundary_stops:
  assumes m: "mem_ok c p" "NUL \<notin> set c" and l: "length c < length buf" "buf ! length c \<noteq> CR"
  shows "mp_state p = s_start_boundary \<Longrightarrow> mp_index p = i \<Longrightarrow> i \<le> length c \<Longrightarrow> length c - i < fuel \<Longrightarrow>
    \<exists>k p'. mp_loop st buf fuel i mk p d = Some (k, p', d) \<and> k \<le> length c"
  using m(1)
proof (induction "length c - i" arbitrary: i p fuel)
  case 0
  then have "i = length c" by simp
  with 0 l show ?case by (cases fuel) (auto simp: mp_step_def start_boundary_def mem_ok_def)
next
  case (Suc n)
  then obtain fuel1 where fu: "fuel = Suc fuel1" by (cases fuel) auto
  have i: "i < length c" using Suc.hyps(2) by simp
  have a: "mem_at p i = Some (c ! i)" using Suc.prems(5) i
    by (auto simp: mem_ok_def mem_at_def) (metis nth_take)
  have bl: "boundary_length p = length c" using Suc.prems(5) by (simp add: mem_ok_def)
  show ?case
  proof (cases "buf ! i = c ! i")
    case True
    then show ?thesis using Suc.hyps(1) [of "Suc i" "p\<lparr>mp_index := Suc i\<rparr>" fuel1] Suc.hyps(2) Suc.prems a i l bl fu
      by (simp add: mp_step_def start_boundary_def mem_ok_def)
  next
    case False
    then show ?thesis using Suc.prems a i l bl fu by (simp add: mp_step_def start_boundary_def)
  qed
qed

text \<open>
  C33. A body delimited as the standard says, by two hyphens and the boundary parameter, is
  given up at its first delimiter when the parser is given the parameter itself, as
  \<open>make_request\<close> does: nothing of the form is collected, and the function still returns 0.
\<close>

theorem standard_body_lost:
  assumes "NUL \<notin> set boundary" "CR \<notin> set boundary" "length boundary \<le> 70"
  shows "parse_content_as_multipart_form_data P (''--'' @ boundary @ [CR, LF] @ rest) boundary tmps dsk sp =
    Some (0, make_object_0 P, make_object_0 P, dsk)"
proof -
  let ?inp = "''--'' @ boundary @ [CR, LF] @ rest"
  let ?buf = "take 256 ?inp" and ?p = "multipart_parser_init boundary" and ?d = "new_processor P tmps dsk sp"
  have l: "length boundary < length ?buf" using assms(3) by simp
  have "?buf ! length boundary = (''--'' @ boundary) ! length boundary" using assms(3)
    by (simp add: nth_append nth_Cons' del: take_Suc_Cons)
  moreover have "(''--'' @ boundary) ! length boundary \<in> set (''--'' @ boundary)" by (rule nth_mem) simp
  ultimately have ncr: "?buf ! length boundary \<noteq> CR" using assms(2) by (auto simp: CR_def)
  have c: "cstr boundary = boundary" using assms(1) by (simp add: cstr_id)
  have m: "mem_ok boundary (?p\<lparr>mp_state := s_start_boundary\<rparr>)" by (simp add: mem_ok_def multipart_parser_init_def Let_def c)
  have s: "mp_loop (settings P) ?buf (Suc (2 * length ?buf)) 0 0 ?p ?d =
      mp_loop (settings P) ?buf (Suc (2 * length ?buf)) 0 0 (?p\<lparr>mp_state := s_start_boundary\<rparr>) ?d"
    by (simp add: mp_step_def multipart_parser_init_def Let_def)
  from start_boundary_stops [OF m assms(1) l ncr, of 0 "Suc (2 * length ?buf)" "settings P" 0 ?d] obtain k p' where
    k: "multipart_parser_execute (settings P) ?buf ?p ?d = Some (k, p', ?d)" "k \<le> length boundary"
    unfolding multipart_parser_execute_def s using l by (auto simp: multipart_parser_init_def Let_def)
  then have "body_loop P ?inp ?p ?d 0 = Some (0, p', ?d)"
    using l by (subst body_loop.simps) (simp del: take_Suc_Cons append_Cons)
  then show ?thesis by (simp add: parse_content_as_multipart_form_data_def new_processor_def)
qed

lemma standard_body_lost_witness:
  "parse_content_as_multipart_form_data sample_purc (''--'' @ ''xyz'' @ [CR, LF] @ ''Content-Disposition: form-data'') ''xyz'' [] Map.empty 9 =
   Some (0, SObj [], SObj [], Map.empty)"
  using standard_body_lost [of "''xyz''" sample_purc "''Content-Disposition: form-data''" "[]" Map.empty 9]
  by (simp add: NUL_def CR_def sample_purc_def)

end
