(* ===== verification/Multipart_Safety.thy ===== *)
theory Multipart_Safety
  imports Mpart_Form
begin

text \<open>
  What the parser does with any bytes at all: for a boundary that is not empty it stays inside
  its block and returns; for an empty boundary it does not stay inside.
\<close>

section \<open>The invariant of the parser\<close>

definition parser_inv :: "string \<Rightarrow> mp_parser \<Rightarrow> bool" where
  "parser_inv b p \<longleftrightarrow> boundary_length p = length b \<and> length (mem p) = 2 * length b + 17 \<and>
     take (length b) (mem p) = b \<and>
     (mp_state p = s_start_boundary \<longrightarrow> mp_index p \<le> length b + 1) \<and>
     (mp_state p = s_part_data_boundary \<longrightarrow> mp_index p < length b)"

text \<open>Callbacks that do not abort.\<close>

definition total_settings :: "'d mp_settings \<Rightarrow> bool" where
  "total_settings st \<longleftrightarrow>
     (\<forall>d x. EMIT_DATA_CB (on_header_field st) d x \<noteq> None \<and> EMIT_DATA_CB (on_header_value st) d x \<noteq> None \<and>
       EMIT_DATA_CB (on_part_data st) d x \<noteq> None) \<and>
     (\<forall>d. NOTIFY_CB (on_part_data_begin st) d \<noteq> None \<and> NOTIFY_CB (on_headers_complete st) d \<noteq> None \<and>
       NOTIFY_CB (on_part_data_end st) d \<noteq> None \<and> NOTIFY_CB (on_body_end st) d \<noteq> None)"

lemma init_inv: "parser_inv (cstr boundary) (multipart_parser_init boundary)"
  by (simp add: parser_inv_def multipart_parser_init_def Let_def)

text \<open>A round that comes back, with the invariant.\<close>

definition round_ok :: "string \<Rightarrow> nat \<Rightarrow> 'd mp_result \<Rightarrow> bool" where
  "round_ok b i r \<longleftrightarrow> (\<exists>out p d. r = Some (out, p, d) \<and> (case out of Return n \<Rightarrow> n \<le> i | _ \<Rightarrow> parser_inv b p))"

lemma round_ok_Some [simp]:
  "round_ok b i (Some (out, p, d)) \<longleftrightarrow> (case out of Return n \<Rightarrow> n \<le> i | _ \<Rightarrow> parser_inv b p)"
  by (auto simp: round_ok_def)

lemma round_ok_bind: "r \<noteq> None \<Longrightarrow> (\<And>x. r = Some x \<Longrightarrow> round_ok b i (f x)) \<Longrightarrow> round_ok b i (Option.bind r f)"
  by (cases r) auto

lemma total_emit:
  "total_settings st \<Longrightarrow> EMIT_DATA_CB (on_header_field st) d x \<noteq> None"
  "total_settings st \<Longrightarrow> EMIT_DATA_CB (on_header_value st) d x \<noteq> None"
  "total_settings st \<Longrightarrow> EMIT_DATA_CB (on_part_data st) d x \<noteq> None"
  by (simp_all add: total_settings_def)

lemma total_notify:
  "total_settings st \<Longrightarrow> NOTIFY_CB (on_part_data_begin st) d \<noteq> None"
  "total_settings st \<Longrightarrow> NOTIFY_CB (on_headers_complete st) d \<noteq> None"
  "total_settings st \<Longrightarrow> NOTIFY_CB (on_part_data_end st) d \<noteq> None"
  "total_settings st \<Longrightarrow> NOTIFY_CB (on_body_end st) d \<noteq> None"
  by (simp_all add: total_settings_def)

lemma start_boundary_ok:
  assumes "parser_inv b p" "total_settings st" "mp_state p = s_start_boundary"
  shows "round_ok b i (start_boundary st c i m p d)"
  using assms total_notify [OF assms(2)] unfolding start_boundary_def mem_at_def
  by (auto simp: Let_def parser_inv_def intro!: round_ok_bind)

lemma header_field_ok:
  assumes "parser_inv b p" "total_settings st" "mp_state p = s_header_field"
  shows "round_ok b i (header_field st buf c i m p d)"
  using assms total_emit [OF assms(2)] unfolding header_field_def
  by (auto simp: parser_inv_def intro!: round_ok_bind)

lemma header_value_ok:
  assumes "parser_inv b p" "total_settings st" "mp_state p = s_header_value"
  shows "round_ok b i (header_value st buf c i m p d)"
  using assms total_emit [OF assms(2)] unfolding header_value_def
  by (auto simp: parser_inv_def intro!: round_ok_bind)

lemma part_data_ok:
  assumes "parser_inv b p" "total_settings st" "mp_state p = s_part_data"
  shows "round_ok b i (part_data st buf c i m p d)"
  using assms total_emit [OF assms(2)] unfolding part_data_def mem_set_def lookbehind_def
  by (auto simp: parser_inv_def intro!: round_ok_bind)

lemma almost_boundary_ok:
  assumes "parser_inv b p" "total_settings st" "mp_state p = s_part_data_almost_boundary" "b \<noteq> []"
  shows "round_ok b i (almost_boundary st c i m p d)"
  using assms total_emit [OF assms(2)] unfolding almost_boundary_def mem_set_def lookbehind_def buf_read_def
  by (auto simp: parser_inv_def intro!: round_ok_bind)

lemma data_boundary_ok:
  assumes "parser_inv b p" "total_settings st" "mp_state p = s_part_data_boundary"
  shows "round_ok b i (data_boundary st c i m p d)"
  using assms total_emit [OF assms(2)] total_notify [OF assms(2)]
  unfolding data_boundary_def mem_set_def mem_at_def lookbehind_def buf_read_def
  by (auto simp: parser_inv_def Let_def intro!: round_ok_bind)

lemma mp_step_ok:
  assumes "parser_inv b p" "total_settings st" "b \<noteq> []"
  shows "round_ok b i (mp_step st buf c i m p d)"
proof -
  have up: "parser_inv b (p\<lparr>mp_state := s\<rparr>)" if "s \<noteq> s_start_boundary" "s \<noteq> s_part_data_boundary" for s
    using that assms(1) by (simp add: parser_inv_def)
  have st: "parser_inv b (p\<lparr>mp_index := 0, mp_state := s_start_boundary\<rparr>)" using assms(1) by (simp add: parser_inv_def)
  note n = total_notify [OF assms(2)]
  show ?thesis
    using assms up st n unfolding mp_step_def
    by (cases "mp_state p")
       (auto simp: Let_def intro!: round_ok_bind start_boundary_ok header_field_ok header_value_ok part_data_ok
          almost_boundary_ok data_boundary_ok)
qed

text \<open>The loop comes back with fuel for two rounds a byte.\<close>

definition rounds_left :: "string \<Rightarrow> nat \<Rightarrow> mp_parser \<Rightarrow> nat" where
  "rounds_left buf i p = 2 * (length buf - i) - (if mp_state p = s_part_data \<and> i < length buf then 1 else 0)"

lemma mp_loop_ok:
  "parser_inv b p \<Longrightarrow> total_settings st \<Longrightarrow> b \<noteq> [] \<Longrightarrow> i \<le> length buf \<Longrightarrow> rounds_left buf i p < fuel \<Longrightarrow>
   \<exists>n p' d'. mp_loop st buf fuel i m p d = Some (n, p', d') \<and> (n < length buf \<or> n = length buf \<and> parser_inv b p')"
proof (induction fuel arbitrary: i m p d)
  case (Suc fuel)
  show ?case
  proof (cases "i < length buf")
    case True
    from mp_step_ok [OF Suc.prems(1-3), of i buf "buf ! i" m d] obtain out p1 d1 where
      s: "mp_step st buf (buf ! i) i m p d = Some (out, p1, d1)" and r: "case out of Return n \<Rightarrow> n \<le> i | _ \<Rightarrow> parser_inv b p1" by (auto simp: round_ok_def)
    show ?thesis
    proof (cases out)
      case (Return n)
      then show ?thesis using s r True by simp
    next
      case (Go j m1)
      from mp_step_again [OF s [unfolded Go]] have "j \<le> length buf" "rounds_left buf j p1 < rounds_left buf i p"
        using True by (auto simp: rounds_left_def)
      then show ?thesis using Suc.IH [OF _ Suc.prems(2,3), of p1 j m1 d1] Suc.prems(5) s r Go True by auto
    qed
  next
    case False
    then show ?thesis using Suc.prems by simp
  qed
qed simp

lemma execute_ok:
  assumes "parser_inv b p" "total_settings st" "b \<noteq> []"
  shows "\<exists>n p' d'. multipart_parser_execute st buf p d = Some (n, p', d') \<and> (n < length buf \<or> n = length buf \<and> parser_inv b p')"
  unfolding multipart_parser_execute_def
  by (rule mp_loop_ok [OF assms]) (auto simp: rounds_left_def)

section \<open>Any chunks at all\<close>

primrec run_chunks :: "'d mp_settings \<Rightarrow> string list \<Rightarrow> mp_parser \<Rightarrow> 'd \<Rightarrow> (nat list \<times> mp_parser \<times> 'd) option" where
  "run_chunks st [] p d = Some ([], p, d)"
| "run_chunks st (c # cs) p d = do {
     (n, p, d) \<leftarrow> multipart_parser_execute st c p d;
     if n < length c then Some ([n], p, d)
     else do {
       (ns, p, d) \<leftarrow> run_chunks st cs p d;
       Some (n # ns, p, d)
     }
   }"

text \<open>
  C6. For a boundary that is not empty, no sequence of chunks makes the parser read or write
  outside its block or loop, whatever the callbacks answer: every call returns with a count of at
  most the length of its chunk, provided the caller stops at the first chunk that was not taken
  to its end.
\<close>

theorem parser_in_bounds:
  assumes "total_settings st" "cstr boundary \<noteq> []"
  shows "\<exists>ns p' d'. run_chunks st chunks (multipart_parser_init boundary) d = Some (ns, p', d') \<and>
    list_all2 (\<lambda>n c. n \<le> length c) ns (take (length ns) chunks)"
proof -
  have "\<exists>ns p' d'. run_chunks st chunks p d = Some (ns, p', d') \<and>
      list_all2 (\<lambda>n c. n \<le> length c) ns (take (length ns) chunks)" if "parser_inv (cstr boundary) p" for p
    using that
  proof (induction chunks arbitrary: p d)
    case (Cons c cs)
    from execute_ok [OF Cons.prems assms, of c d] obtain n p1 d1 where
      e: "multipart_parser_execute st c p d = Some (n, p1, d1)"
      "n < length c \<or> n = length c \<and> parser_inv (cstr boundary) p1" by blast
    show ?case
    proof (cases "n < length c")
      case False
      with e Cons.IH [of p1 d1] show ?thesis by auto
    qed (use e in auto)
  qed simp
  from this [OF init_inv] show ?thesis .
qed

definition counting_settings :: "nat mp_settings" where
  "counting_settings =
     \<lparr>on_header_field = None, on_header_value = None, on_part_data = Some (\<lambda>d x. Some (0, d + length x)),
      on_part_data_begin = None, on_headers_complete = None, on_part_data_end = Some (\<lambda>d. Some (-1, d)), on_body_end = None\<rparr>"

lemma parser_in_bounds_witness:
  "\<exists>ns p' d'. run_chunks counting_settings [''--b'', [CR, LF, CR], [LF, CHR ''x'', CR, LF] @ ''--b'']
     (multipart_parser_init ''--b'') 0 = Some (ns, p', d') \<and>
     list_all2 (\<lambda>n c. n \<le> length c) ns
       (take (length ns) [''--b'', [CR, LF, CR], [LF, CHR ''x'', CR, LF] @ ''--b''])"
proof -
  have "total_settings counting_settings"
    by (auto simp: total_settings_def counting_settings_def EMIT_DATA_CB_def NOTIFY_CB_def)
  moreover have "cstr ''--b'' = ''--b''" by (simp add: cstr_def NUL_def)
  ultimately show ?thesis
    using parser_in_bounds [of counting_settings "''--b''" "[''--b'', [CR, LF, CR], [LF, CHR ''x'', CR, LF] @ ''--b'']" 0]
    by (simp only: simp_thms list.simps not_False_eq_True)
qed

text \<open>
  C16. A well-formed form is collected from any chunks.  The body is made of the parts \<open>its\<close> with the boundary between
  them, and an epilogue without NUL; a part is a field, with a name and a value without NUL, or an uploaded file,
  with a name, a file name, a content type and any content, and no content holds the delimiter (\<open>item_ok\<close>).
  When such a form can be collected at all, then whatever pieces the body is handed over in, every one of them is
  consumed, the parser ends in its final state, and the processor holds the form.  Of other bodies this is
  not said, and it does not hold of all of them: see \<open>colonless_line_depends\<close> and \<open>nul_field_depends\<close>.
\<close>

theorem form_in_chunks:
  assumes "boundary_ok b" "its \<noteq> []" "list_all (item_ok b) its" "NUL \<notin> set epilogue" "purc_laws P"
    "collect P its (new_processor P tmps dsk sp) = Some d" "concat chunks = body_text b (map item_part its) epilogue"
  shows "\<exists>p'. run_chunks (settings P) chunks (multipart_parser_init b) (new_processor P tmps dsk sp) =
    Some (map length chunks, p', d) \<and> mp_state p' = s_end"
proof -
  have i: "idle_processor (new_processor P tmps dsk sp)" by (simp add: idle_processor_def new_processor_def)
  have "tell_parts (guarded_settings P) uploads (map item_part its) (new_processor P tmps dsk sp) = Some d"
    by (rule collect_tell_parts [OF assms(6,3) i assms(5)])
  moreover have "list_all (part_ok b) (map item_part its)" using assms(3) by (auto simp: list_all_iff item_partD)
  ultimately obtain p' where
    f: "feed (guarded_settings P) uploads (concat chunks) (multipart_parser_init b) (new_processor P tmps dsk sp) = Some (p', d)"
      "mp_state p' = s_end"
    using form.feed_body [OF assms(1) _ _ assms(4)] assms(2) unfolding assms(7) by blast
  have "feed (guarded_settings P) uploads (concat cs) p e = Some (p', d) \<Longrightarrow>
      run_chunks (settings P) cs p e = Some (map length cs, p', d)" for cs p e
  proof (induction cs arbitrary: p e)
    case (Cons c cs)
    then obtain p1 d1 where g: "feed (guarded_settings P) uploads c p e = Some (p1, d1)"
      "feed (guarded_settings P) uploads (concat cs) p1 d1 = Some (p', d)"
      by (auto simp: feed_append bind_eq_Some_conv)
    from guarded_execute [OF form.execute_feed [OF g(1)]] Cons.IH [OF g(2)] show ?case by simp
  qed simp
  from this [OF f(1)] f(2) show ?thesis by blast
qed

text \<open>
  A body whose header has a line without a colon: the name is handed to the client only when a chunk ends in it, and
  is then put before the next name.  The processor holds the name \<open>a\<close> of the header, or none.
\<close>

lemma colonless_line_depends:
  "map_option (\<lambda>(ns, p, d). last_header_name d)
     (run_chunks (settings sample_purc) [''b'' @ [CR, LF] @ ''a'', [CR, LF]] (multipart_parser_init ''b'')
        (new_processor sample_purc [] Map.empty 1000)) = Some (Some ''a'')"
  "map_option (\<lambda>(ns, p, d). last_header_name d)
     (run_chunks (settings sample_purc) [''b'' @ [CR, LF] @ ''a'' @ [CR, LF]] (multipart_parser_init ''b'')
        (new_processor sample_purc [] Map.empty 1000)) = Some None"
  by code_simp+

text \<open>A field with a NUL: the bytes behind it are lost up to the end of the chunk.\<close>

lemma nul_field_depends:
  "map_option (\<lambda>(ns, p, d). mp_data d)
     (run_chunks (settings sample_purc)
        [''b'' @ [CR, LF] @ ''Content-Disposition: form-data; name=n'' @ [CR, LF, CR, LF] @ ''x'' @ [NUL], ''y'']
        (multipart_parser_init ''b'') (new_processor sample_purc [] Map.empty 1000)) = Some (Some ''xy'')"
  "map_option (\<lambda>(ns, p, d). mp_data d)
     (run_chunks (settings sample_purc)
        [''b'' @ [CR, LF] @ ''Content-Disposition: form-data; name=n'' @ [CR, LF, CR, LF] @ ''x'' @ [NUL] @ ''y'']
        (multipart_parser_init ''b'') (new_processor sample_purc [] Map.empty 1000)) = Some (Some ''x'')"
  by code_simp+

section \<open>The empty boundary\<close>

text \<open>
  With no boundary the comparison runs from the NUL of the boundary into the bytes that are held back, and
  every byte that agrees is held back in turn.  \<open>lookalike n\<close> are the first \<open>n\<close> bytes that agree.
\<close>

definition lookalike_byte :: "nat \<Rightarrow> char" where
  "lookalike_byte j = [NUL, CR, LF] ! (j mod 3)"

definition lookalike :: "nat \<Rightarrow> string" where
  "lookalike n = map lookalike_byte [0..<n]"

lemma lookalike_byte_period: "lookalike_byte (k + 3) = lookalike_byte k"
  by (simp add: lookalike_byte_def)

text \<open>The parser has come to the byte \<open>k\<close> of its memory.\<close>

definition running :: "nat \<Rightarrow> nat \<Rightarrow> mp_parser \<Rightarrow> bool" where
  "running sz k p \<longleftrightarrow> mp_state p = s_part_data_boundary \<and> boundary_length p = 0 \<and> mp_index p = k \<and>
     length (mem p) = sz \<and> k + 3 \<le> sz \<and> (\<forall>j < k + 3. mem p ! j = lookalike_byte j)"

lemma running_step:
  assumes "running sz k p"
  shows "mp_step st buf (lookalike_byte k) i m p d =
    (if k + 3 < sz
     then Some (Go (i + 1) m, p\<lparr>mem := (mem p)[k + 3 := lookalike_byte k], mp_index := k + 1\<rparr>, d) else None)"
  using assms by (auto simp: running_def mp_step_def data_boundary_def mem_at_def mem_set_def lookbehind_def Let_def numeral_3_eq_3)

lemma running_next:
  assumes "running sz k p" "k + 3 < sz"
  shows "running sz (k + 1) (p\<lparr>mem := (mem p)[k + 3 := lookalike_byte k], mp_index := k + 1\<rparr>)"
  using assms lookalike_byte_period [of k] by (auto simp: running_def nth_list_update less_Suc_eq)

lemma running_loop:
  "running sz k p \<Longrightarrow> \<forall>j < n. buf ! (i + j) = lookalike_byte (k + j) \<Longrightarrow> i + n \<le> length buf \<Longrightarrow> n < fuel \<Longrightarrow>
   (if sz < k + 3 + n then mp_loop st buf fuel i m p d = None
    else i + n = length buf \<longrightarrow> (\<exists>p'. mp_loop st buf fuel i m p d = Some (length buf, p', d)))"
proof (induction n arbitrary: i k m p fuel)
  case 0
  then show ?case by (cases fuel) (auto simp: running_def)
next
  case (Suc n)
  obtain f where f: "fuel = Suc f" "n < f" using Suc.prems(4) by (cases fuel) auto
  have c: "buf ! i = lookalike_byte k" "i < length buf" using Suc.prems(2) [rule_format, of 0] Suc.prems(3) by auto
  let ?p = "p\<lparr>mem := (mem p)[k + 3 := lookalike_byte k], mp_index := k + 1\<rparr>"
  show ?case
  proof (cases "k + 3 < sz")
    case True
    have "mp_loop st buf fuel i m p d = mp_loop st buf f (i + 1) m ?p d"
      using c True by (simp add: f(1) running_step [OF Suc.prems(1)])
    moreover have "\<forall>j < n. buf ! (i + 1 + j) = lookalike_byte (k + 1 + j)"
      using Suc.prems(2) by (metis Suc_less_eq add_Suc_right add_Suc_shift plus_1_eq_Suc add.commute)
    ultimately show ?thesis
      using Suc.IH [OF running_next [OF Suc.prems(1) True], of "i + 1" f m] Suc.prems(3) f(2)
      by (simp add: add.assoc split: if_split_asm)
  next
    case False
    with c show ?thesis by (simp add: f(1) running_step [OF Suc.prems(1)])
  qed
qed

lemma mp_round:
  "i < length buf \<Longrightarrow> buf ! i = c \<Longrightarrow> mp_step st buf c i m p d = Some (Go j m', p', d') \<Longrightarrow>
   mp_loop st buf (Suc f) i m p d = mp_loop st buf f j m' p' d'"
  by simp

text \<open>The NUL of an empty boundary stays at the start of the memory, since only bytes behind it are written.\<close>

definition no_boundary :: "mp_parser \<Rightarrow> bool" where
  "no_boundary p \<longleftrightarrow> boundary_length p = 0 \<and> length (mem p) = 17 \<and> mem p ! 0 = NUL"

lemma no_boundary_step:
  "mp_step st buf c i m p d = Some (out, p', d') \<Longrightarrow> no_boundary p \<Longrightarrow> no_boundary p'"
  by (cases "mp_state p")
     (auto simp: mp_step_def mp_cases Let_def bind_eq_Some_conv no_boundary_def lookbehind_def dest!: mem_set_SomeD
        split: if_splits)

lemma no_boundary_loop:
  "mp_loop st buf fuel i m p d = Some (n, p', d') \<Longrightarrow> no_boundary p \<Longrightarrow> no_boundary p'"
proof (induction fuel arbitrary: i m p d)
  case (Suc fuel)
  show ?case
  proof (cases "i < length buf")
    case True
    with Suc.prems(1) obtain out q e where s: "mp_step st buf (buf ! i) i m p d = Some (out, q, e)"
      "(case out of Return n \<Rightarrow> Some (n, q, e) | Go j m \<Rightarrow> mp_loop st buf fuel j m q e) = Some (n, p', d')"
      by (auto simp: bind_eq_Some_conv)
    with no_boundary_step [OF s(1) Suc.prems(2)] Suc.IH show ?thesis by (cases out) auto
  qed (use Suc.prems in simp)
qed simp

lemma no_boundary_chunks:
  "run_chunks st chunks p d = Some (ns, p', d') \<Longrightarrow> no_boundary p \<Longrightarrow> no_boundary p'"
proof (induction chunks arbitrary: ns p d)
  case (Cons c cs)
  then show ?case
    by (auto simp: bind_eq_Some_conv multipart_parser_execute_def simp del: mp_loop.simps split: if_splits
      dest: no_boundary_loop)
qed simp

text \<open>In the data of a part a line end leads there.\<close>

lemma running_start:
  assumes "no_boundary p" "mp_state p = s_part_data" "EMIT_DATA_CB (on_part_data st) d [] = Some (True, d')"
    "buf = [CR, LF] @ bs"
  shows "\<exists>p'. mp_loop st buf (Suc (Suc f)) 0 0 p d = mp_loop st buf f 2 0 p' d' \<and> running 17 0 p'"
proof -
  let ?q = "p\<lparr>mp_state := s_part_data_almost_boundary, mem := (mem p)[1 := CR]\<rparr>"
  let ?r = "?q\<lparr>mp_state := s_part_data_boundary, mem := (mem p)[1 := CR, 2 := LF], mp_index := 0\<rparr>"
  have b: "0 < length buf" "1 < length buf" "buf ! 0 = CR" "buf ! 1 = LF" by (simp_all add: assms(4))
  have s1: "mp_step st buf CR 0 0 p d = Some (Go 1 0, ?q, d')"
    using assms(1-3) by (simp add: mp_step_def part_data_def mem_set_def lookbehind_def no_boundary_def)
  have s2: "mp_step st buf LF 1 0 ?q d' = Some (Go 2 0, ?r, d')"
    using assms(1) by (simp add: mp_step_def almost_boundary_def mem_set_def lookbehind_def no_boundary_def numeral_2_eq_2)
  have "mp_loop st buf (Suc (Suc f)) 0 0 p d = mp_loop st buf f 2 0 ?r d'"
    by (simp only: mp_round [OF b(1,3) s1] mp_round [OF b(2,4) s2])
  moreover have "mem ?r ! j = lookalike_byte j" if "j < 3" for j
  proof -
    from that consider "j = 0" | "j = 1" | "j = 2" by linarith
    then show ?thesis using assms(1) by cases (simp_all add: lookalike_byte_def no_boundary_def)
  qed
  then have "running 17 0 ?r" using assms(1) by (simp add: running_def no_boundary_def)
  ultimately show ?thesis by blast
qed

text \<open>
  C34. With an empty boundary, which a request of content type \<open>multipart/form-data; boundary=\<close> gives the parser,
  the parser does not stay inside its block.  Whatever client it has, whatever chunks have brought it to the data
  of a part: behind a line end it takes every byte of the sequence NUL, CR, LF, NUL, ... for one of the
  boundary, and holds it back behind the last one.  With 14 such bytes or fewer it comes to the end of the chunk; the
  15th is written behind the end of the block, whatever comes after it.  The one thing asked of the client is that it
  takes the piece of data, of no bytes, that comes before the line end.
\<close>

theorem empty_boundary_overflow:
  assumes "cstr boundary = []" "run_chunks st chunks (multipart_parser_init boundary) d0 = Some (ns, p, d)"
    "mp_state p = s_part_data" "EMIT_DATA_CB (on_part_data st) d [] = Some (True, d')"
  shows "if n < 15
    then \<exists>p'. multipart_parser_execute st ([CR, LF] @ lookalike n) p d = Some (2 + n, p', d')
    else multipart_parser_execute st ([CR, LF] @ lookalike n @ rest) p d = None"
proof -
  have "no_boundary (multipart_parser_init boundary)"
    using assms(1) by (simp add: no_boundary_def multipart_parser_init_def Let_def)
  then have p: "no_boundary p" by (rule no_boundary_chunks [OF assms(2)])
  have look: "\<forall>j < n. ([CR, LF] @ lookalike n @ bs) ! (2 + j) = lookalike_byte (0 + j)" for bs
    by (auto simp: lookalike_def nth_append)
  have len: "length (lookalike n) = n" by (simp add: lookalike_def)
  have run: "if 17 < 0 + 3 + n then multipart_parser_execute st buf p d = None
      else 2 + n = length buf \<longrightarrow> (\<exists>p'. multipart_parser_execute st buf p d = Some (length buf, p', d'))"
    if buf: "buf = [CR, LF] @ lookalike n @ bs" for buf bs
  proof -
    define f where "f = 2 * length buf - 1"
    have f: "Suc (2 * length buf) = Suc (Suc f)" "n < f" "2 + n \<le> length buf"
      by (simp_all add: f_def buf len)
    obtain q where r: "mp_loop st buf (Suc (2 * length buf)) 0 0 p d = mp_loop st buf f 2 0 q d'" "running 17 0 q"
      using running_start [OF p assms(3,4) buf, of f] f(1) by auto
    show ?thesis unfolding multipart_parser_execute_def r(1)
      using running_loop [OF r(2), of n buf 2, OF look [of bs, folded buf] f(3,2)] .
  qed
  show ?thesis
  proof (cases "n < 15")
    case True
    have l: "length ([CR, LF] @ lookalike n @ []) = 2 + n" by (simp add: len)
    show ?thesis using run [of _ "[]", OF refl] True unfolding l by simp
  next
    case False
    then show ?thesis using run [of _ rest, OF refl] by simp
  qed
qed

text \<open>The client is the one that collects forms, with a field that has a name.\<close>

definition part_of_no_boundary :: string where
  "part_of_no_boundary =
     [CR, LF] @ ''Content-Disposition: form-data; name=a'' @ [CR, LF, CR, LF] @ ''x''"

lemma part_of_no_boundary_run:
  "map_option (\<lambda>(ns, p, d). (mp_state p, mp_name d, fp d, mp_data d, data_len d))
     (run_chunks (settings sample_purc) [part_of_no_boundary] (multipart_parser_init [])
        (new_processor sample_purc [] Map.empty 1000)) = Some (s_part_data, Some ''a'', None, Some ''x'', 1)"
  by code_simp

theorem empty_boundary_overflow_witness:
  "\<exists>ns p d. run_chunks (settings sample_purc) [part_of_no_boundary] (multipart_parser_init [])
        (new_processor sample_purc [] Map.empty 1000) = Some (ns, p, d) \<and>
     multipart_parser_execute (settings sample_purc) ([CR, LF] @ lookalike 15 @ ''--'') p d = None"
proof -
  obtain ns p d where r: "run_chunks (settings sample_purc) [part_of_no_boundary] (multipart_parser_init [])
      (new_processor sample_purc [] Map.empty 1000) = Some (ns, p, d)"
    and s: "mp_state p = s_part_data" "mp_name d = Some ''a''" "fp d = None" "mp_data d = Some ''x''" "data_len d = 1"
    using part_of_no_boundary_run by auto
  obtain d' where "EMIT_DATA_CB (on_part_data (settings sample_purc)) d [] = Some (True, d')"
    using s by (auto simp: EMIT_DATA_CB_def settings_def part_data_cb_def append_piece_def cstr_def)
  from empty_boundary_overflow [OF _ r s(1) this, of 15 "''--''"] r show ?thesis by (simp add: cstr_def)
qed

lemma form_in_chunks_witness:
  "\<exists>p' d. run_chunks (settings sample_purc)
      (map (\<lambda>c. [c]) (body_text ''--xyz'' (map item_part sample_items) [CR, LF])) (multipart_parser_init ''--xyz'')
      (new_processor sample_purc [(Some ''/var/tmp/hvml-1'', True)] Map.empty 1000) =
      Some (map (\<lambda>c. 1) (body_text ''--xyz'' (map item_part sample_items) [CR, LF]), p', d) \<and> mp_state p' = s_end"
proof -
  obtain d where d: "collect sample_purc sample_items (new_processor sample_purc [(Some ''/var/tmp/hvml-1'', True)] Map.empty 1000) = Some d"
    by (simp add: sample_items_def new_processor_def open_upload_def upload_object_def sample_purc_def Let_def)
  have c: "concat (map (\<lambda>c. [c]) xs) = xs" "map length (map (\<lambda>c. [c]) xs) = map (\<lambda>c. 1) xs" for xs :: string
    by (induction xs) auto
  from form_in_chunks [OF sample_form(2,4,1,3) sample_purc_laws d c(1)] c(2) show ?thesis by metis
qed

end
