(* ===== verification/Util_List.thy ===== *)
theory Util_List
  imports Prelude
begin

text \<open>
  The circular doubly linked lists of \<open>util/list.h\<close> and what they mean: the list of the
  addresses from the head on.  A node is its address, 0 is the null pointer, and the links are two
  functions on addresses; following the null pointer is \<open>None\<close>.
\<close>

record list_heap =
  l_next :: "nat \<Rightarrow> nat"
  l_prev :: "nat \<Rightarrow> nat"

definition get_next :: "nat \<Rightarrow> 'z list_heap_scheme \<Rightarrow> nat option" where
  "get_next a h = (if a = 0 then None else Some (l_next h a))"

definition get_prev :: "nat \<Rightarrow> 'z list_heap_scheme \<Rightarrow> nat option" where
  "get_prev a h = (if a = 0 then None else Some (l_prev h a))"

definition set_next :: "nat \<Rightarrow> nat \<Rightarrow> 'z list_heap_scheme \<Rightarrow> 'z list_heap_scheme option" where
  "set_next a x h = (if a = 0 then None else Some (h\<lparr>l_next := (l_next h)(a := x)\<rparr>))"

definition set_prev :: "nat \<Rightarrow> nat \<Rightarrow> 'z list_heap_scheme \<Rightarrow> 'z list_heap_scheme option" where
  "set_prev a x h = (if a = 0 then None else Some (h\<lparr>l_prev := (l_prev h)(a := x)\<rparr>))"

lemmas list_access = get_next_def get_prev_def set_next_def set_prev_def

section \<open>The operations\<close>

definition INIT_LIST_HEAD :: "nat \<Rightarrow> 'z list_heap_scheme \<Rightarrow> 'z list_heap_scheme option" where
  "INIT_LIST_HEAD list h = do { h \<leftarrow> set_prev list list h; set_next list list h }"

definition list_empty :: "nat \<Rightarrow> 'z list_heap_scheme \<Rightarrow> bool option" where
  "list_empty head h = do { n \<leftarrow> get_next head h; Some (n = head) }"

definition list_is_first :: "nat \<Rightarrow> nat \<Rightarrow> 'z list_heap_scheme \<Rightarrow> bool option" where
  "list_is_first list head h = do { p \<leftarrow> get_prev list h; Some (p = head) }"

definition list_is_last :: "nat \<Rightarrow> nat \<Rightarrow> 'z list_heap_scheme \<Rightarrow> bool option" where
  "list_is_last list head h = do { n \<leftarrow> get_next list h; Some (n = head) }"

definition list_unlink :: "nat \<Rightarrow> 'z list_heap_scheme \<Rightarrow> 'z list_heap_scheme option" where
  "list_unlink entry h = do {
     n \<leftarrow> get_next entry h;
     p \<leftarrow> get_prev entry h;
     h \<leftarrow> set_prev n p h;
     p \<leftarrow> get_prev entry h;
     n \<leftarrow> get_next entry h;
     set_next p n h
   }"

definition list_del :: "nat \<Rightarrow> 'z list_heap_scheme \<Rightarrow> 'z list_heap_scheme option" where
  "list_del entry h = do {
     h \<leftarrow> list_unlink entry h;
     h \<leftarrow> set_prev entry 0 h;
     set_next entry 0 h
   }"

definition list_link :: "nat \<Rightarrow> nat \<Rightarrow> nat \<Rightarrow> 'z list_heap_scheme \<Rightarrow> 'z list_heap_scheme option" where
  "list_link new prev nxt h = do {
     h \<leftarrow> set_prev nxt new h;
     h \<leftarrow> set_next new nxt h;
     h \<leftarrow> set_prev new prev h;
     set_next prev new h
   }"

definition list_del_init :: "nat \<Rightarrow> 'z list_heap_scheme \<Rightarrow> 'z list_heap_scheme option" where
  "list_del_init entry h = do { h \<leftarrow> list_unlink entry h; INIT_LIST_HEAD entry h }"

definition list_add :: "nat \<Rightarrow> nat \<Rightarrow> 'z list_heap_scheme \<Rightarrow> 'z list_heap_scheme option" where
  "list_add new head h = do { n \<leftarrow> get_next head h; list_link new head n h }"

definition list_add_tail :: "nat \<Rightarrow> nat \<Rightarrow> 'z list_heap_scheme \<Rightarrow> 'z list_heap_scheme option" where
  "list_add_tail new head h = do { p \<leftarrow> get_prev head h; list_link new p head h }"

definition list_move :: "nat \<Rightarrow> nat \<Rightarrow> 'z list_heap_scheme \<Rightarrow> 'z list_heap_scheme option" where
  "list_move list head h = do { h \<leftarrow> list_unlink list h; list_add list head h }"

definition list_move_tail :: "nat \<Rightarrow> nat \<Rightarrow> 'z list_heap_scheme \<Rightarrow> 'z list_heap_scheme option" where
  "list_move_tail entry head h = do { h \<leftarrow> list_unlink entry h; list_add_tail entry head h }"

definition list_splice_between :: "nat \<Rightarrow> nat \<Rightarrow> nat \<Rightarrow> 'z list_heap_scheme \<Rightarrow> 'z list_heap_scheme option" where
  "list_splice_between list prev nxt h = do {
     e \<leftarrow> list_empty list h;
     if e then Some h
     else do {
       fst_node \<leftarrow> get_next list h;
       lst \<leftarrow> get_prev list h;
       h \<leftarrow> set_prev fst_node prev h;
       h \<leftarrow> set_next prev fst_node h;
       h \<leftarrow> set_next lst nxt h;
       set_prev nxt lst h
     }
   }"

definition list_splice :: "nat \<Rightarrow> nat \<Rightarrow> 'z list_heap_scheme \<Rightarrow> 'z list_heap_scheme option" where
  "list_splice list head h = do { n \<leftarrow> get_next head h; list_splice_between list head n h }"

definition list_splice_tail :: "nat \<Rightarrow> nat \<Rightarrow> 'z list_heap_scheme \<Rightarrow> 'z list_heap_scheme option" where
  "list_splice_tail list head h = do { p \<leftarrow> get_prev head h; list_splice_between list p head h }"

definition list_splice_init :: "nat \<Rightarrow> nat \<Rightarrow> 'z list_heap_scheme \<Rightarrow> 'z list_heap_scheme option" where
  "list_splice_init list head h = do { h \<leftarrow> list_splice list head h; INIT_LIST_HEAD list h }"

definition list_splice_tail_init :: "nat \<Rightarrow> nat \<Rightarrow> 'z list_heap_scheme \<Rightarrow> 'z list_heap_scheme option" where
  "list_splice_tail_init list head h = do { h \<leftarrow> list_splice_tail list head h; INIT_LIST_HEAD list h }"

section \<open>What a list is\<close>

text \<open>
  \<open>linked xs h\<close>: every address of \<open>xs\<close> is linked with the one that follows.  A list with head
  \<open>head\<close> and elements \<open>xs\<close> is the ring \<open>head # xs @ [head]\<close>.
\<close>

fun linked :: "nat list \<Rightarrow> 'z list_heap_scheme \<Rightarrow> bool" where
  "linked (a # b # xs) h \<longleftrightarrow> l_next h a = b \<and> l_prev h b = a \<and> linked (b # xs) h"
| "linked _ h \<longleftrightarrow> True"

definition is_list :: "nat \<Rightarrow> nat list \<Rightarrow> 'z list_heap_scheme \<Rightarrow> bool" where
  "is_list head xs h \<longleftrightarrow> distinct (head # xs) \<and> 0 \<notin> set (head # xs) \<and> linked (head # xs @ [head]) h"

lemma linked_append:
  "linked (xs @ a # ys) h \<longleftrightarrow> linked (xs @ [a]) h \<and> linked (a # ys) h"
proof (induction xs)
  case (Cons x xs)
  then show ?case by (cases xs) auto
qed simp

lemma linked_pair: "linked (us @ p # n # vs) h \<longleftrightarrow>
   linked (us @ [p]) h \<and> l_next h p = n \<and> l_prev h n = p \<and> linked (n # vs) h"
  using linked_append [of us p "n # vs" h] by simp

text \<open>Changing the links of other nodes changes nothing.\<close>

lemma linked_cong:
  "(\<And>a. a \<in> set (butlast xs) \<Longrightarrow> l_next h' a = l_next h a) \<Longrightarrow> (\<And>a. a \<in> set (tl xs) \<Longrightarrow> l_prev h' a = l_prev h a) \<Longrightarrow>
   linked xs h' = linked xs h"
proof (induction xs h rule: linked.induct)
  case (1 a b xs h)
  from "1.prems"(1) [of a] "1.prems"(2) [of b] have "l_next h' a = l_next h a" "l_prev h' b = l_prev h b" by auto
  moreover have "linked (b # xs) h' = linked (b # xs) h" using "1.prems" by (intro "1.IH") auto
  ultimately show ?case by simp
qed auto

lemma distinct_ring:
  assumes "distinct (butlast (us @ p # n # vs))" "distinct (tl (us @ p # n # vs))"
  shows "p \<notin> set us" "n \<notin> set (tl (us @ [p]))" "p \<notin> set (butlast (n # vs))" "n \<notin> set vs"
proof -
  have "butlast (us @ p # n # vs) = us @ p # butlast (n # vs)" by (simp add: butlast_append)
  with assms(1) show "p \<notin> set us" "p \<notin> set (butlast (n # vs))" by auto
  have "tl (us @ p # n # vs) = tl (us @ [p]) @ n # vs" by (cases us) auto
  with assms(2) show "n \<notin> set (tl (us @ [p]))" "n \<notin> set vs" by auto
qed

lemma linked_insert:
  assumes l: "linked (us @ p # n # vs) h" and d: "distinct (butlast (us @ p # n # vs))" "distinct (tl (us @ p # n # vs))"
    and new: "new \<notin> set (us @ p # n # vs)"
    and h': "l_next h' = (l_next h)(new := n, p := new)" "l_prev h' = (l_prev h)(n := new, new := p)"
  shows "linked (us @ p # new # n # vs) h'"
proof -
  note dd = distinct_ring [OF d]
  have pn: "p \<noteq> new" "n \<noteq> new" using new by auto
  from l have parts: "linked (us @ [p]) h" "linked (n # vs) h" by (auto simp: linked_pair)
  have "new \<notin> set (tl (us @ [p]))" using new by (cases us) auto
  then have "linked (us @ [p]) h' = linked (us @ [p]) h" using dd new
    by (intro linked_cong) (auto simp: h' split: if_splits)
  moreover have "linked (n # vs) h' = linked (n # vs) h" using dd new
    by (intro linked_cong) (auto simp: h' split: if_splits dest: in_set_butlastD)
  ultimately show ?thesis using parts pn linked_pair [of us p new "n # vs" h'] linked_pair [of "[new]" new n vs h']
    by (simp add: h')
qed

lemma linked_remove:
  assumes l: "linked (us @ p # a # n # vs) h" and d: "distinct (butlast (us @ p # a # n # vs))" "distinct (tl (us @ p # a # n # vs))"
    and h': "\<And>x. x \<noteq> p \<Longrightarrow> x \<noteq> a \<Longrightarrow> l_next h' x = l_next h x" "\<And>x. x \<noteq> n \<Longrightarrow> x \<noteq> a \<Longrightarrow> l_prev h' x = l_prev h x"
      "l_next h' p = n" "l_prev h' n = p"
  shows "linked (us @ p # n # vs) h'"
proof -
  have b: "butlast (us @ p # a # n # vs) = us @ p # a # butlast (n # vs)" by (simp add: butlast_append)
  have t: "tl (us @ p # a # n # vs) = tl (us @ [p]) @ a # n # vs" by (cases us) auto
  from l have parts: "linked (us @ [p]) h" "linked (n # vs) h"
    using linked_append [of us p "a # n # vs" h] linked_append [of "[p, a]" n vs h] by auto
  have "linked (us @ [p]) h' = linked (us @ [p]) h"
  proof (rule linked_cong)
    fix x assume "x \<in> set (butlast (us @ [p]))"
    then show "l_next h' x = l_next h x" using d(1) unfolding b by (intro h'(1)) auto
  next
    fix x assume "x \<in> set (tl (us @ [p]))"
    then show "l_prev h' x = l_prev h x" using d(2) unfolding t by (intro h'(2)) auto
  qed
  moreover have "linked (n # vs) h' = linked (n # vs) h"
  proof (rule linked_cong)
    fix x assume "x \<in> set (butlast (n # vs))"
    then show "l_next h' x = l_next h x" using d(1) unfolding b by (intro h'(1)) auto
  next
    fix x assume "x \<in> set (tl (n # vs))"
    then show "l_prev h' x = l_prev h x" using d(2) unfolding t by (intro h'(2)) auto
  qed
  ultimately show ?thesis using parts h'(3,4) by (simp add: linked_pair)
qed

section \<open>The operations on lists\<close>

text \<open>The ring of a list, cut at an element.\<close>

lemma is_list_ring:
  "is_list head xs h \<Longrightarrow> linked (head # xs @ [head]) h \<and> distinct (butlast (head # xs @ [head])) \<and>
     distinct (tl (head # xs @ [head]))"
  by (auto simp: is_list_def butlast_append)

text \<open>What is left of the heap when only links changed.\<close>

definition links_of :: "'z list_heap_scheme \<Rightarrow> 'z list_heap_scheme \<Rightarrow> bool" where
  "links_of h' h \<longleftrightarrow> (\<exists>n p. h' = h\<lparr>l_next := n, l_prev := p\<rparr>)"

lemma list_link_between:
  assumes l: "is_list head (xs @ ys) h" and new: "new \<noteq> 0" "new \<notin> set (head # xs @ ys)"
    and p: "p = last (head # xs)" and n: "n = hd (ys @ [head])"
  shows "\<exists>h'. list_link new p n h = Some h' \<and> is_list head (xs @ new # ys) h' \<and> links_of h' h"
proof -
  define us vs where "us = butlast (head # xs)" and "vs = tl (ys @ [head])"
  have r: "head # (xs @ ys) @ [head] = us @ p # n # vs"
  proof -
    have "head # xs = us @ [p]" unfolding us_def p by (metis append_butlast_last_id list.distinct(1))
    moreover have "ys @ [head] = n # vs" unfolding vs_def n by (cases ys) auto
    ultimately show ?thesis by (metis Cons_eq_appendI append.assoc append_Nil)
  qed
  have r2: "head # (xs @ new # ys) @ [head] = us @ p # new # n # vs"
  proof -
    have "head # xs = us @ [p]" unfolding us_def p by (metis append_butlast_last_id list.distinct(1))
    moreover have "ys @ [head] = n # vs" unfolding vs_def n by (cases ys) auto
    ultimately show ?thesis by (metis Cons_eq_appendI append.assoc append_Nil)
  qed
  note ring = is_list_ring [OF l, unfolded r]
  have s: "set (us @ p # n # vs) = set (head # xs @ ys)" unfolding r [symmetric] by auto
  have z: "p \<noteq> 0" "n \<noteq> 0" using l s by (auto simp: is_list_def)
  define h' where "h' = h\<lparr>l_next := (l_next h)(new := n, p := new), l_prev := (l_prev h)(n := new, new := p)\<rparr>"
  have "list_link new p n h = Some h'" using z new by (simp add: list_link_def list_access h'_def)
  moreover have "linked (us @ p # new # n # vs) h'"
    by (rule linked_insert) (use ring new s in \<open>auto simp: h'_def\<close>)
  then have "is_list head (xs @ new # ys) h'" using l new r2 by (auto simp: is_list_def)
  ultimately show ?thesis by (auto simp: links_of_def h'_def)
qed

lemma list_add_head:
  assumes "is_list head xs h" "new \<noteq> 0" "new \<notin> set (head # xs)"
  shows "\<exists>h'. list_add new head h = Some h' \<and> is_list head (new # xs) h' \<and> links_of h' h"
proof -
  have "get_next head h = Some (hd (xs @ [head]))" using assms(1) by (cases xs) (auto simp: is_list_def list_access)
  then show ?thesis using list_link_between [of head "[]" xs h new head "hd (xs @ [head])"] assms
    by (auto simp: list_add_def)
qed

lemma list_add_after:
  assumes "is_list head (xs @ a # ys) h" "new \<noteq> 0" "new \<notin> set (head # xs @ a # ys)"
  shows "\<exists>h'. list_add new a h = Some h' \<and> is_list head (xs @ a # new # ys) h' \<and> links_of h' h"
proof -
  have "linked (head # xs @ a # ys @ [head]) h" "a \<noteq> 0" using assms(1) by (auto simp: is_list_def)
  then have "get_next a h = Some (hd (ys @ [head]))"
    using linked_append [of "head # xs" a "ys @ [head]" h] by (cases ys) (auto simp: list_access)
  then show ?thesis using list_link_between [of head "xs @ [a]" ys h new a "hd (ys @ [head])"] assms
    by (auto simp: list_add_def)
qed

lemma list_add_before:
  assumes "is_list head (xs @ a # ys) h" "new \<noteq> 0" "new \<notin> set (head # xs @ a # ys)"
  shows "\<exists>h'. list_add_tail new a h = Some h' \<and> is_list head (xs @ new # a # ys) h' \<and> links_of h' h"
proof -
  have "linked (head # xs @ a # ys @ [head]) h" "a \<noteq> 0" using assms(1) by (auto simp: is_list_def)
  moreover have e: "head # xs = butlast (head # xs) @ [last (head # xs)]" by (metis append_butlast_last_id list.distinct(1))
  ultimately have "get_prev a h = Some (last (head # xs))"
    using linked_pair [of "butlast (head # xs)" "last (head # xs)" a "ys @ [head]" h]
    by (metis (no_types, lifting) append.assoc append_Cons append_Nil get_prev_def)
  then show ?thesis using list_link_between [of head xs "a # ys" h new "last (head # xs)" a] assms
    by (auto simp: list_add_tail_def)
qed

lemma list_del_node:
  assumes "is_list head (xs @ a # ys) h"
  shows "\<exists>h'. list_del a h = Some h' \<and> is_list head (xs @ ys) h' \<and> links_of h' h \<and> l_next h' a = 0 \<and> l_prev h' a = 0"
proof -
  define us p n vs where "us = butlast (head # xs)" and "p = last (head # xs)" and "n = hd (ys @ [head])" and "vs = tl (ys @ [head])"
  have x: "head # xs = us @ [p]" unfolding us_def p_def by (metis append_butlast_last_id list.distinct(1))
  have y: "ys @ [head] = n # vs" unfolding vs_def n_def by (cases ys) auto
  have r: "head # (xs @ a # ys) @ [head] = us @ p # a # n # vs" using x y
    by (metis Cons_eq_appendI append.assoc append_Nil)
  have r2: "head # (xs @ ys) @ [head] = us @ p # n # vs" using x y
    by (metis Cons_eq_appendI append.assoc append_Nil)
  note ring = is_list_ring [OF assms, unfolded r]
  then have l: "l_prev h a = p" "l_next h a = n"
    using linked_pair [of us p a "n # vs" h] by auto
  have s: "set (us @ p # n # vs) = set (head # xs @ ys)" unfolding r2 [symmetric] by auto
  have z: "p \<noteq> 0" "n \<noteq> 0" "a \<noteq> 0" "p \<noteq> a" "n \<noteq> a" using assms s x y by (auto simp: is_list_def)
  define h' where "h' = h\<lparr>l_next := (l_next h)(p := n, a := 0), l_prev := (l_prev h)(n := p, a := 0)\<rparr>"
  have "list_del a h = Some h'" using z l
    by (auto simp: list_del_def list_unlink_def list_access h'_def)
  moreover have "linked (us @ p # n # vs) h'"
    by (rule linked_remove [of us p a n vs h]) (use ring z in \<open>auto simp: h'_def\<close>)
  then have "is_list head (xs @ ys) h'" using assms r2 by (auto simp: is_list_def)
  ultimately show ?thesis using z by (auto simp: links_of_def h'_def)
qed

lemma INIT_LIST_HEAD_empty:
  assumes "head \<noteq> 0"
  shows "\<exists>h'. INIT_LIST_HEAD head h = Some h' \<and> is_list head [] h' \<and> links_of h' h"
proof -
  have "INIT_LIST_HEAD head h = Some (h\<lparr>l_next := (l_next h)(head := head), l_prev := (l_prev h)(head := head)\<rparr>)"
    using assms by (simp add: INIT_LIST_HEAD_def list_access)
  then show ?thesis using assms unfolding links_of_def by (fastforce simp: is_list_def)
qed

lemma list_append_end:
  assumes "is_list head xs h" "new \<noteq> 0" "new \<notin> set (head # xs)"
  shows "\<exists>h'. list_add_tail new head h = Some h' \<and> is_list head (xs @ [new]) h' \<and> links_of h' h"
proof -
  have e: "head # xs = butlast (head # xs) @ [last (head # xs)]" by (metis append_butlast_last_id list.distinct(1))
  have "linked (head # xs @ [head]) h" "head \<noteq> 0" using assms(1) by (auto simp: is_list_def)
  then have "get_prev head h = Some (last (head # xs))"
    using linked_pair [of "butlast (head # xs)" "last (head # xs)" head "[]" h] e
    by (metis append.assoc append_Cons append_Nil get_prev_def)
  then show ?thesis using list_link_between [of head xs "[]" h new "last (head # xs)" head] assms
    by (auto simp: list_add_tail_def)
qed

text \<open>
  C23. The operations of \<open>list.h\<close> implement lists: adding a node after the head puts it at the front,
  adding it before the head puts it at the end, and removing a node leaves the others in their
  order; none of them follows a null pointer.
\<close>

theorem list_operations:
  assumes "is_list head (xs @ ys) h" "new \<noteq> 0" "new \<notin> set (head # xs @ ys)"
  shows "(\<exists>h'. list_add new head h = Some h' \<and> is_list head (new # xs @ ys) h') \<and>
    (\<exists>h'. list_add_tail new head h = Some h' \<and> is_list head (xs @ ys @ [new]) h') \<and>
    (ys \<noteq> [] \<longrightarrow> (\<exists>h'. list_del (hd ys) h = Some h' \<and> is_list head (xs @ tl ys) h'))"
  using list_add_head [OF assms] list_append_end [OF assms] list_del_node [of head xs "hd ys" "tl ys" h] assms(1)
  by (cases ys) auto

definition ring :: list_heap where
  "ring = \<lparr>l_next = (\<lambda>a. 0)(10 := 1, 1 := 2, 2 := 10), l_prev = (\<lambda>a. 0)(10 := 2, 2 := 1, 1 := 10)\<rparr>"

theorem list_operations_witness:
  "\<exists>h'. list_add_tail 3 10 ring = Some h' \<and> is_list 10 [1, 2, 3] h'"
  using list_operations [of 10 "[1]" "[2]" ring 3] by (simp add: is_list_def ring_def)

end
