(* ===== verification/Avl.thy ===== *)
theory Avl
  imports Util_List
begin

text \<open>
  The balanced trees of \<open>util/avl.c\<close>, on the heap.  A node is its address; its fields are functions
  on addresses, on top of the links of its list node, which is its first member and so has the same
  address.  Following the null pointer is \<open>None\<close>.  The recursive functions follow pointers, so
  they are \<open>partial_function\<close>s: on a heap where they would not end they have no value.
\<close>

record 'k avl_tree = list_heap +
  parent :: "nat \<Rightarrow> nat"
  left :: "nat \<Rightarrow> nat"
  right :: "nat \<Rightarrow> nat"
  key :: "nat \<Rightarrow> 'k"
  balance :: "nat \<Rightarrow> int"
  leader :: "nat \<Rightarrow> bool"
  list_head :: nat
  root :: nat
  count :: nat
  allow_dups :: bool
  comp :: "'k \<Rightarrow> 'k \<Rightarrow> int"

definition get :: "('t \<Rightarrow> nat \<Rightarrow> 'v) \<Rightarrow> nat \<Rightarrow> 't \<Rightarrow> 'v option" where
  "get f a t = (if a = 0 then None else Some (f t a))"

definition set_parent :: "nat \<Rightarrow> nat \<Rightarrow> ('k, 'z) avl_tree_scheme \<Rightarrow> ('k, 'z) avl_tree_scheme option" where
  "set_parent a x t = (if a = 0 then None else Some (t\<lparr>parent := (parent t)(a := x)\<rparr>))"

definition set_left :: "nat \<Rightarrow> nat \<Rightarrow> ('k, 'z) avl_tree_scheme \<Rightarrow> ('k, 'z) avl_tree_scheme option" where
  "set_left a x t = (if a = 0 then None else Some (t\<lparr>left := (left t)(a := x)\<rparr>))"

definition set_right :: "nat \<Rightarrow> nat \<Rightarrow> ('k, 'z) avl_tree_scheme \<Rightarrow> ('k, 'z) avl_tree_scheme option" where
  "set_right a x t = (if a = 0 then None else Some (t\<lparr>right := (right t)(a := x)\<rparr>))"

definition set_balance :: "nat \<Rightarrow> int \<Rightarrow> ('k, 'z) avl_tree_scheme \<Rightarrow> ('k, 'z) avl_tree_scheme option" where
  "set_balance a x t = (if a = 0 then None else Some (t\<lparr>balance := (balance t)(a := x)\<rparr>))"

definition set_leader :: "nat \<Rightarrow> bool \<Rightarrow> ('k, 'z) avl_tree_scheme \<Rightarrow> ('k, 'z) avl_tree_scheme option" where
  "set_leader a x t = (if a = 0 then None else Some (t\<lparr>leader := (leader t)(a := x)\<rparr>))"

lemmas avl_access = get_def set_parent_def set_left_def set_right_def set_balance_def set_leader_def

section \<open>Initialisation\<close>

definition avl_init ::
  "('k \<Rightarrow> 'k \<Rightarrow> int) \<Rightarrow> bool \<Rightarrow> ('k, 'z) avl_tree_scheme \<Rightarrow> ('k, 'z) avl_tree_scheme option" where
  "avl_init cmp dups t = do {
     t \<leftarrow> INIT_LIST_HEAD (list_head t) t;
     Some (t\<lparr>root := 0, count := 0, comp := cmp, allow_dups := dups\<rparr>)
   }"

definition avl_is_first :: "nat \<Rightarrow> ('k, 'z) avl_tree_scheme \<Rightarrow> bool option" where
  "avl_is_first node t = do { n \<leftarrow> get_next (list_head t) t; Some (n = node) }"

definition avl_is_last :: "nat \<Rightarrow> ('k, 'z) avl_tree_scheme \<Rightarrow> bool option" where
  "avl_is_last node t = do { n \<leftarrow> get_prev (list_head t) t; Some (n = node) }"

definition avl_is_empty :: "('k, 'z) avl_tree_scheme \<Rightarrow> bool" where
  "avl_is_empty t \<longleftrightarrow> count t = 0"

definition avl_next :: "nat \<Rightarrow> ('k, 'z) avl_tree_scheme \<Rightarrow> nat option" where
  "avl_next node t = get_next node t"

section \<open>Searching\<close>

text \<open>The node the search ends at, with the result of the last comparison.\<close>

partial_function (option) avl_find_rec ::
  "nat \<Rightarrow> 'k \<Rightarrow> ('k, 'z) avl_tree_scheme \<Rightarrow> (nat \<times> int) option" where
  "avl_find_rec node k t = do {
     nk \<leftarrow> get key node t;
     let diff = comp t k nk;
     if diff < 0 then do {
       l \<leftarrow> get left node t;
       if l \<noteq> 0 then avl_find_rec l k t else Some (node, diff)
     }
     else if diff > 0 then do {
       r \<leftarrow> get right node t;
       if r \<noteq> 0 then avl_find_rec r k t else Some (node, diff)
     }
     else Some (node, diff)
   }"

definition avl_find :: "'k \<Rightarrow> ('k, 'z) avl_tree_scheme \<Rightarrow> nat option" where
  "avl_find k t =
     (if root t = 0 then Some 0
      else do {
        (node, diff) \<leftarrow> avl_find_rec (root t) k t;
        Some (if diff = 0 then node else 0)
      })"

text \<open>The loops along the list: left as long as \<open>key < node->key\<close>, then right, and the other way round.\<close>

partial_function (option) walk_left_while_less ::
  "nat \<Rightarrow> int \<Rightarrow> 'k \<Rightarrow> ('k, 'z) avl_tree_scheme \<Rightarrow> (nat \<times> int) option" where
  "walk_left_while_less node diff k t =
     (if diff < 0 then do {
        f \<leftarrow> list_is_first node (list_head t) t;
        if f then Some (0, diff)
        else do {
          node \<leftarrow> get_prev node t;
          nk \<leftarrow> get key node t;
          walk_left_while_less node (comp t k nk) k t
        }
      } else Some (node, diff))"

partial_function (option) walk_right_to_last ::
  "nat \<Rightarrow> nat \<Rightarrow> int \<Rightarrow> 'k \<Rightarrow> ('k, 'z) avl_tree_scheme \<Rightarrow> nat option" where
  "walk_right_to_last node nxt diff k t =
     (if diff \<ge> 0 then do {
        l \<leftarrow> list_is_last nxt (list_head t) t;
        if l then Some nxt
        else do {
          n \<leftarrow> get_next nxt t;
          nk \<leftarrow> get key n t;
          walk_right_to_last nxt n (comp t k nk) k t
        }
      } else Some node)"

definition avl_find_lessequal :: "'k \<Rightarrow> ('k, 'z) avl_tree_scheme \<Rightarrow> nat option" where
  "avl_find_lessequal k t =
     (if root t = 0 then Some 0
      else do {
        (node, diff) \<leftarrow> avl_find_rec (root t) k t;
        (node, diff) \<leftarrow> walk_left_while_less node diff k t;
        if node = 0 then Some 0 else walk_right_to_last node node diff k t
      })"

partial_function (option) walk_right_while_greater ::
  "nat \<Rightarrow> int \<Rightarrow> 'k \<Rightarrow> ('k, 'z) avl_tree_scheme \<Rightarrow> (nat \<times> int) option" where
  "walk_right_while_greater node diff k t =
     (if diff > 0 then do {
        l \<leftarrow> list_is_last node (list_head t) t;
        if l then Some (0, diff)
        else do {
          node \<leftarrow> get_next node t;
          nk \<leftarrow> get key node t;
          walk_right_while_greater node (comp t k nk) k t
        }
      } else Some (node, diff))"

partial_function (option) walk_left_to_first ::
  "nat \<Rightarrow> nat \<Rightarrow> int \<Rightarrow> 'k \<Rightarrow> ('k, 'z) avl_tree_scheme \<Rightarrow> nat option" where
  "walk_left_to_first node nxt diff k t =
     (if diff \<le> 0 then do {
        f \<leftarrow> list_is_first nxt (list_head t) t;
        if f then Some nxt
        else do {
          n \<leftarrow> get_prev nxt t;
          nk \<leftarrow> get key n t;
          walk_left_to_first nxt n (comp t k nk) k t
        }
      } else Some node)"

definition avl_find_greaterequal :: "'k \<Rightarrow> ('k, 'z) avl_tree_scheme \<Rightarrow> nat option" where
  "avl_find_greaterequal k t =
     (if root t = 0 then Some 0
      else do {
        (node, diff) \<leftarrow> avl_find_rec (root t) k t;
        (node, diff) \<leftarrow> walk_right_while_greater node diff k t;
        if node = 0 then Some 0 else walk_left_to_first node node diff k t
      })"

datatype avl_find_mode = AVL_FIND_EQUAL | AVL_FIND_LESSEQUAL | AVL_FIND_GREATEREQUAL

text \<open>The element that contains the node; its address is the node's less a constant offset.\<close>

definition avl_find_element :: "'k \<Rightarrow> avl_find_mode \<Rightarrow> ('k, 'z) avl_tree_scheme \<Rightarrow> nat option" where
  "avl_find_element k mode t =
     (case mode of
        AVL_FIND_EQUAL \<Rightarrow> avl_find k t
      | AVL_FIND_LESSEQUAL \<Rightarrow> avl_find_lessequal k t
      | AVL_FIND_GREATEREQUAL \<Rightarrow> avl_find_greaterequal k t)"

section \<open>Rotations\<close>

text \<open>The child \<open>node\<close> of \<open>parent\<close> is replaced by \<open>x\<close>; for a null parent it is the root that is.\<close>

definition replace_child :: "nat \<Rightarrow> nat \<Rightarrow> nat \<Rightarrow> ('k, 'z) avl_tree_scheme \<Rightarrow> ('k, 'z) avl_tree_scheme option" where
  "replace_child par node x t =
     (if par = 0 then Some (t\<lparr>root := x\<rparr>)
      else if left t par = node then set_left par x t
      else set_right par x t)"

definition avl_rotate_right :: "nat \<Rightarrow> ('k, 'z) avl_tree_scheme \<Rightarrow> ('k, 'z) avl_tree_scheme option" where
  "avl_rotate_right node t = do {
     l \<leftarrow> get left node t;
     par \<leftarrow> get parent node t;
     t \<leftarrow> set_parent l par t;
     t \<leftarrow> set_parent node l t;
     t \<leftarrow> replace_child par node l t;
     lr \<leftarrow> get right l t;
     t \<leftarrow> set_left node lr t;
     t \<leftarrow> set_right l node t;
     nl \<leftarrow> get left node t;
     t \<leftarrow> (if nl \<noteq> 0 then set_parent nl node t else Some t);
     bn \<leftarrow> get balance node t;
     bl \<leftarrow> get balance l t;
     t \<leftarrow> set_balance node (bn + (1 - min bl 0)) t;
     bn \<leftarrow> get balance node t;
     bl \<leftarrow> get balance l t;
     set_balance l (bl + (1 + max bn 0)) t
   }"

definition avl_rotate_left :: "nat \<Rightarrow> ('k, 'z) avl_tree_scheme \<Rightarrow> ('k, 'z) avl_tree_scheme option" where
  "avl_rotate_left node t = do {
     r \<leftarrow> get right node t;
     par \<leftarrow> get parent node t;
     t \<leftarrow> set_parent r par t;
     t \<leftarrow> set_parent node r t;
     t \<leftarrow> replace_child par node r t;
     rl \<leftarrow> get left r t;
     t \<leftarrow> set_right node rl t;
     t \<leftarrow> set_left r node t;
     nr \<leftarrow> get right node t;
     t \<leftarrow> (if nr \<noteq> 0 then set_parent nr node t else Some t);
     bn \<leftarrow> get balance node t;
     br \<leftarrow> get balance r t;
     t \<leftarrow> set_balance node (bn - (1 + max br 0)) t;
     bn \<leftarrow> get balance node t;
     br \<leftarrow> get balance r t;
     set_balance r (br - (1 - min bn 0)) t
   }"

section \<open>Insertion\<close>

definition avl_insert_before :: "nat \<Rightarrow> nat \<Rightarrow> ('k, 'z) avl_tree_scheme \<Rightarrow> ('k, 'z) avl_tree_scheme option" where
  "avl_insert_before pos_node node t = do {
     t \<leftarrow> list_add_tail node pos_node t;
     Some (t\<lparr>count := count t + 1\<rparr>)
   }"

definition avl_insert_after :: "nat \<Rightarrow> nat \<Rightarrow> ('k, 'z) avl_tree_scheme \<Rightarrow> ('k, 'z) avl_tree_scheme option" where
  "avl_insert_after pos_node node t = do {
     t \<leftarrow> list_add node pos_node t;
     Some (t\<lparr>count := count t + 1\<rparr>)
   }"

partial_function (option) post_insert :: "nat \<Rightarrow> ('k, 'z) avl_tree_scheme \<Rightarrow> ('k, 'z) avl_tree_scheme option" where
  "post_insert node t = do {
     par \<leftarrow> get parent node t;
     if par = 0 then Some t
     else do {
       pl \<leftarrow> get left par t;
       if node = pl then do {
         b \<leftarrow> get balance par t;
         t \<leftarrow> set_balance par (b - 1) t;
         b \<leftarrow> get balance par t;
         if b = 0 then Some t
         else if b = -1 then post_insert par t
         else do {
           bn \<leftarrow> get balance node t;
           if bn = -1 then avl_rotate_right par t
           else do {
             t \<leftarrow> avl_rotate_left node t;
             p1 \<leftarrow> get parent node t;
             p2 \<leftarrow> get parent p1 t;
             avl_rotate_right p2 t
           }
         }
       }
       else do {
         b \<leftarrow> get balance par t;
         t \<leftarrow> set_balance par (b + 1) t;
         b \<leftarrow> get balance par t;
         if b = 0 then Some t
         else if b = 1 then post_insert par t
         else do {
           bn \<leftarrow> get balance node t;
           if bn = 1 then avl_rotate_left par t
           else do {
             t \<leftarrow> avl_rotate_right node t;
             p1 \<leftarrow> get parent node t;
             p2 \<leftarrow> get parent p1 t;
             avl_rotate_left p2 t
           }
         }
       }
     }
   }"

text \<open>The last of the nodes with the key of \<open>last\<close>.\<close>

partial_function (option) last_of_series :: "nat \<Rightarrow> ('k, 'z) avl_tree_scheme \<Rightarrow> nat option" where
  "last_of_series lst t = do {
     e \<leftarrow> list_is_last lst (list_head t) t;
     if e then Some lst
     else do {
       nxt \<leftarrow> avl_next lst t;
       ld \<leftarrow> get leader nxt t;
       if ld then Some lst else last_of_series nxt t
     }
   }"

definition avl_insert :: "nat \<Rightarrow> ('k, 'z) avl_tree_scheme \<Rightarrow> (int \<times> ('k, 'z) avl_tree_scheme) option" where
  "avl_insert new t = do {
     t \<leftarrow> set_parent new 0 t;
     t \<leftarrow> set_left new 0 t;
     t \<leftarrow> set_right new 0 t;
     t \<leftarrow> set_balance new 0 t;
     t \<leftarrow> set_leader new True t;
     if root t = 0 then do {
       t \<leftarrow> list_add new (list_head t) t;
       Some (0, t\<lparr>root := new, count := 1\<rparr>)
     }
     else do {
       k \<leftarrow> get key new t;
       (node, _) \<leftarrow> avl_find_rec (root t) k t;
       lst \<leftarrow> last_of_series node t;
       nk \<leftarrow> get key node t;
       let diff = comp t k nk;
       b \<leftarrow> get balance node t;
       if diff = 0 then
         (if \<not> allow_dups t then Some (-1, t)
          else do {
            t \<leftarrow> set_leader new False t;
            t \<leftarrow> avl_insert_after lst new t;
            Some (0, t)
          })
       else if b = 1 then do {
         t \<leftarrow> avl_insert_before node new t;
         t \<leftarrow> set_balance node 0 t;
         t \<leftarrow> set_parent new node t;
         t \<leftarrow> set_left node new t;
         Some (0, t)
       }
       else if b = -1 then do {
         t \<leftarrow> avl_insert_after lst new t;
         t \<leftarrow> set_balance node 0 t;
         t \<leftarrow> set_parent new node t;
         t \<leftarrow> set_right node new t;
         Some (0, t)
       }
       else if diff < 0 then do {
         t \<leftarrow> avl_insert_before node new t;
         t \<leftarrow> set_balance node (-1) t;
         t \<leftarrow> set_parent new node t;
         t \<leftarrow> set_left node new t;
         t \<leftarrow> post_insert node t;
         Some (0, t)
       }
       else do {
         t \<leftarrow> avl_insert_after lst new t;
         t \<leftarrow> set_balance node 1 t;
         t \<leftarrow> set_parent new node t;
         t \<leftarrow> set_right node new t;
         t \<leftarrow> post_insert node t;
         Some (0, t)
       }
     }
   }"

section \<open>Deletion\<close>

definition avl_remove :: "nat \<Rightarrow> ('k, 'z) avl_tree_scheme \<Rightarrow> ('k, 'z) avl_tree_scheme option" where
  "avl_remove node t = do {
     t \<leftarrow> list_del node t;
     Some (t\<lparr>count := count t - 1\<rparr>)
   }"

text \<open>
  What a parent does after its left or right subtree has become lower; \<open>up\<close> is the recursive
  call.  \<open>avl_post_delete\<close> and the case of a leaf in \<open>avl_delete_worker\<close> have the same code for it.
\<close>

definition lower_left ::
  "(nat \<Rightarrow> ('k, 'z) avl_tree_scheme \<Rightarrow> ('k, 'z) avl_tree_scheme option) \<Rightarrow>
   nat \<Rightarrow> ('k, 'z) avl_tree_scheme \<Rightarrow> ('k, 'z) avl_tree_scheme option" where
  "lower_left up par t = do {
     b \<leftarrow> get balance par t;
     t \<leftarrow> set_balance par (b + 1) t;
     b \<leftarrow> get balance par t;
     if b = 0 then up par t
     else if b = 1 then Some t
     else do {
       r \<leftarrow> get right par t;
       br \<leftarrow> get balance r t;
       if br = 0 then avl_rotate_left par t
       else if br = 1 then do {
         t \<leftarrow> avl_rotate_left par t;
         pp \<leftarrow> get parent par t;
         up pp t
       }
       else do {
         t \<leftarrow> avl_rotate_right r t;
         t \<leftarrow> avl_rotate_left par t;
         pp \<leftarrow> get parent par t;
         up pp t
       }
     }
   }"

definition lower_right ::
  "(nat \<Rightarrow> ('k, 'z) avl_tree_scheme \<Rightarrow> ('k, 'z) avl_tree_scheme option) \<Rightarrow>
   nat \<Rightarrow> ('k, 'z) avl_tree_scheme \<Rightarrow> ('k, 'z) avl_tree_scheme option" where
  "lower_right up par t = do {
     b \<leftarrow> get balance par t;
     t \<leftarrow> set_balance par (b - 1) t;
     b \<leftarrow> get balance par t;
     if b = 0 then up par t
     else if b = -1 then Some t
     else do {
       l \<leftarrow> get left par t;
       bl \<leftarrow> get balance l t;
       if bl = 0 then avl_rotate_right par t
       else if bl = -1 then do {
         t \<leftarrow> avl_rotate_right par t;
         pp \<leftarrow> get parent par t;
         up pp t
       }
       else do {
         t \<leftarrow> avl_rotate_left l t;
         t \<leftarrow> avl_rotate_right par t;
         pp \<leftarrow> get parent par t;
         up pp t
       }
     }
   }"

text \<open>
  The recursion is as deep as the tree is high, and every call goes up; \<open>fuel\<close> bounds the calls.
\<close>

primrec post_delete_fuel :: "nat \<Rightarrow> nat \<Rightarrow> ('k, 'z) avl_tree_scheme \<Rightarrow> ('k, 'z) avl_tree_scheme option" where
  "post_delete_fuel 0 node t = None"
| "post_delete_fuel (Suc fuel) node t = do {
     par \<leftarrow> get parent node t;
     if par = 0 then Some t
     else do {
       pl \<leftarrow> get left par t;
       if node = pl then lower_left (post_delete_fuel fuel) par t
       else lower_right (post_delete_fuel fuel) par t
     }
   }"

text \<open>There are at most \<open>count\<close> nodes on the way up.\<close>

definition avl_post_delete :: "nat \<Rightarrow> ('k, 'z) avl_tree_scheme \<Rightarrow> ('k, 'z) avl_tree_scheme option" where
  "avl_post_delete node t = post_delete_fuel (Suc (count t)) node t"

partial_function (option) avl_local_min :: "nat \<Rightarrow> ('k, 'z) avl_tree_scheme \<Rightarrow> nat option" where
  "avl_local_min node t = do {
     l \<leftarrow> get left node t;
     if l \<noteq> 0 then avl_local_min l t else Some node
   }"

text \<open>A node with at most one child.\<close>

definition unlink_leaf ::
  "nat \<Rightarrow> ('k, 'z) avl_tree_scheme \<Rightarrow> ('k, 'z) avl_tree_scheme option" where
  "unlink_leaf node t = do {
     par \<leftarrow> get parent node t;
     if par = 0 then Some (t\<lparr>root := 0\<rparr>)
     else do {
       pl \<leftarrow> get left par t;
       if pl = node then do {
         t \<leftarrow> set_left par 0 t;
         lower_left avl_post_delete par t
       }
       else do {
         pr \<leftarrow> get right par t;
         if pr = node then do {
           t \<leftarrow> set_right par 0 t;
           lower_right avl_post_delete par t
         }
         else None
       }
     }
   }"

definition unlink_one ::
  "nat \<Rightarrow> nat \<Rightarrow> ('k, 'z) avl_tree_scheme \<Rightarrow> ('k, 'z) avl_tree_scheme option" where
  "unlink_one node child t = do {
     par \<leftarrow> get parent node t;
     if par = 0 then set_parent child 0 (t\<lparr>root := child\<rparr>)
     else do {
       t \<leftarrow> set_parent child par t;
       t \<leftarrow> replace_child par node child t;
       avl_post_delete child t
     }
   }"

text \<open>
  The worker calls itself for the least node of the right subtree, which has no left child; that
  call ends in the cases above.
\<close>

definition avl_delete_small :: "nat \<Rightarrow> ('k, 'z) avl_tree_scheme \<Rightarrow> ('k, 'z) avl_tree_scheme option" where
  "avl_delete_small node t = do {
     l \<leftarrow> get left node t;
     r \<leftarrow> get right node t;
     if l = 0 \<and> r = 0 then unlink_leaf node t
     else if l = 0 then unlink_one node r t
     else if r = 0 then unlink_one node l t
     else None
   }"

definition avl_delete_worker :: "nat \<Rightarrow> ('k, 'z) avl_tree_scheme \<Rightarrow> ('k, 'z) avl_tree_scheme option" where
  "avl_delete_worker node t = do {
     l \<leftarrow> get left node t;
     r \<leftarrow> get right node t;
     if l = 0 \<or> r = 0 then avl_delete_small node t
     else do {
       mn \<leftarrow> avl_local_min r t;
       t \<leftarrow> avl_delete_small mn t;
       par \<leftarrow> get parent node t;
       b \<leftarrow> get balance node t;
       t \<leftarrow> set_balance mn b t;
       t \<leftarrow> set_parent mn par t;
       l \<leftarrow> get left node t;
       t \<leftarrow> set_left mn l t;
       r \<leftarrow> get right node t;
       t \<leftarrow> set_right mn r t;
       t \<leftarrow> (if l \<noteq> 0 then set_parent l mn t else Some t);
       t \<leftarrow> (if r \<noteq> 0 then set_parent r mn t else Some t);
       replace_child par node mn t
     }
   }"

text \<open>A series of nodes with one key is led by its first one, which is the one in the tree.\<close>

definition avl_delete :: "nat \<Rightarrow> ('k, 'z) avl_tree_scheme \<Rightarrow> ('k, 'z) avl_tree_scheme option" where
  "avl_delete node t = do {
     ld \<leftarrow> get leader node t;
     t \<leftarrow> (if ld then do {
         series \<leftarrow> (if allow_dups t then do {
             e \<leftarrow> list_is_last node (list_head t) t;
             if e then Some False
             else do { n \<leftarrow> avl_next node t; nl \<leftarrow> get leader n t; Some (\<not> nl) }
           } else Some False);
         if series then do {
           n \<leftarrow> avl_next node t;
           t \<leftarrow> set_leader n True t;
           b \<leftarrow> get balance node t;
           t \<leftarrow> set_balance n b t;
           par \<leftarrow> get parent node t;
           l \<leftarrow> get left node t;
           r \<leftarrow> get right node t;
           t \<leftarrow> set_parent n par t;
           t \<leftarrow> set_left n l t;
           t \<leftarrow> set_right n r t;
           t \<leftarrow> replace_child par node n t;
           t \<leftarrow> (if l \<noteq> 0 then set_parent l n t else Some t);
           if r \<noteq> 0 then set_parent r n t else Some t
         } else avl_delete_worker node t
       } else Some t);
     avl_remove node t
   }"

end
