(* ===== verification/Avl_Search.thy ===== *)
theory Avl_Search
  imports Avl
begin

text \<open>
  What a heap that holds a tree looks like, and that the searches of \<open>avl.c\<close> find what they
  promise.  The shape is a tree of addresses; the keys are read off the heap.
\<close>

section \<open>Comparators\<close>

text \<open>What \<open>avl.h\<close> asks of a comparator: its sign is that of a linear order.\<close>

locale comparator =
  fixes cmp :: "'k \<Rightarrow> 'k \<Rightarrow> int"
  assumes cmp_antisym: "cmp a b < 0 \<longleftrightarrow> cmp b a > 0"
    and cmp_trans: "cmp a b < 0 \<Longrightarrow> cmp b c < 0 \<Longrightarrow> cmp a c < 0"
    and cmp_eq: "cmp a b = 0 \<longleftrightarrow> a = b"
begin

lemma cmp_self [simp]: "cmp a a = 0"
  by (simp add: cmp_eq)

lemma cmp_zero_less: "cmp a b = 0 \<Longrightarrow> cmp b c < 0 \<Longrightarrow> cmp a c < 0"
  by (simp add: cmp_eq)

end

section \<open>Trees on the heap\<close>

datatype shape = Tip | Bin shape nat shape

primrec nodes :: "shape \<Rightarrow> nat list" where
  "nodes Tip = []"
| "nodes (Bin l a r) = nodes l @ a # nodes r"

primrec high :: "shape \<Rightarrow> nat" where
  "high Tip = 0"
| "high (Bin l a r) = Suc (max (high l) (high r))"

fun tree_at :: "shape \<Rightarrow> nat \<Rightarrow> nat \<Rightarrow> ('k, 'z) avl_tree_scheme \<Rightarrow> bool" where
  "tree_at Tip p x t \<longleftrightarrow> x = 0"
| "tree_at (Bin l a r) p x t \<longleftrightarrow> x = a \<and> a \<noteq> 0 \<and> parent t a = p \<and>
     tree_at l a (left t a) t \<and> tree_at r a (right t a) t"

text \<open>The keys, in the order of the tree.\<close>

definition keys_of :: "shape \<Rightarrow> ('k, 'z) avl_tree_scheme \<Rightarrow> 'k list" where
  "keys_of T t = map (key t) (nodes T)"

definition less_by :: "('k \<Rightarrow> 'k \<Rightarrow> int) \<Rightarrow> 'k \<Rightarrow> 'k \<Rightarrow> bool" where
  "less_by cmp a b \<longleftrightarrow> cmp a b < 0"

text \<open>The balance of every node is the difference of the heights, and at most 1.\<close>

fun balanced_at :: "shape \<Rightarrow> ('k, 'z) avl_tree_scheme \<Rightarrow> bool" where
  "balanced_at Tip t \<longleftrightarrow> True"
| "balanced_at (Bin l a r) t \<longleftrightarrow> balance t a = int (high r) - int (high l) \<and> \<bar>balance t a\<bar> \<le> 1 \<and>
     balanced_at l t \<and> balanced_at r t"

text \<open>A tree without duplicates: shape, list, order, balance and count.\<close>

definition avl_ok :: "shape \<Rightarrow> ('k, 'z) avl_tree_scheme \<Rightarrow> bool" where
  "avl_ok T t \<longleftrightarrow> tree_at T 0 (root t) t \<and> is_list (list_head t) (nodes T) t \<and>
     sorted_wrt (less_by (comp t)) (keys_of T t) \<and> balanced_at T t \<and> count t = length (nodes T) \<and>
     (\<forall>a \<in> set (nodes T). leader t a) \<and> \<not> allow_dups t"

lemma sorted_keys_Bin:
  "sorted_wrt (less_by c) (keys_of (Bin l a r) t) \<longleftrightarrow>
     sorted_wrt (less_by c) (keys_of l t) \<and> sorted_wrt (less_by c) (keys_of r t) \<and>
     (\<forall>x \<in> set (nodes l). c (key t x) (key t a) < 0) \<and> (\<forall>x \<in> set (nodes r). c (key t a) (key t x) < 0) \<and>
     (\<forall>x \<in> set (nodes l). \<forall>y \<in> set (nodes r). c (key t x) (key t y) < 0)"
  by (auto simp: keys_of_def sorted_wrt_append less_by_def)

section \<open>Finding a key\<close>

context comparator
begin

text \<open>The search ends at the node with the key, or next to where it would be.\<close>

lemma find_rec_ok:
  "tree_at T p x t \<Longrightarrow> T \<noteq> Tip \<Longrightarrow> comp t = cmp \<Longrightarrow> sorted_wrt (less_by cmp) (keys_of T t) \<Longrightarrow>
   \<exists>a diff. avl_find_rec x k t = Some (a, diff) \<and> a \<in> set (nodes T) \<and> diff = cmp k (key t a) \<and>
     (diff \<noteq> 0 \<longrightarrow> (\<forall>b \<in> set (nodes T). cmp k (key t b) \<noteq> 0)) \<and>
     (diff < 0 \<longrightarrow> left t a = 0) \<and> (diff > 0 \<longrightarrow> right t a = 0)"
proof (induction T arbitrary: p x)
  case Tip
  then show ?case by simp
next
  case (Bin l a r)
  then have h: "x = a" "a \<noteq> 0" "tree_at l a (left t a) t" "tree_at r a (right t a) t" by auto
  note s = Bin.prems(4) [unfolded sorted_keys_Bin]
  consider (lt) "cmp k (key t a) < 0" | (gt) "cmp k (key t a) > 0" | (eq) "cmp k (key t a) = 0" by linarith
  then show ?case
  proof cases
    case eq
    then show ?thesis using h Bin.prems(3) by (subst avl_find_rec.simps) (simp add: get_def Let_def)
  next
    case lt
    have no: "\<forall>b \<in> set (nodes r). cmp k (key t b) \<noteq> 0"
    proof
      fix b assume "b \<in> set (nodes r)"
      then have "cmp (key t a) (key t b) < 0" using s by auto
      from cmp_trans [OF lt this] show "cmp k (key t b) \<noteq> 0" by simp
    qed
    show ?thesis
    proof (cases "l = Tip")
      case True
      then show ?thesis using h lt no Bin.prems(3)
        by (subst avl_find_rec.simps) (auto simp: get_def Let_def)
    next
      case False
      then have "left t a \<noteq> 0" using h(3) by (cases l) auto
      then show ?thesis using Bin.IH(1) [OF h(3) False Bin.prems(3)] s h lt no Bin.prems(3)
        by (subst avl_find_rec.simps) (auto simp: get_def Let_def)
    qed
  next
    case gt
    have no: "\<forall>b \<in> set (nodes l). cmp k (key t b) \<noteq> 0"
    proof
      fix b assume "b \<in> set (nodes l)"
      then have "cmp (key t b) (key t a) < 0" using s by auto
      moreover have "cmp (key t a) k < 0" using gt cmp_antisym by blast
      ultimately have "cmp (key t b) k < 0" by (rule cmp_trans)
      then show "cmp k (key t b) \<noteq> 0" using cmp_antisym by fastforce
    qed
    show ?thesis
    proof (cases "r = Tip")
      case True
      then show ?thesis using h gt no Bin.prems(3)
        by (subst avl_find_rec.simps) (auto simp: get_def Let_def)
    next
      case False
      then have "right t a \<noteq> 0" using h(4) by (cases r) auto
      then show ?thesis using Bin.IH(2) [OF h(4) False Bin.prems(3)] s h gt no Bin.prems(3)
        by (subst avl_find_rec.simps) (auto simp: get_def Let_def)
    qed
  qed
qed

lemma find_ok:
  assumes "avl_ok T t" "comp t = cmp"
  shows "\<exists>a. avl_find k t = Some a \<and>
    (if \<exists>b \<in> set (nodes T). key t b = k then a \<in> set (nodes T) \<and> key t a = k else a = 0)"
proof (cases "T = Tip")
  case True
  then show ?thesis using assms by (auto simp: avl_find_def avl_ok_def)
next
  case False
  then have "root t \<noteq> 0" using assms by (cases T) (auto simp: avl_ok_def)
  moreover from find_rec_ok [of T 0 "root t" t k] assms False obtain a diff where
    "avl_find_rec (root t) k t = Some (a, diff)" "a \<in> set (nodes T)" "diff = cmp k (key t a)"
    "diff \<noteq> 0 \<Longrightarrow> \<forall>b \<in> set (nodes T). cmp k (key t b) \<noteq> 0"
    by (auto simp: avl_ok_def)
  ultimately show ?thesis by (auto simp: avl_find_def cmp_eq)
qed

end

end
