(* ===== verification/Avl_Zipper.thy ===== *)
theory Avl_Zipper
  imports Avl_Search
begin

text \<open>
  A place in a tree on the heap: a subtree and the context around it, the way up to the root.
  The rotations of \<open>avl.c\<close> change a subtree in its place; their formula for the balances is exact
  for subtrees of any height.
\<close>

section \<open>Contexts\<close>

text \<open>One step up: from the left child of a node with its right subtree, or from the right child.\<close>

datatype crumb = LeftOf nat shape | RightOf shape nat

type_synonym path = "crumb list"

fun plug :: "path \<Rightarrow> shape \<Rightarrow> shape" where
  "plug [] T = T"
| "plug (LeftOf a r # cs) T = plug cs (Bin T a r)"
| "plug (RightOf l a # cs) T = plug cs (Bin l a T)"

fun above :: "path \<Rightarrow> nat" where
  "above [] = 0"
| "above (LeftOf a r # cs) = a"
| "above (RightOf l a # cs) = a"

fun before :: "path \<Rightarrow> nat list" where
  "before [] = []"
| "before (LeftOf a r # cs) = before cs"
| "before (RightOf l a # cs) = before cs @ nodes l @ [a]"

fun behind :: "path \<Rightarrow> nat list" where
  "behind [] = []"
| "behind (LeftOf a r # cs) = a # nodes r @ behind cs"
| "behind (RightOf l a # cs) = behind cs"

lemma nodes_plug: "nodes (plug cs T) = before cs @ nodes T @ behind cs"
  by (induction cs T rule: plug.induct) auto

definition around :: "path \<Rightarrow> nat set" where
  "around cs = set (before cs) \<union> set (behind cs)"

lemma around_simps [simp]:
  "around [] = {}"
  "around (LeftOf a r # cs) = insert a (set (nodes r) \<union> around cs)"
  "around (RightOf l a # cs) = insert a (set (nodes l) \<union> around cs)"
  by (auto simp: around_def)

lemma above_around: "cs \<noteq> [] \<Longrightarrow> above cs \<in> around cs"
  by (cases cs rule: above.cases) auto

text \<open>The context on the heap, with \<open>x\<close> in its hole.\<close>

fun ctx_at :: "path \<Rightarrow> nat \<Rightarrow> ('k, 'z) avl_tree_scheme \<Rightarrow> bool" where
  "ctx_at [] x t \<longleftrightarrow> root t = x"
| "ctx_at (LeftOf a r # cs) x t \<longleftrightarrow> a \<noteq> 0 \<and> left t a = x \<and> parent t a = above cs \<and>
     tree_at r a (right t a) t \<and> ctx_at cs a t"
| "ctx_at (RightOf l a # cs) x t \<longleftrightarrow> a \<noteq> 0 \<and> right t a = x \<and> parent t a = above cs \<and>
     tree_at l a (left t a) t \<and> ctx_at cs a t"

lemma tree_at_plug:
  "tree_at (plug cs T) 0 (root t) t \<longleftrightarrow> (\<exists>x. ctx_at cs x t \<and> tree_at T (above cs) x t)"
proof (induction cs T rule: plug.induct)
  case (2 a r cs T)
  then show ?case by auto
next
  case (3 l a cs T)
  then show ?case by auto
qed auto

section \<open>Heights and balances\<close>

fun exact_at :: "shape \<Rightarrow> ('k, 'z) avl_tree_scheme \<Rightarrow> bool" where
  "exact_at Tip t \<longleftrightarrow> True"
| "exact_at (Bin l a r) t \<longleftrightarrow> balance t a = int (high r) - int (high l) \<and> exact_at l t \<and> exact_at r t"

fun avl_shape :: "shape \<Rightarrow> bool" where
  "avl_shape Tip \<longleftrightarrow> True"
| "avl_shape (Bin l a r) \<longleftrightarrow> \<bar>int (high r) - int (high l)\<bar> \<le> 1 \<and> avl_shape l \<and> avl_shape r"

lemma balanced_at_iff: "balanced_at T t \<longleftrightarrow> exact_at T t \<and> avl_shape T"
  by (induction T) auto

text \<open>The same for a context whose hole has the height \<open>h\<close>.\<close>

fun ctx_exact :: "path \<Rightarrow> nat \<Rightarrow> ('k, 'z) avl_tree_scheme \<Rightarrow> bool" where
  "ctx_exact [] h t \<longleftrightarrow> True"
| "ctx_exact (LeftOf a r # cs) h t \<longleftrightarrow> balance t a = int (high r) - int h \<and> exact_at r t \<and>
     ctx_exact cs (Suc (max h (high r))) t"
| "ctx_exact (RightOf l a # cs) h t \<longleftrightarrow> balance t a = int h - int (high l) \<and> exact_at l t \<and>
     ctx_exact cs (Suc (max (high l) h)) t"

fun ctx_avl :: "path \<Rightarrow> nat \<Rightarrow> bool" where
  "ctx_avl [] h \<longleftrightarrow> True"
| "ctx_avl (LeftOf a r # cs) h \<longleftrightarrow> \<bar>int (high r) - int h\<bar> \<le> 1 \<and> avl_shape r \<and>
     ctx_avl cs (Suc (max h (high r)))"
| "ctx_avl (RightOf l a # cs) h \<longleftrightarrow> \<bar>int h - int (high l)\<bar> \<le> 1 \<and> avl_shape l \<and>
     ctx_avl cs (Suc (max (high l) h))"

lemma exact_at_plug: "exact_at (plug cs T) t \<longleftrightarrow> exact_at T t \<and> ctx_exact cs (high T) t"
  by (induction cs T rule: plug.induct) auto

lemma avl_shape_plug: "avl_shape (plug cs T) \<longleftrightarrow> avl_shape T \<and> ctx_avl cs (high T)"
  by (induction cs T rule: plug.induct) auto

section \<open>Parts of the heap that do not change\<close>

definition agree :: "nat set \<Rightarrow> ('k, 'z) avl_tree_scheme \<Rightarrow> ('k, 'z) avl_tree_scheme \<Rightarrow> bool" where
  "agree A t t' \<longleftrightarrow> (\<forall>a\<in>A. left t' a = left t a \<and> right t' a = right t a \<and> parent t' a = parent t a)"

lemma agree_mono: "agree A t t' \<Longrightarrow> B \<subseteq> A \<Longrightarrow> agree B t t'"
  by (auto simp: agree_def)

lemma tree_at_agree: "agree (set (nodes T)) t t' \<Longrightarrow> tree_at T p x t \<Longrightarrow> tree_at T p x t'"
proof (induction T arbitrary: p x)
  case (Bin l a r)
  then have "agree (set (nodes l)) t t'" "agree (set (nodes r)) t t'"
    by (auto elim: agree_mono)
  with Bin show ?case by (auto simp: agree_def)
qed simp

lemma ctx_at_agree: "agree (around cs) t t' \<Longrightarrow> root t' = root t \<Longrightarrow> ctx_at cs x t \<Longrightarrow> ctx_at cs x t'"
proof (induction cs x t rule: ctx_at.induct)
  case (2 a r cs x t)
  then have "agree (set (nodes r)) t t'" "agree (around cs) t t'"
    by (auto elim: agree_mono)
  with 2 show ?case by (auto simp: agree_def intro: tree_at_agree)
next
  case (3 l a cs x t)
  then have "agree (set (nodes l)) t t'" "agree (around cs) t t'"
    by (auto elim: agree_mono)
  with 3 show ?case by (auto simp: agree_def intro: tree_at_agree)
qed simp

lemma exact_at_cong: "(\<And>a. a \<in> set (nodes T) \<Longrightarrow> balance t' a = balance t a) \<Longrightarrow> exact_at T t' = exact_at T t"
  by (induction T) auto

lemma ctx_exact_cong:
  "(\<And>a. a \<in> around cs \<Longrightarrow> balance t' a = balance t a) \<Longrightarrow> ctx_exact cs h t' = ctx_exact cs h t"
proof (induction cs arbitrary: h)
  case (Cons c cs)
  show ?case
  proof (cases c)
    case (LeftOf a r)
    with Cons exact_at_cong [of r t' t] show ?thesis by auto
  next
    case (RightOf l a)
    with Cons exact_at_cong [of l t' t] show ?thesis by auto
  qed
qed simp

text \<open>Only the links of the tree, the balances and the root change.\<close>

definition reshaped :: "('k, 'z) avl_tree_scheme \<Rightarrow> ('k, 'z) avl_tree_scheme \<Rightarrow> bool" where
  "reshaped t t' \<longleftrightarrow>
     key t' = key t \<and> leader t' = leader t \<and> list_head t' = list_head t \<and> count t' = count t
     \<and> allow_dups t' = allow_dups t \<and> comp t' = comp t \<and> l_next t' = l_next t \<and> l_prev t' = l_prev t
     \<and> avl_tree.more t' = avl_tree.more t"

lemma reshaped_refl [simp]: "reshaped t t"
  by (simp add: reshaped_def)

lemma reshaped_trans [trans]: "reshaped t t' \<Longrightarrow> reshaped t' t'' \<Longrightarrow> reshaped t t''"
  by (simp add: reshaped_def)

lemma reshaped_upd [simp]:
  "reshaped t (t'\<lparr>parent := p\<rparr>) = reshaped t t'" "reshaped t (t'\<lparr>left := l\<rparr>) = reshaped t t'"
  "reshaped t (t'\<lparr>right := r\<rparr>) = reshaped t t'" "reshaped t (t'\<lparr>balance := b\<rparr>) = reshaped t t'"
  "reshaped t (t'\<lparr>root := x\<rparr>) = reshaped t t'"
  by (simp_all add: reshaped_def)

section \<open>Places\<close>

definition place :: "path \<Rightarrow> shape \<Rightarrow> nat \<Rightarrow> ('k, 'z) avl_tree_scheme \<Rightarrow> bool" where
  "place cs T x t \<longleftrightarrow> ctx_at cs x t \<and> tree_at T (above cs) x t \<and> distinct (nodes (plug cs T))"

lemma place_whole: "tree_at T 0 (root t) t \<Longrightarrow> distinct (nodes T) \<Longrightarrow> place [] T (root t) t"
  by (simp add: place_def)

lemma place_plug: "place cs T x t \<Longrightarrow> tree_at (plug cs T) 0 (root t) t"
  by (auto simp: place_def tree_at_plug)

lemma place_up_left: "place (LeftOf a r # cs) T x t \<longleftrightarrow> place cs (Bin T a r) a t \<and> left t a = x"
  by (auto simp: place_def)

lemma place_up_right: "place (RightOf l a # cs) T x t \<longleftrightarrow> place cs (Bin l a T) a t \<and> right t a = x"
  by (auto simp: place_def)

text \<open>Every node has a place.\<close>

lemma node_place:
  "a \<in> set (nodes T) \<Longrightarrow> \<exists>cs L R. T = plug cs (Bin L a R)"
proof -
  have "a \<in> set (nodes T) \<Longrightarrow> \<exists>cs' L R. plug cs T = plug cs' (Bin L a R)" for cs
  proof (induction T arbitrary: cs)
    case (Bin l b r)
    consider "a = b" | "a \<in> set (nodes l)" | "a \<in> set (nodes r)" using Bin.prems by auto
    then show ?case
    proof cases
      case 1
      then show ?thesis by blast
    next
      case 2
      from Bin.IH(1) [OF this, of "LeftOf b r # cs"] show ?thesis by simp
    next
      case 3
      from Bin.IH(2) [OF this, of "RightOf l b # cs"] show ?thesis by simp
    qed
  qed simp
  from this [of "[]"] show "a \<in> set (nodes T) \<Longrightarrow> ?thesis" by simp
qed

lemma place_root:
  assumes "place cs (Bin L a R) x t"
  shows "x = a" "a \<noteq> 0" "parent t a = above cs" "a \<notin> around cs" "a \<notin> set (nodes L)" "a \<notin> set (nodes R)"
    "above cs \<noteq> a"
proof -
  show "x = a" "a \<noteq> 0" "parent t a = above cs" "a \<notin> around cs" "a \<notin> set (nodes L)" "a \<notin> set (nodes R)"
    using assms by (auto simp: place_def nodes_plug around_def)
  then show "above cs \<noteq> a"
    using above_around [of cs] by (cases "cs = []") auto
qed

end
