(* ===== verification/Avl_Rotate.thy ===== *)
theory Avl_Rotate
  imports Avl_Zipper
begin

text \<open>
  The rotations of \<open>avl.c\<close> in their place: the order of the nodes is kept, and so is the exactness of the
  balances.
\<close>

section \<open>Replacing a child\<close>

fun put_child :: "path \<Rightarrow> nat \<Rightarrow> ('k, 'z) avl_tree_scheme \<Rightarrow> ('k, 'z) avl_tree_scheme" where
  "put_child [] x t = t\<lparr>root := x\<rparr>"
| "put_child (LeftOf a r # cs) x t = t\<lparr>left := (left t)(a := x)\<rparr>"
| "put_child (RightOf l a # cs) x t = t\<lparr>right := (right t)(a := x)\<rparr>"

lemma put_child_sel [simp]:
  "parent (put_child cs x t) = parent t" "balance (put_child cs x t) = balance t"
  "above cs \<noteq> a \<Longrightarrow> left (put_child cs x t) a = left t a"
  "above cs \<noteq> a \<Longrightarrow> right (put_child cs x t) a = right t a"
  by (cases cs rule: above.cases; simp)+

lemma reshaped_put_child [simp]: "reshaped t (put_child cs x t') = reshaped t t'"
  by (cases cs rule: above.cases) auto

lemma tree_root: "tree_at T p x t \<Longrightarrow> x = 0 \<or> x \<in> set (nodes T)"
  by (cases T) auto

lemma tree_no_null: "tree_at T p x t \<Longrightarrow> 0 \<notin> set (nodes T)"
  by (induction T arbitrary: p x) auto

text \<open>Only the parent of the root of a subtree changes.\<close>

lemma tree_at_reparent:
  assumes "tree_at B p b t" "distinct (nodes B)" "agree (set (nodes B) - {b}) t t'"
    and "b \<noteq> 0 \<Longrightarrow> left t' b = left t b \<and> right t' b = right t b \<and> parent t' b = q"
  shows "tree_at B q b t'"
proof (cases B)
  case Tip
  with assms show ?thesis by simp
next
  case (Bin L a R)
  with assms(1) have a: "b = a" "a \<noteq> 0" by auto
  have "agree (set (nodes L)) t t'" "agree (set (nodes R)) t t'"
    using assms(2,3) Bin a by (auto elim!: agree_mono)
  with assms(1,4) Bin a show ?thesis by (auto intro: tree_at_agree)
qed

lemma replace_child_place:
  assumes "ctx_at cs n t" "n \<notin> around cs" "n \<noteq> 0"
  shows "replace_child (above cs) n x t = Some (put_child cs x t)"
proof (cases cs rule: above.cases)
  case (3 l a ds)
  have "left t a \<noteq> n"
  proof
    assume "left t a = n"
    with assms 3 tree_root [of l a n t] show False by simp
  qed
  with assms 3 show ?thesis by (simp add: replace_child_def set_right_def)
qed (use assms in \<open>simp_all add: replace_child_def set_left_def\<close>)

lemma put_child_ctx:
  assumes "ctx_at cs n t" "distinct (before cs @ behind cs)"
  shows "ctx_at cs x (put_child cs x t)"
proof (cases cs rule: above.cases)
  case (2 a r ds)
  let ?t = "t\<lparr>left := (left t)(a := x)\<rparr>"
  have "agree (set (nodes r)) t ?t" "agree (around ds) t ?t"
    using assms(2) 2 by (auto simp: agree_def around_def)
  with assms(1) 2 show ?thesis by (auto intro: tree_at_agree ctx_at_agree)
next
  case (3 l a ds)
  let ?t = "t\<lparr>right := (right t)(a := x)\<rparr>"
  have "agree (set (nodes l)) t ?t" "agree (around ds) t ?t"
    using assms(2) 3 by (auto simp: agree_def around_def)
  with assms(1) 3 show ?thesis by (auto intro: tree_at_agree ctx_at_agree)
qed simp

lemma put_child_root: "ctx_at cs n t \<Longrightarrow> cs \<noteq> [] \<Longrightarrow> root (put_child cs x t) = root t"
  by (cases cs rule: above.cases) auto

section \<open>Rotations\<close>

definition rotated_balance :: "(nat \<Rightarrow> int) \<Rightarrow> nat \<Rightarrow> nat \<Rightarrow> nat \<Rightarrow> int" where
  "rotated_balance b n l =
     (let bn = b n + (1 - min (b l) 0) in b(n := bn, l := b l + (1 + max bn 0)))"

text \<open>The rotation, once the child of the parent is replaced.\<close>

definition turn_right :: "nat \<Rightarrow> nat \<Rightarrow> nat \<Rightarrow> ('k, 'z) avl_tree_scheme \<Rightarrow> ('k, 'z) avl_tree_scheme" where
  "turn_right n l b t =
     t\<lparr>left := (left t)(n := b), right := (right t)(l := n),
       parent := (if b = 0 then parent t else (parent t)(b := n)),
       balance := rotated_balance (balance t) n l\<rparr>"

lemma rotate_right_run:
  assumes "n \<noteq> 0" "l \<noteq> 0" "n \<noteq> l" "left t n = l" "b \<noteq> n"
    and "replace_child (parent t n) n l (t\<lparr>parent := (parent t)(l := parent t n, n := l)\<rparr>) = Some t2"
    and "right t2 l = b"
  shows "avl_rotate_right n t = Some (turn_right n l b t2)"
proof -
  have eq: "avl_rotate_right n t = do {
      t \<leftarrow> set_left n b t2;
      t \<leftarrow> set_right l n t;
      nl \<leftarrow> get left n t;
      t \<leftarrow> (if nl \<noteq> 0 then set_parent nl n t else Some t);
      bn \<leftarrow> get balance n t;
      bl \<leftarrow> get balance l t;
      t \<leftarrow> set_balance n (bn + (1 - min bl 0)) t;
      bn \<leftarrow> get balance n t;
      bl \<leftarrow> get balance l t;
      set_balance l (bl + (1 + max bn 0)) t }"
    using assms by (simp add: avl_rotate_right_def get_def set_parent_def)
  show ?thesis
    unfolding eq turn_right_def using assms(1-3)
    by (cases "b = 0") (simp_all add: avl_access rotated_balance_def Let_def)
qed

lemma rotate_right_place:
  assumes pl: "place cs (Bin (Bin A l B) n C) n t"
  shows "\<exists>t'. avl_rotate_right n t = Some t' \<and> place cs (Bin A l (Bin B n C)) l t' \<and> reshaped t t' \<and>
           balance t' = rotated_balance (balance t) n l"
proof -
  define b where "b = right t l"
  have c: "ctx_at cs n t" and d: "distinct (before cs @ nodes A @ l # nodes B @ n # nodes C @ behind cs)"
    and f: "parent t n = above cs" "left t n = l" "n \<noteq> 0" "l \<noteq> 0"
    and tA: "tree_at A l (left t l) t" and tB: "tree_at B l b t" and tC: "tree_at C n (right t n) t"
    using pl by (auto simp: place_def nodes_plug b_def)
  have nl: "n \<noteq> l" "n \<notin> around cs" "l \<notin> around cs" using d by (auto simp: around_def)
  have ab: "above cs \<noteq> n" "above cs \<noteq> l" "above cs \<notin> set (nodes A)" "above cs \<notin> set (nodes B)"
    "above cs \<notin> set (nodes C)"
  proof -
    have "above cs = 0 \<or> above cs \<in> around cs" by (cases "cs = []") (auto intro: above_around)
    moreover note tree_no_null [OF tA] tree_no_null [OF tB] tree_no_null [OF tC]
    ultimately show "above cs \<noteq> n" "above cs \<noteq> l" "above cs \<notin> set (nodes A)" "above cs \<notin> set (nodes B)"
      "above cs \<notin> set (nodes C)"
      using f nl d tA tB tC by (auto simp: around_def)
  qed
  have bB: "b = 0 \<or> b \<in> set (nodes B)" using tree_root [OF tB] .
  let ?t1 = "t\<lparr>parent := (parent t)(l := above cs, n := l)\<rparr>"
  let ?t2 = "put_child cs l ?t1"
  let ?t5 = "turn_right n l b ?t2"
  have ag1: "agree (around cs) t ?t1" using nl by (auto simp: agree_def)
  have c1: "ctx_at cs n ?t1" by (rule ctx_at_agree [OF ag1 _ c]) simp
  have c2: "ctx_at cs l ?t2" by (rule put_child_ctx [OF c1]) (use d in auto)
  have rep: "replace_child (above cs) n l ?t1 = Some ?t2"
    by (rule replace_child_place [OF c1 nl(2) f(3)])
  have r2: "right ?t2 l = b" using ab by (simp add: b_def)
  have b_out: "b \<noteq> 0 \<Longrightarrow> b \<notin> around cs \<and> b \<noteq> n \<and> b \<noteq> l \<and> b \<notin> set (nodes A) \<and> b \<notin> set (nodes C)"
    using bB d by (auto simp: around_def)
  have run: "avl_rotate_right n t = Some ?t5"
    by (rule rotate_right_run [OF f(3,4) nl(1) f(2) _ _ r2]) (use b_out rep f(1,3) in auto)
  have sel: "left ?t5 a = (if a = n then b else left ?t2 a)" "right ?t5 a = (if a = l then n else right ?t2 a)"
    "parent ?t5 a = (if a = b \<and> b \<noteq> 0 then n else if a = n then l else if a = l then above cs else parent t a)"
    "root ?t5 = root ?t2" for a
    by (simp_all add: turn_right_def)
  have c5: "ctx_at cs l ?t5"
    by (rule ctx_at_agree [OF _ _ c2]) (use nl b_out in \<open>auto simp: agree_def sel\<close>)
  have same: "agree (- {n, l, b, above cs}) t ?t5"
    by (simp add: agree_def sel)
  have out: "n \<notin> set (nodes A)" "l \<notin> set (nodes A)" "n \<notin> set (nodes B)" "l \<notin> set (nodes B)"
    "n \<notin> set (nodes C)" "l \<notin> set (nodes C)" using d by simp_all
  have z: "0 \<notin> set (nodes A)" "0 \<notin> set (nodes C)" using tA tC by (auto dest: tree_no_null)
  have b_out': "b \<notin> set (nodes A)" "b \<notin> set (nodes C)" using b_out z by (cases "b = 0", simp_all)+
  have agA: "agree (set (nodes A)) t ?t5" by (rule agree_mono [OF same]) (use out ab b_out' in blast)
  have agC: "agree (set (nodes C)) t ?t5" by (rule agree_mono [OF same]) (use out ab b_out' in blast)
  have agB: "agree (set (nodes B) - {b}) t ?t5" by (rule agree_mono [OF same]) (use out ab in blast)
  have "b \<noteq> 0 \<Longrightarrow> above cs \<noteq> b" using ab(4) bB by auto
  then have fb: "b \<noteq> 0 \<Longrightarrow> left ?t5 b = left t b \<and> right ?t5 b = right t b \<and> parent ?t5 b = n"
    using b_out by (simp add: sel)
  have dB: "distinct (nodes B)" using d by auto
  have "tree_at B n b ?t5" by (rule tree_at_reparent [OF tB dB agB fb])
  moreover have "tree_at A l (left t l) ?t5" by (rule tree_at_agree [OF agA tA])
  moreover have "tree_at C n (right t n) ?t5" by (rule tree_at_agree [OF agC tC])
  ultimately have "tree_at (Bin A l (Bin B n C)) (above cs) l ?t5"
    using f nl ab b_out by (auto simp: sel)
  with c5 d have "place cs (Bin A l (Bin B n C)) l ?t5"
    by (auto simp: place_def nodes_plug)
  moreover have "reshaped t ?t5" "balance ?t5 = rotated_balance (balance t) n l"
    by (simp_all add: turn_right_def)
  ultimately show ?thesis using run by blast
qed

text \<open>The other way round.\<close>

definition lrotated_balance :: "(nat \<Rightarrow> int) \<Rightarrow> nat \<Rightarrow> nat \<Rightarrow> nat \<Rightarrow> int" where
  "lrotated_balance b n l =
     (let bn = b n - (1 + max (b l) 0) in b(n := bn, l := b l - (1 - min bn 0)))"

text \<open>The rotation, once the child of the parent is replaced.\<close>

definition turn_left :: "nat \<Rightarrow> nat \<Rightarrow> nat \<Rightarrow> ('k, 'z) avl_tree_scheme \<Rightarrow> ('k, 'z) avl_tree_scheme" where
  "turn_left n l b t =
     t\<lparr>left := (left t)(l := n), right := (right t)(n := b),
       parent := (if b = 0 then parent t else (parent t)(b := n)),
       balance := lrotated_balance (balance t) n l\<rparr>"

lemma rotate_left_run:
  assumes "n \<noteq> 0" "l \<noteq> 0" "n \<noteq> l" "right t n = l" "b \<noteq> n"
    and "replace_child (parent t n) n l (t\<lparr>parent := (parent t)(l := parent t n, n := l)\<rparr>) = Some t2"
    and "left t2 l = b"
  shows "avl_rotate_left n t = Some (turn_left n l b t2)"
proof -
  have eq: "avl_rotate_left n t = do {
      t \<leftarrow> set_right n b t2;
      t \<leftarrow> set_left l n t;
      nl \<leftarrow> get right n t;
      t \<leftarrow> (if nl \<noteq> 0 then set_parent nl n t else Some t);
      bn \<leftarrow> get balance n t;
      bl \<leftarrow> get balance l t;
      t \<leftarrow> set_balance n (bn - (1 + max bl 0)) t;
      bn \<leftarrow> get balance n t;
      bl \<leftarrow> get balance l t;
      set_balance l (bl - (1 - min bn 0)) t }"
    using assms by (simp add: avl_rotate_left_def get_def set_parent_def)
  show ?thesis
    unfolding eq turn_left_def using assms(1-3)
    by (cases "b = 0") (simp_all add: avl_access lrotated_balance_def Let_def)
qed

lemma rotate_left_place:
  assumes pl: "place cs (Bin C n (Bin B l A)) n t"
  shows "\<exists>t'. avl_rotate_left n t = Some t' \<and> place cs (Bin (Bin C n B) l A) l t' \<and> reshaped t t' \<and>
           balance t' = lrotated_balance (balance t) n l"
proof -
  define b where "b = left t l"
  have c: "ctx_at cs n t" and d: "distinct (before cs @ nodes C @ n # nodes B @ l # nodes A @ behind cs)"
    and f: "parent t n = above cs" "right t n = l" "n \<noteq> 0" "l \<noteq> 0"
    and tA: "tree_at A l (right t l) t" and tB: "tree_at B l b t" and tC: "tree_at C n (left t n) t"
    using pl by (auto simp: place_def nodes_plug b_def)
  have nl: "n \<noteq> l" "n \<notin> around cs" "l \<notin> around cs" using d by (auto simp: around_def)
  have ab: "above cs \<noteq> n" "above cs \<noteq> l" "above cs \<notin> set (nodes A)" "above cs \<notin> set (nodes B)"
    "above cs \<notin> set (nodes C)"
  proof -
    have "above cs = 0 \<or> above cs \<in> around cs" by (cases "cs = []") (auto intro: above_around)
    moreover note tree_no_null [OF tA] tree_no_null [OF tB] tree_no_null [OF tC]
    ultimately show "above cs \<noteq> n" "above cs \<noteq> l" "above cs \<notin> set (nodes A)" "above cs \<notin> set (nodes B)"
      "above cs \<notin> set (nodes C)"
      using f nl d tA tB tC by (auto simp: around_def)
  qed
  have bB: "b = 0 \<or> b \<in> set (nodes B)" using tree_root [OF tB] .
  let ?t1 = "t\<lparr>parent := (parent t)(l := above cs, n := l)\<rparr>"
  let ?t2 = "put_child cs l ?t1"
  let ?t5 = "turn_left n l b ?t2"
  have ag1: "agree (around cs) t ?t1" using nl by (auto simp: agree_def)
  have c1: "ctx_at cs n ?t1" by (rule ctx_at_agree [OF ag1 _ c]) simp
  have c2: "ctx_at cs l ?t2" by (rule put_child_ctx [OF c1]) (use d in auto)
  have rep: "replace_child (above cs) n l ?t1 = Some ?t2"
    by (rule replace_child_place [OF c1 nl(2) f(3)])
  have r2: "left ?t2 l = b" using ab by (simp add: b_def)
  have b_out: "b \<noteq> 0 \<Longrightarrow> b \<notin> around cs \<and> b \<noteq> n \<and> b \<noteq> l \<and> b \<notin> set (nodes A) \<and> b \<notin> set (nodes C)"
    using bB d by (auto simp: around_def)
  have run: "avl_rotate_left n t = Some ?t5"
    by (rule rotate_left_run [OF f(3,4) nl(1) f(2) _ _ r2]) (use b_out rep f(1,3) in auto)
  have sel: "right ?t5 a = (if a = n then b else right ?t2 a)" "left ?t5 a = (if a = l then n else left ?t2 a)"
    "parent ?t5 a = (if a = b \<and> b \<noteq> 0 then n else if a = n then l else if a = l then above cs else parent t a)"
    "root ?t5 = root ?t2" for a
    by (simp_all add: turn_left_def)
  have c5: "ctx_at cs l ?t5"
    by (rule ctx_at_agree [OF _ _ c2]) (use nl b_out in \<open>auto simp: agree_def sel\<close>)
  have same: "agree (- {n, l, b, above cs}) t ?t5"
    by (simp add: agree_def sel)
  have out: "n \<notin> set (nodes A)" "l \<notin> set (nodes A)" "n \<notin> set (nodes B)" "l \<notin> set (nodes B)"
    "n \<notin> set (nodes C)" "l \<notin> set (nodes C)" using d by simp_all
  have z: "0 \<notin> set (nodes A)" "0 \<notin> set (nodes C)" using tA tC by (auto dest: tree_no_null)
  have b_out': "b \<notin> set (nodes A)" "b \<notin> set (nodes C)" using b_out z by (cases "b = 0", simp_all)+
  have agA: "agree (set (nodes A)) t ?t5" by (rule agree_mono [OF same]) (use out ab b_out' in blast)
  have agC: "agree (set (nodes C)) t ?t5" by (rule agree_mono [OF same]) (use out ab b_out' in blast)
  have agB: "agree (set (nodes B) - {b}) t ?t5" by (rule agree_mono [OF same]) (use out ab in blast)
  have "b \<noteq> 0 \<Longrightarrow> above cs \<noteq> b" using ab(4) bB by auto
  then have fb: "b \<noteq> 0 \<Longrightarrow> left ?t5 b = left t b \<and> right ?t5 b = right t b \<and> parent ?t5 b = n"
    using b_out by (simp add: sel)
  have dB: "distinct (nodes B)" using d by auto
  have "tree_at B n b ?t5" by (rule tree_at_reparent [OF tB dB agB fb])
  moreover have "tree_at A l (right t l) ?t5" by (rule tree_at_agree [OF agA tA])
  moreover have "tree_at C n (left t n) ?t5" by (rule tree_at_agree [OF agC tC])
  ultimately have "tree_at (Bin (Bin C n B) l A) (above cs) l ?t5"
    using f nl ab b_out by (auto simp: sel)
  with c5 d have "place cs (Bin (Bin C n B) l A) l ?t5"
    by (auto simp: place_def nodes_plug)
  moreover have "reshaped t ?t5" "balance ?t5 = lrotated_balance (balance t) n l"
    by (simp_all add: turn_left_def)
  ultimately show ?thesis using run by blast
qed

section \<open>Exact balances\<close>

text \<open>What a rotation leaves: the new subtree in its place, with exact balances, the rest as it was.\<close>

definition turned :: "path \<Rightarrow> shape \<Rightarrow> nat \<Rightarrow> ('k, 'z) avl_tree_scheme \<Rightarrow> ('k, 'z) avl_tree_scheme \<Rightarrow> bool" where
  "turned cs T x t t' \<longleftrightarrow>
     place cs T x t' \<and> exact_at T t' \<and> reshaped t t' \<and> (\<forall>h. ctx_exact cs h t \<longrightarrow> ctx_exact cs h t')
     \<and> (\<forall>a. a \<notin> set (nodes T) \<longrightarrow> balance t' a = balance t a)"

lemma rotate_right_exact:
  assumes "place cs (Bin (Bin A l B) n C) n t" "exact_at (Bin (Bin A l B) n C) t"
  obtains t' where "avl_rotate_right n t = Some t'" "turned cs (Bin A l (Bin B n C)) l t t'"
proof -
  from rotate_right_place [OF assms(1)] obtain t' where
    t': "avl_rotate_right n t = Some t'" "place cs (Bin A l (Bin B n C)) l t'" "reshaped t t'"
      "balance t' = rotated_balance (balance t) n l" by blast
  have d: "distinct (before cs @ nodes A @ l # nodes B @ n # nodes C @ behind cs)"
    using assms(1) by (simp add: place_def nodes_plug)
  then have nl: "n \<noteq> l" "n \<notin> around cs" "l \<notin> around cs"
    "\<And>T. T \<in> {A, B, C} \<Longrightarrow> n \<notin> set (nodes T) \<and> l \<notin> set (nodes T)"
    by (auto simp: around_def)
  have same: "balance t' a = balance t a" if "a \<noteq> n" "a \<noteq> l" for a
    using that t'(4) by (simp add: rotated_balance_def Let_def)
  have bal: "balance t' n = int (high C) - int (high B)"
    "balance t' l = int (Suc (max (high B) (high C))) - int (high A)"
    using assms(2) nl(1) by (auto simp: t'(4) rotated_balance_def Let_def)
  have "exact_at T t' = exact_at T t" if "T \<in> {A, B, C}" for T
    by (rule exact_at_cong, rule same) (use nl(4) [OF that] in auto)
  then have "exact_at A t'" "exact_at B t'" "exact_at C t'"
    using assms(2) by simp_all
  with bal have "exact_at (Bin A l (Bin B n C)) t'" by simp
  moreover have "\<forall>h. ctx_exact cs h t \<longrightarrow> ctx_exact cs h t'"
    using nl same by (metis ctx_exact_cong)
  ultimately have "turned cs (Bin A l (Bin B n C)) l t t'"
    using t' same by (simp add: turned_def)
  with t'(1) that show ?thesis by blast
qed

lemma rotate_left_exact:
  assumes "place cs (Bin C n (Bin B l A)) n t" "exact_at (Bin C n (Bin B l A)) t"
  obtains t' where "avl_rotate_left n t = Some t'" "turned cs (Bin (Bin C n B) l A) l t t'"
proof -
  from rotate_left_place [OF assms(1)] obtain t' where
    t': "avl_rotate_left n t = Some t'" "place cs (Bin (Bin C n B) l A) l t'" "reshaped t t'"
      "balance t' = lrotated_balance (balance t) n l" by blast
  have d: "distinct (before cs @ nodes C @ n # nodes B @ l # nodes A @ behind cs)"
    using assms(1) by (simp add: place_def nodes_plug)
  then have nl: "n \<noteq> l" "n \<notin> around cs" "l \<notin> around cs"
    "\<And>T. T \<in> {A, B, C} \<Longrightarrow> n \<notin> set (nodes T) \<and> l \<notin> set (nodes T)"
    by (auto simp: around_def)
  have same: "balance t' a = balance t a" if "a \<noteq> n" "a \<noteq> l" for a
    using that t'(4) by (simp add: lrotated_balance_def Let_def)
  have bal: "balance t' n = int (high B) - int (high C)"
    "balance t' l = int (high A) - int (Suc (max (high C) (high B)))"
    using assms(2) nl(1) by (auto simp: t'(4) lrotated_balance_def Let_def)
  have "exact_at T t' = exact_at T t" if "T \<in> {A, B, C}" for T
    by (rule exact_at_cong, rule same) (use nl(4) [OF that] in auto)
  then have "exact_at A t'" "exact_at B t'" "exact_at C t'"
    using assms(2) by simp_all
  with bal have "exact_at (Bin (Bin C n B) l A) t'" by simp
  moreover have "\<forall>h. ctx_exact cs h t \<longrightarrow> ctx_exact cs h t'"
    using nl same by (metis ctx_exact_cong)
  ultimately have "turned cs (Bin (Bin C n B) l A) l t t'"
    using t' same by (simp add: turned_def)
  with t'(1) that show ?thesis by blast
qed

end
