(* ===== verification/Avl_Insert.thy ===== *)
theory Avl_Insert
  imports Avl_Rotate
begin

text \<open>
  Insertion into the trees of \<open>avl.c\<close>: the way back up after a subtree has grown ends in a tree
  with the same nodes that is balanced, and so \<open>avl_insert\<close> is the insertion into a sorted sequence.
\<close>

section \<open>Changing a balance\<close>

lemma tree_at_balance [simp]: "tree_at T p x (t\<lparr>balance := b\<rparr>) = tree_at T p x t"
  by (induction T arbitrary: p x) auto

lemma ctx_at_balance [simp]: "ctx_at cs x (t\<lparr>balance := b\<rparr>) = ctx_at cs x t"
proof (induction cs arbitrary: x)
  case (Cons c cs)
  then show ?case by (cases c) auto
qed simp

lemma place_balance [simp]: "place cs T x (t\<lparr>balance := b\<rparr>) = place cs T x t"
  by (simp add: place_def)

lemma exact_at_upd: "a \<notin> set (nodes T) \<Longrightarrow> exact_at T (t\<lparr>balance := (balance t)(a := v)\<rparr>) = exact_at T t"
  by (rule exact_at_cong) auto

lemma ctx_exact_upd: "a \<notin> around cs \<Longrightarrow> ctx_exact cs h (t\<lparr>balance := (balance t)(a := v)\<rparr>) = ctx_exact cs h t"
  by (rule ctx_exact_cong) auto

section \<open>Rebuilt trees\<close>

text \<open>The whole tree is good again and has the nodes \<open>ns\<close> in this order.\<close>

definition rebuilt :: "nat list \<Rightarrow> ('k, 'z) avl_tree_scheme \<Rightarrow> ('k, 'z) avl_tree_scheme \<Rightarrow> bool" where
  "rebuilt ns t t' \<longleftrightarrow>
     (\<exists>T. tree_at T 0 (root t') t' \<and> exact_at T t' \<and> avl_shape T \<and> nodes T = ns) \<and> reshaped t t'"

lemma rebuiltI:
  assumes "place cs T x t'" "exact_at T t'" "ctx_exact cs (high T) t'" "avl_shape T" "ctx_avl cs (high T)"
    "nodes (plug cs T) = ns" "reshaped t t'"
  shows "rebuilt ns t t'"
  using assms place_plug [OF assms(1)] unfolding rebuilt_def
  by (blast intro: exact_at_plug [THEN iffD2] avl_shape_plug [THEN iffD2])

lemma rebuilt_turned:
  assumes "turned cs T x t1 t'" "ctx_exact cs (high T) t1" "avl_shape T" "ctx_avl cs (high T)"
    "nodes (plug cs T) = ns" "reshaped t t1"
  shows "rebuilt ns t t'"
  by (rule rebuiltI [of cs T x]) (use assms in \<open>auto simp: turned_def intro: reshaped_trans\<close>)

lemma rebuilt_trans: "reshaped t t1 \<Longrightarrow> rebuilt ns t1 t' \<Longrightarrow> rebuilt ns t t'"
  by (auto simp: rebuilt_def intro: reshaped_trans)

text \<open>A rotation in a subtree, seen from its parent.\<close>

lemma turned_parent:
  assumes "turned (c # cs) S y t t'"
  shows "above (c # cs) \<notin> set (nodes S)" "balance t' (above (c # cs)) = balance t (above (c # cs))"
    "ctx_exact cs k t' = ctx_exact cs k t" "reshaped t t'"
proof -
  have d: "distinct (before (c # cs) @ nodes S @ behind (c # cs))" and
    keep: "\<And>a. a \<notin> set (nodes S) \<Longrightarrow> balance t' a = balance t a"
    using assms by (auto simp: turned_def place_def nodes_plug)
  have "above (c # cs) \<in> around (c # cs)" by (rule above_around) simp
  with d show n: "above (c # cs) \<notin> set (nodes S)" by (auto simp: around_def)
  then show "balance t' (above (c # cs)) = balance t (above (c # cs))" by (rule keep)
  have "around cs \<inter> set (nodes S) = {}" using d by (cases c) (auto simp: around_def)
  then show "ctx_exact cs k t' = ctx_exact cs k t"
    by (intro ctx_exact_cong keep) blast
  show "reshaped t t'" using assms by (simp add: turned_def)
qed

lemma turned_left:
  assumes "turned (LeftOf a R # cs) S y t t'" "exact_at (Bin T a R) t" "high S = high T"
  shows "place cs (Bin S a R) a t'" "exact_at (Bin S a R) t'"
proof -
  note p = turned_parent [OF assms(1)]
  have pl: "place (LeftOf a R # cs) S y t'" and e: "exact_at S t'" and
    keep: "\<And>b. b \<notin> set (nodes S) \<Longrightarrow> balance t' b = balance t b"
    using assms(1) by (auto simp: turned_def)
  show "place cs (Bin S a R) a t'" using pl by (simp add: place_up_left)
  have "set (nodes R) \<inter> set (nodes S) = {}" using pl by (auto simp: place_def nodes_plug)
  then have "exact_at R t' = exact_at R t" by (intro exact_at_cong keep) blast
  with e p(2) assms(2,3) show "exact_at (Bin S a R) t'" by simp
qed

lemma turned_right:
  assumes "turned (RightOf L a # cs) S y t t'" "exact_at (Bin L a T) t" "high S = high T"
  shows "place cs (Bin L a S) a t'" "exact_at (Bin L a S) t'"
proof -
  note p = turned_parent [OF assms(1)]
  have pl: "place (RightOf L a # cs) S y t'" and e: "exact_at S t'" and
    keep: "\<And>b. b \<notin> set (nodes S) \<Longrightarrow> balance t' b = balance t b"
    using assms(1) by (auto simp: turned_def)
  show "place cs (Bin L a S) a t'" using pl by (simp add: place_up_right)
  have "set (nodes L) \<inter> set (nodes S) = {}" using pl by (auto simp: place_def nodes_plug)
  then have "exact_at L t' = exact_at L t" by (intro exact_at_cong keep) blast
  with e p(2) assms(2,3) show "exact_at (Bin L a S) t'" by simp
qed

section \<open>The way up\<close>

text \<open>A subtree has grown by one, and is not balanced evenly.\<close>

definition grown_place :: "path \<Rightarrow> shape \<Rightarrow> nat \<Rightarrow> ('k, 'z) avl_tree_scheme \<Rightarrow> bool" where
  "grown_place cs T x t \<longleftrightarrow>
     place cs T x t \<and> exact_at T t \<and> avl_shape T \<and> balance t x \<noteq> 0 \<and> T \<noteq> Tip
     \<and> ctx_exact cs (high T - 1) t \<and> ctx_avl cs (high T - 1)"

lemma post_insert_left_step:
  assumes "x \<noteq> 0" "parent t x = a" "a \<noteq> 0" "left t a = x" "t1 = t\<lparr>balance := (balance t)(a := balance t a - 1)\<rparr>"
  shows "post_insert x t =
     (if balance t1 a = 0 then Some t1
      else if balance t1 a = -1 then post_insert a t1
      else if balance t1 x = -1 then avl_rotate_right a t1
      else do {
        t \<leftarrow> avl_rotate_left x t1;
        p1 \<leftarrow> get parent x t;
        p2 \<leftarrow> get parent p1 t;
        avl_rotate_right p2 t
      })"
  using assms by (subst post_insert.simps) (simp add: get_def set_balance_def)

lemma post_insert_right_step:
  assumes "x \<noteq> 0" "parent t x = a" "a \<noteq> 0" "left t a \<noteq> x" "t1 = t\<lparr>balance := (balance t)(a := balance t a + 1)\<rparr>"
  shows "post_insert x t =
     (if balance t1 a = 0 then Some t1
      else if balance t1 a = 1 then post_insert a t1
      else if balance t1 x = 1 then avl_rotate_left a t1
      else do {
        t \<leftarrow> avl_rotate_right x t1;
        p1 \<leftarrow> get parent x t;
        p2 \<leftarrow> get parent p1 t;
        avl_rotate_left p2 t
      })"
  using assms by (subst post_insert.simps) (simp add: get_def set_balance_def)

lemma post_insert_ok:
  "grown_place cs T x t \<Longrightarrow> \<exists>t'. post_insert x t = Some t' \<and> rebuilt (nodes (plug cs T)) t t'"
proof (induction cs arbitrary: T x t)
  case Nil
  then have "place [] T x t" "T \<noteq> Tip" by (simp_all add: grown_place_def)
  then have "x \<noteq> 0" "parent t x = 0" by (cases T; simp add: place_def)+
  then have "post_insert x t = Some t" by (subst post_insert.simps) (simp add: get_def)
  moreover have "rebuilt (nodes (plug [] T)) t t"
    by (rule rebuiltI [of "[]" T x]) (use Nil in \<open>auto simp: grown_place_def\<close>)
  ultimately show ?case by blast
next
  case (Cons c cs)
  obtain A B where T: "T = Bin A x B"
    using Cons.prems by (cases T) (auto simp: grown_place_def place_def)
  show ?case
  proof (cases c)
    case (LeftOf a R)
    let ?t1 = "t\<lparr>balance := (balance t)(a := balance t a - 1)\<rparr>"
    have pl: "place (LeftOf a R # cs) T x t" and g: "exact_at T t" "avl_shape T" "balance t x \<noteq> 0"
      "balance t a = int (high R) - int (high T - 1)" "exact_at R t"
      "ctx_exact cs (Suc (max (high T - 1) (high R))) t"
      "\<bar>int (high R) - int (high T - 1)\<bar> \<le> 1" "avl_shape R" "ctx_avl cs (Suc (max (high T - 1) (high R)))"
      using Cons.prems LeftOf by (auto simp: grown_place_def)
    have px: "x \<noteq> 0" "parent t x = a" using place_root(2,3) [OF pl [unfolded T]] by auto
    have up: "place cs (Bin T a R) a t" "left t a = x" using pl by (auto simp: place_up_left)
    note r = place_root [OF up(1)]
    have h: "high T \<ge> 1" using T by simp
    have pl1: "place cs (Bin T a R) a ?t1" using up by simp
    have ex1: "exact_at (Bin T a R) ?t1"
      using g r h by (auto simp: exact_at_upd of_nat_diff)
    have cx1: "ctx_exact cs k ?t1 = ctx_exact cs k t" for k using r by (simp add: ctx_exact_upd)
    have bx: "balance ?t1 x = balance t x" using r T by auto
    have b1: "balance ?t1 a = int (high R) - int (high T)" using ex1 by simp
    note step = post_insert_left_step [OF px r(2) up(2) refl]
    consider "high R = high T" | "high R + 1 = high T" | "high R + 2 = high T"
      using g(7) h by linarith
    then show ?thesis
    proof cases
      case 1
      then have "post_insert x t = Some ?t1" unfolding step b1 by simp
      moreover have "rebuilt (nodes (plug cs (Bin T a R))) t ?t1"
        by (rule rebuiltI [OF pl1 ex1]) (use 1 g h cx1 in \<open>auto simp: max_def\<close>)
      ultimately show ?thesis using LeftOf by auto
    next
      case 2
      then have s: "post_insert x t = post_insert a ?t1" unfolding step b1 by simp
      have "max (high T - 1) (high R) = high R" using 2 by simp
      then have "grown_place cs (Bin T a R) a ?t1"
        using pl1 ex1 g 2 h cx1 by (auto simp: grown_place_def max_def b1)
      from Cons.IH [OF this] obtain t' where
        t': "post_insert a ?t1 = Some t'" "rebuilt (nodes (plug cs (Bin T a R))) ?t1 t'" by blast
      have "reshaped t ?t1" by simp
      from rebuilt_trans [OF this t'(2)] show ?thesis using s t'(1) LeftOf by simp
    next
      case 3
      have hT: "\<bar>int (high B) - int (high A)\<bar> \<le> 1" "balance t x = int (high B) - int (high A)"
        "avl_shape A" "avl_shape B"
        using g(1,2) T by auto
      show ?thesis
      proof (cases "balance t x = -1")
        case True
        then have s: "post_insert x t = avl_rotate_right a ?t1" unfolding step b1 bx using 3 by simp
        obtain t' where t': "avl_rotate_right a ?t1 = Some t'" "turned cs (Bin A x (Bin B a R)) x ?t1 t'"
          using rotate_right_exact [OF pl1 [unfolded T] ex1 [unfolded T]] by blast
        have "high A = Suc (high B)" "high R = high B" using True hT 3 T by auto
        then have "rebuilt (nodes (plug cs (Bin T a R))) t t'"
          by (intro rebuilt_turned [OF t'(2)]) (use g hT T cx1 in \<open>auto simp: nodes_plug\<close>)
        with s t' LeftOf show ?thesis by auto
      next
        case False
        with hT g(3) have hB: "high B = Suc (high A)" by linarith
        then obtain B1 m B2 where B: "B = Bin B1 m B2" by (cases B) auto
        from hT(4) hB have hb: "high B1 \<le> high A" "high B2 \<le> high A" "high A \<le> high B1 + 1" "high A \<le> high B2 + 1"
          "high A = max (high B1) (high B2)" "avl_shape B1" "avl_shape B2"
          unfolding B by auto
        have hR: "high R = high A" using 3 hB T by simp
        have plx: "place (LeftOf a R # cs) (Bin A x (Bin B1 m B2)) x ?t1" using pl T B by simp
        have exx: "exact_at (Bin A x (Bin B1 m B2)) ?t1" using ex1 unfolding exact_at.simps(2) [of _ a] T B by blast
        obtain t2 where t2: "avl_rotate_left x ?t1 = Some t2"
          "turned (LeftOf a R # cs) (Bin (Bin A x B1) m B2) m ?t1 t2"
          using rotate_left_exact [OF plx exx] by blast
        have hS: "high (Bin (Bin A x B1) m B2) = high T" using hb hB T by (auto simp: max_def)
        note in_left = turned_left [OF t2(2) ex1 hS]
        have pS: "place (LeftOf a R # cs) (Bin (Bin A x B1) m B2) m t2" using t2(2) by (simp add: turned_def)
        have par: "parent t2 x = m" "parent t2 m = a" "m \<noteq> 0"
          using place_root(2,3) [OF pS] pS by (auto simp: place_def)
        obtain t' where t': "avl_rotate_right a t2 = Some t'"
          "turned cs (Bin (Bin A x B1) m (Bin B2 a R)) m t2 t'"
          using rotate_right_exact [OF in_left] by blast
        have s: "post_insert x t = Some t'"
          unfolding step b1 bx using 3 False t2(1) t'(1) par px by (simp add: get_def)
        have "rebuilt (nodes (plug cs (Bin T a R))) t t'"
        proof (rule rebuilt_turned [OF t'(2)])
          show "ctx_exact cs (high (Bin (Bin A x B1) m (Bin B2 a R))) t2"
            using turned_parent(3) [OF t2(2)] g(6) cx1 hb hB hR T by (simp add: max_def)
          show "avl_shape (Bin (Bin A x B1) m (Bin B2 a R))" using hb hR hT g(8) by auto
          show "ctx_avl cs (high (Bin (Bin A x B1) m (Bin B2 a R)))"
            using g(9) hb hB hR T by (simp add: max_def)
          show "reshaped t t2" using turned_parent(4) [OF t2(2)] reshaped_trans [of t ?t1 t2] by simp
        qed (simp add: T B nodes_plug)
        with s LeftOf show ?thesis by auto
      qed
    qed
  next
    case (RightOf L a)
    let ?t1 = "t\<lparr>balance := (balance t)(a := balance t a + 1)\<rparr>"
    have pl: "place (RightOf L a # cs) T x t" and g: "exact_at T t" "avl_shape T" "balance t x \<noteq> 0"
      "balance t a = int (high T - 1) - int (high L)" "exact_at L t"
      "ctx_exact cs (Suc (max (high L) (high T - 1))) t"
      "\<bar>int (high T - 1) - int (high L)\<bar> \<le> 1" "avl_shape L" "ctx_avl cs (Suc (max (high L) (high T - 1)))"
      using Cons.prems RightOf by (auto simp: grown_place_def)
    have px: "x \<noteq> 0" "parent t x = a" using place_root(2,3) [OF pl [unfolded T]] by auto
    have up: "place cs (Bin L a T) a t" "right t a = x" using pl by (auto simp: place_up_right)
    note r = place_root [OF up(1)]
    have h: "high T \<ge> 1" using T by simp
    have pl1: "place cs (Bin L a T) a ?t1" using up by simp
    have ex1: "exact_at (Bin L a T) ?t1"
      using g r h by (auto simp: exact_at_upd of_nat_diff)
    have cx1: "ctx_exact cs k ?t1 = ctx_exact cs k t" for k using r by (simp add: ctx_exact_upd)
    have bx: "balance ?t1 x = balance t x" using r T by auto
    have b1: "balance ?t1 a = int (high T) - int (high L)" using ex1 by simp
    have "left t a \<noteq> x"
    proof
      assume "left t a = x"
      moreover have "tree_at L a (left t a) t" using up(1) by (auto simp: place_def)
      ultimately have "x = 0 \<or> x \<in> set (nodes L)" by (auto dest: tree_root)
      with px(1) pl T show False by (auto simp: place_def nodes_plug)
    qed
    note step = post_insert_right_step [OF px r(2) this refl]
    consider "high L = high T" | "high L + 1 = high T" | "high L + 2 = high T"
      using g(7) h by linarith
    then show ?thesis
    proof cases
      case 1
      then have "post_insert x t = Some ?t1" unfolding step b1 by simp
      moreover have "max (high L) (high T - 1) = high T" "max (high L) (high T) = high T"
        using 1 by simp_all
      then have "rebuilt (nodes (plug cs (Bin L a T))) t ?t1"
        by (intro rebuiltI [OF pl1 ex1]) (use 1 g cx1 in simp_all)
      ultimately show ?thesis using RightOf by auto
    next
      case 2
      then have s: "post_insert x t = post_insert a ?t1" unfolding step b1 by simp
      have "max (high L) (high T - 1) = high L" using 2 by simp
      then have "grown_place cs (Bin L a T) a ?t1"
        using pl1 ex1 g 2 h cx1 by (auto simp: grown_place_def max_def b1)
      from Cons.IH [OF this] obtain t' where
        t': "post_insert a ?t1 = Some t'" "rebuilt (nodes (plug cs (Bin L a T))) ?t1 t'" by blast
      have "reshaped t ?t1" by simp
      from rebuilt_trans [OF this t'(2)] show ?thesis using s t'(1) RightOf by simp
    next
      case 3
      have hT: "\<bar>int (high B) - int (high A)\<bar> \<le> 1" "balance t x = int (high B) - int (high A)"
        "avl_shape A" "avl_shape B"
        using g(1,2) T by auto
      show ?thesis
      proof (cases "balance t x = 1")
        case True
        then have s: "post_insert x t = avl_rotate_left a ?t1" unfolding step b1 bx using 3 by simp
        obtain t' where t': "avl_rotate_left a ?t1 = Some t'" "turned cs (Bin (Bin L a A) x B) x ?t1 t'"
          using rotate_left_exact [OF pl1 [unfolded T] ex1 [unfolded T]] by blast
        have "high B = Suc (high A)" "high L = high A" using True hT 3 T by auto
        then have "rebuilt (nodes (plug cs (Bin L a T))) t t'"
          by (intro rebuilt_turned [OF t'(2)]) (use g hT T cx1 in \<open>auto simp: nodes_plug\<close>)
        with s t' RightOf show ?thesis by auto
      next
        case False
        with hT g(3) have hB: "high A = Suc (high B)" by linarith
        then obtain B1 m B2 where B: "A = Bin B1 m B2" by (cases A) auto
        from hT(3) hB have hb: "high B1 \<le> high B" "high B2 \<le> high B" "high B \<le> high B1 + 1" "high B \<le> high B2 + 1"
          "high B = max (high B1) (high B2)" "avl_shape B1" "avl_shape B2"
          unfolding B by auto
        have hR: "high L = high B" using 3 hB T by simp
        have plx: "place (RightOf L a # cs) (Bin (Bin B1 m B2) x B) x ?t1" using pl T B by simp
        have exx: "exact_at (Bin (Bin B1 m B2) x B) ?t1" using ex1 unfolding exact_at.simps(2) [of _ a] T B by blast
        obtain t2 where t2: "avl_rotate_right x ?t1 = Some t2"
          "turned (RightOf L a # cs) (Bin B1 m (Bin B2 x B)) m ?t1 t2"
          using rotate_right_exact [OF plx exx] by blast
        have hS: "high (Bin B1 m (Bin B2 x B)) = high T" using hb hB T by (auto simp: max_def)
        note in_right = turned_right [OF t2(2) ex1 hS]
        have pS: "place (RightOf L a # cs) (Bin B1 m (Bin B2 x B)) m t2" using t2(2) by (simp add: turned_def)
        have par: "parent t2 x = m" "parent t2 m = a" "m \<noteq> 0"
          using place_root(2,3) [OF pS] pS by (auto simp: place_def)
        obtain t' where t': "avl_rotate_left a t2 = Some t'"
          "turned cs (Bin (Bin L a B1) m (Bin B2 x B)) m t2 t'"
          using rotate_left_exact [OF in_right] by blast
        have s: "post_insert x t = Some t'"
          unfolding step b1 bx using 3 False t2(1) t'(1) par px by (simp add: get_def)
        have "rebuilt (nodes (plug cs (Bin L a T))) t t'"
        proof (rule rebuilt_turned [OF t'(2)])
          show "ctx_exact cs (high (Bin (Bin L a B1) m (Bin B2 x B))) t2"
            using turned_parent(3) [OF t2(2)] g(6) cx1 hb hB hR T by (simp add: max_def)
          show "avl_shape (Bin (Bin L a B1) m (Bin B2 x B))" using hb hR hT g(8) by auto
          show "ctx_avl cs (high (Bin (Bin L a B1) m (Bin B2 x B)))"
            using g(9) hb hB hR T by (simp add: max_def)
          show "reshaped t t2" using turned_parent(4) [OF t2(2)] reshaped_trans [of t ?t1 t2] by simp
        qed (simp add: T B nodes_plug)
        with s RightOf show ?thesis by auto
      qed
    qed
  qed
qed

section \<open>Where a new key belongs\<close>

lemma tree_at_null: "tree_at T p 0 t \<Longrightarrow> T = Tip"
  by (cases T) auto

context comparator
begin

lemma cmp_gt: "cmp a b > 0 \<longleftrightarrow> cmp b a < 0"
  using cmp_antisym by blast

text \<open>The search for a key that is not there ends next to the gap in the order where it belongs.\<close>

lemma find_rec_gap:
  "tree_at T p x t \<Longrightarrow> T \<noteq> Tip \<Longrightarrow> comp t = cmp \<Longrightarrow> sorted_wrt (less_by cmp) (keys_of T t) \<Longrightarrow>
   avl_find_rec x k t = Some (a, diff) \<Longrightarrow>
   \<exists>ns ms. nodes T = ns @ a # ms \<and> (diff < 0 \<longrightarrow> (\<forall>b \<in> set ns. cmp (key t b) k < 0)) \<and>
     (diff > 0 \<longrightarrow> (\<forall>b \<in> set ms. cmp k (key t b) < 0))"
proof (induction T arbitrary: p x)
  case (Bin l c r)
  then have h: "x = c" "c \<noteq> 0" "tree_at l c (left t c) t" "tree_at r c (right t c) t" by auto
  note s = Bin.prems(4) [unfolded sorted_keys_Bin]
  note run = Bin.prems(5) [unfolded h(1), unfolded avl_find_rec.simps [of c]]
  show ?case
  proof (cases "cmp k (key t c) < 0 \<and> left t c \<noteq> 0")
    case True
    then have lt: "cmp k (key t c) < 0" and "l \<noteq> Tip" using h(3) by auto
    with run h Bin.prems(3) True have "avl_find_rec (left t c) k t = Some (a, diff)"
      by (simp add: get_def Let_def)
    from Bin.IH(1) [OF h(3) \<open>l \<noteq> Tip\<close> Bin.prems(3) _ this] s obtain ns ms where
      n: "nodes l = ns @ a # ms" "diff < 0 \<longrightarrow> (\<forall>b \<in> set ns. cmp (key t b) k < 0)"
        "diff > 0 \<longrightarrow> (\<forall>b \<in> set ms. cmp k (key t b) < 0)" by blast
    have "cmp k (key t b) < 0" if "b \<in> set (c # nodes r)" for b
      using that lt s cmp_trans [OF lt] by auto
    with n show ?thesis by (intro exI [of _ ns] exI [of _ "ms @ c # nodes r"]) auto
  next
    case no_left: False
    show ?thesis
    proof (cases "cmp k (key t c) > 0 \<and> right t c \<noteq> 0")
      case True
      then have gt: "cmp k (key t c) > 0" and "r \<noteq> Tip" using h(4) by auto
      with run h Bin.prems(3) True have "avl_find_rec (right t c) k t = Some (a, diff)"
        by (simp add: get_def Let_def)
      from Bin.IH(2) [OF h(4) \<open>r \<noteq> Tip\<close> Bin.prems(3) _ this] s obtain ns ms where
        n: "nodes r = ns @ a # ms" "diff < 0 \<longrightarrow> (\<forall>b \<in> set ns. cmp (key t b) k < 0)"
          "diff > 0 \<longrightarrow> (\<forall>b \<in> set ms. cmp k (key t b) < 0)" by blast
      have "cmp (key t b) k < 0" if "b \<in> set (nodes l @ [c])" for b
        using that gt s cmp_gt cmp_trans [of "key t b" "key t c" k] by auto
      with n show ?thesis by (intro exI [of _ "nodes l @ c # ns"] exI [of _ ms]) auto
    next
      case False
      with no_left run h Bin.prems(3) have a: "a = c" "diff = cmp k (key t c)"
        by (auto simp: get_def Let_def split: if_splits)
      have "left t c = 0 \<Longrightarrow> l = Tip" "right t c = 0 \<Longrightarrow> r = Tip"
        using tree_at_null [of l c t] tree_at_null [of r c t] h(3,4) by simp_all
      moreover have "diff < 0 \<Longrightarrow> left t c = 0" "diff > 0 \<Longrightarrow> right t c = 0"
        using no_left False a by auto
      ultimately have "diff < 0 \<Longrightarrow> l = Tip" "diff > 0 \<Longrightarrow> r = Tip" by simp_all
      with a show ?thesis by (intro exI [of _ "nodes l"] exI [of _ "nodes r"]) auto
    qed
  qed
qed simp

lemma sorted_insert_before:
  assumes "sorted_wrt (less_by cmp) (map f (ns @ a # ms))" "\<forall>b \<in> set ns. cmp (f b) (f n) < 0" "cmp (f n) (f a) < 0"
  shows "sorted_wrt (less_by cmp) (map f (ns @ n # a # ms))"
  using assms cmp_trans by (auto simp: sorted_wrt_append less_by_def)

lemma sorted_insert_after:
  assumes "sorted_wrt (less_by cmp) (map f (ns @ a # ms))" "\<forall>b \<in> set ms. cmp (f n) (f b) < 0" "cmp (f a) (f n) < 0"
  shows "sorted_wrt (less_by cmp) (map f (ns @ a # n # ms))"
  using assms cmp_trans by (auto simp: sorted_wrt_append less_by_def)

end

section \<open>Attaching a node\<close>

lemma is_list_same: "is_list h xs t \<Longrightarrow> l_next t' = l_next t \<Longrightarrow> l_prev t' = l_prev t \<Longrightarrow> is_list h xs t'"
  unfolding is_list_def using linked_cong by metis

text \<open>A leaf below a node that has no left or no right child.\<close>

lemma attach_left:
  assumes "place cs (Bin Tip a R) a t" "new \<notin> set (nodes (plug cs (Bin Tip a R)))" "new \<noteq> 0"
    and "left t new = 0" "right t new = 0"
  shows "place cs (Bin (Bin Tip new Tip) a R) a (t\<lparr>parent := (parent t)(new := a), left := (left t)(a := new)\<rparr>)"
proof -
  let ?t = "t\<lparr>parent := (parent t)(new := a), left := (left t)(a := new)\<rparr>"
  have n: "new \<notin> around cs" "new \<noteq> a" "new \<notin> set (nodes R)"
    using assms(2) by (auto simp: nodes_plug around_def)
  note r = place_root [OF assms(1)]
  have "ctx_at cs a ?t"
    by (rule ctx_at_agree [of cs t]) (use assms(1) n r in \<open>auto simp: agree_def place_def\<close>)
  moreover have "tree_at R a (right t a) ?t"
    by (rule tree_at_agree [of R t]) (use assms(1) n r in \<open>auto simp: agree_def place_def\<close>)
  moreover have "distinct (nodes (plug cs (Bin (Bin Tip new Tip) a R)))"
    using assms(1,2) by (auto simp: place_def nodes_plug)
  ultimately show ?thesis using assms n r by (auto simp: place_def)
qed

lemma attach_right:
  assumes "place cs (Bin L a Tip) a t" "new \<notin> set (nodes (plug cs (Bin L a Tip)))" "new \<noteq> 0"
    and "left t new = 0" "right t new = 0"
  shows "place cs (Bin L a (Bin Tip new Tip)) a (t\<lparr>parent := (parent t)(new := a), right := (right t)(a := new)\<rparr>)"
proof -
  let ?t = "t\<lparr>parent := (parent t)(new := a), right := (right t)(a := new)\<rparr>"
  have n: "new \<notin> around cs" "new \<noteq> a" "new \<notin> set (nodes L)"
    using assms(2) by (auto simp: nodes_plug around_def)
  note r = place_root [OF assms(1)]
  have "ctx_at cs a ?t"
    by (rule ctx_at_agree [of cs t]) (use assms(1) n r in \<open>auto simp: agree_def place_def\<close>)
  moreover have "tree_at L a (left t a) ?t"
    by (rule tree_at_agree [of L t]) (use assms(1) n r in \<open>auto simp: agree_def place_def\<close>)
  moreover have "distinct (nodes (plug cs (Bin L a (Bin Tip new Tip))))"
    using assms(1,2) by (auto simp: place_def nodes_plug)
  ultimately show ?thesis using assms n r by (auto simp: place_def)
qed

section \<open>Insertion\<close>

text \<open>What an insertion leaves of the rest of the heap.\<close>

definition tree_only :: "nat set \<Rightarrow> ('k, 'z) avl_tree_scheme \<Rightarrow> ('k, 'z) avl_tree_scheme \<Rightarrow> bool" where
  "tree_only A t t' \<longleftrightarrow>
     key t' = key t \<and> list_head t' = list_head t \<and> allow_dups t' = allow_dups t \<and> comp t' = comp t
     \<and> avl_tree.more t' = avl_tree.more t \<and> (\<forall>a. a \<notin> A \<longrightarrow> leader t' a = leader t a)"

lemma tree_only_trans: "tree_only A t t' \<Longrightarrow> tree_only A t' t'' \<Longrightarrow> tree_only A t t''"
  by (simp add: tree_only_def)

lemma tree_only_reshaped: "reshaped t t' \<Longrightarrow> tree_only A t t'"
  by (simp add: tree_only_def reshaped_def)

text \<open>The five fields of a new node.\<close>

definition fresh_node :: "nat \<Rightarrow> ('k, 'z) avl_tree_scheme \<Rightarrow> ('k, 'z) avl_tree_scheme" where
  "fresh_node new t =
     t\<lparr>parent := (parent t)(new := 0), left := (left t)(new := 0), right := (right t)(new := 0),
       balance := (balance t)(new := 0), leader := (leader t)(new := True)\<rparr>"

lemma fresh_node_ok:
  assumes "avl_ok T t" "new \<notin> set (nodes T)"
  shows "avl_ok T (fresh_node new t)" "tree_only {new} t (fresh_node new t)"
proof -
  let ?t = "fresh_node new t"
  have "tree_at T 0 (root t) ?t"
    by (rule tree_at_agree [of T t]) (use assms in \<open>auto simp: agree_def fresh_node_def avl_ok_def\<close>)
  moreover have "exact_at T ?t = exact_at T t"
    by (rule exact_at_cong) (use assms(2) in \<open>auto simp: fresh_node_def\<close>)
  moreover have "is_list (list_head t) (nodes T) ?t"
    by (rule is_list_same [of _ _ t]) (use assms(1) in \<open>simp_all add: fresh_node_def avl_ok_def\<close>)
  ultimately show "avl_ok T ?t"
    using assms by (auto simp: avl_ok_def balanced_at_iff keys_of_def) (auto simp: fresh_node_def)
  show "tree_only {new} t ?t"
    by (auto simp: tree_only_def fresh_node_def)
qed

text \<open>Without duplicates every node is the last of its series.\<close>

lemma last_of_series_self:
  assumes "avl_ok T t" "a \<in> set (nodes T)"
  shows "last_of_series a t = Some a"
proof -
  from assms(2) obtain ns ms where n: "nodes T = ns @ a # ms" by (meson split_list)
  from assms(1) have l: "is_list (list_head t) (ns @ a # ms) t" by (simp add: avl_ok_def n)
  then have "linked ((list_head t # ns) @ a # ms @ [list_head t]) t" "a \<noteq> 0" "list_head t \<noteq> a"
    "list_head t \<notin> set ms" "0 \<notin> set ms" by (auto simp: is_list_def)
  then have nx: "l_next t a = hd (ms @ [list_head t])"
    using linked_append [of "list_head t # ns" a "ms @ [list_head t]" t] by (cases ms) auto
  show ?thesis
  proof (cases ms)
    case Nil
    with nx \<open>a \<noteq> 0\<close> show ?thesis
      by (subst last_of_series.simps) (simp add: list_is_last_def list_access)
  next
    case (Cons b bs)
    then have b: "l_next t a = b" "b \<noteq> list_head t" "b \<noteq> 0" "leader t b"
      using nx \<open>list_head t \<notin> set ms\<close> \<open>0 \<notin> set ms\<close> assms(1) n by (auto simp: avl_ok_def)
    with \<open>a \<noteq> 0\<close> show ?thesis
      by (subst last_of_series.simps) (simp add: list_is_last_def list_access avl_next_def get_def)
  qed
qed

lemma place_same:
  fixes t t' :: "('k, 'z) avl_tree_scheme"
  assumes "place cs T x t" "left t' = left t" "right t' = right t" "parent t' = parent t" "root t' = root t"
  shows "place cs T x t'"
proof -
  have "agree A t t'" for A using assms by (simp add: agree_def)
  then show ?thesis using assms(1,5) ctx_at_agree [of cs t t' x] tree_at_agree [of T t t' "above cs" x]
    by (simp add: place_def)
qed

lemma rebuilt_avl_ok:
  assumes "rebuilt ns t t'" "is_list (list_head t) ns t" "sorted_wrt (less_by (comp t)) (map (key t) ns)"
    "count t = length ns" "\<forall>a \<in> set ns. leader t a" "\<not> allow_dups t"
  shows "\<exists>T. avl_ok T t' \<and> nodes T = ns"
proof -
  from assms(1) obtain T where T: "tree_at T 0 (root t') t'" "exact_at T t'" "avl_shape T" "nodes T = ns" and
    r: "reshaped t t'" by (auto simp: rebuilt_def)
  have "is_list (list_head t') ns t'"
    using is_list_same [OF assms(2), of t'] r by (simp add: reshaped_def)
  with T r assms show ?thesis
    by (intro exI [of _ T]) (simp add: avl_ok_def balanced_at_iff keys_of_def reshaped_def)
qed

text \<open>The tree part of an insertion: a leaf is attached and the way up is mended.\<close>

definition attach_balance :: "bool \<Rightarrow> nat \<Rightarrow> nat \<Rightarrow> int \<Rightarrow> ('k, 'z) avl_tree_scheme \<Rightarrow> ('k, 'z) avl_tree_scheme" where
  "attach_balance lft a new v t =
     (let t = t\<lparr>balance := (balance t)(a := v), parent := (parent t)(new := a)\<rparr>
      in if lft then t\<lparr>left := (left t)(a := new)\<rparr> else t\<lparr>right := (right t)(a := new)\<rparr>)"

lemma attach_left_ok:
  assumes p: "place cs (Bin Tip a R) a t" and new: "new \<notin> set (nodes (plug cs (Bin Tip a R)))" "new \<noteq> 0"
      "left t new = 0" "right t new = 0" "balance t new = 0"
    and e: "exact_at (Bin Tip a R) t" "avl_shape (Bin Tip a R)"
      "ctx_exact cs (Suc (high R)) t" "ctx_avl cs (Suc (high R))"
    and t2: "t2 = attach_balance True a new (int (high R) - 1) t"
  shows "\<exists>t'. (if high R = 1 then Some t2 else post_insert a t2) = Some t' \<and>
           rebuilt (nodes (plug cs (Bin (Bin Tip new Tip) a R))) t2 t'"
proof -
  let ?S = "Bin (Bin Tip new Tip) a R"
  have n: "new \<notin> around cs" "new \<noteq> a" "new \<notin> set (nodes R)"
    using new(1) by (auto simp: nodes_plug around_def)
  note r = place_root [OF p]
  have "place cs (Bin Tip a R) a (t\<lparr>balance := (balance t)(a := int (high R) - 1)\<rparr>)" using p by simp
  from attach_left [OF this new(1,2)] new have pl: "place cs ?S a t2"
    unfolding t2 attach_balance_def Let_def by (simp add: new)
  have b: "balance t2 = (balance t)(a := int (high R) - 1)"
    by (simp add: t2 attach_balance_def)
  have "exact_at R t2 = exact_at R t" by (rule exact_at_cong) (use r b in auto)
  then have eR: "exact_at R t2" using e(1) by simp
  have ex: "exact_at ?S t2" using eR n new b by simp
  have cx: "ctx_exact cs h t2 = ctx_exact cs h t" for h
    by (rule ctx_exact_cong) (use r b in auto)
  from e(2) have R: "high R \<le> 1" "avl_shape R" by auto
  show ?thesis
  proof (cases "high R = 1")
    case True
    have "rebuilt (nodes (plug cs ?S)) t2 t2"
      by (rule rebuiltI [OF pl ex]) (use True e(3,4) cx R in simp_all)
    with True show ?thesis by simp
  next
    case False
    with R have "high R = 0" by simp
    then have "grown_place cs ?S a t2"
      using pl ex e(3,4) cx R b by (auto simp: grown_place_def)
    from post_insert_ok [OF this] False show ?thesis by simp
  qed
qed

lemma attach_right_ok:
  assumes p: "place cs (Bin L a Tip) a t" and new: "new \<notin> set (nodes (plug cs (Bin L a Tip)))" "new \<noteq> 0"
      "left t new = 0" "right t new = 0" "balance t new = 0"
    and e: "exact_at (Bin L a Tip) t" "avl_shape (Bin L a Tip)"
      "ctx_exact cs (Suc (high L)) t" "ctx_avl cs (Suc (high L))"
    and t2: "t2 = attach_balance False a new (1 - int (high L)) t"
  shows "\<exists>t'. (if high L = 1 then Some t2 else post_insert a t2) = Some t' \<and>
           rebuilt (nodes (plug cs (Bin L a (Bin Tip new Tip)))) t2 t'"
proof -
  let ?S = "Bin L a (Bin Tip new Tip)"
  have n: "new \<notin> around cs" "new \<noteq> a" "new \<notin> set (nodes L)"
    using new(1) by (auto simp: nodes_plug around_def)
  note r = place_root [OF p]
  have "place cs (Bin L a Tip) a (t\<lparr>balance := (balance t)(a := 1 - int (high L))\<rparr>)" using p by simp
  from attach_right [OF this new(1,2)] new have pl: "place cs ?S a t2"
    unfolding t2 attach_balance_def Let_def by (simp add: new)
  have b: "balance t2 = (balance t)(a := 1 - int (high L))"
    by (simp add: t2 attach_balance_def)
  have "exact_at L t2 = exact_at L t" by (rule exact_at_cong) (use r b in auto)
  then have eL: "exact_at L t2" using e(1) by simp
  have ex: "exact_at ?S t2" using eL n new b by simp
  have cx: "ctx_exact cs h t2 = ctx_exact cs h t" for h
    by (rule ctx_exact_cong) (use r b in auto)
  from e(2) have L: "high L \<le> 1" "avl_shape L" by auto
  show ?thesis
  proof (cases "high L = 1")
    case True
    have "rebuilt (nodes (plug cs ?S)) t2 t2"
      by (rule rebuiltI [OF pl ex]) (use True e(3,4) cx L in simp_all)
    with True show ?thesis by simp
  next
    case False
    with L have "high L = 0" by simp
    then have "grown_place cs ?S a t2"
      using pl ex e(3,4) cx L b by (auto simp: grown_place_def)
    from post_insert_ok [OF this] False show ?thesis by simp
  qed
qed

text \<open>The steps of \<open>avl_insert\<close> behind the search.\<close>

lemma avl_insert_first:
  assumes "new \<noteq> 0" "root t = 0" "list_add new (list_head t) (fresh_node new t) = Some t1"
  shows "avl_insert new t = Some (0, t1\<lparr>root := new, count := 1\<rparr>)"
  using assms by (simp add: avl_insert_def avl_access fresh_node_def)

lemma avl_insert_search:
  assumes "new \<noteq> 0" "root t \<noteq> 0" "a \<noteq> 0" "t0 = fresh_node new t"
    and "avl_find_rec (root t) (key t new) t0 = Some (a, d)" "last_of_series a t0 = Some a"
    and "diff = comp t (key t new) (key t a)" "b = balance t0 a"
  shows "avl_insert new t =
    (if diff = 0 then
       (if \<not> allow_dups t then Some (-1, t0)
        else do {
          t \<leftarrow> set_leader new False t0;
          t \<leftarrow> avl_insert_after a new t;
          Some (0, t)
        })
     else if b = 1 then do {
       t \<leftarrow> avl_insert_before a new t0;
       Some (0, attach_balance True a new 0 t)
     }
     else if b = -1 then do {
       t \<leftarrow> avl_insert_after a new t0;
       Some (0, attach_balance False a new 0 t)
     }
     else if diff < 0 then do {
       t \<leftarrow> avl_insert_before a new t0;
       t \<leftarrow> post_insert a (attach_balance True a new (-1) t);
       Some (0, t)
     }
     else do {
       t \<leftarrow> avl_insert_after a new t0;
       t \<leftarrow> post_insert a (attach_balance False a new 1 t);
       Some (0, t)
     })"
proof -
  have sel: "key t0 = key t" "comp t0 = comp t" "allow_dups t0 = allow_dups t"
    using assms(4) by (simp_all add: fresh_node_def)
  have "avl_insert new t = do {
       (node, _) \<leftarrow> avl_find_rec (root t) (key t new) t0;
       lst \<leftarrow> last_of_series node t0;
       nk \<leftarrow> get key node t0;
       let diff = comp t0 (key t new) nk;
       b \<leftarrow> get balance node t0;
       if diff = 0 then
         (if \<not> allow_dups t0 then Some (-1, t0)
          else do {
            t \<leftarrow> set_leader new False t0;
            t \<leftarrow> avl_insert_after lst new t;
            Some (0, t)
          })
       else if b = 1 then do {
         t \<leftarrow> avl_insert_before node new t0;
         t \<leftarrow> set_balance node 0 t;
         t \<leftarrow> set_parent new node t;
         t \<leftarrow> set_left node new t;
         Some (0, t)
       }
       else if b = -1 then do {
         t \<leftarrow> avl_insert_after lst new t0;
         t \<leftarrow> set_balance node 0 t;
         t \<leftarrow> set_parent new node t;
         t \<leftarrow> set_right node new t;
         Some (0, t)
       }
       else if diff < 0 then do {
         t \<leftarrow> avl_insert_before node new t0;
         t \<leftarrow> set_balance node (-1) t;
         t \<leftarrow> set_parent new node t;
         t \<leftarrow> set_left node new t;
         t \<leftarrow> post_insert node t;
         Some (0, t)
       }
       else do {
         t \<leftarrow> avl_insert_after lst new t0;
         t \<leftarrow> set_balance node 1 t;
         t \<leftarrow> set_parent new node t;
         t \<leftarrow> set_right node new t;
         t \<leftarrow> post_insert node t;
         Some (0, t)
       }
     }"
  proof -
    obtain t1 t2 t3 t4 where s: "set_parent new 0 t = Some t1" "set_left new 0 t1 = Some t2"
      "set_right new 0 t2 = Some t3" "set_balance new 0 t3 = Some t4" "set_leader new True t4 = Some t0"
      using assms(1,4) by (simp add: avl_access fresh_node_def)
    have r: "root t0 = root t" "get key new t0 = Some (key t new)"
      using assms(1,4) by (simp_all add: fresh_node_def get_def)
    show ?thesis unfolding avl_insert_def by (simp add: s r assms(2))
  qed
  with assms(3,5-8) assms(1) sel show ?thesis
    by (simp add: avl_access attach_balance_def Let_def)
qed

end
