(* ===== verification/Avl_Insert_Laws.thy ===== *)
theory Avl_Insert_Laws
  imports Avl_Insert
begin

text \<open>
  \<open>avl_insert\<close> on a tree without duplicates: a new key is inserted in its place in the order and the
  tree is balanced again; a key that is there already changes nothing.
\<close>

section \<open>Linking the node into the list\<close>

lemma insert_before_ok:
  assumes "is_list (list_head t) (ns @ a # ms) t" "new \<noteq> 0" "new \<notin> set (list_head t # ns @ a # ms)"
  obtains n p where "avl_insert_before a new t = Some (t\<lparr>l_next := n, l_prev := p, count := count t + 1\<rparr>)"
    "is_list (list_head t) (ns @ new # a # ms) (t\<lparr>l_next := n, l_prev := p, count := count t + 1\<rparr>)"
proof -
  from list_add_before [OF assms] obtain n p where
    l: "list_add_tail new a t = Some (t\<lparr>l_next := n, l_prev := p\<rparr>)"
      "is_list (list_head t) (ns @ new # a # ms) (t\<lparr>l_next := n, l_prev := p\<rparr>)"
    by (auto simp: links_of_def)
  have "is_list (list_head t) (ns @ new # a # ms) (t\<lparr>l_next := n, l_prev := p, count := count t + 1\<rparr>)"
    by (rule is_list_same [OF l(2)]) simp_all
  with l(1) show ?thesis by (intro that [of p n]) (simp_all add: avl_insert_before_def)
qed

lemma insert_after_ok:
  assumes "is_list (list_head t) (ns @ a # ms) t" "new \<noteq> 0" "new \<notin> set (list_head t # ns @ a # ms)"
  obtains n p where "avl_insert_after a new t = Some (t\<lparr>l_next := n, l_prev := p, count := count t + 1\<rparr>)"
    "is_list (list_head t) (ns @ a # new # ms) (t\<lparr>l_next := n, l_prev := p, count := count t + 1\<rparr>)"
proof -
  from list_add_after [OF assms] obtain n p where
    l: "list_add new a t = Some (t\<lparr>l_next := n, l_prev := p\<rparr>)"
      "is_list (list_head t) (ns @ a # new # ms) (t\<lparr>l_next := n, l_prev := p\<rparr>)"
    by (auto simp: links_of_def)
  have "is_list (list_head t) (ns @ a # new # ms) (t\<lparr>l_next := n, l_prev := p, count := count t + 1\<rparr>)"
    by (rule is_list_same [OF l(2)]) simp_all
  with l(1) show ?thesis by (intro that [of p n]) (simp_all add: avl_insert_after_def)
qed

section \<open>The place of a node\<close>

lemma avl_place:
  assumes "avl_ok T t" "nodes T = ns @ a # ms"
  obtains cs L R where "T = plug cs (Bin L a R)" "place cs (Bin L a R) a t" "exact_at (Bin L a R) t"
    "avl_shape (Bin L a R)" "ctx_exact cs (high (Bin L a R)) t" "ctx_avl cs (high (Bin L a R))"
    "ns = before cs @ nodes L" "ms = nodes R @ behind cs"
proof -
  from assms(2) have "a \<in> set (nodes T)" by simp
  from node_place [OF this] obtain cs L R where T: "T = plug cs (Bin L a R)" by blast
  have d: "distinct (nodes T)" using assms(1) by (auto simp: avl_ok_def is_list_def)
  from assms(1) T obtain x where x: "ctx_at cs x t" "tree_at (Bin L a R) (above cs) x t"
    by (auto simp: avl_ok_def tree_at_plug simp del: tree_at.simps)
  then have "x = a" by simp
  with x d T have p: "place cs (Bin L a R) a t" by (simp add: place_def)
  have "ns @ a # ms = (before cs @ nodes L) @ a # (nodes R @ behind cs)" "a \<notin> set ns" "a \<notin> set ms"
    using assms(2) d T by (simp_all add: nodes_plug)
  then have "ns = before cs @ nodes L" "ms = nodes R @ behind cs"
    using append_Cons_eq_iff [of a ns ms "before cs @ nodes L" "nodes R @ behind cs"] by auto
  with T p assms(1) show ?thesis
    by (intro that [of cs L R]) (simp_all add: avl_ok_def balanced_at_iff exact_at_plug avl_shape_plug
      del: exact_at.simps avl_shape.simps high.simps)
qed

section \<open>Insertion\<close>

definition inserted :: "nat \<Rightarrow> shape \<Rightarrow> ('k, 'z) avl_tree_scheme \<Rightarrow> ('k, 'z) avl_tree_scheme \<Rightarrow> bool" where
  "inserted new T t t' \<longleftrightarrow>
     (\<exists>T'. avl_ok T' t' \<and> set (nodes T') = insert new (set (nodes T))) \<and> tree_only {new} t t'"

lemma insert_first:
  assumes "avl_ok Tip t" "new \<noteq> 0" "new \<noteq> list_head t"
  shows "\<exists>t'. avl_insert new t = Some (0, t') \<and> inserted new Tip t t'"
proof -
  let ?t0 = "fresh_node new t"
  have root: "root t = 0" and l: "is_list (list_head t) [] t"
    using assms(1) by (auto simp: avl_ok_def)
  have "is_list (list_head t) [] ?t0"
    by (rule is_list_same [OF l]) (simp_all add: fresh_node_def)
  from list_add_head [OF this assms(2)] assms(3) obtain n p where
    a: "list_add new (list_head t) ?t0 = Some (?t0\<lparr>l_next := n, l_prev := p\<rparr>)"
      "is_list (list_head t) [new] (?t0\<lparr>l_next := n, l_prev := p\<rparr>)"
    by (auto simp: links_of_def)
  let ?t' = "?t0\<lparr>l_next := n, l_prev := p, root := new, count := 1\<rparr>"
  have "is_list (list_head t) [new] ?t'" by (rule is_list_same [OF a(2)]) simp_all
  with assms have "avl_ok (Bin Tip new Tip) ?t'"
    by (simp add: avl_ok_def fresh_node_def keys_of_def)
  moreover have "tree_only {new} t ?t'"
    by (auto simp: tree_only_def fresh_node_def)
  ultimately have "inserted new Tip t ?t'"
    unfolding inserted_def by (intro conjI exI [of _ "Bin Tip new Tip"]) simp_all
  with avl_insert_first [OF assms(2) root a(1)] show ?thesis by simp
qed

text \<open>The state after the node is linked, before the tree is changed.\<close>

lemma attach_finish:
  assumes "rebuilt ns (attach_balance lft a new v t1) t'" "is_list (list_head t1) ns t1"
    "sorted_wrt (less_by (comp t1)) (map (key t1) ns)" "count t1 = length ns"
    "\<forall>a \<in> set ns. leader t1 a" "\<not> allow_dups t1" "tree_only {new} t t1" "set ns = insert new (set (nodes T))"
  shows "inserted new T t t'"
proof -
  let ?t2 = "attach_balance lft a new v t1"
  have s: "key ?t2 = key t1" "comp ?t2 = comp t1" "list_head ?t2 = list_head t1" "count ?t2 = count t1"
    "leader ?t2 = leader t1" "allow_dups ?t2 = allow_dups t1" "l_next ?t2 = l_next t1" "l_prev ?t2 = l_prev t1"
    "avl_tree.more ?t2 = avl_tree.more t1"
    by (simp_all add: attach_balance_def Let_def)
  have "is_list (list_head ?t2) ns ?t2" using is_list_same [OF assms(2), of ?t2] s by simp
  from rebuilt_avl_ok [OF assms(1) this] assms(3-6) s obtain T' where "avl_ok T' t'" "nodes T' = ns" by auto
  moreover have "tree_only {new} t1 ?t2" using s by (simp add: tree_only_def)
  then have "tree_only {new} t t'"
    using assms(1,7) unfolding rebuilt_def by (blast intro: tree_only_trans tree_only_reshaped)
  ultimately show ?thesis using assms(8) unfolding inserted_def by auto
qed

context comparator
begin

lemma insert_ok:
  assumes ok: "avl_ok T t" and c: "comp t = cmp" and new: "new \<noteq> 0" "new \<notin> set (nodes T)" "new \<noteq> list_head t"
    and k: "\<forall>b \<in> set (nodes T). key t b \<noteq> key t new"
  shows "\<exists>t'. avl_insert new t = Some (0, t') \<and> inserted new T t t'"
proof (cases "T = Tip")
  case True
  with insert_first [of t new] ok new show ?thesis by simp
next
  case False
  define t0 where "t0 = fresh_node new t"
  note f = fresh_node_ok [OF ok new(2), folded t0_def]
  have sel: "key t0 = key t" "comp t0 = cmp" "root t0 = root t" "list_head t0 = list_head t"
    "count t0 = count t" "allow_dups t0 = allow_dups t" "left t0 new = 0" "right t0 new = 0"
    "balance t0 new = 0" "leader t0 new"
    using c by (simp_all add: t0_def fresh_node_def)
  from f(1) have tr: "tree_at T 0 (root t) t0" and so: "sorted_wrt (less_by cmp) (keys_of T t0)"
    and l0: "is_list (list_head t) (nodes T) t0"
    by (auto simp: avl_ok_def sel)
  from find_rec_ok [OF tr False sel(2) so, of "key t new"] obtain a diff where
    fnd: "avl_find_rec (root t) (key t new) t0 = Some (a, diff)" and a: "a \<in> set (nodes T)"
    "diff = cmp (key t new) (key t a)" "diff < 0 \<longrightarrow> left t0 a = 0" "diff > 0 \<longrightarrow> right t0 a = 0"
    unfolding sel by blast
  from find_rec_gap [OF tr False sel(2) so fnd] obtain ns ms where
    gap: "nodes T = ns @ a # ms" "diff < 0 \<longrightarrow> (\<forall>b \<in> set ns. cmp (key t b) (key t new) < 0)"
      "diff > 0 \<longrightarrow> (\<forall>b \<in> set ms. cmp (key t new) (key t b) < 0)" unfolding sel by blast
  have nz: "diff \<noteq> 0" using k a(1,2) by (metis cmp_eq)
  have root: "root t \<noteq> 0" using tr False by (cases T) auto
  have az: "a \<noteq> 0" using tree_no_null [OF tr] a(1) by metis
  from avl_place [OF f(1) gap(1)] obtain cs L R where
    T: "T = plug cs (Bin L a R)" and pl: "place cs (Bin L a R) a t0" and ex: "exact_at (Bin L a R) t0"
    and sh: "avl_shape (Bin L a R)" and cx: "ctx_exact cs (high (Bin L a R)) t0" "ctx_avl cs (high (Bin L a R))"
    and nm: "ns = before cs @ nodes L" "ms = nodes R @ behind cs" by blast
  have bal: "balance t0 a = int (high R) - int (high L)" using ex by simp
  note steps = avl_insert_search [OF new(1) root az t0_def fnd last_of_series_self [OF f(1) a(1)] refl refl, unfolded c, folded a(2)]
  have fresh: "new \<notin> set (list_head t0 # ns @ a # ms)" using new gap(1) sel by simp
  have l: "is_list (list_head t0) (ns @ a # ms) t0" using l0 gap(1) sel by simp
  have sorted: "sorted_wrt (less_by cmp) (map (key t) (ns @ a # ms))"
    using so gap(1) by (simp add: keys_of_def sel)
  have lead: "\<forall>b \<in> set (ns @ a # ms). leader t0 b" and cnt: "count t0 = length (ns @ a # ms)"
    and nodup: "\<not> allow_dups t0"
    using f(1) gap(1) by (auto simp: avl_ok_def)
  show ?thesis
  proof (cases "diff < 0")
    case True
    then have "L = Tip" using a(3) pl tree_at_null [of L a t0] by (simp add: place_def)
    note [simp] = this
    obtain n p where "avl_insert_before a new t0 = Some (t0\<lparr>l_next := n, l_prev := p, count := count t0 + 1\<rparr>)"
      "is_list (list_head t0) (ns @ new # a # ms) (t0\<lparr>l_next := n, l_prev := p, count := count t0 + 1\<rparr>)"
      using insert_before_ok [OF l new(1) fresh] by blast
    moreover define t1 where "t1 = t0\<lparr>l_next := n, l_prev := p, count := count t0 + 1\<rparr>"
    ultimately have t1: "avl_insert_before a new t0 = Some t1" "is_list (list_head t0) (ns @ new # a # ms) t1" by simp_all
    let ?t2 = "attach_balance True a new (int (high R) - 1) t1"
    have p1: "place cs (Bin Tip a R) a t1"
      by (rule place_same [of cs "Bin Tip a R" a t0]) (use pl in \<open>simp_all add: t1_def\<close>)
    have e1: "exact_at S t1 = exact_at S t0" "ctx_exact cs h t1 = ctx_exact cs h t0" for S h
      by (rule exact_at_cong, simp add: t1_def) (rule ctx_exact_cong, simp add: t1_def)
    have "\<exists>t'. (if high R = 1 then Some ?t2 else post_insert a ?t2) = Some t' \<and>
           rebuilt (nodes (plug cs (Bin (Bin Tip new Tip) a R))) ?t2 t'"
      by (rule attach_left_ok [OF p1]) (use new T ex sh cx sel e1 in \<open>simp_all add: t1_def\<close>)
    then obtain t' where t': "(if high R = 1 then Some ?t2 else post_insert a ?t2) = Some t'"
      "rebuilt (ns @ new # a # ms) ?t2 t'" by (auto simp: nodes_plug nm)
    have hR: "high R = 0 \<or> high R = 1" using sh by auto
    then have "avl_insert new t = Some (0, t')"
      unfolding steps bal using True t' t1(1) by auto
    moreover have "inserted new T t t'"
    proof (rule attach_finish [OF t'(2)])
      show "tree_only {new} t t1"
        by (rule tree_only_trans [OF f(2)]) (simp add: t1_def tree_only_def)
      show "sorted_wrt (less_by (comp t1)) (map (key t1) (ns @ new # a # ms))"
        using sorted_insert_before [OF sorted, of new] gap(2) True a(2) by (simp add: t1_def sel)
    qed (use t1(2) lead cnt nodup gap(1) sel in \<open>auto simp: t1_def\<close>)
    ultimately show ?thesis by blast
  next
    case False
    with nz have gt: "diff > 0" by simp
    then have "R = Tip" using a(4) pl tree_at_null [of R a t0] by (simp add: place_def)
    note [simp] = this
    obtain n p where "avl_insert_after a new t0 = Some (t0\<lparr>l_next := n, l_prev := p, count := count t0 + 1\<rparr>)"
      "is_list (list_head t0) (ns @ a # new # ms) (t0\<lparr>l_next := n, l_prev := p, count := count t0 + 1\<rparr>)"
      using insert_after_ok [OF l new(1) fresh] by blast
    moreover define t1 where "t1 = t0\<lparr>l_next := n, l_prev := p, count := count t0 + 1\<rparr>"
    ultimately have t1: "avl_insert_after a new t0 = Some t1" "is_list (list_head t0) (ns @ a # new # ms) t1" by simp_all
    let ?t2 = "attach_balance False a new (1 - int (high L)) t1"
    have p1: "place cs (Bin L a Tip) a t1"
      by (rule place_same [of cs "Bin L a Tip" a t0]) (use pl in \<open>simp_all add: t1_def\<close>)
    have e1: "exact_at S t1 = exact_at S t0" "ctx_exact cs h t1 = ctx_exact cs h t0" for S h
      by (rule exact_at_cong, simp add: t1_def) (rule ctx_exact_cong, simp add: t1_def)
    have "\<exists>t'. (if high L = 1 then Some ?t2 else post_insert a ?t2) = Some t' \<and>
           rebuilt (nodes (plug cs (Bin L a (Bin Tip new Tip)))) ?t2 t'"
      by (rule attach_right_ok [OF p1]) (use new T ex sh cx sel e1 in \<open>simp_all add: t1_def\<close>)
    then obtain t' where t': "(if high L = 1 then Some ?t2 else post_insert a ?t2) = Some t'"
      "rebuilt (ns @ a # new # ms) ?t2 t'" by (auto simp: nodes_plug nm)
    have hL: "high L = 0 \<or> high L = 1" using sh by auto
    then have "avl_insert new t = Some (0, t')"
      unfolding steps bal using gt t' t1(1) by auto
    moreover have "inserted new T t t'"
    proof (rule attach_finish [OF t'(2)])
      show "tree_only {new} t t1"
        by (rule tree_only_trans [OF f(2)]) (simp add: t1_def tree_only_def)
      show "sorted_wrt (less_by (comp t1)) (map (key t1) (ns @ a # new # ms))"
        using sorted_insert_after [OF sorted, of new] gap(3) gt a(2) cmp_gt by (simp add: t1_def sel)
    qed (use t1(2) lead cnt nodup gap(1) sel in \<open>auto simp: t1_def\<close>)
    ultimately show ?thesis by blast
  qed
qed

end

end
