(* ===== verification/Avl_Delete.thy ===== *)
theory Avl_Delete
  imports Avl_Insert_Laws
begin

text \<open>
  Deletion from the trees of \<open>avl.c\<close>: the way up after a subtree has become lower, a node with
  at most one child, and the node that takes the place of one with two.
\<close>

section \<open>The way up\<close>

text \<open>A subtree that is not empty has become lower by one.\<close>

definition shrunk_place :: "path \<Rightarrow> shape \<Rightarrow> nat \<Rightarrow> ('k, 'z) avl_tree_scheme \<Rightarrow> bool" where
  "shrunk_place cs T x t \<longleftrightarrow>
     place cs T x t \<and> exact_at T t \<and> avl_shape T \<and> T \<noteq> Tip
     \<and> ctx_exact cs (Suc (high T)) t \<and> ctx_avl cs (Suc (high T))"

text \<open>What the recursive call has to do.\<close>

definition mends :: "(nat \<Rightarrow> ('k, 'z) avl_tree_scheme \<Rightarrow> ('k, 'z) avl_tree_scheme option) \<Rightarrow> path \<Rightarrow>
    ('k, 'z) avl_tree_scheme \<Rightarrow> bool" where
  "mends up cs t \<longleftrightarrow>
     (\<forall>S y s. shrunk_place cs S y s \<longrightarrow> reshaped t s \<longrightarrow> (\<exists>t'. up y s = Some t' \<and> rebuilt (nodes (plug cs S)) s t'))"

lemma mendsI:
  assumes "\<And>S y s. shrunk_place cs S y s \<Longrightarrow> reshaped t s \<Longrightarrow> \<exists>t'. up y s = Some t' \<and> rebuilt (nodes (plug cs S)) s t'"
  shows "mends up cs t"
  using assms by (simp add: mends_def)

lemma mendsD:
  assumes "mends up cs t" "shrunk_place cs S y s" "reshaped t s" "nodes (plug cs S) = ns"
  shows "\<exists>t'. up y s = Some t' \<and> rebuilt ns t t'"
  using assms rebuilt_trans unfolding mends_def by blast

lemma shrunk_turned:
  assumes "turned cs S y t1 t2" "avl_shape S" "S \<noteq> Tip" "ctx_exact cs (Suc (high S)) t1" "ctx_avl cs (Suc (high S))"
  shows "shrunk_place cs S y t2"
  using assms by (simp add: turned_def shrunk_place_def)

text \<open>A node whose left subtree has become lower; its balance is still the old one.\<close>

definition low_left :: "path \<Rightarrow> shape \<Rightarrow> nat \<Rightarrow> shape \<Rightarrow> ('k, 'z) avl_tree_scheme \<Rightarrow> bool" where
  "low_left cs T a R t \<longleftrightarrow>
     place cs (Bin T a R) a t \<and> exact_at T t \<and> exact_at R t \<and> avl_shape T \<and> avl_shape R
     \<and> balance t a = int (high R) - (1 + int (high T)) \<and> \<bar>int (high R) - (1 + int (high T))\<bar> \<le> 1
     \<and> ctx_exact cs (Suc (max (Suc (high T)) (high R))) t \<and> ctx_avl cs (Suc (max (Suc (high T)) (high R)))"

definition low_right :: "path \<Rightarrow> shape \<Rightarrow> nat \<Rightarrow> shape \<Rightarrow> ('k, 'z) avl_tree_scheme \<Rightarrow> bool" where
  "low_right cs L a T t \<longleftrightarrow>
     place cs (Bin L a T) a t \<and> exact_at T t \<and> exact_at L t \<and> avl_shape T \<and> avl_shape L
     \<and> balance t a = (1 + int (high T)) - int (high L) \<and> \<bar>(1 + int (high T)) - int (high L)\<bar> \<le> 1
     \<and> ctx_exact cs (Suc (max (high L) (Suc (high T)))) t \<and> ctx_avl cs (Suc (max (high L) (Suc (high T))))"

lemma lower_left_ok:
  assumes low: "low_left cs T a R t" and up: "mends up cs t"
  shows "\<exists>t'. lower_left up a t = Some t' \<and> rebuilt (nodes (plug cs (Bin T a R))) t t'"
proof -
  let ?t1 = "t\<lparr>balance := (balance t)(a := balance t a + 1)\<rparr>"
  have p: "place cs (Bin T a R) a t" and e: "exact_at T t" "exact_at R t" "avl_shape T" "avl_shape R"
    and b: "balance t a = int (high R) - (1 + int (high T))" "\<bar>int (high R) - (1 + int (high T))\<bar> \<le> 1"
    and c: "ctx_exact cs (Suc (max (Suc (high T)) (high R))) t" "ctx_avl cs (Suc (max (Suc (high T)) (high R)))"
    using low by (auto simp: low_left_def)
  note r = place_root [OF p]
  have p1: "place cs (Bin T a R) a ?t1" using p by simp
  have ex1: "exact_at (Bin T a R) ?t1" using e b r by (simp add: exact_at_upd)
  have cx1: "ctx_exact cs k ?t1 = ctx_exact cs k t" for k using r by (simp add: ctx_exact_upd)
  have b1: "balance ?t1 a = int (high R) - int (high T)" using ex1 by simp
  have re: "reshaped t ?t1" by simp
  have step: "lower_left up a t =
      (if balance ?t1 a = 0 then up a ?t1
       else if balance ?t1 a = 1 then Some ?t1
       else do {
         r \<leftarrow> get right a ?t1;
         br \<leftarrow> get balance r ?t1;
         if br = 0 then avl_rotate_left a ?t1
         else if br = 1 then do {
           t \<leftarrow> avl_rotate_left a ?t1;
           pp \<leftarrow> get parent a t;
           up pp t
         }
         else do {
           t \<leftarrow> avl_rotate_right r ?t1;
           t \<leftarrow> avl_rotate_left a t;
           pp \<leftarrow> get parent a t;
           up pp t
         }
       })"
    using r(2) by (simp add: lower_left_def get_def set_balance_def)
  consider "high R = high T" | "high R = high T + 1" | "high R = high T + 2" using b(2) by linarith
  then show ?thesis
  proof cases
    case 1
    then have h: "high (Bin T a R) = Suc (high T)" "Suc (max (Suc (high T)) (high R)) = Suc (Suc (high T))" by simp_all
    have "avl_shape (Bin T a R)" using e 1 by simp
    then have "shrunk_place cs (Bin T a R) a ?t1"
      unfolding shrunk_place_def h(1) cx1 using p1 ex1 c [unfolded h(2)] by blast
    from mendsD [OF up this re refl] show ?thesis unfolding step b1 using 1 by simp
  next
    case 2
    have "rebuilt (nodes (plug cs (Bin T a R))) t ?t1"
      by (rule rebuiltI [OF p1 ex1]) (use 2 e c cx1 in simp_all)
    then show ?thesis unfolding step b1 using 2 by simp
  next
    case 3
    then obtain R1 x R2 where R: "R = Bin R1 x R2" by (cases R) auto
    have hR: "max (high R1) (high R2) = high T + 1" "avl_shape R1" "avl_shape R2"
      "\<bar>int (high R2) - int (high R1)\<bar> \<le> 1"
      using 3 e(4) R by auto
    have x: "right t a = x" "x \<noteq> 0" using p R by (auto simp: place_def)
    have "x \<noteq> a" using r(6) R by auto
    then have bx: "balance ?t1 x = int (high R2) - int (high R1)" using ex1 R by auto
    have s: "lower_left up a t =
        (if balance ?t1 x = 0 then avl_rotate_left a ?t1
         else if balance ?t1 x = 1 then do {
           t \<leftarrow> avl_rotate_left a ?t1;
           pp \<leftarrow> get parent a t;
           up pp t
         }
         else do {
           t \<leftarrow> avl_rotate_right x ?t1;
           t \<leftarrow> avl_rotate_left a t;
           pp \<leftarrow> get parent a t;
           up pp t
         })"
      unfolding step b1 using 3 x r(2) by (simp add: get_def)
    have old: "Suc (max (Suc (high T)) (high R)) = high T + 3" using 3 by simp
    have cx: "ctx_exact cs (high T + 3) ?t1" "ctx_avl cs (high T + 3)"
      using c unfolding old cx1 by blast+
    note sh = e(3) hR(2-4)
    show ?thesis
    proof (cases "high R1 \<le> high R2")
      case True
      obtain t2 where t2: "avl_rotate_left a ?t1 = Some t2" "turned cs (Bin (Bin T a R1) x R2) x ?t1 t2"
        using rotate_left_exact [OF p1 [unfolded R] ex1 [unfolded R]] by blast
      have rt: "reshaped t t2" using reshaped_trans [OF re, of t2] t2(2) by (simp add: turned_def)
      have pS: "place cs (Bin (Bin T a R1) x R2) x t2" using t2(2) by (simp add: turned_def)
      have par: "parent t2 a = x" using pS by (auto simp: place_def)
      show ?thesis
      proof (cases "high R1 = high R2")
        case eq: True
        then have h: "high (Bin (Bin T a R1) x R2) = high T + 3" "avl_shape (Bin (Bin T a R1) x R2)"
          using hR(1) sh by simp_all
        have "rebuilt (nodes (plug cs (Bin T a R))) t t2"
          by (rule rebuilt_turned [OF t2(2)])
            (use cx h re in \<open>simp_all only: h R nodes_plug nodes.simps append_assoc append_Cons append_Nil\<close>)
        with t2(1) eq show ?thesis unfolding s bx by simp
      next
        case False
        with True hR have h: "high R2 = high T + 1" "high R1 = high T" by auto
        then have hS: "Suc (high (Bin (Bin T a R1) x R2)) = high T + 3" "avl_shape (Bin (Bin T a R1) x R2)"
          using sh by simp_all
        have "shrunk_place cs (Bin (Bin T a R1) x R2) x t2"
          by (rule shrunk_turned [OF t2(2)]) (use cx hS in \<open>simp_all only: hS shape.distinct not_False_eq_True\<close>)
        from mendsD [OF up this rt, of "nodes (plug cs (Bin T a R))"] t2(1) h par r(2)
        show ?thesis unfolding s bx by (simp add: R nodes_plug get_def)
      qed
    next
      case False
      then have h: "high R1 = high T + 1" "high R2 = high T" using hR by auto
      then obtain P m Q where R1: "R1 = Bin P m Q" by (cases R1) auto
      have hp: "max (high P) (high Q) = high T" "avl_shape P" "avl_shape Q"
        "\<bar>int (high Q) - int (high P)\<bar> \<le> 1" using h hR R1 by auto
      have px: "place (RightOf T a # cs) (Bin (Bin P m Q) x R2) x ?t1"
        using p1 x(1) R R1 by (simp add: place_up_right)
      have exx: "exact_at (Bin (Bin P m Q) x R2) ?t1"
        using ex1 unfolding exact_at.simps(2) [of _ a] R R1 by blast
      obtain t2 where t2: "avl_rotate_right x ?t1 = Some t2"
        "turned (RightOf T a # cs) (Bin P m (Bin Q x R2)) m ?t1 t2"
        using rotate_right_exact [OF px exx] by blast
      have hS: "high (Bin P m (Bin Q x R2)) = high R" using h hp R R1 by auto
      note in_right = turned_right [OF t2(2) ex1 hS]
      obtain t3 where t3: "avl_rotate_left a t2 = Some t3"
        "turned cs (Bin (Bin T a P) m (Bin Q x R2)) m t2 t3"
        using rotate_left_exact [OF in_right] by blast
      have pS: "place cs (Bin (Bin T a P) m (Bin Q x R2)) m t3" using t3(2) by (simp add: turned_def)
      have par: "parent t3 a = m" using pS by (auto simp: place_def)
      have rt: "reshaped t t3"
        using reshaped_trans [OF re reshaped_trans [OF turned_parent(4) [OF t2(2)], of t3]] t3(2)
        by (simp add: turned_def)
      have hW: "Suc (high (Bin (Bin T a P) m (Bin Q x R2))) = high T + 3" "avl_shape (Bin (Bin T a P) m (Bin Q x R2))"
        using sh h hp by auto
      have "shrunk_place cs (Bin (Bin T a P) m (Bin Q x R2)) m t3"
        by (rule shrunk_turned [OF t3(2)])
          (use cx hW turned_parent(3) [OF t2(2)] in \<open>simp_all only: hW shape.distinct not_False_eq_True\<close>)
      from mendsD [OF up this rt, of "nodes (plug cs (Bin T a R))"] t2(1) t3(1) h par r(2)
      show ?thesis unfolding s bx by (simp add: R R1 nodes_plug get_def)
    qed
  qed
qed

lemma lower_right_ok:
  assumes low: "low_right cs L a T t" and up: "mends up cs t"
  shows "\<exists>t'. lower_right up a t = Some t' \<and> rebuilt (nodes (plug cs (Bin L a T))) t t'"
proof -
  let ?t1 = "t\<lparr>balance := (balance t)(a := balance t a - 1)\<rparr>"
  have p: "place cs (Bin L a T) a t" and e: "exact_at T t" "exact_at L t" "avl_shape T" "avl_shape L"
    and b: "balance t a = (1 + int (high T)) - int (high L)" "\<bar>(1 + int (high T)) - int (high L)\<bar> \<le> 1"
    and c: "ctx_exact cs (Suc (max (high L) (Suc (high T)))) t" "ctx_avl cs (Suc (max (high L) (Suc (high T))))"
    using low by (auto simp: low_right_def)
  note r = place_root [OF p]
  have p1: "place cs (Bin L a T) a ?t1" using p by simp
  have ex1: "exact_at (Bin L a T) ?t1" using e b r by (simp add: exact_at_upd)
  have cx1: "ctx_exact cs k ?t1 = ctx_exact cs k t" for k using r by (simp add: ctx_exact_upd)
  have b1: "balance ?t1 a = int (high T) - int (high L)" using ex1 by simp
  have re: "reshaped t ?t1" by simp
  have step: "lower_right up a t =
      (if balance ?t1 a = 0 then up a ?t1
       else if balance ?t1 a = -1 then Some ?t1
       else do {
         r \<leftarrow> get left a ?t1;
         br \<leftarrow> get balance r ?t1;
         if br = 0 then avl_rotate_right a ?t1
         else if br = -1 then do {
           t \<leftarrow> avl_rotate_right a ?t1;
           pp \<leftarrow> get parent a t;
           up pp t
         }
         else do {
           t \<leftarrow> avl_rotate_left r ?t1;
           t \<leftarrow> avl_rotate_right a t;
           pp \<leftarrow> get parent a t;
           up pp t
         }
       })"
    using r(2) by (simp add: lower_right_def get_def set_balance_def)
  consider "high L = high T" | "high L = high T + 1" | "high L = high T + 2" using b(2) by linarith
  then show ?thesis
  proof cases
    case 1
    then have h: "high (Bin L a T) = Suc (high T)" "Suc (max (high L) (Suc (high T))) = Suc (Suc (high T))" by simp_all
    have "avl_shape (Bin L a T)" using e 1 by simp
    then have "shrunk_place cs (Bin L a T) a ?t1"
      unfolding shrunk_place_def h(1) cx1 using p1 ex1 c [unfolded h(2)] by blast
    from mendsD [OF up this re refl] show ?thesis unfolding step b1 using 1 by simp
  next
    case 2
    have "rebuilt (nodes (plug cs (Bin L a T))) t ?t1"
      by (rule rebuiltI [OF p1 ex1]) (use 2 e c cx1 in simp_all)
    then show ?thesis unfolding step b1 using 2 by simp
  next
    case 3
    then obtain L2 x L1 where L: "L = Bin L1 x L2" by (cases L) auto
    have hL: "max (high L1) (high L2) = high T + 1" "avl_shape L2" "avl_shape L1"
      "\<bar>int (high L2) - int (high L1)\<bar> \<le> 1"
      using 3 e(4) L by auto
    have x: "left t a = x" "x \<noteq> 0" using p L by (auto simp: place_def)
    have "x \<noteq> a" using r(5) L by auto
    then have bx: "balance ?t1 x = int (high L2) - int (high L1)" using ex1 L by auto
    have s: "lower_right up a t =
        (if balance ?t1 x = 0 then avl_rotate_right a ?t1
         else if balance ?t1 x = -1 then do {
           t \<leftarrow> avl_rotate_right a ?t1;
           pp \<leftarrow> get parent a t;
           up pp t
         }
         else do {
           t \<leftarrow> avl_rotate_left x ?t1;
           t \<leftarrow> avl_rotate_right a t;
           pp \<leftarrow> get parent a t;
           up pp t
         })"
      unfolding step b1 using 3 x r(2) by (simp add: get_def)
    have old: "Suc (max (high L) (Suc (high T))) = high T + 3" using 3 by simp
    have cx: "ctx_exact cs (high T + 3) ?t1" "ctx_avl cs (high T + 3)"
      using c unfolding old cx1 by blast+
    note sh = e(3) hL(2-4)
    show ?thesis
    proof (cases "high L2 \<le> high L1")
      case True
      obtain t2 where t2: "avl_rotate_right a ?t1 = Some t2" "turned cs (Bin L1 x (Bin L2 a T)) x ?t1 t2"
        using rotate_right_exact [OF p1 [unfolded L] ex1 [unfolded L]] by blast
      have rt: "reshaped t t2" using reshaped_trans [OF re, of t2] t2(2) by (simp add: turned_def)
      have pS: "place cs (Bin L1 x (Bin L2 a T)) x t2" using t2(2) by (simp add: turned_def)
      have par: "parent t2 a = x" using pS by (auto simp: place_def)
      show ?thesis
      proof (cases "high L2 = high L1")
        case eq: True
        then have h: "high (Bin L1 x (Bin L2 a T)) = high T + 3" "avl_shape (Bin L1 x (Bin L2 a T))"
          using hL(1) sh by simp_all
        have "rebuilt (nodes (plug cs (Bin L a T))) t t2"
          by (rule rebuilt_turned [OF t2(2)])
            (use cx h re in \<open>simp_all only: h L nodes_plug nodes.simps append_assoc append_Cons append_Nil\<close>)
        with t2(1) eq show ?thesis unfolding s bx by simp
      next
        case False
        with True hL have h: "high L1 = high T + 1" "high L2 = high T" by auto
        then have hS: "Suc (high (Bin L1 x (Bin L2 a T))) = high T + 3" "avl_shape (Bin L1 x (Bin L2 a T))"
          using sh by simp_all
        have "shrunk_place cs (Bin L1 x (Bin L2 a T)) x t2"
          by (rule shrunk_turned [OF t2(2)]) (use cx hS in \<open>simp_all only: hS shape.distinct not_False_eq_True\<close>)
        from mendsD [OF up this rt, of "nodes (plug cs (Bin L a T))"] t2(1) h par r(2)
        show ?thesis unfolding s bx by (simp add: L nodes_plug get_def)
      qed
    next
      case False
      then have h: "high L2 = high T + 1" "high L1 = high T" using hL by auto
      then obtain P m Q where L2: "L2 = Bin Q m P" by (cases L2) auto
      have hp: "max (high P) (high Q) = high T" "avl_shape P" "avl_shape Q"
        "\<bar>int (high Q) - int (high P)\<bar> \<le> 1" using h hL L2 by auto
      have px: "place (LeftOf a T # cs) (Bin L1 x (Bin Q m P)) x ?t1"
        using p1 x(1) L L2 by (simp add: place_up_left)
      have exx: "exact_at (Bin L1 x (Bin Q m P)) ?t1"
        using ex1 unfolding exact_at.simps(2) [of _ a] L L2 by blast
      obtain t2 where t2: "avl_rotate_left x ?t1 = Some t2"
        "turned (LeftOf a T # cs) (Bin (Bin L1 x Q) m P) m ?t1 t2"
        using rotate_left_exact [OF px exx] by blast
      have hS: "high (Bin (Bin L1 x Q) m P) = high L" using h hp L L2 by auto
      note in_left = turned_left [OF t2(2) ex1 hS]
      obtain t3 where t3: "avl_rotate_right a t2 = Some t3"
        "turned cs (Bin (Bin L1 x Q) m (Bin P a T)) m t2 t3"
        using rotate_right_exact [OF in_left] by blast
      have pS: "place cs (Bin (Bin L1 x Q) m (Bin P a T)) m t3" using t3(2) by (simp add: turned_def)
      have par: "parent t3 a = m" using pS by (auto simp: place_def)
      have rt: "reshaped t t3"
        using reshaped_trans [OF re reshaped_trans [OF turned_parent(4) [OF t2(2)], of t3]] t3(2)
        by (simp add: turned_def)
      have hW: "Suc (high (Bin (Bin L1 x Q) m (Bin P a T))) = high T + 3" "avl_shape (Bin (Bin L1 x Q) m (Bin P a T))"
        using sh h hp by auto
      have "shrunk_place cs (Bin (Bin L1 x Q) m (Bin P a T)) m t3"
        by (rule shrunk_turned [OF t3(2)])
          (use cx hW turned_parent(3) [OF t2(2)] in \<open>simp_all only: hW shape.distinct not_False_eq_True\<close>)
      from mendsD [OF up this rt, of "nodes (plug cs (Bin L a T))"] t2(1) t3(1) h par r(2)
      show ?thesis unfolding s bx by (simp add: L L2 nodes_plug get_def)
    qed
  qed
qed

text \<open>Every call goes up by one node at least.\<close>

lemma place_not_left:
  assumes "place (RightOf L a # cs) T x t" "x \<noteq> 0"
  shows "left t a \<noteq> x"
proof
  assume "left t a = x"
  then have "tree_at L a x t" using assms(1) by (simp add: place_def)
  from tree_root [OF this] assms(2) have "x \<in> set (nodes L)" by simp
  moreover have "tree_at T a x t" using assms(1) by (simp add: place_def)
  from tree_root [OF this] assms(2) have "x \<in> set (nodes T)" by simp
  ultimately show False using assms(1) by (auto simp: place_def nodes_plug)
qed

lemma shrunk_low_left:
  assumes "shrunk_place (LeftOf a R # cs) T x t"
  shows "low_left cs T a R t" "left t a = x" "parent t x = a" "x \<noteq> 0"
proof -
  obtain A B where T: "T = Bin A x B" using assms by (cases T) (auto simp: shrunk_place_def place_def)
  have p: "place (LeftOf a R # cs) T x t" using assms by (simp add: shrunk_place_def)
  show "low_left cs T a R t"
    using assms by (simp add: low_left_def shrunk_place_def place_up_left)
  show "left t a = x" using p by (simp add: place_up_left)
  show "parent t x = a" "x \<noteq> 0" using place_root(2,3) [OF p [unfolded T]] by simp_all
qed

lemma shrunk_low_right:
  assumes "shrunk_place (RightOf L a # cs) T x t"
  shows "low_right cs L a T t" "left t a \<noteq> x" "parent t x = a" "x \<noteq> 0"
proof -
  obtain A B where T: "T = Bin A x B" using assms by (cases T) (auto simp: shrunk_place_def place_def)
  have p: "place (RightOf L a # cs) T x t" using assms by (simp add: shrunk_place_def)
  show "low_right cs L a T t"
    using assms by (simp add: low_right_def shrunk_place_def place_up_right)
  show x: "parent t x = a" "x \<noteq> 0" using place_root(2,3) [OF p [unfolded T]] by simp_all
  show "left t a \<noteq> x" by (rule place_not_left [OF p x(2)])
qed

lemma place_parent_null: "place (c # cs) T x t \<Longrightarrow> above (c # cs) \<noteq> 0"
  by (cases c) (auto simp: place_def)

lemma post_delete_fuel_ok:
  fixes t :: "('k, 'z) avl_tree_scheme"
  shows "length cs < fuel \<Longrightarrow> mends (post_delete_fuel fuel) cs t"
proof (induction fuel arbitrary: cs t)
  case (Suc fuel cs t)
  show ?case
  proof (rule mendsI)
    fix S y and s :: "('k, 'z) avl_tree_scheme"
    assume sh: "shrunk_place cs S y s" and re: "reshaped t s"
    show "\<exists>t'. post_delete_fuel (Suc fuel) y s = Some t' \<and> rebuilt (nodes (plug cs S)) s t'"
    proof (cases cs)
      case Nil
      then have p: "place [] S y s" "S \<noteq> Tip" "exact_at S s" "avl_shape S"
        using sh by (simp_all add: shrunk_place_def)
      then have "y \<noteq> 0" "parent s y = 0" by (cases S; simp add: place_def)+
      moreover have "rebuilt (nodes (plug cs S)) s s"
        unfolding Nil by (rule rebuiltI [OF p(1)]) (use p in simp_all)
      ultimately show ?thesis by (simp add: get_def)
    next
      case (Cons c ds)
      then have up: "mends (post_delete_fuel fuel) ds s" using Suc by simp
      have nz: "above (c # ds) \<noteq> 0" using sh Cons by (auto simp: shrunk_place_def dest: place_parent_null)
      show ?thesis
      proof (cases c)
        case (LeftOf a R)
        note l = shrunk_low_left [OF sh [unfolded Cons LeftOf]]
        from lower_left_ok [OF l(1) up] l(2-4) nz show ?thesis
          by (simp add: Cons LeftOf get_def)
      next
        case (RightOf L a)
        note l = shrunk_low_right [OF sh [unfolded Cons RightOf]]
        from lower_right_ok [OF l(1) up] l(2-4) nz show ?thesis
          by (simp add: Cons RightOf get_def)
      qed
    qed
  qed
qed simp

lemma length_around: "length cs \<le> length (before cs) + length (behind cs)"
  by (induction cs rule: behind.induct) auto

lemma post_delete_ok:
  fixes t :: "('k, 'z) avl_tree_scheme"
  assumes "length (before cs) + length (behind cs) \<le> count t"
  shows "mends avl_post_delete cs t"
proof (rule mendsI)
  fix S y and s :: "('k, 'z) avl_tree_scheme"
  assume sh: "shrunk_place cs S y s" and re: "reshaped t s"
  from re have "count s = count t" by (simp add: reshaped_def)
  with assms length_around [of cs] have "length cs < Suc (count s)" by simp
  from post_delete_fuel_ok [OF this, of s] sh
  show "\<exists>t'. avl_post_delete y s = Some t' \<and> rebuilt (nodes (plug cs S)) s t'"
    by (auto simp: mends_def avl_post_delete_def)
qed

end
