(* ===== verification/Avl_Delete_Laws.thy ===== *)
theory Avl_Delete_Laws
  imports Avl_Delete
begin

text \<open>
  Deletion of a node from a tree without duplicates: its subtrees are joined in its place, the tree
  is balanced again, and the node leaves the list.
\<close>

section \<open>A subtree in another place\<close>

lemma put_child_exact [simp]:
  "ctx_exact cs h (put_child ds x t) = ctx_exact cs h t"
  "exact_at T (put_child ds x t) = exact_at T t"
  by (rule ctx_exact_cong, simp) (rule exact_at_cong, simp)

text \<open>\<open>S\<close> at \<open>y\<close> takes the place of \<open>T\<close>; \<open>t1\<close> is the heap before its parent is told.\<close>

lemma put_child_place:
  assumes "ctx_at cs x t1" "tree_at S (above cs) y t1" "above cs \<notin> set (nodes S)" "distinct (nodes (plug cs S))"
  shows "place cs S y (put_child cs y t1)"
proof -
  have "distinct (before cs @ behind cs)" using assms(4) by (auto simp: nodes_plug)
  from put_child_ctx [OF assms(1) this] have "ctx_at cs y (put_child cs y t1)" .
  moreover have "agree (set (nodes S)) t1 (put_child cs y t1)"
    unfolding agree_def using assms(3) by (metis put_child_sel(1,3,4))
  from tree_at_agree [OF this assms(2)] have "tree_at S (above cs) y (put_child cs y t1)" .
  ultimately show ?thesis using assms(4) by (simp add: place_def)
qed

lemma above_not_within:
  assumes "place cs T x t" "set (nodes S) \<subseteq> set (nodes T)"
  shows "above cs \<notin> set (nodes S)"
proof
  assume a: "above cs \<in> set (nodes S)"
  show False
  proof (cases "cs = []")
    case True
    with a assms show False using tree_no_null [of T "above cs" x t] by (auto simp: place_def)
  next
    case False
    from above_around [OF this] a assms show False by (auto simp: place_def nodes_plug around_def)
  qed
qed

text \<open>The only child \<open>C\<close> of a node takes its place.\<close>

lemma graft_place:
  fixes t :: "('k, 'z) avl_tree_scheme"
  assumes p: "place cs T a t" and C: "tree_at C q c t" "C \<noteq> Tip" "set (nodes C) \<subseteq> set (nodes T)" "distinct (nodes C)"
    and t1: "t1 = t\<lparr>parent := (parent t)(c := above cs)\<rparr>"
  shows "ctx_at cs a t1" "place cs C c (put_child cs c t1)" "c \<noteq> 0"
proof -
  from C(1,2) have c: "c \<in> set (nodes C)" "c \<noteq> 0" by (cases C; auto)+
  then show "c \<noteq> 0" by simp
  have "distinct (before cs @ nodes T @ behind cs)" using p by (simp add: place_def nodes_plug)
  then have d: "distinct (nodes (plug cs C))" and out: "c \<notin> around cs"
    using C(3,4) c by (auto simp: nodes_plug around_def)
  have "agree (around cs) t t1" using out by (auto simp: agree_def t1)
  then show c1: "ctx_at cs a t1"
    by (rule ctx_at_agree) (use p in \<open>simp_all add: place_def t1\<close>)
  have "tree_at C (above cs) c t1"
    by (rule tree_at_reparent [OF C(1,4)]) (simp_all add: agree_def t1)
  then show "place cs C c (put_child cs c t1)"
    by (rule put_child_place [OF c1 _ above_not_within [OF p C(3)] d])
qed

section \<open>A node with at most one child\<close>

definition unlinked :: "path \<Rightarrow> shape \<Rightarrow> ('k, 'z) avl_tree_scheme \<Rightarrow> ('k, 'z) avl_tree_scheme option \<Rightarrow> bool" where
  "unlinked cs S t res \<longleftrightarrow> (\<exists>t'. res = Some t' \<and> rebuilt (nodes (plug cs S)) t t')"

lemma unlink_leaf_ok:
  assumes p: "place cs (Bin Tip a Tip) a t" and cx: "ctx_exact cs 1 t" "ctx_avl cs 1"
    and n: "length (before cs) + length (behind cs) \<le> count t"
  shows "unlinked cs Tip t (unlink_leaf a t)"
proof -
  note r = place_root [OF p]
  have c: "ctx_at cs a t" using p by (simp add: place_def)
  have "distinct (nodes (plug cs Tip))" using p by (auto simp: place_def nodes_plug)
  from put_child_place [OF c, of Tip 0] this have p0: "place cs Tip 0 (put_child cs 0 t)" by simp
  show ?thesis
  proof (cases cs)
    case Nil
    with r have "unlink_leaf a t = Some (t\<lparr>root := 0\<rparr>)" by (simp add: unlink_leaf_def get_def)
    moreover have "rebuilt (nodes (plug cs Tip)) t (t\<lparr>root := 0\<rparr>)"
      unfolding rebuilt_def by (intro conjI exI [of _ Tip]) (simp_all add: Nil)
    ultimately show ?thesis by (simp add: unlinked_def)
  next
    case (Cons c ds)
    have up: "mends avl_post_delete ds (put_child cs 0 t)"
      by (rule post_delete_ok) (use n reshaped_put_child [of t cs 0 t] in \<open>auto simp: Cons reshaped_def; cases c; simp\<close>)
    have re: "reshaped t (put_child cs 0 t)" by simp
    show ?thesis
    proof (cases c)
      case (LeftOf b R)
      let ?t = "t\<lparr>left := (left t)(b := 0)\<rparr>"
      have b: "b \<noteq> 0" "left t b = a" using p r by (auto simp: Cons LeftOf place_def)
      have "low_left ds Tip b R ?t"
        using p0 cx put_child_exact(2) [of R cs 0 t] put_child_exact(1) [of ds _ cs 0 t]
        by (auto simp: Cons LeftOf low_left_def place_up_left)
      from lower_left_ok [OF this] up obtain t' where
        "lower_left avl_post_delete b ?t = Some t'" "rebuilt (nodes (plug ds (Bin Tip b R))) ?t t'"
        by (auto simp: Cons LeftOf)
      moreover have "unlink_leaf a t = lower_left avl_post_delete b ?t"
        using r b by (simp add: Cons LeftOf unlink_leaf_def get_def set_left_def)
      ultimately show ?thesis using rebuilt_trans [of t ?t _ t'] by (simp add: unlinked_def Cons LeftOf)
    next
      case (RightOf L b)
      let ?t = "t\<lparr>right := (right t)(b := 0)\<rparr>"
      have b: "b \<noteq> 0" "right t b = a" "left t b \<noteq> a"
        using p r place_not_left [OF p [unfolded Cons RightOf]] by (auto simp: Cons RightOf place_def)
      have "low_right ds L b Tip ?t"
        using p0 cx put_child_exact(2) [of L cs 0 t] put_child_exact(1) [of ds _ cs 0 t]
        by (auto simp: Cons RightOf low_right_def place_up_right)
      from lower_right_ok [OF this] up obtain t' where
        "lower_right avl_post_delete b ?t = Some t'" "rebuilt (nodes (plug ds (Bin L b Tip))) ?t t'"
        by (auto simp: Cons RightOf)
      moreover have "unlink_leaf a t = lower_right avl_post_delete b ?t"
        using r b by (simp add: Cons RightOf unlink_leaf_def get_def set_right_def)
      ultimately show ?thesis using rebuilt_trans [of t ?t _ t'] by (simp add: unlinked_def Cons RightOf)
    qed
  qed
qed

lemma unlink_one_ok:
  assumes p: "place cs T a t" "a \<noteq> 0" "a \<notin> around cs" "parent t a = above cs"
    and C: "tree_at C q c t" "C \<noteq> Tip" "set (nodes C) \<subseteq> set (nodes T)" "distinct (nodes C)" "c \<noteq> a"
    and e: "exact_at C t" "avl_shape C" "ctx_exact cs (Suc (high C)) t" "ctx_avl cs (Suc (high C))"
    and n: "length (before cs) + length (behind cs) \<le> count t"
  shows "unlinked cs C t (unlink_one a c t)"
proof -
  define t1 where "t1 = t\<lparr>parent := (parent t)(c := above cs)\<rparr>"
  note g = graft_place [OF p(1) C(1-4) t1_def]
  let ?t2 = "put_child cs c t1"
  have b: "balance t1 = balance t" by (simp add: t1_def)
  have x: "exact_at C ?t2" "\<And>h. ctx_exact cs h ?t2 = ctx_exact cs h t"
    using e(1) exact_at_cong [of C t1 t] ctx_exact_cong [of cs t1 t] b by auto
  have re: "reshaped t ?t2" by (simp add: t1_def)
  show ?thesis
  proof (cases "cs = []")
    case True
    with p C(5) g(3) have "unlink_one a c t = Some ?t2"
      by (simp add: unlink_one_def get_def set_parent_def t1_def)
    moreover have "rebuilt (nodes (plug cs C)) t ?t2"
      by (rule rebuiltI [OF g(2) x(1)]) (use True e re in simp_all)
    ultimately show ?thesis by (simp add: unlinked_def)
  next
    case False
    then have "above cs \<noteq> 0" using place_parent_null [of _ _ T a t] p(1) by (cases cs) auto
    with p C(5) g(3) have "unlink_one a c t = avl_post_delete c ?t2"
      using replace_child_place [OF g(1) p(3,2)] by (simp add: unlink_one_def get_def set_parent_def t1_def)
    moreover have "shrunk_place cs C c ?t2"
      using g(2) x e C(2) by (simp add: shrunk_place_def)
    moreover have "mends avl_post_delete cs ?t2"
      by (rule post_delete_ok) (use n re in \<open>simp add: reshaped_def\<close>)
    ultimately show ?thesis using mendsD [of avl_post_delete cs ?t2 C c ?t2] rebuilt_trans [OF re]
      by (auto simp: unlinked_def)
  qed
qed

lemma delete_small_ok:
  assumes p: "place cs (Bin L a R) a t" and e: "exact_at (Bin L a R) t" "avl_shape (Bin L a R)"
      "ctx_exact cs (high (Bin L a R)) t" "ctx_avl cs (high (Bin L a R))"
    and n: "count t = length (nodes (plug cs (Bin L a R)))" and small: "L = Tip \<or> R = Tip"
  shows "\<exists>t'. avl_delete_small a t = Some t' \<and> rebuilt (before cs @ nodes L @ nodes R @ behind cs) t t'"
proof -
  note r = place_root [OF p]
  have tr: "tree_at L a (left t a) t" "tree_at R a (right t a) t" using p by (auto simp: place_def)
  have d: "distinct (nodes L)" "distinct (nodes R)" using p by (auto simp: place_def nodes_plug)
  have cnt: "length (before cs) + length (behind cs) \<le> count t" by (simp add: n nodes_plug)
  consider "L = Tip" "R = Tip" | "L = Tip" "R \<noteq> Tip" | "L \<noteq> Tip" "R = Tip" using small by blast
  then show ?thesis
  proof cases
    case 1
    with tr r have "avl_delete_small a t = unlink_leaf a t" by (simp add: avl_delete_small_def get_def)
    moreover have "unlinked cs Tip t (unlink_leaf a t)"
      by (rule unlink_leaf_ok) (use p e cnt 1 in simp_all)
    ultimately show ?thesis using 1 by (simp add: unlinked_def nodes_plug)
  next
    case 2
    let ?c = "right t a"
    have c: "?c \<noteq> 0" "?c \<noteq> a" using tr(2) 2 r(6) tree_at_null [of R a t] tree_root [OF tr(2)] by metis+
    with 2 tr r have "avl_delete_small a t = unlink_one a ?c t" by (simp add: avl_delete_small_def get_def)
    moreover have "unlinked cs R t (unlink_one a ?c t)"
      by (rule unlink_one_ok [OF p r(2,4,3) tr(2) 2(2)]) (use e cnt c d 2 in auto)
    ultimately show ?thesis using 2 by (simp add: unlinked_def nodes_plug)
  next
    case 3
    let ?c = "left t a"
    have c: "?c \<noteq> 0" "?c \<noteq> a" using tr(1) 3 r(5) tree_at_null [of L a t] tree_root [OF tr(1)] by metis+
    with 3 tr r have "avl_delete_small a t = unlink_one a ?c t" by (simp add: avl_delete_small_def get_def)
    moreover have "unlinked cs L t (unlink_one a ?c t)"
      by (rule unlink_one_ok [OF p r(2,4,3) tr(1) 3(1)]) (use e cnt c d 3 in auto)
    ultimately show ?thesis using 3 by (simp add: unlinked_def nodes_plug)
  qed
qed

section \<open>A node with two children\<close>

text \<open>The least node of a tree, at the end of the way to the left.\<close>

lemma local_min_ok:
  assumes "tree_at R p x t" "R \<noteq> Tip"
  obtains ds m S where "R = plug ds (Bin Tip m S)" "avl_local_min x t = Some m" "before ds = []"
proof -
  have "tree_at R p x t \<Longrightarrow> R \<noteq> Tip \<Longrightarrow> before es = [] \<Longrightarrow>
      \<exists>ds m S. plug es R = plug ds (Bin Tip m S) \<and> avl_local_min x t = Some m \<and> before ds = []" for es
  proof (induction R arbitrary: p x es)
    case (Bin l b r)
    then have h: "x = b" "b \<noteq> 0" "tree_at l b (left t b) t" by auto
    show ?case
    proof (cases "l = Tip")
      case True
      with h have "avl_local_min x t = Some b" by (subst avl_local_min.simps) (simp add: get_def)
      with True Bin.prems(3) show ?thesis by blast
    next
      case False
      then have "left t b \<noteq> 0" using h(3) tree_at_null [of l b t] by metis
      then have "avl_local_min x t = avl_local_min (left t b) t"
        using h by (subst avl_local_min.simps) (simp add: get_def)
      with Bin.IH(1) [OF h(3) False, of "LeftOf b r # es"] Bin.prems(3) show ?thesis by simp
    qed
  qed simp
  from this [of "[]"] assms that show ?thesis by fastforce
qed

lemma plug_append: "plug (ds @ es) T = plug es (plug ds T)"
  by (induction ds T rule: plug.induct) auto

lemma before_append: "before (ds @ es) = before es @ before ds"
  by (induction ds rule: before.induct) auto

lemma behind_append: "behind (ds @ es) = behind ds @ behind es"
  by (induction ds rule: behind.induct) auto

lemma place_inner:
  "place es (plug ds T) y t \<Longrightarrow> \<exists>x. place (ds @ es) T x t"
proof (induction ds T arbitrary: y rule: plug.induct)
  case (2 a r cs T)
  then obtain x where "place (cs @ es) (Bin T a r) x t" by auto
  with place_root(1) [OF this] show ?case by (simp add: place_up_left)
next
  case (3 l a cs T)
  then obtain x where "place (cs @ es) (Bin l a T) x t" by auto
  with place_root(1) [OF this] show ?case by (simp add: place_up_right)
qed auto

text \<open>Node \<open>m\<close> gets the fields of \<open>a\<close>, and the children of \<open>a\<close>.\<close>

definition stand_in :: "nat \<Rightarrow> nat \<Rightarrow> ('k, 'z) avl_tree_scheme \<Rightarrow> ('k, 'z) avl_tree_scheme" where
  "stand_in a m t =
     (let l = left t a; r = right t a; p = (parent t)(m := parent t a); p = (if l \<noteq> 0 then p(l := m) else p)
      in t\<lparr>balance := (balance t)(m := balance t a), left := (left t)(m := l), right := (right t)(m := r),
           parent := (if r \<noteq> 0 then p(r := m) else p)\<rparr>)"

lemma stand_in_run:
  assumes "a \<noteq> 0" "m \<noteq> 0" "a \<noteq> m"
  shows "do {
       par \<leftarrow> get parent a t;
       b \<leftarrow> get balance a t;
       t \<leftarrow> set_balance m b t;
       t \<leftarrow> set_parent m par t;
       l \<leftarrow> get left a t;
       t \<leftarrow> set_left m l t;
       r \<leftarrow> get right a t;
       t \<leftarrow> set_right m r t;
       t \<leftarrow> (if l \<noteq> 0 then set_parent l m t else Some t);
       t \<leftarrow> (if r \<noteq> 0 then set_parent r m t else Some t);
       replace_child par a m t
     } = replace_child (parent t a) a m (stand_in a m t)"
  using assms by (cases t; cases "left t a = 0"; cases "right t a = 0"; simp add: avl_access stand_in_def Let_def)

lemma stand_in_place:
  assumes p: "place cs (Bin L a R) a t" and m: "m \<noteq> 0" "m \<notin> set (nodes (plug cs (Bin L a R)))"
    and t1: "t1 = stand_in a m t"
  shows "replace_child (parent t a) a m t1 = Some (put_child cs m t1)" "place cs (Bin L m R) m (put_child cs m t1)"
proof -
  note r = place_root [OF p]
  have c: "ctx_at cs a t" and tr: "tree_at L a (left t a) t" "tree_at R a (right t a) t"
    and d: "distinct (before cs @ nodes L @ a # nodes R @ behind cs)"
    using p by (auto simp: place_def nodes_plug)
  have mo: "m \<notin> around cs" "m \<noteq> a" "m \<notin> set (nodes L)" "m \<notin> set (nodes R)"
    using m(2) by (auto simp: nodes_plug around_def)
  have ch: "left t a = 0 \<or> left t a \<in> set (nodes L)" "right t a = 0 \<or> right t a \<in> set (nodes R)"
    using tree_root tr by blast+
  have lo: "left t a \<noteq> 0 \<Longrightarrow> left t a \<notin> around cs \<and> left t a \<notin> set (nodes R) \<and> left t a \<noteq> m \<and> left t a \<noteq> right t a"
    and ro: "right t a \<noteq> 0 \<Longrightarrow> right t a \<notin> around cs \<and> right t a \<notin> set (nodes L) \<and> right t a \<noteq> m"
    using ch d mo by (auto simp: around_def)
  have sel: "left t1 b = (if b = m then left t a else left t b)" "right t1 b = (if b = m then right t a else right t b)"
    "parent t1 b = (if right t a \<noteq> 0 \<and> b = right t a then m else if left t a \<noteq> 0 \<and> b = left t a then m
       else if b = m then above cs else parent t b)" "root t1 = root t" for b
    using r(3) by (simp_all add: t1 stand_in_def Let_def)
  have c1: "ctx_at cs a t1"
    by (rule ctx_at_agree [OF _ _ c]) (use mo lo ro in \<open>auto simp: agree_def sel\<close>)
  from replace_child_place [OF this r(4,2)] r(3)
  show "replace_child (parent t a) a m t1 = Some (put_child cs m t1)" by simp
  have dd: "distinct (nodes L)" "distinct (nodes R)" using d by simp_all
  have "agree (set (nodes L) - {left t a}) t t1" "agree (set (nodes R) - {right t a}) t t1"
    using mo lo ro by (auto simp: agree_def sel)
  moreover have "left t a \<noteq> 0 \<Longrightarrow> left t1 (left t a) = left t (left t a) \<and> right t1 (left t a) = right t (left t a) \<and>
      parent t1 (left t a) = m"
    "right t a \<noteq> 0 \<Longrightarrow> left t1 (right t a) = left t (right t a) \<and> right t1 (right t a) = right t (right t a) \<and>
      parent t1 (right t a) = m"
    using lo ro by (simp_all add: sel)
  ultimately have "tree_at L m (left t a) t1" "tree_at R m (right t a) t1"
    using tree_at_reparent [OF tr(1) dd(1)] tree_at_reparent [OF tr(2) dd(2)] by blast+
  moreover have "parent t1 m = above cs" "left t1 m = left t a" "right t1 m = right t a"
    using lo ro by (auto simp: sel)
  ultimately have "tree_at (Bin L m R) (above cs) m t1" using m(1) by simp
  moreover have "above cs \<notin> set (nodes (Bin L m R))"
  proof -
    have "above cs \<noteq> m" using above_around [of cs] mo(1) m(1) by (cases "cs = []") auto
    moreover have "above cs \<notin> set (nodes L)" "above cs \<notin> set (nodes R)"
      by (rule above_not_within [OF p]; force)+
    ultimately show ?thesis by simp
  qed
  moreover have "distinct (nodes (plug cs (Bin L m R)))"
    using d m(2) by (auto simp: nodes_plug)
  ultimately show "place cs (Bin L m R) m (put_child cs m t1)"
    by (intro put_child_place [OF c1])
qed

text \<open>A node that is not in the tree takes the place of one that is.\<close>

lemma stand_in_rebuilt:
  assumes tr: "tree_at T 0 (root t) t" "exact_at T t" "avl_shape T" "distinct (nodes T)" "nodes T = ns @ a # ms"
    and m: "m \<noteq> 0" "m \<notin> set (nodes T)"
  shows "\<exists>t'. replace_child (parent t a) a m (stand_in a m t) = Some t' \<and> rebuilt (ns @ m # ms) t t'"
proof -
  from tr(5) node_place [of a T] obtain cs L R where T: "T = plug cs (Bin L a R)" by auto
  from tr(1) T obtain x where x: "ctx_at cs x t" "tree_at (Bin L a R) (above cs) x t"
    by (auto simp: tree_at_plug simp del: tree_at.simps)
  then have "x = a" by simp
  with x tr(4) T have p: "place cs (Bin L a R) a t" by (simp add: place_def)
  define t1 where "t1 = stand_in a m t"
  note s = stand_in_place [OF p m(1) m(2) [unfolded T] t1_def]
  have "ns @ a # ms = (before cs @ nodes L) @ a # (nodes R @ behind cs)"
    using tr(5) T by (simp add: nodes_plug)
  moreover have "a \<notin> set ns" "a \<notin> set ms" using tr(4,5) by simp_all
  ultimately have nm: "ns = before cs @ nodes L" "ms = nodes R @ behind cs"
    using append_Cons_eq_iff [of a ns ms "before cs @ nodes L" "nodes R @ behind cs"] by auto
  have e: "exact_at (Bin L a R) t" "ctx_exact cs (high (Bin L a R)) t" "avl_shape (Bin L a R)"
    "ctx_avl cs (high (Bin L a R))"
    using tr(2,3) unfolding T exact_at_plug avl_shape_plug by simp_all
  have b: "balance t1 = (balance t)(m := balance t a)" by (simp add: t1_def stand_in_def Let_def)
  have "m \<notin> around cs" "m \<notin> set (nodes L)" "m \<notin> set (nodes R)"
    using m(2) T by (auto simp: nodes_plug around_def)
  then have same: "exact_at L t1 = exact_at L t" "exact_at R t1 = exact_at R t" "ctx_exact cs h t1 = ctx_exact cs h t" for h
    using b by (auto intro!: exact_at_cong ctx_exact_cong)
  have "exact_at (Bin L m R) (put_child cs m t1)" using e(1) same b by simp
  moreover have "reshaped t t1" by (simp add: t1_def stand_in_def Let_def)
  ultimately have "rebuilt (ns @ m # ms) t (put_child cs m t1)"
    by (intro rebuiltI [OF s(2)]) (use e same in \<open>simp_all add: nodes_plug nm\<close>)
  with s(1) show ?thesis unfolding t1_def by blast
qed

lemma delete_worker_ok:
  fixes t :: "('k, 'z) avl_tree_scheme"
  assumes ok: "avl_ok T t" and nod: "nodes T = ns @ a # ms"
  shows "\<exists>t'. avl_delete_worker a t = Some t' \<and> rebuilt (ns @ ms) t t'"
proof -
  from avl_place [OF assms] obtain cs L R where
    T: "T = plug cs (Bin L a R)" and p: "place cs (Bin L a R) a t" and e: "exact_at (Bin L a R) t"
      "avl_shape (Bin L a R)" "ctx_exact cs (high (Bin L a R)) t" "ctx_avl cs (high (Bin L a R))"
    and nm: "ns = before cs @ nodes L" "ms = nodes R @ behind cs" by blast
  note r = place_root [OF p]
  have tr: "tree_at L a (left t a) t" "tree_at R a (right t a) t" using p by (auto simp: place_def)
  have whole: "exact_at T t" "avl_shape T" "count t = length (nodes T)" "distinct (nodes T)"
    using ok by (auto simp: avl_ok_def balanced_at_iff is_list_def)
  show ?thesis
  proof (cases "L = Tip \<or> R = Tip")
    case True
    then have "avl_delete_worker a t = avl_delete_small a t"
      using tr r(2) by (auto simp: avl_delete_worker_def get_def)
    with delete_small_ok [OF p e _ True] whole(3) show ?thesis by (simp add: T nm)
  next
    case False
    then have ch: "left t a \<noteq> 0" "right t a \<noteq> 0" using tr tree_at_null [of _ a t] by metis+
    from False local_min_ok [OF tr(2)] obtain ds m S where
      R: "R = plug ds (Bin Tip m S)" and mn: "avl_local_min (right t a) t = Some m" and b: "before ds = []" by blast
    let ?es = "ds @ RightOf L a # cs"
    have "place (RightOf L a # cs) R (right t a) t" using p by (simp add: place_up_right)
    from place_inner [OF this [unfolded R]] obtain x where "place ?es (Bin Tip m S) x t" by blast
    with place_root(1) [OF this] have pm: "place ?es (Bin Tip m S) m t" by simp
    have T': "T = plug ?es (Bin Tip m S)" by (simp add: T R plug_append)
    have em: "exact_at (Bin Tip m S) t" "avl_shape (Bin Tip m S)" "ctx_exact ?es (high (Bin Tip m S)) t"
      "ctx_avl ?es (high (Bin Tip m S))"
      using whole(1,2) unfolding T' exact_at_plug avl_shape_plug by blast+
    have nR: "nodes R = m # nodes S @ behind ds" by (simp add: R nodes_plug b)
    define rs where "rs = nodes S @ behind ds @ behind cs"
    have msm: "ms = m # rs" by (simp add: nm nR rs_def)
    have "\<exists>t1. avl_delete_small m t = Some t1 \<and> rebuilt (ns @ a # rs) t t1"
      using delete_small_ok [OF pm em] whole(3)
      by (simp add: T' before_append behind_append b nm rs_def)
    then obtain t1 where t1: "avl_delete_small m t = Some t1" "rebuilt (ns @ a # rs) t t1" by blast
    then obtain T1 where T1: "tree_at T1 0 (root t1) t1" "exact_at T1 t1" "avl_shape T1" "nodes T1 = ns @ a # rs"
      and re: "reshaped t t1" by (auto simp: rebuilt_def)
    have d: "distinct (ns @ a # m # rs)" using whole(4) nod msm by simp
    then have d1: "distinct (nodes T1)" "m \<notin> set (nodes T1)" "a \<noteq> m" using T1(4) by auto
    have mz: "m \<noteq> 0" using place_root(2) [OF pm] .
    from stand_in_rebuilt [OF T1(1-3) d1(1) T1(4) mz d1(2)] obtain t' where
      t': "replace_child (parent t1 a) a m (stand_in a m t1) = Some t'" "rebuilt (ns @ m # rs) t1 t'" by blast
    have "avl_delete_worker a t = Some t'"
      using stand_in_run [OF r(2) mz d1(3), of t1] t'(1) r(2) ch mn t1(1)
      by (simp add: avl_delete_worker_def get_def [of left a t] get_def [of right a t])
    with rebuilt_trans [OF re t'(2)] msm show ?thesis by auto
  qed
qed

section \<open>Deletion\<close>

lemma avl_delete_ok:
  fixes t :: "('k, 'z) avl_tree_scheme"
  assumes ok: "avl_ok T t" and nod: "nodes T = ns @ a # ms"
  shows "\<exists>t' T'. avl_delete a t = Some t' \<and> avl_ok T' t' \<and> nodes T' = ns @ ms \<and> tree_only {} t t'"
proof -
  from delete_worker_ok [OF assms] obtain t1 where
    w: "avl_delete_worker a t = Some t1" and rb: "rebuilt (ns @ ms) t t1" by blast
  then have re: "reshaped t t1" by (simp add: rebuilt_def)
  have l: "is_list (list_head t) (ns @ a # ms) t" and lead: "\<forall>b \<in> set (ns @ a # ms). leader t b"
    and nd: "\<not> allow_dups t" and so: "sorted_wrt (less_by (comp t)) (map (key t) (ns @ a # ms))"
    and cnt: "count t = length (ns @ a # ms)"
    using ok nod by (auto simp: avl_ok_def keys_of_def)
  have az: "a \<noteq> 0" using l by (auto simp: is_list_def)
  have "is_list (list_head t1) (ns @ a # ms) t1"
    using is_list_same [OF l, of t1] re by (simp add: reshaped_def)
  from list_del_node [OF this] obtain n p where
    del: "list_del a t1 = Some (t1\<lparr>l_next := n, l_prev := p\<rparr>)"
      "is_list (list_head t1) (ns @ ms) (t1\<lparr>l_next := n, l_prev := p\<rparr>)"
    by (auto simp: links_of_def)
  define t' where "t' = t1\<lparr>l_next := n, l_prev := p, count := count t1 - 1\<rparr>"
  have run: "avl_delete a t = Some t'"
    using az lead nd w del(1) by (simp add: avl_delete_def get_def avl_remove_def t'_def)
  from rb obtain T' where T': "tree_at T' 0 (root t1) t1" "exact_at T' t1" "avl_shape T'" "nodes T' = ns @ ms"
    by (auto simp: rebuilt_def)
  have "tree_at T' 0 (root t') t'"
    using tree_at_agree [of T' t1 t' 0 "root t1"] T'(1) by (simp add: agree_def t'_def)
  moreover have "exact_at T' t'" using exact_at_cong [of T' t' t1] T'(2) by (simp add: t'_def)
  moreover have "is_list (list_head t') (ns @ ms) t'" using is_list_same [OF del(2), of t'] by (simp add: t'_def)
  ultimately have "avl_ok T' t'"
    using T'(3,4) so lead nd cnt re
    by (simp add: avl_ok_def balanced_at_iff keys_of_def t'_def reshaped_def sorted_wrt_append)
  moreover have "tree_only {} t t'" using re by (simp add: tree_only_def reshaped_def t'_def)
  ultimately show ?thesis using run T'(4) by blast
qed

end
