(* ===== verification/Kvlist.thy ===== *)
theory Kvlist
  imports Avl_Delete_Laws
begin

text \<open>
  The key-value lists of \<open>util/kvlist.c\<close>: a tree of nodes with copies of the keys, ordered by
  \<open>strcmp\<close>, each with its data.  \<open>node_data\<close> is the data behind every node, \<open>freed\<close> the nodes that
  were given back to the allocator.
\<close>

section \<open>The order of the keys\<close>

text \<open>\<open>strcmp\<close> compares the bytes as unsigned characters; only its sign is used.\<close>

fun strcmp :: "string \<Rightarrow> string \<Rightarrow> int" where
  "strcmp [] [] = 0"
| "strcmp [] (y # ys) = -1"
| "strcmp (x # xs) [] = 1"
| "strcmp (x # xs) (y # ys) =
     (if (of_char x :: nat) < of_char y then -1 else if (of_char y :: nat) < of_char x then 1 else strcmp xs ys)"

definition avl_strcmp :: "string \<Rightarrow> string \<Rightarrow> int" where
  "avl_strcmp k1 k2 = strcmp k1 k2"

lemma strcmp_antisym: "strcmp a b = - strcmp b a"
  by (induction a b rule: strcmp.induct) auto

lemma strcmp_eq: "strcmp a b = 0 \<longleftrightarrow> a = b"
  by (induction a b rule: strcmp.induct) auto

lemma strcmp_Cons_less:
  "strcmp (x # xs) (y # ys) < 0 \<longleftrightarrow>
     (of_char x :: nat) < of_char y \<or> (of_char x :: nat) = of_char y \<and> strcmp xs ys < 0"
  by (auto simp del: of_char_eq_iff)

lemma strcmp_trans: "strcmp a b < 0 \<Longrightarrow> strcmp b c < 0 \<Longrightarrow> strcmp a c < 0"
proof (induction a b arbitrary: c rule: strcmp.induct)
  case (2 y ys)
  then show ?case by (cases c) auto
next
  case (4 x xs y ys)
  show ?case
  proof (cases c)
    case (Cons z zs)
    from "4.prems" have "(of_char x :: nat) < of_char y \<or> (of_char x :: nat) = of_char y \<and> strcmp xs ys < 0"
      "(of_char y :: nat) < of_char z \<or> (of_char y :: nat) = of_char z \<and> strcmp ys zs < 0"
      unfolding Cons strcmp_Cons_less by blast+
    moreover have "strcmp xs ys < 0 \<Longrightarrow> strcmp ys zs < 0 \<Longrightarrow> (of_char x :: nat) = of_char y \<Longrightarrow> strcmp xs zs < 0"
      using "4.IH" [of zs] by simp
    ultimately show ?thesis unfolding Cons strcmp_Cons_less by linarith
  qed (use "4.prems" in simp)
qed auto

interpretation str: comparator avl_strcmp
proof
  fix a b c
  show "avl_strcmp a b < 0 \<longleftrightarrow> avl_strcmp b a > 0" using strcmp_antisym [of a b] by (simp add: avl_strcmp_def)
  show "avl_strcmp a b < 0 \<Longrightarrow> avl_strcmp b c < 0 \<Longrightarrow> avl_strcmp a c < 0"
    using strcmp_trans by (simp add: avl_strcmp_def)
  show "avl_strcmp a b = 0 \<longleftrightarrow> a = b" by (simp add: avl_strcmp_def strcmp_eq)
qed

section \<open>The list\<close>

record 'd kvlist = "string avl_tree" +
  node_data :: "nat \<Rightarrow> 'd"
  freed :: "nat list"

definition kvlist_strlen :: "string \<Rightarrow> nat" where
  "kvlist_strlen data = length data + 1"

definition kvlist_init :: "'d kvlist \<Rightarrow> 'd kvlist option" where
  "kvlist_init kv = avl_init avl_strcmp False kv"

definition kvlist_get_node :: "'d kvlist \<Rightarrow> string \<Rightarrow> nat option" where
  "kvlist_get_node kv name = avl_find_element name AVL_FIND_EQUAL kv"

definition kvlist_get :: "'d kvlist \<Rightarrow> string \<Rightarrow> 'd option option" where
  "kvlist_get kv name = do {
     node \<leftarrow> kvlist_get_node kv name;
     Some (if node = 0 then None else Some (node_data kv node))
   }"

definition kvlist_delete :: "'d kvlist \<Rightarrow> string \<Rightarrow> (bool \<times> 'd kvlist) option" where
  "kvlist_delete kv name = do {
     node \<leftarrow> kvlist_get_node kv name;
     if node \<noteq> 0 then do {
       kv \<leftarrow> avl_delete node kv;
       Some (True, kv\<lparr>freed := freed kv @ [node]\<rparr>)
     } else Some (False, kv)
   }"

text \<open>
  \<open>node\<close> is the address \<open>calloc_a\<close> returned, 0 when there is no memory; the results are whether the
  pair was stored.  What \<open>memcpy\<close> copies is a value of type \<open>'d\<close>, whose length, from \<open>get_len\<close>, does not appear.
\<close>

definition kvlist_set_ex :: "'d kvlist \<Rightarrow> nat \<Rightarrow> string \<Rightarrow> 'd \<Rightarrow> (bool \<times> 'd kvlist) option" where
  "kvlist_set_ex kv node name data =
     (if node = 0 then Some (False, kv)
      else do {
        (_, kv) \<leftarrow> kvlist_delete kv name;
        let kv = kv\<lparr>node_data := (node_data kv)(node := data), key := (key kv)(node := name)\<rparr>;
        (_, kv) \<leftarrow> avl_insert node kv;
        Some (True, kv)
      })"

definition kvlist_set :: "'d kvlist \<Rightarrow> nat \<Rightarrow> string \<Rightarrow> 'd \<Rightarrow> (bool \<times> 'd kvlist) option" where
  "kvlist_set kv node name data = kvlist_set_ex kv node name data"

text \<open>
  \<open>avl_remove_all_elements\<close> with \<open>free\<close> as its body: the tree is emptied first, then the nodes are
  freed along the list, \<open>count\<close> of them; \<open>ptr\<close> is the successor, read before the node is freed.
\<close>

primrec free_loop :: "nat \<Rightarrow> nat \<Rightarrow> nat \<Rightarrow> 'd kvlist \<Rightarrow> 'd kvlist option" where
  "free_loop 0 element ptr kv = Some kv"
| "free_loop (Suc n) element ptr kv = do {
     let kv = kv\<lparr>freed := freed kv @ [element]\<rparr>;
     nxt \<leftarrow> get_next ptr kv;
     free_loop n ptr nxt (kv\<lparr>count := n\<rparr>)
   }"

definition kvlist_free :: "'d kvlist \<Rightarrow> 'd kvlist option" where
  "kvlist_free kv = do {
     element \<leftarrow> get_next (list_head kv) kv;
     ptr \<leftarrow> get_next element kv;
     kv \<leftarrow> INIT_LIST_HEAD (list_head kv) kv;
     free_loop (count kv) element ptr (kv\<lparr>root := 0\<rparr>)
   }"

section \<open>Blocks of several objects\<close>

text \<open>
  \<open>mc_calloc_a\<close>: one block for objects of the lengths \<open>lens\<close>, each at a multiple of the size of a
  pointer; the size of the block and the offsets, which are kept in an \<open>int\<close> of 32 bits.
\<close>

definition C_PTR_ALIGN :: nat where "C_PTR_ALIGN = 8"

definition round_up_ptr :: "nat \<Rightarrow> nat" where
  "round_up_ptr n = (n + C_PTR_ALIGN - 1) div C_PTR_ALIGN * C_PTR_ALIGN"

primrec chunk_offsets :: "nat list \<Rightarrow> nat \<Rightarrow> nat list" where
  "chunk_offsets [] off = []"
| "chunk_offsets (n # ns) off = off # chunk_offsets ns (off + round_up_ptr n)"

definition as_int :: "nat \<Rightarrow> int" where
  "as_int n = (int n + 2147483648) mod 4294967296 - 2147483648"

lemma as_int_small: "n < 2147483648 \<Longrightarrow> as_int n = int n"
  by (simp add: as_int_def)

definition mc_calloc_a :: "nat list \<Rightarrow> int \<times> int list" where
  "mc_calloc_a lens = (as_int (sum_list (map round_up_ptr lens)), map as_int (chunk_offsets lens 0))"

lemma round_up_ptr_ge: "n \<le> round_up_ptr n" "8 dvd round_up_ptr n"
  by (auto simp: round_up_ptr_def C_PTR_ALIGN_def)

lemma chunk_offsets_inside:
  "i < length lens \<Longrightarrow> off \<le> chunk_offsets lens off ! i \<and>
     chunk_offsets lens off ! i + lens ! i \<le> off + sum_list (map round_up_ptr lens) \<and>
     (8 dvd off \<longrightarrow> 8 dvd chunk_offsets lens off ! i) \<and>
     (\<forall>j < i. chunk_offsets lens off ! j + lens ! j \<le> chunk_offsets lens off ! i)"
proof (induction lens arbitrary: off i)
  case (Cons n ns)
  have n: "n \<le> round_up_ptr n" "8 dvd round_up_ptr n" by (rule round_up_ptr_ge)+
  show ?case
  proof (cases i)
    case 0
    then show ?thesis using n by simp
  next
    case (Suc k)
    with Cons.prems have k: "k < length ns" by simp
    from Cons.IH [OF k, of "off + round_up_ptr n"] show ?thesis using Suc n
      by (auto simp: less_Suc_eq_0_disj)
  qed
qed simp

lemma length_chunk_offsets [simp]: "length (chunk_offsets lens off) = length lens"
  by (induction lens arbitrary: off) auto

section \<open>Finding\<close>

text \<open>The map a list stands for.\<close>

definition kv_map :: "shape \<Rightarrow> 'd kvlist \<Rightarrow> string \<rightharpoonup> 'd" where
  "kv_map T kv = map_of (map (\<lambda>a. (key kv a, node_data kv a)) (nodes T))"

definition kv_ok :: "shape \<Rightarrow> 'd kvlist \<Rightarrow> bool" where
  "kv_ok T kv \<longleftrightarrow> avl_ok T kv \<and> comp kv = avl_strcmp"

lemma sorted_keys_distinct:
  "sorted_wrt (less_by avl_strcmp) ks \<Longrightarrow> distinct ks"
proof (induction ks)
  case (Cons k ks)
  have "k \<notin> set ks"
  proof
    assume "k \<in> set ks"
    with Cons.prems have "avl_strcmp k k < 0" by (auto simp: less_by_def)
    then show False by simp
  qed
  with Cons show ?case by simp
qed simp

lemma kv_map_node:
  assumes "kv_ok T kv" "a \<in> set (nodes T)"
  shows "kv_map T kv (key kv a) = Some (node_data kv a)"
proof -
  have "distinct (map fst (map (\<lambda>a. (key kv a, node_data kv a)) (nodes T)))"
    using assms(1) sorted_keys_distinct by (auto simp: kv_ok_def avl_ok_def keys_of_def o_def)
  then show ?thesis using assms(2) by (auto simp: kv_map_def intro!: map_of_is_SomeI)
qed

lemma kvlist_get_ok:
  assumes "kv_ok T kv"
  shows "kvlist_get kv name = Some (kv_map T kv name)"
proof -
  from str.find_ok [of T kv name] assms obtain a where f: "avl_find name kv = Some a"
    "if \<exists>b \<in> set (nodes T). key kv b = name then a \<in> set (nodes T) \<and> key kv a = name else a = 0"
    by (auto simp: kv_ok_def)
  have z: "0 \<notin> set (nodes T)" using assms by (auto simp: kv_ok_def avl_ok_def is_list_def)
  show ?thesis
  proof (cases "\<exists>b \<in> set (nodes T). key kv b = name")
    case True
    with f have a: "a \<in> set (nodes T)" "key kv a = name" by auto
    with z have "a \<noteq> 0" by metis
    then show ?thesis using kv_map_node [OF assms a(1)] f(1) a(2)
      by (simp add: kvlist_get_def kvlist_get_node_def avl_find_element_def)
  next
    case False
    then have "kv_map T kv name = None" by (auto simp: kv_map_def map_of_eq_None_iff)
    then show ?thesis using f False by (simp add: kvlist_get_def kvlist_get_node_def avl_find_element_def)
  qed
qed

text \<open>
  C9. \<open>kvlist_get\<close> is the lookup in the map the tree stands for: it returns the data of the node with
  that key, null when there is none, and it does return, without following a null pointer.
\<close>

theorem kvlist_get_map:
  assumes "kv_ok T kv"
  shows "kvlist_get kv name = Some (kv_map T kv name)"
  using assms by (rule kvlist_get_ok)

text \<open>A tree of three nodes at 1, 2 and 3, with its head at 10.\<close>

definition sample_kv :: "int kvlist" where
  "sample_kv =
     \<lparr>l_next = (\<lambda>a. 0)(10 := 1, 1 := 2, 2 := 3, 3 := 10), l_prev = (\<lambda>a. 0)(10 := 3, 3 := 2, 2 := 1, 1 := 10),
      parent = (\<lambda>a. 0)(1 := 2, 3 := 2), left = (\<lambda>a. 0)(2 := 1), right = (\<lambda>a. 0)(2 := 3),
      key = (\<lambda>a. [])(1 := ''a'', 2 := ''b'', 3 := ''c''), balance = (\<lambda>a. 0), leader = (\<lambda>a. True),
      list_head = 10, root = 2, count = 3, allow_dups = False, comp = avl_strcmp,
      node_data = (\<lambda>a. 0)(1 := 100, 2 := 200, 3 := 300), freed = []\<rparr>"

lemma sample_kv_ok: "kv_ok (Bin (Bin Tip 1 Tip) 2 (Bin Tip 3 Tip)) sample_kv"
  by (simp add: kv_ok_def avl_ok_def sample_kv_def is_list_def keys_of_def less_by_def avl_strcmp_def)

theorem kvlist_get_map_witness:
  "kvlist_get sample_kv ''c'' = Some (Some 300) \<and> kvlist_get sample_kv ''bb'' = Some None"
  using kvlist_get_map [OF sample_kv_ok]
  by (simp add: kv_map_def sample_kv_def)

text \<open>
  The objects that \<open>mc_calloc_a\<close> lays out in one block lie inside it, one behind the other
  without overlap, and each is aligned for a pointer, as long as the size of the block is an \<open>int\<close>.
\<close>

lemma chunk_offsets_length [simp]: "length (chunk_offsets lens off) = length lens"
  by (induction lens arbitrary: off) auto

theorem calloc_a_disjoint:
  assumes "i < length lens" "mc_calloc_a lens = (block, offs)" "sum_list (map round_up_ptr lens) < 2147483648"
  shows "offs ! i + int (lens ! i) \<le> block \<and> 8 dvd offs ! i \<and> (\<forall>j < i. offs ! j + int (lens ! j) \<le> offs ! i)"
proof -
  have at: "offs ! j = int (chunk_offsets lens 0 ! j)" if "j < length lens" for j
    using chunk_offsets_inside [OF that, of 0] assms(2,3) that by (auto simp: mc_calloc_a_def as_int_small)
  have block: "block = int (sum_list (map round_up_ptr lens))" using assms(2,3) by (auto simp: mc_calloc_a_def as_int_small)
  let ?c = "chunk_offsets lens 0" and ?n = "sum_list (map round_up_ptr lens)"
  have c: "?c ! i + lens ! i \<le> ?n" "8 dvd ?c ! i" "\<And>j. j < i \<Longrightarrow> ?c ! j + lens ! j \<le> ?c ! i"
    using chunk_offsets_inside [OF assms(1), of 0] by auto
  have "int (?c ! i) + int (lens ! i) \<le> int ?n" using c(1) by linarith
  moreover have "8 dvd int (?c ! i)" using c(2) by (metis int_dvd_int_iff of_nat_numeral)
  moreover have "offs ! j + int (lens ! j) \<le> offs ! i" if "j < i" for j
    using c(3) [OF that] at [of j] at [OF assms(1)] that assms(1) by linarith
  ultimately show ?thesis by (simp only: at [OF assms(1)] block) blast
qed

theorem calloc_a_disjoint_witness:
  "mc_calloc_a [96, 5, 3] = (112, [0, 96, 104]) \<and> (104::int) + 3 \<le> 112"
proof -
  have r: "mc_calloc_a [96, 5, 3] = (112, [0, 96, 104])" by code_simp
  have s: "sum_list (map round_up_ptr [96, 5, 3]) < 2147483648" by (simp add: round_up_ptr_def C_PTR_ALIGN_def)
  show ?thesis using r calloc_a_disjoint [OF _ r s, of 2] by simp
qed

end
