(* ===== verification/Kvlist_Laws.thy ===== *)
theory Kvlist_Laws
  imports "HOL-Library.Multiset" Kvlist
begin

text \<open>
  The key-value lists are maps: storing, deleting and releasing on the heap, one by one and in any
  sequence that starts from a list that was just made.
\<close>

section \<open>What the tree operations leave alone\<close>

lemma tree_only_kv:
  fixes kv kv' :: "'d kvlist"
  assumes "tree_only A kv kv'"
  shows "node_data kv' = node_data kv" "freed kv' = freed kv" "key kv' = key kv" "comp kv' = comp kv"
    "list_head kv' = list_head kv"
  using assms unfolding tree_only_def by (cases kv; cases kv'; simp)+

lemma kv_map_iff:
  assumes "kv_ok T kv"
  shows "kv_map T kv k = Some d \<longleftrightarrow> (\<exists>a \<in> set (nodes T). key kv a = k \<and> node_data kv a = d)"
proof -
  have "distinct (map fst (map (\<lambda>a. (key kv a, node_data kv a)) (nodes T)))"
    using assms sorted_keys_distinct by (auto simp: kv_ok_def avl_ok_def keys_of_def o_def)
  from map_of_eq_Some_iff [OF this, of k d] show ?thesis
    by (force simp: kv_map_def)
qed

lemma kv_map_none: "kv_map T kv k = None \<longleftrightarrow> (\<forall>a \<in> set (nodes T). key kv a \<noteq> k)"
  by (auto simp: kv_map_def map_of_eq_None_iff image_image)

lemma kv_ok_same:
  fixes kv kv' :: "'d kvlist"
  assumes "kv_ok T kv" and t: "left kv' = left kv" "right kv' = right kv" "parent kv' = parent kv" "root kv' = root kv"
    and b: "balance kv' = balance kv" "count kv' = count kv" "leader kv' = leader kv" "allow_dups kv' = allow_dups kv"
    and l: "l_next kv' = l_next kv" "l_prev kv' = l_prev kv" "list_head kv' = list_head kv" "comp kv' = comp kv"
    and k: "\<And>a. a \<in> set (nodes T) \<Longrightarrow> key kv' a = key kv a"
  shows "kv_ok T kv'"
proof -
  have "tree_at T 0 (root kv) kv' = tree_at T 0 (root kv) kv"
    using tree_at_agree [of T kv kv' 0 "root kv"] tree_at_agree [of T kv' kv 0 "root kv"] t by (auto simp: agree_def)
  moreover have "exact_at T kv' = exact_at T kv" by (rule exact_at_cong) (simp add: b)
  moreover have "is_list (list_head kv) (nodes T) kv'" if "is_list (list_head kv) (nodes T) kv"
    by (rule is_list_same [OF that l(1,2)])
  moreover have "keys_of T kv' = keys_of T kv" using k by (simp add: keys_of_def)
  ultimately show ?thesis using assms(1) unfolding kv_ok_def avl_ok_def balanced_at_iff b l t(4) by auto
qed

lemma kv_map_cong:
  assumes "\<And>a. a \<in> set (nodes T) \<Longrightarrow> key kv' a = key kv a \<and> node_data kv' a = node_data kv a"
  shows "kv_map T kv' = kv_map T kv"
  unfolding kv_map_def using assms by (intro arg_cong [of _ _ map_of] map_cong) auto

text \<open>The node with a key, or none.\<close>

lemma get_node_ok:
  assumes "kv_ok T kv"
  obtains (found) a where "kvlist_get_node kv name = Some a" "a \<in> set (nodes T)" "a \<noteq> 0" "key kv a = name"
  | (missing) "kvlist_get_node kv name = Some 0" "kv_map T kv name = None"
proof -
  from str.find_ok [of T kv name] assms obtain a where f: "avl_find name kv = Some a"
    "if \<exists>b \<in> set (nodes T). key kv b = name then a \<in> set (nodes T) \<and> key kv a = name else a = 0"
    by (auto simp: kv_ok_def)
  have z: "0 \<notin> set (nodes T)" using assms by (auto simp: kv_ok_def avl_ok_def is_list_def)
  have g: "kvlist_get_node kv name = Some a" using f(1) by (simp add: kvlist_get_node_def avl_find_element_def)
  show ?thesis
  proof (cases "\<exists>b \<in> set (nodes T). key kv b = name")
    case True
    with f(2) have a: "a \<in> set (nodes T)" "key kv a = name" by auto
    with z have "a \<noteq> 0" by metis
    with a g show ?thesis by (intro found)
  next
    case False
    with f(2) g show ?thesis by (intro missing) (auto simp: kv_map_none)
  qed
qed

section \<open>Deletion\<close>

lemma kv_delete_node:
  assumes ok: "kv_ok T kv" and a: "a \<in> set (nodes T)"
  obtains kv' T' where "avl_delete a kv = Some kv'" "kv_ok T' kv'" "set (nodes T') = set (nodes T) - {a}"
    "kv_map T' kv' = (kv_map T kv)(key kv a := None)" "tree_only {} kv kv'"
proof -
  from a obtain ns ms where nod: "nodes T = ns @ a # ms" by (meson split_list)
  from ok have av: "avl_ok T kv" and c: "comp kv = avl_strcmp" by (simp_all add: kv_ok_def)
  from avl_delete_ok [OF av nod] obtain kv' T' where
    d: "avl_delete a kv = Some kv'" "avl_ok T' kv'" "nodes T' = ns @ ms" and o: "tree_only {} kv kv'" by blast
  note k = tree_only_kv [OF o]
  have ok': "kv_ok T' kv'" using d(2) c k(4) by (simp add: kv_ok_def)
  have "distinct (nodes T)" using av by (auto simp: avl_ok_def is_list_def)
  then have s: "set (nodes T') = set (nodes T) - {a}" using nod d(3) by auto
  have other: "b = a" if "b \<in> set (nodes T)" "key kv b = key kv a" for b
  proof -
    have "distinct (map (key kv) (nodes T))"
      using ok sorted_keys_distinct by (auto simp: kv_ok_def avl_ok_def keys_of_def)
    with that a show ?thesis by (auto simp: distinct_map dest: inj_onD)
  qed
  have "kv_map T' kv' k = ((kv_map T kv)(key kv a := None)) k" for k
  proof (cases "k = key kv a")
    case True
    then have "kv_map T' kv' k = None" unfolding kv_map_none using s other k(3) by auto
    with True show ?thesis by simp
  next
    case False
    then have "kv_map T' kv' k = Some d \<longleftrightarrow> kv_map T kv k = Some d" for d
      unfolding kv_map_iff [OF ok] kv_map_iff [OF ok'] using s k(1,3) by auto
    with False show ?thesis by (metis fun_upd_apply not_Some_eq)
  qed
  then have "kv_map T' kv' = (kv_map T kv)(key kv a := None)" by (rule ext)
  with that d(1) ok' s o show ?thesis by blast
qed

text \<open>
  What an operation on a list does: the map changes to \<open>m\<close>, and every node that was in the tree is there
  still or has been freed.
\<close>

definition kv_change :: "nat set \<Rightarrow> (string \<rightharpoonup> 'd) \<Rightarrow> shape \<Rightarrow> 'd kvlist \<Rightarrow> shape \<Rightarrow> 'd kvlist \<Rightarrow> bool" where
  "kv_change new m T kv T' kv' \<longleftrightarrow>
     kv_ok T' kv' \<and> kv_map T' kv' = m \<and> list_head kv' = list_head kv
     \<and> (\<exists>as. freed kv' = freed kv @ as \<and> distinct as \<and> set as \<inter> set (nodes T') = {}
           \<and> set (nodes T') \<union> set as = new \<union> set (nodes T))"

lemma delete_ok:
  assumes ok: "kv_ok T kv"
  shows "\<exists>T' kv'. kvlist_delete kv name = Some (kv_map T kv name \<noteq> None, kv') \<and>
           kv_change {} ((kv_map T kv)(name := None)) T kv T' kv'"
proof (cases rule: get_node_ok [OF ok, of name])
  case (1 a)
  obtain kv1 T' where d: "avl_delete a kv = Some kv1" "kv_ok T' kv1" "set (nodes T') = set (nodes T) - {a}"
    "kv_map T' kv1 = (kv_map T kv)(key kv a := None)" "tree_only {} kv kv1"
    using kv_delete_node [OF ok 1(2)] by blast
  note k = tree_only_kv [OF d(5)]
  define kv' where "kv' = kv1\<lparr>freed := freed kv1 @ [a]\<rparr>"
  have "kv_map T kv name = Some (node_data kv a)" using kv_map_iff [OF ok] 1 by blast
  then have "kvlist_delete kv name = Some (kv_map T kv name \<noteq> None, kv')"
    using 1 d(1) by (simp add: kvlist_delete_def kv'_def)
  moreover have "kv_ok T' kv'"
    by (rule kv_ok_same [OF d(2)]) (simp_all add: kv'_def)
  moreover have "kv_map T' kv' = kv_map T' kv1" by (rule kv_map_cong) (simp add: kv'_def)
  ultimately have "kv_change {} ((kv_map T kv)(name := None)) T kv T' kv'"
    using d(3,4) 1(2,4) k unfolding kv_change_def
    by (intro conjI exI [of _ "[a]"]) (auto simp: kv'_def)
  with \<open>kvlist_delete kv name = _\<close> show ?thesis by blast
next
  case 2
  then have "kvlist_delete kv name = Some (kv_map T kv name \<noteq> None, kv)" by (simp add: kvlist_delete_def)
  moreover have "(kv_map T kv)(name := None) = kv_map T kv" using 2(2) by auto
  moreover have "kv_change {} (kv_map T kv) T kv T kv"
    using ok unfolding kv_change_def by (intro conjI exI [of _ "[]"]) simp_all
  ultimately show ?thesis by (intro exI [of _ T] exI [of _ kv]) simp
qed

section \<open>Storing\<close>

lemma set_ok:
  assumes ok: "kv_ok T kv" and node: "node \<noteq> 0" "node \<notin> set (nodes T)" "node \<noteq> list_head kv"
  shows "\<exists>T' kv'. kvlist_set_ex kv node name data = Some (True, kv') \<and>
           kv_change {node} ((kv_map T kv)(name \<mapsto> data)) T kv T' kv'"
proof -
  from delete_ok [OF ok, of name] obtain T1 kv1 b where
    d: "kvlist_delete kv name = Some (b, kv1)" and ch: "kv_change {} ((kv_map T kv)(name := None)) T kv T1 kv1" by blast
  then obtain as where c: "kv_ok T1 kv1" "kv_map T1 kv1 = (kv_map T kv)(name := None)" "list_head kv1 = list_head kv"
    and as: "freed kv1 = freed kv @ as" "distinct as" "set as \<inter> set (nodes T1) = {}" "set (nodes T1) \<union> set as = set (nodes T)"
    by (auto simp: kv_change_def)
  have out: "node \<notin> set (nodes T1)" "node \<notin> set as" using as(4) node(2) by auto
  define kv2 where "kv2 = kv1\<lparr>node_data := (node_data kv1)(node := data), key := (key kv1)(node := name)\<rparr>"
  have ok2: "kv_ok T1 kv2"
    by (rule kv_ok_same [OF c(1)]) (use out in \<open>auto simp: kv2_def\<close>)
  have "kv_map T1 kv2 = kv_map T1 kv1"
    by (rule kv_map_cong) (use out in \<open>auto simp: kv2_def\<close>)
  then have m2: "kv_map T1 kv2 = (kv_map T kv)(name := None)" using c(2) by simp
  then have "kv_map T1 kv2 name = None" by simp
  then have fresh: "\<forall>b \<in> set (nodes T1). key kv2 b \<noteq> key kv2 node"
    unfolding kv_map_none by (simp add: kv2_def)
  have "avl_ok T1 kv2" "comp kv2 = avl_strcmp" using ok2 by (simp_all add: kv_ok_def)
  from str.insert_ok [OF this node(1) out(1) _ fresh] node(3) c(3) obtain kv' where
    i: "avl_insert node kv2 = Some (0, kv')" "inserted node T1 kv2 kv'" by (auto simp: kv2_def)
  then obtain T' where T': "avl_ok T' kv'" "set (nodes T') = insert node (set (nodes T1))" and o: "tree_only {node} kv2 kv'"
    by (auto simp: inserted_def)
  note k = tree_only_kv [OF o]
  have ok': "kv_ok T' kv'" using T'(1) k(4) ok2 by (simp add: kv_ok_def)
  have "kv_map T' kv' x = ((kv_map T kv)(name \<mapsto> data)) x" for x
  proof (cases "x = name")
    case True
    have "kv_map T' kv' name = Some data"
      unfolding kv_map_iff [OF ok'] using T'(2) k by (auto simp: kv2_def)
    with True show ?thesis by simp
  next
    case False
    then have "kv_map T' kv' x = Some d \<longleftrightarrow> kv_map T1 kv2 x = Some d" for d
      unfolding kv_map_iff [OF ok'] kv_map_iff [OF ok2] using T'(2) k by (auto simp: kv2_def)
    with False m2 show ?thesis by (metis fun_upd_apply not_Some_eq)
  qed
  then have "kv_map T' kv' = (kv_map T kv)(name \<mapsto> data)" by (rule ext)
  then have "kv_change {node} ((kv_map T kv)(name \<mapsto> data)) T kv T' kv'"
    unfolding kv_change_def using ok' k(2,5) c(3) as out T'(2)
    by (intro conjI exI [of _ as]) (auto simp: kv2_def)
  moreover have "kvlist_set_ex kv node name data = Some (True, kv')"
    using node(1) d i(1) by (simp add: kvlist_set_ex_def kv2_def Let_def)
  ultimately show ?thesis by blast
qed

section \<open>Releasing\<close>

lemma free_loop_ok:
  "linked (ys @ [h]) kv0 \<Longrightarrow> 0 \<notin> set (ys @ [h]) \<Longrightarrow> h \<notin> set ys \<Longrightarrow> length ys = n \<Longrightarrow>
   (\<And>a. a \<in> set ys \<Longrightarrow> l_next kv a = l_next kv0 a) \<Longrightarrow> count kv = n \<Longrightarrow>
   element = hd (ys @ [h]) \<Longrightarrow> (ys \<noteq> [] \<longrightarrow> ptr = hd (tl (ys @ [h]))) \<Longrightarrow>
   free_loop n element ptr kv = Some (kv\<lparr>freed := freed kv @ ys, count := 0\<rparr>)"
proof (induction ys arbitrary: n element ptr kv)
  case (Cons y ys)
  obtain z zs where z: "ys @ [h] = z # zs" by (cases ys) auto
  then have "z \<in> set (ys @ [h])" by simp
  then have pz: "element = y" "ptr = z" "z \<noteq> 0" using Cons.prems(2,7,8) z by (simp, simp, metis append_Cons list.set_intros(2))
  let ?kv = "kv\<lparr>freed := freed kv @ [y], count := n - 1\<rparr>"
  have "ys \<noteq> [] \<longrightarrow> l_next kv z = hd (tl (ys @ [h]))"
  proof
    assume "ys \<noteq> []"
    then obtain w ws where w: "ys = z # ws" "zs = w # tl zs" using z by (cases ys; cases zs) auto
    then have "l_next kv z = l_next kv0 z" using Cons.prems(5) by simp
    with Cons.prems(1) z w show "l_next kv z = hd (tl (ys @ [h]))" by (metis append_Cons linked.simps(1) list.sel(1,3))
  qed
  moreover have "linked (ys @ [h]) kv0" using Cons.prems(1) z by (cases ys) auto
  moreover have "z = hd (ys @ [h])" "count ?kv = length ys" "l_next ?kv = l_next kv" using z Cons.prems(4) by simp_all
  ultimately have "free_loop (length ys) z (l_next kv z) ?kv = Some (?kv\<lparr>freed := freed ?kv @ ys, count := 0\<rparr>)"
    using Cons.prems(2,3,5) by (intro Cons.IH) simp_all
  moreover have "n = Suc (length ys)" using Cons.prems(4) by simp
  ultimately show ?case using pz by (simp add: get_next_def Let_def)
qed simp

lemma free_ok:
  assumes ok: "kv_ok T kv"
  shows "\<exists>kv'. kvlist_free kv = Some kv' \<and> freed kv' = freed kv @ nodes T \<and> kv_ok Tip kv' \<and> list_head kv' = list_head kv"
proof -
  let ?h = "list_head kv" and ?ys = "nodes T"
  have l: "linked (?h # ?ys @ [?h]) kv" "distinct (?h # ?ys)" "0 \<notin> set (?h # ?ys)" and cnt: "count kv = length ?ys"
    using ok by (auto simp: kv_ok_def avl_ok_def is_list_def)
  obtain e zs where e: "?ys @ [?h] = e # zs" by (cases ?ys) auto
  then have "e \<in> set (?ys @ [?h])" by simp
  moreover have z: "0 \<notin> set (?ys @ [?h])" using l(3) by simp
  ultimately have "e \<noteq> 0" by metis
  then have el: "l_next kv ?h = e" "e \<noteq> 0" "linked (e # zs) kv" using l(1) e by auto
  define kv1 where "kv1 = kv\<lparr>l_prev := (l_prev kv)(?h := ?h), l_next := (l_next kv)(?h := ?h), root := 0\<rparr>"
  have "free_loop (count kv) e (l_next kv e) kv1 = Some (kv1\<lparr>freed := freed kv1 @ ?ys, count := 0\<rparr>)"
  proof (rule free_loop_ok [of ?ys ?h kv])
    show "linked (?ys @ [?h]) kv" using el(3) e by simp
    show "0 \<notin> set (?ys @ [?h])" by (rule z)
    show "e = hd (?ys @ [?h])" using e by simp
    show "?ys \<noteq> [] \<longrightarrow> l_next kv e = hd (tl (?ys @ [?h]))" using el(3) e by (cases zs; cases ?ys) auto
  qed (use l(2) cnt in \<open>auto simp: kv1_def\<close>)
  moreover have "kvlist_free kv = free_loop (count kv) e (l_next kv e) kv1"
    using l(3) el by (simp add: kvlist_free_def INIT_LIST_HEAD_def list_access kv1_def)
  moreover have "kv_ok Tip (kv1\<lparr>freed := freed kv1 @ ?ys, count := 0\<rparr>)"
    using ok l(3) by (simp add: kv_ok_def avl_ok_def is_list_def keys_of_def kv1_def)
  ultimately show ?thesis by (simp add: kv1_def)
qed

section \<open>Any sequence of operations\<close>

text \<open>Storing with the address the allocator returns, and deleting.\<close>

datatype 'd kv_op = Put nat string 'd | Drop string

fun kv_exec :: "'d kvlist \<Rightarrow> 'd kv_op \<Rightarrow> 'd kvlist option" where
  "kv_exec kv (Put node name data) = map_option snd (kvlist_set kv node name data)"
| "kv_exec kv (Drop name) = map_option snd (kvlist_delete kv name)"

fun kv_session :: "'d kvlist \<Rightarrow> 'd kv_op list \<Rightarrow> 'd kvlist option" where
  "kv_session kv [] = Some kv"
| "kv_session kv (p # ops) = do { kv \<leftarrow> kv_exec kv p; kv_session kv ops }"

text \<open>The same on a map.\<close>

fun kv_spec :: "(string \<rightharpoonup> 'd) \<Rightarrow> 'd kv_op \<Rightarrow> (string \<rightharpoonup> 'd)" where
  "kv_spec m (Put node name data) = m(name \<mapsto> data)"
| "kv_spec m (Drop name) = m(name := None)"

fun addresses :: "'d kv_op list \<Rightarrow> nat list" where
  "addresses [] = []"
| "addresses (Put node name data # ops) = node # addresses ops"
| "addresses (Drop name # ops) = addresses ops"

lemma kv_ok_distinct: "kv_ok T kv \<Longrightarrow> distinct (nodes T)"
  by (auto simp: kv_ok_def avl_ok_def is_list_def)

lemma mset_split:
  assumes "distinct xs" "distinct ys" "distinct zs" "distinct ws" "set xs \<inter> set ys = {}" "set zs \<inter> set ws = {}"
    "set xs \<union> set ys = set zs \<union> set ws"
  shows "mset xs + mset ys = mset zs + mset ws"
proof -
  have "mset (xs @ ys) = mset (zs @ ws)"
    by (rule set_eq_iff_mset_eq_distinct [THEN iffD1]) (use assms in auto)
  then show ?thesis by simp
qed

lemma kv_change_mset:
  assumes ch: "kv_change (set new) m T kv T' kv'" and ok: "kv_ok T kv" and new: "distinct new" "set new \<inter> set (nodes T) = {}"
  shows "mset (freed kv') + mset (nodes T') = mset (freed kv) + mset (nodes T) + mset new"
proof -
  from ch obtain as where as: "freed kv' = freed kv @ as" "distinct as" "set as \<inter> set (nodes T') = {}"
    "set (nodes T') \<union> set as = set new \<union> set (nodes T)" and ok': "kv_ok T' kv'" by (auto simp: kv_change_def)
  have "mset (nodes T') + mset as = mset new + mset (nodes T)"
    by (rule mset_split) (use as new kv_ok_distinct [OF ok] kv_ok_distinct [OF ok'] in auto)
  then show ?thesis using as(1) by (simp add: add_ac)
qed

lemma session_ok:
  "kv_ok T kv \<Longrightarrow> distinct (addresses ops) \<Longrightarrow> set (addresses ops) \<inter> ({0, list_head kv} \<union> set (nodes T)) = {} \<Longrightarrow>
   \<exists>T' kv'. kv_session kv ops = Some kv' \<and> kv_ok T' kv' \<and> kv_map T' kv' = foldl kv_spec (kv_map T kv) ops \<and>
     mset (freed kv') + mset (nodes T') = mset (freed kv) + mset (nodes T) + mset (addresses ops)"
proof (induction ops arbitrary: T kv)
  case (Cons p ops)
  define new where "new = (case p of Put node name data \<Rightarrow> [node] | Drop name \<Rightarrow> [])"
  have new: "distinct new" "set new \<inter> set (nodes T) = {}" "addresses (p # ops) = new @ addresses ops"
    using Cons.prems(3) by (cases p; simp add: new_def)+
  have "\<exists>T1 kv1. kv_exec kv p = Some kv1 \<and> kv_change (set new) (kv_spec (kv_map T kv) p) T kv T1 kv1"
  proof (cases p)
    case (Put node name data)
    then have "node \<noteq> 0" "node \<notin> set (nodes T)" "node \<noteq> list_head kv" using Cons.prems(3) by auto
    from set_ok [OF Cons.prems(1) this, of name data] show ?thesis
      by (auto simp: Put new_def kvlist_set_def)
  next
    case (Drop name)
    from delete_ok [OF Cons.prems(1), of name] show ?thesis by (auto simp: Drop new_def)
  qed
  then obtain T1 kv1 where x: "kv_exec kv p = Some kv1" and
    ch: "kv_change (set new) (kv_spec (kv_map T kv) p) T kv T1 kv1" by blast
  then have ok1: "kv_ok T1 kv1" "kv_map T1 kv1 = kv_spec (kv_map T kv) p" "list_head kv1 = list_head kv"
    and sub: "set (nodes T1) \<subseteq> set new \<union> set (nodes T)" by (auto simp: kv_change_def)
  note ms = kv_change_mset [OF ch Cons.prems(1) new(1,2)]
  have "distinct (addresses ops)" "set (addresses ops) \<inter> ({0, list_head kv1} \<union> set (nodes T1)) = {}"
    using Cons.prems(2,3) new sub ok1(3) by auto
  from Cons.IH [OF ok1(1) this] obtain T' kv' where
    "kv_session kv1 ops = Some kv'" "kv_ok T' kv'" "kv_map T' kv' = foldl kv_spec (kv_map T1 kv1) ops"
    "mset (freed kv') + mset (nodes T') = mset (freed kv1) + mset (nodes T1) + mset (addresses ops)" by blast
  with x ok1(2) ms new(3) show ?case by (intro exI [of _ T'] exI [of _ kv']) (simp add: add_ac)
qed auto

lemma init_ok:
  assumes "list_head kv \<noteq> 0"
  shows "\<exists>kv'. kvlist_init kv = Some kv' \<and> kv_ok Tip kv' \<and> list_head kv' = list_head kv \<and> freed kv' = freed kv"
  using assms by (simp add: kvlist_init_def avl_init_def INIT_LIST_HEAD_def list_access kv_ok_def avl_ok_def is_list_def keys_of_def)

lemma avl_height: "avl_shape T \<Longrightarrow> 2 ^ (high T div 2) \<le> Suc (length (nodes T))"
proof (induction T)
  case (Bin l a r)
  then have b: "high l \<le> Suc (high r)" "high r \<le> Suc (high l)" by auto
  have mono: "(2::nat) ^ (i div 2) \<le> 2 ^ (j div 2)" if "i \<le> j" for i j
    using that by (intro power_increasing div_le_mono) auto
  show ?case
  proof (cases "high (Bin l a r) \<le> 1")
    case True
    then have "high (Bin l a r) div 2 = 0" by simp
    then show ?thesis by simp
  next
    case False
    then obtain h where h: "high (Bin l a r) = Suc (Suc h)"
      by (metis Suc_leI le_Suc_ex not_less_eq_eq One_nat_def add_2_eq_Suc numeral_2_eq_2 Suc_eq_plus1 not_le)
    with b have "h \<le> high l" "h \<le> high r" by auto
    then have "2 ^ (h div 2) \<le> Suc (length (nodes l))" "2 ^ (h div 2) \<le> Suc (length (nodes r))"
      using Bin mono [of h] by (meson avl_shape.simps(2) le_trans)+
    then have "2 * 2 ^ (h div 2) \<le> Suc (length (nodes (Bin l a r)))" by simp
    moreover have "Suc (Suc h) div 2 = Suc (h div 2)" by simp
    ultimately show ?thesis unfolding h by simp
  qed
qed simp

text \<open>
  C10. Any sequence of stores and deletions on a list that was just made is executed without following
  a null pointer, and the list is then the map that the same sequence makes: every lookup returns what the
  last store under that key put there and null after a deletion.  The tree stays an AVL tree: with
  \<open>n\<close> pairs its height is at most \<open>2 * log 2 (n + 1) + 1\<close>, which is what a lookup takes.  The
  addresses are those of the allocator: none is null, the head's or used twice.
\<close>

theorem kvlist_session:
  assumes "list_head kv0 \<noteq> 0" "distinct (addresses ops)" "0 \<notin> set (addresses ops)" "list_head kv0 \<notin> set (addresses ops)"
  shows "\<exists>kv T. (kvlist_init kv0 \<bind> (\<lambda>kv. kv_session kv ops)) = Some kv \<and> kv_ok T kv \<and>
    (\<forall>name. kvlist_get kv name = Some (foldl kv_spec Map.empty ops name)) \<and> 2 ^ (high T div 2) \<le> count kv + 1"
proof -
  from init_ok [OF assms(1)] obtain kv1 where
    i: "kvlist_init kv0 = Some kv1" "kv_ok Tip kv1" "list_head kv1 = list_head kv0" by blast
  have m: "kv_map Tip kv1 = Map.empty" by (simp add: kv_map_def)
  from session_ok [OF i(2) assms(2)] assms(3,4) i(3) m obtain T kv where
    s: "kv_session kv1 ops = Some kv" "kv_ok T kv" "kv_map T kv = foldl kv_spec Map.empty ops" by auto
  then have "avl_shape T" "count kv = length (nodes T)" by (simp_all add: kv_ok_def avl_ok_def balanced_at_iff)
  with avl_height have "2 ^ (high T div 2) \<le> count kv + 1" by simp
  with i(1) s kvlist_get_ok [OF s(2)] show ?thesis by (intro exI [of _ kv] exI [of _ T]) simp
qed

definition new_kv :: "int kvlist" where
  "new_kv =
     \<lparr>l_next = (\<lambda>a. 0), l_prev = (\<lambda>a. 0), parent = (\<lambda>a. 0), left = (\<lambda>a. 0), right = (\<lambda>a. 0),
      key = (\<lambda>a. []), balance = (\<lambda>a. 0), leader = (\<lambda>a. False), list_head = 10, root = 0, count = 0,
      allow_dups = False, comp = avl_strcmp, node_data = (\<lambda>a. 0), freed = []\<rparr>"

definition sample_ops :: "int kv_op list" where
  "sample_ops = [Put 1 ''a'' 100, Put 2 ''b'' 200, Put 3 ''c'' 300, Drop ''a'', Put 4 ''b'' 201]"

theorem kvlist_session_witness:
  "\<exists>kv. (kvlist_init new_kv \<bind> (\<lambda>kv. kv_session kv sample_ops)) = Some kv \<and> kvlist_get kv ''a'' = Some None \<and>
     kvlist_get kv ''b'' = Some (Some 201) \<and> kvlist_get kv ''c'' = Some (Some 300)"
proof -
  have "list_head new_kv \<noteq> 0" "distinct (addresses sample_ops)" "0 \<notin> set (addresses sample_ops)"
    "list_head new_kv \<notin> set (addresses sample_ops)"
    by (simp_all add: new_kv_def sample_ops_def)
  from kvlist_session [OF this] show ?thesis by (auto simp: sample_ops_def)
qed

text \<open>
  C11. No node is lost and none is freed twice: after any sequence of stores and deletions and the
  release of the list, every block the allocator gave to the list has been freed exactly once.
\<close>

theorem kvlist_no_leak:
  assumes "list_head kv0 \<noteq> 0" "freed kv0 = []" "distinct (addresses ops)" "0 \<notin> set (addresses ops)"
    "list_head kv0 \<notin> set (addresses ops)"
  shows "\<exists>kv. (kvlist_init kv0 \<bind> (\<lambda>kv. kv_session kv ops) \<bind> kvlist_free) = Some kv \<and>
    mset (freed kv) = mset (addresses ops)"
proof -
  from init_ok [OF assms(1)] obtain kv1 where
    i: "kvlist_init kv0 = Some kv1" "kv_ok Tip kv1" "list_head kv1 = list_head kv0" "freed kv1 = freed kv0" by blast
  from session_ok [OF i(2) assms(3)] assms(2,4,5) i(3,4) obtain T kv where
    s: "kv_session kv1 ops = Some kv" "kv_ok T kv" "mset (freed kv) + mset (nodes T) = mset (addresses ops)" by auto
  from free_ok [OF s(2)] obtain kv' where "kvlist_free kv = Some kv'" "freed kv' = freed kv @ nodes T" by blast
  with i(1) s show ?thesis by simp
qed

theorem kvlist_no_leak_witness:
  "\<exists>kv. (kvlist_init new_kv \<bind> (\<lambda>kv. kv_session kv sample_ops) \<bind> kvlist_free) = Some kv \<and>
     mset (freed kv) = {#1, 2, 3, 4#}"
proof -
  have "list_head new_kv \<noteq> 0" "freed new_kv = []" "distinct (addresses sample_ops)" "0 \<notin> set (addresses sample_ops)"
    "list_head new_kv \<notin> set (addresses sample_ops)" "mset (addresses sample_ops) = {#1, 2, 3, 4#}"
    by (simp_all add: new_kv_def sample_ops_def)
  with kvlist_no_leak [of new_kv sample_ops] show ?thesis by metis
qed

end
