(* ===== verification/Posix.thy ===== *)
theory Posix
  imports Prelude "HOL-Library.State_Monad"
begin

text \<open>
  The system and library calls of the process manager and of the client side of
  \<open>os_unix.c\<close>.  A call is appended to the trace of the
  process; what it returns is up to the kernel \<open>K\<close>, a function of the trace so far and the call,
  which every definition that makes calls has as an argument.  A theorem for all \<open>K\<close> holds
  whatever succeeds or fails and whatever the users, files and children are.  Output to the error
  stream and the system log has no effect on the process and is left out.
\<close>

text \<open>The application, the initial script and its query, which the executor gets.\<close>

type_synonym app = "string option \<times> string option \<times> string option"

datatype family = AF_UNIX | AF_INET | AF_INET6

datatype sockaddr =
    Un_addr string
  | In_addr "string option" nat
  | In6_addr string nat

datatype syscall =
    Socket family
  | Connect int sockaddr
  | Unlink string
  | Close int
  | Inet_pton family string
  | Set_reuseaddr int
  | Bind int sockaddr
  | Chmod string int
  | Chown string int int
  | Listen int int
  | Dup2 int int
  | Setsid
  | Open_null
  | Open_excl string
  | Open_trunc string
  | Stat string
  | Fork
  | Select
  | Waitpid int bool
  | Write int string
  | Getpwnam string
  | Getpwuid nat
  | Getgrnam string
  | Umask int
  | Getuid
  | Issetugid
  | Setgid nat
  | Setgroups
  | Initgroups string nat
  | Chroot string
  | Chdir string
  | Setuid nat
  | Access string
  | Executor app int int
  | Gethostbyname string
  | Execl string
  | Fcntl_getfl int
  | Fcntl_setfl int int

text \<open>
  What a call returns: its result and \<open>errno\<close>, and for the calls that fill a structure the
  numbers and the string in it.
\<close>

record reply =
  ret :: int
  err :: int
  val1 :: int
  val2 :: int
  str :: "string option"

type_synonym trace = "syscall list"
type_synonym kernel = "trace \<Rightarrow> syscall \<Rightarrow> reply"
type_synonym 'a io = "(trace, 'a) state"

definition call :: "kernel \<Rightarrow> syscall \<Rightarrow> reply io" where
  "call K c = State (\<lambda>tr. (K tr c, tr @ [c]))"

definition ENOENT :: int where "ENOENT = 2"
definition EINTR_errno :: int where "EINTR_errno = 4"
definition EEXIST :: int where "EEXIST = 17"

text \<open>The value and the final trace of a computation.\<close>

lemma run_call [simp]: "run_state (call K c) tr = (K tr c, tr @ [c])"
  by (simp add: call_def)

section \<open>Numbers in arguments\<close>

text \<open>
  \<open>strtol\<close>: white space, a sign, digits of the base; the value, which saturates at the bounds of
  \<open>long\<close>, and the rest of the string, which is the whole string when there is no digit.  (The prefix
  of base 16 and automatic bases are not used here.)
\<close>

definition digit_value :: "char \<Rightarrow> nat option" where
  "digit_value c =
     (let n = of_char c :: nat in if 48 \<le> n \<and> n \<le> 57 then Some (n - 48) else None)"

fun digits :: "nat \<Rightarrow> string \<Rightarrow> nat \<Rightarrow> nat \<times> string" where
  "digits base [] acc = (acc, [])"
| "digits base (c # cs) acc =
     (case digit_value c of
        Some d \<Rightarrow> if d < base then digits base cs (acc * base + d) else (acc, c # cs)
      | None \<Rightarrow> (acc, c # cs))"

definition LONG_MAX :: int where "LONG_MAX = 9223372036854775807"

definition strtol :: "string \<Rightarrow> nat \<Rightarrow> int \<times> string" where
  "strtol s base =
     (let r = dropWhile isspace s;
          neg = (r \<noteq> [] \<and> hd r = CHR ''-'');
          r = (if r \<noteq> [] \<and> (hd r = CHR ''-'' \<or> hd r = CHR ''+'') then tl r else r);
          (n, rest) = digits base r 0
      in if rest = r then (0, s)
         else (if neg then max (- LONG_MAX - 1) (- int n) else min LONG_MAX (int n), rest))"

text \<open>Conversion of a \<open>long\<close> to the unsigned and the signed C types.\<close>

definition to_u16 :: "int \<Rightarrow> nat" where "to_u16 n = nat (n mod 65536)"
definition to_u32 :: "int \<Rightarrow> nat" where "to_u32 n = nat (n mod 4294967296)"
definition to_i32 :: "int \<Rightarrow> int" where
  "to_i32 n = (n + 2147483648) mod 4294967296 - 2147483648"

end
