(* ===== verification/Fpm.thy ===== *)
theory Fpm
  imports Posix
begin

text \<open>
  The process manager, \<open>hvml-fpm.c\<close>: the listening socket, the user and group, the forking of
  the workers and their supervision, and \<open>main\<close>, on the build with \<open>inet_pton\<close> and IPv6.
  \<open>call_executor\<close> ends in \<open>exit\<close>; a computation that can end the process has a result that
  says so.
\<close>

section \<open>Helpers\<close>

definition read_umask :: "kernel \<Rightarrow> int io" where
  "read_umask K = do {
     um \<leftarrow> call K (Umask 0);
     _ \<leftarrow> call K (Umask (ret um));
     State_Monad.return (ret um)
   }"

text \<open>
  \<open>write_all\<close> goes on after an interrupted call, however many there are; \<open>fuel\<close> bounds the calls, and
  \<open>None\<close> is running out of it.
\<close>

primrec write_all_loop :: "nat \<Rightarrow> kernel \<Rightarrow> int \<Rightarrow> string \<Rightarrow> bool option io" where
  "write_all_loop 0 K fildes buf = State_Monad.return None"
| "write_all_loop (Suc fuel) K fildes buf =
     (if buf = [] then State_Monad.return (Some True)
      else do {
        res \<leftarrow> call K (Write fildes buf);
        if ret res = -1 then
          (if err res \<noteq> EINTR_errno then State_Monad.return (Some False)
           else write_all_loop fuel K fildes buf)
        else write_all_loop fuel K fildes (drop (nat (ret res)) buf)
      })"

definition write_all :: "nat \<Rightarrow> kernel \<Rightarrow> int \<Rightarrow> string \<Rightarrow> int option io" where
  "write_all fuel K fildes buf = do {
     r \<leftarrow> write_all_loop fuel K fildes buf;
     State_Monad.return (map_option (\<lambda>ok. if ok then int (length buf) else -1) r)
   }"

definition sun_path_size :: nat where "sun_path_size = 108"

section \<open>The listening socket\<close>

text \<open>
  The address of a Unix domain socket: something that listens there already is an error, an old
  file is removed.  \<open>None\<close> is \<open>return -1\<close>.
\<close>

definition unix_address :: "kernel \<Rightarrow> string \<Rightarrow> (family \<times> sockaddr) option io" where
  "unix_address K path =
     (if length path > sun_path_size - 1 then State_Monad.return None
      else do {
        fd \<leftarrow> call K (Socket AF_UNIX);
        if ret fd = -1 then State_Monad.return None
        else do {
          c \<leftarrow> call K (Connect (ret fd) (Un_addr path));
          if ret c = 0 then do { _ \<leftarrow> call K (Close (ret fd)); State_Monad.return None }
          else do {
            u \<leftarrow> call K (Unlink path);
            _ \<leftarrow> call K (Close (ret fd));
            State_Monad.return (if ret u = -1 \<and> err u \<noteq> ENOENT then None else Some (AF_UNIX, Un_addr path))
          }
        }
      })"

definition inet_address :: "kernel \<Rightarrow> string option \<Rightarrow> nat \<Rightarrow> (family \<times> sockaddr) option io" where
  "inet_address K addr port =
     (case addr of
        None \<Rightarrow> State_Monad.return (Some (AF_INET, In_addr None port))
      | Some a \<Rightarrow> do {
          r \<leftarrow> call K (Inet_pton AF_INET a);
          if ret r = 1 then State_Monad.return (Some (AF_INET, In_addr (Some a) port))
          else do {
            r \<leftarrow> call K (Inet_pton AF_INET6 a);
            State_Monad.return (if ret r = 1 then Some (AF_INET6, In6_addr a port) else None)
          }
        })"

text \<open>The mode and the owner of the socket file; \<open>True\<close> when that worked.\<close>

definition own_socket :: "kernel \<Rightarrow> string \<Rightarrow> nat \<Rightarrow> nat \<Rightarrow> int \<Rightarrow> bool io" where
  "own_socket K path uid gid mode = do {
     r \<leftarrow> call K (Chmod path mode);
     if ret r = -1 then State_Monad.return False
     else if uid \<noteq> 0 \<or> gid \<noteq> 0 then do {
       r \<leftarrow> call K (Chown path (if uid = 0 then -1 else int uid) (if gid = 0 then -1 else int gid));
       State_Monad.return (ret r \<noteq> -1)
     }
     else State_Monad.return True
   }"

definition bind_socket ::
  "kernel \<Rightarrow> string option \<Rightarrow> nat \<Rightarrow> string option \<Rightarrow> nat \<Rightarrow> nat \<Rightarrow> int \<Rightarrow> int \<Rightarrow> int io" where
  "bind_socket K addr port unixsocket uid gid mode backlog = do {
     target \<leftarrow> (case unixsocket of Some path \<Rightarrow> unix_address K path | None \<Rightarrow> inet_address K addr port);
     case target of
       None \<Rightarrow> State_Monad.return (-1)
     | Some (socket_type, fcgi_addr) \<Rightarrow> do {
         fd \<leftarrow> call K (Socket socket_type);
         if ret fd = -1 then State_Monad.return (-1)
         else do {
           r \<leftarrow> call K (Set_reuseaddr (ret fd));
           if ret r < 0 then do { _ \<leftarrow> call K (Close (ret fd)); State_Monad.return (-1) }
           else do {
             r \<leftarrow> call K (Bind (ret fd) fcgi_addr);
             if ret r = -1 then do { _ \<leftarrow> call K (Close (ret fd)); State_Monad.return (-1) }
             else do {
               ok \<leftarrow> (case unixsocket of Some path \<Rightarrow> own_socket K path uid gid mode | None \<Rightarrow> State_Monad.return True);
               if \<not> ok then do {
                 _ \<leftarrow> call K (Close (ret fd));
                 _ \<leftarrow> call K (Unlink (the unixsocket));
                 State_Monad.return (-1)
               }
               else do {
                 r \<leftarrow> call K (Listen (ret fd) backlog);
                 if ret r = -1 then do {
                   _ \<leftarrow> call K (Close (ret fd));
                   _ \<leftarrow> (case unixsocket of Some path \<Rightarrow> do { _ \<leftarrow> call K (Unlink path); State_Monad.return () }
                        | None \<Rightarrow> State_Monad.return ());
                   State_Monad.return (-1)
                 }
                 else State_Monad.return (ret fd)
               }
             }
           }
         }
       }
   }"

section \<open>Workers\<close>

text \<open>
  How a computation of a process comes back: it returns, or the process has ended with a code.
  \<open>Running\<close> is that a bounded loop has not come to its end.
\<close>

datatype 'a outcome = Returned 'a | Exited int | Running

definition FCGI_LISTENSOCK_FILENO :: int where "FCGI_LISTENSOCK_FILENO = 0"

text \<open>The descriptors from 3 to before \<open>max_fd\<close>.\<close>

fun close_all :: "kernel \<Rightarrow> int list \<Rightarrow> unit io" where
  "close_all K [] = State_Monad.return ()"
| "close_all K (i # is) = do {
     _ \<leftarrow> (if i \<noteq> FCGI_LISTENSOCK_FILENO then do { _ \<leftarrow> call K (Close i); State_Monad.return () }
          else State_Monad.return ());
     close_all K is
   }"

text \<open>\<open>Executor\<close> stands for \<open>hvml_executor\<close>; its result is the exit code.\<close>

definition call_executor :: "kernel \<Rightarrow> app \<Rightarrow> int \<Rightarrow> int \<Rightarrow> 'a outcome io" where
  "call_executor K app fcgi_fd max_executions = do {
     _ \<leftarrow> (if fcgi_fd \<noteq> FCGI_LISTENSOCK_FILENO then do {
         _ \<leftarrow> call K (Close FCGI_LISTENSOCK_FILENO);
         _ \<leftarrow> call K (Dup2 fcgi_fd FCGI_LISTENSOCK_FILENO);
         _ \<leftarrow> call K (Close fcgi_fd);
         State_Monad.return ()
       } else State_Monad.return ());
     _ \<leftarrow> call K Setsid;
     fd \<leftarrow> call K Open_null;
     let max_fd = ret fd;
     _ \<leftarrow> (if max_fd \<noteq> -1 then do {
         _ \<leftarrow> (if max_fd \<noteq> 1 then do { _ \<leftarrow> call K (Dup2 max_fd 1); State_Monad.return () } else State_Monad.return ());
         _ \<leftarrow> (if max_fd \<noteq> 2 then do { _ \<leftarrow> call K (Dup2 max_fd 2); State_Monad.return () } else State_Monad.return ());
         if max_fd \<noteq> 1 \<and> max_fd \<noteq> 2 then do { _ \<leftarrow> call K (Close max_fd); State_Monad.return () }
         else State_Monad.return ()
       } else State_Monad.return ());
     _ \<leftarrow> close_all K [3..max_fd - 1];
     r \<leftarrow> call K (Executor app FCGI_LISTENSOCK_FILENO max_executions);
     State_Monad.return (Exited (ret r))
   }"

text \<open>
  The status of a child as \<open>waitpid\<close> stores it: the macros of \<open>sys/wait.h\<close> on Linux.
\<close>

definition WIFEXITED :: "int \<Rightarrow> bool" where "WIFEXITED status \<longleftrightarrow> status AND 127 = 0"
definition WEXITSTATUS :: "int \<Rightarrow> int" where "WEXITSTATUS status = drop_bit 8 (status AND 65280)"
definition WIFSIGNALED :: "int \<Rightarrow> bool" where
  "WIFSIGNALED status \<longleftrightarrow> 0 < status AND 127 \<and> status AND 127 < 127"

definition child_rc :: "int \<Rightarrow> int" where
  "child_rc status =
     (if WIFEXITED status then WEXITSTATUS status else if WIFSIGNALED status then 1 else status)"

text \<open>The decimal digits of a process id, with the line end of the PID file.\<close>

fun nat_digits :: "nat \<Rightarrow> string" where
  "nat_digits n = (if n < 10 then [char_of (48 + n)] else nat_digits (n div 10) @ [char_of (48 + n mod 10)])"

declare nat_digits.simps [simp del]

definition pid_line :: "int \<Rightarrow> string" where
  "pid_line pid = nat_digits (nat pid) @ [CHR 0x0A]"

text \<open>
  One round: a child is forked, and the parent looks once, 100 ms later, whether it is still
  there.  Results: the return code so far, and the PID file, -1 once writing it has failed.
\<close>

definition spawn_one :: "nat \<Rightarrow> kernel \<Rightarrow> app \<Rightarrow> int \<Rightarrow> int \<Rightarrow> int \<Rightarrow> int \<Rightarrow> (int \<times> int) outcome io" where
  "spawn_one fuel K app fcgi_fd pid_fd max_executions rc = do {
     child \<leftarrow> call K Fork;
     if ret child = 0 then call_executor K app fcgi_fd max_executions
     else if ret child > 0 then do {
       _ \<leftarrow> call K Select;
       w \<leftarrow> call K (Waitpid (ret child) True);
       if ret w = 0 then
         (if pid_fd \<noteq> -1 then do {
            r \<leftarrow> write_all fuel K pid_fd (pid_line (ret child));
            if r = None then State_Monad.return Running
            else if r = Some (-1) then do { _ \<leftarrow> call K (Close pid_fd); State_Monad.return (Returned (rc, -1)) }
            else State_Monad.return (Returned (rc, pid_fd))
          } else State_Monad.return (Returned (rc, pid_fd)))
       else if ret w = -1 then State_Monad.return (Returned (rc, pid_fd))
       else State_Monad.return (Returned (child_rc (val1 w), pid_fd))
     }
     else State_Monad.return (Returned (-1, pid_fd))
   }"

primrec spawn_loop :: "nat \<Rightarrow> kernel \<Rightarrow> app \<Rightarrow> int \<Rightarrow> nat \<Rightarrow> int \<Rightarrow> int \<Rightarrow> int \<Rightarrow> int outcome io" where
  "spawn_loop fuel K app fcgi_fd 0 pid_fd max_executions rc = State_Monad.return (Returned rc)"
| "spawn_loop fuel K app fcgi_fd (Suc n) pid_fd max_executions rc = do {
     r \<leftarrow> spawn_one fuel K app fcgi_fd pid_fd max_executions rc;
     case r of
       Exited code \<Rightarrow> State_Monad.return (Exited code)
     | Running \<Rightarrow> State_Monad.return Running
     | Returned (rc, pid_fd) \<Rightarrow> spawn_loop fuel K app fcgi_fd n pid_fd max_executions rc
   }"

definition fcgi_spawn_connection :: "nat \<Rightarrow> kernel \<Rightarrow> app \<Rightarrow> int \<Rightarrow> int \<Rightarrow> int \<Rightarrow> int \<Rightarrow> int outcome io" where
  "fcgi_spawn_connection fuel K app fcgi_fd fork_count pid_fd max_executions =
     (if fork_count > 0 then spawn_loop fuel K app fcgi_fd (nat fork_count) pid_fd max_executions 0
      else call_executor K app fcgi_fd max_executions)"

section \<open>Users and groups\<close>

text \<open>
  \<open>uid_t\<close> and \<open>gid_t\<close> are unsigned 32-bit numbers; \<open>strtol\<close> is converted.  \<open>getpwnam\<close> and its
  like return whether there is an entry (\<open>ret\<close>), with the ids in \<open>val1\<close> and \<open>val2\<close>.  \<open>None\<close>
  is \<open>return -1\<close>; the result is the user, the group and the user's name.
\<close>

definition find_user ::
  "kernel \<Rightarrow> string option \<Rightarrow> (nat \<times> (nat \<times> nat) option \<times> string option) option io" where
  "find_user K user =
     (case user of
        None \<Rightarrow> State_Monad.return (Some (0, None, None))
      | Some u \<Rightarrow>
          (let (n, rest) = strtol u 10; my_uid = to_u32 n
           in if my_uid = 0 \<or> rest \<noteq> [] then do {
                pw \<leftarrow> call K (Getpwnam u);
                State_Monad.return
                  (if ret pw = 0 \<or> to_u32 (val1 pw) = 0 then None
                   else Some (to_u32 (val1 pw), Some (to_u32 (val1 pw), to_u32 (val2 pw)), Some u))
              }
              else do {
                pw \<leftarrow> call K (Getpwuid my_uid);
                State_Monad.return
                  (if ret pw = 0 then Some (my_uid, None, None)
                   else Some (my_uid, Some (to_u32 (val1 pw), to_u32 (val2 pw)), str pw))
              }))"

definition find_group :: "kernel \<Rightarrow> string option \<Rightarrow> (nat \<times> nat) option \<Rightarrow> nat option io" where
  "find_group K grp my_pwd =
     (case grp of
        Some g \<Rightarrow>
          (let (n, rest) = strtol g 10; my_gid = to_u32 n
           in if my_gid = 0 \<or> rest \<noteq> [] then do {
                gr \<leftarrow> call K (Getgrnam g);
                State_Monad.return (if ret gr = 0 \<or> to_u32 (val1 gr) = 0 then None else Some (to_u32 (val1 gr)))
              }
              else State_Monad.return (Some my_gid))
      | None \<Rightarrow>
          (case my_pwd of
             Some (_, gid) \<Rightarrow> State_Monad.return (if gid = 0 then None else Some gid)
           | None \<Rightarrow> State_Monad.return (Some 0)))"

definition find_user_group ::
  "kernel \<Rightarrow> string option \<Rightarrow> string option \<Rightarrow> (nat \<times> nat \<times> string option) option io" where
  "find_user_group K user grp = do {
     u \<leftarrow> find_user K user;
     case u of
       None \<Rightarrow> State_Monad.return None
     | Some (uid, pwd, name) \<Rightarrow> do {
         g \<leftarrow> find_group K grp pwd;
         State_Monad.return (case g of None \<Rightarrow> None | Some gid \<Rightarrow> Some (uid, gid, name))
       }
   }"

section \<open>The daemon\<close>

text \<open>The parent leaves with \<open>_exit(0)\<close>; the results are 0 and -1.\<close>

definition daemonize :: "kernel \<Rightarrow> int outcome io" where
  "daemonize K = do {
     fd \<leftarrow> call K Open_null;
     if ret fd < 0 then State_Monad.return (Returned (-1))
     else do {
       r0 \<leftarrow> call K (Dup2 (ret fd) 0);
       failed \<leftarrow> (if ret r0 < 0 then State_Monad.return True
         else do {
           r1 \<leftarrow> call K (Dup2 (ret fd) 1);
           if ret r1 < 0 then State_Monad.return True
           else do { r2 \<leftarrow> call K (Dup2 (ret fd) 2); State_Monad.return (ret r2 < 0) }
         });
       _ \<leftarrow> call K (Close (ret fd));
       if failed then State_Monad.return (Returned (-1))
       else do {
         pid \<leftarrow> call K Fork;
         if ret pid < 0 then State_Monad.return (Returned (-1))
         else if ret pid > 0 then State_Monad.return (Exited 0)
         else do {
           s \<leftarrow> call K Setsid;
           State_Monad.return (Returned (if ret s < 0 then -1 else 0))
         }
       }
     }
   }"

section \<open>Supervision\<close>

definition EXIT_SUCCESS :: int where "EXIT_SUCCESS = 0"
definition EXIT_FAILURE :: int where "EXIT_FAILURE = 1"
definition EXIT_RETRY :: int where "EXIT_RETRY = 1"

text \<open>
  The loop of \<open>main\<close>: wait for a child; one that exited, but not with \<open>EXIT_FAILURE\<close>, is
  replaced.  The loop ends when waiting fails or a replacement fails.  \<open>rounds\<close> bounds the children
  that are waited for, and \<open>Running\<close> is that the loop goes on.
\<close>

primrec supervise :: "nat \<Rightarrow> nat \<Rightarrow> kernel \<Rightarrow> app \<Rightarrow> int \<Rightarrow> int \<Rightarrow> int \<Rightarrow> int \<Rightarrow> int outcome io" where
  "supervise 0 fuel K app fcgi_fd pid_fd max_executions rc = State_Monad.return Running"
| "supervise (Suc rounds) fuel K app fcgi_fd pid_fd max_executions rc = do {
     w \<leftarrow> call K (Waitpid (-1) False);
     if ret w = -1 then State_Monad.return (Returned rc)
     else if WIFEXITED (val1 w) \<and> WEXITSTATUS (val1 w) \<noteq> EXIT_FAILURE then do {
       r \<leftarrow> fcgi_spawn_connection fuel K app fcgi_fd 1 pid_fd max_executions;
       case r of
         Exited code \<Rightarrow> State_Monad.return (Exited code)
     | Running \<Rightarrow> State_Monad.return Running
       | Returned rc \<Rightarrow>
           if rc \<noteq> 0 then State_Monad.return (Returned rc)
           else supervise rounds fuel K app fcgi_fd pid_fd max_executions rc
     }
     else supervise rounds fuel K app fcgi_fd pid_fd max_executions rc
   }"

section \<open>Options\<close>

text \<open>
  The options as \<open>getopt\<close> delivers them, letter and argument; the letters of the option string with a
  colon have one.
\<close>

record options =
  hvml_app :: "string option"
  init_script :: "string option"
  script_query :: "string option"
  changeroot :: "string option"
  username :: "string option"
  groupname :: "string option"
  unixsocket :: "string option"
  pid_file :: "string option"
  sockusername :: "string option"
  sockgroupname :: "string option"
  fcgi_dir :: "string option"
  addr :: "string option"
  port :: nat
  sockmode :: int
  fork_count :: int
  max_executions :: int
  backlog :: int
  sockbeforechroot :: bool

definition default_options :: "int \<Rightarrow> options" where
  "default_options um =
     \<lparr>hvml_app = None, init_script = None, script_query = None, changeroot = None, username = None,
      groupname = None, unixsocket = None, pid_file = None, sockusername = None, sockgroupname = None,
      fcgi_dir = None, addr = None, port = 0, sockmode = 432 AND NOT um, fork_count = 0,
      max_executions = 1000, backlog = 1024, sockbeforechroot = False\<rparr>"

text \<open>One option: the changed options, or \<open>Inl\<close> and the value \<open>main\<close> returns at once.\<close>

definition set_option :: "bool \<Rightarrow> char \<Rightarrow> string \<Rightarrow> options \<Rightarrow> int + options" where
  "set_option i_am_root o1 arg os =
     (if o1 = CHR ''A'' then Inr (os\<lparr>hvml_app := Some arg\<rparr>)
      else if o1 = CHR ''i'' then Inr (os\<lparr>init_script := Some arg\<rparr>)
      else if o1 = CHR ''q'' then Inr (os\<lparr>script_query := Some arg\<rparr>)
      else if o1 = CHR ''d'' then Inr (os\<lparr>fcgi_dir := Some arg\<rparr>)
      else if o1 = CHR ''a'' then Inr (os\<lparr>addr := Some arg\<rparr>)
      else if o1 = CHR ''p'' then
        (let (n, rest) = strtol arg 10 in if rest \<noteq> [] then Inl (-1) else Inr (os\<lparr>port := to_u16 n\<rparr>))
      else if o1 = CHR ''F'' then Inr (os\<lparr>fork_count := to_i32 (fst (strtol arg 10))\<rparr>)
      else if o1 = CHR ''e'' then Inr (os\<lparr>max_executions := to_i32 (fst (strtol arg 10))\<rparr>)
      else if o1 = CHR ''b'' then Inr (os\<lparr>backlog := to_i32 (fst (strtol arg 10))\<rparr>)
      else if o1 = CHR ''s'' then Inr (os\<lparr>unixsocket := Some arg\<rparr>)
      else if o1 = CHR ''c'' then Inr (if i_am_root then os\<lparr>changeroot := Some arg\<rparr> else os)
      else if o1 = CHR ''u'' then Inr (if i_am_root then os\<lparr>username := Some arg\<rparr> else os)
      else if o1 = CHR ''g'' then Inr (if i_am_root then os\<lparr>groupname := Some arg\<rparr> else os)
      else if o1 = CHR ''U'' then Inr (if i_am_root then os\<lparr>sockusername := Some arg\<rparr> else os)
      else if o1 = CHR ''G'' then Inr (if i_am_root then os\<lparr>sockgroupname := Some arg\<rparr> else os)
      else if o1 = CHR ''S'' then Inr (if i_am_root then os\<lparr>sockbeforechroot := True\<rparr> else os)
      else if o1 = CHR ''M'' then Inr (os\<lparr>sockmode := int (to_u32 (fst (strtol arg 8)))\<rparr>)
      else if o1 = CHR ''P'' then Inr (os\<lparr>pid_file := Some arg\<rparr>)
      else if o1 = CHR ''v'' \<or> o1 = CHR ''?'' \<or> o1 = CHR ''h'' then Inl 0
      else Inl (-1))"

primrec set_options :: "bool \<Rightarrow> (char \<times> string) list \<Rightarrow> options \<Rightarrow> int + options" where
  "set_options i_am_root [] os = Inr os"
| "set_options i_am_root (x # xs) os =
     (case set_option i_am_root (fst x) (snd x) os of Inl r \<Rightarrow> Inl r | Inr os \<Rightarrow> set_options i_am_root xs os)"

text \<open>What \<open>main\<close> checks before it does anything.\<close>

definition options_ok :: "options \<Rightarrow> bool" where
  "options_ok os \<longleftrightarrow> hvml_app os \<noteq> None \<and> \<not> (port os = 0 \<and> unixsocket os = None) \<and>
     \<not> (port os \<noteq> 0 \<and> unixsocket os \<noteq> None) \<and>
     (case unixsocket os of Some path \<Rightarrow> length path \<le> sun_path_size - 1 | None \<Rightarrow> True)"

section \<open>Main\<close>

text \<open>
  The PID file: created, or, when it exists and is a regular file (\<open>val1\<close> of the reply to \<open>Stat\<close> is
  1), truncated.  \<open>None\<close> is \<open>return -1\<close>, \<open>Some (-1)\<close> that there is none.
\<close>

definition open_pid_file :: "kernel \<Rightarrow> string option \<Rightarrow> int option io" where
  "open_pid_file K file =
     (case file of
        None \<Rightarrow> State_Monad.return (Some (-1))
      | Some f \<Rightarrow> do {
          r \<leftarrow> call K (Open_excl f);
          if ret r \<noteq> -1 then State_Monad.return (Some (ret r))
          else if err r \<noteq> EEXIST then State_Monad.return None
          else do {
            s \<leftarrow> call K (Stat f);
            if ret s \<noteq> 0 \<or> val1 s \<noteq> 1 then State_Monad.return None
            else do {
              r \<leftarrow> call K (Open_trunc f);
              State_Monad.return (if ret r = -1 then None else Some (ret r))
            }
          }
        })"

text \<open>The group, before the root directory is changed; \<open>True\<close> when every step worked.\<close>

definition drop_group :: "kernel \<Rightarrow> nat \<Rightarrow> string option \<Rightarrow> bool io" where
  "drop_group K gid real_username =
     (if gid = 0 then State_Monad.return True
      else do {
        r \<leftarrow> call K (Setgid gid);
        if ret r = -1 then State_Monad.return False
        else do {
          r \<leftarrow> call K Setgroups;
          if ret r = -1 then State_Monad.return False
          else (case real_username of
              None \<Rightarrow> State_Monad.return True
            | Some u \<Rightarrow> do { r \<leftarrow> call K (Initgroups u gid); State_Monad.return (ret r \<noteq> -1) })
        }
      })"

definition change_root :: "kernel \<Rightarrow> string option \<Rightarrow> bool io" where
  "change_root K dir =
     (case dir of
        None \<Rightarrow> State_Monad.return True
      | Some d \<Rightarrow> do {
          r \<leftarrow> call K (Chroot d);
          if ret r = -1 then State_Monad.return False
          else do { r \<leftarrow> call K (Chdir [CHR 0x2F]); State_Monad.return (ret r \<noteq> -1) }
        })"

definition drop_user :: "kernel \<Rightarrow> nat \<Rightarrow> bool io" where
  "drop_user K uid =
     (if uid = 0 then State_Monad.return True
      else do { r \<leftarrow> call K (Setuid uid); State_Monad.return (ret r \<noteq> -1) })"

text \<open>What root does: the socket before or after the root directory is changed, then the privileges go.\<close>

definition prepare_root :: "kernel \<Rightarrow> options \<Rightarrow> int option io" where
  "prepare_root K os = do {
     u \<leftarrow> find_user_group K (username os) (groupname os);
     case u of
       None \<Rightarrow> State_Monad.return None
     | Some (uid, gid, real_username) \<Rightarrow> do {
         su \<leftarrow> find_user_group K (sockusername os) (sockgroupname os);
         case su of
           None \<Rightarrow> State_Monad.return None
         | Some (sockuid, sockgid, _) \<Rightarrow> do {
             let sockuid = (if sockuid = 0 then uid else sockuid);
             let sockgid = (if sockgid = 0 then gid else sockgid);
             fd1 \<leftarrow> (if sockbeforechroot os
               then bind_socket K (addr os) (port os) (unixsocket os) sockuid sockgid (sockmode os) (backlog os)
               else State_Monad.return (-1));
             if sockbeforechroot os \<and> fd1 = -1 then State_Monad.return None
             else do {
               g \<leftarrow> drop_group K gid real_username;
               if \<not> g then State_Monad.return None
               else do {
                 c \<leftarrow> change_root K (changeroot os);
                 if \<not> c then State_Monad.return None
                 else do {
                   fd2 \<leftarrow> (if sockbeforechroot os then State_Monad.return fd1
                     else bind_socket K (addr os) (port os) (unixsocket os) sockuid sockgid (sockmode os) (backlog os));
                   if \<not> sockbeforechroot os \<and> fd2 = -1 then State_Monad.return None
                   else do {
                     d \<leftarrow> drop_user K uid;
                     State_Monad.return (if d then Some fd2 else None)
                   }
                 }
               }
             }
           }
       }
   }"

definition prepare :: "kernel \<Rightarrow> bool \<Rightarrow> options \<Rightarrow> int option io" where
  "prepare K i_am_root os =
     (if i_am_root then prepare_root K os
      else do {
        fd \<leftarrow> bind_socket K (addr os) (port os) (unixsocket os) 0 0 (sockmode os) (backlog os);
        State_Monad.return (if fd = -1 then None else Some fd)
      })"

text \<open>The working directory and the script that runs first.\<close>

definition check_paths :: "kernel \<Rightarrow> options \<Rightarrow> bool io" where
  "check_paths K os = do {
     d \<leftarrow> (case fcgi_dir os of None \<Rightarrow> State_Monad.return True
        | Some dir \<Rightarrow> do { r \<leftarrow> call K (Chdir dir); State_Monad.return (ret r \<noteq> -1) });
     if \<not> d then State_Monad.return False
     else (case init_script os of None \<Rightarrow> State_Monad.return True
        | Some f \<Rightarrow> do { r \<leftarrow> call K (Access f); State_Monad.return (ret r = 0) })
   }"

definition app_of :: "options \<Rightarrow> app" where
  "app_of os = (hvml_app os, init_script os, script_query os)"

text \<open>From the daemon on: the workers, their supervision, and the end.\<close>

definition serve ::
  "nat \<Rightarrow> nat \<Rightarrow> kernel \<Rightarrow> options \<Rightarrow> int \<Rightarrow> int \<Rightarrow> int outcome io" where
  "serve rounds fuel K os fcgi_fd pid_fd = do {
     d \<leftarrow> (if fork_count os > 0 then daemonize K else State_Monad.return (Returned 0));
     case d of
       Exited code \<Rightarrow> State_Monad.return (Exited code)
     | Running \<Rightarrow> State_Monad.return Running
     | Returned r \<Rightarrow>
         if r \<noteq> 0 then State_Monad.return (Returned (-1))
         else do {
           s \<leftarrow> fcgi_spawn_connection fuel K (app_of os) fcgi_fd (fork_count os) pid_fd (max_executions os);
           case s of
             Exited code \<Rightarrow> State_Monad.return (Exited code)
     | Running \<Rightarrow> State_Monad.return Running
           | Returned rc \<Rightarrow> do {
               e \<leftarrow> (if rc \<noteq> 0 then State_Monad.return (Returned rc)
                  else supervise rounds fuel K (app_of os) fcgi_fd pid_fd (max_executions os) rc);
               case e of
                 Returned rc \<Rightarrow> do {
                   _ \<leftarrow> (if pid_fd \<noteq> -1 then do { _ \<leftarrow> call K (Close pid_fd); State_Monad.return () }
                        else State_Monad.return ());
                   _ \<leftarrow> call K (Close fcgi_fd);
                   State_Monad.return (Returned rc)
                 }
               | x \<Rightarrow> State_Monad.return x
             }
         }
   }"

text \<open>\<open>main\<close> after its options are read.\<close>

definition main_with :: "nat \<Rightarrow> nat \<Rightarrow> kernel \<Rightarrow> bool \<Rightarrow> options \<Rightarrow> int outcome io" where
  "main_with rounds fuel K i_am_root os =
     (if \<not> options_ok os then State_Monad.return (Returned (-1))
      else do {
        sid \<leftarrow> (if i_am_root then State_Monad.return False
           else do { r \<leftarrow> call K Issetugid; State_Monad.return (ret r \<noteq> 0) });
        if sid then State_Monad.return (Returned (-1))
        else do {
          pid_fd \<leftarrow> open_pid_file K (pid_file os);
          case pid_fd of
            None \<Rightarrow> State_Monad.return (Returned (-1))
          | Some pid_fd \<Rightarrow> do {
              fcgi_fd \<leftarrow> prepare K i_am_root os;
              case fcgi_fd of
                None \<Rightarrow> State_Monad.return (Returned (-1))
              | Some fcgi_fd \<Rightarrow> do {
                  ok \<leftarrow> check_paths K os;
                  if ok then serve rounds fuel K os fcgi_fd pid_fd
                  else State_Monad.return (Returned (-1))
                }
            }
        }
      })"

definition main :: "nat \<Rightarrow> nat \<Rightarrow> kernel \<Rightarrow> (char \<times> string) list \<Rightarrow> int outcome io" where
  "main rounds fuel K opts = do {
     um \<leftarrow> read_umask K;
     if opts = [] then State_Monad.return (Returned (-1))
     else do {
       u \<leftarrow> call K Getuid;
       case set_options (ret u = 0) opts (default_options um) of
         Inl r \<Rightarrow> State_Monad.return (Returned r)
       | Inr os \<Rightarrow> main_with rounds fuel K (ret u = 0) os
     }
   }"

end
