(* ===== verification/Fpm_Laws.thy ===== *)
theory Fpm_Laws
  imports Fpm
begin

text \<open>
  What the process manager keeps to, whatever the system calls return: descriptors are closed on
  every error path, privileges go in the right order and a process that is not root never touches
  them, a named user is never root, and one worker is forked for one that exited.
\<close>

section \<open>What a computation adds to the trace\<close>

text \<open>The calls of a trace with their replies.\<close>

definition log :: "kernel \<Rightarrow> trace \<Rightarrow> (syscall \<times> reply) list" where
  "log K tr = map (\<lambda>i. (tr ! i, K (take i tr) (tr ! i))) [0..<length tr]"

lemma log_Nil [simp]: "log K [] = []"
  by (simp add: log_def)

lemma log_snoc [simp]: "log K (tr @ [c]) = log K tr @ [(c, K tr c)]"
  by (auto simp: log_def nth_append)

lemma map_fst_log: "map fst (log K tr) = tr"
  by (induction tr rule: rev_induct) simp_all

text \<open>A computation makes no call in \<open>P\<close>.\<close>

definition quiet :: "(syscall \<Rightarrow> bool) \<Rightarrow> 'a io \<Rightarrow> bool" where
  "quiet P m \<longleftrightarrow> (\<forall>tr. \<exists>ext. snd (run_state m tr) = tr @ ext \<and> filter P ext = [])"

named_theorems quiet_intros

lemma quiet_return [quiet_intros]: "quiet P (State_Monad.return x)"
  by (simp add: quiet_def)

lemma quiet_call [quiet_intros]: "\<not> P c \<Longrightarrow> quiet P (call K c)"
  by (simp add: quiet_def)

lemma quiet_bind [quiet_intros]:
  assumes "quiet P m" "\<And>x. quiet P (f x)"
  shows "quiet P (State_Monad.bind m f)"
  unfolding quiet_def
proof
  fix tr
  obtain x tr1 where m: "run_state m tr = (x, tr1)" by (cases "run_state m tr")
  moreover obtain e1 where "tr1 = tr @ e1" "filter P e1 = []"
    using assms(1) m unfolding quiet_def by (metis snd_conv)
  moreover obtain e2 where "snd (run_state (f x) tr1) = tr1 @ e2" "filter P e2 = []"
    using assms(2) unfolding quiet_def by blast
  ultimately show "\<exists>ext. snd (run_state (State_Monad.bind m f) tr) = tr @ ext \<and> filter P ext = []"
    by (intro exI [of _ "e1 @ e2"]) simp
qed

lemma quiet_if [quiet_intros]: "(b \<Longrightarrow> quiet P m) \<Longrightarrow> (\<not> b \<Longrightarrow> quiet P n) \<Longrightarrow> quiet P (if b then m else n)"
  by simp

lemma quiet_let [quiet_intros]: "(\<And>x. quiet P (f x)) \<Longrightarrow> quiet P (Let v f)"
  by simp

lemma quiet_option [quiet_intros]:
  "quiet P m \<Longrightarrow> (\<And>x. quiet P (f x)) \<Longrightarrow> quiet P (case v of None \<Rightarrow> m | Some x \<Rightarrow> f x)"
  by (simp split: option.split)

lemma quiet_prod [quiet_intros]: "(\<And>x y. quiet P (f x y)) \<Longrightarrow> quiet P (case v of (x, y) \<Rightarrow> f x y)"
  by (simp split: prod.split)

lemma quiet_outcome [quiet_intros]:
  "(\<And>x. quiet P (f x)) \<Longrightarrow> (\<And>c. quiet P (g c)) \<Longrightarrow> quiet P m \<Longrightarrow>
   quiet P (case v of Returned x \<Rightarrow> f x | Exited c \<Rightarrow> g c | Running \<Rightarrow> m)"
  by (simp split: outcome.split)

lemma quietD: "quiet P m \<Longrightarrow> run_state m tr = (x, tr') \<Longrightarrow> filter P tr' = filter P tr"
  unfolding quiet_def by (metis append_Nil2 filter_append snd_conv)

lemma filter_log_append: "filter P ext = [] \<Longrightarrow> filter (P \<circ> fst) (log K (tr @ ext)) = filter (P \<circ> fst) (log K tr)"
  by (induction ext rule: rev_induct) (auto simp flip: append_assoc split: if_splits)

lemma quiet_log:
  "quiet P m \<Longrightarrow> run_state m tr = (x, tr') \<Longrightarrow> filter (P \<circ> fst) (log K tr') = filter (P \<circ> fst) (log K tr)"
  unfolding quiet_def using filter_log_append by (metis snd_conv)

lemma run_bindE:
  assumes "run_state (State_Monad.bind m f) tr = (y, tr')"
  obtains x tr1 where "run_state m tr = (x, tr1)" "run_state (f x) tr1 = (y, tr')"
  using assms by (cases "run_state m tr") simp

section \<open>Privileges\<close>

fun privileged :: "syscall \<Rightarrow> bool" where
  "privileged (Setgid g) = True"
| "privileged Setgroups = True"
| "privileged (Initgroups u g) = True"
| "privileged (Chroot d) = True"
| "privileged (Setuid u) = True"
| "privileged c = False"

lemma unix_address_quiet [quiet_intros]: "quiet privileged (unix_address K path)"
  unfolding unix_address_def by (intro quiet_intros) simp_all

lemma inet_address_quiet [quiet_intros]: "quiet privileged (inet_address K a n)"
  unfolding inet_address_def by (intro quiet_intros) simp_all

lemma own_socket_quiet [quiet_intros]: "quiet privileged (own_socket K path uid gid mode)"
  unfolding own_socket_def by (intro quiet_intros) simp_all

lemma bind_socket_quiet [quiet_intros]: "quiet privileged (bind_socket K a n u uid gid mode len)"
  unfolding bind_socket_def by (intro quiet_intros) simp_all

lemma close_all_quiet [quiet_intros]: "quiet privileged (close_all K is)"
  by (induction "is") (auto intro!: quiet_intros)

lemma call_executor_quiet [quiet_intros]: "quiet privileged (call_executor K app fd n)"
  unfolding call_executor_def by (intro quiet_intros) simp_all

lemma write_all_loop_quiet [quiet_intros]: "quiet privileged (write_all_loop fuel K fd buf)"
  by (induction fuel arbitrary: buf) (auto intro!: quiet_intros)

lemma write_all_quiet [quiet_intros]: "quiet privileged (write_all fuel K fd buf)"
  unfolding write_all_def by (intro quiet_intros)

lemma spawn_one_quiet [quiet_intros]: "quiet privileged (spawn_one fuel K app fd pid_fd n rc)"
  unfolding spawn_one_def by (intro quiet_intros) simp_all

lemma spawn_loop_quiet [quiet_intros]: "quiet privileged (spawn_loop fuel K app fd m pid_fd n rc)"
  by (induction m arbitrary: pid_fd rc) (auto intro!: quiet_intros)

lemma fcgi_spawn_connection_quiet [quiet_intros]: "quiet privileged (fcgi_spawn_connection fuel K app fd m pid_fd n)"
  unfolding fcgi_spawn_connection_def by (intro quiet_intros)

lemma supervise_quiet [quiet_intros]: "quiet privileged (supervise rounds fuel K app fd pid_fd n rc)"
  by (induction rounds arbitrary: rc) (auto intro!: quiet_intros)

lemma daemonize_quiet [quiet_intros]: "quiet privileged (daemonize K)"
  unfolding daemonize_def by (intro quiet_intros) simp_all

lemma serve_quiet [quiet_intros]: "quiet privileged (serve rounds fuel K os fd pid_fd)"
  unfolding serve_def by (intro quiet_intros) simp_all

lemma find_user_quiet [quiet_intros]: "quiet privileged (find_user K u)"
  unfolding find_user_def by (intro quiet_intros) simp_all

lemma find_group_quiet [quiet_intros]: "quiet privileged (find_group K g pw)"
  unfolding find_group_def by (intro quiet_intros) simp_all

lemma find_user_group_quiet [quiet_intros]: "quiet privileged (find_user_group K u g)"
  unfolding find_user_group_def by (intro quiet_intros)

lemma open_pid_file_quiet [quiet_intros]: "quiet privileged (open_pid_file K f)"
  unfolding open_pid_file_def by (intro quiet_intros) simp_all

lemma check_paths_quiet [quiet_intros]: "quiet privileged (check_paths K os)"
  unfolding check_paths_def by (intro quiet_intros) simp_all

lemma read_umask_quiet [quiet_intros]: "quiet privileged (read_umask K)"
  unfolding read_umask_def by (intro quiet_intros) simp_all

lemma options_unprivileged:
  "set_options False opts os = Inr os' \<Longrightarrow>
   changeroot os' = changeroot os \<and> username os' = username os \<and> groupname os' = groupname os"
proof (induction opts arbitrary: os)
  case (Cons x xs)
  then show ?case
    by (auto simp: set_option_def Let_def split: sum.splits if_splits prod.splits)
qed simp

lemma main_with_quiet: "quiet privileged (main_with rounds fuel K False os)"
proof -
  have "quiet privileged (prepare K False os)" for os
    unfolding prepare_def by (auto intro!: quiet_intros)
  note [quiet_intros] = this
  show ?thesis
    unfolding main_with_def by (auto intro!: quiet_intros)
qed

text \<open>
  C25. A process manager that is not root makes none of the calls that change privileges, whatever the
  options ask for: it does not change its group, its root directory or its user.
\<close>

theorem not_root_no_privileges:
  assumes "ret (K [Umask 0, Umask (ret (K [] (Umask 0)))] Getuid) \<noteq> 0"
  shows "filter privileged (snd (run_state (main rounds fuel K opts) [])) = []"
  using assms quietD [OF main_with_quiet]
  by (auto simp: main_def read_umask_def split: sum.split)
     (metis filter.simps privileged.simps prod.collapse)

text \<open>The witness: a kernel on which every call works, for user 1000.\<close>

definition ok_kernel :: "int \<Rightarrow> kernel" where
  "ok_kernel uid tr c =
     (case c of
        Getuid \<Rightarrow> \<lparr>ret = uid, err = 0, val1 = 0, val2 = 0, str = None\<rparr>
      | Getpwnam u \<Rightarrow> \<lparr>ret = 1, err = 0, val1 = 33, val2 = 33, str = Some u\<rparr>
      | Socket f \<Rightarrow> \<lparr>ret = 5, err = 0, val1 = 0, val2 = 0, str = None\<rparr>
      | Fork \<Rightarrow> \<lparr>ret = 400, err = 0, val1 = 0, val2 = 0, str = None\<rparr>
      | Connect fd a \<Rightarrow> \<lparr>ret = -1, err = 2, val1 = 0, val2 = 0, str = None\<rparr>
      | Write fd b \<Rightarrow> \<lparr>ret = min 3 (int (length b)), err = 0, val1 = 0, val2 = 0, str = None\<rparr>
      | _ \<Rightarrow> \<lparr>ret = 0, err = 0, val1 = 0, val2 = 0, str = None\<rparr>)"

theorem not_root_no_privileges_witness:
  "filter privileged (snd (run_state (main 5 5 (ok_kernel 1000)
     [(CHR ''A'', ''calc''), (CHR ''p'', ''9000''), (CHR ''u'', ''www''), (CHR ''c'', ''jail'')]) [])) = []"
  by (rule not_root_no_privileges) (simp add: ok_kernel_def)

section \<open>Users\<close>

lemma find_user_not_root:
  "run_state (find_user K user) tr = (Some (uid, pw, name), tr') \<Longrightarrow>
   (uid \<noteq> 0 \<longleftrightarrow> user \<noteq> None) \<and> (name \<noteq> None \<longrightarrow> pw \<noteq> None)"
  by (auto simp: find_user_def Let_def split: option.splits prod.splits if_splits)

lemma find_group_not_root:
  "run_state (find_group K grp pw) tr = (Some gid, tr') \<Longrightarrow> (gid \<noteq> 0 \<longleftrightarrow> grp \<noteq> None \<or> pw \<noteq> None)"
  by (auto simp: find_group_def Let_def split: option.splits prod.splits if_splits)

lemma find_user_group_parts:
  assumes "run_state (find_user_group K user grp) tr = (Some (uid, gid, name), tr')"
  obtains pw tr1 where "run_state (find_user K user) tr = (Some (uid, pw, name), tr1)"
    "run_state (find_group K grp pw) tr1 = (Some gid, tr')"
  using assms unfolding find_user_group_def
  by (auto elim!: run_bindE simp del: run_state_bind split: option.splits prod.splits)

text \<open>
  \<open>find_user_group\<close> never answers with root for a user or a group it was asked for: a name that
  stands for the id 0 is refused, and a user name that it answers comes with a group that is not 0.
  Without a user the user id is 0, which \<open>main\<close> takes for "do not change".
\<close>

theorem find_user_group_not_root:
  assumes "run_state (find_user_group K user grp) tr = (Some (uid, gid, name), tr')"
  shows "(uid \<noteq> 0 \<longleftrightarrow> user \<noteq> None) \<and> (grp \<noteq> None \<longrightarrow> gid \<noteq> 0) \<and> (name \<noteq> None \<longrightarrow> gid \<noteq> 0)"
  using assms by (auto elim!: find_user_group_parts dest!: find_user_not_root find_group_not_root)

theorem find_user_group_not_root_witness:
  "run_state (find_user_group (ok_kernel 0) (Some ''www'') None) [] = (Some (33, 33, Some ''www''), [Getpwnam ''www'']) \<and>
   (33::nat) \<noteq> 0"
proof -
  have r: "run_state (find_user_group (ok_kernel 0) (Some ''www'') None) [] = (Some (33, 33, Some ''www''), [Getpwnam ''www''])"
    by code_simp
  show ?thesis
    using r find_user_group_not_root [OF r] by simp
qed

section \<open>Dropping the privileges\<close>

text \<open>The privileged calls of a trace that worked, and what root is to do for a user and a group.\<close>

definition granted :: "kernel \<Rightarrow> trace \<Rightarrow> syscall list" where
  "granted K tr = map fst (filter (\<lambda>x. ret (snd x) \<noteq> -1) (filter (privileged \<circ> fst) (log K tr)))"

definition privilege_plan :: "nat \<Rightarrow> nat \<Rightarrow> string option \<Rightarrow> string option \<Rightarrow> syscall list" where
  "privilege_plan uid gid name root =
     (if gid \<noteq> 0 then [Setgid gid, Setgroups] @ (case name of Some u \<Rightarrow> [Initgroups u gid] | None \<Rightarrow> []) else []) @
     (case root of Some d \<Rightarrow> [Chroot d] | None \<Rightarrow> []) @
     (if uid \<noteq> 0 then [Setuid uid] else [])"

lemma granted_snoc [simp]:
  "granted K (tr @ [c]) = granted K tr @ (if privileged c \<and> ret (K tr c) \<noteq> -1 then [c] else [])"
  by (simp add: granted_def)

lemma granted_quiet: "quiet privileged m \<Longrightarrow> run_state m tr = (x, tr') \<Longrightarrow> granted K tr' = granted K tr"
  by (simp add: granted_def quiet_log)

lemma granted_append_snoc:
  "granted K (tr @ xs @ [c]) = granted K (tr @ xs) @ (if privileged c \<and> ret (K (tr @ xs) c) \<noteq> -1 then [c] else [])"
  using granted_snoc [of K "tr @ xs" c] by simp

lemma granted_2: "granted K (tr @ [c, d]) = granted K (tr @ [c] @ [d])"
  by simp

lemma granted_3: "granted K (tr @ [c, d, e]) = granted K (tr @ [c, d] @ [e])"
  by simp

lemma drop_group_granted:
  "run_state (drop_group K gid name) tr = (True, tr') \<Longrightarrow>
   granted K tr' = granted K tr @ privilege_plan 0 gid name None"
  by (auto simp: drop_group_def privilege_plan_def granted_3 granted_2 granted_append_snoc
        simp del: append_Cons append_assoc split: if_splits option.splits)

lemma change_root_granted:
  "run_state (change_root K root) tr = (True, tr') \<Longrightarrow>
   granted K tr' = granted K tr @ privilege_plan 0 0 None root"
  by (auto simp: change_root_def privilege_plan_def granted_2 granted_append_snoc
        simp del: append_Cons append_assoc split: if_splits option.splits)

lemma drop_user_granted:
  "run_state (drop_user K uid) tr = (True, tr') \<Longrightarrow>
   granted K tr' = granted K tr @ privilege_plan uid 0 None None"
  by (auto simp: drop_user_def privilege_plan_def split: if_splits)

lemma prepare_root_granted:
  assumes "run_state (prepare_root K os) tr = (Some fd, tr')"
  obtains uid gid name tr1
  where "run_state (find_user_group K (username os) (groupname os)) tr = (Some (uid, gid, name), tr1)"
    "granted K tr' = granted K tr @ privilege_plan uid gid name (changeroot os)"
proof -
  obtain u tr1 where u: "run_state (find_user_group K (username os) (groupname os)) tr = (u, tr1)"
    by (cases "run_state (find_user_group K (username os) (groupname os)) tr")
  with assms obtain uid gid name where [simp]: "u = Some (uid, gid, name)"
    by (auto simp: prepare_root_def split: option.splits)
  have "granted K tr' = granted K tr1 @ privilege_plan uid gid name (changeroot os)"
    using assms u unfolding prepare_root_def
    by (auto elim!: run_bindE simp del: run_state_bind split: option.splits prod.splits if_splits
          simp: Let_def granted_quiet [OF find_user_group_quiet] granted_quiet [OF bind_socket_quiet]
            drop_group_granted change_root_granted drop_user_granted)
       (simp_all add: privilege_plan_def)
  moreover have "granted K tr1 = granted K tr"
    using u by (rule granted_quiet [OF find_user_group_quiet])
  ultimately show ?thesis using that [of uid gid name tr1] u by simp
qed

text \<open>
  C7. When root has prepared its socket, the privileged calls that worked are these, in this order:
  the group and the supplementary groups, which need the files of the system, then the root
  directory, and the user last, for without it the others would fail.  A user that was named is not root, nor is a
  group.
\<close>

theorem root_drops_privileges:
  assumes "run_state (prepare K True os) tr = (Some fd, tr')"
  shows "\<exists>uid gid name. granted K tr' = granted K tr @ privilege_plan uid gid name (changeroot os) \<and>
    (uid \<noteq> 0 \<longleftrightarrow> username os \<noteq> None) \<and> (groupname os \<noteq> None \<longrightarrow> gid \<noteq> 0)"
proof -
  have "run_state (prepare_root K os) tr = (Some fd, tr')"
    using assms by (simp add: prepare_def)
  then obtain uid gid name tr1
    where u: "run_state (find_user_group K (username os) (groupname os)) tr = (Some (uid, gid, name), tr1)"
      and g: "granted K tr' = granted K tr @ privilege_plan uid gid name (changeroot os)"
    by (rule prepare_root_granted)
  from u have "(uid \<noteq> 0 \<longleftrightarrow> username os \<noteq> None) \<and> (groupname os \<noteq> None \<longrightarrow> gid \<noteq> 0)"
    by (auto elim!: find_user_group_parts dest!: find_user_not_root find_group_not_root)
  with g show ?thesis by blast
qed

definition sample_options :: options where
  "sample_options = (default_options 18)\<lparr>hvml_app := Some ''calc'', port := 9000, username := Some ''www'', changeroot := Some ''jail''\<rparr>"

theorem root_drops_privileges_witness:
  "\<exists>uid gid name. granted (ok_kernel 0)
     [Getpwnam ''www'', Setgid 33, Setgroups, Initgroups ''www'' 33, Chroot ''jail'', Chdir [CHR 0x2F],
      Socket AF_INET, Set_reuseaddr 5, Bind 5 (In_addr None 9000), Listen 5 1024, Setuid 33] =
     privilege_plan uid gid name (Some ''jail'') \<and> uid \<noteq> 0"
proof -
  have r: "run_state (prepare (ok_kernel 0) True sample_options) [] =
    (Some 5, [Getpwnam ''www'', Setgid 33, Setgroups, Initgroups ''www'' 33, Chroot ''jail'', Chdir [CHR 0x2F],
      Socket AF_INET, Set_reuseaddr 5, Bind 5 (In_addr None 9000), Listen 5 1024, Setuid 33])"
    by code_simp
  have s: "granted (ok_kernel 0) [] = []" "changeroot sample_options = Some ''jail''" "username sample_options \<noteq> None"
    by (simp_all add: granted_def sample_options_def default_options_def)
  show ?thesis
    using root_drops_privileges [OF r] s by auto
qed

section \<open>Descriptors\<close>

text \<open>The sockets a process holds after a trace: those that were made and not closed since.\<close>

definition hold :: "int list \<Rightarrow> syscall \<times> reply \<Rightarrow> int list" where
  "hold fds x =
     (case fst x of
        Socket f \<Rightarrow> if ret (snd x) = -1 then fds else ret (snd x) # fds
      | Close fd \<Rightarrow> remove1 fd fds
      | _ \<Rightarrow> fds)"

definition held_sockets :: "kernel \<Rightarrow> trace \<Rightarrow> int list" where
  "held_sockets K tr = foldl hold [] (log K tr)"

lemma held_snoc [simp]: "held_sockets K (tr @ [c]) = hold (held_sockets K tr) (c, K tr c)"
  by (simp add: held_sockets_def)

lemma held_step: "run_state (call K c) tr = (r, tr') \<Longrightarrow> held_sockets K tr' = hold (held_sockets K tr) (c, r)"
  by auto

lemma unix_address_held:
  "run_state (unix_address K path) tr = (t, tr') \<Longrightarrow> held_sockets K tr' = held_sockets K tr"
  by (auto simp: unix_address_def hold_def simp del: run_state_bind run_call elim!: run_bindE dest!: held_step
        split: if_splits)

lemma inet_address_held:
  "run_state (inet_address K a n) tr = (t, tr') \<Longrightarrow> held_sockets K tr' = held_sockets K tr"
  by (auto simp: inet_address_def hold_def simp del: run_state_bind run_call elim!: run_bindE dest!: held_step
        split: if_splits option.splits)

lemma own_socket_held:
  "run_state (own_socket K path uid gid mode) tr = (t, tr') \<Longrightarrow> held_sockets K tr' = held_sockets K tr"
  by (auto simp: own_socket_def hold_def simp del: run_state_bind run_call elim!: run_bindE dest!: held_step
        split: if_splits)

lemmas addresses_held = unix_address_held inet_address_held own_socket_held

text \<open>
  C22. \<open>bind_socket\<close> loses no descriptor: when it fails, on any of its ten error paths, the process
  holds the sockets it held before; when it succeeds, it holds one more, the one that is returned.
\<close>

theorem bind_socket_no_leak:
  "held_sockets K (snd (run_state (bind_socket K a n u uid gid mode len) tr)) =
   (let fd = fst (run_state (bind_socket K a n u uid gid mode len) tr)
    in if fd = -1 then held_sockets K tr else fd # held_sockets K tr)"
proof -
  obtain fd tr' where r: "run_state (bind_socket K a n u uid gid mode len) tr = (fd, tr')"
    by (cases "run_state (bind_socket K a n u uid gid mode len) tr")
  then have "held_sockets K tr' = (if fd = -1 then held_sockets K tr else fd # held_sockets K tr)"
    unfolding bind_socket_def
    by (auto simp: hold_def simp del: run_state_bind run_call elim!: run_bindE dest!: held_step addresses_held
          split: if_splits option.splits prod.splits)
  with r show ?thesis by simp
qed

section \<open>Supervision\<close>

definition forks :: "trace \<Rightarrow> nat" where
  "forks tr = length (filter (\<lambda>c. c = Fork) tr)"

text \<open>
  The children that the loop of the supervisor waited for, with \<open>waitpid(-1, &status, 0)\<close>, and that had exited with a code
  other than \<open>EXIT_FAILURE\<close>.  A child that \<open>fcgi_spawn_connection\<close> finds dead a moment after it was forked, with
  \<open>waitpid(child, &status, WNOHANG)\<close>, is not among them.
\<close>

definition to_replace :: "syscall \<times> reply \<Rightarrow> bool" where
  "to_replace x \<longleftrightarrow> fst x = Waitpid (-1) False \<and> ret (snd x) \<noteq> -1 \<and>
     WIFEXITED (val1 (snd x)) \<and> WEXITSTATUS (val1 (snd x)) \<noteq> EXIT_FAILURE"

definition replaceable :: "kernel \<Rightarrow> trace \<Rightarrow> nat" where
  "replaceable K tr = length (filter to_replace (log K tr))"

lemma replaceable_snoc [simp]:
  "replaceable K (tr @ [c]) = replaceable K tr + (if to_replace (c, K tr c) then 1 else 0)"
  by (simp add: replaceable_def)

lemma forks_snoc [simp]: "forks (tr @ [c]) = forks tr + (if c = Fork then 1 else 0)"
  by (simp add: forks_def)

fun supervising :: "syscall \<Rightarrow> bool" where
  "supervising Fork = True"
| "supervising (Waitpid pid nohang) = (\<not> nohang)"
| "supervising c = False"

lemma supervising_quiet:
  assumes "quiet supervising m" "run_state m tr = (x, tr')"
  shows "forks tr' = forks tr \<and> replaceable K tr' = replaceable K tr"
proof -
  have 1: "filter (\<lambda>c. c = Fork) cs = filter (\<lambda>c. c = Fork) (filter supervising cs)" for cs
    by (induction cs) auto
  have 2: "filter to_replace xs = filter to_replace (filter (supervising \<circ> fst) xs)" for xs
    by (induction xs) (auto simp: to_replace_def)
  show ?thesis
    using quietD [OF assms] quiet_log [OF assms, of K] 1 [of tr] 1 [of tr'] 2 [of "log K tr"] 2 [of "log K tr'"]
    by (simp add: forks_def replaceable_def)
qed

lemma close_all_supervising [quiet_intros]: "quiet supervising (close_all K is)"
  by (induction "is") (auto intro!: quiet_intros)

lemma call_executor_supervising [quiet_intros]: "quiet supervising (call_executor K app fd n)"
  unfolding call_executor_def by (intro quiet_intros) simp_all

lemma write_all_loop_supervising [quiet_intros]: "quiet supervising (write_all_loop fuel K fd buf)"
  by (induction fuel arbitrary: buf) (auto intro!: quiet_intros)

lemma write_all_supervising [quiet_intros]: "quiet supervising (write_all fuel K fd buf)"
  unfolding write_all_def by (intro quiet_intros)

lemma spawn_one_forks:
  assumes "run_state (spawn_one fuel K app fd pid_fd n rc) tr = (x, tr')"
  shows "forks tr' = Suc (forks tr) \<and> replaceable K tr' = replaceable K tr"
proof -
  have "\<exists>f. spawn_one fuel K app fd pid_fd n rc = State_Monad.bind (call K Fork) f \<and> (\<forall>c. quiet supervising (f c))"
    unfolding spawn_one_def by (intro exI conjI, rule refl) (auto intro!: quiet_intros)
  then obtain f where f: "spawn_one fuel K app fd pid_fd n rc = State_Monad.bind (call K Fork) f"
    "\<And>c. quiet supervising (f c)"
    by blast
  then have "run_state (f (K tr Fork)) (tr @ [Fork]) = (x, tr')"
    using assms by simp
  from supervising_quiet [OF f(2) this, of K] show ?thesis
    by (simp add: to_replace_def)
qed

lemma spawn_loop_forks:
  "run_state (spawn_loop fuel K app fd m pid_fd n rc) tr = (x, tr') \<Longrightarrow>
   replaceable K tr' = replaceable K tr \<and> forks tr' \<le> forks tr + m \<and>
   (case x of Returned _ \<Rightarrow> forks tr' = forks tr + m | _ \<Rightarrow> True)"
proof (induction m arbitrary: pid_fd rc tr)
  case (Suc m)
  then obtain r tr1 where 1: "run_state (spawn_one fuel K app fd pid_fd n rc) tr = (r, tr1)"
    and 2: "run_state (case r of Exited code \<Rightarrow> State_Monad.return (Exited code)
        | Running \<Rightarrow> State_Monad.return Running
        | Returned (rc, pid_fd) \<Rightarrow> spawn_loop fuel K app fd m pid_fd n rc) tr1 = (x, tr')"
    by (auto elim!: run_bindE simp del: run_state_bind)
  show ?case
    using spawn_one_forks [OF 1] 2 Suc.IH
    by (auto split: outcome.splits prod.splits; force)
qed (auto split: outcome.split)

lemma replace_one:
  assumes "run_state (fcgi_spawn_connection fuel K app fd 1 pid_fd n) tr = (x, tr')"
  shows "forks tr' = Suc (forks tr) \<and> replaceable K tr' = replaceable K tr"
proof -
  obtain r tr1 where 1: "run_state (spawn_one fuel K app fd pid_fd n 0) tr = (r, tr1)"
    by (cases "run_state (spawn_one fuel K app fd pid_fd n 0) tr")
  then have "tr' = tr1"
    using assms by (auto simp: fcgi_spawn_connection_def split: outcome.splits)
  with spawn_one_forks [OF 1] show ?thesis by simp
qed

text \<open>
  C21. The loop of the supervisor forks for the children it waits for: however long it runs and whatever
  happens to the children, it forks once for every child that its own blocking \<open>waitpid\<close> has returned and that had exited
  with a code other than \<open>EXIT_FAILURE\<close>, and at no other time.  In particular it does not fork for
  a child that is dead already when \<open>fcgi_spawn_connection\<close> looks for it, a tenth of a second after its fork: such a
  child is lost even when it has exited with success, as \<open>early_exit_not_replaced\<close> shows.
\<close>

theorem supervise_replaces:
  "forks (snd (run_state (supervise rounds fuel K app fd pid_fd n rc) tr)) + replaceable K tr =
   forks tr + replaceable K (snd (run_state (supervise rounds fuel K app fd pid_fd n rc) tr))"
proof (induction rounds arbitrary: rc tr)
  case (Suc rounds)
  let ?w = "Waitpid (-1) False"
  obtain x tr1 where s: "run_state (fcgi_spawn_connection fuel K app fd 1 pid_fd n) (tr @ [?w]) = (x, tr1)"
    by (cases "run_state (fcgi_spawn_connection fuel K app fd 1 pid_fd n) (tr @ [?w])")
  show ?case
    using Suc.IH [of _ "tr @ [?w]"] Suc.IH [of _ tr1] replace_one [OF s] s
    by (auto simp: to_replace_def split: outcome.split)
qed simp

text \<open>
  A round in which the new child has exited with success when it is looked for: the result of
  \<open>fcgi_spawn_connection\<close> is 0, and the supervisor goes on with one worker less.
\<close>

lemma early_exit_not_replaced:
  assumes "to_replace (Waitpid (-1) False, K tr (Waitpid (-1) False))"
    and "child = ret (K (tr @ [Waitpid (-1) False]) Fork)" "child > 0"
    and "w = K (tr @ [Waitpid (-1) False, Fork, Select]) (Waitpid child True)" "ret w = child"
    and "WIFEXITED (val1 w)" "WEXITSTATUS (val1 w) = 0"
  shows "run_state (supervise (Suc rounds) fuel K app fd pid_fd n rc) tr =
    run_state (supervise rounds fuel K app fd pid_fd n 0) (tr @ [Waitpid (-1) False, Fork, Select, Waitpid child True])"
  using assms by (auto simp: to_replace_def fcgi_spawn_connection_def spawn_one_def child_rc_def)

text \<open>
  A worker that gives up with \<open>EXIT_RETRY\<close>, to be started again, is not: the code is that of
  \<open>EXIT_FAILURE\<close>, so that the supervisor waits for the next child with one worker less.
\<close>

theorem retry_not_replaced:
  assumes "ret (K tr (Waitpid (-1) False)) \<noteq> -1"
    and "WEXITSTATUS (val1 (K tr (Waitpid (-1) False))) = EXIT_RETRY"
  shows "run_state (supervise (Suc rounds) fuel K app fd pid_fd n rc) tr =
    run_state (supervise rounds fuel K app fd pid_fd n rc) (tr @ [Waitpid (-1) False])"
  using assms by (simp add: EXIT_RETRY_def EXIT_FAILURE_def)

theorem retry_not_replaced_witness:
  "let K = (\<lambda>tr c. \<lparr>ret = 400, err = 0, val1 = 256, val2 = 0, str = None\<rparr>) :: kernel
   in run_state (supervise (Suc 1) 5 K (None, None, None) 3 (-1) 10 0) [] =
      run_state (supervise 1 5 K (None, None, None) 3 (-1) 10 0) ([] @ [Waitpid (-1) False])"
  unfolding Let_def by (rule retry_not_replaced) code_simp+

section \<open>The PID file\<close>

text \<open>The bytes a descriptor has taken.\<close>

definition taken_by :: "int \<Rightarrow> syscall \<times> reply \<Rightarrow> string" where
  "taken_by fd x =
     (case fst x of Write f b \<Rightarrow> if f = fd \<and> ret (snd x) \<noteq> -1 then take (nat (ret (snd x))) b else []
      | _ \<Rightarrow> [])"

definition taken :: "int \<Rightarrow> kernel \<Rightarrow> trace \<Rightarrow> string" where
  "taken fd K tr = concat (map (taken_by fd) (log K tr))"

lemma taken_snoc [simp]: "taken fd K (tr @ [c]) = taken fd K tr @ taken_by fd (c, K tr c)"
  by (simp add: taken_def)

lemma write_all_loop_taken:
  "run_state (write_all_loop fuel K fd buf) tr = (r, tr') \<Longrightarrow>
   \<exists>n. taken fd K tr' = taken fd K tr @ take n buf \<and> (r = Some True \<longrightarrow> n = length buf)"
proof (induction fuel arbitrary: buf tr)
  case 0
  then show ?case by (auto intro: exI [of _ 0])
next
  case (Suc fuel)
  let ?r = "K tr (Write fd buf)"
  consider "buf = []" | "buf \<noteq> []" "ret ?r = -1" | "buf \<noteq> []" "ret ?r \<noteq> -1"
    by blast
  then show ?case
  proof cases
    case 3
    then have "run_state (write_all_loop fuel K fd (drop (nat (ret ?r)) buf)) (tr @ [Write fd buf]) = (r, tr')"
      using Suc.prems by simp
    from Suc.IH [OF this] obtain n
      where "taken fd K tr' = taken fd K tr @ take (nat (ret ?r)) buf @ take n (drop (nat (ret ?r)) buf)"
        and n: "r = Some True \<longrightarrow> n = length buf - nat (ret ?r)"
      using 3 by (auto simp: taken_by_def)
    then have a: "taken fd K tr' = taken fd K tr @ take (nat (ret ?r) + n) buf"
      by (simp add: take_add)
    show ?thesis
    proof (cases "r = Some True")
      case True
      then show ?thesis using a n by (intro exI [of _ "length buf"]) simp
    next
      case False
      then show ?thesis using a by blast
    qed
  qed (use Suc.prems Suc.IH [of buf "tr @ [Write fd buf]"] in
        \<open>auto simp: taken_by_def split: if_splits intro: exI [of _ 0]\<close>)
qed

text \<open>
  When \<open>write_all\<close> answers the length of the buffer, the file has taken the buffer, byte for
  byte, however the system split the writes and however often it interrupted them; when it answers -1, the file has
  taken a beginning of the buffer.
\<close>

theorem write_all_complete:
  assumes "run_state (write_all fuel K fd buf) tr = (Some n, tr')"
  shows "if n = -1 then \<exists>m. taken fd K tr' = taken fd K tr @ take m buf
    else n = int (length buf) \<and> taken fd K tr' = taken fd K tr @ buf"
proof -
  obtain r where r: "run_state (write_all_loop fuel K fd buf) tr = (r, tr')"
    and n: "map_option (\<lambda>ok. if ok then int (length buf) else -1) r = Some n"
    using assms by (auto simp: write_all_def split: prod.splits)
  from write_all_loop_taken [OF r] n show ?thesis
    by (cases r) (auto split: if_splits)
qed

theorem write_all_complete_witness:
  "\<exists>tr. run_state (write_all 5 (ok_kernel 0) 7 ''1234567'') [] = (Some 7, tr) \<and> taken 7 (ok_kernel 0) tr = ''1234567''"
proof -
  have r: "run_state (write_all 5 (ok_kernel 0) 7 ''1234567'') [] =
     (Some 7, [Write 7 ''1234567'', Write 7 ''4567'', Write 7 ''7''])"
    by code_simp
  show ?thesis
    using r write_all_complete [OF r] by (simp add: taken_def)
qed

text \<open>
  C32. \<open>write_all\<close> comes to its end when every write either fails with something other than an
  interruption or takes at least a byte: one call more than there are bytes is enough.
\<close>

theorem write_all_ends:
  assumes "\<And>tr b. b \<noteq> [] \<Longrightarrow> (ret (K tr (Write fd b)) = -1 \<and> err (K tr (Write fd b)) \<noteq> EINTR_errno) \<or>
    ret (K tr (Write fd b)) > 0"
  shows "fst (run_state (write_all (Suc (length buf)) K fd buf) tr) \<noteq> None"
proof -
  have "length buf < fuel \<Longrightarrow> fst (run_state (write_all_loop fuel K fd buf) tr) \<noteq> None" for fuel
  proof (induction fuel arbitrary: buf tr)
    case (Suc fuel)
    show ?case
      using assms [of buf tr] Suc.prems Suc.IH [of "drop (nat (ret (K tr (Write fd buf)))) buf" "tr @ [Write fd buf]"]
      by (cases buf) auto
  qed simp
  from this [of "Suc (length buf)"] show ?thesis
    by (auto simp: write_all_def simp del: write_all_loop.simps split: prod.split)
qed

theorem write_all_ends_witness:
  "fst (run_state (write_all (Suc (length ''400'')) (ok_kernel 0) 7 ''400'') []) \<noteq> None"
  by (rule write_all_ends) (simp add: ok_kernel_def Suc_le_eq)

end
