(* ===== verification/Os_Client.thy ===== *)
theory Os_Client
  imports Fpm_Laws
begin

text \<open>
  The part of \<open>os_unix.c\<close> a web server uses to start FastCGI processes and to connect to
  them: making a listening socket from a path or from a host and a port, connecting to one,
  spawning a process on one, and setting flags.  The calls are those of \<open>Posix\<close>;
  \<open>inet_addr\<close> of the C library is a parameter.
\<close>

section \<open>Addresses\<close>

text \<open>
  A process goes on with a value, ends with a code, fails an \<open>ASSERT\<close> or uses a null pointer, or
  becomes another program.
\<close>

datatype os_result = Answers int | Ends int | Crashes | Becomes string

definition MAXPATHLEN :: nat where "MAXPATHLEN = 4096"

definition INADDR_NONE :: "32 word" where "INADDR_NONE = 4294967295"

definition to_i16 :: "int \<Rightarrow> int" where
  "to_i16 n = (n + 32768) mod 65536 - 32768"

definition atoi :: "string \<Rightarrow> int" where
  "atoi s = to_i32 (fst (strtol s 10))"

text \<open>
  The host and the port of a path: what stands before and behind its first colon, and the
  port is a \<open>short\<close>.  Without a colon, or when the port is 0, it is the path of a Unix socket.
\<close>

definition split_host :: "string \<Rightarrow> string \<times> int" where
  "split_host bindPath =
     (let host = takeWhile (\<lambda>c. c \<noteq> CHR '':'') bindPath;
          rest = dropWhile (\<lambda>c. c \<noteq> CHR '':'') bindPath;
          prt = (if rest = [] then 0 else to_i16 (atoi (tl rest)))
      in if prt = 0 then (bindPath, 0) else (host, prt))"

text \<open>\<open>None\<close> is the result -1: the path does not fit.\<close>

definition OS_BuildSockAddrUn :: "string \<Rightarrow> (sockaddr \<times> nat) option" where
  "OS_BuildSockAddrUn bindPath =
     (if length bindPath > sun_path_size then None
      else Some (Un_addr bindPath, 2 + length bindPath))"

section \<open>Listening\<close>

text \<open>
  The address of a host: any address, one in dots, or the only address of a name.  The error is
  the exit code.
\<close>

definition host_address :: "kernel \<Rightarrow> (string \<Rightarrow> 32 word) \<Rightarrow> string \<Rightarrow> (int + string option) io" where
  "host_address K inet_addr host =
     (if host = [] \<or> host = ''*'' then State_Monad.return (Inr None)
      else if inet_addr host \<noteq> INADDR_NONE then State_Monad.return (Inr (Some host))
      else do {
        hep \<leftarrow> call K (Gethostbyname host);
        State_Monad.return
          (if ret hep = 0 \<or> val1 hep \<noteq> 2 \<or> val2 hep = 0 then Inl 1
           else if val2 hep > 1 then Inl 1
           else Inr (str hep))
      })"

text \<open>The socket of the family, made and, for a port, made reusable.\<close>

definition listening_socket ::
  "kernel \<Rightarrow> (string \<Rightarrow> 32 word) \<Rightarrow> string \<Rightarrow> int \<Rightarrow> (int + int \<times> string option) io" where
  "listening_socket K inet_addr host prt =
     (if prt \<noteq> 0 then do {
        ia \<leftarrow> host_address K inet_addr host;
        case ia of
          Inl code \<Rightarrow> State_Monad.return (Inl code)
        | Inr tcp_ia \<Rightarrow> do {
            fd \<leftarrow> call K (Socket AF_INET);
            if ret fd \<ge> 0 then do {
              r \<leftarrow> call K (Set_reuseaddr (ret fd));
              State_Monad.return (if ret r < 0 then Inl 1001 else Inr (ret fd, tcp_ia))
            }
            else State_Monad.return (Inr (ret fd, tcp_ia))
          }
      }
      else do {
        fd \<leftarrow> call K (Socket AF_UNIX);
        State_Monad.return (Inr (ret fd, None))
      })"

definition bind_and_listen :: "kernel \<Rightarrow> int \<Rightarrow> sockaddr \<Rightarrow> int \<Rightarrow> os_result io" where
  "bind_and_listen K listenSock sa queue = do {
     b \<leftarrow> call K (Bind listenSock sa);
     if ret b < 0 then State_Monad.return (Ends (err b))
     else do {
       l \<leftarrow> call K (Listen listenSock queue);
       State_Monad.return (if ret l < 0 then Ends (err l) else Answers listenSock)
     }
   }"

definition OS_CreateLocalIpcFd ::
  "kernel \<Rightarrow> (string \<Rightarrow> 32 word) \<Rightarrow> string \<Rightarrow> int \<Rightarrow> os_result io" where
  "OS_CreateLocalIpcFd K inet_addr bindPath queue =
     (if length bindPath \<ge> MAXPATHLEN then State_Monad.return (Ends 1)
      else case split_host bindPath of (host, prt) \<Rightarrow> do {
        s \<leftarrow> listening_socket K inet_addr host prt;
        case s of
          Inl code \<Rightarrow> State_Monad.return (Ends code)
        | Inr (listenSock, tcp_ia) \<Rightarrow>
            if listenSock < 0 then State_Monad.return (Answers (-1))
            else if prt \<noteq> 0
            then bind_and_listen K listenSock (In_addr tcp_ia (to_u16 prt)) queue
            else do {
              _ \<leftarrow> call K (Unlink bindPath);
              case OS_BuildSockAddrUn bindPath of
                None \<Rightarrow> State_Monad.return (Ends 1000)
              | Some (sa, n) \<Rightarrow> bind_and_listen K listenSock sa queue
            }
      })"

section \<open>Connecting\<close>

text \<open>The address to connect to, a socket of its family, and the connection.\<close>

definition connect_to :: "kernel \<Rightarrow> family \<Rightarrow> sockaddr \<Rightarrow> os_result io" where
  "connect_to K fam sa = do {
     resultSock \<leftarrow> call K (Socket fam);
     if \<not> ret resultSock \<ge> 0 then State_Monad.return Crashes
     else do {
       connectStatus \<leftarrow> call K (Connect (ret resultSock) sa);
       if ret connectStatus \<ge> 0 then State_Monad.return (Answers (ret resultSock))
       else do {
         _ \<leftarrow> call K (Close (ret resultSock));
         State_Monad.return (Answers (-1))
       }
     }
   }"

definition OS_FcgiConnect :: "kernel \<Rightarrow> string \<Rightarrow> os_result io" where
  "OS_FcgiConnect K bindPath =
     (if length bindPath \<ge> MAXPATHLEN then State_Monad.return (Ends 1)
      else case split_host bindPath of (host, prt) \<Rightarrow>
        if prt \<noteq> 0 then do {
          hp \<leftarrow> call K (Gethostbyname (if host = [] then ''localhost'' else host));
          if ret hp = 0 then State_Monad.return (Ends 1000)
          else if val2 hp = 0 then State_Monad.return Crashes
          else connect_to K AF_INET (In_addr (str hp) (to_u16 prt))
        }
        else case OS_BuildSockAddrUn bindPath of
               None \<Rightarrow> State_Monad.return (Ends 1000)
             | Some (sa, n) \<Rightarrow> connect_to K AF_UNIX sa)"

section \<open>Spawning\<close>

definition OS_SpawnChild :: "kernel \<Rightarrow> string \<Rightarrow> int \<Rightarrow> os_result io" where
  "OS_SpawnChild K appPath listenFd = do {
     forkResult \<leftarrow> call K Fork;
     if ret forkResult < 0 then State_Monad.return (Ends (err forkResult))
     else if ret forkResult = 0 then do {
       _ \<leftarrow> call K (Close 0);
       _ \<leftarrow> (if listenFd \<noteq> FCGI_LISTENSOCK_FILENO then do {
              _ \<leftarrow> call K (Dup2 listenFd FCGI_LISTENSOCK_FILENO);
              _ \<leftarrow> call K (Close listenFd);
              State_Monad.return ()
            }
            else State_Monad.return ());
       _ \<leftarrow> call K (Close 1);
       _ \<leftarrow> call K (Close 2);
       e \<leftarrow> call K (Execl appPath);
       State_Monad.return (if ret e = -1 then Ends (err e) else Becomes appPath)
     }
     else State_Monad.return (Answers 0)
   }"

text \<open>\<open>None\<close>: the flags are set and the function returns; otherwise the exit code.\<close>

definition OS_SetFlags :: "kernel \<Rightarrow> int \<Rightarrow> int \<Rightarrow> int option io" where
  "OS_SetFlags K fd flags = do {
     val \<leftarrow> call K (Fcntl_getfl fd);
     if ret val < 0 then State_Monad.return (Some (err val))
     else do {
       r \<leftarrow> call K (Fcntl_setfl fd (ret val OR flags));
       State_Monad.return (if ret r < 0 then Some (err r) else None)
     }
   }"

section \<open>What is proved\<close>

lemma connect_to_held:
  "run_state (connect_to K fam sa) tr = (Answers fd, tr') \<Longrightarrow>
   held_sockets K tr' = (if fd = -1 then held_sockets K tr else fd # held_sockets K tr)"
  by (auto simp: connect_to_def hold_def simp del: run_state_bind run_call elim!: run_bindE dest!: held_step
        split: if_splits)

lemma bind_and_listen_held:
  "run_state (bind_and_listen K s sa b) tr = (Answers fd, tr') \<Longrightarrow>
   fd = s \<and> held_sockets K tr' = held_sockets K tr"
  by (auto simp: bind_and_listen_def hold_def simp del: run_state_bind run_call elim!: run_bindE dest!: held_step
        split: if_splits)

lemma host_address_held:
  "run_state (host_address K ia host) tr = (x, tr') \<Longrightarrow> held_sockets K tr' = held_sockets K tr"
  by (auto simp: host_address_def hold_def simp del: run_state_bind run_call elim!: run_bindE dest!: held_step
        split: if_splits)

lemma listening_socket_held:
  "run_state (listening_socket K ia host prt) tr = (Inr (fd, a), tr') \<Longrightarrow>
   held_sockets K tr' = (if fd = -1 then held_sockets K tr else fd # held_sockets K tr)"
  by (auto simp: listening_socket_def hold_def simp del: run_state_bind run_call elim!: run_bindE
        dest!: held_step host_address_held split: if_splits sum.splits)

lemma connect_held:
  assumes "run_state (OS_FcgiConnect K path) tr = (Answers fd, tr')"
  shows "held_sockets K tr' = (if fd = -1 then held_sockets K tr else fd # held_sockets K tr)"
  using assms unfolding OS_FcgiConnect_def
  by (auto simp: hold_def simp del: run_state_bind run_call elim!: run_bindE dest!: held_step connect_to_held
        split: if_splits prod.splits option.splits)

text \<open>A kernel answers \<open>socket\<close> with -1 or a descriptor.\<close>

definition sockets_answer :: "kernel \<Rightarrow> bool" where
  "sockets_answer K \<longleftrightarrow> (\<forall>tr f. ret (K tr (Socket f)) \<ge> -1)"

lemma listening_socket_answer:
  assumes "run_state (listening_socket K ia host prt) tr = (Inr (fd, a), tr')" "sockets_answer K"
  shows "fd \<ge> -1"
  using assms unfolding sockets_answer_def
  by (auto simp: listening_socket_def simp del: run_state_bind elim!: run_bindE split: if_splits sum.splits)

lemma create_parts:
  assumes "run_state (OS_CreateLocalIpcFd K ia path queue) tr = (Answers fd, tr')" "sockets_answer K"
  obtains l a tr1 where
    "run_state (listening_socket K ia (fst (split_host path)) (snd (split_host path))) tr = (Inr (l, a), tr1)"
    "(l = -1 \<and> fd = -1 \<and> tr' = tr1) \<or>
     (l \<ge> 0 \<and> (\<exists>sa tr2. held_sockets K tr2 = held_sockets K tr1 \<and>
        run_state (bind_and_listen K l sa queue) tr2 = (Answers fd, tr')))"
proof -
  obtain s tr1 where s:
    "run_state (listening_socket K ia (fst (split_host path)) (snd (split_host path))) tr = (s, tr1)"
    by fastforce
  with assms(1) obtain l a where s': "s = Inr (l, a)"
    by (cases s) (auto simp: OS_CreateLocalIpcFd_def split: if_splits prod.splits)
  have ge: "l \<ge> -1" using listening_socket_answer [OF s [unfolded s'] assms(2)] .
  show ?thesis
  proof (cases "l < 0")
    case True
    with assms(1) s ge show ?thesis
      by (intro that [OF s [unfolded s']])
        (auto simp: OS_CreateLocalIpcFd_def s' split: if_splits prod.splits)
  next
    case False
    obtain host prt where h: "split_host path = (host, prt)" by fastforce
    have "\<exists>sa tr2. held_sockets K tr2 = held_sockets K tr1 \<and>
        run_state (bind_and_listen K l sa queue) tr2 = (Answers fd, tr')"
    proof (cases "prt = 0")
      case True
      with assms(1) s False have "run_state (case OS_BuildSockAddrUn path of
          None \<Rightarrow> State_Monad.return (Ends 1000)
        | Some (sa, n) \<Rightarrow> bind_and_listen K l sa queue) (tr1 @ [Unlink path]) = (Answers fd, tr')"
        by (auto simp: OS_CreateLocalIpcFd_def s' h split: if_splits)
      then obtain sa where
        "run_state (bind_and_listen K l sa queue) (tr1 @ [Unlink path]) = (Answers fd, tr')"
        by (auto split: option.splits)
      moreover have "held_sockets K (tr1 @ [Unlink path]) = held_sockets K tr1"
        by (simp add: hold_def)
      ultimately show ?thesis by blast
    next
      case p: False
      with assms(1) s False show ?thesis
        by (auto simp: OS_CreateLocalIpcFd_def s' h split: if_splits)
    qed
    with False show ?thesis by (intro that [OF s [unfolded s']]) auto
  qed
qed

lemma create_held:
  assumes "run_state (OS_CreateLocalIpcFd K ia path queue) tr = (Answers fd, tr')" "sockets_answer K"
  shows "held_sockets K tr' = (if fd = -1 then held_sockets K tr else fd # held_sockets K tr)"
  using assms
proof (rule create_parts)
  fix l a tr1
  assume l: "run_state (listening_socket K ia (fst (split_host path)) (snd (split_host path))) tr = (Inr (l, a), tr1)"
    and c: "(l = -1 \<and> fd = -1 \<and> tr' = tr1) \<or>
     (l \<ge> 0 \<and> (\<exists>sa tr2. held_sockets K tr2 = held_sockets K tr1 \<and>
        run_state (bind_and_listen K l sa queue) tr2 = (Answers fd, tr')))"
  from c show ?thesis
    using listening_socket_held [OF l] by (auto dest!: bind_and_listen_held)
qed

text \<open>
  The files behind the descriptors of a process, after calls that succeed or fail.
\<close>

definition on_files :: "(int \<Rightarrow> 'f option) \<Rightarrow> syscall \<times> reply \<Rightarrow> int \<Rightarrow> 'f option" where
  "on_files fds x =
     (case fst x of
        Close fd \<Rightarrow> fds(fd := None)
      | Dup2 a b \<Rightarrow> if ret (snd x) = -1 \<or> fds a = None then fds else fds(b := fds a)
      | _ \<Rightarrow> fds)"

definition files_after :: "kernel \<Rightarrow> (int \<Rightarrow> 'f option) \<Rightarrow> trace \<Rightarrow> nat \<Rightarrow> int \<Rightarrow> 'f option" where
  "files_after K fds tr n = foldl on_files fds (drop n (log K tr))"

lemma length_log: "length (log K tr) = length tr"
  by (simp add: log_def)

lemma files_after_snoc:
  "n \<le> length tr \<Longrightarrow> files_after K fds (tr @ [c]) n = on_files (files_after K fds tr n) (c, K tr c)"
  by (simp add: files_after_def length_log)

lemma files_after_start: "files_after K fds tr (length tr) = fds"
  by (simp add: files_after_def log_def)

text \<open>
  C30. A process that \<open>OS_SpawnChild\<close> starts finds the listening socket where FastCGI wants it, in
  descriptor 0, and no standard output or error, when the socket had another number.
  When it has number 0 already, it is closed before the program starts, which finds nothing there.
\<close>

theorem spawned_files:
  assumes "run_state (OS_SpawnChild K app fd) tr = (Becomes p, tr')"
    and "\<And>tr. ret (K tr (Dup2 fd 0)) \<noteq> -1" "fds fd = Some f" "fd \<ge> 0"
  shows "p = app \<and> files_after K fds tr' (length tr) 0 = (if fd = 0 then None else Some f)
         \<and> files_after K fds tr' (length tr) 1 = None \<and> files_after K fds tr' (length tr) 2 = None"
proof -
  have step: "files_after K fds (tr @ cs @ [c]) (length tr) =
      on_files (files_after K fds (tr @ cs) (length tr)) (c, K (tr @ cs) c)" for cs c
    using files_after_snoc [of "length tr" "tr @ cs"] by simp
  show ?thesis
  proof (cases "fd = 0")
    case True
    with assms(1) have t: "p = app" "tr' = tr @ ((([Fork] @ [Close 0]) @ [Close 1]) @ [Close 2]) @ [Execl app]"
      by (auto simp: OS_SpawnChild_def FCGI_LISTENSOCK_FILENO_def split: if_splits)
    show ?thesis
      unfolding t(2) step using True t(1) step [of "[]" Fork]
      by (simp add: on_files_def files_after_start)
  next
    case False
    with assms(1) have t: "p = app"
      "tr' = tr @ ((((([Fork] @ [Close 0]) @ [Dup2 fd 0]) @ [Close fd]) @ [Close 1]) @ [Close 2]) @ [Execl app]"
      by (auto simp: OS_SpawnChild_def FCGI_LISTENSOCK_FILENO_def split: if_splits)
    show ?thesis
      unfolding t(2) step using False t(1) step [of "[]" Fork] assms(2,3)
      by (simp add: on_files_def files_after_start)
  qed
qed

text \<open>A kernel on which every call succeeds, seen by the child.\<close>

definition child_kernel :: kernel where
  "child_kernel tr c = \<lparr>ret = 0, err = 0, val1 = 0, val2 = 0, str = None\<rparr>"

theorem spawned_files_witness:
  "\<exists>tr'. run_state (OS_SpawnChild child_kernel ''responder'' 5) [] = (Becomes ''responder'', tr')
     \<and> files_after child_kernel [0 \<mapsto> ''stdin'', 1 \<mapsto> ''stdout'', 5 \<mapsto> ''socket''] tr' 0 0 = Some ''socket''
     \<and> files_after child_kernel [0 \<mapsto> ''stdin'', 1 \<mapsto> ''stdout'', 5 \<mapsto> ''socket''] tr' 0 1 = None"
proof -
  obtain tr' where t: "run_state (OS_SpawnChild child_kernel ''responder'' 5) [] = (Becomes ''responder'', tr')"
    by (simp add: OS_SpawnChild_def child_kernel_def FCGI_LISTENSOCK_FILENO_def)
  have d: "ret (child_kernel tr (Dup2 5 0)) \<noteq> -1" for tr
    by (simp add: child_kernel_def)
  from spawned_files [OF t d, of "[0 \<mapsto> ''stdin'', 1 \<mapsto> ''stdout'', 5 \<mapsto> ''socket'']" "''socket''"] t
  show ?thesis by simp
qed

end
