(* ===== verification/Os_Async.thy ===== *)
theory Os_Async
  imports Os_Unix
begin

text \<open>
  The asynchronous input and output of \<open>os_unix.c\<close>: the table of the operations that are waiting,
  two entries for a descriptor, the sets of descriptors given to \<open>select\<close>, and the loop that
  reads, writes and calls the procedures back.  Also the start and the end of the library and
  its signal handlers.

  The kernel is a function of the calls made so far, the trace, and the call.  The
  procedures of the application are a parameter, a function of the procedure's name, its client
  data, the length and the state; they may use every operation of this theory.  A buffer is its
  address: what is read into it is the business of the application.
\<close>

section \<open>Outcomes\<close>

text \<open>
  A computation yields a state, ends the process with a code, or is undefined: an
  \<open>ASSERT\<close> that fails, an access outside the table, a descriptor that does not fit in an
  \<open>fd_set\<close>.
\<close>

datatype 'a outcome = Returns 'a | Exits int | Undefined

primrec and_then :: "'a outcome \<Rightarrow> ('a \<Rightarrow> 'b outcome) \<Rightarrow> 'b outcome" where
  "and_then (Returns x) f = f x"
| "and_then (Exits n) f = Exits n"
| "and_then Undefined f = Undefined"

lemma and_then_cong [fundef_cong]:
  "m = m' \<Longrightarrow> (\<And>x. m' = Returns x \<Longrightarrow> f x = g x) \<Longrightarrow> and_then m f = and_then m' g"
  by (cases m') auto

lemma and_then_Returns: "and_then m f = Returns y \<longleftrightarrow> (\<exists>x. m = Returns x \<and> f x = Returns y)"
  by (cases m) auto

lemma and_then_assoc: "and_then (and_then m f) g = and_then m (\<lambda>x. and_then (f x) g)"
  by (cases m) auto

section \<open>The state\<close>

text \<open>\<open>AioInfo\<close>; an entry of zeroes is \<open>no_aio\<close>.\<close>

record ('p, 'd) aio_info =
  procPtr :: "'p option"
  clientData :: "'d option"
  aio_fd :: int
  aio_len :: int
  aio_offset :: int
  aio_buf :: nat
  inUse :: bool

definition no_aio :: "('p, 'd) aio_info" where
  "no_aio = \<lparr>procPtr = None, clientData = None, aio_fd = 0, aio_len = 0, aio_offset = 0,
             aio_buf = 0, inUse = False\<rparr>"

definition AIO_RD_IX :: "int \<Rightarrow> int" where "AIO_RD_IX fd = fd * 2"
definition AIO_WR_IX :: "int \<Rightarrow> int" where "AIO_WR_IX fd = fd * 2 + 1"

text \<open>The calls of the system, and the procedures that are called back, with their length.\<close>

datatype ('p, 'd) aio_event =
    Malloc nat
  | Realloc nat
  | Select_call int "int set" "int set" "(int \<times> int) option"
  | Read_call int nat int
  | Write_call int nat int
  | Called_back 'p "'d option" int
  | Shutdown_call int int
  | Poll_call int int
  | Read_trash int nat
  | Close_call int

text \<open>An answer of the kernel: the result, \<open>errno\<close>, and the two sets \<open>select\<close> leaves behind.\<close>

record aio_reply =
  aio_ret :: int
  aio_errno :: int
  aio_rd :: "int set"
  aio_wr :: "int set"

type_synonym ('p, 'd) aio_kernel = "('p, 'd) aio_event list \<Rightarrow> ('p, 'd) aio_event \<Rightarrow> aio_reply"

datatype disposition = SIG_DFL | SIG_IGN | OS_SigpipeHandler | OS_Sigusr1Handler | Own_handler nat

record ('p, 'd) aio_state =
  asyncIoInUse :: bool
  asyncIoTableSize :: nat
  asyncIoTable :: "('p, 'd) aio_info list option"
  libInitialized :: bool
  readFdSet :: "int set"
  writeFdSet :: "int set"
  readFdSetPost :: "int set"
  numRdPosted :: int
  writeFdSetPost :: "int set"
  numWrPosted :: int
  maxFd :: int
  libfcgiOsClosePollTimeout :: int
  libfcgiIsAfUnixKeeperPollTimeout :: int
  sig_actions :: "int \<Rightarrow> disposition"
  aio_trace :: "('p, 'd) aio_event list"

definition start_state :: "(int \<Rightarrow> disposition) \<Rightarrow> ('p, 'd) aio_state" where
  "start_state acts =
     \<lparr>asyncIoInUse = False, asyncIoTableSize = 16, asyncIoTable = None, libInitialized = False,
      readFdSet = {}, writeFdSet = {}, readFdSetPost = {}, numRdPosted = 0, writeFdSetPost = {},
      numWrPosted = 0, maxFd = -1, libfcgiOsClosePollTimeout = 2000,
      libfcgiIsAfUnixKeeperPollTimeout = 2000, sig_actions = acts, aio_trace = []\<rparr>"

text \<open>Accesses to the table, and the bound of the sets.\<close>

definition aio_entry :: "('p, 'd, 'z) aio_state_scheme \<Rightarrow> int \<Rightarrow> ('p, 'd) aio_info option" where
  "aio_entry s i =
     (case asyncIoTable s of None \<Rightarrow> None
      | Some t \<Rightarrow> if 0 \<le> i \<and> i < int (length t) then Some (t ! nat i) else None)"

definition set_entry ::
  "int \<Rightarrow> ('p, 'd) aio_info \<Rightarrow> ('p, 'd, 'z) aio_state_scheme \<Rightarrow> ('p, 'd, 'z) aio_state_scheme" where
  "set_entry i a s = s\<lparr>asyncIoTable := map_option (\<lambda>t. t[nat i := a]) (asyncIoTable s)\<rparr>"

definition FD_SETSIZE :: int where "FD_SETSIZE = 1024"

definition fits_fd_set :: "int \<Rightarrow> bool" where
  "fits_fd_set fd \<longleftrightarrow> 0 \<le> fd \<and> fd < FD_SETSIZE"

section \<open>Signals\<close>

definition SIGUSR1 :: int where "SIGUSR1 = 10"
definition SIGPIPE :: int where "SIGPIPE = 13"
definition SIGTERM :: int where "SIGTERM = 15"

definition installSignalHandler :: "int \<Rightarrow> disposition \<Rightarrow> bool \<Rightarrow> (int \<Rightarrow> disposition) \<Rightarrow> int \<Rightarrow> disposition" where
  "installSignalHandler signo act force acts =
     (if force \<or> acts signo = SIG_DFL \<or> acts signo = SIG_IGN then acts(signo := act) else acts)"

definition OS_InstallSignalHandlers :: "bool \<Rightarrow> (int \<Rightarrow> disposition) \<Rightarrow> int \<Rightarrow> disposition" where
  "OS_InstallSignalHandlers force acts =
     (let acts = installSignalHandler SIGPIPE OS_SigpipeHandler force acts;
          acts = installSignalHandler SIGUSR1 OS_Sigusr1Handler force acts
      in installSignalHandler SIGTERM OS_Sigusr1Handler False acts)"

text \<open>What the handlers of the library do to the state \<open>OS_Accept\<close> looks at.\<close>

definition handle_signal :: "disposition \<Rightarrow> 'z os_state_scheme \<Rightarrow> 'z os_state_scheme" where
  "handle_signal h c = (if h = OS_Sigusr1Handler then OS_ShutdownPending c else c)"

section \<open>The start and the end of the library\<close>

text \<open>
  \<open>LibInit K poll keeper s\<close>: \<open>poll\<close> and \<open>keeper\<close> are the two variables of the environment,
  as the numbers \<open>atoi\<close> reads.  The result is the return value.
\<close>

definition LibInit ::
  "('p, 'd) aio_kernel \<Rightarrow> int option \<Rightarrow> int option \<Rightarrow> ('p, 'd, 'z) aio_state_scheme \<Rightarrow>
   int \<times> ('p, 'd, 'z) aio_state_scheme" where
  "LibInit K poll keeper s =
     (if libInitialized s then (0, s)
      else
        let s = (case poll of None \<Rightarrow> s | Some n \<Rightarrow> s\<lparr>libfcgiOsClosePollTimeout := n\<rparr>);
            s = (case keeper of None \<Rightarrow> s | Some n \<Rightarrow> s\<lparr>libfcgiIsAfUnixKeeperPollTimeout := n\<rparr>);
            e = Malloc (asyncIoTableSize s);
            r = K (aio_trace s) e;
            s = s\<lparr>aio_trace := aio_trace s @ [e]\<rparr>
        in if aio_ret r = 0 then (-1, s\<lparr>asyncIoTable := None\<rparr>)
           else (0, s\<lparr>asyncIoTable := Some (replicate (asyncIoTableSize s) no_aio),
                      readFdSet := {}, writeFdSet := {}, readFdSetPost := {}, writeFdSetPost := {},
                      sig_actions := OS_InstallSignalHandlers False (sig_actions s),
                      libInitialized := True\<rparr>))"

definition OS_LibShutdown :: "('p, 'd, 'z) aio_state_scheme \<Rightarrow> ('p, 'd, 'z) aio_state_scheme" where
  "OS_LibShutdown s =
     (if \<not> libInitialized s then s
      else s\<lparr>asyncIoTable := None, libInitialized := False\<rparr>)"

section \<open>Requests\<close>

text \<open>
  The table doubles until the entry is inside it.  (A table that does not exist would be left
  half uninitialised by \<open>realloc\<close>; that is undefined here.)
\<close>

definition ENOMEM :: int where "ENOMEM = 12"

definition GrowAsyncTable ::
  "('p, 'd) aio_kernel \<Rightarrow> ('p, 'd, 'z) aio_state_scheme \<Rightarrow> ('p, 'd, 'z) aio_state_scheme outcome" where
  "GrowAsyncTable K s =
     (case asyncIoTable s of
        None \<Rightarrow> Undefined
      | Some t \<Rightarrow>
          let oldTableSize = asyncIoTableSize s;
              e = Realloc (oldTableSize * 2)
          in if aio_ret (K (aio_trace s) e) = 0 then Exits ENOMEM
             else Returns (s\<lparr>asyncIoTableSize := oldTableSize * 2,
                             asyncIoTable := Some (t @ replicate oldTableSize no_aio),
                             aio_trace := aio_trace s @ [e]\<rparr>))"

function grow_to ::
  "('p, 'd) aio_kernel \<Rightarrow> int \<Rightarrow> ('p, 'd, 'z) aio_state_scheme \<Rightarrow> ('p, 'd, 'z) aio_state_scheme outcome" where
  "grow_to K index s =
     (if index < int (asyncIoTableSize s) then Returns s
      else if asyncIoTableSize s = 0 then Undefined
      else and_then (GrowAsyncTable K s) (grow_to K index))"
  by pat_completeness auto

lemma GrowAsyncTable_size:
  "GrowAsyncTable K s = Returns s' \<Longrightarrow> asyncIoTableSize s' = 2 * asyncIoTableSize s"
  by (auto simp: GrowAsyncTable_def Let_def split: option.splits if_splits)

termination grow_to
  by (relation "measure (\<lambda>(K, index, s). nat (index + 1 - int (asyncIoTableSize s)))")
     (auto simp: GrowAsyncTable_size)

declare grow_to.simps [simp del]

text \<open>The entry of an operation, which must be free, is filled in.\<close>

definition fill_entry ::
  "int \<Rightarrow> int \<Rightarrow> int \<Rightarrow> nat \<Rightarrow> int \<Rightarrow> 'p \<Rightarrow> 'd option \<Rightarrow> ('p, 'd, 'z) aio_state_scheme \<Rightarrow>
   ('p, 'd, 'z) aio_state_scheme outcome" where
  "fill_entry index fd offset buf len proc data s =
     (case aio_entry s index of
        None \<Rightarrow> Undefined
      | Some a \<Rightarrow>
          if inUse a then Undefined
          else Returns (set_entry index
                 \<lparr>procPtr = Some proc, clientData = data, aio_fd = fd, aio_len = len,
                  aio_offset = offset, aio_buf = buf, inUse = True\<rparr> s))"

definition OS_AsyncReadStdin ::
  "nat \<Rightarrow> int \<Rightarrow> 'p \<Rightarrow> 'd option \<Rightarrow> ('p, 'd, 'z) aio_state_scheme \<Rightarrow>
   ('p, 'd, 'z) aio_state_scheme outcome" where
  "OS_AsyncReadStdin buf len proc data s =
     and_then (fill_entry (AIO_RD_IX 0) 0 0 buf len proc data (s\<lparr>asyncIoInUse := True\<rparr>))
       (\<lambda>s. let s = s\<lparr>readFdSet := insert 0 (readFdSet s)\<rparr>
             in Returns (if 0 > maxFd s then s\<lparr>maxFd := 0\<rparr> else s))"

definition OS_AsyncRead ::
  "('p, 'd) aio_kernel \<Rightarrow> int \<Rightarrow> int \<Rightarrow> nat \<Rightarrow> int \<Rightarrow> 'p \<Rightarrow> 'd option \<Rightarrow>
   ('p, 'd, 'z) aio_state_scheme \<Rightarrow> ('p, 'd, 'z) aio_state_scheme outcome" where
  "OS_AsyncRead K fd offset buf len proc data s =
     (let index = AIO_RD_IX fd
      in if asyncIoTable s = None then Undefined
         else
           let s = s\<lparr>asyncIoInUse := True\<rparr>;
               s = (if fd > maxFd s then s\<lparr>maxFd := fd\<rparr> else s)
           in and_then (grow_to K index s) (\<lambda>s.
              and_then (fill_entry index fd offset buf len proc data s) (\<lambda>s.
              if fits_fd_set fd then Returns (s\<lparr>readFdSet := insert fd (readFdSet s)\<rparr>)
              else Undefined)))"

definition OS_AsyncWrite ::
  "('p, 'd) aio_kernel \<Rightarrow> int \<Rightarrow> int \<Rightarrow> nat \<Rightarrow> int \<Rightarrow> 'p \<Rightarrow> 'd option \<Rightarrow>
   ('p, 'd, 'z) aio_state_scheme \<Rightarrow> ('p, 'd, 'z) aio_state_scheme outcome" where
  "OS_AsyncWrite K fd offset buf len proc data s =
     (let index = AIO_WR_IX fd;
          s = s\<lparr>asyncIoInUse := True\<rparr>;
          s = (if fd > maxFd s then s\<lparr>maxFd := fd\<rparr> else s)
      in and_then (grow_to K index s) (\<lambda>s.
         and_then (fill_entry index fd offset buf len proc data s) (\<lambda>s.
         if fits_fd_set fd then Returns (s\<lparr>writeFdSet := insert fd (writeFdSet s)\<rparr>)
         else Undefined)))"

section \<open>Closing\<close>

text \<open>
  The rest of what the peer sends is read and dropped, until it closes, nothing comes for the time
  of the timeout, or an error.  A peer that never stops sending keeps the loop going: \<open>None\<close>.
\<close>

partial_function (option) drain ::
  "('p, 'd) aio_kernel \<Rightarrow> int \<Rightarrow> int \<Rightarrow> ('p, 'd) aio_event list \<Rightarrow> ('p, 'd) aio_event list option" where
  "drain K timeout fd tr =
     (let tr1 = tr @ [Poll_call fd timeout]
      in if aio_ret (K tr (Poll_call fd timeout)) > 0
         then let tr2 = tr1 @ [Read_trash fd 1024]
              in if aio_ret (K tr1 (Read_trash fd 1024)) > 0 then drain K timeout fd tr2
                 else Some tr2
         else Some tr1)"

text \<open>The entry at an index is released; the access must be inside the table.\<close>

definition free_entry ::
  "int \<Rightarrow> ('p, 'd, 'z) aio_state_scheme \<Rightarrow> ('p, 'd, 'z) aio_state_scheme outcome" where
  "free_entry index s =
     (case aio_entry s index of
        None \<Rightarrow> Undefined
      | Some a \<Rightarrow> Returns (if inUse a then set_entry index (a\<lparr>inUse := False\<rparr>) s else s))"

text \<open>The asynchronous part of \<open>OS_Close\<close>, and the whole of it.\<close>

definition close_async ::
  "int \<Rightarrow> ('p, 'd, 'z) aio_state_scheme \<Rightarrow> ('p, 'd, 'z) aio_state_scheme outcome" where
  "close_async fd s =
     (if \<not> fits_fd_set fd then Undefined
      else
        and_then (free_entry (AIO_RD_IX fd)
          (s\<lparr>readFdSet := readFdSet s - {fd}, readFdSetPost := readFdSetPost s - {fd}\<rparr>)) (\<lambda>s.
        and_then (free_entry (AIO_WR_IX fd)
          (s\<lparr>writeFdSet := writeFdSet s - {fd}, writeFdSetPost := writeFdSetPost s - {fd}\<rparr>)) (\<lambda>s.
        Returns (if maxFd s = fd then s\<lparr>maxFd := maxFd s - 1\<rparr> else s))))"

definition Close_fd ::
  "('p, 'd) aio_kernel \<Rightarrow> int \<Rightarrow> bool \<Rightarrow> ('p, 'd, 'z) aio_state_scheme \<Rightarrow>
   (int \<times> ('p, 'd, 'z) aio_state_scheme) outcome" where
  "Close_fd K fd shutdown_ok s =
     (if fd = -1 then Returns (0, s)
      else
        and_then (if asyncIoInUse s then close_async fd s else Returns s) (\<lambda>s.
        let e = Shutdown_call fd 1;
            tr = aio_trace s;
            tr' = (if shutdown_ok
                   then if aio_ret (K tr e) = 0
                        then drain K (libfcgiOsClosePollTimeout s) fd (tr @ [e])
                        else Some (tr @ [e])
                   else Some tr)
        in case tr' of
             None \<Rightarrow> Undefined
           | Some tr \<Rightarrow> Returns (aio_ret (K tr (Close_call fd)),
                                s\<lparr>aio_trace := tr @ [Close_call fd]\<rparr>)))"

definition OS_CloseRead ::
  "('p, 'd) aio_kernel \<Rightarrow> int \<Rightarrow> ('p, 'd, 'z) aio_state_scheme \<Rightarrow>
   (int \<times> ('p, 'd, 'z) aio_state_scheme) outcome" where
  "OS_CloseRead K fd s =
     (case aio_entry s (AIO_RD_IX fd) of
        None \<Rightarrow> Undefined
      | Some a \<Rightarrow>
          and_then
            (if inUse a
             then let s = set_entry (AIO_RD_IX fd) (a\<lparr>inUse := False\<rparr>) s
                  in if fits_fd_set fd then Returns (s\<lparr>readFdSet := readFdSet s - {fd}\<rparr>)
                     else Undefined
             else Returns s) (\<lambda>s.
          Returns (aio_ret (K (aio_trace s) (Shutdown_call fd 0)),
                   s\<lparr>aio_trace := aio_trace s @ [Shutdown_call fd 0]\<rparr>)))"

section \<open>The loop of events\<close>

type_synonym ('p, 'd, 'z) callbacks =
  "'p \<Rightarrow> 'd option \<Rightarrow> int \<Rightarrow> ('p, 'd, 'z) aio_state_scheme \<Rightarrow> ('p, 'd, 'z) aio_state_scheme outcome"

text \<open>What \<open>select\<close> reports about a descriptor becomes a posted event.\<close>

definition post_fd ::
  "int set \<Rightarrow> int set \<Rightarrow> int \<Rightarrow> ('p, 'd, 'z) aio_state_scheme \<Rightarrow> ('p, 'd, 'z) aio_state_scheme" where
  "post_fd rd wr fd s =
     (let s = (if fd \<in> rd
               then s\<lparr>numRdPosted := numRdPosted s + 1, readFdSetPost := insert fd (readFdSetPost s),
                      readFdSet := readFdSet s - {fd}\<rparr>
               else s)
      in if fd \<in> wr
         then s\<lparr>numWrPosted := numWrPosted s + 1, writeFdSetPost := insert fd (writeFdSetPost s),
                writeFdSet := writeFdSet s - {fd}\<rparr>
         else s)"

text \<open>
  \<open>select\<close> on copies of the sets: it takes members out of them and adds none.
\<close>

definition select_events ::
  "('p, 'd) aio_kernel \<Rightarrow> (int \<times> int) option \<Rightarrow> ('p, 'd, 'z) aio_state_scheme \<Rightarrow>
   ('p, 'd, 'z) aio_state_scheme outcome" where
  "select_events K tmo s =
     (let rd = {fd \<in> readFdSet s. 0 \<le> fd \<and> fd \<le> maxFd s};
          wr = {fd \<in> writeFdSet s. 0 \<le> fd \<and> fd \<le> maxFd s};
          e = Select_call (maxFd s + 1) rd wr tmo;
          r = K (aio_trace s) e
      in if aio_ret r < 0 then Exits (aio_errno r)
         else Returns (fold (post_fd (rd \<inter> aio_rd r) (wr \<inter> aio_wr r)) [0..maxFd s]
                        (s\<lparr>aio_trace := aio_trace s @ [e]\<rparr>)))"

definition dispatch_read ::
  "('p, 'd) aio_kernel \<Rightarrow> ('p, 'd, 'z) callbacks \<Rightarrow> int \<Rightarrow> ('p, 'd, 'z) aio_state_scheme \<Rightarrow>
   ('p, 'd, 'z) aio_state_scheme outcome" where
  "dispatch_read K cb fd s =
     (if fd \<notin> readFdSetPost s then Returns s
      else case aio_entry s (AIO_RD_IX fd) of
        None \<Rightarrow> Undefined
      | Some a \<Rightarrow>
          if \<not> inUse a then Returns s
          else
            let s = s\<lparr>numRdPosted := numRdPosted s - 1, readFdSetPost := readFdSetPost s - {fd}\<rparr>;
                e = Read_call (aio_fd a) (aio_buf a) (aio_len a);
                len = aio_ret (K (aio_trace s) e);
                s = set_entry (AIO_RD_IX fd) (a\<lparr>procPtr := None, inUse := False\<rparr>) s
            in case procPtr a of
                 None \<Rightarrow> Undefined
               | Some p \<Rightarrow>
                   cb p (clientData a) len
                     (s\<lparr>aio_trace := aio_trace s @ [e, Called_back p (clientData a) len]\<rparr>))"

definition dispatch_write ::
  "('p, 'd) aio_kernel \<Rightarrow> ('p, 'd, 'z) callbacks \<Rightarrow> int \<Rightarrow> ('p, 'd, 'z) aio_state_scheme \<Rightarrow>
   ('p, 'd, 'z) aio_state_scheme outcome" where
  "dispatch_write K cb fd s =
     (if fd \<notin> writeFdSetPost s then Returns s
      else case aio_entry s (AIO_WR_IX fd) of
        None \<Rightarrow> Undefined
      | Some a \<Rightarrow>
          if \<not> inUse a then Returns s
          else
            let s = s\<lparr>numWrPosted := numWrPosted s - 1, writeFdSetPost := writeFdSetPost s - {fd}\<rparr>;
                e = Write_call (aio_fd a) (aio_buf a) (aio_len a);
                len = aio_ret (K (aio_trace s) e);
                s = set_entry (AIO_WR_IX fd) (a\<lparr>procPtr := None, inUse := False\<rparr>) s
            in case procPtr a of
                 None \<Rightarrow> Undefined
               | Some p \<Rightarrow>
                   cb p (clientData a) len
                     (s\<lparr>aio_trace := aio_trace s @ [e, Called_back p (clientData a) len]\<rparr>))"

text \<open>The loop reads \<open>maxFd\<close> afresh each time, as the procedures may change it.\<close>

function dispatch ::
  "('p, 'd) aio_kernel \<Rightarrow> ('p, 'd, 'z) callbacks \<Rightarrow> int \<Rightarrow> ('p, 'd, 'z) aio_state_scheme \<Rightarrow>
   ('p, 'd, 'z) aio_state_scheme outcome" where
  "dispatch K cb fd s =
     (if maxFd s < fd then Returns s
      else if FD_SETSIZE \<le> fd then Undefined
      else and_then (dispatch_read K cb fd s) (\<lambda>s.
           and_then (dispatch_write K cb fd s) (dispatch K cb (fd + 1))))"
  by pat_completeness auto

termination dispatch
  by (relation "measure (\<lambda>(K, cb, fd, s). nat (FD_SETSIZE - fd))") auto

declare dispatch.simps [simp del]

definition OS_DoIo ::
  "('p, 'd) aio_kernel \<Rightarrow> ('p, 'd, 'z) callbacks \<Rightarrow> (int \<times> int) option \<Rightarrow>
   ('p, 'd, 'z) aio_state_scheme \<Rightarrow> ('p, 'd, 'z) aio_state_scheme outcome" where
  "OS_DoIo K cb tmo s =
     and_then
       (let s = s\<lparr>asyncIoInUse := True\<rparr>
        in if numRdPosted s = 0 \<and> numWrPosted s = 0 then select_events K tmo s else Returns s)
       (\<lambda>s. if numRdPosted s = 0 \<and> numWrPosted s = 0 then Returns s else dispatch K cb 0 s)"

end
