(* ===== verification/Os_Win32.thy ===== *)
theory Os_Win32
  imports Os_Client Os_Async
begin

text \<open>
  \<open>os_win32.c\<close>, the operating system layer for Windows.  Descriptors are indices of the table \<open>fdTable\<close>, which
  maps them to the handles of pipes and sockets; asynchronous operations are completed through I/O
  completion ports.  A state is a \<open>win_state\<close>; what the system calls return is up to \<open>W\<close>, a
  function of the calls so far, as in \<open>Posix\<close>.  The results are those of \<open>Os_Async\<close>: a function returns,
  ends the process, or is undefined, which a failed \<open>ASSERT\<close>, an index outside the table and a loop
  that never ends are.  Locks and messages are left out; names end in \<open>_win\<close> where \<open>os_unix.c\<close> has the same.
\<close>

section \<open>The state\<close>

datatype file_type =
  FD_UNUSED | FD_FILE_SYNC | FD_FILE_ASYNC | FD_SOCKET_SYNC | FD_SOCKET_ASYNC | FD_PIPE_SYNC | FD_PIPE_ASYNC

text \<open>
  \<open>FD_TABLE\<close>: the two pointers are null, or addresses in the memory that processes share, and the null
  handle is 0.  The list \<open>ovList\<close> is always empty and left out.
\<close>

record fd_entry =
  fid :: int
  ftype :: file_type
  fpath :: "string option"
  fErrno :: int
  finstance :: nat
  fstatus :: int
  foffset :: int
  offsetHighPtr :: "nat option"
  offsetLowPtr :: "nat option"
  hMapMutex :: int

text \<open>The table is initialised with zeroes.\<close>

definition unused_entry :: fd_entry where
  "unused_entry =
     \<lparr>fid = 0, ftype = FD_UNUSED, fpath = None, fErrno = 0, finstance = 0, fstatus = 0, foffset = 0,
      offsetHighPtr = None, offsetLowPtr = None, hMapMutex = 0\<rparr>"

definition WIN32_OPEN_MAX :: nat where "WIN32_OPEN_MAX = 128"

text \<open>\<open>OVERLAPPED_REQUEST\<close>, with the offset of its first member.\<close>

record ('p, 'd) overlapped_request =
  Offset :: "32 word"
  OffsetHigh :: "32 word"
  ov_instance :: nat
  ov_proc :: 'p
  ov_clientData :: 'd
  ov_clientData1 :: int

text \<open>The calls; a handle, a socket and the address of a request are numbers.\<close>

datatype win_call =
    WSAStartup
  | CreateIoCompletionPort int int int
  | Getenv string
  | Beginthread string int
  | DuplicateHandle int
  | SetStdHandle int
  | CloseHandle int
  | SetNamedPipeHandleState int
  | SetHandleInformation int bool
  | ReleaseMutex int
  | DisconnectNamedPipe int
  | CancelIo int
  | WSACleanup
  | CreateMutex
  | Win_socket
  | Win_bind int int
  | Win_listen int int
  | Closesocket int
  | Win_malloc nat
  | CreateNamedPipe string
  | Win_gethostbyname string
  | Win_connect int string int
  | CreateFile string
  | ReadFile int int
  | Recv int int
  | WriteFile int "byte list"
  | Send int "byte list"
  | CreateProcess string int
  | PostQueuedCompletionStatus int int int int
  | ReadFile_overlapped int int int
  | WriteFile_overlapped int int int
  | WaitForSingleObject int
  | Win_shutdown int int
  | Win_select int
  | GetQueuedCompletionStatus int int
  | Ftime
  | ConnectNamedPipe int
  | WSAAccept int
  | FlushFileBuffers int
  | Ioctlsocket int

text \<open>
  What a call returns: its result, which for a Boolean is 0 or not, and the last error; the number of
  bytes, the key and the address of the request of a completion; a handle it gives back, data, a string;
  and whether the thread that waits for the event of a shutdown has set its flag during the call.
\<close>

record win_reply =
  res :: int
  last_error :: int
  nbytes :: int
  compl_key :: int
  compl_ov :: int
  out_handle :: int
  rdata :: "byte list"
  rtext :: "string option"
  signalled :: bool

record ('p, 'd) win_state =
  fdTable :: "fd_entry list"
  hIoCompPort :: int
  hStdinCompPort :: int
  stdioHandles :: "nat \<Rightarrow> int"
  std_handle :: "nat \<Rightarrow> int"
  acceptMutex :: int
  shutdownPending_win :: bool
  shutdownNow :: bool
  listenType :: file_type
  hListen :: int
  libInitialized_win :: bool
  requests :: "int \<rightharpoonup> ('p, 'd) overlapped_request"
  shared_mem :: "nat \<Rightarrow> 32 word"
  win_calls :: "win_call list"

type_synonym win_kernel = "win_call list \<Rightarrow> win_call \<Rightarrow> win_reply"

text \<open>A call and what follows it.\<close>

definition ask ::
  "win_kernel \<Rightarrow> win_call \<Rightarrow> ('p, 'd, 'z) win_state_scheme \<Rightarrow>
   (win_reply \<Rightarrow> ('p, 'd, 'z) win_state_scheme \<Rightarrow> 'a outcome) \<Rightarrow> 'a outcome" where
  "ask W c s k = k (W (win_calls s) c) (s\<lparr>win_calls := win_calls s @ [c]\<rparr>)"

definition INVALID_HANDLE :: int where "INVALID_HANDLE = -1"

text \<open>The entry of a descriptor that must be in the table.\<close>

definition fd_entry :: "('p, 'd, 'z) win_state_scheme \<Rightarrow> int \<Rightarrow> fd_entry option" where
  "fd_entry s fd = (if 0 \<le> fd \<and> fd < int WIN32_OPEN_MAX then Some (fdTable s ! nat fd) else None)"

definition set_fd :: "int \<Rightarrow> fd_entry \<Rightarrow> ('p, 'd, 'z) win_state_scheme \<Rightarrow> ('p, 'd, 'z) win_state_scheme" where
  "set_fd fd e s = s\<lparr>fdTable := (fdTable s)[nat fd := e]\<rparr>"

definition set_errno :: "int \<Rightarrow> int \<Rightarrow> ('p, 'd, 'z) win_state_scheme \<Rightarrow> ('p, 'd, 'z) win_state_scheme" where
  "set_errno fd n s = set_fd fd ((fdTable s ! nat fd)\<lparr>fErrno := n\<rparr>) s"

section \<open>Descriptors\<close>

definition new_entry :: "file_type \<Rightarrow> int \<Rightarrow> fd_entry \<Rightarrow> fd_entry" where
  "new_entry ty fd e =
     e\<lparr>fid := fd, ftype := ty, fpath := None, fErrno := 0, fstatus := 0, foffset := -1,
       offsetHighPtr := None, offsetLowPtr := None, hMapMutex := 0\<rparr>"

text \<open>The first free entry from \<open>i\<close> on.\<close>

definition find_unused :: "nat \<Rightarrow> fd_entry list \<Rightarrow> int" where
  "find_unused i tab = (case find (\<lambda>j. ftype (tab ! j) = FD_UNUSED) [i..<WIN32_OPEN_MAX] of Some j \<Rightarrow> int j | None \<Rightarrow> -1)"

definition Win32NewDescriptor ::
  "file_type \<Rightarrow> int \<Rightarrow> int \<Rightarrow> ('p, 'd, 'z) win_state_scheme \<Rightarrow> int \<times> ('p, 'd, 'z) win_state_scheme" where
  "Win32NewDescriptor ty fd desiredFd s =
     (let tab = fdTable s;
          index =
            (if 0 \<le> desiredFd \<and> desiredFd < int WIN32_OPEN_MAX then
               (if ftype (tab ! nat desiredFd) = FD_UNUSED then desiredFd else -1)
             else if fd > 0 then
               (if fd < int WIN32_OPEN_MAX \<and> ftype (tab ! nat fd) = FD_UNUSED then fd else find_unused 1 tab)
             else -1)
      in (index, if index \<noteq> -1 then set_fd index (new_entry ty fd (tab ! nat index)) s else s))"

text \<open>An entry that has a file's type must have a path, and any other none.\<close>

definition Win32FreeDescriptor ::
  "win_kernel \<Rightarrow> int \<Rightarrow> ('p, 'd, 'z) win_state_scheme \<Rightarrow> ('p, 'd, 'z) win_state_scheme outcome" where
  "Win32FreeDescriptor W fd s =
     (case fd_entry s fd of
        None \<Rightarrow> Undefined
      | Some e \<Rightarrow>
          if ftype e = FD_UNUSED then Returns s
          else if ftype e \<in> {FD_FILE_SYNC, FD_FILE_ASYNC} \<and> fpath e = None then Undefined
          else if ftype e \<notin> {FD_FILE_SYNC, FD_FILE_ASYNC} \<and> fpath e \<noteq> None then Undefined
          else
            let e1 = e\<lparr>ftype := FD_UNUSED, fpath := None, fErrno := 0, offsetHighPtr := None, offsetLowPtr := None\<rparr>
            in if hMapMutex e \<noteq> 0
               then ask W (CloseHandle (hMapMutex e)) (set_fd fd e1 s)
                      (\<lambda>r s. Returns (set_fd fd (e1\<lparr>hMapMutex := 0\<rparr>) s))
               else Returns (set_fd fd e1 s))"

section \<open>Starting and ending\<close>

definition OS_ShutdownPending_win :: "('p, 'd, 'z) win_state_scheme \<Rightarrow> ('p, 'd, 'z) win_state_scheme" where
  "OS_ShutdownPending_win s = s\<lparr>shutdownPending_win := True\<rparr>"

text \<open>
  The thread that waits for the event of a shutdown; \<open>raise(SIGTERM)\<close> runs the handler, which
  comes back.
\<close>

definition ShutdownRequestThread ::
  "win_kernel \<Rightarrow> int \<Rightarrow> ('p, 'd, 'z) win_state_scheme \<Rightarrow> ('p, 'd, 'z) win_state_scheme outcome" where
  "ShutdownRequestThread W event s =
     ask W (WaitForSingleObject event) s (\<lambda>r s.
       let s = s\<lparr>shutdownPending_win := True\<rparr>
       in if listenType s = FD_PIPE_SYNC then Exits 0 else Returns s)"

text \<open>
  One round of the thread that reads the standard input; whether it goes on.  A request has the
  descriptor of the standard input, or -1 to end the thread.
\<close>

definition StdinThread ::
  "win_kernel \<Rightarrow> ('p, 'd, 'z) win_state_scheme \<Rightarrow> (bool \<times> ('p, 'd, 'z) win_state_scheme) outcome" where
  "StdinThread W s =
     ask W (GetQueuedCompletionStatus (hStdinCompPort s) (-1)) s (\<lambda>r s.
       if res r = 0 \<and> compl_ov r = 0 then Returns (False, s)
       else if compl_key r \<noteq> 0 \<and> compl_key r \<noteq> -1 then Undefined
       else if compl_key r = -1 then Returns (False, s)
       else
         case requests s (compl_ov r) of
           None \<Rightarrow> Undefined
         | Some q \<Rightarrow>
             if ov_clientData1 q = 0 then Undefined
             else ask W (ReadFile (stdioHandles s 0) (nbytes r)) s (\<lambda>rd s.
               if res rd \<noteq> 0
               then ask W (PostQueuedCompletionStatus (hIoCompPort s) (nbytes rd) 0 (compl_ov r)) s
                      (\<lambda>_ s. Returns (True, s))
               else Returns (False, s)))"

definition MUTEX_VARNAME :: string where "MUTEX_VARNAME = ''_FCGI_MUTEX_''"
definition SHUTDOWN_EVENT_NAME :: string where "SHUTDOWN_EVENT_NAME = ''_FCGI_SHUTDOWN_EVENT_''"
definition LOCALHOST :: string where "LOCALHOST = ''localhost''"

text \<open>
  A completion port is made unless there is one, and whether that went well; the code takes the invalid
  handle for the sign of an error.
\<close>

definition io_port ::
  "win_kernel \<Rightarrow> ('p, 'd, 'z) win_state_scheme \<Rightarrow> (bool \<times> ('p, 'd, 'z) win_state_scheme) outcome" where
  "io_port W s =
     (if hIoCompPort s \<noteq> INVALID_HANDLE then Returns (True, s)
      else ask W (CreateIoCompletionPort INVALID_HANDLE 0 0) s (\<lambda>r s.
        Returns (res r \<noteq> INVALID_HANDLE, s\<lparr>hIoCompPort := res r\<rparr>)))"

definition stdin_port ::
  "win_kernel \<Rightarrow> ('p, 'd, 'z) win_state_scheme \<Rightarrow> (bool \<times> ('p, 'd, 'z) win_state_scheme) outcome" where
  "stdin_port W s =
     (if hStdinCompPort s \<noteq> INVALID_HANDLE then Returns (True, s)
      else ask W (CreateIoCompletionPort INVALID_HANDLE 0 0) s (\<lambda>r s.
        Returns (res r \<noteq> INVALID_HANDLE, s\<lparr>hStdinCompPort := res r\<rparr>)))"

text \<open>The environment may name an event for the shutdown, and a mutex for \<open>OS_Accept\<close>.\<close>

definition env_mutex ::
  "win_kernel \<Rightarrow> ('p, 'd, 'z) win_state_scheme \<Rightarrow> (bool \<times> ('p, 'd, 'z) win_state_scheme) outcome" where
  "env_mutex W s =
     (if acceptMutex s = INVALID_HANDLE
      then ask W (Getenv MUTEX_VARNAME) s (\<lambda>r s.
             Returns (True, case rtext r of None \<Rightarrow> s | Some v \<Rightarrow> s\<lparr>acceptMutex := atoi v\<rparr>))
      else Returns (True, s))"

definition env_handles ::
  "win_kernel \<Rightarrow> ('p, 'd, 'z) win_state_scheme \<Rightarrow> (bool \<times> ('p, 'd, 'z) win_state_scheme) outcome" where
  "env_handles W s =
     ask W (Getenv SHUTDOWN_EVENT_NAME) s (\<lambda>r s.
       case rtext r of
         None \<Rightarrow> env_mutex W s
       | Some v \<Rightarrow> ask W (Beginthread ''ShutdownRequestThread'' (atoi v)) s (\<lambda>r s.
           if res r = -1 then Returns (False, s) else env_mutex W s))"

text \<open>
  A FastCGI process has a listener as its standard input, and neither an output nor an error stream;
  it is a pipe when its mode can be set.
\<close>

definition std_listener ::
  "win_kernel \<Rightarrow> ('p, 'd, 'z) win_state_scheme \<Rightarrow> (bool \<times> ('p, 'd, 'z) win_state_scheme) outcome" where
  "std_listener W s =
     (if std_handle s 1 = INVALID_HANDLE \<and> std_handle s 2 = INVALID_HANDLE \<and> std_handle s 0 \<noteq> INVALID_HANDLE
      then
        let oldStdIn = std_handle s 0
        in ask W (DuplicateHandle oldStdIn) s (\<lambda>r s.
             if res r = 0 then Returns (False, s)
             else let s = s\<lparr>hListen := out_handle r\<rparr>
             in ask W (SetStdHandle (hListen s)) s (\<lambda>r s.
                  if res r = 0 then Returns (False, s)
                  else let s = s\<lparr>std_handle := (std_handle s)(0 := hListen s)\<rparr>
                  in ask W (CloseHandle oldStdIn) s (\<lambda>_ s.
                       ask W (SetNamedPipeHandleState (hListen s)) s (\<lambda>r s.
                         Returns (True, s\<lparr>listenType := (if res r \<noteq> 0 then FD_PIPE_SYNC else FD_SOCKET_SYNC)\<rparr>)))))
      else Returns (True, s))"

text \<open>The standard files: their descriptors are put in the array of the caller.\<close>

definition std_in ::
  "win_kernel \<Rightarrow> int list \<Rightarrow> ('p, 'd, 'z) win_state_scheme \<Rightarrow> (bool \<times> int list \<times> ('p, 'd, 'z) win_state_scheme) outcome" where
  "std_in W fds s =
     (let s = s\<lparr>stdioHandles := (stdioHandles s)(0 := std_handle s 0)\<rparr>
      in ask W (SetHandleInformation (stdioHandles s 0) False) s (\<lambda>_ s.
        case Win32NewDescriptor FD_PIPE_SYNC (stdioHandles s 0) 0 s of (fakeFd, s) \<Rightarrow>
          if fakeFd = -1 then Returns (False, fds, s)
          else let fds = fds[0 := fakeFd]
          in and_then (stdin_port W s) (\<lambda>(ok, s).
               if \<not> ok then Returns (False, fds, s)
               else ask W (Getenv ''CONTENT_LENGTH'') s (\<lambda>r s.
                 case rtext r of
                   None \<Rightarrow> Returns (True, fds, s)
                 | Some v \<Rightarrow>
                     if atoi v > 0
                     then ask W (Beginthread ''StdinThread'' 0) s (\<lambda>r s. Returns (res r \<noteq> -1, fds, s))
                     else Returns (True, fds, s)))))"

definition std_out ::
  "win_kernel \<Rightarrow> nat \<Rightarrow> int list \<Rightarrow> ('p, 'd, 'z) win_state_scheme \<Rightarrow> (bool \<times> int list \<times> ('p, 'd, 'z) win_state_scheme) outcome" where
  "std_out W i fds s =
     (let s = s\<lparr>stdioHandles := (stdioHandles s)(i := std_handle s i)\<rparr>
      in ask W (SetHandleInformation (stdioHandles s i) False) s (\<lambda>r s.
        if res r = 0 then Exits 99
        else case Win32NewDescriptor FD_PIPE_SYNC (stdioHandles s i) (int i) s of (fakeFd, s) \<Rightarrow>
          if fakeFd = -1 then Returns (False, fds, s) else Returns (True, fds[i := fakeFd], s)))"

text \<open>
  \<open>OS_LibInit\<close>: its result and the array; \<open>None\<close> is the null pointer, for which alone the library
  notes that it has been initialised.
\<close>

definition OS_LibInit_win ::
  "win_kernel \<Rightarrow> int list option \<Rightarrow> ('p, 'd, 'z) win_state_scheme \<Rightarrow>
   (int \<times> int list option \<times> ('p, 'd, 'z) win_state_scheme) outcome" where
  "OS_LibInit_win W stdioFds s =
     (if libInitialized_win s then Returns (0, stdioFds, s)
      else ask W WSAStartup s (\<lambda>r s.
        if res r \<noteq> 0 then Exits 111
        else and_then (io_port W s) (\<lambda>(ok, s).
          if \<not> ok then Returns (-1, stdioFds, s)
          else and_then (env_handles W s) (\<lambda>(ok, s).
            if \<not> ok then Returns (-1, stdioFds, s)
            else and_then (std_listener W s) (\<lambda>(ok, s).
              if \<not> ok then Returns (-1, stdioFds, s)
              else case stdioFds of
                None \<Rightarrow> Returns (0, None, s\<lparr>libInitialized_win := True\<rparr>)
              | Some fds \<Rightarrow>
                  and_then (std_in W fds s) (\<lambda>(ok, fds, s).
                    if \<not> ok then Returns (-1, Some fds, s)
                    else and_then (std_out W 1 fds s) (\<lambda>(ok, fds, s).
                      if \<not> ok then Returns (-1, Some fds, s)
                      else and_then (std_out W 2 fds s) (\<lambda>(ok, fds, s).
                        Returns (if ok then 0 else -1, Some fds, s)))))))))"

definition OS_LibShutdown_win ::
  "win_kernel \<Rightarrow> ('p, 'd, 'z) win_state_scheme \<Rightarrow> ('p, 'd, 'z) win_state_scheme outcome" where
  "OS_LibShutdown_win W s =
     and_then (if hIoCompPort s \<noteq> INVALID_HANDLE
               then ask W (CloseHandle (hIoCompPort s)) s (\<lambda>_ s. Returns (s\<lparr>hIoCompPort := INVALID_HANDLE\<rparr>))
               else Returns s) (\<lambda>s.
     and_then (if hStdinCompPort s \<noteq> INVALID_HANDLE
               then ask W (CloseHandle (hStdinCompPort s)) s (\<lambda>_ s. Returns (s\<lparr>hStdinCompPort := INVALID_HANDLE\<rparr>))
               else Returns s) (\<lambda>s.
     and_then (if acceptMutex s \<noteq> INVALID_HANDLE
               then ask W (ReleaseMutex (acceptMutex s)) s (\<lambda>_ s. Returns s)
               else Returns s) (\<lambda>s.
     ask W (DisconnectNamedPipe (hListen s)) s (\<lambda>_ s.
     ask W (CancelIo (hListen s)) s (\<lambda>_ s.
     ask W WSACleanup s (\<lambda>_ s. Returns s))))))"

section \<open>Listening and connecting\<close>

text \<open>The number behind the first colon, of five characters at most, as a \<open>short\<close>.\<close>

definition getPort :: "string \<Rightarrow> int" where
  "getPort bindPath =
     (let p = dropWhile (\<lambda>c. c \<noteq> CHR '':'') bindPath
      in if p \<noteq> [] \<and> tl p \<noteq> [] then to_i16 (atoi (take 5 (tl p))) else 0)"

definition bindPathPrefix :: string where
  "bindPathPrefix =
     [CHR 0x5C, CHR 0x5C, CHR ''.'', CHR 0x5C] @ ''pipe'' @ [CHR 0x5C] @ ''FastCGI'' @ [CHR 0x5C]"

text \<open>The mutex of \<open>OS_Accept\<close>, and 0 or the error.\<close>

definition make_mutex ::
  "win_kernel \<Rightarrow> ('p, 'd, 'z) win_state_scheme \<Rightarrow> (int \<times> ('p, 'd, 'z) win_state_scheme) outcome" where
  "make_mutex W s =
     (if acceptMutex s \<noteq> INVALID_HANDLE then Returns (0, s)
      else ask W CreateMutex s (\<lambda>r s.
        let s = s\<lparr>acceptMutex := res r\<rparr>
        in if acceptMutex s = 0 then Returns (-2, s)
           else ask W (SetHandleInformation (acceptMutex s) True) s (\<lambda>r s.
             Returns (if res r = 0 then -3 else 0, s))))"

definition listen_on_port ::
  "win_kernel \<Rightarrow> int \<Rightarrow> int \<Rightarrow> ('p, 'd, 'z) win_state_scheme \<Rightarrow> (int \<times> ('p, 'd, 'z) win_state_scheme) outcome" where
  "listen_on_port W prt backlg s =
     ask W Win_socket s (\<lambda>r s.
       let listenSock = res r
       in if listenSock = INVALID_HANDLE then Returns (-4, s)
          else ask W (Win_bind listenSock prt) s (\<lambda>r s.
            if res r \<noteq> 0 then Returns (-12, s)
            else ask W (Win_listen listenSock backlg) s (\<lambda>r s.
              if res r \<noteq> 0 then Returns (-5, s)
              else case Win32NewDescriptor (listenType s) listenSock (-1) s of (pseudoFd, s) \<Rightarrow>
                if pseudoFd = -1 then ask W (Closesocket listenSock) s (\<lambda>_ s. Returns (-6, s))
                else Returns (pseudoFd, s\<lparr>hListen := listenSock\<rparr>))))"

definition listen_on_pipe ::
  "win_kernel \<Rightarrow> string \<Rightarrow> ('p, 'd, 'z) win_state_scheme \<Rightarrow> (int \<times> ('p, 'd, 'z) win_state_scheme) outcome" where
  "listen_on_pipe W bindPath s =
     (let pipePath = bindPathPrefix @ bindPath
      in ask W (Win_malloc (length pipePath + 1)) s (\<lambda>r s.
        if res r = 0 then Returns (-7, s)
        else ask W (CreateNamedPipe pipePath) s (\<lambda>r s.
          let hListenPipe = res r
          in if hListenPipe = INVALID_HANDLE then Returns (-8, s)
             else ask W (SetHandleInformation hListenPipe True) s (\<lambda>r s.
               if res r = 0 then Returns (-9, s)
               else case Win32NewDescriptor (listenType s) hListenPipe (-1) s of (pseudoFd, s) \<Rightarrow>
                 if pseudoFd = -1 then ask W (CloseHandle hListenPipe) s (\<lambda>_ s. Returns (-10, s))
                 else Returns (pseudoFd, s\<lparr>hListen := hListenPipe\<rparr>)))))"

text \<open>A port can only be taken on the local host.\<close>

definition OS_CreateLocalIpcFd_win ::
  "win_kernel \<Rightarrow> string \<Rightarrow> int \<Rightarrow> ('p, 'd, 'z) win_state_scheme \<Rightarrow> (int \<times> ('p, 'd, 'z) win_state_scheme) outcome" where
  "OS_CreateLocalIpcFd_win W bindPath backlg s =
     (let prt = getPort bindPath
      in and_then (make_mutex W s) (\<lambda>(rc, s).
        if rc \<noteq> 0 then Returns (rc, s)
        else if prt \<noteq> 0 \<and> take 1 bindPath \<noteq> '':'' \<and> take (length LOCALHOST) bindPath \<noteq> LOCALHOST then Exits 1
        else
          let s = s\<lparr>listenType := (if prt \<noteq> 0 then FD_SOCKET_SYNC else FD_PIPE_ASYNC)\<rparr>
          in if prt \<noteq> 0 then listen_on_port W prt backlg s else listen_on_pipe W bindPath s))"

text \<open>Connecting to a port; the error of the code, which takes the 0 of \<open>connect\<close> for a failure, is kept.\<close>

definition connect_port ::
  "win_kernel \<Rightarrow> string \<Rightarrow> int \<Rightarrow> ('p, 'd, 'z) win_state_scheme \<Rightarrow> (int \<times> ('p, 'd, 'z) win_state_scheme) outcome" where
  "connect_port W host prt s =
     ask W (Win_gethostbyname host) s (\<lambda>r s.
       case rtext r of
         None \<Rightarrow> Returns (-1, s)
       | Some ip \<Rightarrow>
           ask W Win_socket s (\<lambda>r s.
             let sock = res r
             in if sock = INVALID_HANDLE then Returns (-1, s)
                else ask W (Win_connect sock ip prt) s (\<lambda>r s.
                  if res r = 0 then ask W (Closesocket sock) s (\<lambda>_ s. Returns (-1, s))
                  else case Win32NewDescriptor FD_SOCKET_SYNC sock (-1) s of (pseudoFd, s) \<Rightarrow>
                    if pseudoFd = -1 then ask W (Closesocket sock) s (\<lambda>_ s. Returns (-1, s))
                    else Returns (pseudoFd, s))))"

definition connect_pipe ::
  "win_kernel \<Rightarrow> string \<Rightarrow> ('p, 'd, 'z) win_state_scheme \<Rightarrow> (int \<times> ('p, 'd, 'z) win_state_scheme) outcome" where
  "connect_pipe W bindPath s =
     (let pipePath = bindPathPrefix @ bindPath
      in ask W (Win_malloc (length pipePath + 1)) s (\<lambda>r s.
        if res r = 0 then Returns (-1, s)
        else ask W (CreateFile pipePath) s (\<lambda>r s.
          let hPipe = res r
          in if hPipe = INVALID_HANDLE then Returns (-1, s)
             else case Win32NewDescriptor FD_PIPE_ASYNC hPipe (-1) s of (pseudoFd, s) \<Rightarrow>
               if pseudoFd = -1 then ask W (CloseHandle hPipe) s (\<lambda>_ s. Returns (-1, s))
               else ask W (CreateIoCompletionPort hPipe (hIoCompPort s) pseudoFd) s (\<lambda>r s.
                 if res r = 0
                 then and_then (Win32FreeDescriptor W pseudoFd s) (\<lambda>s.
                        ask W (CloseHandle hPipe) s (\<lambda>_ s. Returns (-1, s)))
                 else Returns (pseudoFd, s)))))"

definition OS_FcgiConnect_win ::
  "win_kernel \<Rightarrow> string \<Rightarrow> ('p, 'd, 'z) win_state_scheme \<Rightarrow> (int \<times> ('p, 'd, 'z) win_state_scheme) outcome" where
  "OS_FcgiConnect_win W bindPath s =
     (let prt = getPort bindPath; host = takeWhile (\<lambda>c. c \<noteq> CHR '':'') bindPath
      in if prt = 0 then connect_pipe W bindPath s
         else if take 1 bindPath = '':'' then connect_port W LOCALHOST prt s
         else ask W (Win_malloc (length host + 1)) s (\<lambda>r s.
           if res r = 0 then Undefined else connect_port W host prt s))"

section \<open>Reading and writing\<close>

definition ERROR_NO_DATA :: int where "ERROR_NO_DATA = 232"
definition ERROR_PIPE_NOT_CONNECTED :: int where "ERROR_PIPE_NOT_CONNECTED = 233"
definition ERROR_PIPE_CONNECTED :: int where "ERROR_PIPE_CONNECTED = 535"
definition ERROR_IO_PENDING :: int where "ERROR_IO_PENDING = 997"
definition WSAECONNREFUSED :: int where "WSAECONNREFUSED = 10061"

text \<open>\<open>OS_Read\<close>: the result and the bytes; a file or pipe is read with \<open>ReadFile\<close>, a socket with \<open>recv\<close>.\<close>

definition OS_Read_win ::
  "win_kernel \<Rightarrow> int \<Rightarrow> int \<Rightarrow> ('p, 'd, 'z) win_state_scheme \<Rightarrow> (int \<times> byte list \<times> ('p, 'd, 'z) win_state_scheme) outcome" where
  "OS_Read_win W fd len s =
     (case fd_entry s fd of
        None \<Rightarrow> Undefined
      | Some e \<Rightarrow>
          if shutdownNow s then Returns (-1, [], s)
          else if ftype e \<in> {FD_FILE_SYNC, FD_FILE_ASYNC, FD_PIPE_SYNC, FD_PIPE_ASYNC} then
            ask W (ReadFile (fid e) len) s (\<lambda>r s.
              if res r \<noteq> 0 then Returns (nbytes r, rdata r, s)
              else Returns (-1, [], set_errno fd (last_error r) s))
          else if ftype e \<in> {FD_SOCKET_SYNC, FD_SOCKET_ASYNC} then
            ask W (Recv (fid e) len) s (\<lambda>r s.
              if res r = -1 then Returns (-1, [], set_errno fd (last_error r) s)
              else Returns (res r, rdata r, s))
          else Undefined)"

definition OS_Write_win ::
  "win_kernel \<Rightarrow> int \<Rightarrow> byte list \<Rightarrow> ('p, 'd, 'z) win_state_scheme \<Rightarrow> (int \<times> ('p, 'd, 'z) win_state_scheme) outcome" where
  "OS_Write_win W fd buf s =
     (case fd_entry s fd of
        None \<Rightarrow> Undefined
      | Some e \<Rightarrow>
          if shutdownNow s then Returns (-1, s)
          else if ftype e \<in> {FD_FILE_SYNC, FD_FILE_ASYNC, FD_PIPE_SYNC, FD_PIPE_ASYNC} then
            ask W (WriteFile (fid e) buf) s (\<lambda>r s.
              if res r \<noteq> 0 then Returns (nbytes r, s)
              else Returns (-1, set_errno fd (last_error r) s))
          else if ftype e \<in> {FD_SOCKET_SYNC, FD_SOCKET_ASYNC} then
            ask W (Send (fid e) buf) s (\<lambda>r s.
              if res r = -1 then Returns (-1, set_errno fd (last_error r) s)
              else Returns (res r, s))
          else Undefined)"

definition OS_SpawnChild_win ::
  "win_kernel \<Rightarrow> string \<Rightarrow> int \<Rightarrow> ('p, 'd, 'z) win_state_scheme \<Rightarrow> (int \<times> ('p, 'd, 'z) win_state_scheme) outcome" where
  "OS_SpawnChild_win W execPath listenFd s =
     (case fd_entry s listenFd of
        None \<Rightarrow> Undefined
      | Some e \<Rightarrow>
          ask W (SetHandleInformation (fid e) True) s (\<lambda>r s.
            if res r = 0 then Exits 99
            else ask W (CreateProcess execPath (fid e)) s (\<lambda>r s. Returns (if res r \<noteq> 0 then 0 else -1, s))))"

section \<open>Asynchronous operations\<close>

text \<open>\<open>malloc\<close> of an \<open>OVERLAPPED_REQUEST\<close>, of 36 bytes where pointers have 4; a null pointer fails the \<open>ASSERT\<close>.\<close>

definition new_request ::
  "win_kernel \<Rightarrow> ('p, 'd) overlapped_request \<Rightarrow> ('p, 'd, 'z) win_state_scheme \<Rightarrow>
   (int \<Rightarrow> ('p, 'd, 'z) win_state_scheme \<Rightarrow> 'a outcome) \<Rightarrow> 'a outcome" where
  "new_request W q s k =
     ask W (Win_malloc 36) s (\<lambda>r s.
       if res r = 0 then Undefined else k (res r) (s\<lparr>requests := (requests s)(res r \<mapsto> q)\<rparr>))"

definition OS_AsyncReadStdin_win ::
  "win_kernel \<Rightarrow> int \<Rightarrow> int \<Rightarrow> 'p \<Rightarrow> 'd \<Rightarrow> ('p, 'd, 'z) win_state_scheme \<Rightarrow> (int \<times> ('p, 'd, 'z) win_state_scheme) outcome" where
  "OS_AsyncReadStdin_win W buf len proc data s =
     (case fd_entry s 0 of
        None \<Rightarrow> Undefined
      | Some e \<Rightarrow>
          if ftype e = FD_UNUSED then Undefined
          else new_request W \<lparr>Offset = 0, OffsetHigh = 0, ov_instance = finstance e, ov_proc = proc,
                              ov_clientData = data, ov_clientData1 = buf\<rparr> s (\<lambda>pOv s.
            ask W (PostQueuedCompletionStatus (hStdinCompPort s) len 0 pOv) s (\<lambda>_ s. Returns (0, s))))"

definition async_types :: "file_type set" where
  "async_types = {FD_FILE_ASYNC, FD_SOCKET_ASYNC, FD_PIPE_ASYNC}"

text \<open>What is done with the answer to an overlapped operation; an operation that failed is completed with no bytes.\<close>

definition overlapped_answer ::
  "win_kernel \<Rightarrow> int set \<Rightarrow> int \<Rightarrow> int \<Rightarrow> win_reply \<Rightarrow> ('p, 'd, 'z) win_state_scheme \<Rightarrow>
   (int \<times> ('p, 'd, 'z) win_state_scheme) outcome" where
  "overlapped_answer W fine_errors fd pOv r s =
     (if res r \<noteq> 0 then Returns (0, s)
      else let s = set_errno fd (last_error r) s
      in if last_error r \<in> fine_errors
         then ask W (PostQueuedCompletionStatus (hIoCompPort s) 0 fd pOv) s (\<lambda>_ s. Returns (0, s))
         else if last_error r \<noteq> ERROR_IO_PENDING
         then ask W (PostQueuedCompletionStatus (hIoCompPort s) 0 fd pOv) s (\<lambda>_ s. Returns (-1, s))
         else Returns (0, set_errno fd 0 s))"

definition OS_AsyncRead_win ::
  "win_kernel \<Rightarrow> int \<Rightarrow> int \<Rightarrow> int \<Rightarrow> 'p \<Rightarrow> 'd \<Rightarrow> ('p, 'd, 'z) win_state_scheme \<Rightarrow>
   (int \<times> ('p, 'd, 'z) win_state_scheme) outcome" where
  "OS_AsyncRead_win W fd off len proc data s =
     (case fd_entry s fd of
        None \<Rightarrow> Undefined
      | Some e \<Rightarrow>
          if ftype e \<notin> async_types then Undefined
          else
            let at = (if ftype e = FD_FILE_ASYNC then (if foffset e \<ge> 0 then foffset e else off) else 0)
            in new_request W \<lparr>Offset = word_of_int at, OffsetHigh = 0, ov_instance = finstance e, ov_proc = proc,
                              ov_clientData = data, ov_clientData1 = 0\<rparr> s (\<lambda>pOv s.
                 ask W (ReadFile_overlapped (fid e) len pOv) s (\<lambda>r s.
                   overlapped_answer W {ERROR_NO_DATA, ERROR_PIPE_NOT_CONNECTED} fd pOv r s)))"

text \<open>
  Where a write goes: processes that append to one file share its offset, which is read and
  advanced under a mutex.
\<close>

definition write_offset ::
  "win_kernel \<Rightarrow> fd_entry \<Rightarrow> int \<Rightarrow> int \<Rightarrow> ('p, 'd, 'z) win_state_scheme \<Rightarrow>
   (32 word \<Rightarrow> 32 word \<Rightarrow> ('p, 'd, 'z) win_state_scheme \<Rightarrow> 'a outcome) \<Rightarrow> 'a outcome" where
  "write_offset W e off len s k =
     (if ftype e \<noteq> FD_FILE_ASYNC then k 0 0 s
      else if foffset e < 0 then k 0 (word_of_int off) s
      else if hMapMutex e = 0 then k 0 (word_of_int (foffset e)) s
      else ask W (WaitForSingleObject (hMapMutex e)) s (\<lambda>_ s.
        case (offsetHighPtr e, offsetLowPtr e) of
          (Some h, Some l) \<Rightarrow>
            let hi = shared_mem s h; lo = shared_mem s l;
                s = s\<lparr>shared_mem := (shared_mem s)(l := lo + word_of_int len)\<rparr>
            in ask W (ReleaseMutex (hMapMutex e)) s (\<lambda>_ s. k hi lo s)
        | _ \<Rightarrow> Undefined))"

definition OS_AsyncWrite_win ::
  "win_kernel \<Rightarrow> int \<Rightarrow> int \<Rightarrow> int \<Rightarrow> 'p \<Rightarrow> 'd \<Rightarrow> ('p, 'd, 'z) win_state_scheme \<Rightarrow>
   (int \<times> ('p, 'd, 'z) win_state_scheme) outcome" where
  "OS_AsyncWrite_win W fd off len proc data s =
     (case fd_entry s fd of
        None \<Rightarrow> Undefined
      | Some e \<Rightarrow>
          if ftype e \<notin> async_types then Undefined
          else ask W (Win_malloc 36) s (\<lambda>m s.
            if res m = 0 then Undefined
            else write_offset W e off len s (\<lambda>hi lo s.
              let q = \<lparr>Offset = lo, OffsetHigh = hi, ov_instance = finstance e, ov_proc = proc,
                       ov_clientData = data, ov_clientData1 = 0\<rparr>;
                  s = s\<lparr>requests := (requests s)(res m \<mapsto> q)\<rparr>
              in ask W (WriteFile_overlapped (fid e) len (res m)) s (\<lambda>r s.
                   and_then (overlapped_answer W {} fd (res m) r s) (\<lambda>(rc, s).
                     if rc = -1 \<or> foffset e < 0 then Returns (rc, s)
                     else if foffset e + len > 2147483647 then Undefined
                     else Returns (0, set_fd fd ((fdTable s ! nat fd)\<lparr>foffset := foffset e + len\<rparr>) s))))))"

section \<open>Closing\<close>

text \<open>What the peer still sends is read, until it closes too or sends nothing for two seconds.\<close>

partial_function (option) drain_win :: "win_kernel \<Rightarrow> int \<Rightarrow> win_call list \<Rightarrow> win_call list option" where
  "drain_win W sock tr =
     (let tr1 = tr @ [Win_select sock]
      in if res (W tr (Win_select sock)) > 0
         then let tr2 = tr1 @ [Recv sock 1024]
              in if res (W tr1 (Recv sock 1024)) > 0 then drain_win W sock tr2 else Some tr2
         else Some tr1)"

definition close_socket ::
  "win_kernel \<Rightarrow> int \<Rightarrow> bool \<Rightarrow> ('p, 'd, 'z) win_state_scheme \<Rightarrow> ('p, 'd, 'z) win_state_scheme outcome" where
  "close_socket W sock shutdown_ok s =
     (let tr = win_calls s;
          e = Win_shutdown sock 1;
          tr' = (if shutdown_ok
                 then if res (W tr e) = 0 then drain_win W sock (tr @ [e]) else Some (tr @ [e])
                 else Some tr)
      in case tr' of
           None \<Rightarrow> Undefined
         | Some tr \<Rightarrow> Returns (s\<lparr>win_calls := tr @ [Closesocket sock]\<rparr>))"

text \<open>The handle of a pipe or a file is not closed.\<close>

definition OS_Close_win ::
  "win_kernel \<Rightarrow> int \<Rightarrow> bool \<Rightarrow> ('p, 'd, 'z) win_state_scheme \<Rightarrow> (int \<times> ('p, 'd, 'z) win_state_scheme) outcome" where
  "OS_Close_win W fd shutdown_ok s =
     (case fd_entry s fd of
        None \<Rightarrow> Undefined
      | Some e \<Rightarrow>
          if ftype e = FD_UNUSED then Undefined
          else and_then (if ftype e \<in> {FD_SOCKET_SYNC, FD_SOCKET_ASYNC} then close_socket W (fid e) shutdown_ok s
                         else Returns s) (\<lambda>s.
            and_then (Win32FreeDescriptor W fd s) (\<lambda>s. Returns (0, s))))"

definition OS_CloseRead_win ::
  "win_kernel \<Rightarrow> int \<Rightarrow> ('p, 'd, 'z) win_state_scheme \<Rightarrow> (int \<times> ('p, 'd, 'z) win_state_scheme) outcome" where
  "OS_CloseRead_win W fd s =
     (case fd_entry s fd of
        None \<Rightarrow> Undefined
      | Some e \<Rightarrow>
          if ftype e \<notin> {FD_SOCKET_SYNC, FD_SOCKET_ASYNC} then Undefined
          else ask W (Win_shutdown (fid e) 0) s (\<lambda>r s. Returns (if res r = -1 then -1 else 0, s)))"

section \<open>The loop of events\<close>

text \<open>A timeout in milliseconds; seconds and microseconds are not negative.\<close>

definition tmo_ms :: "int \<times> int \<Rightarrow> int" where
  "tmo_ms tmo = fst tmo * 1000 + snd tmo div 1000"

text \<open>
  The callback of a completion, unless the instance of the descriptor is another one now, and the
  release of its request; a request that is not there is not defined.
\<close>

definition complete ::
  "('p \<Rightarrow> 'd \<Rightarrow> int \<Rightarrow> ('p, 'd, 'z) win_state_scheme \<Rightarrow> ('p, 'd, 'z) win_state_scheme outcome) \<Rightarrow>
   win_reply \<Rightarrow> ('p, 'd, 'z) win_state_scheme \<Rightarrow> ('p, 'd, 'z) win_state_scheme outcome" where
  "complete cb r s =
     (case (fd_entry s (compl_key r), requests s (compl_ov r)) of
        (Some e, Some q) \<Rightarrow>
          and_then (if ov_instance q = finstance e then cb (ov_proc q) (ov_clientData q) (nbytes r) s else Returns s) (\<lambda>s.
            if requests s (compl_ov r) = None then Undefined
            else Returns (s\<lparr>requests := (requests s)(compl_ov r := None)\<rparr>))
      | _ \<Rightarrow> Undefined)"

text \<open>With a timeout, every round waits for it again, for a tenth of a second at most.\<close>

partial_function (option) DoIo_loop ::
  "win_kernel \<Rightarrow> ('p \<Rightarrow> 'd \<Rightarrow> int \<Rightarrow> ('p, 'd, 'z) win_state_scheme \<Rightarrow> ('p, 'd, 'z) win_state_scheme outcome) \<Rightarrow>
   (int \<times> int) option \<Rightarrow> int \<Rightarrow> int \<Rightarrow> ('p, 'd, 'z) win_state_scheme \<Rightarrow>
   ('p, 'd, 'z) win_state_scheme outcome option" where
  "DoIo_loop W cb tmo ms ms_last s =
     (if ms < 0 then Some (Returns s)
      else
        let ms = (case tmo of None \<Rightarrow> ms | Some t \<Rightarrow> min (tmo_ms t) 100);
            c = GetQueuedCompletionStatus (hIoCompPort s) ms;
            r = W (win_calls s) c;
            s = s\<lparr>win_calls := win_calls s @ [c]\<rparr>
        in if res r = 0 \<and> compl_ov r = 0 then Some (Returns s)
           else case complete cb r s of
             Returns s \<Rightarrow>
               (let now = res (W (win_calls s) Ftime)
                in DoIo_loop W cb tmo (to_i32 (ms - (now - ms_last))) (to_i32 now) (s\<lparr>win_calls := win_calls s @ [Ftime]\<rparr>))
           | Exits n \<Rightarrow> Some (Exits n)
           | Undefined \<Rightarrow> Some Undefined)"

definition OS_DoIo_win ::
  "win_kernel \<Rightarrow> ('p \<Rightarrow> 'd \<Rightarrow> int \<Rightarrow> ('p, 'd, 'z) win_state_scheme \<Rightarrow> ('p, 'd, 'z) win_state_scheme outcome) \<Rightarrow>
   (int \<times> int) option \<Rightarrow> ('p, 'd, 'z) win_state_scheme \<Rightarrow> ('p, 'd, 'z) win_state_scheme outcome" where
  "OS_DoIo_win W cb tmo s =
     (let ms = (case tmo of None \<Rightarrow> 1000 | Some t \<Rightarrow> tmo_ms t div 2)
      in ask W Ftime s (\<lambda>r s.
        case DoIo_loop W cb tmo ms (to_i32 (res r)) s of None \<Rightarrow> Undefined | Some x \<Rightarrow> x))"

section \<open>Accepting\<close>

text \<open>\<open>strstr\<close>: where the first occurrence begins.\<close>

definition strstr :: "string \<Rightarrow> string \<Rightarrow> nat option" where
  "strstr s sub = find (\<lambda>i. take (length sub) (drop i s) = sub) [0..<Suc (length s)]"

definition addr_token :: string where
  "addr_token = '' ,;:'' @ [CHR 0x09]"

text \<open>
  Whether the peer's address is in the list: its first occurrence must begin and end there or at a
  separator; \<open>strchr\<close> finds the NUL at the end of the list too.
\<close>

definition isAddrOK :: "string \<Rightarrow> string option \<Rightarrow> bool" where
  "isAddrOK ipaddr okAddrs =
     (case okAddrs of
        None \<Rightarrow> True
      | Some list \<Rightarrow>
          case strstr list ipaddr of
            None \<Rightarrow> False
          | Some i \<Rightarrow>
              let behnd = drop (i + length ipaddr) list; ends = (behnd = [] \<or> hd behnd \<in> set addr_token)
              in if i = 0 then ends
                 else if list ! (i - 1) \<in> set addr_token then ends else False)"

text \<open>\<open>None\<close> is a peer of another family.\<close>

definition isAddrOKCallback :: "string option \<Rightarrow> string option \<Rightarrow> bool" where
  "isAddrOKCallback peer okAddrs =
     (case okAddrs of
        None \<Rightarrow> True
      | Some _ \<Rightarrow> (case peer of None \<Rightarrow> True | Some ipaddr \<Rightarrow> isAddrOK ipaddr okAddrs))"

text \<open>An error of \<open>ConnectNamedPipe\<close> is reported only.\<close>

definition acceptNamedPipe ::
  "win_kernel \<Rightarrow> ('p, 'd, 'z) win_state_scheme \<Rightarrow> (int \<times> ('p, 'd, 'z) win_state_scheme) outcome" where
  "acceptNamedPipe W s =
     ask W (ConnectNamedPipe (hListen s)) s (\<lambda>_ s.
       case Win32NewDescriptor FD_PIPE_SYNC (hListen s) (-1) s of (ipc, s) \<Rightarrow>
         if ipc = -1 then ask W (DisconnectNamedPipe (hListen s)) s (\<lambda>_ s. Returns (-1, s))
         else Returns (ipc, s))"

text \<open>
  \<open>WSAAccept\<close> asks the callback about the peer; a connection it does not like is refused, and the call fails
  with \<open>WSAECONNREFUSED\<close>.
\<close>

definition wsa_accept :: "string option \<Rightarrow> win_reply \<Rightarrow> int \<times> int" where
  "wsa_accept okAddrs r =
     (if res r = INVALID_HANDLE then (INVALID_HANDLE, last_error r)
      else if isAddrOKCallback (rtext r) okAddrs then (res r, 0)
      else (INVALID_HANDLE, WSAECONNREFUSED))"

definition accepted_socket ::
  "win_kernel \<Rightarrow> int \<Rightarrow> ('p, 'd, 'z) win_state_scheme \<Rightarrow> (int \<times> ('p, 'd, 'z) win_state_scheme) outcome" where
  "accepted_socket W hSock s =
     (case Win32NewDescriptor FD_SOCKET_SYNC hSock (-1) s of (ipc, s) \<Rightarrow>
        if ipc = -1 then ask W (Closesocket hSock) s (\<lambda>_ s. Returns (-1, s)) else Returns (ipc, s))"

partial_function (option) acceptSocket ::
  "win_kernel \<Rightarrow> string option \<Rightarrow> ('p, 'd, 'z) win_state_scheme \<Rightarrow> (int \<times> ('p, 'd, 'z) win_state_scheme) outcome option" where
  "acceptSocket W webServerAddrs s =
     (let c = Win_select (hListen s);
          r = W (win_calls s) c;
          s = s\<lparr>win_calls := win_calls s @ [c], shutdownPending_win := shutdownPending_win s \<or> signalled r\<rparr>
      in if res r = 0 then
           (if shutdownPending_win s then Some (and_then (OS_LibShutdown_win W s) (\<lambda>s. Returns (-1, s)))
            else acceptSocket W webServerAddrs s)
         else
           let c = WSAAccept (hListen s);
               (hSock, e) = wsa_accept webServerAddrs (W (win_calls s) c);
               s = s\<lparr>win_calls := win_calls s @ [c]\<rparr>
           in if hSock \<noteq> INVALID_HANDLE then Some (accepted_socket W hSock s)
              else if e \<noteq> WSAECONNREFUSED then Some (Returns (-1, s))
              else acceptSocket W webServerAddrs s)"

text \<open>What is done while the mutex is held.\<close>

definition accept_connection ::
  "win_kernel \<Rightarrow> string option \<Rightarrow> ('p, 'd, 'z) win_state_scheme \<Rightarrow> (int \<times> ('p, 'd, 'z) win_state_scheme) outcome" where
  "accept_connection W webServerAddrs s =
     (if shutdownPending_win s then and_then (OS_LibShutdown_win W s) (\<lambda>s. Returns (-1, s))
      else if listenType s = FD_PIPE_SYNC then acceptNamedPipe W s
      else if listenType s = FD_SOCKET_SYNC
      then (case acceptSocket W webServerAddrs s of None \<Rightarrow> Undefined | Some x \<Rightarrow> x)
      else Returns (-1, s))"

definition release_mutex ::
  "win_kernel \<Rightarrow> int \<times> ('p, 'd, 'z) win_state_scheme \<Rightarrow> (int \<times> ('p, 'd, 'z) win_state_scheme) outcome" where
  "release_mutex W x =
     (case x of (ipc, s) \<Rightarrow>
        if acceptMutex s \<noteq> INVALID_HANDLE then ask W (ReleaseMutex (acceptMutex s)) s (\<lambda>_ s. Returns (ipc, s))
        else Returns (ipc, s))"

definition OS_Accept_win ::
  "win_kernel \<Rightarrow> string option \<Rightarrow> ('p, 'd, 'z) win_state_scheme \<Rightarrow> (int \<times> ('p, 'd, 'z) win_state_scheme) outcome" where
  "OS_Accept_win W webServerAddrs s =
     (if shutdownPending_win s then and_then (OS_LibShutdown_win W s) (\<lambda>s. Returns (-1, s))
      else if acceptMutex s \<noteq> INVALID_HANDLE
      then ask W (WaitForSingleObject (acceptMutex s)) s (\<lambda>r s.
             if res r = -1 then Returns (-1, s)
             else
               let s = s\<lparr>shutdownPending_win := shutdownPending_win s \<or> signalled r\<rparr>
               in and_then (accept_connection W webServerAddrs s) (release_mutex W))
      else and_then (accept_connection W webServerAddrs s) (release_mutex W))"

definition OS_IpcClose_win ::
  "win_kernel \<Rightarrow> int \<Rightarrow> bool \<Rightarrow> ('p, 'd, 'z) win_state_scheme \<Rightarrow> (int \<times> ('p, 'd, 'z) win_state_scheme) outcome" where
  "OS_IpcClose_win W ipc shutdown_ok s =
     (if ipc = -1 then Returns (0, s)
      else case fd_entry s ipc of
        None \<Rightarrow> Undefined
      | Some e \<Rightarrow>
          if ftype e = FD_UNUSED then Undefined
          else if listenType s = FD_PIPE_SYNC then
            ask W (FlushFileBuffers (fid e)) s (\<lambda>r s.
              if res r = 0 then Returns (-1, s)
              else ask W (DisconnectNamedPipe (fid e)) s (\<lambda>r s.
                if res r = 0 then Returns (-1, s)
                else and_then (OS_Close_win W ipc shutdown_ok s) (\<lambda>(_, s). Returns (0, s))))
          else if listenType s = FD_SOCKET_SYNC then
            and_then (OS_Close_win W ipc shutdown_ok s) (\<lambda>(_, s). Returns (0, s))
          else Exits 106)"

definition OS_IsFcgi_win :: "('p, 'd, 'z) win_state_scheme \<Rightarrow> bool" where
  "OS_IsFcgi_win s \<longleftrightarrow> listenType s \<noteq> FD_UNUSED"

definition O_NONBLOCK :: int where "O_NONBLOCK = 4"

text \<open>A socket becomes asynchronous; what \<open>exit\<close> gets is the last error.\<close>

definition OS_SetFlags_win ::
  "win_kernel \<Rightarrow> int \<Rightarrow> int \<Rightarrow> ('p, 'd, 'z) win_state_scheme \<Rightarrow> ('p, 'd, 'z) win_state_scheme outcome" where
  "OS_SetFlags_win W fd flags s =
     (case fd_entry s fd of
        None \<Rightarrow> Undefined
      | Some e \<Rightarrow>
          if ftype e = FD_SOCKET_SYNC \<and> flags = O_NONBLOCK then
            ask W (Ioctlsocket (fid e)) s (\<lambda>r s.
              if res r = -1 then Exits (last_error r)
              else ask W (CreateIoCompletionPort (fid e) (hIoCompPort s) fd) s (\<lambda>r s.
                if res r = 0 then Exits (last_error r)
                else Returns (set_fd fd ((fdTable s ! nat fd)\<lparr>ftype := FD_SOCKET_ASYNC\<rparr>) s)))
          else Returns s)"

end
