(* ===== verification/Os_Win32_Laws.thy ===== *)
theory Os_Win32_Laws
  imports Os_Win32
begin

text \<open>
  The layer for Windows: what its table of descriptors looks like in every state that can be
  reached, what a new descriptor is, whom it accepts connections from, and where it goes
  wrong.
\<close>

section \<open>Results\<close>

text \<open>When a computation returns, its result has the property.\<close>

primrec yields :: "('a \<Rightarrow> bool) \<Rightarrow> 'a outcome \<Rightarrow> bool" where
  "yields Q (Returns x) = Q x"
| "yields Q (Exits n) = True"
| "yields Q Undefined = True"

lemma yields_and_then: "yields R m \<Longrightarrow> (\<And>x. R x \<Longrightarrow> yields Q (f x)) \<Longrightarrow> yields Q (and_then m f)"
  by (cases m) auto

lemma yields_mono: "yields R m \<Longrightarrow> (\<And>x. R x \<Longrightarrow> Q x) \<Longrightarrow> yields Q m"
  by (cases m) auto

section \<open>Good tables\<close>

definition entry_good :: "fd_entry \<Rightarrow> bool" where
  "entry_good e \<longleftrightarrow>
     ftype e \<notin> {FD_FILE_SYNC, FD_FILE_ASYNC} \<and> fpath e = None \<and> hMapMutex e = 0 \<and> finstance e = 0
     \<and> (ftype e \<noteq> FD_UNUSED \<longrightarrow> foffset e = -1)"

definition win_good :: "('p, 'd, 'z) win_state_scheme \<Rightarrow> bool" where
  "win_good s \<longleftrightarrow>
     length (fdTable s) = WIN32_OPEN_MAX \<and> (\<forall>e \<in> set (fdTable s). entry_good e)
     \<and> listenType s \<notin> {FD_FILE_SYNC, FD_FILE_ASYNC} \<and> (\<forall>q \<in> ran (requests s). ov_instance q = 0)"

lemma win_good_upd [simp]:
  "win_good (s\<lparr>win_calls := c\<rparr>) = win_good s" "win_good (s\<lparr>hIoCompPort := h\<rparr>) = win_good s"
  "win_good (s\<lparr>hStdinCompPort := h\<rparr>) = win_good s" "win_good (s\<lparr>acceptMutex := h\<rparr>) = win_good s"
  "win_good (s\<lparr>hListen := h\<rparr>) = win_good s" "win_good (s\<lparr>std_handle := f\<rparr>) = win_good s"
  "win_good (s\<lparr>stdioHandles := f\<rparr>) = win_good s" "win_good (s\<lparr>libInitialized_win := b\<rparr>) = win_good s"
  "win_good (s\<lparr>shutdownPending_win := b\<rparr>) = win_good s" "win_good (s\<lparr>shared_mem := m\<rparr>) = win_good s"
  by (simp_all add: win_good_def)

lemma win_good_listen [simp]:
  "ty \<notin> {FD_FILE_SYNC, FD_FILE_ASYNC} \<Longrightarrow> win_good s \<Longrightarrow> win_good (s\<lparr>listenType := ty\<rparr>)"
  by (simp add: win_good_def)

lemma good_entry: "win_good s \<Longrightarrow> fd_entry s fd = Some e \<Longrightarrow> entry_good e"
  by (auto simp: win_good_def fd_entry_def split: if_splits)

lemma good_table_entry: "win_good s \<Longrightarrow> fd_entry s fd = Some e \<Longrightarrow> entry_good (fdTable s ! nat fd)"
  by (auto simp: win_good_def fd_entry_def split: if_splits)

lemma good_set_fd: "win_good s \<Longrightarrow> entry_good e \<Longrightarrow> win_good (set_fd fd e s)"
  by (auto simp: win_good_def set_fd_def dest: set_update_subset_insert [THEN subsetD])

lemma good_set_errno: "win_good s \<Longrightarrow> fd_entry s fd = Some e \<Longrightarrow> win_good (set_errno fd n s)"
  using good_table_entry [of s fd e] by (auto simp: set_errno_def entry_good_def intro!: good_set_fd)

lemma good_add_request:
  "win_good s \<Longrightarrow> ov_instance q = 0 \<Longrightarrow> win_good (s\<lparr>requests := (requests s)(a \<mapsto> q)\<rparr>)"
  by (auto simp: win_good_def ran_def)

lemma good_drop_request: "win_good s \<Longrightarrow> win_good (s\<lparr>requests := (requests s)(a := None)\<rparr>)"
  by (auto simp: win_good_def ran_def)

lemma fd_entry_upd [simp]:
  "fd_entry (s\<lparr>win_calls := c\<rparr>) = fd_entry s" "fd_entry (s\<lparr>requests := q\<rparr>) = fd_entry s"
  by (rule ext, simp add: fd_entry_def)+

section \<open>New descriptors\<close>

lemma find_unused_range:
  "find_unused i tab = -1 \<or> (\<exists>j. find_unused i tab = int j \<and> i \<le> j \<and> j < WIN32_OPEN_MAX \<and> ftype (tab ! j) = FD_UNUSED \<and>
     (\<forall>k. i \<le> k \<and> k < j \<longrightarrow> ftype (tab ! k) \<noteq> FD_UNUSED))"
proof (cases "find (\<lambda>j. ftype (tab ! j) = FD_UNUSED) [i..<WIN32_OPEN_MAX]")
  case (Some j)
  then obtain n where n: "n < length [i..<WIN32_OPEN_MAX]" "ftype (tab ! j) = FD_UNUSED" "j = [i..<WIN32_OPEN_MAX] ! n"
    "\<forall>k < n. ftype (tab ! ([i..<WIN32_OPEN_MAX] ! k)) \<noteq> FD_UNUSED"
    by (auto simp: find_Some_iff)
  have "ftype (tab ! k) \<noteq> FD_UNUSED" if "i \<le> k" "k < j" for k
    using n(4) [rule_format, of "k - i"] that n(1,3) by (auto simp: nth_upt)
  moreover have "find_unused i tab = int j" "i \<le> j" "j < WIN32_OPEN_MAX" using n(1,3) Some by (auto simp: find_unused_def)
  ultimately show ?thesis using n(2) by blast
qed (simp add: find_unused_def)

lemma find_unused_none: "find_unused i tab = -1 \<longleftrightarrow> (\<forall>j. i \<le> j \<and> j < WIN32_OPEN_MAX \<longrightarrow> ftype (tab ! j) \<noteq> FD_UNUSED)"
proof
  assume "find_unused i tab = -1"
  then have "find (\<lambda>j. ftype (tab ! j) = FD_UNUSED) [i..<WIN32_OPEN_MAX] = None"
    by (auto simp: find_unused_def split: option.splits)
  then show "\<forall>j. i \<le> j \<and> j < WIN32_OPEN_MAX \<longrightarrow> ftype (tab ! j) \<noteq> FD_UNUSED" by (auto simp: find_None_iff)
next
  assume "\<forall>j. i \<le> j \<and> j < WIN32_OPEN_MAX \<longrightarrow> ftype (tab ! j) \<noteq> FD_UNUSED"
  with find_unused_range [of i tab] show "find_unused i tab = -1" by blast
qed

lemma new_descriptor_good:
  assumes "Win32NewDescriptor ty h d s = (fd, s')" "win_good s" "ty \<notin> {FD_FILE_SYNC, FD_FILE_ASYNC}"
  shows "win_good s'"
proof (cases "fd = -1")
  case True
  with assms(1,2) show ?thesis by (auto simp: Win32NewDescriptor_def Let_def split: if_splits)
next
  case False
  then have s': "s' = set_fd fd (new_entry ty h (fdTable s ! nat fd)) s"
    using assms(1) by (auto simp: Win32NewDescriptor_def Let_def split: if_splits)
  have "nat fd < WIN32_OPEN_MAX"
    using assms(1) False find_unused_range [of 1 "fdTable s"]
    by (auto simp: Win32NewDescriptor_def Let_def split: if_splits)
  then have "entry_good (fdTable s ! nat fd)" using assms(2) by (simp add: win_good_def)
  then have "entry_good (new_entry ty h (fdTable s ! nat fd))"
    using assms(3) by (auto simp: entry_good_def new_entry_def)
  with assms(2) show ?thesis unfolding s' by (rule good_set_fd)
qed

lemma yields_new_descriptor:
  assumes "win_good s" "ty \<notin> {FD_FILE_SYNC, FD_FILE_ASYNC}" "\<And>fd s'. win_good s' \<Longrightarrow> yields Q (f fd s')"
  shows "yields Q (case Win32NewDescriptor ty h d s of (fd, s') \<Rightarrow> f fd s')"
  using new_descriptor_good [of ty h d s] assms by (cases "Win32NewDescriptor ty h d s") auto

section \<open>Every operation keeps the table good\<close>

abbreviation good_rc :: "'a \<times> ('p, 'd, 'z) win_state_scheme \<Rightarrow> bool" where
  "good_rc x \<equiv> win_good (snd x)"

lemma free_good: "win_good s \<Longrightarrow> yields win_good (Win32FreeDescriptor W fd s)"
  unfolding Win32FreeDescriptor_def ask_def Let_def
  by (auto split: option.splits dest: good_entry simp: entry_good_def intro!: good_set_fd)

lemma port_good:
  "win_good s \<Longrightarrow> yields good_rc (io_port W s)" "win_good s \<Longrightarrow> yields good_rc (stdin_port W s)"
  "win_good s \<Longrightarrow> yields good_rc (env_mutex W s)" "win_good s \<Longrightarrow> yields good_rc (make_mutex W s)"
  by (simp_all add: io_port_def stdin_port_def env_mutex_def make_mutex_def ask_def Let_def split: option.splits)

lemma env_good: "win_good s \<Longrightarrow> yields good_rc (env_handles W s)"
  unfolding env_handles_def ask_def by (auto split: option.splits intro: port_good)

lemma std_listener_good: "win_good s \<Longrightarrow> yields good_rc (std_listener W s)"
  unfolding std_listener_def ask_def Let_def by simp

lemma std_in_good: "win_good s \<Longrightarrow> yields (\<lambda>(ok, fds, s). win_good s) (std_in W fds s)"
  unfolding std_in_def ask_def Let_def
  by (auto intro!: yields_new_descriptor yields_and_then [OF port_good(2)] split: option.splits)

lemma std_out_good: "win_good s \<Longrightarrow> yields (\<lambda>(ok, fds, s). win_good s) (std_out W i fds s)"
  unfolding std_out_def ask_def Let_def by (auto intro!: yields_new_descriptor)

lemma LibInit_good: "win_good s \<Longrightarrow> yields (\<lambda>(rc, fds, s). win_good s) (OS_LibInit_win W fds s)"
  unfolding OS_LibInit_win_def ask_def
  by (auto intro!: yields_and_then [OF port_good(1)] yields_and_then [OF env_good] yields_and_then [OF std_listener_good]
    yields_and_then [OF std_in_good] yields_and_then [OF std_out_good] split: option.splits)

lemma LibShutdown_good: "win_good s \<Longrightarrow> yields win_good (OS_LibShutdown_win W s)"
  unfolding OS_LibShutdown_win_def ask_def
  by (auto intro!: yields_and_then [where R = win_good])

lemma listen_good:
  "win_good s \<Longrightarrow> yields good_rc (listen_on_port W prt n s)" "win_good s \<Longrightarrow> yields good_rc (listen_on_pipe W path s)"
  unfolding listen_on_port_def listen_on_pipe_def ask_def Let_def
  by (auto intro!: yields_new_descriptor simp: win_good_def [of s])

lemma CreateLocalIpcFd_good: "win_good s \<Longrightarrow> yields good_rc (OS_CreateLocalIpcFd_win W path n s)"
  unfolding OS_CreateLocalIpcFd_win_def Let_def
  by (auto intro!: yields_and_then [OF port_good(4)] listen_good)

lemma FcgiConnect_good: "win_good s \<Longrightarrow> yields good_rc (OS_FcgiConnect_win W path s)"
  unfolding OS_FcgiConnect_win_def connect_pipe_def connect_port_def ask_def Let_def
  by (auto intro!: yields_new_descriptor yields_and_then [OF free_good] split: option.splits)

lemma Read_good: "win_good s \<Longrightarrow> yields (\<lambda>(rc, bs, s). win_good s) (OS_Read_win W fd n s)"
  unfolding OS_Read_win_def ask_def by (auto split: option.splits intro: good_set_errno)

lemma Write_good: "win_good s \<Longrightarrow> yields good_rc (OS_Write_win W fd bs s)"
  unfolding OS_Write_win_def ask_def by (auto split: option.splits intro: good_set_errno)

lemma SpawnChild_good: "win_good s \<Longrightarrow> yields good_rc (OS_SpawnChild_win W path fd s)"
  unfolding OS_SpawnChild_win_def ask_def by (auto split: option.splits)

lemma AsyncReadStdin_good: "win_good s \<Longrightarrow> yields good_rc (OS_AsyncReadStdin_win W buf n p d s)"
  unfolding OS_AsyncReadStdin_win_def new_request_def ask_def
  by (auto split: option.splits dest: good_entry simp: entry_good_def intro!: good_add_request)

lemma overlapped_good:
  assumes "win_good s" "fd_entry s fd = Some e"
  shows "yields good_rc (overlapped_answer W A fd a r s)"
proof -
  have "fd_entry (set_errno fd n t) fd \<noteq> None" for n t
    using assms(2) by (simp add: fd_entry_def split: if_splits)
  then have g: "win_good t \<Longrightarrow> win_good (set_errno fd n (set_errno fd m t))" for n m t
    using good_set_errno [of t fd] good_set_errno [of "set_errno fd m t" fd] assms(2)
    by (metis fd_entry_def option.exhaust)
  show ?thesis
    using assms good_set_errno [OF assms] g [OF assms(1)]
    by (auto simp: overlapped_answer_def ask_def Let_def)
qed

lemma AsyncRead_good:
  assumes "win_good s"
  shows "yields good_rc (OS_AsyncRead_win W fd off n p d s)"
proof (cases "fd_entry s fd")
  case (Some e)
  with assms have "entry_good e" by (rule good_entry)
  then have "ftype e \<noteq> FD_FILE_ASYNC" "finstance e = 0" by (auto simp: entry_good_def)
  with assms Some show ?thesis
    unfolding OS_AsyncRead_win_def new_request_def ask_def Let_def
    by (auto intro!: overlapped_good [where e = e] good_add_request)
qed (simp add: OS_AsyncRead_win_def)

text \<open>Files do not occur, so that a write has no offset.\<close>

lemma AsyncWrite_good:
  assumes "win_good s"
  shows "yields good_rc (OS_AsyncWrite_win W fd off n p d s)"
proof (cases "fd_entry s fd")
  case (Some e)
  with assms have e: "entry_good e" by (rule good_entry)
  then have w: "ftype e \<noteq> FD_FILE_ASYNC" "finstance e = 0" "ftype e \<noteq> FD_UNUSED \<Longrightarrow> foffset e < 0"
    by (auto simp: entry_good_def)
  show ?thesis
    unfolding OS_AsyncWrite_win_def write_offset_def ask_def Let_def
    using assms Some w by (auto simp: async_types_def intro!: yields_and_then [OF overlapped_good] good_add_request)
qed (simp add: OS_AsyncWrite_win_def)

lemma close_socket_good: "win_good s \<Longrightarrow> yields win_good (close_socket W h b s)"
  by (auto simp: close_socket_def Let_def split: option.splits)

lemma Close_good: "win_good s \<Longrightarrow> yields good_rc (OS_Close_win W fd b s)"
  unfolding OS_Close_win_def
  by (auto split: option.splits intro!: yields_and_then [where R = win_good] close_socket_good free_good)

lemma CloseRead_win_good: "win_good s \<Longrightarrow> yields good_rc (OS_CloseRead_win W fd s)"
  unfolding OS_CloseRead_win_def ask_def by (auto split: option.splits)

lemma IpcClose_good: "win_good s \<Longrightarrow> yields good_rc (OS_IpcClose_win W fd b s)"
  unfolding OS_IpcClose_win_def ask_def
  by (auto split: option.splits intro!: yields_and_then [OF Close_good])

lemma SetFlags_good:
  assumes "win_good s"
  shows "yields win_good (OS_SetFlags_win W fd n s)"
proof (cases "fd_entry s fd")
  case (Some e)
  have "entry_good e" "fdTable s ! nat fd = e"
    using assms Some by (auto intro: good_entry simp: fd_entry_def split: if_splits)
  then show ?thesis
    using assms Some unfolding OS_SetFlags_win_def ask_def
    by (auto simp: entry_good_def intro!: good_set_fd)
qed (simp add: OS_SetFlags_win_def)

lemma accepted_socket_good: "win_good s \<Longrightarrow> yields good_rc (accepted_socket W h s)"
  unfolding accepted_socket_def ask_def by (auto intro!: yields_new_descriptor)

lemma acceptNamedPipe_good: "win_good s \<Longrightarrow> yields good_rc (acceptNamedPipe W s)"
  unfolding acceptNamedPipe_def ask_def by (auto intro!: yields_new_descriptor)

lemma acceptSocket_good:
  assumes "acceptSocket W a s = Some x"
  shows "win_good s \<Longrightarrow> yields good_rc x"
proof (induction rule: acceptSocket.raw_induct [OF _ assms])
  case (1 f W a s x)
  from 1(2,3) show ?case
    by (auto simp: Let_def split: if_splits prod.splits
      intro!: yields_and_then [OF LibShutdown_good] accepted_socket_good intro: 1(1))
qed

lemma accept_connection_good: "win_good s \<Longrightarrow> yields good_rc (accept_connection W a s)"
  unfolding accept_connection_def
  by (auto split: option.splits intro!: yields_and_then [OF LibShutdown_good] acceptNamedPipe_good
    intro: acceptSocket_good)

lemma release_good: "win_good (snd x) \<Longrightarrow> yields good_rc (release_mutex W x)"
  by (cases x) (simp add: release_mutex_def ask_def)

lemma Accept_good: "win_good s \<Longrightarrow> yields good_rc (OS_Accept_win W a s)"
  unfolding OS_Accept_win_def ask_def Let_def
  by (auto intro!: yields_and_then [OF LibShutdown_good] yields_and_then [OF accept_connection_good] release_good)

text \<open>The callbacks may do what they like, if they too keep the table good.\<close>

definition callback_good ::
  "('p \<Rightarrow> 'd \<Rightarrow> int \<Rightarrow> ('p, 'd, 'z) win_state_scheme \<Rightarrow> ('p, 'd, 'z) win_state_scheme outcome) \<Rightarrow> bool" where
  "callback_good cb \<longleftrightarrow> (\<forall>p d n s. win_good s \<longrightarrow> yields win_good (cb p d n s))"

lemma complete_good: "callback_good cb \<Longrightarrow> win_good s \<Longrightarrow> yields win_good (complete cb r s)"
  unfolding complete_def callback_good_def
  by (auto split: option.splits intro!: yields_and_then [where R = win_good] good_drop_request)

lemma DoIo_loop_good:
  assumes "DoIo_loop W cb tmo ms l s = Some x"
  shows "callback_good cb \<Longrightarrow> win_good s \<Longrightarrow> yields win_good x"
proof (induction rule: DoIo_loop.raw_induct [OF _ assms])
  case (1 f W cb tmo ms l s x)
  let ?c = "GetQueuedCompletionStatus (hIoCompPort s) (case tmo of None \<Rightarrow> ms | Some t \<Rightarrow> min (tmo_ms t) 100)"
  let ?r = "W (win_calls s) ?c" and ?s = "s\<lparr>win_calls := win_calls s @ [?c]\<rparr>"
  obtain m where m: "complete cb ?r ?s = m" by simp
  have "yields win_good m" using 1(3,4) complete_good [of cb ?s ?r] by (simp add: m)
  with 1(2-4) show ?case
    by (cases m) (auto simp: Let_def m split: if_splits intro: 1(1))
qed

lemma DoIo_good: "callback_good cb \<Longrightarrow> win_good s \<Longrightarrow> yields win_good (OS_DoIo_win W cb tmo s)"
  unfolding OS_DoIo_win_def ask_def Let_def by (auto split: option.splits intro: DoIo_loop_good)

lemma thread_good:
  "win_good s \<Longrightarrow> yields win_good (ShutdownRequestThread W event s)" "win_good s \<Longrightarrow> yields good_rc (StdinThread W s)"
  unfolding ShutdownRequestThread_def StdinThread_def ask_def Let_def by (auto split: option.splits)

end
