(* ===== verification/Os_Win32_Props.thy ===== *)
theory Os_Win32_Props
  imports Os_Win32_Laws
begin

text \<open>
  The properties of the layer for Windows: every state an application can bring it to is a good one, in
  which closing a descriptor never fails; a connection that \<open>OS_Accept\<close> hands out comes from an
  address of the list; and the places where the layer does not do what it means to.
\<close>

section \<open>What an application does\<close>

text \<open>
  The calls of an application, and the rounds of the two threads.  The callbacks of its asynchronous
  operations make such calls too.
\<close>

datatype ('p, 'd) win_op =
    W_LibInit "int list option"
  | W_LibShutdown
  | W_CreateLocalIpcFd string int
  | W_FcgiConnect string
  | W_Read int int
  | W_Write int "byte list"
  | W_SpawnChild string int
  | W_AsyncReadStdin int int 'p 'd
  | W_AsyncRead int int int 'p 'd
  | W_AsyncWrite int int int 'p 'd
  | W_Close int bool
  | W_CloseRead int
  | W_Accept "string option"
  | W_IpcClose int bool
  | W_SetFlags int int
  | W_ShutdownRequestThread int
  | W_StdinThread

definition state_of :: "'a \<times> ('p, 'd, 'z) win_state_scheme \<Rightarrow> ('p, 'd, 'z) win_state_scheme outcome" where
  "state_of x = Returns (snd x)"

primrec win_call_op ::
  "win_kernel \<Rightarrow> ('p, 'd) win_op \<Rightarrow> ('p, 'd, 'z) win_state_scheme \<Rightarrow> ('p, 'd, 'z) win_state_scheme outcome" where
  "win_call_op W (W_LibInit fds) s = and_then (OS_LibInit_win W fds s) (\<lambda>x. Returns (snd (snd x)))"
| "win_call_op W W_LibShutdown s = OS_LibShutdown_win W s"
| "win_call_op W (W_CreateLocalIpcFd path n) s = and_then (OS_CreateLocalIpcFd_win W path n s) state_of"
| "win_call_op W (W_FcgiConnect path) s = and_then (OS_FcgiConnect_win W path s) state_of"
| "win_call_op W (W_Read fd n) s = and_then (OS_Read_win W fd n s) (\<lambda>x. Returns (snd (snd x)))"
| "win_call_op W (W_Write fd bs) s = and_then (OS_Write_win W fd bs s) state_of"
| "win_call_op W (W_SpawnChild path fd) s = and_then (OS_SpawnChild_win W path fd s) state_of"
| "win_call_op W (W_AsyncReadStdin buf n p d) s = and_then (OS_AsyncReadStdin_win W buf n p d s) state_of"
| "win_call_op W (W_AsyncRead fd off n p d) s = and_then (OS_AsyncRead_win W fd off n p d s) state_of"
| "win_call_op W (W_AsyncWrite fd off n p d) s = and_then (OS_AsyncWrite_win W fd off n p d s) state_of"
| "win_call_op W (W_Close fd b) s = and_then (OS_Close_win W fd b s) state_of"
| "win_call_op W (W_CloseRead fd) s = and_then (OS_CloseRead_win W fd s) state_of"
| "win_call_op W (W_Accept a) s = and_then (OS_Accept_win W a s) state_of"
| "win_call_op W (W_IpcClose fd b) s = and_then (OS_IpcClose_win W fd b s) state_of"
| "win_call_op W (W_SetFlags fd n) s = OS_SetFlags_win W fd n s"
| "win_call_op W (W_ShutdownRequestThread event) s = ShutdownRequestThread W event s"
| "win_call_op W W_StdinThread s = and_then (StdinThread W s) state_of"

primrec win_calls_op ::
  "win_kernel \<Rightarrow> ('p, 'd) win_op list \<Rightarrow> ('p, 'd, 'z) win_state_scheme \<Rightarrow> ('p, 'd, 'z) win_state_scheme outcome" where
  "win_calls_op W [] s = Returns s"
| "win_calls_op W (c # cs) s = and_then (win_call_op W c s) (win_calls_op W cs)"

text \<open>What a callback does may depend on its argument, on the number of bytes and on the state.\<close>

type_synonym ('p, 'd, 'z) win_program = "'p \<Rightarrow> 'd \<Rightarrow> int \<Rightarrow> ('p, 'd, 'z) win_state_scheme \<Rightarrow> ('p, 'd) win_op list"

definition run_callback ::
  "win_kernel \<Rightarrow> ('p, 'd, 'z) win_program \<Rightarrow> 'p \<Rightarrow> 'd \<Rightarrow> int \<Rightarrow> ('p, 'd, 'z) win_state_scheme \<Rightarrow>
   ('p, 'd, 'z) win_state_scheme outcome" where
  "run_callback W prog p d n s = win_calls_op W (prog p d n s) s"

text \<open>The state in which a process starts, with the handles of its standard files.\<close>

definition win_start :: "(nat \<Rightarrow> int) \<Rightarrow> ('p, 'd) win_state" where
  "win_start std =
     \<lparr>fdTable = replicate WIN32_OPEN_MAX unused_entry, hIoCompPort = INVALID_HANDLE, hStdinCompPort = INVALID_HANDLE,
      stdioHandles = (\<lambda>_. INVALID_HANDLE), std_handle = std, acceptMutex = INVALID_HANDLE,
      shutdownPending_win = False, shutdownNow = False, listenType = FD_UNUSED, hListen = INVALID_HANDLE,
      libInitialized_win = False, requests = Map.empty, shared_mem = (\<lambda>_. 0), win_calls = []\<rparr>"

inductive win_reaches :: "win_kernel \<Rightarrow> ('p, 'd, unit) win_program \<Rightarrow> ('p, 'd) win_state \<Rightarrow> bool"
  for W prog where
  reaches_start: "win_reaches W prog (win_start std)"
| reaches_op: "win_reaches W prog s \<Longrightarrow> win_call_op W c s = Returns t \<Longrightarrow> win_reaches W prog t"
| reaches_io: "win_reaches W prog s \<Longrightarrow> OS_DoIo_win W (run_callback W prog) tmo s = Returns t \<Longrightarrow> win_reaches W prog t"

lemma start_good: "win_good (win_start std)"
  by (auto simp: win_good_def win_start_def unused_entry_def entry_good_def)

lemma yields_state_of: "yields good_rc m \<Longrightarrow> yields win_good (and_then m state_of)"
  by (erule yields_and_then) (simp add: state_of_def)

lemma call_op_good: "win_good s \<Longrightarrow> yields win_good (win_call_op W c s)"
  by (cases c)
    (auto simp: yields_state_of CreateLocalIpcFd_good FcgiConnect_good Write_good SpawnChild_good
      AsyncReadStdin_good AsyncRead_good AsyncWrite_good Close_good CloseRead_win_good Accept_good IpcClose_good
      SetFlags_good thread_good LibShutdown_good
      intro!: yields_and_then [OF LibInit_good] yields_and_then [OF Read_good])

lemma calls_op_good: "win_good s \<Longrightarrow> yields win_good (win_calls_op W cs s)"
  by (induction cs arbitrary: s) (auto intro!: yields_and_then [OF call_op_good])

lemma run_callback_good: "callback_good (run_callback W prog)"
  by (simp add: callback_good_def run_callback_def calls_op_good)

lemma reaches_good: "win_reaches W prog s \<Longrightarrow> win_good s"
proof (induction rule: win_reaches.induct)
  case (reaches_op s c t)
  then show ?case using call_op_good [of s W c] by simp
next
  case (reaches_io s tmo t)
  then show ?case using DoIo_good [OF run_callback_good, of s W W prog tmo] by simp
qed (rule start_good)

section \<open>Closing\<close>

lemma drain_calls:
  assumes "drain_win W h tr = Some tr'"
  shows "\<exists>cs. tr' = tr @ cs \<and> set cs \<subseteq> {Win_select h, Recv h 1024}"
proof (induction rule: drain_win.raw_induct [OF _ assms])
  case (1 f W h tr tr')
  let ?t = "tr @ [Win_select h]" and ?u = "tr @ [Win_select h, Recv h 1024]"
  show ?case
  proof (cases "res (W tr (Win_select h)) > 0 \<and> res (W ?t (Recv h 1024)) > 0")
    case True
    with 1(2) have "f W h ?u = Some tr'" by (simp add: Let_def)
    from 1(1) [OF this] obtain cs where "tr' = ?u @ cs" "set cs \<subseteq> {Win_select h, Recv h 1024}" by blast
    then show ?thesis by (intro exI [of _ "Win_select h # Recv h 1024 # cs"]) simp
  next
    case False
    with 1(2) have "tr' = ?u \<or> tr' = ?t" by (auto simp: Let_def split: if_splits)
    then show ?thesis by auto
  qed
qed

definition freed_entry :: "fd_entry \<Rightarrow> fd_entry" where
  "freed_entry e = e\<lparr>ftype := FD_UNUSED, fpath := None, fErrno := 0, offsetHighPtr := None, offsetLowPtr := None\<rparr>"

lemma free_entry:
  assumes "win_good s" "fd_entry s fd = Some e" "ftype e \<noteq> FD_UNUSED"
  shows "Win32FreeDescriptor W fd s = Returns (set_fd fd (freed_entry e) s)"
  using good_entry [OF assms(1,2)] assms(2,3) by (simp add: Win32FreeDescriptor_def entry_good_def freed_entry_def Let_def)

lemma close_entry:
  assumes "win_good s" "fd_entry s fd = Some e" "ftype e \<noteq> FD_UNUSED"
    "b \<longrightarrow> drain_win W (fid e) (win_calls s @ [Win_shutdown (fid e) 1]) \<noteq> None"
  shows "\<exists>cs. OS_Close_win W fd b s = Returns (0, (set_fd fd (freed_entry e) s)\<lparr>win_calls := win_calls s @ cs\<rparr>) \<and>
    (Closesocket (fid e) \<in> set cs \<longleftrightarrow> ftype e \<in> {FD_SOCKET_SYNC, FD_SOCKET_ASYNC})"
proof (cases "ftype e \<in> {FD_SOCKET_SYNC, FD_SOCKET_ASYNC}")
  case False
  then have "OS_Close_win W fd b s = Returns (0, (set_fd fd (freed_entry e) s)\<lparr>win_calls := win_calls s @ []\<rparr>)"
    using assms(2,3) free_entry [OF assms(1-3)] by (simp add: OS_Close_win_def set_fd_def)
  with False show ?thesis by (intro exI [of _ "[]"]) simp
next
  case True
  let ?h = "fid e"
  obtain cs where cs: "close_socket W ?h b s = Returns (s\<lparr>win_calls := win_calls s @ cs @ [Closesocket ?h]\<rparr>)"
  proof (cases "b \<and> res (W (win_calls s) (Win_shutdown ?h 1)) = 0")
    case b: True
    with assms(4) obtain tr where tr: "drain_win W ?h (win_calls s @ [Win_shutdown ?h 1]) = Some tr" by auto
    from drain_calls [OF tr] obtain cs where "tr = (win_calls s @ [Win_shutdown ?h 1]) @ cs" by blast
    with b tr show ?thesis by (intro that [of "Win_shutdown ?h 1 # cs"]) (simp add: close_socket_def Let_def)
  next
    case b: False
    then show ?thesis
      by (intro that [of "if b then [Win_shutdown ?h 1] else []"]) (auto simp: close_socket_def Let_def)
  qed
  let ?s = "s\<lparr>win_calls := win_calls s @ cs @ [Closesocket ?h]\<rparr>"
  have "Win32FreeDescriptor W fd ?s = Returns (set_fd fd (freed_entry e) ?s)"
    using assms by (intro free_entry) simp_all
  with True assms(2,3) cs show ?thesis
    by (intro exI [of _ "cs @ [Closesocket ?h]"]) (simp add: OS_Close_win_def set_fd_def)
qed

text \<open>
  C15. Whatever calls an application of the layer for Windows makes, from its start on and in its
  callbacks, and whatever the system answers: the table of descriptors stays good, and every descriptor
  that is in use can be closed, if the peer of a socket that is shut down in an orderly way comes to an
  end.  Closing frees the entry of the descriptor and no other one; a socket is closed, while the handle of
  a pipe never is.
\<close>

theorem win_states_good:
  assumes "win_reaches W prog s" "fd_entry s fd = Some e" "ftype e \<noteq> FD_UNUSED"
    "b \<longrightarrow> drain_win W (fid e) (win_calls s @ [Win_shutdown (fid e) 1]) \<noteq> None"
  shows "win_good s \<and>
    (\<exists>cs. OS_Close_win W fd b s = Returns (0, (set_fd fd (freed_entry e) s)\<lparr>win_calls := win_calls s @ cs\<rparr>) \<and>
       (Closesocket (fid e) \<in> set cs \<longleftrightarrow> ftype e \<in> {FD_SOCKET_SYNC, FD_SOCKET_ASYNC}))"
  using reaches_good [OF assms(1)] close_entry [OF _ assms(2-4)] by blast

text \<open>A system on which sockets, requests and pipes are made, and everything goes well.\<close>

definition win_answer :: "int \<Rightarrow> win_reply" where
  "win_answer n =
     \<lparr>res = n, last_error = 0, nbytes = 0, compl_key = 9, compl_ov = 40, out_handle = 0, rdata = [], rtext = Some ''10.0.0.1'',
      signalled = False\<rparr>"

fun win_sample :: win_kernel where
  "win_sample tr Win_socket = win_answer 7"
| "win_sample tr (CreateFile path) = win_answer 9"
| "win_sample tr (CreateNamedPipe path) = win_answer 11"
| "win_sample tr (Win_malloc n) = win_answer 40"
| "win_sample tr (Win_bind h n) = win_answer 0"
| "win_sample tr (Win_listen h n) = win_answer 0"
| "win_sample tr (Recv h n) = win_answer 0"
| "win_sample tr (WSAAccept h) = win_answer 8"
| "win_sample tr c = win_answer 1"

lemmas win_eval =
  ask_def Let_def win_answer_def fd_entry_def set_fd_def WIN32_OPEN_MAX_def Win32NewDescriptor_def new_entry_def
  unused_entry_def INVALID_HANDLE_def win_start_def state_of_def LOCALHOST_def

definition listening :: "(nat, nat) win_state" where
  "listening = (case OS_CreateLocalIpcFd_win win_sample ''localhost:9000'' 5 (win_start (\<lambda>_. 3)) of
     Returns x \<Rightarrow> snd x | _ \<Rightarrow> win_start (\<lambda>_. 3))"

lemma getPort_samples: "getPort ''localhost:9000'' = 9000" "getPort ''fcgi'' = 0" "getPort '':9000'' = 9000"
  by code_simp+

lemma listening_result: "OS_CreateLocalIpcFd_win win_sample ''localhost:9000'' 5 (win_start (\<lambda>_. 3)) = Returns (7, listening)"
  by (simp add: listening_def OS_CreateLocalIpcFd_win_def make_mutex_def listen_on_port_def getPort_samples win_eval)

lemma listening_reached: "win_reaches win_sample prog listening"
  using reaches_op [OF reaches_start, of win_sample "W_CreateLocalIpcFd ''localhost:9000'' 5" "\<lambda>_. 3" listening prog]
  by (simp add: listening_result state_of_def)

lemma listening_table:
  "fdTable listening = (replicate WIN32_OPEN_MAX unused_entry) [7 := new_entry FD_SOCKET_SYNC 7 unused_entry]"
  "listenType listening = FD_SOCKET_SYNC" "hListen listening = 7" "acceptMutex listening = 1"
  "shutdownPending_win listening = False"
  by (simp_all add: listening_def OS_CreateLocalIpcFd_win_def make_mutex_def listen_on_port_def getPort_samples win_eval)

lemma new_entry_sel [simp]: "fid (new_entry ty h e) = h" "ftype (new_entry ty h e) = ty"
  by (simp_all add: new_entry_def)

lemma listening_entry: "fd_entry listening 7 = Some (new_entry FD_SOCKET_SYNC 7 unused_entry)"
  by (simp add: fd_entry_def listening_table WIN32_OPEN_MAX_def)

lemma win_states_good_witness:
  "win_good listening \<and>
   (\<exists>cs. OS_Close_win win_sample 7 False listening =
      Returns (0, (set_fd 7 (freed_entry (new_entry FD_SOCKET_SYNC 7 unused_entry)) listening)\<lparr>win_calls := win_calls listening @ cs\<rparr>)
      \<and> Closesocket 7 \<in> set cs)"
  using win_states_good [of win_sample "\<lambda>_ _ _ _. []" listening 7 "new_entry FD_SOCKET_SYNC 7 unused_entry" False]
    listening_reached listening_entry
  by simp

section \<open>Whom \<open>OS_Accept\<close> lets in\<close>

lemma strstr_Some:
  "strstr l ip = Some i \<longleftrightarrow>
     i \<le> length l \<and> take (length ip) (drop i l) = ip \<and> (\<forall>j < i. take (length ip) (drop j l) \<noteq> ip)"
proof -
  have "strstr l ip = Some i \<longleftrightarrow>
    (i < Suc (length l) \<and> take (length ip) (drop i l) = ip \<and> (\<forall>j < i. take (length ip) (drop j l) \<noteq> ip))"
    unfolding strstr_def find_Some_iff by (auto simp del: upt_Suc)
  then show ?thesis by (simp add: less_Suc_eq_le)
qed

definition delimited :: "string \<Rightarrow> string \<Rightarrow> bool" where
  "delimited pre post \<longleftrightarrow>
     (pre = [] \<or> List.last pre \<in> set addr_token) \<and> (post = [] \<or> List.hd post \<in> set addr_token)"

text \<open>What \<open>isAddrOK\<close> decides: only the first occurrence of the address counts.\<close>

lemma isAddrOK_iff:
  "isAddrOK ip (Some l) \<longleftrightarrow>
     (\<exists>pre post. l = pre @ ip @ post \<and> delimited pre post \<and>
        (\<forall>j < length pre. take (length ip) (drop j l) \<noteq> ip))" (is "_ \<longleftrightarrow> ?R")
proof
  assume ok: "isAddrOK ip (Some l)"
  then obtain i where i: "strstr l ip = Some i" by (auto simp: isAddrOK_def split: option.splits)
  let ?pre = "take i l" and ?post = "drop (i + length ip) l"
  have len: "i \<le> length l" and at: "take (length ip) (drop i l) = ip" using i by (simp_all add: strstr_Some)
  have "drop i l = ip @ ?post"
    using append_take_drop_id [of "length ip" "drop i l"] by (simp add: at add.commute)
  then have l: "l = ?pre @ ip @ ?post" by (metis append_take_drop_id)
  have "i \<noteq> 0 \<Longrightarrow> List.last ?pre = l ! (i - 1)" using len by (cases i) (simp_all add: take_Suc_conv_app_nth)
  with ok i have "delimited ?pre ?post"
    by (auto simp: isAddrOK_def delimited_def Let_def split: if_splits)
  with i l len show ?R by (intro exI [of _ ?pre] exI [of _ ?post]) (simp add: strstr_Some min_def)
next
  assume ?R
  then obtain pre post where r: "l = pre @ ip @ post" "delimited pre post"
    "\<forall>j < length pre. take (length ip) (drop j l) \<noteq> ip" by blast
  then have "strstr l ip = Some (length pre)" by (simp add: strstr_Some)
  moreover have "drop (length pre + length ip) l = post" by (simp add: r(1))
  moreover have "pre \<noteq> [] \<Longrightarrow> l ! (length pre - 1) = List.last pre" by (simp add: r(1) nth_append last_conv_nth)
  ultimately show "isAddrOK ip (Some l)" using r(2) by (auto simp: isAddrOK_def delimited_def Let_def)
qed

text \<open>The descriptor of a connection, and the answer of \<open>WSAAccept\<close> that it comes from.\<close>

definition accepted_from ::
  "win_kernel \<Rightarrow> string option \<Rightarrow> int \<Rightarrow> int \<times> ('p, 'd, 'z) win_state_scheme \<Rightarrow> bool" where
  "accepted_from W a h x \<longleftrightarrow> (case x of (fd, t) \<Rightarrow> fd \<noteq> -1 \<longrightarrow>
     (\<exists>tr rest. win_calls t = tr @ WSAAccept h # rest \<and>
        isAddrOKCallback (rtext (W tr (WSAAccept h))) a \<and>
        fid (fdTable t ! nat fd) = res (W tr (WSAAccept h)) \<and> ftype (fdTable t ! nat fd) = FD_SOCKET_SYNC))"

lemma new_descriptor_entry:
  assumes "Win32NewDescriptor ty h d s = (fd, t)" "fd \<noteq> -1" "length (fdTable s) = WIN32_OPEN_MAX"
  shows "fd_entry t fd = Some (new_entry ty h (fdTable s ! nat fd)) \<and> win_calls t = win_calls s"
proof -
  have r: "0 \<le> fd" "fd < int WIN32_OPEN_MAX"
    using assms(1,2) find_unused_range [of 1 "fdTable s"]
    by (auto simp: Win32NewDescriptor_def Let_def split: if_splits)
  moreover have "t = set_fd fd (new_entry ty h (fdTable s ! nat fd)) s"
    using assms(1,2) by (auto simp: Win32NewDescriptor_def Let_def split: if_splits)
  ultimately show ?thesis using assms(3) by (simp add: fd_entry_def set_fd_def)
qed

lemma accepted_none [simp]: "accepted_from W a h (-1, t)"
  by (simp add: accepted_from_def)

lemma accepted_append:
  assumes "accepted_from W a h (fd, t)"
  shows "accepted_from W a h (fd, t\<lparr>win_calls := win_calls t @ cs\<rparr>)"
proof (cases "fd = -1")
  case False
  with assms obtain tr rest where "win_calls t = tr @ WSAAccept h # rest"
    "isAddrOKCallback (rtext (W tr (WSAAccept h))) a" "fid (fdTable t ! nat fd) = res (W tr (WSAAccept h))"
    "ftype (fdTable t ! nat fd) = FD_SOCKET_SYNC" by (auto simp: accepted_from_def)
  then show ?thesis unfolding accepted_from_def by (intro case_prodI impI exI [of _ tr] exI [of _ "rest @ cs"]) simp_all
qed simp

lemma accepted_socket_from:
  assumes "win_calls s = tr @ WSAAccept h # rest" "isAddrOKCallback (rtext (W tr (WSAAccept h))) a"
    "length (fdTable s) = WIN32_OPEN_MAX" "n = res (W tr (WSAAccept h))"
  shows "yields (accepted_from W a h) (accepted_socket W n s)"
proof (cases "Win32NewDescriptor FD_SOCKET_SYNC n (-1) s")
  case (Pair fd t)
  show ?thesis
  proof (cases "fd = -1")
    case True
    with Pair show ?thesis by (simp add: accepted_socket_def ask_def accepted_from_def)
  next
    case False
    from new_descriptor_entry [OF Pair this assms(3)]
    have "fdTable t ! nat fd = new_entry FD_SOCKET_SYNC n (fdTable s ! nat fd)" "win_calls t = win_calls s"
      by (auto simp: fd_entry_def split: if_splits)
    with False assms Pair show ?thesis
      by (simp add: accepted_socket_def accepted_from_def) blast
  qed
qed

lemma shutdown_refuses: "yields (accepted_from W a h) (and_then m (\<lambda>s. Returns (-1, s)))"
  by (cases m) simp_all

lemma acceptSocket_from:
  assumes "acceptSocket W a s = Some x"
  shows "length (fdTable s) = WIN32_OPEN_MAX \<Longrightarrow> yields (accepted_from W a (hListen s)) x"
proof (induction rule: acceptSocket.raw_induct [OF _ assms])
  case (1 f W a s x)
  let ?h = "hListen s"
  let ?r = "W (win_calls s) (Win_select ?h)"
  let ?tr = "win_calls s @ [Win_select ?h]"
  let ?s = "s\<lparr>win_calls := ?tr, shutdownPending_win := shutdownPending_win s \<or> signalled ?r\<rparr>"
  let ?q = "W ?tr (WSAAccept ?h)" and ?t = "?s\<lparr>win_calls := ?tr @ [WSAAccept ?h]\<rparr>"
  show ?case
  proof (cases "res ?r = 0")
    case True
    with 1(2,3) 1(1) [of W a ?s x] show ?thesis by (auto simp: Let_def shutdown_refuses split: if_splits)
  next
    case r: False
    show ?thesis
    proof (cases "fst (wsa_accept a ?q) = INVALID_HANDLE")
      case True
      with r 1(2,3) 1(1) [of W a ?t x] show ?thesis
        by (auto simp: Let_def split: if_splits prod.splits)
    next
      case False
      then have "isAddrOKCallback (rtext ?q) a" "fst (wsa_accept a ?q) = res ?q"
        by (auto simp: wsa_accept_def split: if_splits)
      moreover have "x = accepted_socket W (fst (wsa_accept a ?q)) ?t"
        using r False 1(2) by (simp add: Let_def split: prod.splits)
      ultimately show ?thesis using 1(3) by (auto intro!: accepted_socket_from)
    qed
  qed
qed

lemma release_from:
  "accepted_from W a h x \<Longrightarrow> yields (accepted_from W a h) (release_mutex W x)"
  by (cases x) (simp add: release_mutex_def ask_def accepted_append)

lemma accept_connection_from:
  assumes "length (fdTable s) = WIN32_OPEN_MAX" "listenType s = FD_SOCKET_SYNC"
  shows "yields (accepted_from W a (hListen s)) (accept_connection W a s)"
  using assms by (auto simp: accept_connection_def shutdown_refuses split: option.splits intro: acceptSocket_from)

lemma Accept_from:
  assumes "length (fdTable s) = WIN32_OPEN_MAX" "listenType s = FD_SOCKET_SYNC"
  shows "yields (accepted_from W a (hListen s)) (OS_Accept_win W a s)"
proof -
  have *: "yields (accepted_from W a (hListen s)) (and_then (accept_connection W a t) (release_mutex W))"
    if "length (fdTable t) = WIN32_OPEN_MAX" "listenType t = FD_SOCKET_SYNC" "hListen t = hListen s" for t
    using yields_and_then [OF accept_connection_from [OF that(1,2)] release_from] that(3) by simp
  show ?thesis unfolding OS_Accept_win_def ask_def Let_def
    using assms by (auto simp: shutdown_refuses *)
qed

text \<open>
  C8. When \<open>OS_Accept\<close> hands out a descriptor of a listening socket, it stands for the socket of a connection
  that \<open>WSAAccept\<close> has answered with; and when there is a list of allowed addresses and the connection comes from
  an Internet address, this address stands in the list, between separators or the ends of the list, and does not
  occur in the list before.
\<close>

theorem peer_allowed:
  assumes "OS_Accept_win W (Some allowed) s = Returns (fd, t)" "fd \<noteq> -1" "listenType s = FD_SOCKET_SYNC"
    "length (fdTable s) = WIN32_OPEN_MAX"
  shows "\<exists>tr rest. win_calls t = tr @ WSAAccept (hListen s) # rest \<and>
    fid (fdTable t ! nat fd) = res (W tr (WSAAccept (hListen s))) \<and> ftype (fdTable t ! nat fd) = FD_SOCKET_SYNC \<and>
    (\<forall>ip. rtext (W tr (WSAAccept (hListen s))) = Some ip \<longrightarrow>
       (\<exists>pre post. allowed = pre @ ip @ post \<and> delimited pre post \<and>
          (\<forall>j < length pre. take (length ip) (drop j allowed) \<noteq> ip)))"
  using Accept_from [OF assms(4,3), of W "Some allowed"] assms(1,2)
  by (auto simp: accepted_from_def isAddrOKCallback_def isAddrOK_iff)

lemma allowed_sample: "isAddrOK ''10.0.0.1'' (Some ''10.0.0.9,10.0.0.1'')" "\<not> isAddrOK ''10.0.0.1'' (Some ''10.0.0.11 10.0.0.1'')"
  by code_simp+

definition connection :: "(nat, nat) win_state" where
  "connection = (case OS_Accept_win win_sample (Some ''10.0.0.9,10.0.0.1'') listening of Returns x \<Rightarrow> snd x | _ \<Rightarrow> listening)"

lemma connection_result: "OS_Accept_win win_sample (Some ''10.0.0.9,10.0.0.1'') listening = Returns (8, connection)"
  by (simp add: connection_def OS_Accept_win_def accept_connection_def listening_table acceptSocket.simps [of _ _ s for s]
    wsa_accept_def isAddrOKCallback_def allowed_sample accepted_socket_def release_mutex_def win_eval)

lemma peer_allowed_witness:
  "(\<exists>tr rest. win_calls connection = tr @ WSAAccept 7 # rest \<and> fid (fdTable connection ! 8) = 8 \<and>
      (\<exists>pre post. ''10.0.0.9,10.0.0.1'' = pre @ ''10.0.0.1'' @ post \<and> delimited pre post)) \<and>
   \<not> isAddrOK ''10.0.0.1'' (Some ''10.0.0.11 10.0.0.1'')"
proof -
  have "\<exists>tr rest. win_calls connection = tr @ WSAAccept 7 # rest \<and> fid (fdTable connection ! 8) = 8 \<and>
      (\<exists>pre post. ''10.0.0.9,10.0.0.1'' = pre @ ''10.0.0.1'' @ post \<and> delimited pre post)"
    using peer_allowed [OF connection_result] by (simp add: listening_table win_answer_def) blast
  with allowed_sample(2) show ?thesis by blast
qed

section \<open>Where the layer goes wrong\<close>

lemma find_unused_free:
  assumes "1 \<le> j" "j < WIN32_OPEN_MAX" "ftype (tab ! j) = FD_UNUSED"
  shows "find_unused 1 tab \<noteq> -1"
  using find_unused_none [of 1 tab] assms by blast

lemma new_descriptor_free:
  assumes "h > 0" "1 \<le> j" "j < WIN32_OPEN_MAX" "ftype (fdTable s ! j) = FD_UNUSED"
  shows "fst (Win32NewDescriptor ty h (-1) s) \<noteq> -1"
  using assms find_unused_free [OF assms(2-4)] by (simp add: Win32NewDescriptor_def Let_def)

text \<open>
  C29. \<open>OS_FcgiConnect\<close> takes the answer of \<open>connect\<close> for its opposite: when the connection to a port has been
  made, it closes the socket and returns -1; when it could not be made, it hands out a descriptor of the socket,
  if the table has room for one.
\<close>

theorem connect_inverted:
  assumes "take 1 path = '':''" "getPort path \<noteq> 0" "tr = win_calls s @ [Win_gethostbyname LOCALHOST, Win_socket]"
    "rtext (W (win_calls s) (Win_gethostbyname LOCALHOST)) = Some ip"
    "sock = res (W (win_calls s @ [Win_gethostbyname LOCALHOST]) Win_socket)" "sock > 0"
    "length (fdTable s) = WIN32_OPEN_MAX" "1 \<le> j" "j < WIN32_OPEN_MAX" "ftype (fdTable s ! j) = FD_UNUSED"
  shows "if res (W tr (Win_connect sock ip (getPort path))) = 0
    then OS_FcgiConnect_win W path s =
      Returns (-1, s\<lparr>win_calls := tr @ [Win_connect sock ip (getPort path), Closesocket sock]\<rparr>)
    else \<exists>fd t. OS_FcgiConnect_win W path s = Returns (fd, t) \<and> fd \<noteq> -1 \<and>
      win_calls t = tr @ [Win_connect sock ip (getPort path)] \<and>
      fid (fdTable t ! nat fd) = sock \<and> ftype (fdTable t ! nat fd) = FD_SOCKET_SYNC"
proof -
  let ?c = "Win_connect sock ip (getPort path)" and ?h = "Win_gethostbyname LOCALHOST"
  let ?s = "s\<lparr>win_calls := tr @ [?c]\<rparr>"
  obtain fd t where n: "Win32NewDescriptor FD_SOCKET_SYNC sock (-1) ?s = (fd, t)" by fastforce
  have fd: "fd \<noteq> -1" using new_descriptor_free [OF assms(6,8,9), of ?s FD_SOCKET_SYNC] assms(10) n by simp
  have e: "fd_entry t fd = Some (new_entry FD_SOCKET_SYNC sock (fdTable s ! nat fd))" "win_calls t = win_calls ?s"
    using new_descriptor_entry [OF n fd] assms(7) by simp_all
  then have "fdTable t ! nat fd = new_entry FD_SOCKET_SYNC sock (fdTable s ! nat fd)"
    by (simp add: fd_entry_def split: if_splits)
  moreover have "sock \<noteq> INVALID_HANDLE" using assms(6) by (simp add: INVALID_HANDLE_def)
  ultimately show ?thesis
    using assms(1,2,4) assms(3,5) [symmetric] n fd e(2)
    by (simp add: OS_FcgiConnect_win_def connect_port_def ask_def Let_def)
qed

lemma connect_inverted_witness:
  "\<exists>fd t. OS_FcgiConnect_win win_sample '':9000'' (win_start (\<lambda>_. 3)) = Returns (fd, t) \<and> fd \<noteq> -1 \<and>
     win_calls t = [Win_gethostbyname LOCALHOST, Win_socket, Win_connect 7 ''10.0.0.1'' 9000] \<and>
     fid (fdTable t ! nat fd) = 7"
  using connect_inverted [of "'':9000''" _ "win_start (\<lambda>_. 3)" win_sample "''10.0.0.1''" 7 1]
  by (simp add: getPort_samples win_start_def win_answer_def WIN32_OPEN_MAX_def unused_entry_def) blast

text \<open>
  C28. The instance of a descriptor is meant to tell the operations of a closed descriptor from those of the
  next one with its number, but it never changes: in every state an application reaches, the completion of an
  operation that was still pending when its descriptor was closed calls its procedure back, as any other
  does.
\<close>

theorem stale_completion:
  assumes "win_reaches W prog s" "OS_Close_win W fd b s = Returns (rc, t)" "compl_key r = fd"
    "requests t (compl_ov r) = Some q"
  shows "complete cb r t = and_then (cb (ov_proc q) (ov_clientData q) (nbytes r) t) (\<lambda>u.
    if requests u (compl_ov r) = None then Undefined else Returns (u\<lparr>requests := (requests u)(compl_ov r := None)\<rparr>))"
proof -
  have t: "win_good t" using Close_good [OF reaches_good [OF assms(1)], of W fd b] assms(2) by simp
  have "fd_entry t fd \<noteq> None"
    using assms(2) by (auto simp: OS_Close_win_def fd_entry_def split: if_splits)
  then obtain e where e: "fd_entry t (compl_key r) = Some e" using assms(3) by blast
  have "finstance e = 0" using good_entry [OF t e] by (simp add: entry_good_def)
  moreover have "ov_instance q = 0" using t assms(4) by (auto simp: win_good_def ran_def)
  ultimately show ?thesis by (simp add: complete_def e assms(4))
qed

definition reading :: "(nat, nat) win_state" where
  "reading = (case and_then (win_call_op win_sample (W_FcgiConnect ''fcgi'') (win_start (\<lambda>_. 3)))
     (win_call_op win_sample (W_AsyncRead 9 0 100 5 6)) of Returns x \<Rightarrow> x | _ \<Rightarrow> win_start (\<lambda>_. 3))"

lemma reading_reached: "win_reaches win_sample prog reading"
proof -
  let ?s = "win_start (\<lambda>_. 3) :: (nat, nat) win_state"
  obtain u where u: "win_call_op win_sample (W_FcgiConnect ''fcgi'') ?s = Returns u"
    "win_call_op win_sample (W_AsyncRead 9 0 100 5 6) u = Returns reading"
    by (simp add: reading_def OS_FcgiConnect_win_def connect_pipe_def getPort_samples OS_AsyncRead_win_def async_types_def
      new_request_def overlapped_answer_def win_eval)
  show ?thesis by (rule reaches_op [OF reaches_op [OF reaches_start u(1)] u(2)])
qed

lemma reading_closed:
  "\<exists>t q. OS_Close_win win_sample 9 True reading = Returns (0, t) \<and> requests t 40 = Some q \<and>
     ov_proc q = 5 \<and> ov_clientData q = 6 \<and> ftype (fdTable t ! 9) = FD_UNUSED"
  by (simp add: reading_def OS_FcgiConnect_win_def connect_pipe_def getPort_samples OS_AsyncRead_win_def async_types_def
    new_request_def overlapped_answer_def OS_Close_win_def Win32FreeDescriptor_def win_eval)

lemma stale_completion_witness:
  "\<exists>t. OS_Close_win win_sample 9 True reading = Returns (0, t) \<and> ftype (fdTable t ! 9) = FD_UNUSED \<and>
     complete (\<lambda>p d n s. Exits (int (10 * p + d))) (win_answer 1) t = Exits 56"
proof -
  obtain t q where t: "OS_Close_win win_sample 9 True reading = Returns (0, t)" "requests t 40 = Some q"
    "ov_proc q = 5" "ov_clientData q = 6" "ftype (fdTable t ! 9) = FD_UNUSED" using reading_closed by blast
  have "complete (\<lambda>p d n s. Exits (int (10 * p + d))) (win_answer 1) t = Exits 56"
    using stale_completion [OF reading_reached t(1), of "win_answer 1" q] t(2-4) by (simp add: win_answer_def)
  with t(1,5) show ?thesis by blast
qed

lemma LibShutdown_returns: "\<exists>u. OS_LibShutdown_win W s = Returns u"
  by (simp add: OS_LibShutdown_win_def ask_def)

lemma make_mutex_keeps: "make_mutex W s = Returns (rc, t) \<Longrightarrow> fdTable t = fdTable s"
  by (auto simp: make_mutex_def ask_def Let_def split: if_splits)

lemma release_returns: "\<exists>v. release_mutex W (n, u) = Returns (n, v)"
  by (simp add: release_mutex_def ask_def)

lemma listen_on_pipe_entry:
  assumes "listen_on_pipe W path s = Returns (fd, t)" "fd \<ge> 0" "length (fdTable s) = WIN32_OPEN_MAX"
  shows "listenType t = listenType s \<and> (\<exists>h. fd_entry t fd = Some (new_entry (listenType s) h (fdTable s ! nat fd)))"
proof -
  obtain h u tr where n: "Win32NewDescriptor (listenType s) h (-1) (s\<lparr>win_calls := tr\<rparr>) = (fd, u)" "t = u\<lparr>hListen := h\<rparr>"
    using assms(1,2) by (auto simp: listen_on_pipe_def ask_def Let_def split: if_splits prod.splits)
  have "fd_entry u fd = Some (new_entry (listenType s) h (fdTable s ! nat fd))"
    using new_descriptor_entry [OF n(1)] assms(2,3) by simp
  moreover have "listenType u = listenType s"
    using n(1) by (auto simp: Win32NewDescriptor_def Let_def set_fd_def split: if_splits)
  ultimately show ?thesis by (auto simp: n(2) fd_entry_def split: if_splits)
qed

text \<open>
  C27. A listener on a named pipe that \<open>OS_CreateLocalIpcFd\<close> has made is of no use in its own process: \<open>OS_Accept\<close>
  comes back with -1, whatever the system answers, and \<open>OS_IpcClose\<close> of the descriptor ends the process, since
  both know pipes by the other of their two types only.
\<close>

theorem pipe_listener_deaf:
  assumes "OS_CreateLocalIpcFd_win W path n s = Returns (fd, t)" "getPort path = 0" "fd \<ge> 0"
    "length (fdTable s) = WIN32_OPEN_MAX"
  shows "(\<exists>u. OS_Accept_win W a t = Returns (-1, u)) \<and> OS_IpcClose_win W fd b t = Exits 106"
proof -
  obtain rc m where m: "make_mutex W s = Returns (rc, m)"
    by (cases "make_mutex W s") (use assms(1) in \<open>auto simp: OS_CreateLocalIpcFd_win_def Let_def\<close>)
  have rc: "rc = 0"
    using m assms(1,3) by (auto simp: OS_CreateLocalIpcFd_win_def make_mutex_def ask_def Let_def split: if_splits)
  then have l: "listen_on_pipe W path (m\<lparr>listenType := FD_PIPE_ASYNC\<rparr>) = Returns (fd, t)"
    using assms(1,2) m by (simp add: OS_CreateLocalIpcFd_win_def Let_def)
  from listen_on_pipe_entry [OF this assms(3)] obtain e where e: "listenType t = FD_PIPE_ASYNC" "fd_entry t fd = Some e"
    "ftype e = FD_PIPE_ASYNC" using make_mutex_keeps [OF m] assms(4) by auto
  have c: "\<exists>u. accept_connection W a v = Returns (-1, u)" if "listenType v = FD_PIPE_ASYNC" for v
    using LibShutdown_returns [of W v] that by (auto simp: accept_connection_def)
  have r: "\<exists>u. and_then (accept_connection W a v) (release_mutex W) = Returns (-1, u)" if "listenType v = FD_PIPE_ASYNC" for v
    using c [OF that] release_returns by fastforce
  have "\<exists>u. OS_Accept_win W a t = Returns (-1, u)"
    using LibShutdown_returns [of W t] e(1) by (auto simp: OS_Accept_win_def ask_def Let_def intro: r)
  moreover have "OS_IpcClose_win W fd b t = Exits 106"
    using e assms(3) by (simp add: OS_IpcClose_win_def)
  ultimately show ?thesis by blast
qed

lemma pipe_listener_deaf_witness:
  "\<exists>t :: (nat, nat) win_state. OS_CreateLocalIpcFd_win win_sample ''fcgi'' 5 (win_start (\<lambda>_. 3)) = Returns (11, t) \<and>
     (\<exists>u. OS_Accept_win win_sample None t = Returns (-1, u)) \<and> OS_IpcClose_win win_sample 11 True t = Exits 106"
proof -
  obtain t :: "(nat, nat) win_state" where t: "OS_CreateLocalIpcFd_win win_sample ''fcgi'' 5 (win_start (\<lambda>_. 3)) = Returns (11, t)"
    by (simp add: OS_CreateLocalIpcFd_win_def make_mutex_def listen_on_pipe_def getPort_samples win_eval)
  moreover have "length (fdTable (win_start (\<lambda>_. 3) :: (nat, nat) win_state)) = WIN32_OPEN_MAX" by (simp add: win_start_def)
  ultimately show ?thesis
    using pipe_listener_deaf [OF t getPort_samples(2)] by auto
qed

end
