(* ===== verification/Os_Async_Laws.thy ===== *)
theory Os_Async_Laws
  imports Os_Async
begin

text \<open>
  What the asynchronous operations of \<open>os_unix.c\<close> keep of their table and their sets, which
  calls \<open>OS_DoIo\<close> makes, and what a close in the wrong moment does to it.
\<close>

section \<open>Good outcomes\<close>

text \<open>Not undefined, and a state with the property if there is one.\<close>

definition fine :: "('a \<Rightarrow> bool) \<Rightarrow> 'a outcome \<Rightarrow> bool" where
  "fine P m = (case m of Returns x \<Rightarrow> P x | Exits n \<Rightarrow> True | Undefined \<Rightarrow> False)"

lemma fine_simps [simp]:
  "fine P (Returns x) = P x" "fine P (Exits n)" "\<not> fine P Undefined"
  by (simp_all add: fine_def)

lemma fine_and_then: "fine Q m \<Longrightarrow> (\<And>x. Q x \<Longrightarrow> fine P (f x)) \<Longrightarrow> fine P (and_then m f)"
  by (cases m) auto

lemma fine_mono: "fine Q m \<Longrightarrow> (\<And>x. Q x \<Longrightarrow> P x) \<Longrightarrow> fine P m"
  by (cases m) auto

section \<open>The table\<close>

lemma aio_entry_cong [simp]:
  "aio_entry (s\<lparr>asyncIoInUse := b\<rparr>) = aio_entry s"
  "aio_entry (s\<lparr>readFdSet := x\<rparr>) = aio_entry s"
  "aio_entry (s\<lparr>writeFdSet := x\<rparr>) = aio_entry s"
  "aio_entry (s\<lparr>readFdSetPost := x\<rparr>) = aio_entry s"
  "aio_entry (s\<lparr>writeFdSetPost := x\<rparr>) = aio_entry s"
  "aio_entry (s\<lparr>numRdPosted := k\<rparr>) = aio_entry s"
  "aio_entry (s\<lparr>numWrPosted := k\<rparr>) = aio_entry s"
  "aio_entry (s\<lparr>maxFd := k\<rparr>) = aio_entry s"
  "aio_entry (s\<lparr>aio_trace := tr\<rparr>) = aio_entry s"
  by (simp_all add: aio_entry_def fun_eq_iff)

lemma set_entry_sel [simp]:
  "asyncIoTableSize (set_entry i a s) = asyncIoTableSize s"
  "readFdSet (set_entry i a s) = readFdSet s"
  "writeFdSet (set_entry i a s) = writeFdSet s"
  "readFdSetPost (set_entry i a s) = readFdSetPost s"
  "writeFdSetPost (set_entry i a s) = writeFdSetPost s"
  "numRdPosted (set_entry i a s) = numRdPosted s"
  "numWrPosted (set_entry i a s) = numWrPosted s"
  "maxFd (set_entry i a s) = maxFd s"
  "aio_trace (set_entry i a s) = aio_trace s"
  "asyncIoInUse (set_entry i a s) = asyncIoInUse s"
  by (simp_all add: set_entry_def)

lemma aio_entry_set_entry [simp]:
  "aio_entry s i = Some b \<Longrightarrow>
   aio_entry (set_entry i a s) j = (if j = i then Some a else aio_entry s j)"
  by (auto simp: aio_entry_def set_entry_def nat_eq_iff split: option.splits if_splits)

lemma index_simps [simp]:
  "AIO_RD_IX fd = AIO_RD_IX fd' \<longleftrightarrow> fd = fd'" "AIO_WR_IX fd = AIO_WR_IX fd' \<longleftrightarrow> fd = fd'"
  "AIO_RD_IX fd \<noteq> AIO_WR_IX fd'" "AIO_WR_IX fd' \<noteq> AIO_RD_IX fd"
  by (simp_all add: AIO_RD_IX_def AIO_WR_IX_def) presburger+

definition table_ok :: "('p, 'd, 'z) aio_state_scheme \<Rightarrow> bool" where
  "table_ok s \<longleftrightarrow>
     (\<exists>t. asyncIoTable s = Some t \<and> length t = asyncIoTableSize s \<and> 0 < length t)"

lemma table_ok_cong [simp]:
  "table_ok (s\<lparr>asyncIoInUse := b\<rparr>) = table_ok s"
  "table_ok (s\<lparr>readFdSet := x\<rparr>) = table_ok s"
  "table_ok (s\<lparr>writeFdSet := x\<rparr>) = table_ok s"
  "table_ok (s\<lparr>readFdSetPost := x\<rparr>) = table_ok s"
  "table_ok (s\<lparr>writeFdSetPost := x\<rparr>) = table_ok s"
  "table_ok (s\<lparr>numRdPosted := k\<rparr>) = table_ok s"
  "table_ok (s\<lparr>numWrPosted := k\<rparr>) = table_ok s"
  "table_ok (s\<lparr>maxFd := k\<rparr>) = table_ok s"
  "table_ok (s\<lparr>aio_trace := tr\<rparr>) = table_ok s"
  "table_ok (set_entry i a s) = table_ok s"
  by (auto simp: table_ok_def set_entry_def)

lemma aio_entry_defined:
  "table_ok s \<Longrightarrow> aio_entry s i \<noteq> None \<longleftrightarrow> 0 \<le> i \<and> i < int (asyncIoTableSize s)"
  by (auto simp: table_ok_def aio_entry_def split: if_splits)

section \<open>Well-formed states\<close>

text \<open>
  One direction, reading or writing: a descriptor that is waited for or posted has an entry and is
  at most the greatest one, and an entry in use belongs to its descriptor, can be called back, and
  is waited for or posted.  (Not every descriptor that is waited for has its entry in use, as
  \<open>OS_CloseRead\<close> leaves an event behind.)
\<close>

definition waiting_ok ::
  "(int \<Rightarrow> int) \<Rightarrow> int set \<Rightarrow> int set \<Rightarrow> int \<Rightarrow> (int \<Rightarrow> ('p, 'd) aio_info option) \<Rightarrow> bool" where
  "waiting_ok ix w p m e \<longleftrightarrow>
     (\<forall>fd. (fd \<in> w \<union> p \<longrightarrow> 0 \<le> fd \<and> fd \<le> m \<and> e (ix fd) \<noteq> None)
         \<and> (\<forall>a. e (ix fd) = Some a \<longrightarrow> inUse a \<longrightarrow> aio_fd a = fd \<and> procPtr a \<noteq> None \<and> fd \<in> w \<union> p))"

definition aio_ok :: "('p, 'd, 'z) aio_state_scheme \<Rightarrow> bool" where
  "aio_ok s \<longleftrightarrow>
     table_ok s \<and> maxFd s < FD_SETSIZE
     \<and> waiting_ok AIO_RD_IX (readFdSet s) (readFdSetPost s) (maxFd s) (aio_entry s)
     \<and> waiting_ok AIO_WR_IX (writeFdSet s) (writeFdSetPost s) (maxFd s) (aio_entry s)"

lemma waiting_okI:
  assumes "\<And>fd. fd \<in> w \<Longrightarrow> 0 \<le> fd \<and> fd \<le> m \<and> e (ix fd) \<noteq> None"
    and "\<And>fd. fd \<in> p \<Longrightarrow> 0 \<le> fd \<and> fd \<le> m \<and> e (ix fd) \<noteq> None"
    and "\<And>fd a. e (ix fd) = Some a \<Longrightarrow> inUse a \<Longrightarrow>
           aio_fd a = fd \<and> procPtr a \<noteq> None \<and> fd \<in> w \<union> p"
  shows "waiting_ok ix w p m e"
  using assms unfolding waiting_ok_def by (metis Un_iff)

lemma waiting_okD:
  assumes "waiting_ok ix w p m e"
  shows "fd \<in> w \<Longrightarrow> 0 \<le> fd" "fd \<in> w \<Longrightarrow> fd \<le> m" "fd \<in> p \<Longrightarrow> 0 \<le> fd" "fd \<in> p \<Longrightarrow> fd \<le> m"
    "fd \<in> w \<Longrightarrow> \<exists>a. e (ix fd) = Some a"
    "fd \<in> p \<Longrightarrow> \<exists>a. e (ix fd) = Some a"
    "e (ix fd) = Some a \<Longrightarrow> inUse a \<Longrightarrow> aio_fd a = fd"
    "e (ix fd) = Some a \<Longrightarrow> inUse a \<Longrightarrow> \<exists>q. procPtr a = Some q"
    "e (ix fd) = Some a \<Longrightarrow> inUse a \<Longrightarrow> fd \<in> w \<union> p"
  using assms by (auto simp: waiting_ok_def)

text \<open>The steps of one direction.\<close>

lemma waiting_ok_request:
  assumes "waiting_ok ix w p m e" "inj ix" "0 \<le> fd" "fd \<le> m'" "m \<le> m'"
    and "inUse a" "aio_fd a = fd" "procPtr a \<noteq> None"
    and "\<And>j. e' j = (if j = ix fd then Some a else e j)"
  shows "waiting_ok ix (insert fd w) p m' e'"
proof (rule waiting_okI)
  fix g assume "g \<in> insert fd w"
  then show "0 \<le> g \<and> g \<le> m' \<and> e' (ix g) \<noteq> None"
    using assms waiting_okD(1,2,5) [OF assms(1), of g] by (auto simp: inj_eq)
next
  fix g assume "g \<in> p"
  then show "0 \<le> g \<and> g \<le> m' \<and> e' (ix g) \<noteq> None"
    using assms waiting_okD(3,4,6) [OF assms(1), of g] by auto
next
  fix g b assume "e' (ix g) = Some b" "inUse b"
  then show "aio_fd b = g \<and> procPtr b \<noteq> None \<and> g \<in> insert fd w \<union> p"
    using assms waiting_okD(7,8,9) [OF assms(1), of g b] by (auto simp: inj_eq split: if_splits)
qed

lemma waiting_ok_extend:
  assumes "waiting_ok ix w p m e" "m \<le> m'"
    and "\<And>j. e j \<noteq> None \<Longrightarrow> e' j = e j" "\<And>j a. e j = None \<Longrightarrow> e' j = Some a \<Longrightarrow> \<not> inUse a"
  shows "waiting_ok ix w p m' e'"
proof (rule waiting_okI)
  fix g assume "g \<in> w"
  then show "0 \<le> g \<and> g \<le> m' \<and> e' (ix g) \<noteq> None"
    using assms waiting_okD(1,2,5) [OF assms(1), of g] by fastforce
next
  fix g assume "g \<in> p"
  then show "0 \<le> g \<and> g \<le> m' \<and> e' (ix g) \<noteq> None"
    using assms waiting_okD(3,4,6) [OF assms(1), of g] by fastforce
next
  fix g b assume b: "e' (ix g) = Some b" "inUse b"
  with assms(3,4) [of "ix g"] have "e (ix g) = Some b" by fastforce
  with b show "aio_fd b = g \<and> procPtr b \<noteq> None \<and> g \<in> w \<union> p"
    using waiting_okD(7,8,9) [OF assms(1), of g b] by auto
qed

lemma waiting_ok_post:
  assumes "waiting_ok ix w p m e" "fd \<in> w"
  shows "waiting_ok ix (w - {fd}) (insert fd p) m e"
  using assms by (auto simp: waiting_ok_def)

lemma waiting_ok_other:
  assumes "waiting_ok ix w p m e" "\<And>g. e' (ix g) = e (ix g)"
  shows "waiting_ok ix w p m e'"
  using assms by (simp add: waiting_ok_def)

text \<open>An entry is freed and its descriptor taken out of both sets.\<close>

lemma waiting_ok_free:
  assumes "waiting_ok ix w p m e" "inj ix" "\<And>j. j \<noteq> ix fd \<Longrightarrow> e' j = e j"
    and "\<And>a. e' (ix fd) = Some a \<Longrightarrow> \<not> inUse a"
  shows "waiting_ok ix (w - {fd}) (p - {fd}) m e'"
proof (rule waiting_okI)
  fix g assume "g \<in> w - {fd}"
  then show "0 \<le> g \<and> g \<le> m \<and> e' (ix g) \<noteq> None"
    using assms waiting_okD(1,2,5) [OF assms(1), of g] by (auto simp: inj_eq)
next
  fix g assume "g \<in> p - {fd}"
  then show "0 \<le> g \<and> g \<le> m \<and> e' (ix g) \<noteq> None"
    using assms waiting_okD(3,4,6) [OF assms(1), of g] by (auto simp: inj_eq)
next
  fix g b assume b: "e' (ix g) = Some b" "inUse b"
  with assms(4) have "g \<noteq> fd" by auto
  with b assms(2,3) have "e (ix g) = Some b" by (metis injD)
  with b \<open>g \<noteq> fd\<close> show "aio_fd b = g \<and> procPtr b \<noteq> None \<and> g \<in> w - {fd} \<union> (p - {fd})"
    using waiting_okD(7,8,9) [OF assms(1), of g b] by auto
qed

lemma inj_ix [simp]: "inj AIO_RD_IX" "inj AIO_WR_IX"
  by (auto intro: injI)

section \<open>Requests\<close>

lemma no_aio_free [simp]: "\<not> inUse no_aio"
  by (simp add: no_aio_def)

text \<open>The table has grown: old entries stay, new ones are free, nothing else changes.\<close>

definition grown :: "('p, 'd, 'z) aio_state_scheme \<Rightarrow> ('p, 'd, 'z) aio_state_scheme \<Rightarrow> bool" where
  "grown s s' \<longleftrightarrow>
     table_ok s' \<and> asyncIoTableSize s \<le> asyncIoTableSize s'
     \<and> (\<forall>j. aio_entry s j \<noteq> None \<longrightarrow> aio_entry s' j = aio_entry s j)
     \<and> (\<forall>j a. aio_entry s j = None \<longrightarrow> aio_entry s' j = Some a \<longrightarrow> a = no_aio)
     \<and> (\<exists>n t tr. s' = s\<lparr>asyncIoTableSize := n, asyncIoTable := t, aio_trace := tr\<rparr>)"

lemma grown_refl: "table_ok s \<Longrightarrow> grown s s"
  unfolding grown_def by (intro conjI; (fastforce | (intro exI, rule aio_state.equality; simp)))

lemma grown_trans:
  assumes "grown s s'" "grown s' s''"
  shows "grown s s''"
proof -
  have "aio_entry s'' j = aio_entry s j" if "aio_entry s j \<noteq> None" for j
    using that assms unfolding grown_def by metis
  moreover have "a = no_aio" if "aio_entry s j = None" "aio_entry s'' j = Some a" for j a
    using that assms unfolding grown_def by (metis not_None_eq)
  moreover obtain n t tr n' t' tr' where
    s': "s' = s\<lparr>asyncIoTableSize := n, asyncIoTable := t, aio_trace := tr\<rparr>" and
    s'': "s'' = s'\<lparr>asyncIoTableSize := n', asyncIoTable := t', aio_trace := tr'\<rparr>"
    using assms unfolding grown_def by blast
  have "s'' = s\<lparr>asyncIoTableSize := n', asyncIoTable := t', aio_trace := tr'\<rparr>"
    unfolding s'' s' by simp
  then have "\<exists>n t tr. s'' = s\<lparr>asyncIoTableSize := n, asyncIoTable := t, aio_trace := tr\<rparr>"
    by blast
  ultimately show ?thesis
    using assms unfolding grown_def by (metis order_trans)
qed

lemma GrowAsyncTable_grown: "table_ok s \<Longrightarrow> fine (grown s) (GrowAsyncTable K s)"
proof (cases "aio_ret (K (aio_trace s) (Realloc (asyncIoTableSize s * 2))) = 0")
  case True
  assume "table_ok s"
  with True show ?thesis by (auto simp: table_ok_def GrowAsyncTable_def Let_def)
next
  case False
  assume "table_ok s"
  then obtain t where t: "asyncIoTable s = Some t" "length t = asyncIoTableSize s" "0 < length t"
    unfolding table_ok_def by blast
  let ?s = "s\<lparr>asyncIoTableSize := asyncIoTableSize s * 2,
               asyncIoTable := Some (t @ replicate (asyncIoTableSize s) no_aio),
               aio_trace := aio_trace s @ [Realloc (asyncIoTableSize s * 2)]\<rparr>"
  have "table_ok ?s"
    using t by (simp add: table_ok_def)
  moreover have "aio_entry ?s j = aio_entry s j" if "aio_entry s j \<noteq> None" for j
    using that t by (auto simp: aio_entry_def nth_append split: if_splits)
  moreover have "a = no_aio" if "aio_entry s j = None" "aio_entry ?s j = Some a" for j a
    using that t by (auto simp: aio_entry_def nth_append split: if_splits)
  ultimately have "grown s ?s"
    unfolding grown_def by (intro conjI; (blast | simp))
  with t False show ?thesis
    by (simp add: GrowAsyncTable_def Let_def)
qed

lemma grow_to_grown:
  "table_ok s \<Longrightarrow> fine (\<lambda>s'. grown s s' \<and> i < int (asyncIoTableSize s')) (grow_to K i s)"
proof (induction K i s rule: grow_to.induct)
  case (1 K i s)
  show ?case
  proof (cases "i < int (asyncIoTableSize s)")
    case True
    with "1.prems" show ?thesis
      by (simp add: grow_to.simps [of K i s] grown_refl)
  next
    case False
    from "1.prems" have n: "asyncIoTableSize s \<noteq> 0"
      by (metis less_numeral_extra(3) table_ok_def)
    show ?thesis
    proof (cases "GrowAsyncTable K s")
      case (Returns s')
      with GrowAsyncTable_grown [OF "1.prems", of K] have g: "grown s s'" by simp
      then have "table_ok s'" by (simp add: grown_def)
      from "1.IH" [OF False n Returns this] show ?thesis
        using False n Returns by (simp add: grow_to.simps [of K i s])
          (erule fine_mono, blast intro: grown_trans [OF g])
    next
      case (Exits k)
      then show ?thesis using False n by (simp add: grow_to.simps [of K i s])
    next
      case Undefined
      with GrowAsyncTable_grown [OF "1.prems", of K] show ?thesis by simp
    qed
  qed
qed

lemma grown_ok:
  assumes "aio_ok s" "grown (s\<lparr>asyncIoInUse := True, maxFd := m\<rparr>) s'" "maxFd s \<le> m" "m < FD_SETSIZE"
  shows "aio_ok s'"
proof -
  from assms(2) have g: "\<And>j. aio_entry s j \<noteq> None \<Longrightarrow> aio_entry s' j = aio_entry s j"
    "\<And>j a. aio_entry s j = None \<Longrightarrow> aio_entry s' j = Some a \<Longrightarrow> a = no_aio"
    unfolding grown_def by simp_all
  then have e: "\<And>j. aio_entry s j \<noteq> None \<Longrightarrow> aio_entry s' j = aio_entry s j"
    "\<And>j a. aio_entry s j = None \<Longrightarrow> aio_entry s' j = Some a \<Longrightarrow> \<not> inUse a"
    using no_aio_free by (blast, metis)
  from assms(2) have f: "maxFd s' = m" "readFdSet s' = readFdSet s" "writeFdSet s' = writeFdSet s"
    "readFdSetPost s' = readFdSetPost s" "writeFdSetPost s' = writeFdSetPost s"
    by (auto simp: grown_def)
  with assms e show ?thesis
    unfolding aio_ok_def f by (auto simp: grown_def intro: waiting_ok_extend)
qed

lemma max_update: "(if fd > maxFd s then s\<lparr>maxFd := fd\<rparr> else s) = s\<lparr>maxFd := max (maxFd s) fd\<rparr>"
  by (cases s) (auto simp: max_def)

lemma fits_fd_setD: "fits_fd_set fd \<Longrightarrow> 0 \<le> fd \<and> fd < FD_SETSIZE"
  by (simp add: fits_fd_set_def)

text \<open>The descriptor has no operation of that direction.\<close>

definition rd_free :: "int \<Rightarrow> ('p, 'd, 'z) aio_state_scheme \<Rightarrow> bool" where
  "rd_free fd s \<longleftrightarrow> (\<forall>a. aio_entry s (AIO_RD_IX fd) = Some a \<longrightarrow> \<not> inUse a)"

definition wr_free :: "int \<Rightarrow> ('p, 'd, 'z) aio_state_scheme \<Rightarrow> bool" where
  "wr_free fd s \<longleftrightarrow> (\<forall>a. aio_entry s (AIO_WR_IX fd) = Some a \<longrightarrow> \<not> inUse a)"

text \<open>Filling in an entry that is free, for the one and for the other direction.\<close>

lemma fill_read:
  assumes "aio_ok s" "rd_free fd s" "0 \<le> fd" "fd \<le> maxFd s" "AIO_RD_IX fd < int (asyncIoTableSize s)"
  shows "\<exists>s'. fill_entry (AIO_RD_IX fd) fd off buf len p d s = Returns s'
           \<and> aio_ok (s'\<lparr>readFdSet := insert fd (readFdSet s')\<rparr>)
           \<and> aio_entry s' (AIO_RD_IX fd) =
               Some \<lparr>procPtr = Some p, clientData = d, aio_fd = fd, aio_len = len, aio_offset = off,
                     aio_buf = buf, inUse = True\<rparr>
           \<and> (\<forall>j. j \<noteq> AIO_RD_IX fd \<longrightarrow> aio_entry s' j = aio_entry s j)"
proof -
  let ?a = "\<lparr>procPtr = Some p, clientData = d, aio_fd = fd, aio_len = len, aio_offset = off,
              aio_buf = buf, inUse = True\<rparr>"
  from assms have t: "table_ok s" by (simp add: aio_ok_def)
  with assms(3,5) obtain b where b: "aio_entry s (AIO_RD_IX fd) = Some b"
    using aio_entry_defined [OF t, of "AIO_RD_IX fd"] by (auto simp: AIO_RD_IX_def)
  with assms(2) have "\<not> inUse b" by (simp add: rd_free_def)
  with b have r: "fill_entry (AIO_RD_IX fd) fd off buf len p d s = Returns (set_entry (AIO_RD_IX fd) ?a s)"
    by (simp add: fill_entry_def)
  have "aio_ok ((set_entry (AIO_RD_IX fd) ?a s)\<lparr>readFdSet := insert fd (readFdSet s)\<rparr>)"
    using assms(1,3,4) t
      waiting_ok_request [of AIO_RD_IX "readFdSet s" "readFdSetPost s" "maxFd s" "aio_entry s" fd "maxFd s" ?a]
    by (auto simp: aio_ok_def b intro: waiting_ok_other)
  with r b show ?thesis by simp
qed

lemma fill_write:
  assumes "aio_ok s" "wr_free fd s" "0 \<le> fd" "fd \<le> maxFd s" "AIO_WR_IX fd < int (asyncIoTableSize s)"
  shows "\<exists>s'. fill_entry (AIO_WR_IX fd) fd off buf len p d s = Returns s'
           \<and> aio_ok (s'\<lparr>writeFdSet := insert fd (writeFdSet s')\<rparr>)
           \<and> aio_entry s' (AIO_WR_IX fd) =
               Some \<lparr>procPtr = Some p, clientData = d, aio_fd = fd, aio_len = len, aio_offset = off,
                     aio_buf = buf, inUse = True\<rparr>
           \<and> (\<forall>j. j \<noteq> AIO_WR_IX fd \<longrightarrow> aio_entry s' j = aio_entry s j)"
proof -
  let ?a = "\<lparr>procPtr = Some p, clientData = d, aio_fd = fd, aio_len = len, aio_offset = off,
              aio_buf = buf, inUse = True\<rparr>"
  from assms have t: "table_ok s" by (simp add: aio_ok_def)
  with assms(3,5) obtain b where b: "aio_entry s (AIO_WR_IX fd) = Some b"
    using aio_entry_defined [OF t, of "AIO_WR_IX fd"] by (auto simp: AIO_WR_IX_def)
  with assms(2) have "\<not> inUse b" by (simp add: wr_free_def)
  with b have r: "fill_entry (AIO_WR_IX fd) fd off buf len p d s = Returns (set_entry (AIO_WR_IX fd) ?a s)"
    by (simp add: fill_entry_def)
  have "aio_ok ((set_entry (AIO_WR_IX fd) ?a s)\<lparr>writeFdSet := insert fd (writeFdSet s)\<rparr>)"
    using assms(1,3,4) t
      waiting_ok_request [of AIO_WR_IX "writeFdSet s" "writeFdSetPost s" "maxFd s" "aio_entry s" fd "maxFd s" ?a]
    by (auto simp: aio_ok_def b intro: waiting_ok_other)
  with r b show ?thesis by simp
qed

text \<open>
  What a request leaves: a good state that waits for the operation in its entry, and the
  entries of other operations as they were.
\<close>

definition requested ::
  "(int \<Rightarrow> int) \<Rightarrow> int \<Rightarrow> int \<Rightarrow> nat \<Rightarrow> int \<Rightarrow> 'p \<Rightarrow> 'd option \<Rightarrow>
   ('p, 'd, 'z) aio_state_scheme \<Rightarrow> ('p, 'd, 'z) aio_state_scheme \<Rightarrow> bool" where
  "requested ix fd off buf len p d s s' \<longleftrightarrow>
     aio_ok s' \<and> asyncIoInUse s'
     \<and> aio_entry s' (ix fd) =
         Some \<lparr>procPtr = Some p, clientData = d, aio_fd = fd, aio_len = len, aio_offset = off,
               aio_buf = buf, inUse = True\<rparr>
     \<and> (\<forall>j. j \<noteq> ix fd \<longrightarrow> aio_entry s j \<noteq> None \<longrightarrow> aio_entry s' j = aio_entry s j)"

lemma fill_entry_sel:
  "fill_entry i fd off buf len p d s = Returns s' \<Longrightarrow>
   asyncIoInUse s' = asyncIoInUse s \<and> maxFd s' = maxFd s \<and> readFdSet s' = readFdSet s \<and>
   writeFdSet s' = writeFdSet s \<and> asyncIoTableSize s' = asyncIoTableSize s"
  by (auto simp: fill_entry_def split: option.splits if_splits)

lemma requestedI:
  assumes "aio_ok s'" "asyncIoInUse s'"
    and "aio_entry s' (ix fd) =
         Some \<lparr>procPtr = Some p, clientData = d, aio_fd = fd, aio_len = len, aio_offset = off,
               aio_buf = buf, inUse = True\<rparr>"
    and "\<And>j. j \<noteq> ix fd \<Longrightarrow> aio_entry s' j = aio_entry s1 j"
    and "grown (s\<lparr>asyncIoInUse := True, maxFd := m\<rparr>) s1"
  shows "requested ix fd off buf len p d s s'"
  using assms unfolding requested_def grown_def by simp

lemma AsyncRead_requested:
  assumes "aio_ok s" "fits_fd_set fd" "rd_free fd s"
  shows "fine (\<lambda>s'. requested AIO_RD_IX fd off buf len p d s s' \<and> fd \<in> readFdSet s')
           (OS_AsyncRead K fd off buf len p d s)"
proof -
  let ?m = "max (maxFd s) fd"
  let ?s = "s\<lparr>asyncIoInUse := True, maxFd := ?m\<rparr>"
  from assms(1) have t: "table_ok s" by (simp add: aio_ok_def)
  then have t': "table_ok ?s" by simp
  from assms(1,2) have m: "?m < FD_SETSIZE" "0 \<le> fd"
    by (auto simp: aio_ok_def fits_fd_set_def)
  have step: "fine (\<lambda>s'. requested AIO_RD_IX fd off buf len p d s s' \<and> fd \<in> readFdSet s')
      (and_then (fill_entry (AIO_RD_IX fd) fd off buf len p d s1) (\<lambda>s.
         if fits_fd_set fd then Returns (s\<lparr>readFdSet := insert fd (readFdSet s)\<rparr>) else Undefined))"
    if g: "grown ?s s1 \<and> AIO_RD_IX fd < int (asyncIoTableSize s1)" for s1
  proof -
    from g have g1: "grown ?s s1" by simp
    have ok: "aio_ok s1" by (rule grown_ok [OF assms(1) g1]) (use m in auto)
    from g1 have sel: "maxFd s1 = ?m" "asyncIoInUse s1" by (auto simp: grown_def)
    have "rd_free fd s1"
      using g1 assms(3) unfolding rd_free_def grown_def
      by (metis aio_entry_cong(1) aio_entry_cong(8) no_aio_free not_None_eq)
    from fill_read [OF ok this m(2), of off buf len p d] g sel obtain s2 where
      s2: "fill_entry (AIO_RD_IX fd) fd off buf len p d s1 = Returns s2"
        "aio_ok (s2\<lparr>readFdSet := insert fd (readFdSet s2)\<rparr>)"
        "aio_entry s2 (AIO_RD_IX fd) =
           Some \<lparr>procPtr = Some p, clientData = d, aio_fd = fd, aio_len = len, aio_offset = off,
                 aio_buf = buf, inUse = True\<rparr>"
        "\<forall>j. j \<noteq> AIO_RD_IX fd \<longrightarrow> aio_entry s2 j = aio_entry s1 j"
      by auto
    have "requested AIO_RD_IX fd off buf len p d s (s2\<lparr>readFdSet := insert fd (readFdSet s2)\<rparr>)"
      by (rule requestedI [OF s2(2) _ _ _ g1]) (use s2 fill_entry_sel [OF s2(1)] sel in simp_all)
    with s2(1) assms(2) show ?thesis by simp
  qed
  from t obtain T where "asyncIoTable s = Some T" by (auto simp: table_ok_def)
  then have "OS_AsyncRead K fd off buf len p d s =
      and_then (grow_to K (AIO_RD_IX fd) ?s) (\<lambda>s.
        and_then (fill_entry (AIO_RD_IX fd) fd off buf len p d s) (\<lambda>s.
        if fits_fd_set fd then Returns (s\<lparr>readFdSet := insert fd (readFdSet s)\<rparr>) else Undefined))"
    by (simp add: OS_AsyncRead_def Let_def max_def)
  with fine_and_then [OF grow_to_grown [OF t'] step] show ?thesis by simp
qed

lemma AsyncWrite_requested:
  assumes "aio_ok s" "fits_fd_set fd" "wr_free fd s"
  shows "fine (\<lambda>s'. requested AIO_WR_IX fd off buf len p d s s' \<and> fd \<in> writeFdSet s')
           (OS_AsyncWrite K fd off buf len p d s)"
proof -
  let ?m = "max (maxFd s) fd"
  let ?s = "s\<lparr>asyncIoInUse := True, maxFd := ?m\<rparr>"
  from assms(1) have t: "table_ok s" by (simp add: aio_ok_def)
  then have t': "table_ok ?s" by simp
  from assms(1,2) have m: "?m < FD_SETSIZE" "0 \<le> fd"
    by (auto simp: aio_ok_def fits_fd_set_def)
  have step: "fine (\<lambda>s'. requested AIO_WR_IX fd off buf len p d s s' \<and> fd \<in> writeFdSet s')
      (and_then (fill_entry (AIO_WR_IX fd) fd off buf len p d s1) (\<lambda>s.
         if fits_fd_set fd then Returns (s\<lparr>writeFdSet := insert fd (writeFdSet s)\<rparr>) else Undefined))"
    if g: "grown ?s s1 \<and> AIO_WR_IX fd < int (asyncIoTableSize s1)" for s1
  proof -
    from g have g1: "grown ?s s1" by simp
    have ok: "aio_ok s1" by (rule grown_ok [OF assms(1) g1]) (use m in auto)
    from g1 have sel: "maxFd s1 = ?m" "asyncIoInUse s1" by (auto simp: grown_def)
    have "wr_free fd s1"
      using g1 assms(3) unfolding wr_free_def grown_def
      by (metis aio_entry_cong(1) aio_entry_cong(8) no_aio_free not_None_eq)
    from fill_write [OF ok this m(2), of off buf len p d] g sel obtain s2 where
      s2: "fill_entry (AIO_WR_IX fd) fd off buf len p d s1 = Returns s2"
        "aio_ok (s2\<lparr>writeFdSet := insert fd (writeFdSet s2)\<rparr>)"
        "aio_entry s2 (AIO_WR_IX fd) =
           Some \<lparr>procPtr = Some p, clientData = d, aio_fd = fd, aio_len = len, aio_offset = off,
                 aio_buf = buf, inUse = True\<rparr>"
        "\<forall>j. j \<noteq> AIO_WR_IX fd \<longrightarrow> aio_entry s2 j = aio_entry s1 j"
      by auto
    have "requested AIO_WR_IX fd off buf len p d s (s2\<lparr>writeFdSet := insert fd (writeFdSet s2)\<rparr>)"
      by (rule requestedI [OF s2(2) _ _ _ g1]) (use s2 fill_entry_sel [OF s2(1)] sel in simp_all)
    with s2(1) assms(2) show ?thesis by simp
  qed
  have "OS_AsyncWrite K fd off buf len p d s =
      and_then (grow_to K (AIO_WR_IX fd) ?s) (\<lambda>s.
        and_then (fill_entry (AIO_WR_IX fd) fd off buf len p d s) (\<lambda>s.
        if fits_fd_set fd then Returns (s\<lparr>writeFdSet := insert fd (writeFdSet s)\<rparr>) else Undefined))"
    by (simp add: OS_AsyncWrite_def Let_def max_def)
  with fine_and_then [OF grow_to_grown [OF t'] step] show ?thesis by simp
qed

section \<open>Closing\<close>

lemma free_entry_Returns:
  assumes "table_ok s" "0 \<le> i" "i < int (asyncIoTableSize s)"
  obtains s' where "free_entry i s = Returns s'"
    "\<And>j. j \<noteq> i \<Longrightarrow> aio_entry s' j = aio_entry s j"
    "\<And>a. aio_entry s' i = Some a \<Longrightarrow> \<not> inUse a" "table_ok s'"
    "asyncIoTableSize s' = asyncIoTableSize s" "maxFd s' = maxFd s"
    "readFdSet s' = readFdSet s" "readFdSetPost s' = readFdSetPost s"
    "writeFdSet s' = writeFdSet s" "writeFdSetPost s' = writeFdSetPost s"
    "numRdPosted s' = numRdPosted s" "numWrPosted s' = numWrPosted s"
proof -
  from assms aio_entry_defined [of s i] obtain a where a: "aio_entry s i = Some a" by auto
  show ?thesis
  proof (cases "inUse a")
    case True
    show ?thesis
      by (rule that [of "set_entry i (a\<lparr>inUse := False\<rparr>) s"])
        (use a True assms(1) in \<open>simp_all add: free_entry_def\<close>)
  next
    case False
    show ?thesis
      by (rule that [of s]) (use a False assms(1) in \<open>simp_all add: free_entry_def\<close>)
  qed
qed

lemma waiting_ok_less_max:
  assumes "waiting_ok ix w p m e" "m \<notin> w" "m \<notin> p"
  shows "waiting_ok ix w p (m - 1) e"
proof (rule waiting_okI)
  fix g assume "g \<in> w"
  with assms(2) have "g \<noteq> m" by auto
  with \<open>g \<in> w\<close> show "0 \<le> g \<and> g \<le> m - 1 \<and> e (ix g) \<noteq> None"
    using waiting_okD(1,2,5) [OF assms(1), of g] by simp
next
  fix g assume "g \<in> p"
  with assms(3) have "g \<noteq> m" by auto
  with \<open>g \<in> p\<close> show "0 \<le> g \<and> g \<le> m - 1 \<and> e (ix g) \<noteq> None"
    using waiting_okD(3,4,6) [OF assms(1), of g] by simp
next
  fix g a assume "e (ix g) = Some a" "inUse a"
  then show "aio_fd a = g \<and> procPtr a \<noteq> None \<and> g \<in> w \<union> p"
    using waiting_okD(7,8,9) [OF assms(1), of g a] by simp
qed

text \<open>
  A descriptor whose entries are in the table can be closed at any time.
\<close>

lemma close_async_ok:
  assumes "aio_ok s" "0 \<le> fd" "fd < FD_SETSIZE" "AIO_WR_IX fd < int (asyncIoTableSize s)"
  obtains s' where "close_async fd s = Returns s'" "aio_ok s'" "rd_free fd s'" "wr_free fd s'"
    "readFdSet s' = readFdSet s - {fd}" "readFdSetPost s' = readFdSetPost s - {fd}"
    "writeFdSet s' = writeFdSet s - {fd}" "writeFdSetPost s' = writeFdSetPost s - {fd}"
    "numRdPosted s' = numRdPosted s" "numWrPosted s' = numWrPosted s"
proof -
  let ?s1 = "s\<lparr>readFdSet := readFdSet s - {fd}, readFdSetPost := readFdSetPost s - {fd}\<rparr>"
  from assms(1) have t: "table_ok s" "table_ok ?s1" by (simp_all add: aio_ok_def)
  have i: "0 \<le> AIO_RD_IX fd" "AIO_RD_IX fd < int (asyncIoTableSize ?s1)" "0 \<le> AIO_WR_IX fd"
    using assms(2,4) by (simp_all add: AIO_RD_IX_def AIO_WR_IX_def)
  obtain s2 where s2: "free_entry (AIO_RD_IX fd) ?s1 = Returns s2"
    "\<And>j. j \<noteq> AIO_RD_IX fd \<Longrightarrow> aio_entry s2 j = aio_entry ?s1 j"
    "\<And>a. aio_entry s2 (AIO_RD_IX fd) = Some a \<Longrightarrow> \<not> inUse a" "table_ok s2"
    "asyncIoTableSize s2 = asyncIoTableSize ?s1" "maxFd s2 = maxFd ?s1"
    "readFdSet s2 = readFdSet ?s1" "readFdSetPost s2 = readFdSetPost ?s1"
    "writeFdSet s2 = writeFdSet ?s1" "writeFdSetPost s2 = writeFdSetPost ?s1"
    "numRdPosted s2 = numRdPosted ?s1" "numWrPosted s2 = numWrPosted ?s1"
    using free_entry_Returns [OF t(2) i(1,2)] by blast
  let ?s3 = "s2\<lparr>writeFdSet := writeFdSet s2 - {fd}, writeFdSetPost := writeFdSetPost s2 - {fd}\<rparr>"
  have t3: "table_ok ?s3" "AIO_WR_IX fd < int (asyncIoTableSize ?s3)"
    using s2 assms(4) by simp_all
  obtain s4 where s4: "free_entry (AIO_WR_IX fd) ?s3 = Returns s4"
    "\<And>j. j \<noteq> AIO_WR_IX fd \<Longrightarrow> aio_entry s4 j = aio_entry ?s3 j"
    "\<And>a. aio_entry s4 (AIO_WR_IX fd) = Some a \<Longrightarrow> \<not> inUse a" "table_ok s4"
    "asyncIoTableSize s4 = asyncIoTableSize ?s3" "maxFd s4 = maxFd ?s3"
    "readFdSet s4 = readFdSet ?s3" "readFdSetPost s4 = readFdSetPost ?s3"
    "writeFdSet s4 = writeFdSet ?s3" "writeFdSetPost s4 = writeFdSetPost ?s3"
    "numRdPosted s4 = numRdPosted ?s3" "numWrPosted s4 = numWrPosted ?s3"
    using free_entry_Returns [OF t3(1) i(3) t3(2)] by blast
  have rd: "waiting_ok AIO_RD_IX (readFdSet s - {fd}) (readFdSetPost s - {fd}) (maxFd s) (aio_entry s4)"
  proof (rule waiting_ok_free)
    show "waiting_ok AIO_RD_IX (readFdSet s) (readFdSetPost s) (maxFd s)
        (\<lambda>j. if j = AIO_WR_IX fd then aio_entry s4 j else aio_entry s j)"
      using assms(1) by (auto simp: aio_ok_def elim: waiting_ok_other)
  qed (use s2 s4 in auto)
  have wr: "waiting_ok AIO_WR_IX (writeFdSet s - {fd}) (writeFdSetPost s - {fd}) (maxFd s) (aio_entry s4)"
  proof (rule waiting_ok_free)
    show "waiting_ok AIO_WR_IX (writeFdSet s) (writeFdSetPost s) (maxFd s)
        (\<lambda>j. if j = AIO_RD_IX fd then aio_entry s4 j else aio_entry s j)"
      using assms(1) by (auto simp: aio_ok_def elim: waiting_ok_other)
  qed (use s2 s4 in auto)
  define s5 where "s5 = (if maxFd s4 = fd then s4\<lparr>maxFd := maxFd s4 - 1\<rparr> else s4)"
  have free: "rd_free fd s5" "wr_free fd s5"
    using s2 s4 by (auto simp: s5_def rd_free_def wr_free_def)
  have "aio_ok s5"
    using rd wr s2 s4 assms(1) waiting_ok_less_max [OF rd] waiting_ok_less_max [OF wr]
    by (auto simp: s5_def aio_ok_def)
  moreover have "close_async fd s = Returns s5"
    using assms(2,3) s2(1) s4(1) by (simp add: close_async_def fits_fd_set_def s5_def)
  ultimately show ?thesis
    using that [of s5] free s2 s4 by (simp add: s5_def)
qed

lemma CloseRead_ok:
  assumes "aio_ok s" "0 \<le> fd" "fd < FD_SETSIZE" "AIO_RD_IX fd < int (asyncIoTableSize s)"
  shows "fine (\<lambda>(r, s'). aio_ok s' \<and> rd_free fd s' \<and> readFdSetPost s' = readFdSetPost s) (OS_CloseRead K fd s)"
proof -
  from assms(1) have t: "table_ok s" by (simp add: aio_ok_def)
  with assms(2,4) obtain a where a: "aio_entry s (AIO_RD_IX fd) = Some a"
    using aio_entry_defined [OF t, of "AIO_RD_IX fd"] by (auto simp: AIO_RD_IX_def)
  show ?thesis
  proof (cases "inUse a")
    case False
    with a assms(1) show ?thesis
      by (simp add: OS_CloseRead_def rd_free_def aio_ok_def)
  next
    case True
    let ?s = "set_entry (AIO_RD_IX fd) (a\<lparr>inUse := False\<rparr>) s"
    have e: "aio_entry ?s j = (if j = AIO_RD_IX fd then Some (a\<lparr>inUse := False\<rparr>) else aio_entry s j)" for j
      using a by simp
    have "waiting_ok AIO_RD_IX (readFdSet s - {fd}) (readFdSetPost s) (maxFd s) (aio_entry ?s)"
    proof (rule waiting_okI)
      fix g b assume b: "aio_entry ?s (AIO_RD_IX g) = Some b" "inUse b"
      then have "g \<noteq> fd" by (auto simp: e)
      with b show "aio_fd b = g \<and> procPtr b \<noteq> None \<and> g \<in> (readFdSet s - {fd}) \<union> readFdSetPost s"
        using assms(1) waiting_okD(7,8,9) [of AIO_RD_IX "readFdSet s" "readFdSetPost s" "maxFd s" "aio_entry s" g b]
        by (auto simp: e aio_ok_def)
    qed (use assms(1) e in \<open>auto simp: aio_ok_def dest: waiting_okD\<close>)
    moreover have "waiting_ok AIO_WR_IX (writeFdSet s) (writeFdSetPost s) (maxFd s) (aio_entry ?s)"
      using assms(1) by (auto simp: aio_ok_def e elim: waiting_ok_other)
    ultimately have "aio_ok (?s\<lparr>readFdSet := readFdSet s - {fd}\<rparr>)"
      using t assms(1) by (simp add: aio_ok_def)
    with a True assms(2,3) show ?thesis
      by (simp add: OS_CloseRead_def fits_fd_set_def rd_free_def e aio_ok_def)
  qed
qed

end
