(* ===== verification/Os_Async_Loop.thy ===== *)
theory Os_Async_Loop
  imports Os_Async_Laws
begin

text \<open>
  The loop of events of \<open>os_unix.c\<close>: what \<open>select\<close> reports is posted, what is posted is dispatched.
\<close>

section \<open>Posting\<close>

lemma fold_post_fd:
  "distinct xs \<Longrightarrow>
   fold (post_fd rd wr) xs s =
     s\<lparr>readFdSet := readFdSet s - rd \<inter> set xs, writeFdSet := writeFdSet s - wr \<inter> set xs,
       readFdSetPost := readFdSetPost s \<union> rd \<inter> set xs,
       numRdPosted := numRdPosted s + int (card (rd \<inter> set xs)),
       writeFdSetPost := writeFdSetPost s \<union> wr \<inter> set xs,
       numWrPosted := numWrPosted s + int (card (wr \<inter> set xs))\<rparr>"
proof (induction xs arbitrary: s)
  case Nil
  show ?case by simp
next
  case (Cons x xs)
  have ins: "a \<inter> set (x # xs) = (if x \<in> a then insert x (a \<inter> set xs) else a \<inter> set xs)" for a
    by auto
  have c: "card (insert x (a \<inter> set xs)) = Suc (card (a \<inter> set xs))" for a
    using Cons.prems by simp
  have d: "b - insert x (a \<inter> set xs) = b - {x} - a \<inter> set xs" for a b
    by auto
  from Cons show ?case
    by (cases "x \<in> rd"; cases "x \<in> wr")
      (simp_all add: post_fd_def Let_def ins c d del: card_insert_disjoint)
qed

text \<open>The answer of \<open>select\<close>, restricted to the sets it was given.\<close>

definition ready_rd :: "('p, 'd) aio_kernel \<Rightarrow> (int \<times> int) option \<Rightarrow> ('p, 'd, 'z) aio_state_scheme \<Rightarrow> int set" where
  "ready_rd K tmo s =
     {fd \<in> readFdSet s. 0 \<le> fd \<and> fd \<le> maxFd s} \<inter>
     aio_rd (K (aio_trace s) (Select_call (maxFd s + 1) {fd \<in> readFdSet s. 0 \<le> fd \<and> fd \<le> maxFd s}
       {fd \<in> writeFdSet s. 0 \<le> fd \<and> fd \<le> maxFd s} tmo))"

definition ready_wr :: "('p, 'd) aio_kernel \<Rightarrow> (int \<times> int) option \<Rightarrow> ('p, 'd, 'z) aio_state_scheme \<Rightarrow> int set" where
  "ready_wr K tmo s =
     {fd \<in> writeFdSet s. 0 \<le> fd \<and> fd \<le> maxFd s} \<inter>
     aio_wr (K (aio_trace s) (Select_call (maxFd s + 1) {fd \<in> readFdSet s. 0 \<le> fd \<and> fd \<le> maxFd s}
       {fd \<in> writeFdSet s. 0 \<le> fd \<and> fd \<le> maxFd s} tmo))"

definition select_call :: "(int \<times> int) option \<Rightarrow> ('p, 'd, 'z) aio_state_scheme \<Rightarrow> ('p, 'd) aio_event" where
  "select_call tmo s =
     Select_call (maxFd s + 1) {fd \<in> readFdSet s. 0 \<le> fd \<and> fd \<le> maxFd s}
       {fd \<in> writeFdSet s. 0 \<le> fd \<and> fd \<le> maxFd s} tmo"

lemma select_events_closed:
  "select_events K tmo s =
     (let r = K (aio_trace s) (select_call tmo s)
      in if aio_ret r < 0 then Exits (aio_errno r)
         else Returns
           (s\<lparr>readFdSet := readFdSet s - ready_rd K tmo s, writeFdSet := writeFdSet s - ready_wr K tmo s,
              readFdSetPost := readFdSetPost s \<union> ready_rd K tmo s,
              numRdPosted := numRdPosted s + int (card (ready_rd K tmo s)),
              writeFdSetPost := writeFdSetPost s \<union> ready_wr K tmo s,
              numWrPosted := numWrPosted s + int (card (ready_wr K tmo s)),
              aio_trace := aio_trace s @ [select_call tmo s]\<rparr>))"
proof -
  have r: "ready_rd K tmo s \<inter> set [0..maxFd s] = ready_rd K tmo s"
    "ready_wr K tmo s \<inter> set [0..maxFd s] = ready_wr K tmo s"
    by (auto simp: ready_rd_def ready_wr_def)
  have "distinct [0..maxFd s]" by simp
  from fold_post_fd [OF this, of "ready_rd K tmo s" "ready_wr K tmo s"
      "s\<lparr>aio_trace := aio_trace s @ [select_call tmo s]\<rparr>"]
  have f: "fold (post_fd (ready_rd K tmo s) (ready_wr K tmo s)) [0..maxFd s]
      (s\<lparr>aio_trace := aio_trace s @ [select_call tmo s]\<rparr>) =
    s\<lparr>readFdSet := readFdSet s - ready_rd K tmo s, writeFdSet := writeFdSet s - ready_wr K tmo s,
       readFdSetPost := readFdSetPost s \<union> ready_rd K tmo s,
       numRdPosted := numRdPosted s + int (card (ready_rd K tmo s)),
       writeFdSetPost := writeFdSetPost s \<union> ready_wr K tmo s,
       numWrPosted := numWrPosted s + int (card (ready_wr K tmo s)),
       aio_trace := aio_trace s @ [select_call tmo s]\<rparr>"
    unfolding r by simp
  have "select_events K tmo s =
     (let r = K (aio_trace s) (select_call tmo s)
      in if aio_ret r < 0 then Exits (aio_errno r)
         else Returns (fold (post_fd (ready_rd K tmo s) (ready_wr K tmo s)) [0..maxFd s]
                (s\<lparr>aio_trace := aio_trace s @ [select_call tmo s]\<rparr>)))"
    unfolding select_events_def ready_rd_def ready_wr_def select_call_def Let_def by (rule refl)
  then show ?thesis unfolding f .
qed

lemma waiting_ok_select:
  "waiting_ok ix w p m e \<Longrightarrow> r \<subseteq> w \<Longrightarrow> waiting_ok ix (w - r) (p \<union> r) m e"
  by (auto simp: waiting_ok_def)

lemma select_events_ok: "aio_ok s \<Longrightarrow> fine aio_ok (select_events K tmo s)"
proof -
  assume "aio_ok s"
  moreover have "ready_rd K tmo s \<subseteq> readFdSet s" "ready_wr K tmo s \<subseteq> writeFdSet s"
    by (auto simp: ready_rd_def ready_wr_def)
  ultimately show ?thesis
    by (auto simp: select_events_closed Let_def aio_ok_def intro: waiting_ok_select)
qed

section \<open>Dispatching\<close>

text \<open>The state in which a procedure is called: its event and its entry are gone.\<close>

definition after_read ::
  "('p, 'd) aio_kernel \<Rightarrow> int \<Rightarrow> ('p, 'd) aio_info \<Rightarrow> 'p \<Rightarrow> ('p, 'd, 'z) aio_state_scheme \<Rightarrow>
   ('p, 'd, 'z) aio_state_scheme" where
  "after_read K fd a p s =
     (let e = Read_call (aio_fd a) (aio_buf a) (aio_len a)
      in set_entry (AIO_RD_IX fd) (a\<lparr>procPtr := None, inUse := False\<rparr>)
         (s\<lparr>numRdPosted := numRdPosted s - 1, readFdSetPost := readFdSetPost s - {fd},
            aio_trace := aio_trace s @ [e, Called_back p (clientData a) (aio_ret (K (aio_trace s) e))]\<rparr>))"

definition after_write ::
  "('p, 'd) aio_kernel \<Rightarrow> int \<Rightarrow> ('p, 'd) aio_info \<Rightarrow> 'p \<Rightarrow> ('p, 'd, 'z) aio_state_scheme \<Rightarrow>
   ('p, 'd, 'z) aio_state_scheme" where
  "after_write K fd a p s =
     (let e = Write_call (aio_fd a) (aio_buf a) (aio_len a)
      in set_entry (AIO_WR_IX fd) (a\<lparr>procPtr := None, inUse := False\<rparr>)
         (s\<lparr>numWrPosted := numWrPosted s - 1, writeFdSetPost := writeFdSetPost s - {fd},
            aio_trace := aio_trace s @ [e, Called_back p (clientData a) (aio_ret (K (aio_trace s) e))]\<rparr>))"

lemma set_entry_trace [simp]:
  "(set_entry i a s)\<lparr>aio_trace := tr\<rparr> = set_entry i a (s\<lparr>aio_trace := tr\<rparr>)"
  by (simp add: set_entry_def)

lemma dispatch_read_step:
  assumes "fd \<in> readFdSetPost s" "aio_entry s (AIO_RD_IX fd) = Some a" "inUse a" "procPtr a = Some p"
  shows "dispatch_read K cb fd s =
           cb p (clientData a) (aio_ret (K (aio_trace s) (Read_call (aio_fd a) (aio_buf a) (aio_len a))))
             (after_read K fd a p s)"
  using assms by (simp add: dispatch_read_def after_read_def Let_def)

lemma dispatch_write_step:
  assumes "fd \<in> writeFdSetPost s" "aio_entry s (AIO_WR_IX fd) = Some a" "inUse a" "procPtr a = Some p"
  shows "dispatch_write K cb fd s =
           cb p (clientData a) (aio_ret (K (aio_trace s) (Write_call (aio_fd a) (aio_buf a) (aio_len a))))
             (after_write K fd a p s)"
  using assms by (simp add: dispatch_write_def after_write_def Let_def)

text \<open>Taking the event and the entry away keeps a direction good.\<close>

lemma waiting_ok_done:
  assumes "waiting_ok ix w p m e" "inj ix" "\<And>j. j \<noteq> ix fd \<Longrightarrow> e' j = e j"
    and "e' (ix fd) = Some b" "\<not> inUse b"
  shows "waiting_ok ix w (p - {fd}) m e'"
proof (rule waiting_okI)
  fix g assume "g \<in> w"
  then show "0 \<le> g \<and> g \<le> m \<and> e' (ix g) \<noteq> None"
    using assms waiting_okD(1,2,5) [OF assms(1), of g] by (cases "g = fd") (auto simp: inj_eq)
next
  fix g assume "g \<in> p - {fd}"
  then show "0 \<le> g \<and> g \<le> m \<and> e' (ix g) \<noteq> None"
    using assms waiting_okD(3,4,6) [OF assms(1), of g] by (auto simp: inj_eq)
next
  fix g a assume a: "e' (ix g) = Some a" "inUse a"
  with assms(4,5) have "g \<noteq> fd" by auto
  with a assms(2,3) have "e (ix g) = Some a" by (metis injD)
  with a \<open>g \<noteq> fd\<close> show "aio_fd a = g \<and> procPtr a \<noteq> None \<and> g \<in> w \<union> (p - {fd})"
    using waiting_okD(7,8,9) [OF assms(1), of g a] by auto
qed

lemma after_read_ok:
  assumes "aio_ok s" "aio_entry s (AIO_RD_IX fd) = Some a"
  shows "aio_ok (after_read K fd a p s)"
  using assms
  by (auto simp: after_read_def Let_def aio_ok_def intro!: waiting_ok_done elim: waiting_ok_other)

lemma after_write_ok:
  assumes "aio_ok s" "aio_entry s (AIO_WR_IX fd) = Some a"
  shows "aio_ok (after_write K fd a p s)"
  using assms
  by (auto simp: after_write_def Let_def aio_ok_def intro!: waiting_ok_done elim: waiting_ok_other)

text \<open>Procedures that may do what they like as long as the state stays good.\<close>

definition keeps_ok :: "('p, 'd, 'z) callbacks \<Rightarrow> bool" where
  "keeps_ok cb \<longleftrightarrow> (\<forall>p d n s. aio_ok s \<longrightarrow> fine aio_ok (cb p d n s))"

lemma dispatch_read_ok:
  assumes "keeps_ok cb" "aio_ok s"
  shows "fine aio_ok (dispatch_read K cb fd s)"
proof (cases "fd \<in> readFdSetPost s")
  case False
  with assms(2) show ?thesis by (simp add: dispatch_read_def)
next
  case True
  have w: "waiting_ok AIO_RD_IX (readFdSet s) (readFdSetPost s) (maxFd s) (aio_entry s)"
    using assms(2) by (simp add: aio_ok_def)
  from waiting_okD(6) [OF w True] obtain a where a: "aio_entry s (AIO_RD_IX fd) = Some a" by blast
  show ?thesis
  proof (cases "inUse a")
    case False
    with True a assms(2) show ?thesis by (simp add: dispatch_read_def)
  next
    case u: True
    from waiting_okD(8) [OF w a u] obtain p where "procPtr a = Some p" by blast
    with True a u show ?thesis
      using assms(1) after_read_ok [OF assms(2) a] by (simp add: dispatch_read_step keeps_ok_def)
  qed
qed

lemma dispatch_write_ok:
  assumes "keeps_ok cb" "aio_ok s"
  shows "fine aio_ok (dispatch_write K cb fd s)"
proof (cases "fd \<in> writeFdSetPost s")
  case False
  with assms(2) show ?thesis by (simp add: dispatch_write_def)
next
  case True
  have w: "waiting_ok AIO_WR_IX (writeFdSet s) (writeFdSetPost s) (maxFd s) (aio_entry s)"
    using assms(2) by (simp add: aio_ok_def)
  from waiting_okD(6) [OF w True] obtain a where a: "aio_entry s (AIO_WR_IX fd) = Some a" by blast
  show ?thesis
  proof (cases "inUse a")
    case False
    with True a assms(2) show ?thesis by (simp add: dispatch_write_def)
  next
    case u: True
    from waiting_okD(8) [OF w a u] obtain p where "procPtr a = Some p" by blast
    with True a u show ?thesis
      using assms(1) after_write_ok [OF assms(2) a] by (simp add: dispatch_write_step keeps_ok_def)
  qed
qed

lemma dispatch_ok: "keeps_ok cb \<Longrightarrow> aio_ok s \<Longrightarrow> fine aio_ok (dispatch K cb fd s)"
proof (induction K cb fd s rule: dispatch.induct)
  case (1 K cb fd s)
  show ?case
  proof (cases "maxFd s < fd")
    case True
    with "1.prems" show ?thesis by (simp add: dispatch.simps [of K cb fd s])
  next
    case False
    with "1.prems"(2) have f: "\<not> FD_SETSIZE \<le> fd" by (simp add: aio_ok_def)
    have "fine aio_ok (and_then (dispatch_write K cb fd s1) (dispatch K cb (fd + 1)))"
      if s1: "dispatch_read K cb fd s = Returns s1" "aio_ok s1" for s1
    proof (cases "dispatch_write K cb fd s1")
      case (Returns s2)
      with dispatch_write_ok [OF "1.prems"(1) s1(2), of K fd] have "aio_ok s2" by simp
      from "1.IH" [OF False f s1(1) Returns "1.prems"(1) this] Returns show ?thesis by simp
    qed (use dispatch_write_ok [OF "1.prems"(1) s1(2), of K fd] in simp_all)
    moreover have "fine aio_ok (dispatch_read K cb fd s)"
      by (rule dispatch_read_ok [OF "1.prems"])
    ultimately have "fine aio_ok (and_then (dispatch_read K cb fd s)
        (\<lambda>s. and_then (dispatch_write K cb fd s) (dispatch K cb (fd + 1))))"
      by (cases "dispatch_read K cb fd s") simp_all
    then show ?thesis using False f by (simp add: dispatch.simps [of K cb fd s])
  qed
qed

lemma aio_ok_in_use [simp]: "aio_ok (s\<lparr>asyncIoInUse := b\<rparr>) = aio_ok s"
  by (simp add: aio_ok_def)

lemma DoIo_ok:
  assumes "keeps_ok cb" "aio_ok s"
  shows "fine aio_ok (OS_DoIo K cb tmo s)"
  unfolding OS_DoIo_def Let_def
  by (rule fine_and_then [where Q = aio_ok])
    (use assms in \<open>auto intro: select_events_ok dispatch_ok\<close>)

end
