(* ===== verification/Os_Async_Steps.thy ===== *)
theory Os_Async_Steps
  imports Os_Async_Loop
begin

text \<open>
  The asynchronous operations of \<open>os_unix.c\<close> in the order an application chooses: the steps, what
  every reachable state satisfies, one round of the loop of events, and the states the loop never
  leaves.
\<close>

section \<open>Steps\<close>

inductive aio_step ::
  "('p, 'd) aio_kernel \<Rightarrow> ('p, 'd, 'z) callbacks \<Rightarrow> ('p, 'd, 'z) aio_state_scheme \<Rightarrow>
   ('p, 'd, 'z) aio_state_scheme \<Rightarrow> bool"
  for K :: "('p, 'd) aio_kernel" and cb :: "('p, 'd, 'z) callbacks"
where
  step_read: "OS_AsyncRead K fd off buf len p d s = Returns s' \<Longrightarrow> aio_step K cb s s'"
| step_write: "OS_AsyncWrite K fd off buf len p d s = Returns s' \<Longrightarrow> aio_step K cb s s'"
| step_stdin: "OS_AsyncReadStdin buf len p d s = Returns s' \<Longrightarrow> aio_step K cb s s'"
| step_close: "Close_fd K fd shut s = Returns (r, s') \<Longrightarrow> aio_step K cb s s'"
| step_close_read: "OS_CloseRead K fd s = Returns (r, s') \<Longrightarrow> aio_step K cb s s'"
| step_do_io: "OS_DoIo K cb tmo s = Returns s' \<Longrightarrow> aio_step K cb s s'"

inductive aio_steps ::
  "('p, 'd) aio_kernel \<Rightarrow> ('p, 'd, 'z) callbacks \<Rightarrow> ('p, 'd, 'z) aio_state_scheme \<Rightarrow>
   ('p, 'd, 'z) aio_state_scheme \<Rightarrow> bool"
  for K :: "('p, 'd) aio_kernel" and cb :: "('p, 'd, 'z) callbacks"
where
  steps_none: "aio_steps K cb s s"
| steps_more: "aio_steps K cb s s' \<Longrightarrow> aio_step K cb s' s'' \<Longrightarrow> aio_steps K cb s s''"

lemma aio_steps_keep:
  assumes "aio_steps K cb s s'" "P s" "\<And>s s'. aio_step K cb s s' \<Longrightarrow> P s \<Longrightarrow> P s'"
  shows "P s'"
  using assms(1,2) by induction (auto intro: assms(3))

section \<open>Reachable states are good\<close>

lemma table_ok_size: "table_ok s \<Longrightarrow> 0 < asyncIoTableSize s"
  unfolding table_ok_def by metis

lemma fill_entry_free:
  "fill_entry i fd off buf len p d s = Returns s' \<Longrightarrow> \<exists>a. aio_entry s i = Some a \<and> \<not> inUse a"
  by (auto simp: fill_entry_def split: option.splits if_splits)

lemma grown_free:
  assumes "grown (s\<lparr>asyncIoInUse := True, maxFd := m\<rparr>) s1" "aio_entry s1 i = Some a" "\<not> inUse a"
    "aio_entry s i = Some b"
  shows "\<not> inUse b"
  using assms unfolding grown_def by (metis aio_entry_cong(1) aio_entry_cong(8) option.distinct(1) option.inject)

lemma grow_to_Returns: "table_ok s \<Longrightarrow> grow_to K i s = Returns s1 \<Longrightarrow> grown s s1"
  using grow_to_grown [of s i K] by simp

lemma AsyncRead_pre:
  assumes "OS_AsyncRead K fd off buf len p d s = Returns s'" "table_ok s"
  shows "fits_fd_set fd \<and> rd_free fd s"
proof -
  let ?s = "s\<lparr>asyncIoInUse := True, maxFd := max (maxFd s) fd\<rparr>"
  have "OS_AsyncRead K fd off buf len p d s =
      (if asyncIoTable s = None then Undefined
       else and_then (grow_to K (AIO_RD_IX fd) ?s) (\<lambda>s.
        and_then (fill_entry (AIO_RD_IX fd) fd off buf len p d s) (\<lambda>s.
        if fits_fd_set fd then Returns (s\<lparr>readFdSet := insert fd (readFdSet s)\<rparr>) else Undefined)))"
    by (simp add: OS_AsyncRead_def Let_def max_def)
  with assms(1) obtain s1 s2 where
    s1: "grow_to K (AIO_RD_IX fd) ?s = Returns s1" and
    s2: "fill_entry (AIO_RD_IX fd) fd off buf len p d s1 = Returns s2" and
    f: "fits_fd_set fd"
    by (auto simp: and_then_Returns split: if_splits)
  have "grown ?s s1" by (rule grow_to_Returns [OF _ s1]) (simp add: assms(2))
  with fill_entry_free [OF s2] f show ?thesis
    unfolding rd_free_def by (blast dest: grown_free)
qed

lemma AsyncWrite_pre:
  assumes "OS_AsyncWrite K fd off buf len p d s = Returns s'" "table_ok s"
  shows "fits_fd_set fd \<and> wr_free fd s"
proof -
  let ?s = "s\<lparr>asyncIoInUse := True, maxFd := max (maxFd s) fd\<rparr>"
  have "OS_AsyncWrite K fd off buf len p d s =
      and_then (grow_to K (AIO_WR_IX fd) ?s) (\<lambda>s.
        and_then (fill_entry (AIO_WR_IX fd) fd off buf len p d s) (\<lambda>s.
        if fits_fd_set fd then Returns (s\<lparr>writeFdSet := insert fd (writeFdSet s)\<rparr>) else Undefined))"
    by (simp add: OS_AsyncWrite_def Let_def max_def)
  with assms(1) obtain s1 s2 where
    s1: "grow_to K (AIO_WR_IX fd) ?s = Returns s1" and
    s2: "fill_entry (AIO_WR_IX fd) fd off buf len p d s1 = Returns s2" and
    f: "fits_fd_set fd"
    by (auto simp: and_then_Returns split: if_splits)
  have "grown ?s s1" by (rule grow_to_Returns [OF _ s1]) (simp add: assms(2))
  with fill_entry_free [OF s2] f show ?thesis
    unfolding wr_free_def by (blast dest: grown_free)
qed

lemma AsyncReadStdin_ok:
  assumes "OS_AsyncReadStdin buf len p d s = Returns s'" "aio_ok s"
  shows "aio_ok s'"
proof -
  let ?s = "s\<lparr>asyncIoInUse := True, maxFd := max (maxFd s) 0\<rparr>"
  let ?t = "s\<lparr>asyncIoInUse := True\<rparr>"
  from assms(1) obtain s1 where s1: "fill_entry (AIO_RD_IX 0) 0 0 buf len p d ?t = Returns s1"
    "s' = (if 0 > maxFd s1 then s1\<lparr>readFdSet := insert 0 (readFdSet s1), maxFd := 0\<rparr>
           else s1\<lparr>readFdSet := insert 0 (readFdSet s1)\<rparr>)"
    by (auto simp: OS_AsyncReadStdin_def Let_def and_then_Returns split: if_splits)
  from fill_entry_free [OF s1(1)] obtain a where
    a: "aio_entry s (AIO_RD_IX 0) = Some a" "\<not> inUse a" by auto
  have t: "table_ok s" using assms(2) by (simp add: aio_ok_def)
  have ok: "aio_ok ?s"
    using assms(2) by (rule grown_ok) (use assms(2) t in
      \<open>auto simp: aio_ok_def FD_SETSIZE_def intro: grown_refl\<close>)
  have fr: "rd_free 0 ?s" using a by (simp add: rd_free_def)
  have ix: "AIO_RD_IX 0 < int (asyncIoTableSize ?s)"
    using table_ok_size [OF t] by (simp add: AIO_RD_IX_def)
  from fill_read [OF ok fr _ _ ix, of 0 buf len p d] obtain s2 where
    s2: "fill_entry (AIO_RD_IX 0) 0 0 buf len p d ?s = Returns s2"
      "aio_ok (s2\<lparr>readFdSet := insert 0 (readFdSet s2)\<rparr>)" by auto
  have "fill_entry (AIO_RD_IX 0) 0 0 buf len p d ?s =
      and_then (fill_entry (AIO_RD_IX 0) 0 0 buf len p d ?t) (\<lambda>s1. Returns (s1\<lparr>maxFd := max (maxFd s) 0\<rparr>))"
    using a by (simp add: fill_entry_def set_entry_def)
  with s1(1) s2(1) have "s2 = s1\<lparr>maxFd := max (maxFd s) 0\<rparr>" by simp
  moreover have "maxFd s1 = maxFd s" using fill_entry_sel [OF s1(1)] by simp
  ultimately have "s' = s2\<lparr>readFdSet := insert 0 (readFdSet s2)\<rparr>"
    unfolding s1(2) by (cases s1) (auto simp: max_def)
  with s2(2) show ?thesis by simp
qed

lemma free_entry_bounds: "free_entry i s = Returns s' \<Longrightarrow> table_ok s \<Longrightarrow> i < int (asyncIoTableSize s)"
  using aio_entry_defined [of s i] by (auto simp: free_entry_def split: option.splits)

lemma aio_ok_trace [simp]: "aio_ok (s\<lparr>aio_trace := tr\<rparr>) = aio_ok s"
  by (simp add: aio_ok_def)

lemma close_async_Returns:
  assumes "close_async fd s = Returns s'" "aio_ok s"
  shows "0 \<le> fd \<and> fd < FD_SETSIZE \<and> AIO_WR_IX fd < int (asyncIoTableSize s)"
proof -
  let ?s1 = "s\<lparr>readFdSet := readFdSet s - {fd}, readFdSetPost := readFdSetPost s - {fd}\<rparr>"
  from assms(1) obtain s1 s2 where f: "fits_fd_set fd"
    and s1: "free_entry (AIO_RD_IX fd) ?s1 = Returns s1"
    and s2: "free_entry (AIO_WR_IX fd)
          (s1\<lparr>writeFdSet := writeFdSet s1 - {fd}, writeFdSetPost := writeFdSetPost s1 - {fd}\<rparr>) = Returns s2"
    by (auto simp: close_async_def and_then_Returns split: if_splits)
  have t: "table_ok ?s1" using assms(2) by (simp add: aio_ok_def)
  have fd: "0 \<le> AIO_RD_IX fd" using f by (simp add: fits_fd_set_def AIO_RD_IX_def)
  from free_entry_Returns [OF t fd free_entry_bounds [OF s1 t]] s1
  have "table_ok s1" "asyncIoTableSize s1 = asyncIoTableSize s" by (metis outcome.inject(1), force)
  with free_entry_bounds [OF s2] f show ?thesis by (simp add: fits_fd_set_def)
qed

lemma Close_fd_ok:
  assumes "Close_fd K fd shut s = Returns (r, s')" "aio_ok s"
  shows "aio_ok s'"
proof (cases "fd = -1")
  case True
  with assms show ?thesis by (simp add: Close_fd_def)
next
  case False
  with assms(1) obtain s1 tr where
    s1: "(if asyncIoInUse s then close_async fd s else Returns s) = Returns s1" and
    s': "s' = s1\<lparr>aio_trace := tr\<rparr>"
    by (auto simp: Close_fd_def Let_def and_then_Returns split: option.splits)
  have "aio_ok s1"
  proof (cases "asyncIoInUse s")
    case True
    with s1 have c: "close_async fd s = Returns s1" by simp
    from close_async_Returns [OF c assms(2)] close_async_ok [OF assms(2), of fd] c
    show ?thesis by (metis outcome.inject(1))
  next
    case False
    with s1 assms(2) show ?thesis by simp
  qed
  with s' show ?thesis by simp
qed

lemma CloseRead_Returns:
  assumes "OS_CloseRead K fd s = Returns (r, s')" "aio_ok s"
  shows "aio_ok s'"
proof -
  from assms(1) obtain a where a: "aio_entry s (AIO_RD_IX fd) = Some a"
    by (auto simp: OS_CloseRead_def split: option.splits)
  show ?thesis
  proof (cases "inUse a")
    case False
    with a assms show ?thesis by (auto simp: OS_CloseRead_def)
  next
    case True
    with a assms(1) have "fits_fd_set fd" by (auto simp: OS_CloseRead_def Let_def split: if_splits)
    moreover have "AIO_RD_IX fd < int (asyncIoTableSize s)"
      using a assms(2) aio_entry_defined [of s "AIO_RD_IX fd"] by (simp add: aio_ok_def)
    ultimately show ?thesis
      using CloseRead_ok [OF assms(2), of fd K] assms(1) by (simp add: fits_fd_set_def)
  qed
qed

lemma aio_step_ok:
  assumes "keeps_ok cb" "aio_step K cb s s'" "aio_ok s"
  shows "aio_ok s'"
proof -
  have t: "table_ok s" using assms(3) by (simp add: aio_ok_def)
  from assms(2) show ?thesis
  proof (cases rule: aio_step.cases)
    case (step_read fd off buf len p d)
    with AsyncRead_requested [OF assms(3), of fd off buf len p d K] AsyncRead_pre [OF step_read t]
    show ?thesis by (simp add: requested_def)
  next
    case (step_write fd off buf len p d)
    with AsyncWrite_requested [OF assms(3), of fd off buf len p d K] AsyncWrite_pre [OF step_write t]
    show ?thesis by (simp add: requested_def)
  next
    case step_stdin
    then show ?thesis by (rule AsyncReadStdin_ok [OF _ assms(3)])
  next
    case step_close
    then show ?thesis by (rule Close_fd_ok [OF _ assms(3)])
  next
    case step_close_read
    then show ?thesis by (rule CloseRead_Returns [OF _ assms(3)])
  next
    case (step_do_io tmo)
    with DoIo_ok [OF assms(1,3), of K tmo] show ?thesis by simp
  qed
qed

text \<open>The state after the start of the library.\<close>

lemma waiting_ok_empty: "(\<And>a i. e i = Some a \<Longrightarrow> \<not> inUse a) \<Longrightarrow> waiting_ok ix {} {} m e"
  by (auto simp: waiting_ok_def)

lemma LibInit_ok: "LibInit K x y (start_state acts) = (0, s) \<Longrightarrow> aio_ok s"
  by (auto simp: LibInit_def start_state_def Let_def aio_ok_def table_ok_def FD_SETSIZE_def aio_entry_def
      intro!: waiting_ok_empty split: option.splits if_splits)

end
