(* ===== verification/Os_Async_Round.thy ===== *)
theory Os_Async_Round
  imports Os_Async_Steps
begin

text \<open>
  One round of the loop of events, \<open>OS_DoIo\<close>, when nothing was closed in the wrong moment: every
  operation that \<open>select\<close> reports is done and called back once, in the order of the descriptors.
\<close>

section \<open>Tidy states\<close>

text \<open>
  One direction: what is waited for is not posted, both have operations in use, and the
  counter says how many are posted.
\<close>

definition tidy_dir ::
  "(int \<Rightarrow> int) \<Rightarrow> int set \<Rightarrow> int set \<Rightarrow> int \<Rightarrow> (int \<Rightarrow> ('p, 'd) aio_info option) \<Rightarrow> bool" where
  "tidy_dir ix w p n e \<longleftrightarrow>
     w \<inter> p = {} \<and> (\<forall>fd\<in>w \<union> p. \<exists>a. e (ix fd) = Some a \<and> inUse a) \<and> n = int (card p)"

definition tidy :: "('p, 'd, 'z) aio_state_scheme \<Rightarrow> bool" where
  "tidy s \<longleftrightarrow>
     tidy_dir AIO_RD_IX (readFdSet s) (readFdSetPost s) (numRdPosted s) (aio_entry s)
     \<and> tidy_dir AIO_WR_IX (writeFdSet s) (writeFdSetPost s) (numWrPosted s) (aio_entry s)"

lemma tidy_dirD:
  assumes "tidy_dir ix w p n e"
  shows "w \<inter> p = {}" "fd \<in> w \<or> fd \<in> p \<Longrightarrow> \<exists>a. e (ix fd) = Some a \<and> inUse a" "n = int (card p)"
  using assms by (auto simp: tidy_dir_def)

text \<open>The callbacks in a trace, and the operation at an entry, as it would be called back.\<close>

fun callbacks_of :: "('p, 'd) aio_event list \<Rightarrow> ('p \<times> 'd option) list" where
  "callbacks_of [] = []"
| "callbacks_of (Called_back p d n # es) = (p, d) # callbacks_of es"
| "callbacks_of (e # es) = callbacks_of es"

lemma callbacks_of_append [simp]: "callbacks_of (xs @ ys) = callbacks_of xs @ callbacks_of ys"
  by (induction xs rule: callbacks_of.induct) auto

definition op_at :: "(int \<Rightarrow> ('p, 'd) aio_info option) \<Rightarrow> int \<Rightarrow> ('p \<times> 'd option) list" where
  "op_at e i =
     (case e i of None \<Rightarrow> []
      | Some a \<Rightarrow> (case procPtr a of None \<Rightarrow> [] | Some p \<Rightarrow> [(p, clientData a)]))"

text \<open>
  Procedures that only make new requests: operations in use stay as they are, nothing is posted or
  taken from what is posted, and what is newly waited for was free.
\<close>

definition more_waiting ::
  "(int \<Rightarrow> int) \<Rightarrow> int set \<Rightarrow> (int \<Rightarrow> ('p, 'd) aio_info option) \<Rightarrow> int set \<Rightarrow>
   (int \<Rightarrow> ('p, 'd) aio_info option) \<Rightarrow> bool" where
  "more_waiting ix w e w' e' \<longleftrightarrow>
     (\<forall>fd\<in>w'. fd \<in> w \<or> ((\<forall>a. e (ix fd) = Some a \<longrightarrow> \<not> inUse a) \<and> (\<exists>a. e' (ix fd) = Some a \<and> inUse a)))"

definition requests_only ::
  "('p, 'd, 'z) aio_state_scheme \<Rightarrow> ('p, 'd, 'z) aio_state_scheme \<Rightarrow> bool" where
  "requests_only s s' \<longleftrightarrow>
     aio_ok s' \<and> readFdSetPost s' = readFdSetPost s \<and> writeFdSetPost s' = writeFdSetPost s
     \<and> numRdPosted s' = numRdPosted s \<and> numWrPosted s' = numWrPosted s \<and> maxFd s \<le> maxFd s'
     \<and> (\<forall>i a. aio_entry s i = Some a \<longrightarrow> inUse a \<longrightarrow> aio_entry s' i = Some a)
     \<and> more_waiting AIO_RD_IX (readFdSet s) (aio_entry s) (readFdSet s') (aio_entry s')
     \<and> more_waiting AIO_WR_IX (writeFdSet s) (aio_entry s) (writeFdSet s') (aio_entry s')
     \<and> callbacks_of (aio_trace s') = callbacks_of (aio_trace s)"

definition only_requests :: "('p, 'd, 'z) callbacks \<Rightarrow> bool" where
  "only_requests cb \<longleftrightarrow>
     (\<forall>p d n s. aio_ok s \<longrightarrow> (\<exists>s'. cb p d n s = Returns s' \<and> requests_only s s'))"

lemma tidy_dir_more:
  assumes "tidy_dir ix w p n e" "more_waiting ix w e w' e'"
    "\<And>i a. e i = Some a \<Longrightarrow> inUse a \<Longrightarrow> e' i = Some a"
  shows "tidy_dir ix w' p n e'"
  using assms unfolding tidy_dir_def more_waiting_def by blast

lemma tidy_requests:
  assumes "tidy s" "requests_only s s'"
  shows "tidy s'"
proof -
  have e: "\<And>i a. aio_entry s i = Some a \<Longrightarrow> inUse a \<Longrightarrow> aio_entry s' i = Some a"
    using assms(2) by (simp add: requests_only_def)
  show ?thesis
    using assms unfolding tidy_def requests_only_def
    by (metis (no_types, lifting) tidy_dir_more e)
qed

text \<open>An event and its operation are taken away.\<close>

lemma tidy_dir_done:
  assumes "tidy_dir ix w p n e" "fd \<in> p" "finite p" "inj ix" "\<And>j. j \<noteq> ix fd \<Longrightarrow> e' j = e j"
  shows "tidy_dir ix w (p - {fd}) (n - 1) e'"
proof -
  have "int (card (p - {fd})) = int (card p) - 1"
    using assms(2,3) by (simp add: card_Diff_singleton card_gt_0_iff of_nat_diff Suc_leI)
       (metis One_nat_def Suc_leI card_gt_0_iff empty_iff of_nat_1 of_nat_diff)
  moreover have "e' (ix g) = e (ix g)" if "g \<noteq> fd" for g
    using that assms(4,5) by (metis injD)
  moreover have "g \<noteq> fd" if "g \<in> w \<union> (p - {fd})" for g
    using that assms(1,2) by (auto simp: tidy_dir_def)
  ultimately show ?thesis
    using assms(1) unfolding tidy_dir_def by (metis Diff_disjoint Diff_subset DiffD1 Un_iff
      Int_Diff empty_Diff)
qed

lemma tidy_dir_other:
  assumes "tidy_dir ix w p n e" "\<And>g. e' (ix g) = e (ix g)"
  shows "tidy_dir ix w p n e'"
  using assms by (simp add: tidy_dir_def)

lemma posted_finite:
  assumes "aio_ok s"
  shows "finite (readFdSetPost s)" "finite (writeFdSetPost s)"
proof -
  have "readFdSetPost s \<subseteq> {0..maxFd s}" "writeFdSetPost s \<subseteq> {0..maxFd s}"
    using assms by (auto simp: aio_ok_def dest: waiting_okD)
  then show "finite (readFdSetPost s)" "finite (writeFdSetPost s)"
    by (auto intro: finite_subset)
qed

lemma tidy_after_read:
  assumes "aio_ok s" "tidy s" "fd \<in> readFdSetPost s" "aio_entry s (AIO_RD_IX fd) = Some a"
  shows "tidy (after_read K fd a p s)"
  using assms posted_finite [OF assms(1)]
  by (auto simp: after_read_def Let_def tidy_def intro!: tidy_dir_done elim: tidy_dir_other)

lemma tidy_after_write:
  assumes "aio_ok s" "tidy s" "fd \<in> writeFdSetPost s" "aio_entry s (AIO_WR_IX fd) = Some a"
  shows "tidy (after_write K fd a p s)"
  using assms posted_finite [OF assms(1)]
  by (auto simp: after_write_def Let_def tidy_def intro!: tidy_dir_done elim: tidy_dir_other)

section \<open>Dispatching one descriptor\<close>

text \<open>What the dispatch of a descriptor is due to call back.\<close>

definition due_rd :: "('p, 'd, 'z) aio_state_scheme \<Rightarrow> int \<Rightarrow> ('p \<times> 'd option) list" where
  "due_rd s fd = (if fd \<in> readFdSetPost s then op_at (aio_entry s) (AIO_RD_IX fd) else [])"

definition due_wr :: "('p, 'd, 'z) aio_state_scheme \<Rightarrow> int \<Rightarrow> ('p \<times> 'd option) list" where
  "due_wr s fd = (if fd \<in> writeFdSetPost s then op_at (aio_entry s) (AIO_WR_IX fd) else [])"

text \<open>A good and tidy state in which the events of \<open>rd\<close> and \<open>wr\<close> are gone and \<open>called\<close> were called.\<close>

definition dispatched ::
  "int set \<Rightarrow> int set \<Rightarrow> ('p \<times> 'd option) list \<Rightarrow> ('p, 'd, 'z) aio_state_scheme \<Rightarrow>
   ('p, 'd, 'z) aio_state_scheme \<Rightarrow> bool" where
  "dispatched rd wr called s s' \<longleftrightarrow>
     aio_ok s' \<and> tidy s' \<and> maxFd s \<le> maxFd s'
     \<and> readFdSetPost s' = readFdSetPost s - rd \<and> writeFdSetPost s' = writeFdSetPost s - wr
     \<and> (\<forall>fd\<in>readFdSetPost s - rd. aio_entry s' (AIO_RD_IX fd) = aio_entry s (AIO_RD_IX fd))
     \<and> (\<forall>fd\<in>writeFdSetPost s - wr. aio_entry s' (AIO_WR_IX fd) = aio_entry s (AIO_WR_IX fd))
     \<and> callbacks_of (aio_trace s') = callbacks_of (aio_trace s) @ called"

lemma dispatched_trans:
  assumes "dispatched rd wr c s s'" "dispatched rd' wr' c' s' s''"
  shows "dispatched (rd \<union> rd') (wr \<union> wr') (c @ c') s s''"
  using assms unfolding dispatched_def by auto

lemma dispatched_none:
  assumes "aio_ok s" "tidy s" "rd \<inter> readFdSetPost s = {}" "wr \<inter> writeFdSetPost s = {}"
  shows "dispatched rd wr [] s s"
  using assms by (auto simp: dispatched_def)

text \<open>A procedure is called in the state \<open>s1\<close>.\<close>

lemma dispatched_requests:
  assumes "dispatched rd wr c s s1" "requests_only s1 s2"
  shows "dispatched rd wr c s s2"
proof -
  have t: "tidy s1" "tidy s2" using assms tidy_requests by (auto simp: dispatched_def)
  have e: "\<And>i a. aio_entry s1 i = Some a \<Longrightarrow> inUse a \<Longrightarrow> aio_entry s2 i = Some a"
    using assms(2) by (simp add: requests_only_def)
  have "aio_entry s2 (AIO_RD_IX fd) = aio_entry s1 (AIO_RD_IX fd)" if "fd \<in> readFdSetPost s1" for fd
    using t(1) that e unfolding tidy_def by (metis tidy_dirD(2))
  moreover have "aio_entry s2 (AIO_WR_IX fd) = aio_entry s1 (AIO_WR_IX fd)"
    if "fd \<in> writeFdSetPost s1" for fd
    using t(1) that e unfolding tidy_def by (metis tidy_dirD(2))
  ultimately show ?thesis
    using assms t(2) unfolding dispatched_def requests_only_def by auto
qed

lemma dispatch_read_due:
  assumes "only_requests cb" "aio_ok s" "tidy s"
  obtains s' where "dispatch_read K cb fd s = Returns s'" "dispatched {fd} {} (due_rd s fd) s s'"
proof (cases "fd \<in> readFdSetPost s")
  case False
  show ?thesis
    by (rule that [of s]) (use False assms(2,3) in
      \<open>simp_all add: dispatch_read_def due_rd_def dispatched_none\<close>)
next
  case True
  from assms(3) True obtain a where a: "aio_entry s (AIO_RD_IX fd) = Some a" "inUse a"
    unfolding tidy_def by (metis tidy_dirD(2))
  with assms(2) obtain p where p: "procPtr a = Some p"
    by (auto simp: aio_ok_def dest: waiting_okD)
  let ?s = "after_read K fd a p s"
  have "dispatched {fd} {} (due_rd s fd) s ?s"
    using True a p after_read_ok [OF assms(2) a(1), of K p] tidy_after_read [OF assms(2,3) True a(1), of K p]
    unfolding dispatched_def by (auto simp: after_read_def Let_def due_rd_def op_at_def)
  moreover from assms(1) after_read_ok [OF assms(2) a(1), of K p] obtain s' where
    "cb p (clientData a) (aio_ret (K (aio_trace s) (Read_call (aio_fd a) (aio_buf a) (aio_len a)))) ?s
       = Returns s'" "requests_only ?s s'"
    unfolding only_requests_def by blast
  ultimately show ?thesis
    using dispatch_read_step [OF True a p, of K cb] dispatched_requests that by metis
qed

lemma dispatch_write_due:
  assumes "only_requests cb" "aio_ok s" "tidy s"
  obtains s' where "dispatch_write K cb fd s = Returns s'" "dispatched {} {fd} (due_wr s fd) s s'"
proof (cases "fd \<in> writeFdSetPost s")
  case False
  show ?thesis
    by (rule that [of s]) (use False assms(2,3) in
      \<open>simp_all add: dispatch_write_def due_wr_def dispatched_none\<close>)
next
  case True
  from assms(3) True obtain a where a: "aio_entry s (AIO_WR_IX fd) = Some a" "inUse a"
    unfolding tidy_def by (metis tidy_dirD(2))
  with assms(2) obtain p where p: "procPtr a = Some p"
    by (auto simp: aio_ok_def dest: waiting_okD)
  let ?s = "after_write K fd a p s"
  have "dispatched {} {fd} (due_wr s fd) s ?s"
    using True a p after_write_ok [OF assms(2) a(1), of K p] tidy_after_write [OF assms(2,3) True a(1), of K p]
    unfolding dispatched_def by (auto simp: after_write_def Let_def due_wr_def op_at_def)
  moreover from assms(1) after_write_ok [OF assms(2) a(1), of K p] obtain s' where
    "cb p (clientData a) (aio_ret (K (aio_trace s) (Write_call (aio_fd a) (aio_buf a) (aio_len a)))) ?s
       = Returns s'" "requests_only ?s s'"
    unfolding only_requests_def by blast
  ultimately show ?thesis
    using dispatch_write_step [OF True a p, of K cb] dispatched_requests that by metis
qed

section \<open>The whole round\<close>

lemma due_after:
  assumes "dispatched {fd} {fd} c s s'" "g \<noteq> fd"
  shows "due_rd s' g = due_rd s g" "due_wr s' g = due_wr s g"
  using assms by (auto simp: dispatched_def due_rd_def due_wr_def op_at_def)

lemma due_wr_after_read:
  assumes "dispatched {fd} {} c s s'"
  shows "due_wr s' fd = due_wr s fd"
proof -
  from assms have "writeFdSetPost s' = writeFdSetPost s"
    "fd \<in> writeFdSetPost s \<Longrightarrow> aio_entry s' (AIO_WR_IX fd) = aio_entry s (AIO_WR_IX fd)"
    unfolding dispatched_def by simp_all
  then show ?thesis by (simp add: due_wr_def op_at_def)
qed

lemma due_beyond:
  assumes "aio_ok s" "maxFd s < g"
  shows "due_rd s g = []" "due_wr s g = []"
  using assms by (auto simp: aio_ok_def due_rd_def due_wr_def dest: waiting_okD)

text \<open>Descriptors beyond the greatest one have nothing due.\<close>

lemma due_more_fds:
  assumes "aio_ok s" "maxFd s \<le> m" "a \<le> maxFd s + 1"
  shows "concat (map (\<lambda>g. due_rd s g @ due_wr s g) [a..m]) =
         concat (map (\<lambda>g. due_rd s g @ due_wr s g) [a..maxFd s])"
proof -
  have "[a..m] = [a..maxFd s] @ [maxFd s + 1..m]"
  proof (cases "a \<le> maxFd s")
    case True
    with assms(2) show ?thesis by (rule upto_split2 [rotated])
  next
    case False
    with assms(3) have "a = maxFd s + 1" by simp
    then show ?thesis by simp
  qed
  moreover have "concat (map (\<lambda>g. due_rd s g @ due_wr s g) [maxFd s + 1..m]) = []"
    using due_beyond [OF assms(1)] by simp
  ultimately show ?thesis by simp
qed

lemma dispatch_due:
  assumes "only_requests cb"
  shows "aio_ok s \<Longrightarrow> tidy s \<Longrightarrow> \<forall>g\<in>readFdSetPost s \<union> writeFdSetPost s. fd \<le> g \<Longrightarrow>
    \<exists>s'. dispatch K cb fd s = Returns s' \<and>
         dispatched UNIV UNIV (concat (map (\<lambda>g. due_rd s g @ due_wr s g) [fd..maxFd s])) s s'"
  using assms
proof (induction K cb fd s rule: dispatch.induct)
  case (1 K cb fd s)
  show ?case
  proof (cases "maxFd s < fd")
    case True
    have "g \<le> maxFd s" if "g \<in> readFdSetPost s \<union> writeFdSetPost s" for g
      using that "1.prems"(1) by (auto simp: aio_ok_def dest: waiting_okD)
    with True "1.prems"(3) have "readFdSetPost s = {}" "writeFdSetPost s = {}" by force+
    with True "1.prems" show ?thesis
      by (simp add: dispatch.simps [of K cb fd s] dispatched_none)
  next
    case False
    with "1.prems"(1) have f: "\<not> FD_SETSIZE \<le> fd" by (simp add: aio_ok_def)
    obtain s1 where s1: "dispatch_read K cb fd s = Returns s1" "dispatched {fd} {} (due_rd s fd) s s1"
      using dispatch_read_due [OF "1.prems"(4,1,2)] by blast
    then have ok1: "aio_ok s1" "tidy s1" by (simp_all add: dispatched_def)
    obtain s2 where s2: "dispatch_write K cb fd s1 = Returns s2" "dispatched {} {fd} (due_wr s1 fd) s1 s2"
      using dispatch_write_due [OF "1.prems"(4) ok1] by blast
    then have ok2: "aio_ok s2" "tidy s2" by (simp_all add: dispatched_def)
    have "due_wr s1 fd = due_wr s fd"
      by (rule due_wr_after_read [OF s1(2)])
    with dispatched_trans [OF s1(2) s2(2)]
    have both: "dispatched {fd} {fd} (due_rd s fd @ due_wr s fd) s s2" by simp
    then have "readFdSetPost s2 = readFdSetPost s - {fd}" "writeFdSetPost s2 = writeFdSetPost s - {fd}"
      unfolding dispatched_def by blast+
    with "1.prems"(3) have "\<forall>g\<in>readFdSetPost s2 \<union> writeFdSetPost s2. fd \<le> g \<and> g \<noteq> fd"
      by blast
    then have "\<forall>g\<in>readFdSetPost s2 \<union> writeFdSetPost s2. fd + 1 \<le> g"
      by (metis add1_zle_eq order_le_less)
    from "1.IH" [OF False f s1(1) s2(1) ok2 this "1.prems"(4)] obtain s' where
      s': "dispatch K cb (fd + 1) s2 = Returns s'"
        "dispatched UNIV UNIV (concat (map (\<lambda>g. due_rd s2 g @ due_wr s2 g) [fd + 1..maxFd s2])) s2 s'"
      by blast
    have "map (\<lambda>g. due_rd s2 g @ due_wr s2 g) [fd + 1..maxFd s2] =
          map (\<lambda>g. due_rd s g @ due_wr s g) [fd + 1..maxFd s2]"
      using due_after [OF both] by (intro map_cong) auto
    then have eq: "concat (map (\<lambda>g. due_rd s2 g @ due_wr s2 g) [fd + 1..maxFd s2]) =
        concat (map (\<lambda>g. due_rd s g @ due_wr s g) [fd + 1..maxFd s2])" by (rule arg_cong)
    have "maxFd s \<le> maxFd s2" using both by (simp add: dispatched_def)
    then have "concat (map (\<lambda>g. due_rd s2 g @ due_wr s2 g) [fd + 1..maxFd s2]) =
        concat (map (\<lambda>g. due_rd s g @ due_wr s g) [fd + 1..maxFd s])"
      unfolding eq using due_more_fds [OF "1.prems"(1), of "maxFd s2" "fd + 1"] False by simp
    with dispatched_trans [OF both s'(2)] False
    have "dispatched UNIV UNIV (concat (map (\<lambda>g. due_rd s g @ due_wr s g) [fd..maxFd s])) s s'"
      by (simp add: upto.simps [of fd "maxFd s"])
    with s1(1) s2(1) s'(1) False f show ?thesis
      by (simp add: dispatch.simps [of K cb fd s])
  qed
qed

lemma tidy_select:
  assumes "tidy s" "readFdSetPost s = {}" "writeFdSetPost s = {}" "r \<subseteq> readFdSet s" "q \<subseteq> writeFdSet s"
  shows "tidy (s\<lparr>asyncIoInUse := b, readFdSet := readFdSet s - r, writeFdSet := writeFdSet s - q,
     readFdSetPost := r, numRdPosted := int (card r), writeFdSetPost := q,
     numWrPosted := int (card q), aio_trace := tr\<rparr>)"
proof -
  have e: "aio_entry (s\<lparr>asyncIoInUse := b, readFdSet := readFdSet s - r, writeFdSet := writeFdSet s - q,
     readFdSetPost := r, numRdPosted := int (card r), writeFdSetPost := q,
     numWrPosted := int (card q), aio_trace := tr\<rparr>) = aio_entry s"
    by simp
  show ?thesis
    using assms unfolding tidy_def e tidy_dir_def by auto
qed

text \<open>
  What the round calls back: for every descriptor that is ready the operation that waits on it,
  the one that reads before the one that writes.
\<close>

definition round_calls ::
  "('p, 'd) aio_kernel \<Rightarrow> (int \<times> int) option \<Rightarrow> ('p, 'd, 'z) aio_state_scheme \<Rightarrow> ('p \<times> 'd option) list" where
  "round_calls K tmo s =
     concat (map (\<lambda>fd. (if fd \<in> ready_rd K tmo s then op_at (aio_entry s) (AIO_RD_IX fd) else [])
                     @ (if fd \<in> ready_wr K tmo s then op_at (aio_entry s) (AIO_WR_IX fd) else []))
        [0..maxFd s])"

lemma tidy_idle: "tidy s \<Longrightarrow> readFdSetPost s = {} \<Longrightarrow> writeFdSetPost s = {} \<Longrightarrow>
  numRdPosted s = 0 \<and> numWrPosted s = 0"
  by (simp add: tidy_def tidy_dir_def)

lemma ready_in_use [simp]:
  "ready_rd K tmo (s\<lparr>asyncIoInUse := b\<rparr>) = ready_rd K tmo s"
  "ready_wr K tmo (s\<lparr>asyncIoInUse := b\<rparr>) = ready_wr K tmo s"
  "select_call tmo (s\<lparr>asyncIoInUse := b\<rparr>) = select_call tmo s"
  by (simp_all add: ready_rd_def ready_wr_def select_call_def)

end
