(* ===== verification/Os_Async_Props.thy ===== *)
theory Os_Async_Props
  imports Os_Async_Round
begin

text \<open>
  The properties of the asynchronous operations of \<open>os_unix.c\<close>, and sample applications.
\<close>

section \<open>Requests keep what is posted\<close>

lemma grow_to_trace:
  "grow_to K i s = Returns s' \<Longrightarrow> callbacks_of (aio_trace s') = callbacks_of (aio_trace s)"
proof (induction K i s rule: grow_to.induct)
  case (1 K i s)
  show ?case
  proof (cases "i < int (asyncIoTableSize s)")
    case True
    with "1.prems" show ?thesis by (simp add: grow_to.simps [of K i s])
  next
    case False
    with "1.prems" obtain s1 where n: "asyncIoTableSize s \<noteq> 0" and
      s1: "GrowAsyncTable K s = Returns s1" "grow_to K i s1 = Returns s'"
      by (auto simp: grow_to.simps [of K i s] and_then_Returns split: if_splits)
    from s1(1) have "callbacks_of (aio_trace s1) = callbacks_of (aio_trace s)"
      by (auto simp: GrowAsyncTable_def Let_def split: option.splits if_splits)
    with "1.IH" [OF False n s1] show ?thesis by simp
  qed
qed

definition same_posted ::
  "('p, 'd, 'z) aio_state_scheme \<Rightarrow> ('p, 'd, 'z) aio_state_scheme \<Rightarrow> bool" where
  "same_posted s s' \<longleftrightarrow>
     readFdSetPost s' = readFdSetPost s \<and> writeFdSetPost s' = writeFdSetPost s
     \<and> numRdPosted s' = numRdPosted s \<and> numWrPosted s' = numWrPosted s"

lemma fill_entry_same:
  "fill_entry i fd off buf len p d s = Returns s' \<Longrightarrow> same_posted s s' \<and> aio_trace s' = aio_trace s"
  by (auto simp: fill_entry_def same_posted_def split: option.splits if_splits)

lemma grow_to_same:
  assumes "table_ok s" "grow_to K i s = Returns s'"
  shows "same_posted s s' \<and> maxFd s' = maxFd s \<and> readFdSet s' = readFdSet s \<and> writeFdSet s' = writeFdSet s"
  using grow_to_Returns [OF assms] by (auto simp: grown_def same_posted_def)

lemma AsyncRead_same:
  assumes "OS_AsyncRead K fd off buf len p d s = Returns s'" "table_ok s"
  shows "same_posted s s' \<and> maxFd s' = max (maxFd s) fd \<and> readFdSet s' = insert fd (readFdSet s)
       \<and> writeFdSet s' = writeFdSet s \<and> callbacks_of (aio_trace s') = callbacks_of (aio_trace s)"
proof -
  let ?s = "s\<lparr>asyncIoInUse := True, maxFd := max (maxFd s) fd\<rparr>"
  have "OS_AsyncRead K fd off buf len p d s =
      (if asyncIoTable s = None then Undefined
       else and_then (grow_to K (AIO_RD_IX fd) ?s) (\<lambda>s.
        and_then (fill_entry (AIO_RD_IX fd) fd off buf len p d s) (\<lambda>s.
        if fits_fd_set fd then Returns (s\<lparr>readFdSet := insert fd (readFdSet s)\<rparr>) else Undefined)))"
    by (simp add: OS_AsyncRead_def Let_def max_def)
  with assms(1) obtain s1 s2 where
    s1: "grow_to K (AIO_RD_IX fd) ?s = Returns s1" and
    s2: "fill_entry (AIO_RD_IX fd) fd off buf len p d s1 = Returns s2" and
    s': "s' = s2\<lparr>readFdSet := insert fd (readFdSet s2)\<rparr>"
    by (auto simp: and_then_Returns split: if_splits)
  have t: "table_ok ?s" using assms(2) by simp
  from grow_to_same [OF t s1] grow_to_trace [OF s1] fill_entry_same [OF s2] fill_entry_sel [OF s2]
  show ?thesis unfolding s' by (simp add: same_posted_def)
qed

lemma AsyncWrite_same:
  assumes "OS_AsyncWrite K fd off buf len p d s = Returns s'" "table_ok s"
  shows "same_posted s s' \<and> maxFd s' = max (maxFd s) fd \<and> writeFdSet s' = insert fd (writeFdSet s)
       \<and> readFdSet s' = readFdSet s \<and> callbacks_of (aio_trace s') = callbacks_of (aio_trace s)"
proof -
  let ?s = "s\<lparr>asyncIoInUse := True, maxFd := max (maxFd s) fd\<rparr>"
  have "OS_AsyncWrite K fd off buf len p d s =
       and_then (grow_to K (AIO_WR_IX fd) ?s) (\<lambda>s.
        and_then (fill_entry (AIO_WR_IX fd) fd off buf len p d s) (\<lambda>s.
        if fits_fd_set fd then Returns (s\<lparr>writeFdSet := insert fd (writeFdSet s)\<rparr>) else Undefined))"
    by (simp add: OS_AsyncWrite_def Let_def max_def)
  with assms(1) obtain s1 s2 where
    s1: "grow_to K (AIO_WR_IX fd) ?s = Returns s1" and
    s2: "fill_entry (AIO_WR_IX fd) fd off buf len p d s1 = Returns s2" and
    s': "s' = s2\<lparr>writeFdSet := insert fd (writeFdSet s2)\<rparr>"
    by (auto simp: and_then_Returns split: if_splits)
  have t: "table_ok ?s" using assms(2) by simp
  from grow_to_same [OF t s1] grow_to_trace [OF s1] fill_entry_same [OF s2] fill_entry_sel [OF s2]
  show ?thesis unfolding s' by (simp add: same_posted_def)
qed

section \<open>An application that asks again\<close>

text \<open>
  The procedure is the descriptor: when it is called back the next read is requested.  The kernel
  must have memory for the table.
\<close>

definition ask_again :: "(int, 'd) aio_kernel \<Rightarrow> (int, 'd, 'z) callbacks" where
  "ask_again K p d n s =
     (if fits_fd_set p \<and> (case aio_entry s (AIO_RD_IX p) of None \<Rightarrow> True | Some a \<Rightarrow> \<not> inUse a)
      then OS_AsyncRead K p 0 0 64 p d s else Returns s)"

definition has_memory :: "('p, 'd) aio_kernel \<Rightarrow> bool" where
  "has_memory K \<longleftrightarrow> (\<forall>tr n. aio_ret (K tr (Realloc n)) \<noteq> 0)"

lemma grow_to_memory: "has_memory K \<Longrightarrow> grow_to K i s \<noteq> Exits n"
proof (induction K i s rule: grow_to.induct)
  case (1 K i s)
  have "GrowAsyncTable K s \<noteq> Exits n"
    using "1.prems" by (auto simp: GrowAsyncTable_def has_memory_def Let_def split: option.splits)
  with 1 show ?case
    by (cases "GrowAsyncTable K s") (auto simp: grow_to.simps [of K i s])
qed

lemma and_then_Exits:
  "and_then m f = Exits n \<longleftrightarrow> m = Exits n \<or> (\<exists>x. m = Returns x \<and> f x = Exits n)"
  by (cases m) auto

lemma fill_entry_Exits [simp]: "fill_entry i fd off buf len p d s \<noteq> Exits n"
  by (auto simp: fill_entry_def split: option.splits)

lemma AsyncRead_memory: "has_memory K \<Longrightarrow> OS_AsyncRead K fd off buf len p d s \<noteq> Exits n"
  by (auto simp: OS_AsyncRead_def Let_def and_then_Exits grow_to_memory split: if_splits)

lemma AsyncRead_requests_only:
  assumes "has_memory K" "aio_ok s" "fits_fd_set fd" "rd_free fd s"
  shows "\<exists>s'. OS_AsyncRead K fd off buf len p d s = Returns s' \<and> requests_only s s'"
proof -
  have t: "table_ok s" using assms(2) by (simp add: aio_ok_def)
  note req = AsyncRead_requested [OF assms(2,3,4), of off buf len p d K]
  then obtain s' where s': "OS_AsyncRead K fd off buf len p d s = Returns s'"
    using AsyncRead_memory [OF assms(1), of fd off buf len p d s]
    by (cases "OS_AsyncRead K fd off buf len p d s") auto
  with req have r: "requested AIO_RD_IX fd off buf len p d s s'" by simp
  from AsyncRead_same [OF s' t]
  have same: "same_posted s s'" "maxFd s \<le> maxFd s'" "readFdSet s' = insert fd (readFdSet s)"
    "writeFdSet s' = writeFdSet s" "callbacks_of (aio_trace s') = callbacks_of (aio_trace s)" by auto
  have keep: "aio_entry s' i = Some a" if "aio_entry s i = Some a" "inUse a" for i a
    using that r assms(4) unfolding requested_def rd_free_def by (metis option.distinct(1))
  have "more_waiting AIO_RD_IX (readFdSet s) (aio_entry s) (readFdSet s') (aio_entry s')"
    using assms(4) r unfolding more_waiting_def same(3) requested_def rd_free_def by auto
  with r same keep show ?thesis
    unfolding s' by (simp add: requests_only_def requested_def same_posted_def more_waiting_def)
qed

lemma requests_only_refl: "aio_ok s \<Longrightarrow> requests_only s s"
  by (simp add: requests_only_def more_waiting_def)

lemma ask_again_only_requests:
  assumes "has_memory K"
  shows "only_requests (ask_again K :: (int, 'd, 'z) callbacks)"
  unfolding only_requests_def
proof (intro allI impI)
  fix p d n and s :: "(int, 'd, 'z) aio_state_scheme"
  assume ok: "aio_ok s"
  show "\<exists>s'. ask_again K p d n s = Returns s' \<and> requests_only s s'"
  proof (cases "fits_fd_set p \<and> rd_free p s")
    case True
    then have "ask_again K p d n s = OS_AsyncRead K p 0 0 64 p d s"
      by (auto simp: ask_again_def rd_free_def split: option.splits)
    with AsyncRead_requests_only [OF assms ok, of p 0 0 64 p d] True show ?thesis by simp
  next
    case False
    then have "ask_again K p d n s = Returns s"
      by (auto simp: ask_again_def rd_free_def split: option.splits)
    with requests_only_refl [OF ok] show ?thesis by simp
  qed
qed

lemma only_requests_keeps_ok:
  fixes cb :: "('p, 'd, 'z) callbacks"
  assumes "only_requests cb"
  shows "keeps_ok cb"
  unfolding keeps_ok_def
proof (intro allI impI)
  fix p d n and s :: "('p, 'd, 'z) aio_state_scheme"
  assume "aio_ok s"
  with assms obtain s' where "cb p d n s = Returns s'" "requests_only s s'"
    unfolding only_requests_def by blast
  then show "fine aio_ok (cb p d n s)" by (simp add: requests_only_def)
qed

section \<open>Rounds that do nothing\<close>

text \<open>
  Something counts as posted, but nothing is: no round calls \<open>select\<close>, and none dispatches.
\<close>

definition starved :: "('p, 'd, 'z) aio_state_scheme \<Rightarrow> bool" where
  "starved s \<longleftrightarrow>
     aio_ok s \<and> (numRdPosted s \<noteq> 0 \<or> numWrPosted s \<noteq> 0)
     \<and> readFdSetPost s = {} \<and> writeFdSetPost s = {}"

lemma dispatch_nothing:
  assumes "readFdSetPost s = {}" "writeFdSetPost s = {}" "maxFd s < FD_SETSIZE"
  shows "dispatch K cb fd s = Returns s"
  using assms
proof (induction K cb fd s rule: dispatch.induct)
  case (1 K cb fd s)
  then have r: "dispatch_read K cb fd s = Returns s" "dispatch_write K cb fd s = Returns s"
    by (simp_all add: dispatch_read_def dispatch_write_def)
  show ?case
  proof (cases "maxFd s < fd")
    case False
    with "1.prems"(3) have f: "\<not> FD_SETSIZE \<le> fd" by simp
    from "1.IH" [OF False f r "1.prems"] r False f show ?thesis
      by (simp add: dispatch.simps [of K cb fd s])
  qed (simp add: dispatch.simps [of K cb fd s])
qed

lemma starved_DoIo: "starved s \<Longrightarrow> OS_DoIo K cb tmo s = Returns (s\<lparr>asyncIoInUse := True\<rparr>)"
  by (auto simp: starved_def OS_DoIo_def Let_def aio_ok_def dispatch_nothing)

lemma close_async_posted:
  assumes "close_async fd s = Returns s'" "aio_ok s"
  shows "aio_ok s' \<and> readFdSetPost s' = readFdSetPost s - {fd} \<and> writeFdSetPost s' = writeFdSetPost s - {fd}
       \<and> numRdPosted s' = numRdPosted s \<and> numWrPosted s' = numWrPosted s"
proof -
  from close_async_Returns [OF assms] have b: "0 \<le> fd" "fd < FD_SETSIZE" "AIO_WR_IX fd < int (asyncIoTableSize s)"
    by auto
  obtain s1 where "close_async fd s = Returns s1" "aio_ok s1"
    "readFdSetPost s1 = readFdSetPost s - {fd}" "writeFdSetPost s1 = writeFdSetPost s - {fd}"
    "numRdPosted s1 = numRdPosted s" "numWrPosted s1 = numWrPosted s"
    by (rule close_async_ok [OF assms(2) b]) (rule that; assumption)
  with assms(1) show ?thesis by simp
qed

lemma Close_fd_posted:
  assumes "Close_fd K fd shut s = Returns (r, s')" "aio_ok s" "asyncIoInUse s"
  shows "(fd = -1 \<longrightarrow> s' = s) \<and>
         (fd \<noteq> -1 \<longrightarrow> readFdSetPost s' = readFdSetPost s - {fd} \<and> writeFdSetPost s' = writeFdSetPost s - {fd}
         \<and> numRdPosted s' = numRdPosted s \<and> numWrPosted s' = numWrPosted s)"
proof (cases "fd = -1")
  case True
  with assms show ?thesis by (simp add: Close_fd_def)
next
  case False
  with assms(1,3) obtain s1 tr where
    s1: "close_async fd s = Returns s1" and s': "s' = s1\<lparr>aio_trace := tr\<rparr>"
    by (auto simp: Close_fd_def Let_def and_then_Returns split: option.splits)
  from close_async_posted [OF s1 assms(2)] False show ?thesis unfolding s' by simp
qed

lemma Close_fd_nothing_posted:
  assumes "Close_fd K fd shut s = Returns (r, s')" "starved s"
  shows "starved s'"
proof (cases "fd = -1")
  case True
  with assms show ?thesis by (simp add: Close_fd_def)
next
  case False
  from assms(2) have ok: "aio_ok s" by (simp add: starved_def)
  from False assms(1) obtain s1 tr where
    s1: "(if asyncIoInUse s then close_async fd s else Returns s) = Returns s1" and
    s': "s' = s1\<lparr>aio_trace := tr\<rparr>"
    by (auto simp: Close_fd_def Let_def and_then_Returns split: option.splits)
  show ?thesis
  proof (cases "asyncIoInUse s")
    case True
    with s1 close_async_posted [of fd s s1] ok assms(2) show ?thesis
      unfolding s' by (simp add: starved_def)
  next
    case False
    with s1 assms(2) show ?thesis unfolding s' by (simp add: starved_def)
  qed
qed

lemma starved_same: "starved s \<Longrightarrow> same_posted s s' \<Longrightarrow> aio_ok s' \<Longrightarrow> starved s'"
  by (simp add: starved_def same_posted_def)

lemma CloseRead_same: "OS_CloseRead K fd s = Returns (r, s') \<Longrightarrow> same_posted s s'"
  by (auto simp: OS_CloseRead_def Let_def same_posted_def split: option.splits if_splits)

lemma Stdin_same: "OS_AsyncReadStdin buf len p d s = Returns s' \<Longrightarrow> same_posted s s'"
proof -
  assume "OS_AsyncReadStdin buf len p d s = Returns s'"
  then obtain s1 where s1: "fill_entry (AIO_RD_IX 0) 0 0 buf len p d (s\<lparr>asyncIoInUse := True\<rparr>) = Returns s1"
    and s': "s' = (if 0 > maxFd s1 then s1\<lparr>readFdSet := insert 0 (readFdSet s1), maxFd := 0\<rparr>
                   else s1\<lparr>readFdSet := insert 0 (readFdSet s1)\<rparr>)"
    unfolding OS_AsyncReadStdin_def Let_def and_then_Returns by auto
  from fill_entry_same [OF s1] show ?thesis
    unfolding s' by (simp add: same_posted_def)
qed

lemma starved_step:
  assumes "aio_step K cb s s'" "starved s"
  shows "starved s'"
proof -
  from assms(2) have ok: "aio_ok s" and t: "table_ok s" by (auto simp: starved_def aio_ok_def)
  from assms(1) show ?thesis
  proof (cases rule: aio_step.cases)
    case (step_read fd off buf len p d)
    with AsyncRead_requested [OF ok, of fd off buf len p d K] AsyncRead_pre [OF step_read t]
      AsyncRead_same [OF step_read t]
    show ?thesis by (auto simp: requested_def intro: starved_same [OF assms(2)])
  next
    case (step_write fd off buf len p d)
    with AsyncWrite_requested [OF ok, of fd off buf len p d K] AsyncWrite_pre [OF step_write t]
      AsyncWrite_same [OF step_write t]
    show ?thesis by (auto simp: requested_def intro: starved_same [OF assms(2)])
  next
    case step_stdin
    then show ?thesis
      by (blast intro: starved_same [OF assms(2)] Stdin_same AsyncReadStdin_ok [OF _ ok])
  next
    case step_close
    then show ?thesis by (rule Close_fd_nothing_posted [OF _ assms(2)])
  next
    case step_close_read
    then show ?thesis
      by (blast intro: starved_same [OF assms(2)] CloseRead_same CloseRead_Returns [OF _ ok])
  next
    case (step_do_io tmo)
    with starved_DoIo [OF assms(2), of K cb tmo] have "s' = s\<lparr>asyncIoInUse := True\<rparr>" by simp
    with assms(2) show ?thesis by (simp add: starved_def)
  qed
qed

section \<open>Sample runs\<close>

text \<open>A kernel with memory on which everything that is asked for is ready at once.\<close>

definition sample_aio :: "('p, 'd) aio_kernel" where
  "sample_aio tr e =
     (case e of
        Select_call n r w t \<Rightarrow> \<lparr>aio_ret = 1, aio_errno = 0, aio_rd = r, aio_wr = w\<rparr>
      | Poll_call fd t \<Rightarrow> \<lparr>aio_ret = (if length tr < 4 then 1 else 0), aio_errno = 0, aio_rd = {}, aio_wr = {}\<rparr>
      | Shutdown_call fd how \<Rightarrow> \<lparr>aio_ret = 0, aio_errno = 0, aio_rd = {}, aio_wr = {}\<rparr>
      | Close_call fd \<Rightarrow> \<lparr>aio_ret = 0, aio_errno = 0, aio_rd = {}, aio_wr = {}\<rparr>
      | _ \<Rightarrow> \<lparr>aio_ret = 5, aio_errno = 0, aio_rd = {}, aio_wr = {}\<rparr>)"

lemma sample_memory [simp]: "has_memory sample_aio"
  by (simp add: has_memory_def sample_aio_def)

definition sample_start :: "(int, nat) aio_state" where
  "sample_start = snd (LibInit sample_aio None None (start_state (\<lambda>_. SIG_DFL)))"

lemma sample_init: "LibInit sample_aio None None (start_state (\<lambda>_. SIG_DFL)) = (0, sample_start)"
  by (simp add: sample_start_def LibInit_def start_state_def sample_aio_def Let_def)

lemma sample_start_sel [simp]:
  "readFdSet sample_start = {}" "writeFdSet sample_start = {}" "readFdSetPost sample_start = {}"
  "writeFdSetPost sample_start = {}" "numRdPosted sample_start = 0" "numWrPosted sample_start = 0"
  "maxFd sample_start = -1" "asyncIoTableSize sample_start = 16"
  "asyncIoTable sample_start = Some (replicate 16 no_aio)"
  "callbacks_of (aio_trace sample_start) = []"
  by (simp_all add: sample_start_def LibInit_def start_state_def sample_aio_def Let_def)

lemma sample_start_ok: "aio_ok sample_start" "tidy sample_start"
  using LibInit_ok [OF sample_init] by (simp_all add: tidy_def tidy_dir_def)

lemma sample_start_free: "rd_free fd sample_start" "wr_free fd sample_start"
  by (auto simp: rd_free_def wr_free_def aio_entry_def split: if_splits)

text \<open>A read of descriptor 3 is requested.\<close>

lemma sample_read:
  obtains s where "OS_AsyncRead sample_aio 3 0 0 64 3 (Some 7) sample_start = Returns s"
    "aio_ok s" "tidy s" "readFdSet s = {3}" "writeFdSet s = {}" "readFdSetPost s = {}"
    "writeFdSetPost s = {}" "maxFd s = 3" "op_at (aio_entry s) (AIO_RD_IX 3) = [(3, Some 7)]"
    "callbacks_of (aio_trace s) = []" "asyncIoInUse s" "aio_entry s (AIO_WR_IX 3) \<noteq> None"
proof -
  have f: "fits_fd_set 3" by (simp add: fits_fd_set_def FD_SETSIZE_def)
  have t: "table_ok sample_start" using sample_start_ok by (simp add: aio_ok_def)
  obtain s where s: "OS_AsyncRead sample_aio 3 0 0 64 3 (Some 7) sample_start = Returns s"
    "requests_only sample_start s"
    using AsyncRead_requests_only [OF sample_memory sample_start_ok(1) f sample_start_free(1)] by blast
  have r: "requested AIO_RD_IX 3 0 0 64 3 (Some 7) sample_start s"
    using AsyncRead_requested [OF sample_start_ok(1) f sample_start_free(1), of 0 0 64 3 "Some 7" sample_aio] s(1)
    by simp
  have "aio_entry sample_start (AIO_WR_IX 3) \<noteq> None"
    by (simp add: aio_entry_def AIO_WR_IX_def)
  with r have "aio_entry s (AIO_WR_IX 3) \<noteq> None"
    unfolding requested_def by (metis index_simps(4))
  with s r tidy_requests [OF sample_start_ok(2) s(2)] AsyncRead_same [OF s(1) t] show ?thesis
    by (intro that [of s]) (simp_all add: requested_def op_at_def same_posted_def)
qed

section \<open>The properties\<close>

text \<open>
  C14. Every state an application reaches with the asynchronous operations is good: each operation
  in use has an entry of the table that belongs to its descriptor, has a procedure, and is
  waited for or posted.  In such a state \<open>OS_DoIo\<close> is never undefined, when the
  procedures keep the state good.
\<close>

theorem async_states_good:
  assumes "LibInit K x y (start_state acts) = (0, s0)" "keeps_ok cb" "aio_steps K cb s0 s"
  shows "aio_ok s \<and> OS_DoIo K cb tmo s \<noteq> Undefined"
proof -
  have "aio_ok s"
    using assms(3) LibInit_ok [OF assms(1)] by (rule aio_steps_keep) (rule aio_step_ok [OF assms(2)])
  moreover from this have "fine aio_ok (OS_DoIo K cb tmo s)" by (rule DoIo_ok [OF assms(2)])
  ultimately show ?thesis by auto
qed

theorem async_states_good_witness:
  "\<exists>s. OS_AsyncRead sample_aio 3 0 0 64 3 (Some 7) sample_start = Returns s \<and> aio_ok s \<and>
       OS_DoIo sample_aio (ask_again sample_aio) None s \<noteq> Undefined"
proof -
  obtain s where s: "OS_AsyncRead sample_aio 3 0 0 64 3 (Some 7) sample_start = Returns s"
    by (rule sample_read)
  have "aio_steps sample_aio (ask_again sample_aio) sample_start s"
    by (rule steps_more [OF steps_none step_read]) (rule s)
  with async_states_good [OF sample_init
      only_requests_keeps_ok [OF ask_again_only_requests [OF sample_memory]]] s
  show ?thesis by blast
qed

text \<open>
  C13. One round of the loop of events, in a state in which nothing was closed between its report
  and its turn, and with procedures that make new requests: every operation on a
  descriptor that \<open>select\<close> reports is called back exactly once, in the order of the descriptors,
  the read before the write, and the state is ready for the next round.
\<close>

theorem one_round:
  assumes "aio_ok s" "tidy s" "readFdSetPost s = {}" "writeFdSetPost s = {}" "only_requests cb"
    and "0 \<le> aio_ret (K (aio_trace s) (select_call tmo s))"
  shows "\<exists>s'. OS_DoIo K cb tmo s = Returns s' \<and> aio_ok s' \<and> tidy s'
           \<and> readFdSetPost s' = {} \<and> writeFdSetPost s' = {}
           \<and> callbacks_of (aio_trace s') = callbacks_of (aio_trace s) @ round_calls K tmo s"
proof -
  let ?r = "ready_rd K tmo s" and ?q = "ready_wr K tmo s"
  let ?s = "s\<lparr>asyncIoInUse := True, readFdSet := readFdSet s - ?r, writeFdSet := writeFdSet s - ?q,
     readFdSetPost := ?r, numRdPosted := int (card ?r), writeFdSetPost := ?q,
     numWrPosted := int (card ?q), aio_trace := aio_trace s @ [select_call tmo s]\<rparr>"
  have sub: "?r \<subseteq> readFdSet s" "?q \<subseteq> writeFdSet s"
    and range: "?r \<subseteq> {0..maxFd s}" "?q \<subseteq> {0..maxFd s}"
    by (auto simp: ready_rd_def ready_wr_def)
  have idle: "numRdPosted s = 0" "numWrPosted s = 0" using tidy_idle [OF assms(2,3,4)] by auto
  have sel: "select_events K tmo (s\<lparr>asyncIoInUse := True\<rparr>) = Returns ?s"
    using assms(3,4,6) idle by (simp add: select_events_closed Let_def)
  have ok: "aio_ok ?s"
    using select_events_ok [of "s\<lparr>asyncIoInUse := True\<rparr>" K tmo] sel assms(1) by simp
  have td: "tidy ?s" by (rule tidy_select [OF assms(2,3,4) sub])
  have e: "aio_entry ?s = aio_entry s" by simp
  have calls: "concat (map (\<lambda>g. due_rd ?s g @ due_wr ?s g) [0..maxFd ?s]) = round_calls K tmo s"
    unfolding round_calls_def due_rd_def due_wr_def e by simp
  have nonneg: "\<forall>g\<in>readFdSetPost ?s \<union> writeFdSetPost ?s. 0 \<le> g"
    using range by auto
  have dis: "\<exists>s'. dispatch K cb 0 ?s = Returns s' \<and> dispatched UNIV UNIV (round_calls K tmo s) ?s s'"
    using dispatch_due [OF assms(5) ok td nonneg, of K] unfolding calls .
  show ?thesis
  proof (cases "card ?r = 0 \<and> card ?q = 0")
    case True
    with range have "?r = {}" "?q = {}"
      by (metis card_0_eq finite_atLeastAtMost_int finite_subset)+
    moreover from this have "round_calls K tmo s = []" by (simp add: round_calls_def)
    ultimately show ?thesis
      using sel ok td idle by (simp add: OS_DoIo_def select_call_def)
  next
    case False
    with sel dis idle show ?thesis
      by (auto simp: OS_DoIo_def dispatched_def select_call_def)
  qed
qed

theorem one_round_witness:
  "\<exists>s s'. OS_AsyncRead sample_aio 3 0 0 64 3 (Some 7) sample_start = Returns s
        \<and> OS_DoIo sample_aio (ask_again sample_aio) None s = Returns s'
        \<and> callbacks_of (aio_trace s') = [(3, Some 7)]"
proof (rule sample_read)
  fix s
  assume s: "OS_AsyncRead sample_aio 3 0 0 64 3 (Some 7) sample_start = Returns s"
    "aio_ok s" "tidy s" "readFdSet s = {3}" "writeFdSet s = {}" "readFdSetPost s = {}"
    "writeFdSetPost s = {}" "maxFd s = 3" "op_at (aio_entry s) (AIO_RD_IX 3) = [(3, Some 7)]"
    "callbacks_of (aio_trace s) = []"
  have "0 \<le> aio_ret (sample_aio (aio_trace s) (select_call None s))"
    by (simp add: sample_aio_def select_call_def)
  from one_round [where K = sample_aio and tmo = None and s = s, OF s(2,3,6,7) ask_again_only_requests [OF sample_memory] this] obtain s' where
    s': "OS_DoIo sample_aio (ask_again sample_aio) None s = Returns s'"
      "callbacks_of (aio_trace s') = callbacks_of (aio_trace s) @ round_calls sample_aio None s" by blast
  have "ready_rd sample_aio None s = {3}" "ready_wr sample_aio None s = {}"
    by (auto simp: ready_rd_def ready_wr_def sample_aio_def s)
  then have "round_calls sample_aio None s = [(3, Some 7)]"
    by (simp add: round_calls_def s upto.simps)
  with s' s show ?thesis by auto
qed

text \<open>
  C26. A procedure that closes a descriptor whose event is still to be dispatched, the last
  one posted, stops the loop of events for good: the counter of posted reads is not
  taken back, so that from then on no round calls \<open>select\<close> or any procedure, whatever is
  requested or closed in between.
\<close>

theorem closed_event_starves:
  assumes "aio_ok s" "asyncIoInUse s" "readFdSetPost s = {fd}" "writeFdSetPost s = {}"
    and "numRdPosted s = 1" "Close_fd K fd shut s = Returns (r, s1)" "aio_steps K cb s1 s2"
  shows "OS_DoIo K cb tmo s2 = Returns (s2\<lparr>asyncIoInUse := True\<rparr>)"
proof -
  have "0 \<le> fd" using assms(1,3) by (auto simp: aio_ok_def dest: waiting_okD)
  with Close_fd_posted [OF assms(6,1,2)] Close_fd_ok [OF assms(6,1)] assms(3-5)
  have "starved s1" by (simp add: starved_def)
  from assms(7) this have "starved s2" by (rule aio_steps_keep) (rule starved_step)
  then show ?thesis by (rule starved_DoIo)
qed

theorem closed_event_starves_witness:
  "\<exists>s r s1 s2. OS_AsyncRead sample_aio 3 0 0 64 3 (Some 7) sample_start = Returns s
     \<and> (\<exists>sel. select_events sample_aio None s = Returns sel \<and> Close_fd sample_aio 3 False sel = Returns (r, s1))
     \<and> OS_AsyncRead sample_aio 3 0 0 64 3 None s1 = Returns s2
     \<and> OS_DoIo sample_aio (ask_again sample_aio) None s2 = Returns (s2\<lparr>asyncIoInUse := True\<rparr>)"
proof (rule sample_read)
  fix s
  assume s: "OS_AsyncRead sample_aio 3 0 0 64 3 (Some 7) sample_start = Returns s"
    "aio_ok s" "tidy s" "readFdSet s = {3}" "writeFdSet s = {}" "readFdSetPost s = {}"
    "writeFdSetPost s = {}" "maxFd s = 3" "asyncIoInUse s" "aio_entry s (AIO_WR_IX 3) \<noteq> None"
  have rdy: "ready_rd sample_aio None s = {3}" "ready_wr sample_aio None s = {}"
    by (auto simp: ready_rd_def ready_wr_def sample_aio_def s)
  have idle: "numRdPosted s = 0" using tidy_idle [OF s(3,6,7)] by simp
  have "0 \<le> aio_ret (sample_aio (aio_trace s) (select_call None s))"
    by (simp add: sample_aio_def select_call_def)
  then obtain sel where sel: "select_events sample_aio None s = Returns sel"
    "readFdSetPost sel = {3}" "writeFdSetPost sel = {}" "numRdPosted sel = 1" "asyncIoInUse sel"
    "asyncIoTableSize sel = asyncIoTableSize s" "aio_entry sel = aio_entry s"
    by (simp add: select_events_closed Let_def rdy s idle)
  have ok: "aio_ok sel" using select_events_ok [OF s(2), of sample_aio None] sel(1) by simp
  have w: "AIO_WR_IX 3 < int (asyncIoTableSize sel)"
    using ok sel(7) s(10) aio_entry_defined [of sel "AIO_WR_IX 3"] by (simp add: aio_ok_def)
  obtain c where c: "close_async 3 sel = Returns c" "aio_ok c" "rd_free 3 c"
    by (rule close_async_ok [OF ok _ _ w]) (simp_all add: FD_SETSIZE_def that)
  then obtain r s1 where s1: "Close_fd sample_aio 3 False sel = Returns (r, s1)" "aio_ok s1" "rd_free 3 s1"
    using sel(5) by (simp add: Close_fd_def Let_def rd_free_def)
  have f: "fits_fd_set 3" by (simp add: fits_fd_set_def FD_SETSIZE_def)
  obtain s2 where s2: "OS_AsyncRead sample_aio 3 0 0 64 3 None s1 = Returns s2"
    using AsyncRead_requests_only [OF sample_memory s1(2) f s1(3)] by blast
  have "aio_steps sample_aio (ask_again sample_aio) s1 s2"
    by (rule steps_more [OF steps_none step_read]) (rule s2)
  from closed_event_starves [OF ok sel(5,2,3,4) s1(1) this] s(1) sel(1) s1(1) s2
  show ?thesis by blast
qed

text \<open>
  C40. When asynchronous operations are in use, closing a descriptor that the table does not reach
  accesses memory outside the table.
\<close>

theorem close_outside_table:
  assumes "aio_ok s" "asyncIoInUse s" "0 \<le> fd" "int (asyncIoTableSize s) \<le> AIO_RD_IX fd"
  shows "Close_fd K fd shut s = Undefined"
proof -
  have "aio_entry s (AIO_RD_IX fd) = None"
    using aio_entry_defined [of s "AIO_RD_IX fd"] assms(1,4) by (auto simp: aio_ok_def)
  then have "close_async fd s = Undefined"
    by (simp add: close_async_def free_entry_def)
  with assms show ?thesis by (simp add: Close_fd_def)
qed

theorem close_outside_table_witness:
  "\<exists>s. OS_AsyncReadStdin 0 64 0 None sample_start = Returns s
     \<and> Close_fd sample_aio 8 False s = Undefined"
proof -
  have "aio_entry sample_start (AIO_RD_IX 0) = Some no_aio"
    by (simp add: aio_entry_def AIO_RD_IX_def)
  then obtain s1 where s1: "fill_entry (AIO_RD_IX 0) 0 0 0 64 0 None (sample_start\<lparr>asyncIoInUse := True\<rparr>) = Returns s1"
    by (simp add: fill_entry_def)
  then obtain s where s: "OS_AsyncReadStdin 0 64 0 None sample_start = Returns s"
    "asyncIoInUse s" "asyncIoTableSize s = 16"
    using fill_entry_sel [OF s1] by (simp add: OS_AsyncReadStdin_def Let_def)
  from close_outside_table [OF AsyncReadStdin_ok [OF s(1) sample_start_ok(1)] s(2), of 8 sample_aio False] s
  show ?thesis by (auto simp: AIO_RD_IX_def)
qed

text \<open>
  C31. Closing with an orderly shutdown ends when the peer stops sending: when from some
  time on nothing comes or nothing can be read.  Between the shutdown and the close there is
  only waiting and reading.
\<close>

definition draining :: "int \<Rightarrow> int \<Rightarrow> ('p, 'd) aio_event \<Rightarrow> bool" where
  "draining fd t e \<longleftrightarrow> e = Poll_call fd t \<or> e = Read_trash fd 1024"

lemma draining_simps [simp]: "draining fd t (Poll_call fd t)" "draining fd t (Read_trash fd 1024)"
  by (simp_all add: draining_def)

lemma drain_ends:
  assumes "\<And>tr. n \<le> length tr \<Longrightarrow> aio_ret (K tr (Poll_call fd t)) \<le> 0
             \<or> aio_ret (K (tr @ [Poll_call fd t]) (Read_trash fd 1024)) \<le> 0"
  shows "\<exists>mid. drain K t fd tr = Some (tr @ mid) \<and> list_all (draining fd t) mid"
proof (induction "n - length tr" arbitrary: tr rule: less_induct)
  case less
  let ?p = "Poll_call fd t" and ?r = "Read_trash fd 1024"
  show ?case
  proof (cases "aio_ret (K tr ?p) > 0 \<and> aio_ret (K (tr @ [?p]) ?r) > 0")
    case True
    with assms [of tr] have "length tr < n" by fastforce
    then have "n - length (tr @ [?p, ?r]) < n - length tr" by simp
    from less [OF this] obtain mid where
      "drain K t fd (tr @ [?p, ?r]) = Some ((tr @ [?p, ?r]) @ mid)" "list_all (draining fd t) mid" by blast
    with True show ?thesis
      by (simp add: drain.simps [of K t fd tr] Let_def)
  next
    case False
    then show ?thesis
      by (auto simp: drain.simps [of K t fd tr] Let_def draining_def)
  qed
qed

theorem close_drains:
  assumes "fd \<noteq> -1" "\<not> asyncIoInUse s"
    and "\<And>tr. n \<le> length tr \<Longrightarrow> aio_ret (K tr (Poll_call fd (libfcgiOsClosePollTimeout s))) \<le> 0
        \<or> aio_ret (K (tr @ [Poll_call fd (libfcgiOsClosePollTimeout s)]) (Read_trash fd 1024)) \<le> 0"
  shows "\<exists>r s' mid. Close_fd K fd True s = Returns (r, s')
           \<and> aio_trace s' = aio_trace s @ [Shutdown_call fd 1] @ mid @ [Close_call fd]
           \<and> list_all (draining fd (libfcgiOsClosePollTimeout s)) mid"
proof (cases "aio_ret (K (aio_trace s) (Shutdown_call fd 1)) = 0")
  case True
  from drain_ends [of n K fd "libfcgiOsClosePollTimeout s" "aio_trace s @ [Shutdown_call fd 1]", OF assms(3)]
  obtain mid where
    "drain K (libfcgiOsClosePollTimeout s) fd (aio_trace s @ [Shutdown_call fd 1]) =
       Some ((aio_trace s @ [Shutdown_call fd 1]) @ mid)"
    "list_all (draining fd (libfcgiOsClosePollTimeout s)) mid" by blast
  with True assms(1,2) show ?thesis
    by (simp add: Close_fd_def Let_def)
next
  case False
  with assms(1,2) show ?thesis
    by (simp add: Close_fd_def Let_def)
qed

theorem close_drains_witness:
  "\<exists>r s'. Close_fd sample_aio 3 True sample_start = Returns (r, s') \<and> last (aio_trace s') = Close_call 3"
proof -
  have n: "\<not> asyncIoInUse sample_start"
    by (simp add: sample_start_def LibInit_def start_state_def sample_aio_def Let_def)
  have t: "aio_ret (sample_aio tr (Poll_call 3 k)) \<le> 0 \<or> q" if "4 \<le> length tr"
    for tr :: "(int, nat) aio_event list" and k q
    using that by (simp add: sample_aio_def)
  have "(3::int) \<noteq> -1" by simp
  from close_drains [where n = 4 and K = sample_aio and s = sample_start, OF this n t]
  show ?thesis by fastforce
qed

section \<open>Signals\<close>

text \<open>
  The start of the library leaves handlers of the application alone, and where there were none
  a request to terminate makes a shutdown pending.
\<close>

lemma LibInit_handlers:
  assumes "LibInit K x y s = (0, s')" "\<not> libInitialized s"
  shows "sig_actions s signo = Own_handler h \<Longrightarrow> sig_actions s' signo = Own_handler h"
    and "signo = SIGUSR1 \<or> signo = SIGTERM \<Longrightarrow> sig_actions s signo = SIG_DFL \<or> sig_actions s signo = SIG_IGN \<Longrightarrow>
         shutdownPending (handle_signal (sig_actions s' signo) c)"
    and "sig_actions s' SIGPIPE \<noteq> SIG_DFL"
proof -
  from assms have "sig_actions s' = OS_InstallSignalHandlers False (sig_actions s)"
    by (auto simp: LibInit_def Let_def split: if_splits option.splits)
  then show "sig_actions s signo = Own_handler h \<Longrightarrow> sig_actions s' signo = Own_handler h"
    and "signo = SIGUSR1 \<or> signo = SIGTERM \<Longrightarrow> sig_actions s signo = SIG_DFL \<or> sig_actions s signo = SIG_IGN \<Longrightarrow>
         shutdownPending (handle_signal (sig_actions s' signo) c)"
    and "sig_actions s' SIGPIPE \<noteq> SIG_DFL"
    by (auto simp: OS_InstallSignalHandlers_def installSignalHandler_def Let_def handle_signal_def
        OS_ShutdownPending_def SIGPIPE_def SIGUSR1_def SIGTERM_def)
qed

end
