(* ===== verification/Fcgi_Printf.thy ===== *)
theory Fcgi_Printf
  imports Fcgi_Writer
begin

text \<open>
  \<open>FCGX_VFPrintF\<close>: formatted output to a stream.  A conversion is tried on the fast path, with no
  flags, width or precision; one that has them goes through the slow path, which copies it into
  \<open>fmtBuff\<close> and bounds the room its result needs.  The text is made by \<open>sprintf\<close> of the C library,
  modelled here for integers, characters, strings and pointers; for floating point numbers it is the
  parameter \<open>fd\<close>, and \<open>fexp\<close> is the exponent \<open>frexp\<close> gives.
\<close>

section \<open>sprintf\<close>

definition is_flag :: "char \<Rightarrow> bool" where
  "is_flag c \<longleftrightarrow> c \<in> set ''-0+ #''"

definition is_digit :: "char \<Rightarrow> bool" where
  "is_digit c \<longleftrightarrow> (let n = of_char c :: nat in 48 \<le> n \<and> n \<le> 57)"

definition number :: "string \<Rightarrow> nat" where
  "number s = foldl (\<lambda>n c. 10 * n + (of_char c - 48)) 0 s"

definition digit_char :: "bool \<Rightarrow> nat \<Rightarrow> char" where
  "digit_char upper d = char_of (if d < 10 then 48 + d else if upper then 55 + d else 87 + d)"

text \<open>The digits of a number, as many as a number of 64 bits can have.\<close>

primrec digits_of :: "nat \<Rightarrow> nat \<Rightarrow> bool \<Rightarrow> nat \<Rightarrow> string" where
  "digits_of 0 base upper n = []"
| "digits_of (Suc k) base upper n =
     (if n < base then [digit_char upper n]
      else digits_of k base upper (n div base) @ [digit_char upper (n mod base)])"

definition decimal :: "nat \<Rightarrow> string" where
  "decimal n = digits_of 64 10 False n"

definition decimal_int :: "int \<Rightarrow> string" where
  "decimal_int i = (if i < 0 then CHR ''-'' # decimal (nat (- i)) else decimal (nat i))"

record spec =
  sp_flags :: string
  sp_width :: nat
  sp_prec :: "nat option"
  sp_op :: char

text \<open>A conversion specification without its size, which the argument has already been cut to.\<close>

definition spec_of :: "string \<Rightarrow> spec" where
  "spec_of fmt =
     (let p = tl fmt; fl = takeWhile is_flag p; p = dropWhile is_flag p;
          w = takeWhile is_digit p; p = dropWhile is_digit p;
          dot = (p \<noteq> [] \<and> hd p = CHR ''.''); p = (if dot then tl p else p);
          pr = takeWhile is_digit p; p = dropWhile is_digit p;
          p = dropWhile (\<lambda>c. c \<in> set ''hlL'') p
      in \<lparr>sp_flags = fl, sp_width = number w, sp_prec = (if dot then Some (number pr) else None),
          sp_op = (if p = [] then NUL else hd p)\<rparr>)"

definition pad_field :: "spec \<Rightarrow> bool \<Rightarrow> string \<Rightarrow> string \<Rightarrow> string" where
  "pad_field sp numeric sign body =
     (let n = sp_width sp - (length sign + length body)
      in if CHR ''-'' \<in> set (sp_flags sp) then sign @ body @ replicate n CHR '' ''
         else if numeric \<and> CHR ''0'' \<in> set (sp_flags sp) \<and> sp_prec sp = None then sign @ replicate n CHR ''0'' @ body
         else replicate n CHR '' '' @ sign @ body)"

definition with_precision :: "spec \<Rightarrow> nat \<Rightarrow> string \<Rightarrow> string" where
  "with_precision sp n ds =
     (case sp_prec sp of
        None \<Rightarrow> ds
      | Some p \<Rightarrow> if p = 0 \<and> n = 0 then [] else replicate (p - length ds) CHR ''0'' @ ds)"

definition sprintf_signed :: "spec \<Rightarrow> int \<Rightarrow> string" where
  "sprintf_signed sp i =
     pad_field sp True
       (if i < 0 then ''-'' else if CHR ''+'' \<in> set (sp_flags sp) then ''+''
        else if CHR '' '' \<in> set (sp_flags sp) then '' '' else [])
       (with_precision sp (nat \<bar>i\<bar>) (decimal (nat \<bar>i\<bar>)))"

definition sprintf_unsigned :: "spec \<Rightarrow> nat \<Rightarrow> string" where
  "sprintf_unsigned sp n =
     (let hash = (CHR ''#'' \<in> set (sp_flags sp));
          base = (if sp_op sp = CHR ''o'' then 8 else if sp_op sp \<in> {CHR ''x'', CHR ''X''} then 16 else 10);
          ds = with_precision sp n (digits_of 64 base (sp_op sp = CHR ''X'') n);
          ds = (if hash \<and> base = 8 \<and> (ds = [] \<or> hd ds \<noteq> CHR ''0'') then CHR ''0'' # ds else ds)
      in pad_field sp True (if hash \<and> base = 16 \<and> n \<noteq> 0 then [CHR ''0'', sp_op sp] else []) ds)"

definition sprintf_string :: "spec \<Rightarrow> string \<Rightarrow> string" where
  "sprintf_string sp s = pad_field sp False [] (case sp_prec sp of None \<Rightarrow> s | Some p \<Rightarrow> take p s)"

definition sprintf_pointer :: "spec \<Rightarrow> nat \<Rightarrow> string" where
  "sprintf_pointer sp n =
     pad_field sp False [] (if n = 0 then ''(nil)'' else ''0x'' @ digits_of 64 16 False n)"

section \<open>Arguments\<close>

text \<open>
  The variable arguments, as the caller passed them; \<open>va_arg\<close> with another type is undefined.
  \<open>A_out\<close> is a pointer for \<open>%n\<close>.
\<close>

datatype 'd va =
    A_int int
  | A_long int
  | A_longlong int
  | A_str "string option"
  | A_ptr nat
  | A_out
  | A_double 'd
  | A_ldouble 'd

definition signed_to :: "nat \<Rightarrow> int \<Rightarrow> int" where
  "signed_to w i = (i + 2 ^ (w - 1)) mod 2 ^ w - 2 ^ (w - 1)"

text \<open>The integer argument of a size, \<open>None\<close> inside for a sz that is an error.\<close>

definition signed_arg :: "char \<Rightarrow> 'd va list \<Rightarrow> (int \<times> 'd va list) option option" where
  "signed_arg sz args =
     (if sz = CHR '' '' then (case args of A_int i # as \<Rightarrow> Some (Some (i, as)) | _ \<Rightarrow> None)
      else if sz = CHR ''l'' then (case args of A_long i # as \<Rightarrow> Some (Some (i, as)) | _ \<Rightarrow> None)
      else if sz = CHR ''L'' then (case args of A_longlong i # as \<Rightarrow> Some (Some (i, as)) | _ \<Rightarrow> None)
      else if sz = CHR ''h'' then (case args of A_int i # as \<Rightarrow> Some (Some (signed_to 16 i, as)) | _ \<Rightarrow> None)
      else Some None)"

definition unsigned_arg :: "char \<Rightarrow> 'd va list \<Rightarrow> (nat \<times> 'd va list) option option" where
  "unsigned_arg sz args = do {
     r \<leftarrow> signed_arg sz args;
     Some (case r of
        None \<Rightarrow> None
      | Some (i, as) \<Rightarrow>
          Some (nat (i mod 2 ^ (if sz = CHR '' '' then 32 else if sz = CHR ''h'' then 16 else 64)), as))
   }"

section \<open>A conversion\<close>

definition PRINTF_BUFFLEN :: nat where "PRINTF_BUFFLEN = 100"
definition FMT_BUFFLEN :: nat where "FMT_BUFFLEN = 25"

text \<open>
  The switch: the text that was made, or that the operation was not performed, or an error.  The
  result has to fit into the buffer with its NUL; as a C string it ends at the first one.
\<close>

datatype performed = Made string | Not_performed | Bad_conversion

definition fits :: "nat \<Rightarrow> string \<Rightarrow> performed option" where
  "fits buffLen txt = (if length txt < buffLen then Some (Made (cstr txt)) else None)"

definition perform ::
  "(string \<Rightarrow> 'd \<Rightarrow> string) \<Rightarrow> bool \<Rightarrow> char \<Rightarrow> char \<Rightarrow> string \<Rightarrow> nat \<Rightarrow> string \<Rightarrow> 'd option \<Rightarrow> int \<Rightarrow>
   'd va list \<Rightarrow> (performed \<times> 'd va list \<times> int list) option" where
  "perform fd fastPath op sz fmtBuff buffLen charPtrArg doubleArg streamCount args =
     (if op \<in> {CHR ''d'', CHR ''i''} then do {
        r \<leftarrow> signed_arg sz args;
        case r of None \<Rightarrow> Some (Bad_conversion, args, [])
        | Some (i, as) \<Rightarrow> do { b \<leftarrow> fits buffLen (sprintf_signed (spec_of fmtBuff) i); Some (b, as, []) }
      }
      else if op \<in> {CHR ''u'', CHR ''o'', CHR ''x'', CHR ''X''} then do {
        r \<leftarrow> unsigned_arg sz args;
        case r of None \<Rightarrow> Some (Bad_conversion, args, [])
        | Some (n, as) \<Rightarrow> do { b \<leftarrow> fits buffLen (sprintf_unsigned (spec_of fmtBuff) n); Some (b, as, []) }
      }
      else if op = CHR ''c'' then
        (if sz \<noteq> CHR '' '' then Some (Bad_conversion, args, [])
         else case args of
           A_int i # as \<Rightarrow> do {
             b \<leftarrow> fits buffLen (pad_field (spec_of fmtBuff) False [] [char_of (nat (i mod 256))]);
             Some (b, as, [])
           }
         | _ \<Rightarrow> None)
      else if op = CHR ''s'' then
        (if sz \<noteq> CHR '' '' then Some (Bad_conversion, args, [])
         else if fastPath then
           (case args of A_str (Some s) # as \<Rightarrow> Some (Made (cstr s), as, []) | _ \<Rightarrow> None)
         else do { b \<leftarrow> fits buffLen (sprintf_string (spec_of fmtBuff) charPtrArg); Some (b, args, []) })
      else if op = CHR ''p'' then
        (if sz \<noteq> CHR '' '' then Some (Bad_conversion, args, [])
         else case args of
           A_ptr n # as \<Rightarrow> do { b \<leftarrow> fits buffLen (sprintf_pointer (spec_of fmtBuff) n); Some (b, as, []) }
         | _ \<Rightarrow> None)
      else if op = CHR ''n'' then
        (if sz \<notin> {CHR '' '', CHR ''l'', CHR ''h''} then Some (Bad_conversion, args, [])
         else case args of
           A_out # as \<Rightarrow> Some (Made [], as, [if sz = CHR ''h'' then signed_to 16 streamCount else streamCount])
         | _ \<Rightarrow> None)
      else if op = CHR ''f'' then
        (if fastPath then Some (Not_performed, args, [])
         else if sz \<notin> {CHR '' '', CHR ''L''} then Some (Bad_conversion, args, [])
         else do { d \<leftarrow> doubleArg; b \<leftarrow> fits buffLen (fd fmtBuff d); Some (b, args, []) })
      else if op \<in> {CHR ''e'', CHR ''E'', CHR ''g'', CHR ''G''} then
        (if sz = CHR '' '' then
           (case args of A_double d # as \<Rightarrow> do { b \<leftarrow> fits buffLen (fd fmtBuff d); Some (b, as, []) } | _ \<Rightarrow> None)
         else if sz = CHR ''L'' then
           (case args of A_ldouble d # as \<Rightarrow> do { b \<leftarrow> fits buffLen (fd fmtBuff d); Some (b, as, []) } | _ \<Rightarrow> None)
         else Some (Bad_conversion, args, []))
      else if op = CHR ''%'' then
        Some (if sz \<noteq> CHR '' '' then Bad_conversion else Made ''%'', args, [])
      else Some (if op = NUL then Bad_conversion else Not_performed, args, []))"

text \<open>The character at an offset; the NUL is part of the string.\<close>

definition char_at :: "string \<Rightarrow> nat \<Rightarrow> char" where
  "char_at p i = (if i < length p then p ! i else NUL)"

text \<open>
  The fast path: operation, size, \<open>fmtBuff\<close> and \<open>specifierLength\<close>.  For a single \<open>l\<close> the last
  three keep what they had, but then the operation is \<open>l\<close>, which is none.
\<close>

definition fast_scan :: "string \<Rightarrow> char \<times> char \<times> string \<times> nat" where
  "fast_scan p =
     (let op = char_at p 1
      in if op = CHR ''l'' then
           (if char_at p 2 = CHR ''l'' then (char_at p 3, CHR ''L'', [CHR ''%'', CHR ''l'', CHR ''l'', char_at p 3], 4)
            else (op, CHR '' '', [], 0))
         else if op \<in> {CHR ''L'', CHR ''h''} then (char_at p 2, op, [CHR ''%'', op, char_at p 2], 3)
         else (op, CHR '' '', [CHR ''%'', op], 2))"

section \<open>The slow path\<close>

text \<open>Errors are \<open>None\<close> inside; the results end with the rest of the string and of the arguments.\<close>

definition scan_width :: "string \<Rightarrow> 'd va list \<Rightarrow> (int \<times> string \<times> string \<times> 'd va list) option option" where
  "scan_width p args =
     (let ds = takeWhile is_digit p
      in if ds = [] then
           (if p \<noteq> [] \<and> hd p = CHR ''*'' then
              (case args of
                 A_int w # as \<Rightarrow> Some (if \<bar>w\<bar> > 999999 then None else Some (w, decimal_int w, tl p, as))
               | _ \<Rightarrow> None)
            else Some (Some (0, [], p, args)))
         else Some (if length ds \<le> 6 then Some (int (number ds), ds, drop (length ds) p, args) else None))"

definition scan_precision :: "string \<Rightarrow> 'd va list \<Rightarrow> (int \<times> string \<times> string \<times> 'd va list) option option" where
  "scan_precision p args =
     (if p \<noteq> [] \<and> hd p = CHR ''.'' then
        (let q = tl p; ds = takeWhile is_digit q
         in if ds = [] then
              (if q \<noteq> [] \<and> hd q = CHR ''*'' then
                 (case args of
                    A_int w # as \<Rightarrow>
                      Some (let w = max w 0 in if w > 999999 then None else Some (w, CHR ''.'' # decimal_int w, tl q, as))
                  | _ \<Rightarrow> None)
               else Some (Some (0, ''.'', q, args)))
            else Some (if length ds \<le> 6 then Some (int (number ds), CHR ''.'' # ds, drop (length ds) q, args) else None))
      else Some (Some (-1, [], p, args)))"

definition scan_size :: "string \<Rightarrow> char \<times> string \<times> string" where
  "scan_size p =
     (if char_at p 0 = CHR ''l'' then (if char_at p 1 = CHR ''l'' then (CHR ''L'', ''ll'', drop 2 p) else (CHR '' '', [], p))
      else if char_at p 0 \<in> {CHR ''L'', CHR ''h''} then (char_at p 0, [char_at p 0], drop 1 p)
      else (CHR '' '', [], p))"

text \<open>
  The room a conversion needs, with the argument of \<open>s\<close> and \<open>f\<close>, which is read here.
\<close>

definition bound_buffer ::
  "('d \<Rightarrow> int) \<Rightarrow> char \<Rightarrow> char \<Rightarrow> int \<Rightarrow> 'd va list \<Rightarrow> (int \<times> string \<times> 'd option \<times> 'd va list) option option" where
  "bound_buffer fexp op sz precision args =
     (if op \<in> set ''diuoxXcp'' then Some (Some (max precision 46, [], None, args))
      else if op = CHR ''s'' then
        (case args of
           A_str a # as \<Rightarrow>
             (let s = (case a of None \<Rightarrow> ''(null)'' | Some s \<Rightarrow> cstr s)
              in Some (Some (if precision = -1 then int (length s) else min precision (int (length s)), s, None, as)))
         | _ \<Rightarrow> None)
      else if op = CHR ''f'' then
        (let need = (\<lambda>d. (if precision = -1 then 6 else precision) + 3 + (if fexp d > 0 then fexp d div 3 else 0))
         in if sz = CHR '' '' then
              (case args of A_double d # as \<Rightarrow> Some (Some (need d, [], Some d, as)) | _ \<Rightarrow> None)
            else if sz = CHR ''L'' then
              (case args of A_ldouble d # as \<Rightarrow> Some (Some (need d, [], Some d, as)) | _ \<Rightarrow> None)
            else Some None)
      else if op \<in> set ''eEgG'' then Some (Some ((if precision = -1 then 6 else precision) + 8, [], None, args))
      else Some None)"

text \<open>
  The conversion at \<open>p\<close>, which begins with the percent sign: its text, its length, the remaining
  arguments, the sz of \<open>auxBuffPtr\<close> and what \<open>%n\<close> stored.
\<close>

definition slow_convert ::
  "(string \<Rightarrow> 'd \<Rightarrow> string) \<Rightarrow> ('d \<Rightarrow> int) \<Rightarrow> string \<Rightarrow> int \<Rightarrow> nat \<Rightarrow> 'd va list \<Rightarrow>
   (string \<times> nat \<times> 'd va list \<times> nat \<times> int list) option option" where
  "slow_convert fd fexp p streamCount auxBuffLen args =
     (let fl = takeWhile is_flag (tl p); q = dropWhile is_flag (tl p)
      in if length fl > 5 then Some None
         else do {
           w \<leftarrow> scan_width q args;
           case w of None \<Rightarrow> Some None
           | Some (minWidth, wt, q, args) \<Rightarrow> do {
               pr \<leftarrow> scan_precision q args;
               case pr of None \<Rightarrow> Some None
               | Some (precision, pt, q, args) \<Rightarrow>
                   (let (sz, st, q) = scan_size q; op = char_at q 0;
                        fmtBuff = CHR ''%'' # fl @ wt @ pt @ st @ [op]
                    in if length fmtBuff \<ge> FMT_BUFFLEN then None
                       else do {
                         b \<leftarrow> bound_buffer fexp op sz precision args;
                         case b of None \<Rightarrow> Some None
                         | Some (reqd, charPtrArg, doubleArg, args) \<Rightarrow>
                             (let buffReqd = nat (max (reqd + 10) minWidth);
                                  auxBuffLen = (if buffReqd \<le> PRINTF_BUFFLEN then auxBuffLen else max auxBuffLen buffReqd);
                                  buffLen = (if buffReqd \<le> PRINTF_BUFFLEN then PRINTF_BUFFLEN else auxBuffLen)
                              in do {
                                (r, args, stores) \<leftarrow> perform fd False op sz fmtBuff buffLen charPtrArg doubleArg streamCount args;
                                Some (case r of
                                   Made txt \<Rightarrow> Some (txt, length p - length (tl q), args, auxBuffLen, stores)
                                 | _ \<Rightarrow> None)
                              })
                       })
             }
         })"

definition convert ::
  "(string \<Rightarrow> 'd \<Rightarrow> string) \<Rightarrow> ('d \<Rightarrow> int) \<Rightarrow> string \<Rightarrow> int \<Rightarrow> nat \<Rightarrow> 'd va list \<Rightarrow>
   (string \<times> nat \<times> 'd va list \<times> nat \<times> int list) option option" where
  "convert fd fexp p streamCount auxBuffLen args =
     (let (op, sz, fmtBuff, specifierLength) = fast_scan p
      in do {
        (r, args', stores) \<leftarrow> perform fd True op sz fmtBuff PRINTF_BUFFLEN [] None streamCount args;
        case r of
          Made txt \<Rightarrow> Some (Some (txt, specifierLength, args', auxBuffLen, stores))
        | Bad_conversion \<Rightarrow> Some None
        | Not_performed \<Rightarrow> slow_convert fd fexp p streamCount auxBuffLen args
      })"

section \<open>The loop\<close>

definition put_text ::
  "'z empty_proc \<Rightarrow> string \<Rightarrow> FCGX_Stream \<Rightarrow> 'z conn_scheme \<Rightarrow> (int \<times> FCGX_Stream \<times> 'z conn_scheme) option" where
  "put_text emp txt s c = (if txt = [] then Some (0, s, c) else FCGX_PutStr emp (ascii txt) s c)"

text \<open>
  Every round takes a character of the format at least.  The results are the number of bytes
  written, or -1, and the numbers \<open>%n\<close> stored.
\<close>

primrec VFPrintF_loop ::
  "(string \<Rightarrow> 'd \<Rightarrow> string) \<Rightarrow> ('d \<Rightarrow> int) \<Rightarrow> 'z empty_proc \<Rightarrow> nat \<Rightarrow> string \<Rightarrow> 'd va list \<Rightarrow> nat \<Rightarrow> int \<Rightarrow> int list \<Rightarrow>
   FCGX_Stream \<Rightarrow> 'z conn_scheme \<Rightarrow> (int \<times> int list \<times> FCGX_Stream \<times> 'z conn_scheme) option" where
  "VFPrintF_loop fd fexp emp 0 f args aux streamCount stores s c = None"
| "VFPrintF_loop fd fexp emp (Suc fuel) f args aux streamCount stores s c =
     (if f = [] then Some (streamCount, stores, s, c)
      else
        let lit = takeWhile (\<lambda>x. x \<noteq> CHR ''%'') f; p = dropWhile (\<lambda>x. x \<noteq> CHR ''%'') f
        in do {
          (rc, s, c) \<leftarrow> put_text emp lit s c;
          if rc < 0 then Some (-1, stores, s, c)
          else
            let streamCount = streamCount + int (length lit)
            in if p = [] then Some (streamCount, stores, s, c)
               else do {
                 r \<leftarrow> convert fd fexp p streamCount aux args;
                 case r of
                   None \<Rightarrow> Some (-1, stores, s, c)
                 | Some (txt, len, args, aux, st) \<Rightarrow> do {
                     (rc, s, c) \<leftarrow> put_text emp txt s c;
                     if rc < 0 then Some (-1, stores @ st, s, c)
                     else VFPrintF_loop fd fexp emp fuel (drop len p) args aux
                            (streamCount + int (length txt)) (stores @ st) s c
                   }
               }
        })"

declare VFPrintF_loop.simps(2) [simp del]

definition FCGX_VFPrintF ::
  "(string \<Rightarrow> 'd \<Rightarrow> string) \<Rightarrow> ('d \<Rightarrow> int) \<Rightarrow> 'z empty_proc \<Rightarrow> string \<Rightarrow> 'd va list \<Rightarrow>
   FCGX_Stream \<Rightarrow> 'z conn_scheme \<Rightarrow> (int \<times> int list \<times> FCGX_Stream \<times> 'z conn_scheme) option" where
  "FCGX_VFPrintF fd fexp emp format args s c =
     VFPrintF_loop fd fexp emp (Suc (length (cstr format))) (cstr format) args 0 0 [] s c"

section \<open>What is written\<close>

text \<open>
  A format: pieces of text, each followed by a conversion, and a last piece of text.  \<open>conv_text\<close> is
  what the conversion stands for.
\<close>

datatype conv = C_str string | C_int int | C_unsigned nat | C_hex nat | C_char char | C_percent

primrec conv_format :: "conv \<Rightarrow> string" where
  "conv_format (C_str s) = ''%s''"
| "conv_format (C_int i) = ''%d''"
| "conv_format (C_unsigned n) = ''%u''"
| "conv_format (C_hex n) = ''%x''"
| "conv_format (C_char c) = ''%c''"
| "conv_format C_percent = ''%%''"

primrec conv_args :: "conv \<Rightarrow> 'd va list" where
  "conv_args (C_str s) = [A_str (Some s)]"
| "conv_args (C_int i) = [A_int i]"
| "conv_args (C_unsigned n) = [A_int (signed_to 32 (int n))]"
| "conv_args (C_hex n) = [A_int (signed_to 32 (int n))]"
| "conv_args (C_char c) = [A_int (of_char c)]"
| "conv_args C_percent = []"

primrec conv_text :: "conv \<Rightarrow> string" where
  "conv_text (C_str s) = s"
| "conv_text (C_int i) = decimal_int i"
| "conv_text (C_unsigned n) = decimal n"
| "conv_text (C_hex n) = digits_of 64 16 False n"
| "conv_text (C_char c) = [c]"
| "conv_text C_percent = ''%''"

primrec conv_ok :: "conv \<Rightarrow> bool" where
  "conv_ok (C_str s) \<longleftrightarrow> NUL \<notin> set s"
| "conv_ok (C_int i) \<longleftrightarrow> True"
| "conv_ok (C_unsigned n) \<longleftrightarrow> n < 2 ^ 32"
| "conv_ok (C_hex n) \<longleftrightarrow> n < 2 ^ 32"
| "conv_ok (C_char c) \<longleftrightarrow> c \<noteq> NUL"
| "conv_ok C_percent \<longleftrightarrow> True"

definition lit_ok :: "string \<Rightarrow> bool" where
  "lit_ok s \<longleftrightarrow> NUL \<notin> set s \<and> CHR ''%'' \<notin> set s"

definition format_of :: "(string \<times> conv) list \<Rightarrow> string \<Rightarrow> string" where
  "format_of ps lst = concat (map (\<lambda>(l, k). l @ conv_format k) ps) @ lst"

definition text_of :: "(string \<times> conv) list \<Rightarrow> string \<Rightarrow> string" where
  "text_of ps lst = concat (map (\<lambda>(l, k). l @ conv_text k) ps) @ lst"

lemma length_digits_of: "length (digits_of k base upper n) \<le> k"
proof (induction k arbitrary: n)
  case (Suc k)
  show ?case using Suc [of "n div base"] by simp
qed simp

lemma digit_char_not_NUL: "d < 36 \<Longrightarrow> digit_char upper d \<noteq> NUL"
proof
  assume d: "d < 36" and e: "digit_char upper d = NUL"
  define m where "m = (if d < 10 then 48 + d else if upper then 55 + d else 87 + d)"
  have "m < 256" "m \<noteq> 0" using d by (auto simp: m_def)
  moreover have "of_char (char_of m :: char) = m mod 256" by simp
  moreover have "(of_char NUL :: nat) = 0" by (simp add: NUL_def)
  moreover have "char_of m = NUL" using e by (simp add: digit_char_def m_def)
  ultimately show False by (metis mod_less)
qed

lemma digits_of_no_NUL: "base \<le> 36 \<Longrightarrow> 0 < base \<Longrightarrow> NUL \<notin> set (digits_of k base upper n)"
proof (induction k arbitrary: n)
  case (Suc k)
  have "n mod base < 36" using Suc.prems mod_less_divisor [of base n] by linarith
  then show ?case using Suc digit_char_not_NUL [of n upper] digit_char_not_NUL [of "n mod base" upper]
    by (auto dest: sym)
qed simp

lemma plain_specs:
  "spec_of ''%d'' = \<lparr>sp_flags = [], sp_width = 0, sp_prec = None, sp_op = CHR ''d''\<rparr>"
  "spec_of ''%u'' = \<lparr>sp_flags = [], sp_width = 0, sp_prec = None, sp_op = CHR ''u''\<rparr>"
  "spec_of ''%x'' = \<lparr>sp_flags = [], sp_width = 0, sp_prec = None, sp_op = CHR ''x''\<rparr>"
  "spec_of ''%c'' = \<lparr>sp_flags = [], sp_width = 0, sp_prec = None, sp_op = CHR ''c''\<rparr>"
  by code_simp+

lemma plain_field: "pad_field \<lparr>sp_flags = [], sp_width = 0, sp_prec = pr, sp_op = op\<rparr> b sign body = sign @ body"
  by (simp add: pad_field_def)

lemma signed_to_unsigned: "n < 2 ^ 32 \<Longrightarrow> nat (signed_to 32 (int n) mod 2 ^ 32) = n"
proof -
  assume n: "n < 2 ^ 32"
  have "signed_to 32 (int n) mod 2 ^ 32 = int n mod 2 ^ 32"
    unfolding signed_to_def by (simp add: mod_diff_left_eq)
  also have "\<dots> = int n" using n by simp
  finally show ?thesis by simp
qed

lemma fits_plain: "length txt < n \<Longrightarrow> NUL \<notin> set txt \<Longrightarrow> fits n txt = Some (Made txt)"
  by (simp add: fits_def cstr_id)

lemma convert_plain:
  assumes "conv_ok k"
  shows "convert fd fexp (conv_format k @ rest) count aux (conv_args k @ as) = Some (Some (conv_text k, 2, as, aux, []))"
proof (cases k)
  case (C_str s)
  then show ?thesis using assms
    by (simp add: convert_def Let_def fast_scan_def char_at_def perform_def cstr_id)
next
  case (C_int i)
  have "length (decimal (nat \<bar>i\<bar>)) < 66" "NUL \<notin> set (decimal (nat \<bar>i\<bar>))"
    using length_digits_of [of 64 10 False "nat \<bar>i\<bar>"] digits_of_no_NUL by (simp_all add: decimal_def)
  moreover have "sprintf_signed (spec_of ''%d'') i = decimal_int i"
    by (simp add: plain_specs sprintf_signed_def plain_field with_precision_def decimal_int_def)
  moreover have "decimal_int i = (if i < 0 then ''-'' else []) @ decimal (nat \<bar>i\<bar>)"
    by (simp add: decimal_int_def)
  ultimately have "fits PRINTF_BUFFLEN (sprintf_signed (spec_of ''%d'') i) = Some (Made (decimal_int i))"
    using fits_plain [of "decimal_int i" PRINTF_BUFFLEN] by (auto simp: PRINTF_BUFFLEN_def NUL_def)
  with C_int show ?thesis by (simp add: convert_def Let_def fast_scan_def char_at_def perform_def signed_arg_def)
next
  case (C_unsigned n)
  have "length (decimal n) < 65" "NUL \<notin> set (decimal n)"
    using length_digits_of [of 64 10 False n] digits_of_no_NUL by (simp_all add: decimal_def)
  moreover have "sprintf_unsigned (spec_of ''%u'') n = decimal n"
    by (simp add: plain_specs sprintf_unsigned_def plain_field with_precision_def decimal_def)
  ultimately have "fits PRINTF_BUFFLEN (sprintf_unsigned (spec_of ''%u'') n) = Some (Made (decimal n))"
    using fits_plain [of "decimal n" PRINTF_BUFFLEN] by (simp add: PRINTF_BUFFLEN_def)
  with C_unsigned assms show ?thesis
    by (simp add: convert_def Let_def fast_scan_def char_at_def perform_def signed_arg_def unsigned_arg_def signed_to_unsigned
        del: power_numeral)
next
  case (C_hex n)
  have "length (digits_of 64 16 False n) < 65" "NUL \<notin> set (digits_of 64 16 False n)"
    using length_digits_of [of 64 16 False n] digits_of_no_NUL by (simp_all del: digits_of.simps)
  moreover have "sprintf_unsigned (spec_of ''%x'') n = digits_of 64 16 False n"
    by (simp add: plain_specs sprintf_unsigned_def plain_field with_precision_def del: digits_of.simps)
  ultimately have "fits PRINTF_BUFFLEN (sprintf_unsigned (spec_of ''%x'') n) = Some (Made (digits_of 64 16 False n))"
    using fits_plain [of "digits_of 64 16 False n" PRINTF_BUFFLEN] by (simp add: PRINTF_BUFFLEN_def del: digits_of.simps)
  with C_hex assms show ?thesis
    by (simp add: convert_def Let_def fast_scan_def char_at_def perform_def signed_arg_def unsigned_arg_def signed_to_unsigned
        del: power_numeral digits_of.simps)
next
  case (C_char c)
  have "(of_char c :: int) mod 256 = of_char c"
    by (metis mod_mod_trivial of_char_mod_256 of_nat_of_char zmod_int)
  moreover have "nat (of_char c :: int) = of_char c" by (metis nat_int of_nat_of_char)
  ultimately have "char_of (nat ((of_char c :: int) mod 256)) = c" by simp
  with C_char assms show ?thesis
    by (simp add: convert_def Let_def fast_scan_def char_at_def perform_def plain_specs plain_field fits_plain PRINTF_BUFFLEN_def)
next
  case C_percent
  then show ?thesis by (simp add: convert_def Let_def fast_scan_def char_at_def perform_def)
qed

lemma length_conv_format [simp]: "length (conv_format k) = 2"
  by (cases k) simp_all

lemma conv_format_nonempty [simp]: "conv_format k \<noteq> []"
  by (cases k) simp_all

lemma conv_format_percent: "conv_format k = CHR ''%'' # tl (conv_format k)"
  by (cases k) simp_all

lemma lit_scan:
  assumes "lit_ok l"
  shows "takeWhile (\<lambda>x. x \<noteq> CHR ''%'') (l @ conv_format k @ rest) = l"
    "dropWhile (\<lambda>x. x \<noteq> CHR ''%'') (l @ conv_format k @ rest) = conv_format k @ rest"
    "takeWhile (\<lambda>x. x \<noteq> CHR ''%'') l = l" "dropWhile (\<lambda>x. x \<noteq> CHR ''%'') l = []"
proof -
  have a: "\<forall>x \<in> set l. x \<noteq> CHR ''%''" using assms by (auto simp: lit_ok_def)
  have c: "conv_format k @ rest = CHR ''%'' # tl (conv_format k) @ rest"
    using conv_format_percent [of k] by (metis append_Cons)
  show "takeWhile (\<lambda>x. x \<noteq> CHR ''%'') (l @ conv_format k @ rest) = l"
    "dropWhile (\<lambda>x. x \<noteq> CHR ''%'') (l @ conv_format k @ rest) = conv_format k @ rest"
    unfolding c using a by (simp_all add: takeWhile_append2 dropWhile_append2)
  show "takeWhile (\<lambda>x. x \<noteq> CHR ''%'') l = l" "dropWhile (\<lambda>x. x \<noteq> CHR ''%'') l = []"
    using a by (simp_all add: takeWhile_eq_all_conv dropWhile_eq_Nil_conv)
qed

lemma format_of_no_NUL:
  assumes "\<forall>(l, k) \<in> set ps. lit_ok l \<and> conv_ok k" "lit_ok lst"
  shows "cstr (format_of ps lst) = format_of ps lst"
proof (rule cstr_id)
  have "NUL \<notin> set (conv_format k)" for k by (cases k) (simp_all add: NUL_def)
  then show "NUL \<notin> set (format_of ps lst)"
    using assms by (auto simp: format_of_def lit_ok_def split_beta)
qed

context byte_sink
begin

lemma put_text_rel:
  assumes "rel s c out"
  shows "\<exists>s' c'. put_text emp txt s c = Some (int (length txt), s', c') \<and> rel s' c' (out @ ascii txt)"
  using PutStr_rel [OF assms, of "ascii txt"] assms by (auto simp: put_text_def ascii_def)

lemma VFPrintF_loop_rel:
  assumes "rel s c out" "\<forall>(l, k) \<in> set ps. lit_ok l \<and> conv_ok k" "lit_ok lst" "length (format_of ps lst) < fuel"
  shows "\<exists>s' c'. VFPrintF_loop fd fexp emp fuel (format_of ps lst) (concat (map (conv_args \<circ> snd) ps)) aux count stores s c =
      Some (count + int (length (text_of ps lst)), stores, s', c') \<and> rel s' c' (out @ ascii (text_of ps lst))"
  using assms
proof (induction ps arbitrary: s c out fuel count)
  case Nil
  then obtain f where f: "fuel = Suc f" by (cases fuel) auto
  obtain s' c' where p: "put_text emp lst s c = Some (int (length lst), s', c')" "rel s' c' (out @ ascii lst)"
    using put_text_rel [OF Nil.prems(1)] by blast
  have e: "format_of [] lst = lst" "text_of [] lst = lst" by (simp_all add: format_of_def text_of_def)
  show ?case
  proof (cases "lst = []")
    case True
    then show ?thesis using Nil.prems(1) e by (simp add: f VFPrintF_loop.simps(2) ascii_def)
  next
    case False
    then show ?thesis using p
      unfolding f VFPrintF_loop.simps(2) e Let_def lit_scan(3,4) [OF Nil.prems(3)] by simp
  qed
next
  case (Cons x ps)
  obtain l k where x: "x = (l, k)" by (cases x)
  from Cons.prems(4) obtain f where f: "fuel = Suc f" by (cases fuel) auto
  have ok: "lit_ok l" "conv_ok k" using Cons.prems(2) x by auto
  let ?rest = "format_of ps lst" and ?as = "concat (map (conv_args \<circ> snd) ps)"
  have fmt: "format_of (x # ps) lst = l @ conv_format k @ ?rest" by (simp add: format_of_def x)
  obtain s1 c1 where 1: "put_text emp l s c = Some (int (length l), s1, c1)" "rel s1 c1 (out @ ascii l)"
    using put_text_rel [OF Cons.prems(1)] by blast
  obtain s2 c2 where 2: "put_text emp (conv_text k) s1 c1 = Some (int (length (conv_text k)), s2, c2)"
      "rel s2 c2 ((out @ ascii l) @ ascii (conv_text k))"
    using put_text_rel [OF 1(2)] by blast
  have "\<forall>(l, k) \<in> set ps. lit_ok l \<and> conv_ok k" "length ?rest < f"
    using Cons.prems(2,4) f fmt by simp_all
  then obtain s3 c3 where 3: "VFPrintF_loop fd fexp emp f ?rest ?as aux (count + int (length l) + int (length (conv_text k))) stores s2 c2 =
      Some (count + int (length l) + int (length (conv_text k)) + int (length (text_of ps lst)), stores, s3, c3)"
      "rel s3 c3 (((out @ ascii l) @ ascii (conv_text k)) @ ascii (text_of ps lst))"
    using Cons.IH [OF 2(2) _ Cons.prems(3), of f "count + int (length l) + int (length (conv_text k))"] by blast
  have t: "int (length (text_of (x # ps) lst)) = int (length l) + int (length (conv_text k)) + int (length (text_of ps lst))"
    "ascii (text_of (x # ps) lst) = ascii l @ ascii (conv_text k) @ ascii (text_of ps lst)"
    by (simp_all add: x text_of_def ascii_def)
  have as: "concat (map (conv_args \<circ> snd) (x # ps)) = conv_args k @ ?as" by (simp add: x)
  have "VFPrintF_loop fd fexp emp (Suc f) (l @ conv_format k @ ?rest) (conv_args k @ ?as) aux count stores s c =
      VFPrintF_loop fd fexp emp f ?rest ?as aux (count + int (length l) + int (length (conv_text k))) stores s2 c2"
    unfolding VFPrintF_loop.simps(2) Let_def lit_scan(1,2) [OF ok(1)]
    using 1(1) 2(1) by (simp add: convert_plain [OF ok(2)])
  then show ?case
    using 3 unfolding f fmt as t by (simp add: algebra_simps)
qed

lemma VFPrintF_rel:
  assumes "rel s c out" "\<forall>(l, k) \<in> set ps. lit_ok l \<and> conv_ok k" "lit_ok lst"
  shows "\<exists>s' c'. FCGX_VFPrintF fd fexp emp (format_of ps lst) (concat (map (conv_args \<circ> snd) ps)) s c =
      Some (int (length (text_of ps lst)), [], s', c') \<and> rel s' c' (out @ ascii (text_of ps lst))"
  using VFPrintF_loop_rel [OF assms, of "Suc (length (format_of ps lst))" fd fexp 0 0 "[]"]
    format_of_no_NUL [OF assms(2,3)]
  by (simp add: FCGX_VFPrintF_def)

end

section \<open>On a stream of a request\<close>

text \<open>
  C39. Formatted output reaches the connection as the text it stands for.  For a format of text and
  plain conversions of strings, integers, characters and percent signs, \<open>FCGX_VFPrintF\<close> returns the
  length of the text, and when the stream is closed the contents of its frames are the
  text, byte for byte.
\<close>

theorem printf_written:
  assumes "writer_ok ty s" "wrNext s = 8" "\<not> isAnythingWritten s"
    and "out_ok c" "requestId c = int r" "r < 65536"
    and "\<forall>(l, k) \<in> set ps. lit_ok l \<and> conv_ok k" "lit_ok lst"
  shows "\<exists>s1 c1 s2 c2 ds. FCGX_VFPrintF fd fexp EmptyBuffProc (format_of ps lst) (concat (map (conv_args \<circ> snd) ps)) s c =
       Some (int (length (text_of ps lst)), [], s1, c1) \<and>
     FCGX_FClose EmptyBuffProc (Some s1) c1 = Some (0, Some s2, c2) \<and>
     sent c2 = sent c @ out_frames ty r ds @ close_bytes ty r (ds \<noteq> []) (appStatus c) (nWriters c) \<and>
     concat ds = ascii (text_of ps lst)"
proof -
  have "pending s = []" using assms(1,2) by (simp add: pending_def)
  then have r0: "writer_rel ty r (sent c) (conn_kept c) False s c []"
    using assms(1-6) unfolding writer_rel_def by (intro conjI exI [of _ "[]"]) (auto simp: conn_kept_def)
  obtain s1 c1 where 1: "FCGX_VFPrintF fd fexp EmptyBuffProc (format_of ps lst) (concat (map (conv_args \<circ> snd) ps)) s c =
       Some (int (length (text_of ps lst)), [], s1, c1)"
    and r1: "writer_rel ty r (sent c) (conn_kept c) False s1 c1 (ascii (text_of ps lst))"
    using records.VFPrintF_rel [OF r0 assms(7,8), of fd fexp] by auto
  obtain s2 c2 ds where 2: "FCGX_FClose EmptyBuffProc (Some s1) c1 = Some (0, Some s2, c2)"
    "ascii (text_of ps lst) = concat ds"
    "sent c2 = sent c @ out_frames ty r ds @ close_bytes ty r (False \<or> ds \<noteq> []) (appStatus (conn_kept c)) (nWriters (conn_kept c))"
    using writer_FClose [OF r1] by blast
  then show ?thesis using 1 by (auto simp: conn_kept_def)
qed

theorem printf_written_witness:
  "\<exists>s1 c1 s2 c2 ds. FCGX_VFPrintF (\<lambda>_ (_ :: unit). []) (\<lambda>_. 0) EmptyBuffProc (''pid %d: %s.'') [A_int (-7), A_str (Some ''ok'')]
       (sample_writer (replicate 16 0)) sample_out_conn = Some (11, [], s1, c1) \<and>
     FCGX_FClose EmptyBuffProc (Some s1) c1 = Some (0, Some s2, c2) \<and>
     concat ds = ascii ''pid -7: ok.''"
proof -
  let ?ps = "[(''pid '', C_int (-7)), ('': '', C_str ''ok'')]"
  have 1: "wrNext (sample_writer (replicate 16 0)) = 8" "\<not> isAnythingWritten (sample_writer (replicate 16 0))"
    "out_ok sample_out_conn" "requestId sample_out_conn = int 1" "(1 :: nat) < 65536"
    by (simp_all add: sample_writer_def sample_out_conn_def out_ok_def)
  have 2: "\<forall>(l, k) \<in> set ?ps. lit_ok l \<and> conv_ok k" "lit_ok ''.''" by (simp_all add: lit_ok_def NUL_def)
  have 3: "format_of ?ps ''.'' = ''pid %d: %s.''" "text_of ?ps ''.'' = ''pid -7: ok.''"
    "concat (map (conv_args \<circ> snd) ?ps) = [A_int (-7), A_str (Some ''ok'') :: unit va]"
    by code_simp+
  show ?thesis
    using printf_written [OF sample_writer_ok 1 2, of "\<lambda>_ (_ :: unit). []" "\<lambda>_. 0"] unfolding 3 by auto
qed

text \<open>
  A plain \<open>%ld\<close> is not printed: the fast path leaves it to the slow path, which takes the \<open>l\<close> for the
  operation and gives up, so that the call fails.
\<close>

theorem long_not_printed:
  "FCGX_VFPrintF fd fexp emp ''%ld'' [A_long i] s c = Some (-1, [], s, c)"
proof -
  have "convert fd fexp ''%ld'' 0 0 [A_long i] = Some None"
    by (simp add: convert_def Let_def fast_scan_def char_at_def perform_def slow_convert_def scan_width_def
        scan_precision_def scan_size_def bound_buffer_def is_flag_def is_digit_def NUL_def FMT_BUFFLEN_def)
  then show ?thesis
    by (simp add: FCGX_VFPrintF_def VFPrintF_loop.simps(2) put_text_def Let_def cstr_def NUL_def)
qed

text \<open>
  A field of 100 characters overflows its buffer: the room is computed without the NUL that
  \<open>sprintf\<close> puts behind the text.
\<close>

theorem wide_field_overflow:
  "FCGX_VFPrintF fd fexp emp ''%100d'' [A_int 1] s c = None"
proof -
  have "convert fd fexp ''%100d'' 0 0 [A_int 1] = None"
    by (simp add: convert_def Let_def fast_scan_def char_at_def perform_def slow_convert_def scan_width_def
        scan_precision_def scan_size_def bound_buffer_def is_flag_def is_digit_def NUL_def FMT_BUFFLEN_def
        PRINTF_BUFFLEN_def signed_arg_def spec_of_def sprintf_signed_def pad_field_def fits_def number_def
        with_precision_def decimal_def)
  then show ?thesis
    by (simp add: FCGX_VFPrintF_def VFPrintF_loop.simps(2) put_text_def Let_def cstr_def NUL_def)
qed

end
