(* ===== verification/Fcgi_Stdio.thy ===== *)
theory Fcgi_Stdio
  imports Fcgi_Printf Fcgi_Serve
begin

text \<open>
  \<open>fcgi_stdio.c\<close>: a \<open>FCGI_FILE\<close> is a file of the C library or a stream of the request, and every
  function passes its call on to one of them.  The request of \<open>fcgiapp.c\<close>, \<open>the_request\<close>, is the
  state itself; its three streams are named by \<open>which_stream\<close>, and the three files
  \<open>FCGI_stdin\<close>, \<open>FCGI_stdout\<close> and \<open>FCGI_stderr\<close> have the addresses 0, 1 and 2.
\<close>

section \<open>Files of the C library\<close>

text \<open>
  An open file: its bytes, the position, what was pushed back, the two indicators and what it was
  opened for.  The bytes go back to its path when it is flushed or closed.
\<close>

record FILE =
  f_path :: "string option"
  f_bytes :: "byte list"
  f_pos :: nat
  f_back :: "byte list"
  f_eof :: bool
  f_err :: bool
  f_read :: bool
  f_write :: bool
  f_append :: bool

datatype which_stream = Req_in | Req_out | Req_err

record FCGI_FILE =
  stdio_stream :: "nat option"
  fcgx_stream :: "which_stream option"

text \<open>
  The state of the process: \<open>paths\<close> are the files on disk, \<open>new_files\<close> the addresses of the coming
  \<open>FILE\<close>s, \<open>allocs\<close> what \<open>malloc\<close> returns for the coming \<open>FCGI_FILE\<close>s, \<open>process_env\<close> the environment
  the process was started with, \<open>peer_errno\<close> the error of \<open>getpeername\<close> on the listening socket.
\<close>

record stdio_state = FCGX_Request +
  fcgi_files :: "nat \<Rightarrow> FCGI_FILE option"
  c_files :: "nat \<Rightarrow> FILE option"
  paths :: "string \<Rightarrow> byte list option"
  new_files :: "nat list"
  opened :: "nat list"
  allocs :: "nat option list"
  process_env :: "string \<Rightarrow> string option"
  peer_errno :: int
  table_malloc :: bool
  os_initialized :: bool
  close_poll_timeout :: int
  keeper_poll_timeout :: int
  isFastCGI :: int
  acceptCalled :: bool
  isCGI :: bool
  environ :: "byte list option list option"

definition c_getc :: "FILE \<Rightarrow> int \<times> FILE" where
  "c_getc f =
     (if \<not> f_read f then (EOF_int, f\<lparr>f_err := True\<rparr>)
      else case f_back f of
        b # bs \<Rightarrow> (uint b, f\<lparr>f_back := bs\<rparr>)
      | [] \<Rightarrow> if f_pos f < length (f_bytes f) then (uint (f_bytes f ! f_pos f), f\<lparr>f_pos := f_pos f + 1\<rparr>)
              else (EOF_int, f\<lparr>f_eof := True\<rparr>))"

definition c_ungetc :: "int \<Rightarrow> FILE \<Rightarrow> int \<times> FILE" where
  "c_ungetc ch f =
     (if ch = EOF_int then (EOF_int, f)
      else (ch mod 256, f\<lparr>f_back := word_of_int ch # f_back f, f_eof := False\<rparr>))"

text \<open>At most \<open>n\<close> bytes; the flag of the second one is that the line ends with its newline.\<close>

primrec c_getn :: "nat \<Rightarrow> FILE \<Rightarrow> byte list \<times> FILE" where
  "c_getn 0 f = ([], f)"
| "c_getn (Suc n) f =
     (case c_getc f of (ch, f) \<Rightarrow>
        if ch = EOF_int then ([], f)
        else case c_getn n f of (bs, f) \<Rightarrow> (word_of_int ch # bs, f))"

primrec c_getline :: "nat \<Rightarrow> FILE \<Rightarrow> byte list \<times> FILE" where
  "c_getline 0 f = ([], f)"
| "c_getline (Suc n) f =
     (case c_getc f of (ch, f) \<Rightarrow>
        if ch = EOF_int then ([], f)
        else if ch = 10 then ([10], f)
        else case c_getline n f of (bs, f) \<Rightarrow> (word_of_int ch # bs, f))"

definition c_fgets :: "int \<Rightarrow> FILE \<Rightarrow> byte list option \<times> FILE" where
  "c_fgets n f = (case c_getline (nat (n - 1)) f of (bs, f) \<Rightarrow> (if bs = [] \<and> n \<noteq> 1 then None else Some bs, f))"

text \<open>A write goes to the position, or to the end of a file opened for appending.\<close>

definition c_put :: "byte list \<Rightarrow> FILE \<Rightarrow> bool \<times> FILE" where
  "c_put bs f =
     (if \<not> f_write f then (False, f\<lparr>f_err := True\<rparr>)
      else let pos = (if f_append f then length (f_bytes f) else f_pos f);
               old = f_bytes f @ replicate (pos - length (f_bytes f)) 0
           in (True, f\<lparr>f_bytes := take pos old @ bs @ drop (pos + length bs) old, f_pos := pos + length bs, f_back := []\<rparr>))"

definition c_fputc :: "int \<Rightarrow> FILE \<Rightarrow> int \<times> FILE" where
  "c_fputc ch f = (case c_put [word_of_int ch] f of (ok, f) \<Rightarrow> (if ok then ch mod 256 else EOF_int, f))"

definition c_fputs :: "byte list \<Rightarrow> FILE \<Rightarrow> int \<times> FILE" where
  "c_fputs str f = (case c_put (takeWhile (\<lambda>b. b \<noteq> 0) str) f of (ok, f) \<Rightarrow> (if ok then 1 else EOF_int, f))"

definition SEEK_SET :: int where "SEEK_SET = 0"
definition SEEK_CUR :: int where "SEEK_CUR = 1"
definition SEEK_END :: int where "SEEK_END = 2"

definition c_ftell :: "FILE \<Rightarrow> int" where
  "c_ftell f = int (f_pos f) - int (length (f_back f))"

definition c_fseek :: "int \<Rightarrow> int \<Rightarrow> FILE \<Rightarrow> int \<times> FILE" where
  "c_fseek offset whence f =
     (let base = (if whence = SEEK_SET then 0 else if whence = SEEK_CUR then c_ftell f else int (length (f_bytes f)))
      in if whence \<notin> {SEEK_SET, SEEK_CUR, SEEK_END} \<or> base + offset < 0 then (-1, f)
         else (0, f\<lparr>f_pos := nat (base + offset), f_back := [], f_eof := False\<rparr>))"

definition c_mode :: "string \<Rightarrow> bool \<times> bool \<times> bool" where
  "c_mode m =
     (let plus = (CHR ''+'' \<in> set m); c = (if m = [] then NUL else hd m)
      in (c = CHR ''r'' \<or> plus, c \<noteq> CHR ''r'' \<or> plus, c = CHR ''a''))"

text \<open>Opening a path: \<open>r\<close> needs the file, \<open>w\<close> empties it.\<close>

definition c_open :: "string \<Rightarrow> string \<Rightarrow> stdio_state \<Rightarrow> FILE option" where
  "c_open path mode r =
     (case paths r path of
        None \<Rightarrow> if mode \<noteq> [] \<and> hd mode = CHR ''r'' then None
                else (case c_mode mode of (rd, wr, ap) \<Rightarrow>
                  Some \<lparr>f_path = Some path, f_bytes = [], f_pos = 0, f_back = [], f_eof = False, f_err = False,
                        f_read = rd, f_write = wr, f_append = ap\<rparr>)
      | Some bs \<Rightarrow>
          (case c_mode mode of (rd, wr, ap) \<Rightarrow>
             Some \<lparr>f_path = Some path, f_bytes = (if mode \<noteq> [] \<and> hd mode = CHR ''w'' then [] else bs), f_pos = 0,
                   f_back = [], f_eof = False, f_err = False, f_read = rd, f_write = wr, f_append = ap\<rparr>))"

definition c_fopen :: "string \<Rightarrow> string \<Rightarrow> stdio_state \<Rightarrow> nat option \<times> stdio_state" where
  "c_fopen path mode r =
     (case (c_open path mode r, new_files r) of
        (Some f, h # hs) \<Rightarrow>
          (Some h, r\<lparr>c_files := (c_files r)(h := Some f), new_files := hs, opened := opened r @ [h], paths := (paths r)(path := Some (f_bytes f))\<rparr>)
      | _ \<Rightarrow> (None, r))"

definition c_sync :: "FILE \<Rightarrow> stdio_state \<Rightarrow> stdio_state" where
  "c_sync f r = (case f_path f of Some p \<Rightarrow> if f_write f then r\<lparr>paths := (paths r)(p := Some (f_bytes f))\<rparr> else r | None \<Rightarrow> r)"

text \<open>An operation on the file at an address; without a file there it is undefined.\<close>

definition on_file :: "nat \<Rightarrow> (FILE \<Rightarrow> 'a \<times> FILE) \<Rightarrow> stdio_state \<Rightarrow> ('a \<times> stdio_state) option" where
  "on_file h op r = do {
     f \<leftarrow> c_files r h;
     let (x, f) = op f;
     Some (x, r\<lparr>c_files := (c_files r)(h := Some f)\<rparr>)
   }"

definition c_fclose :: "nat \<Rightarrow> stdio_state \<Rightarrow> (int \<times> stdio_state) option" where
  "c_fclose h r = do { f \<leftarrow> c_files r h; Some (0, (c_sync f r)\<lparr>c_files := (c_files r)(h := None)\<rparr>) }"

definition c_fflush :: "nat \<Rightarrow> stdio_state \<Rightarrow> (int \<times> stdio_state) option" where
  "c_fflush h r = do { f \<leftarrow> c_files r h; Some (0, c_sync f r) }"

definition c_freopen :: "string \<Rightarrow> string \<Rightarrow> nat \<Rightarrow> stdio_state \<Rightarrow> (bool \<times> stdio_state) option" where
  "c_freopen path mode h r = do {
     (_, r) \<leftarrow> c_fclose h r;
     Some (case c_open path mode r of
        None \<Rightarrow> (False, r)
      | Some f \<Rightarrow> (True, r\<lparr>c_files := (c_files r)(h := Some f), paths := (paths r)(path := Some (f_bytes f))\<rparr>))
   }"

section \<open>Streams of the request\<close>

definition get_stream :: "which_stream \<Rightarrow> 'z FCGX_Request_scheme \<Rightarrow> FCGX_Stream option" where
  "get_stream w r = (case w of Req_in \<Rightarrow> in_stream r | Req_out \<Rightarrow> out_stream r | Req_err \<Rightarrow> err_stream r)"

definition set_stream :: "which_stream \<Rightarrow> FCGX_Stream option \<Rightarrow> 'z FCGX_Request_scheme \<Rightarrow> 'z FCGX_Request_scheme" where
  "set_stream w s r =
     (case w of Req_in \<Rightarrow> r\<lparr>in_stream := s\<rparr> | Req_out \<Rightarrow> r\<lparr>out_stream := s\<rparr> | Req_err \<Rightarrow> r\<lparr>err_stream := s\<rparr>)"

definition on_stream ::
  "which_stream \<Rightarrow> (FCGX_Stream \<Rightarrow> 'z FCGX_Request_scheme \<Rightarrow> ('a \<times> FCGX_Stream \<times> 'z FCGX_Request_scheme) option) \<Rightarrow>
   'z FCGX_Request_scheme \<Rightarrow> ('a \<times> 'z FCGX_Request_scheme) option" where
  "on_stream w op r = do { s \<leftarrow> get_stream w r; (x, s, r) \<leftarrow> op s r; Some (x, set_stream w (Some s) r) }"

section \<open>The library and the request\<close>

definition ENOMEM :: int where "ENOMEM = 12"
definition ENOTCONN :: int where "ENOTCONN = 107"
definition ESPIPE :: int where "ESPIPE = 29"

definition atoi :: "string \<Rightarrow> int" where
  "atoi s =
     (let p = dropWhile isspace s; neg = (p \<noteq> [] \<and> hd p = CHR ''-'');
          p = (if p \<noteq> [] \<and> hd p \<in> {CHR ''-'', CHR ''+''} then tl p else p);
          n = int (number (takeWhile is_digit p))
      in signed_to 32 (if neg then - n else n))"

definition OS_LibInit :: "stdio_state \<Rightarrow> int \<times> stdio_state" where
  "OS_LibInit r =
     (if os_initialized r then (0, r)
      else
        let r = (case process_env r ''LIBFCGI_OS_CLOSE_POLL_TIMEOUT'' of
                   Some s \<Rightarrow> r\<lparr>close_poll_timeout := atoi s\<rparr> | None \<Rightarrow> r);
            r = (case process_env r ''LIBFCGI_IS_AF_UNIX_KEEPER_POLL_TIMEOUT'' of
                   Some s \<Rightarrow> r\<lparr>keeper_poll_timeout := atoi s\<rparr> | None \<Rightarrow> r)
        in if table_malloc r then (0, r\<lparr>os_initialized := True\<rparr>) else (-1, r\<lparr>os_errno := ENOMEM\<rparr>))"

definition OS_IsFcgi :: "stdio_state \<Rightarrow> bool \<times> stdio_state" where
  "OS_IsFcgi r = (peer_errno r = ENOTCONN, r\<lparr>os_errno := peer_errno r\<rparr>)"

definition FCGX_Init :: "stdio_state \<Rightarrow> int \<times> stdio_state" where
  "FCGX_Init r =
     (if libInitialized r then (0, r)
      else case OS_LibInit (FCGX_InitRequest 0 0 r) of (rc, r) \<Rightarrow>
        if rc = -1 then (if os_errno r \<noteq> 0 then os_errno r else -9997, r)
        else (0, r\<lparr>webServerAddressList := process_env r ''FCGI_WEB_SERVER_ADDRS'', libInitialized := True\<rparr>))"

text \<open>\<open>Inl\<close> is that the process has ended, with that code.\<close>

definition FCGX_IsCGI :: "stdio_state \<Rightarrow> (int + bool) \<times> stdio_state" where
  "FCGX_IsCGI r =
     (if isFastCGI r \<noteq> -1 then (Inr (isFastCGI r = 0), r)
      else case (if libInitialized r then (0, r) else FCGX_Init r) of (rc, r) \<Rightarrow>
        if rc \<noteq> 0 then (Inl (if rc < 0 then rc else - rc), r)
        else case OS_IsFcgi r of (b, r) \<Rightarrow> (Inr (\<not> b), r\<lparr>isFastCGI := (if b then 1 else 0)\<rparr>))"

definition FCGX_Accept ::
  "(string \<Rightarrow> 32 word) \<Rightarrow> 64 word \<Rightarrow> 64 word \<Rightarrow> 64 word \<Rightarrow> stdio_state \<Rightarrow> (int \<times> stdio_state) option" where
  "FCGX_Accept inet_addr mb mo me r =
     (case (if libInitialized r then (0, r) else FCGX_Init r) of (rc, r) \<Rightarrow>
        if rc \<noteq> 0 then Some (rc, r) else FCGX_Accept_r inet_addr mb mo me r)"

definition FCGX_Finish :: "stdio_state \<Rightarrow> stdio_state option" where
  "FCGX_Finish r = FCGX_Finish_r r"

text \<open>The three standard files are set to the streams, or to the files of the C library.\<close>

definition bind_std :: "(nat \<Rightarrow> FCGI_FILE) \<Rightarrow> stdio_state \<Rightarrow> stdio_state" where
  "bind_std g r = r\<lparr>fcgi_files := (fcgi_files r)(0 := Some (g 0), 1 := Some (g 1), 2 := Some (g 2))\<rparr>"

definition std_stream :: "nat \<Rightarrow> which_stream" where
  "std_stream i = (if i = 0 then Req_in else if i = 1 then Req_out else Req_err)"

definition FCGI_Accept ::
  "(string \<Rightarrow> 32 word) \<Rightarrow> 64 word \<Rightarrow> 64 word \<Rightarrow> 64 word \<Rightarrow> stdio_state \<Rightarrow> ((int + int) \<times> stdio_state) option" where
  "FCGI_Accept inet_addr mb mo me r =
     (if acceptCalled r \<and> isCGI r then Some (Inr EOF_int, r)
      else case (if acceptCalled r then (Inr (isCGI r), r) else FCGX_IsCGI r) of
        (Inl code, r) \<Rightarrow> Some (Inl code, r)
      | (Inr cgi, r) \<Rightarrow>
          (let r = r\<lparr>isCGI := cgi, acceptCalled := True\<rparr>
           in if cgi then Some (Inr 0, bind_std (\<lambda>i. \<lparr>stdio_stream = Some i, fcgx_stream = None\<rparr>) r)
              else do {
                (acceptResult, r) \<leftarrow> FCGX_Accept inet_addr mb mo me r;
                if acceptResult < 0 then Some (Inr acceptResult, r)
                else Some (Inr 0,
                  (bind_std (\<lambda>i. \<lparr>stdio_stream = None, fcgx_stream = Some (std_stream i)\<rparr>) r)\<lparr>environ := Some (envp r)\<rparr>)
              }))"

definition clear_std :: "nat \<Rightarrow> stdio_state \<Rightarrow> stdio_state" where
  "clear_std i r = r\<lparr>fcgi_files := (fcgi_files r)(i := map_option (fcgx_stream_update (\<lambda>_. None)) (fcgi_files r i))\<rparr>"

definition FCGI_Finish :: "stdio_state \<Rightarrow> stdio_state option" where
  "FCGI_Finish r =
     (if \<not> acceptCalled r \<or> isCGI r then Some r
      else do {
        r \<leftarrow> FCGX_Finish r;
        Some ((clear_std 2 (clear_std 1 (clear_std 0 r)))\<lparr>environ := None\<rparr>)
      })"

section \<open>The functions of the package\<close>

text \<open>
  Every function looks where its file leads: to a file of the C library, to a stream, or nowhere.
  \<open>None\<close> is a file that was released, whose use is undefined.
\<close>

definition dispatch ::
  "nat \<Rightarrow> (nat \<Rightarrow> stdio_state \<Rightarrow> 'a option) \<Rightarrow> (which_stream \<Rightarrow> stdio_state \<Rightarrow> 'a option) \<Rightarrow>
   (stdio_state \<Rightarrow> 'a option) \<Rightarrow> stdio_state \<Rightarrow> 'a option" where
  "dispatch fp file stream neither r = do {
     f \<leftarrow> fcgi_files r fp;
     case stdio_stream f of
       Some h \<Rightarrow> file h r
     | None \<Rightarrow> (case fcgx_stream f of Some w \<Rightarrow> stream w r | None \<Rightarrow> neither r)
   }"

definition FCGI_StartFilterData :: "stdio_state \<Rightarrow> (int \<times> stdio_state) option" where
  "FCGI_StartFilterData =
     dispatch 0 (\<lambda>_ r. Some (-1, r))
       (\<lambda>w. on_stream w (\<lambda>s c. do { (n, s) \<leftarrow> StartFilterData s c; Some (n, s, c) }))
       (\<lambda>r. None)"

definition FCGI_SetExitStatus :: "int \<Rightarrow> stdio_state \<Rightarrow> stdio_state option" where
  "FCGI_SetExitStatus status r = do {
     f \<leftarrow> fcgi_files r 0;
     Some (if fcgx_stream f \<noteq> None then SetExitStatus status r else r)
   }"

definition FCGI_OpenFromFILE :: "nat option \<Rightarrow> stdio_state \<Rightarrow> nat option \<times> stdio_state" where
  "FCGI_OpenFromFILE file r =
     (case file of
        None \<Rightarrow> (None, r)
      | Some h \<Rightarrow>
          (case allocs r of
             Some fp # ms \<Rightarrow>
               (Some fp, r\<lparr>allocs := ms, fcgi_files := (fcgi_files r)(fp := Some \<lparr>stdio_stream = Some h, fcgx_stream = None\<rparr>)\<rparr>)
           | ms \<Rightarrow> (None, r\<lparr>allocs := tl ms\<rparr>)))"

text \<open>\<open>fclose\<close> is what releases the file when there is no memory for its \<open>FCGI_FILE\<close>.\<close>

definition from_opened ::
  "(nat \<Rightarrow> stdio_state \<Rightarrow> (int \<times> stdio_state) option) \<Rightarrow> nat option \<times> stdio_state \<Rightarrow>
   (nat option \<times> stdio_state) option" where
  "from_opened fclose res =
     (case res of (file, r) \<Rightarrow>
        case FCGI_OpenFromFILE file r of (fcgi_file, r) \<Rightarrow>
          case (file, fcgi_file) of
            (Some h, None) \<Rightarrow> do { (_, r) \<leftarrow> fclose h r; Some (None, r) }
          | _ \<Rightarrow> Some (fcgi_file, r))"

definition FCGI_fopen :: "string \<Rightarrow> string \<Rightarrow> stdio_state \<Rightarrow> (nat option \<times> stdio_state) option" where
  "FCGI_fopen path mode r = from_opened c_fclose (c_fopen path mode r)"

definition c_tmpfile :: "stdio_state \<Rightarrow> nat option \<times> stdio_state" where
  "c_tmpfile r =
     (case new_files r of
        [] \<Rightarrow> (None, r)
      | h # hs \<Rightarrow>
          (Some h, r\<lparr>new_files := hs, opened := opened r @ [h], c_files := (c_files r)(h := Some
             \<lparr>f_path = None, f_bytes = [], f_pos = 0, f_back = [], f_eof = False, f_err = False,
              f_read = True, f_write = True, f_append = False\<rparr>)\<rparr>))"

definition FCGI_tmpfile :: "stdio_state \<Rightarrow> (nat option \<times> stdio_state) option" where
  "FCGI_tmpfile r = from_opened c_fclose (c_tmpfile r)"

definition release :: "nat \<Rightarrow> stdio_state \<Rightarrow> stdio_state" where
  "release fp r = (if fp \<notin> {0, 1, 2} then r\<lparr>fcgi_files := (fcgi_files r)(fp := None)\<rparr> else r)"

definition point ::
  "nat \<Rightarrow> (FCGI_FILE \<Rightarrow> FCGI_FILE) \<Rightarrow> stdio_state \<Rightarrow> stdio_state" where
  "point fp g r = r\<lparr>fcgi_files := (fcgi_files r)(fp := map_option g (fcgi_files r fp))\<rparr>"

definition close_stream :: "which_stream \<Rightarrow> stdio_state \<Rightarrow> (int \<times> stdio_state) option" where
  "close_stream w = on_stream w (\<lambda>s c. do {
     (n, so, c) \<leftarrow> FCGX_FClose EmptyBuffProc (Some s) c; s \<leftarrow> so; Some (n, s, c) })"

definition FCGI_fclose :: "nat \<Rightarrow> stdio_state \<Rightarrow> (int \<times> stdio_state) option" where
  "FCGI_fclose fp r = do {
     (n, r) \<leftarrow> dispatch fp
       (\<lambda>h r. do { (n, r) \<leftarrow> c_fclose h r; Some (n, point fp (stdio_stream_update (\<lambda>_. None)) r) })
       (\<lambda>w r. do { (n, r) \<leftarrow> close_stream w r; Some (n, point fp (fcgx_stream_update (\<lambda>_. None)) r) })
       (\<lambda>r. Some (EOF_int, r)) r;
     Some (n, release fp r)
   }"

definition c_fflush_all :: "stdio_state \<Rightarrow> stdio_state" where
  "c_fflush_all r = foldl (\<lambda>r h. case c_files r h of Some f \<Rightarrow> c_sync f r | None \<Rightarrow> r) r (opened r)"

definition FCGI_fflush :: "nat option \<Rightarrow> stdio_state \<Rightarrow> (int \<times> stdio_state) option" where
  "FCGI_fflush fp r =
     (case fp of
        None \<Rightarrow> Some (0, c_fflush_all r)
      | Some fp \<Rightarrow> dispatch fp c_fflush (\<lambda>w. on_stream w (FCGX_FFlush EmptyBuffProc)) (\<lambda>r. Some (EOF_int, r)) r)"

text \<open>The result is that \<open>fp\<close> is returned, or NULL.\<close>

definition FCGI_freopen :: "string \<Rightarrow> string \<Rightarrow> nat \<Rightarrow> stdio_state \<Rightarrow> (bool \<times> stdio_state) option" where
  "FCGI_freopen path mode fp =
     dispatch fp
       (\<lambda>h. c_freopen path mode h)
       (\<lambda>w r. do {
          (_, r) \<leftarrow> close_stream w r;
          let (file, r) = c_fopen path mode r;
          let r = point fp (stdio_stream_update (\<lambda>_. file)) r;
          Some (if file = None then (False, r) else (True, point fp (fcgx_stream_update (\<lambda>_. None)) r))
        })
       (\<lambda>r. Some (False, r))"

text \<open>How the C library buffers is not part of the model of a \<open>FILE\<close>, so \<open>setvbuf\<close> changes nothing.\<close>

definition FCGI_setvbuf :: "nat \<Rightarrow> stdio_state \<Rightarrow> (int \<times> stdio_state) option" where
  "FCGI_setvbuf fp =
     dispatch fp (\<lambda>h. on_file h (\<lambda>f. (0, f))) (\<lambda>_ r. Some (-1, r)) (\<lambda>r. Some (-1, r))"

definition no_seek :: "stdio_state \<Rightarrow> (int \<times> stdio_state) option" where
  "no_seek r = Some (-1, r\<lparr>os_errno := ESPIPE\<rparr>)"

definition FCGI_fseek :: "nat \<Rightarrow> int \<Rightarrow> int \<Rightarrow> stdio_state \<Rightarrow> (int \<times> stdio_state) option" where
  "FCGI_fseek fp offset whence = dispatch fp (\<lambda>h. on_file h (c_fseek offset whence)) (\<lambda>_. no_seek) no_seek"

text \<open>\<open>FCGI_ftell\<close> returns an \<open>int\<close>, \<open>ftell\<close> a \<open>long\<close>.\<close>

definition FCGI_ftell :: "nat \<Rightarrow> stdio_state \<Rightarrow> (int \<times> stdio_state) option" where
  "FCGI_ftell fp = dispatch fp (\<lambda>h. on_file h (\<lambda>f. (signed_to 32 (c_ftell f), f))) (\<lambda>_. no_seek) no_seek"

definition c_rewind :: "FILE \<Rightarrow> FILE" where
  "c_rewind f = (snd (c_fseek 0 SEEK_SET f))\<lparr>f_err := False\<rparr>"

definition FCGI_rewind :: "nat \<Rightarrow> stdio_state \<Rightarrow> (int \<times> stdio_state) option" where
  "FCGI_rewind fp = dispatch fp (\<lambda>h. on_file h (\<lambda>f. (0, c_rewind f))) (\<lambda>_. no_seek) no_seek"

text \<open>A position of \<open>fgetpos\<close> is the offset; without a file none is stored.\<close>

definition FCGI_fgetpos :: "nat \<Rightarrow> stdio_state \<Rightarrow> ((int \<times> int option) \<times> stdio_state) option" where
  "FCGI_fgetpos fp =
     (let no = \<lambda>r. do { (n, r) \<leftarrow> no_seek r; Some ((n, None), r) }
      in dispatch fp (\<lambda>h. on_file h (\<lambda>f. ((0, Some (c_ftell f)), f))) (\<lambda>_. no) no)"

definition FCGI_fsetpos :: "nat \<Rightarrow> int \<Rightarrow> stdio_state \<Rightarrow> (int \<times> stdio_state) option" where
  "FCGI_fsetpos fp pos = dispatch fp (\<lambda>h. on_file h (c_fseek pos SEEK_SET)) (\<lambda>_. no_seek) no_seek"

definition FCGI_fgetc :: "nat \<Rightarrow> stdio_state \<Rightarrow> (int \<times> stdio_state) option" where
  "FCGI_fgetc fp =
     dispatch fp (\<lambda>h. on_file h c_getc) (\<lambda>w. on_stream w (FCGX_GetChar FillBuffProc)) (\<lambda>r. Some (EOF_int, r))"

definition FCGI_getchar :: "stdio_state \<Rightarrow> (int \<times> stdio_state) option" where
  "FCGI_getchar = FCGI_fgetc 0"

definition FCGI_ungetc :: "int \<Rightarrow> nat \<Rightarrow> stdio_state \<Rightarrow> (int \<times> stdio_state) option" where
  "FCGI_ungetc ch fp =
     dispatch fp (\<lambda>h. on_file h (c_ungetc ch))
       (\<lambda>w. on_stream w (\<lambda>s c. do { (n, s) \<leftarrow> FCGX_UnGetChar ch s; Some (n, s, c) })) (\<lambda>r. Some (EOF_int, r))"

definition FCGI_fgets :: "int \<Rightarrow> nat \<Rightarrow> stdio_state \<Rightarrow> (byte list option \<times> stdio_state) option" where
  "FCGI_fgets n fp =
     dispatch fp (\<lambda>h. on_file h (c_fgets n)) (\<lambda>w. on_stream w (FCGX_GetLine FillBuffProc n)) (\<lambda>r. Some (None, r))"

text \<open>\<open>FCGI_gets\<close> reads as long as the line is; \<open>None\<close> inside the result is NULL.\<close>

partial_function (option) gets_loop :: "byte list \<Rightarrow> stdio_state \<Rightarrow> (byte list option \<times> stdio_state) option" where
  "gets_loop s r = do {
     x \<leftarrow> FCGI_getchar r;
     if fst x = 10 then Some (Some s, snd x)
     else if fst x = EOF_int then Some (if s = [] then None else Some s, snd x)
     else gets_loop (s @ [word_of_int (fst x)]) (snd x)
   }"

definition FCGI_gets :: "stdio_state \<Rightarrow> (byte list option \<times> stdio_state) option" where
  "FCGI_gets = gets_loop []"

definition FCGI_fputc :: "int \<Rightarrow> nat \<Rightarrow> stdio_state \<Rightarrow> (int \<times> stdio_state) option" where
  "FCGI_fputc ch fp =
     dispatch fp (\<lambda>h. on_file h (c_fputc ch)) (\<lambda>w. on_stream w (FCGX_PutChar EmptyBuffProc ch)) (\<lambda>r. Some (EOF_int, r))"

definition FCGI_putchar :: "int \<Rightarrow> stdio_state \<Rightarrow> (int \<times> stdio_state) option" where
  "FCGI_putchar ch = FCGI_fputc ch 1"

definition FCGI_fputs :: "byte list \<Rightarrow> nat \<Rightarrow> stdio_state \<Rightarrow> (int \<times> stdio_state) option" where
  "FCGI_fputs str fp =
     dispatch fp (\<lambda>h. on_file h (c_fputs str)) (\<lambda>w. on_stream w (FCGX_PutS EmptyBuffProc str)) (\<lambda>r. Some (EOF_int, r))"

definition FCGI_puts :: "byte list \<Rightarrow> stdio_state \<Rightarrow> (int \<times> stdio_state) option" where
  "FCGI_puts str =
     dispatch 1
       (\<lambda>h r. do { (n, r) \<leftarrow> on_file h (c_fputs str) r; if n < 0 then Some (n, r) else on_file h (c_fputc 10) r })
       (\<lambda>w r. do { (n, r) \<leftarrow> on_stream w (FCGX_PutS EmptyBuffProc str) r;
                  if n < 0 then Some (n, r) else on_stream w (FCGX_PutChar EmptyBuffProc 10) r })
       (\<lambda>r. Some (EOF_int, r))"

text \<open>\<open>strerror\<close> gives the message of an error number.\<close>

definition FCGI_perror :: "(int \<Rightarrow> byte list) \<Rightarrow> byte list \<Rightarrow> stdio_state \<Rightarrow> stdio_state option" where
  "FCGI_perror strerror str r = do {
     (_, r) \<leftarrow> FCGI_fputs str 2 r;
     (_, r) \<leftarrow> FCGI_fputs (ascii '': '') 2 r;
     (_, r) \<leftarrow> FCGI_fputs (strerror (os_errno r)) 2 r;
     Some r
   }"

text \<open>
  \<open>vfprintf\<close> gives the text the C library prints for a format and its arguments.  The result
  carries the values stored for \<open>%n\<close> on a stream.
\<close>

definition c_vfprintf :: "(string \<Rightarrow> 'a va list \<Rightarrow> byte list) \<Rightarrow> string \<Rightarrow> 'a va list \<Rightarrow> FILE \<Rightarrow> int \<times> FILE" where
  "c_vfprintf vfprintf format args f =
     (case c_put (vfprintf format args) f of (ok, f) \<Rightarrow> (if ok then int (length (vfprintf format args)) else -1, f))"

definition print_stream where
  "print_stream fd fexp format args w = on_stream w (\<lambda>s c. do {
     (n, _, s, c) \<leftarrow> FCGX_VFPrintF fd fexp EmptyBuffProc format args s c; Some (n, s, c) })"

definition FCGI_vfprintf where
  "FCGI_vfprintf vfprintf fd fexp fp format args =
     dispatch fp (\<lambda>h. on_file h (c_vfprintf vfprintf format args)) (print_stream fd fexp format args)
       (\<lambda>r. Some (EOF_int, r))"

definition FCGI_fprintf where
  "FCGI_fprintf vfprintf fd fexp fp format args =
     dispatch fp (\<lambda>h. on_file h (c_vfprintf vfprintf format args)) (print_stream fd fexp format args)
       (\<lambda>r. Some (0, r))"

definition FCGI_vprintf where
  "FCGI_vprintf vfprintf fd fexp format args =
     dispatch 1 (\<lambda>h. on_file h (c_vfprintf vfprintf format args)) (print_stream fd fexp format args)
       (\<lambda>r. Some (EOF_int, r))"

definition FCGI_printf where
  "FCGI_printf vfprintf fd fexp format args = FCGI_vfprintf vfprintf fd fexp 1 format args"

text \<open>
  \<open>FCGI_fread\<close> and \<open>FCGI_fwrite\<close>.  The product of the sizes is a \<open>size_t\<close> that becomes the \<open>int\<close> of the
  stream operations; the \<open>int\<close> they return becomes a \<open>size_t\<close> again.  A negative number of bytes to
  write reads beyond the array.  The bytes behind \<open>ptr\<close> of a write are \<open>bs\<close>, of which there are
  \<open>size * nmemb\<close>.
\<close>

definition size_of_int :: "int \<Rightarrow> nat" where
  "size_of_int n = nat (n mod 2 ^ 64)"

definition byte_count :: "nat \<Rightarrow> nat \<Rightarrow> nat" where
  "byte_count sz nmemb = sz * nmemb mod 2 ^ 64"

definition c_fread :: "nat \<Rightarrow> nat \<Rightarrow> FILE \<Rightarrow> (nat \<times> byte list) \<times> FILE" where
  "c_fread sz nmemb f =
     (if sz = 0 \<or> nmemb = 0 then ((0, []), f)
      else case c_getn (sz * nmemb) f of (bs, f) \<Rightarrow> ((length bs div sz, bs), f))"

definition FCGI_fread :: "nat \<Rightarrow> nat \<Rightarrow> nat \<Rightarrow> stdio_state \<Rightarrow> ((nat \<times> byte list) \<times> stdio_state) option" where
  "FCGI_fread sz nmemb fp =
     dispatch fp (\<lambda>h. on_file h (c_fread sz nmemb))
       (\<lambda>w r. if byte_count sz nmemb = 0 then Some ((0, []), r)
              else do {
                (bs, r) \<leftarrow> on_stream w (FCGX_GetStr FillBuffProc (signed_to 32 (int (byte_count sz nmemb)))) r;
                Some ((length bs div sz, bs), r)
              })
       (\<lambda>r. Some ((size_of_int EOF_int, []), r))"

definition c_fwrite :: "byte list \<Rightarrow> nat \<Rightarrow> nat \<Rightarrow> FILE \<Rightarrow> nat \<times> FILE" where
  "c_fwrite bs sz nmemb f =
     (if sz = 0 \<or> nmemb = 0 then (0, f)
      else case c_put bs f of (ok, f) \<Rightarrow> (if ok then nmemb else 0, f))"

definition FCGI_fwrite :: "byte list \<Rightarrow> nat \<Rightarrow> nat \<Rightarrow> nat \<Rightarrow> stdio_state \<Rightarrow> (nat \<times> stdio_state) option" where
  "FCGI_fwrite bs sz nmemb fp =
     dispatch fp (\<lambda>h. on_file h (c_fwrite bs sz nmemb))
       (\<lambda>w r. if byte_count sz nmemb = 0 then Some (0, r)
              else let n = signed_to 32 (int (byte_count sz nmemb))
                   in if n < 0 then None
                      else do {
                        (n, r) \<leftarrow> on_stream w (FCGX_PutStr EmptyBuffProc (take (nat n) bs)) r;
                        Some (size_of_int n div sz, r)
                      })
       (\<lambda>r. Some (size_of_int EOF_int, r))"

definition FCGI_feof :: "nat \<Rightarrow> stdio_state \<Rightarrow> (int \<times> stdio_state) option" where
  "FCGI_feof fp =
     dispatch fp (\<lambda>h. on_file h (\<lambda>f. (if f_eof f then 1 else 0, f)))
       (\<lambda>w. on_stream w (\<lambda>s c. Some (FCGX_HasSeenEOF s, s, c))) (\<lambda>r. Some (-1, r))"

definition FCGI_ferror :: "nat \<Rightarrow> stdio_state \<Rightarrow> (int \<times> stdio_state) option" where
  "FCGI_ferror fp =
     dispatch fp (\<lambda>h. on_file h (\<lambda>f. (if f_err f then 1 else 0, f)))
       (\<lambda>w. on_stream w (\<lambda>s c. Some (FCGX_GetError s, s, c))) (\<lambda>r. Some (-1, r))"

definition FCGI_clearerr :: "nat \<Rightarrow> stdio_state \<Rightarrow> (unit \<times> stdio_state) option" where
  "FCGI_clearerr fp =
     dispatch fp (\<lambda>h. on_file h (\<lambda>f. ((), f\<lparr>f_eof := False, f_err := False\<rparr>)))
       (\<lambda>w. on_stream w (\<lambda>s c. Some ((), FCGX_ClearError s, c))) (\<lambda>r. Some ((), r))"

text \<open>
  Files made of descriptors and of processes: \<open>fdopen\<close>, \<open>popen\<close>, \<open>pclose\<close> and \<open>fileno\<close> are those of
  the C library.
\<close>

definition FCGI_fileno :: "(nat \<Rightarrow> int) \<Rightarrow> nat \<Rightarrow> stdio_state \<Rightarrow> (int \<times> stdio_state) option" where
  "FCGI_fileno fileno fp =
     dispatch fp (\<lambda>h. on_file h (\<lambda>f. (fileno h, f))) (\<lambda>_ r. Some (ipcFd r, r)) (\<lambda>r. Some (-1, r))"

definition FCGI_fdopen ::
  "(int \<Rightarrow> string \<Rightarrow> stdio_state \<Rightarrow> nat option \<times> stdio_state) \<Rightarrow> int \<Rightarrow> string \<Rightarrow> stdio_state \<Rightarrow>
   (nat option \<times> stdio_state) option" where
  "FCGI_fdopen fdopen fd mode r = from_opened c_fclose (fdopen fd mode r)"

definition FCGI_popen ::
  "(string \<Rightarrow> string \<Rightarrow> stdio_state \<Rightarrow> nat option \<times> stdio_state) \<Rightarrow>
   (nat \<Rightarrow> stdio_state \<Rightarrow> (int \<times> stdio_state) option) \<Rightarrow> string \<Rightarrow> string \<Rightarrow> stdio_state \<Rightarrow>
   (nat option \<times> stdio_state) option" where
  "FCGI_popen popen pclose cmd typ r = from_opened pclose (popen cmd typ r)"

definition FCGI_pclose ::
  "(nat \<Rightarrow> stdio_state \<Rightarrow> (int \<times> stdio_state) option) \<Rightarrow> nat \<Rightarrow> stdio_state \<Rightarrow> (int \<times> stdio_state) option" where
  "FCGI_pclose pclose fp =
     dispatch fp
       (\<lambda>h r. do { (n, r) \<leftarrow> pclose h r; Some (n, release fp (point fp (stdio_stream_update (\<lambda>_. None)) r)) })
       (\<lambda>_ r. Some (EOF_int, r))
       (\<lambda>r. Some (EOF_int, release fp r))"

end
