(* ===== verification/Executor.thy ===== *)
theory Executor
  imports Fcgi_Stdio Mpart_Body Fpm
begin

text \<open>
  \<open>hvml-executor.c\<close>: a worker accepts requests through \<open>fcgi_stdio.c\<close>, makes the variables of a
  program from the environment and the body, runs the program named by \<open>SCRIPT_FILENAME\<close> and
  writes what comes out of it.  The PurC library is the parameter \<open>P\<close>, the rest of
  the platform the parameter \<open>L\<close>.
\<close>

section \<open>The interpreter and the platform\<close>

text \<open>What \<open>purc_run\<close> reports to its handler: a run of a coroutine, its exit and its termination.\<close>

datatype ('c, 'o, 'v) cond =
  One_run 'c nat
| Cor_exited 'c 'o 'v
| Cor_terminated 'c 'o

text \<open>
  The functions of PurC.  An invalid variant and a null pointer are \<open>None\<close>.  \<open>json_load\<close> gets the
  callback that reads from the stream.  \<open>purc_run\<close> gives the events it reports, in order, and its
  result.  The serialisers give the pieces they hand to the callback that writes.
\<close>

record ('v, 'd, 'c, 'o, 'p) runtime = "'v purc" +
  new_ulongint :: "nat \<Rightarrow> 'v option"
  new_string :: "string \<Rightarrow> 'v option"
  set_ckey :: "'v \<Rightarrow> string \<Rightarrow> 'v \<Rightarrow> 'v option"
  string_const :: "'v option \<Rightarrow> string option"
  to_uint32 :: "'v option \<Rightarrow> nat option"
  query_object :: "string \<Rightarrow> bool \<Rightarrow> 'v option"
  reuse_buff :: "byte list \<Rightarrow> 'v option"
  json_load :: "(nat \<Rightarrow> stdio_state \<Rightarrow> ((int \<times> byte list) \<times> stdio_state) option) \<Rightarrow>
     stdio_state \<Rightarrow> ('v option \<times> stdio_state) option"
  unite :: "'v \<Rightarrow> 'v \<Rightarrow> 'v option"
  load_hvml :: "string option \<Rightarrow> 'd option"
  init_ex :: "string \<Rightarrow> string \<Rightarrow> 'p option"
  new_stream :: "nat \<Rightarrow> bool"
  schedule_vdom :: "'d \<Rightarrow> 'v option \<Rightarrow> 'p \<Rightarrow> 'c option \<times> 'p"
  bind_variable :: "'c \<Rightarrow> string \<Rightarrow> 'v option \<Rightarrow> 'p \<Rightarrow> bool \<times> 'p"
  purc_run :: "'p \<Rightarrow> ('c, 'o, 'v) cond list \<times> int \<times> 'p"
  is_html :: "'o \<Rightarrow> bool"
  array_items :: "'v \<Rightarrow> 'v list option"
  bytes_const :: "'v \<Rightarrow> byte list option"
  serialize_doc :: "'o \<Rightarrow> byte list list"
  serialize :: "'v \<Rightarrow> byte list list"
  dump_stack :: "'c \<Rightarrow> byte list list"

text \<open>
  The platform: \<open>inet_addr\<close>, the addresses of the buffers of the three streams, the formatting of the C library, whether
  \<open>malloc\<close> gives a block of a size, the token scanners of PurC (offset and length of the token), the process id.
\<close>

record 'f platform =
  resolve :: "string \<Rightarrow> 32 word"
  block_in :: "64 word"
  block_out :: "64 word"
  block_err :: "64 word"
  vformat :: "string \<Rightarrow> 'f va list \<Rightarrow> byte list"
  format_double :: "string \<Rightarrow> 'f \<Rightarrow> string"
  exponent :: "'f \<Rightarrow> int"
  has_memory :: "nat \<Rightarrow> bool"
  next_token :: "string \<Rightarrow> string \<Rightarrow> nat \<times> nat"
  next_token_len :: "string \<Rightarrow> nat \<Rightarrow> string \<Rightarrow> nat \<times> nat"
  getpid :: int

text \<open>The state of a worker: its streams and files, the temporary files of uploads, the interpreter.\<close>

record 'p worker =
  wio :: stdio_state
  tmp_files :: "(string option \<times> bool) list"
  saved :: "string \<rightharpoonup> string"
  room :: nat
  interp :: 'p

definition on_io :: "(stdio_state \<Rightarrow> ('a \<times> stdio_state) option) \<Rightarrow> 'p worker \<Rightarrow> ('a \<times> 'p worker) option" where
  "on_io f e = do { (x, r) \<leftarrow> f (wio e); Some (x, e\<lparr>wio := r\<rparr>) }"

definition chars :: "byte list \<Rightarrow> string" where
  "chars bs = map (\<lambda>b. char_of (unat b)) bs"

text \<open>\<open>fprintf (stdout, ...)\<close> and \<open>printf\<close> of \<open>fcgi_stdio.h\<close>.\<close>

definition put_line :: "'f platform \<Rightarrow> string \<Rightarrow> 'f va list \<Rightarrow> 'p worker \<Rightarrow> 'p worker option" where
  "put_line L format args e = do {
     (_, e) \<leftarrow> on_io (FCGI_fprintf (vformat L) (format_double L) (exponent L) 1 format args) e;
     Some e
   }"

section \<open>Content types\<close>

datatype post_content_type =
  CT_BAD | CT_NOT_SUPPORTED | CT_FORM_URLENCODED | CT_FORM_DATA | CT_JSON | CT_XML | CT_PLAIN

definition strcasecmp_eq :: "string \<Rightarrow> string \<Rightarrow> bool" where
  "strcasecmp_eq s t \<longleftrightarrow> map tolower s = map tolower t"

text \<open>
  \<open>strncasecmp2ltr\<close> of the text at position \<open>p\<close> of \<open>s\<close>, compared with zero: a text of another length
  is not looked at.  Beyond the NUL at the end there is nothing to look at.
\<close>

definition eq_ltr :: "string \<Rightarrow> nat \<Rightarrow> int \<Rightarrow> string \<Rightarrow> bool option" where
  "eq_ltr s p len ltr =
     (if len mod 2 ^ 64 \<noteq> int (length ltr) then Some False
      else if length s < p then None
      else Some (strcasecmp_eq (take (length ltr) (drop p s)) ltr))"

text \<open>The parameter behind the media type, at position \<open>p\<close>: what is printed, or the boundary.\<close>

definition content_param ::
  "'f platform \<Rightarrow> string \<Rightarrow> nat \<Rightarrow> nat \<Rightarrow> (string option + string option) option" where
  "content_param L s mime_len p =
     (if length s < p then None
      else
        let (k, key_len) = next_token L (drop p s) '' =''; extkv = p + k
        in if key_len = 0 \<or> drop (extkv + key_len) s = [] \<or> s ! (extkv + key_len) \<noteq> CHR ''=''
           then Some (Inl (Some (drop extkv s)))
           else do {
             charset \<leftarrow> eq_ltr s extkv (int key_len) ''charset'';
             boundary \<leftarrow> eq_ltr s extkv (int key_len) ''boundary'';
             let val = extkv + key_len + 1;
             if charset then do {
               utf8 \<leftarrow> eq_ltr s val (int mime_len - int key_len - 1) ''utf-8'';
               Some (if utf8 then Inr None else Inl None)
             }
             else Some (Inr (if boundary then Some (drop val s) else None))
           })"

text \<open>The media type at position \<open>m\<close>.\<close>

definition media_type :: "'f platform \<Rightarrow> string \<Rightarrow> nat \<Rightarrow> nat \<Rightarrow> post_content_type option" where
  "media_type L s m mime_len =
     (let (t, type_len) = next_token_len L (drop m s) mime_len [CHR 0x2F]; mtype = m + t
      in if type_len = 0 \<or> type_len = mime_len then Some CT_BAD
         else
           let subtype = mtype + type_len + 1; is = eq_ltr s subtype (int mime_len - int type_len - 1)
           in do {
             application \<leftarrow> eq_ltr s mtype (int type_len) ''application'';
             multipart \<leftarrow> eq_ltr s mtype (int type_len) ''multipart'';
             txt \<leftarrow> eq_ltr s mtype (int type_len) ''text'';
             if application then do {
               form \<leftarrow> is ''x-www-form-urlencoded'';
               json \<leftarrow> is ''json'';
               Some (if form then CT_FORM_URLENCODED else if json then CT_JSON else CT_NOT_SUPPORTED)
             }
             else do {
               form \<leftarrow> (if multipart then is ''form-data'' else Some False);
               if form then Some CT_FORM_DATA
               else if txt then do {
                 xml \<leftarrow> is ''xml'';
                 plain \<leftarrow> is ''plain'';
                 Some (if xml then CT_XML else if plain then CT_PLAIN else CT_NOT_SUPPORTED)
               }
               else Some CT_NOT_SUPPORTED
             }
           })"

text \<open>The result: the content type, the boundary, and what is printed on the way.\<close>

definition check_post_content_type ::
  "'f platform \<Rightarrow> string \<Rightarrow> (post_content_type \<times> string option \<times> string option) option" where
  "check_post_content_type L s =
     (let (m, mime_len) = next_token L s '';''
      in if mime_len = 0 then Some (CT_BAD, None, None)
         else do {
           param \<leftarrow> (if mime_len < length s then content_param L s mime_len (m + mime_len + 1) else Some (Inr None));
           case param of
             Inl printed \<Rightarrow> Some (CT_BAD, None, printed)
           | Inr boundary \<Rightarrow> do { ct \<leftarrow> media_type L s m mime_len; Some (ct, boundary, None) }
         })"

section \<open>The body\<close>

definition read_content :: "'f platform \<Rightarrow> nat \<Rightarrow> 'p worker \<Rightarrow> (byte list option \<times> 'p worker) option" where
  "read_content L content_length e =
     (if \<not> has_memory L (content_length + 1) then Some (None, e)
      else do {
        ((n, bs), e) \<leftarrow> on_io (FCGI_fread 1 content_length 0) e;
        Some (if n = content_length then Some bs else None, e)
      })"

definition parse_content_as_form_urlencoded ::
  "('v, 'd, 'c, 'o, 'p) runtime \<Rightarrow> 'f platform \<Rightarrow> nat \<Rightarrow> 'p worker \<Rightarrow> ('v option \<times> 'p worker) option" where
  "parse_content_as_form_urlencoded P L content_length e = do {
     (buf, e) \<leftarrow> read_content L content_length e;
     Some (case buf of None \<Rightarrow> None | Some bs \<Rightarrow> query_object P (cstr (chars bs)) True, e)
   }"

definition parse_content_as_plain ::
  "('v, 'd, 'c, 'o, 'p) runtime \<Rightarrow> 'f platform \<Rightarrow> nat \<Rightarrow> 'p worker \<Rightarrow> ('v option \<times> 'p worker) option" where
  "parse_content_as_plain P L content_length e = do {
     (buf, e) \<leftarrow> read_content L content_length e;
     Some (case buf of None \<Rightarrow> None | Some bs \<Rightarrow> reuse_buff P bs, e)
   }"

definition cb_stdio_read :: "nat \<Rightarrow> stdio_state \<Rightarrow> ((int \<times> byte list) \<times> stdio_state) option" where
  "cb_stdio_read count r = do {
     ((n, bs), r) \<leftarrow> FCGI_fread 1 count 0 r;
     Some ((signed_to 64 (int n), bs), r)
   }"

definition cb_stdio_write :: "byte list \<Rightarrow> stdio_state \<Rightarrow> (int \<times> stdio_state) option" where
  "cb_stdio_write bs r = do { (n, r) \<leftarrow> FCGI_fwrite bs 1 (length bs) 1 r; Some (signed_to 64 (int n), r) }"

definition parse_content_as_json ::
  "('v, 'd, 'c, 'o, 'p) runtime \<Rightarrow> 'p worker \<Rightarrow> ('v option \<times> 'p worker) option" where
  "parse_content_as_json P e = (if new_stream P 0 then on_io (json_load P cb_stdio_read) e else Some (None, e))"

text \<open>
  A form is read by \<open>mpart-body-processor.c\<close> from the standard input of the C library, in steps of
  256 bytes, the last one of which may not have been taken by the parser.
\<close>

definition parse_form ::
  "('v, 'd, 'c, 'o, 'p) runtime \<Rightarrow> string \<Rightarrow> 'p worker \<Rightarrow> (('v \<times> 'v) \<times> 'p worker) option" where
  "parse_form P boundary e = do {
     f \<leftarrow> c_files (wio e) 0;
     let inp = chars (fst (c_getn (length (f_back f) + length (f_bytes f)) f));
     (nr, p, d) \<leftarrow> body_loop (purc.truncate P) inp (multipart_parser_init boundary)
        (new_processor (purc.truncate P) (tmp_files e) (saved e) (room e)) 0;
     Some ((post d, files d),
       e\<lparr>wio := (wio e)\<lparr>c_files := (c_files (wio e))(0 := Some (snd (c_getn (nr + 256) f)))\<rparr>,
         tmp_files := mkstemps d, saved := disk d, room := space d\<rparr>)
   }"

section \<open>The variables of a request\<close>

datatype value_type = VT_STRING | VT_ULONG

definition meta_vars :: "(string \<times> value_type) list" where
  "meta_vars =
     [(''AUTH_TYPE'', VT_STRING), (''CONTENT_LENGTH'', VT_ULONG), (''CONTENT_TYPE'', VT_STRING),
      (''GATEWAY_INTERFACE'', VT_STRING), (''PATH_INFO'', VT_STRING), (''PATH_TRANSLATED'', VT_STRING),
      (''QUERY_STRING'', VT_STRING), (''REMOTE_ADDR'', VT_STRING), (''REMOTE_HOST'', VT_STRING),
      (''REMOTE_IDENT'', VT_STRING), (''REMOTE_USER'', VT_STRING), (''REQUEST_METHOD'', VT_STRING),
      (''SCRIPT_NAME'', VT_STRING), (''SERVER_NAME'', VT_STRING), (''SERVER_PORT'', VT_ULONG),
      (''SERVER_PROTOCOL'', VT_STRING), (''SERVER_SOFTWARE'', VT_STRING), (''HTTP_COOKIE'', VT_STRING),
      (''HTTP_HOST'', VT_STRING), (''HTTP_REFERER'', VT_STRING), (''HTTP_USER_AGENT'', VT_STRING),
      (''DOCUMENT_ROOT'', VT_STRING), (''REMOTE_PORT'', VT_ULONG), (''HTTPS'', VT_STRING),
      (''REQUEST_URI'', VT_STRING), (''SCRIPT_FILENAME'', VT_STRING), (''SERVER_ADMIN'', VT_STRING),
      (''HTTP_AUTHORIZATION'', VT_STRING)]"

text \<open>\<open>getenv\<close> on the entries of \<open>environ\<close>, and \<open>strtoul\<close> to the base 10.\<close>

definition getenv :: "stdio_state \<Rightarrow> string \<Rightarrow> string option" where
  "getenv r name = (case environ r of None \<Rightarrow> None | Some es \<Rightarrow> map_option chars (FCGX_GetParam (ascii name) es))"

definition ULONG_MAX :: nat where "ULONG_MAX = 2 ^ 64 - 1"

definition strtoul :: "string \<Rightarrow> nat" where
  "strtoul s =
     (let p = dropWhile isspace s; neg = (p \<noteq> [] \<and> hd p = CHR ''-'');
          p = (if p \<noteq> [] \<and> hd p \<in> {CHR ''-'', CHR ''+''} then tl p else p);
          n = number (takeWhile is_digit p)
      in if ULONG_MAX < n then ULONG_MAX else if neg then nat (- int n mod 2 ^ 64) else n)"

record ('v, 'd) request_info =
  i_server :: "'v option"
  i_get :: "'v option"
  i_post :: "'v option"
  i_cookie :: "'v option"
  i_files :: "'v option"
  i_request :: "'v option"
  i_vdom :: "'d option"

definition no_request :: "('v, 'd) request_info" where
  "no_request = \<lparr>i_server = None, i_get = None, i_post = None, i_cookie = None, i_files = None, i_request = None, i_vdom = None\<rparr>"

text \<open>The object \<open>_SERVER\<close>; \<open>None\<close> is \<open>goto failed\<close>.\<close>

primrec server_loop ::
  "('v, 'd, 'c, 'o, 'p) runtime \<Rightarrow> (string \<Rightarrow> string option) \<Rightarrow> (string \<times> value_type) list \<Rightarrow> 'v \<Rightarrow> 'v option" where
  "server_loop P env [] server = Some server"
| "server_loop P env (var # vars) server =
     (let (name, ty) = var;
          tmp = (case env name of
                   Some val \<Rightarrow> Some (if ty = VT_ULONG then new_ulongint P (strtoul val) else new_string P val)
                 | None \<Rightarrow> if ty = VT_ULONG then Some (new_ulongint P 0) else None)
      in case tmp of
           None \<Rightarrow> server_loop P env vars server
         | Some None \<Rightarrow> None
         | Some (Some v) \<Rightarrow> do { server \<leftarrow> set_ckey P server name v; server_loop P env vars server })"

text \<open>The parts of \<open>make_request\<close>: the flag is that it goes on.\<close>

definition server_var :: "('v, 'd, 'c, 'o, 'p) runtime \<Rightarrow> ('v, 'd) request_info \<Rightarrow> string \<Rightarrow> string option" where
  "server_var P info name = string_const P (do { s \<leftarrow> i_server info; object_get P s name })"

definition query_part ::
  "('v, 'd, 'c, 'o, 'p) runtime \<Rightarrow> ('v, 'd) request_info \<Rightarrow> bool \<times> ('v, 'd) request_info" where
  "query_part P info =
     (case server_var P info ''QUERY_STRING'' of
        None \<Rightarrow> (True, info)
      | Some query \<Rightarrow> (let v = query_object P query True in (v \<noteq> None, info\<lparr>i_get := v\<rparr>)))"

definition body_part ::
  "('v, 'd, 'c, 'o, 'p) runtime \<Rightarrow> 'f platform \<Rightarrow> post_content_type \<Rightarrow> string option \<Rightarrow> nat \<Rightarrow>
   ('v, 'd) request_info \<Rightarrow> 'p worker \<Rightarrow> ((bool \<times> ('v, 'd) request_info) \<times> 'p worker) option" where
  "body_part P L ct boundary content_length info e =
     (case ct of
        CT_BAD \<Rightarrow> Some ((False, info), e)
      | CT_NOT_SUPPORTED \<Rightarrow> Some ((False, info), e)
      | CT_FORM_URLENCODED \<Rightarrow> do {
          (v, e) \<leftarrow> parse_content_as_form_urlencoded P L content_length e; Some ((True, info\<lparr>i_post := v\<rparr>), e) }
      | CT_FORM_DATA \<Rightarrow>
          (case boundary of
             None \<Rightarrow> Some ((False, info), e)
           | Some b \<Rightarrow> do {
               e \<leftarrow> put_line L (''boundary: %s'' @ [CHR 0x0A]) [A_str (Some b)] e;
               ((ps, fs), e) \<leftarrow> parse_form P b e;
               Some ((True, info\<lparr>i_post := Some ps, i_files := Some fs\<rparr>), e)
             })
      | CT_JSON \<Rightarrow> do { (v, e) \<leftarrow> parse_content_as_json P e; Some ((True, info\<lparr>i_post := v\<rparr>), e) }
      | CT_XML \<Rightarrow> do {
          (v, e) \<leftarrow> parse_content_as_plain P L content_length e; Some ((True, info\<lparr>i_post := v\<rparr>), e) }
      | CT_PLAIN \<Rightarrow> do {
          (v, e) \<leftarrow> parse_content_as_plain P L content_length e; Some ((True, info\<lparr>i_post := v\<rparr>), e) })"

text \<open>A content length that cannot be cast leaves \<open>tmp\<close> without a value.\<close>

definition post_part ::
  "('v, 'd, 'c, 'o, 'p) runtime \<Rightarrow> 'f platform \<Rightarrow> ('v, 'd) request_info \<Rightarrow> 'p worker \<Rightarrow>
   ((bool \<times> ('v, 'd) request_info) \<times> 'p worker) option" where
  "post_part P L info e = do {
     content_length \<leftarrow> to_uint32 P (do { s \<leftarrow> i_server info; object_get P s ''CONTENT_LENGTH'' });
     case (content_length, server_var P info ''CONTENT_TYPE'') of
       (Suc _, Some content_type) \<Rightarrow> do {
         (ct, boundary, printed) \<leftarrow> check_post_content_type L content_type;
         e \<leftarrow> (case printed of
                None \<Rightarrow> Some e
              | Some extkv \<Rightarrow> put_line L (''No extra key value pair: %s'' @ [CHR 0x0A]) [A_str (Some extkv)] e);
         body_part P L ct boundary content_length info e
       }
     | _ \<Rightarrow> Some ((True, info), e)
   }"

definition or_empty :: "('v, 'd, 'c, 'o, 'p) runtime \<Rightarrow> 'v option \<Rightarrow> 'v option" where
  "or_empty P v = (case v of None \<Rightarrow> Some (make_object_0 P) | Some _ \<Rightarrow> v)"

definition united :: "('v, 'd, 'c, 'o, 'p) runtime \<Rightarrow> 'v \<Rightarrow> 'v option \<Rightarrow> 'v" where
  "united P obj src = (case src of None \<Rightarrow> obj | Some v \<Rightarrow> (case unite P obj v of None \<Rightarrow> obj | Some w \<Rightarrow> w))"

definition complete_request ::
  "('v, 'd, 'c, 'o, 'p) runtime \<Rightarrow> ('v, 'd) request_info \<Rightarrow> (bool \<times> ('v, 'd) request_info) option" where
  "complete_request P info = do {
     info \<leftarrow> (case server_var P info ''HTTP_COOKIE'' of
        None \<Rightarrow> Some info
      | Some cookie \<Rightarrow> do {
          v \<leftarrow> purc_make_object_from_http_header_value (purc.truncate P) cookie;
          Some (info\<lparr>i_cookie := Some v\<rparr>)
        });
     let info = info\<lparr>i_get := or_empty P (i_get info), i_post := or_empty P (i_post info),
                     i_cookie := or_empty P (i_cookie info), i_files := or_empty P (i_files info)\<rparr>;
     let request = united P (united P (united P (make_object_0 P) (i_get info)) (i_post info)) (i_cookie info);
     let vdom = load_hvml P (server_var P info ''SCRIPT_FILENAME'');
     Some (vdom \<noteq> None, info\<lparr>i_request := Some request, i_vdom := vdom\<rparr>)
   }"

definition release_request :: "('v, 'd) request_info \<Rightarrow> ('v, 'd) request_info" where
  "release_request info = no_request"

text \<open>Without a request method \<open>strcasecmp\<close> follows a null pointer.\<close>

definition make_request ::
  "('v, 'd, 'c, 'o, 'p) runtime \<Rightarrow> 'f platform \<Rightarrow> 'p worker \<Rightarrow> ((int \<times> ('v, 'd) request_info) \<times> 'p worker) option" where
  "make_request P L e =
     (case server_loop P (getenv (wio e)) meta_vars (make_object_0 P) of
        None \<Rightarrow> Some ((-1, release_request no_request), e)
      | Some server \<Rightarrow> do {
          let info = no_request\<lparr>i_server := Some server\<rparr>;
          method \<leftarrow> server_var P info ''REQUEST_METHOD'';
          ((go, info), e) \<leftarrow>
            (if strcasecmp_eq method ''GET'' then Some (query_part P info, e)
             else if strcasecmp_eq method ''POST'' then post_part P L info e
             else Some ((True, info), e));
          if \<not> go then Some ((-1, release_request info), e)
          else do {
            (go, info) \<leftarrow> complete_request P info;
            Some (if go then (0, info) else (-1, release_request info), e)
          }
        })"

section \<open>Responses\<close>

definition CRLF2 :: string where
  "CRLF2 = [CHR 0x0D, CHR 0x0A, CHR 0x0D, CHR 0x0A]"

definition html_header :: string where
  "html_header = ''Content-Type: text'' @ [CHR 0x2F] @ ''html'' @ CRLF2"

definition json_header :: string where
  "json_header = ''Content-Type: application'' @ [CHR 0x2F] @ ''json'' @ CRLF2"

text \<open>The page of an error, with its title.\<close>

definition error_page :: "string \<Rightarrow> string" where
  "error_page title =
     ''<html><body><h1>'' @ title @ ''<'' @ [CHR 0x2F] @ ''h1><'' @ [CHR 0x2F] @ ''body><'' @ [CHR 0x2F] @ ''html>''"

definition send_resp :: "'f platform \<Rightarrow> int \<Rightarrow> 'p worker \<Rightarrow> 'p worker option" where
  "send_resp L status_code e =
     (if status_code = 400 then do {
        e \<leftarrow> put_line L html_header [] e;
        put_line L (error_page ''Bad Request'') [] e
      }
      else if status_code = 500 then do {
        e \<leftarrow> put_line L html_header [] e;
        put_line L (error_page ''Internal Server Error'') [] e
      }
      else Some e)"

primrec write_chunks :: "byte list list \<Rightarrow> 'p worker \<Rightarrow> 'p worker option" where
  "write_chunks [] e = Some e"
| "write_chunks (bs # bss) e = do { (_, e) \<leftarrow> on_io (cb_stdio_write bs) e; write_chunks bss e }"

text \<open>The items of a result; a string is written without its NUL.\<close>

definition content_of :: "('v, 'd, 'c, 'o, 'p) runtime \<Rightarrow> 'v \<Rightarrow> byte list \<Rightarrow> byte list" where
  "content_of P item bs = (if string_const P (Some item) \<noteq> None then butlast bs else bs)"

definition write_item :: "('v, 'd, 'c, 'o, 'p) runtime \<Rightarrow> 'v \<Rightarrow> 'p worker \<Rightarrow> 'p worker option" where
  "write_item P item e =
     (case bytes_const P item of
        Some (b # bs) \<Rightarrow> do {
          (_, e) \<leftarrow> on_io (FCGI_fwrite (content_of P item (b # bs)) (length (content_of P item (b # bs))) 1 1) e;
          Some e
        }
      | _ \<Rightarrow> Some e)"

primrec write_items :: "('v, 'd, 'c, 'o, 'p) runtime \<Rightarrow> 'v list \<Rightarrow> 'p worker \<Rightarrow> 'p worker option" where
  "write_items P [] e = Some e"
| "write_items P (item # items) e = do { e \<leftarrow> write_item P item e; write_items P items e }"

definition prog_cond_handler ::
  "('v, 'd, 'c, 'o, 'p) runtime \<Rightarrow> 'f platform \<Rightarrow> bool \<Rightarrow> 'c \<Rightarrow> ('c, 'o, 'v) cond \<Rightarrow> 'p worker \<Rightarrow> 'p worker option" where
  "prog_cond_handler P L verbose main_crtn event e =
     (case event of
        One_run cor idx \<Rightarrow> Some e
      | Cor_exited cor doc result \<Rightarrow>
          if \<not> verbose \<or> cor \<noteq> main_crtn then Some e
          else if is_html P doc then do {
            e \<leftarrow> put_line L html_header [] e;
            write_chunks (serialize_doc P doc) e
          }
          else (case array_items P result of
              Some (item # items) \<Rightarrow> write_items P (item # items) e
            | _ \<Rightarrow> do {
                e \<leftarrow> put_line L json_header [] e;
                write_chunks (serialize P result) e
              })
      | Cor_terminated cor doc \<Rightarrow> do {
          e \<leftarrow> (if is_html P doc then do {
                  e \<leftarrow> put_line L html_header [] e;
                  write_chunks (serialize_doc P doc) e
                }
                else Some e);
          if verbose then do {
            e \<leftarrow> put_line L (''>> The executing stack frame(s):'' @ [CHR 0x0A]) [] e;
            e \<leftarrow> write_chunks (dump_stack P cor) e;
            put_line L [CHR 0x0A] [] e
          }
          else Some e
        })"

primrec handle_events ::
  "('v, 'd, 'c, 'o, 'p) runtime \<Rightarrow> 'f platform \<Rightarrow> bool \<Rightarrow> 'c \<Rightarrow> ('c, 'o, 'v) cond list \<Rightarrow> 'p worker \<Rightarrow> 'p worker option" where
  "handle_events P L verbose main_crtn [] e = Some e"
| "handle_events P L verbose main_crtn (event # events) e = do {
     e \<leftarrow> prog_cond_handler P L verbose main_crtn event e;
     handle_events P L verbose main_crtn events e
   }"

section \<open>The worker\<close>

text \<open>The initialization script must not run again: the process ends when it does.\<close>

definition init_cond_handler :: "('c, 'o, 'v) cond \<Rightarrow> bool" where
  "init_cond_handler event = (case event of One_run cor run_idx \<Rightarrow> 0 < run_idx | _ \<Rightarrow> False)"

definition run_init_script ::
  "('v, 'd, 'c, 'o, 'p) runtime \<Rightarrow> string \<Rightarrow> string option \<Rightarrow> 'p worker \<Rightarrow> int outcome \<times> 'p worker" where
  "run_init_script P script query e =
     (let request = (case query of None \<Rightarrow> None | Some q \<Rightarrow> query_object P q False)
      in case load_hvml P (Some script) of
           None \<Rightarrow> (Returned (-1), e)
         | Some vdom \<Rightarrow>
             (case schedule_vdom P vdom request (interp e) of
                (None, p) \<Rightarrow> (Returned (-1), e\<lparr>interp := p\<rparr>)
              | (Some cor, p) \<Rightarrow>
                  (case purc_run P p of (events, rc, p) \<Rightarrow>
                     let e = e\<lparr>interp := p\<rparr>
                     in if \<exists>ev \<in> set events. init_cond_handler ev then (Exited EXIT_FAILURE, e)
                        else (Returned (if rc \<noteq> 0 then -1 else 0), e))))"

text \<open>The five variables, up to the first that cannot be bound.\<close>

primrec bind_all ::
  "('v, 'd, 'c, 'o, 'p) runtime \<Rightarrow> 'c \<Rightarrow> (string \<times> 'v option) list \<Rightarrow> 'p \<Rightarrow> bool \<times> 'p" where
  "bind_all P cor [] p = (True, p)"
| "bind_all P cor (x # xs) p =
     (case bind_variable P cor (fst x) (snd x) p of (ok, p) \<Rightarrow> if ok then bind_all P cor xs p else (False, p))"

definition request_vars :: "('v, 'd) request_info \<Rightarrow> (string \<times> 'v option) list" where
  "request_vars info =
     [(''_SERVER'', i_server info), (''_GET'', i_get info), (''_POST'', i_post info),
      (''_COOKIE'', i_cookie info), (''_FILES'', i_files info)]"

text \<open>
  A round of the loop after a request was accepted.  \<open>Next ret nr\<close> goes on with these values of \<open>ret\<close> and
  \<open>nr_executed\<close>, \<open>Stop ret nr\<close> leaves the loop.
\<close>

datatype round = Next int int | Stop int int

definition run_request ::
  "('v, 'd, 'c, 'o, 'p) runtime \<Rightarrow> 'f platform \<Rightarrow> int \<Rightarrow> bool \<Rightarrow> int \<Rightarrow> 'd \<Rightarrow> ('v, 'd) request_info \<Rightarrow> 'p worker \<Rightarrow>
   (round \<times> 'p worker) option" where
  "run_request P L limit verbose nr vdom info e =
     (let fail = \<lambda>e. do { e \<leftarrow> send_resp L 500 e; Some (Stop EXIT_RETRY nr, e) }
      in case schedule_vdom P vdom (i_request info) (interp e) of
           (None, p) \<Rightarrow> fail (e\<lparr>interp := p\<rparr>)
         | (Some cor, p) \<Rightarrow>
             (case bind_all P cor (request_vars info) p of
                (False, p) \<Rightarrow> fail (e\<lparr>interp := p\<rparr>)
              | (True, p) \<Rightarrow>
                  (case purc_run P p of (events, rc, p) \<Rightarrow> do {
                     e \<leftarrow> handle_events P L verbose cor events (e\<lparr>interp := p\<rparr>);
                     if rc \<noteq> 0 then fail e
                     else Some (if limit < nr + 1 then Stop EXIT_SUCCESS (nr + 1) else Next 0 (nr + 1), e)
                   })))"

definition serve_request ::
  "('v, 'd, 'c, 'o, 'p) runtime \<Rightarrow> 'f platform \<Rightarrow> int \<Rightarrow> bool \<Rightarrow> int \<Rightarrow> 'p worker \<Rightarrow> (round \<times> 'p worker) option" where
  "serve_request P L limit verbose nr e = do {
     ((rc, info), e) \<leftarrow> make_request P L e;
     if rc \<noteq> 0 then do { e \<leftarrow> send_resp L 400 e; Some (Next rc nr, e) }
     else do { vdom \<leftarrow> i_vdom info; run_request P L limit verbose nr vdom info e }
   }"

text \<open>The loop, for at most so many rounds; the result carries the number of programs that were run.\<close>

primrec executor_loop ::
  "nat \<Rightarrow> ('v, 'd, 'c, 'o, 'p) runtime \<Rightarrow> 'f platform \<Rightarrow> int \<Rightarrow> bool \<Rightarrow> int \<Rightarrow> int \<Rightarrow> 'p worker \<Rightarrow>
   (int outcome \<times> int \<times> 'p worker) option" where
  "executor_loop 0 P L limit verbose rt nr e = Some (Running, nr, e)"
| "executor_loop (Suc n) P L limit verbose rt nr e = do {
     (rc, e) \<leftarrow> on_io (FCGI_Accept (resolve L) (block_in L) (block_out L) (block_err L)) e;
     case rc of
       Inl code \<Rightarrow> Some (Exited code, nr, e)
     | Inr rc \<Rightarrow>
         if rc < 0 then Some (Returned rt, nr, e)
         else do {
           (s, e) \<leftarrow> serve_request P L limit verbose nr e;
           case s of
             Stop rt nr \<Rightarrow> Some (Returned rt, nr, e)
           | Next rt nr \<Rightarrow> executor_loop n P L limit verbose rt nr e
         }
   }"

definition runner_name :: "'f platform \<Rightarrow> string" where
  "runner_name L = ''fpmworker'' @ decimal (nat (getpid L mod 2 ^ 32))"

definition PURC_LEN_RUNNER_NAME :: nat where "PURC_LEN_RUNNER_NAME = 63"

definition hvml_executor ::
  "nat \<Rightarrow> ('v, 'd, 'c, 'o, 'p) runtime \<Rightarrow> 'f platform \<Rightarrow> string \<Rightarrow> string option \<Rightarrow> string option \<Rightarrow> int \<Rightarrow> bool \<Rightarrow>
   'p worker \<Rightarrow> (int outcome \<times> int \<times> 'p worker) option" where
  "hvml_executor n P L app script query limit verbose e =
     (if PURC_LEN_RUNNER_NAME + 1 \<le> length (runner_name L) then Some (Returned EXIT_FAILURE, 0, e)
      else case init_ex P app (runner_name L) of
        None \<Rightarrow> Some (Returned EXIT_FAILURE, 0, e)
      | Some p \<Rightarrow>
          let e = e\<lparr>interp := p\<rparr>
          in if \<not> new_stream P 1 then Some (Returned EXIT_FAILURE, 0, e)
             else
               (case (case script of None \<Rightarrow> (Returned 0, e) | Some s \<Rightarrow> run_init_script P s query e) of
                  (Exited code, e) \<Rightarrow> Some (Exited code, 0, e)
                | (Running, e) \<Rightarrow> Some (Running, 0, e)
                | (Returned rc, e) \<Rightarrow>
                    if rc \<noteq> 0 \<or> \<not> new_stream P 2 then Some (Returned EXIT_FAILURE, 0, e)
                    else executor_loop n P L limit verbose EXIT_FAILURE 0 e))"

end
