(* ===== verification/Fcgi_Stdio_Laws.thy ===== *)
theory Fcgi_Stdio_Laws
  imports Fcgi_Stdio
begin

text \<open>
  A program that writes through \<open>fcgi_stdio.c\<close> cannot tell a FastCGI request from the files of a CGI
  process: every call answers alike, and the frames of the request carry the bytes the files would
  have received.
\<close>

section \<open>Programs that write\<close>

datatype stdio_op =
  Do_fputc byte nat
| Do_fputs "byte list" nat
| Do_puts "byte list"
| Do_fwrite "byte list" nat nat nat
| Do_fflush nat

text \<open>The flag is that the call succeeded, as its manual page has it.\<close>

fun run_stdio_op :: "stdio_op \<Rightarrow> stdio_state \<Rightarrow> (bool \<times> stdio_state) option" where
  "run_stdio_op (Do_fputc b fp) r = do { (n, r) \<leftarrow> FCGI_fputc (uint b) fp r; Some (n = uint b, r) }"
| "run_stdio_op (Do_fputs str fp) r = do { (n, r) \<leftarrow> FCGI_fputs str fp r; Some (0 \<le> n, r) }"
| "run_stdio_op (Do_puts str) r = do { (n, r) \<leftarrow> FCGI_puts str r; Some (0 \<le> n, r) }"
| "run_stdio_op (Do_fwrite bs sz nmemb fp) r = do { (n, r) \<leftarrow> FCGI_fwrite bs sz nmemb fp r; Some (n = nmemb, r) }"
| "run_stdio_op (Do_fflush fp) r = do { (n, r) \<leftarrow> FCGI_fflush (Some fp) r; Some (n = 0, r) }"

primrec run_stdio :: "stdio_op list \<Rightarrow> stdio_state \<Rightarrow> (bool list \<times> stdio_state) option" where
  "run_stdio [] r = Some ([], r)"
| "run_stdio (p # ps) r = do { (ok, r) \<leftarrow> run_stdio_op p r; (oks, r) \<leftarrow> run_stdio ps r; Some (ok # oks, r) }"

text \<open>
  The calls a program may make: on standard output and standard error, with the array \<open>fwrite\<close>
  is told of, shorter than an \<open>int\<close> can say.
\<close>

fun stdio_ok :: "stdio_op \<Rightarrow> bool" where
  "stdio_ok (Do_fputc b fp) = (fp \<in> {1, 2})"
| "stdio_ok (Do_fputs str fp) = (fp \<in> {1, 2})"
| "stdio_ok (Do_puts str) = True"
| "stdio_ok (Do_fwrite bs sz nmemb fp) =
    (fp \<in> {1, 2} \<and> 0 < sz \<and> length bs = sz * nmemb \<and> length bs < 2147483648)"
| "stdio_ok (Do_fflush fp) = (fp \<in> {1, 2})"

text \<open>The bytes a call is meant to write, and the operations on streams it stands for.\<close>

definition c_text :: "byte list \<Rightarrow> byte list" where
  "c_text str = takeWhile (\<lambda>b. b \<noteq> 0) str"

fun stdio_data :: "stdio_op \<Rightarrow> nat \<times> byte list" where
  "stdio_data (Do_fputc b fp) = (fp, [b])"
| "stdio_data (Do_fputs str fp) = (fp, c_text str)"
| "stdio_data (Do_puts str) = (1, c_text str @ [10])"
| "stdio_data (Do_fwrite bs sz nmemb fp) = (fp, bs)"
| "stdio_data (Do_fflush fp) = (fp, [])"

definition to_file :: "nat \<Rightarrow> stdio_op list \<Rightarrow> byte list" where
  "to_file fp ps = concat (map (\<lambda>p. if fst (stdio_data p) = fp then snd (stdio_data p) else []) ps)"

lemma to_file_simps [simp]:
  "to_file fp [] = []"
  "to_file fp (p # ps) = (if fst (stdio_data p) = fp then snd (stdio_data p) else []) @ to_file fp ps"
  by (simp_all add: to_file_def)

section \<open>On the files of the C library\<close>

definition at_end :: "FILE \<Rightarrow> bool" where
  "at_end f \<longleftrightarrow> f_write f \<and> f_pos f = length (f_bytes f)"

definition on_files :: "stdio_state \<Rightarrow> bool" where
  "on_files r \<longleftrightarrow> (\<forall>fp \<in> {1, 2}. fcgi_files r fp = Some \<lparr>stdio_stream = Some fp, fcgx_stream = None\<rparr> \<and>
     (\<exists>f. c_files r fp = Some f \<and> at_end f))"

definition file_bytes :: "nat \<Rightarrow> stdio_state \<Rightarrow> byte list" where
  "file_bytes h r = (case c_files r h of Some f \<Rightarrow> f_bytes f | None \<Rightarrow> [])"

lemma c_put_at_end:
  "at_end f \<Longrightarrow> c_put bs f = (True, f\<lparr>f_bytes := f_bytes f @ bs, f_pos := length (f_bytes f) + length bs, f_back := []\<rparr>)"
  by (simp add: c_put_def at_end_def Let_def)

text \<open>\<open>wrote fp bs r r'\<close>: from \<open>r\<close> to \<open>r'\<close> the file \<open>fp\<close> has received \<open>bs\<close>, and the other one nothing.\<close>

definition wrote :: "nat \<Rightarrow> byte list \<Rightarrow> stdio_state \<Rightarrow> stdio_state \<Rightarrow> bool" where
  "wrote fp bs r r' \<longleftrightarrow> on_files r' \<and>
     (\<forall>q \<in> {1, 2}. file_bytes q r' = file_bytes q r @ (if q = fp then bs else []))"

lemma wrote_trans: "wrote fp bs r r' \<Longrightarrow> wrote fp cs r' r'' \<Longrightarrow> wrote fp (bs @ cs) r r''"
  by (auto simp: wrote_def)

lemma on_file_wrote:
  assumes "on_files r" "fp \<in> {1, 2}"
    and "\<And>f. at_end f \<Longrightarrow> \<exists>f'. op f = (x, f') \<and> at_end f' \<and> f_bytes f' = f_bytes f @ bs"
  shows "\<exists>r'. on_file fp op r = Some (x, r') \<and> wrote fp bs r r'"
proof -
  obtain f where f: "c_files r fp = Some f" "at_end f" using assms(1,2) by (auto simp: on_files_def)
  obtain f' where f': "op f = (x, f')" "at_end f'" "f_bytes f' = f_bytes f @ bs" using assms(3) [OF f(2)] by blast
  then show ?thesis using f assms(1,2)
    by (auto simp: on_file_def wrote_def on_files_def file_bytes_def)
qed

lemma dispatch_file:
  "on_files r \<Longrightarrow> fp \<in> {1, 2} \<Longrightarrow> dispatch fp file stream neither r = file fp r"
  by (auto simp: dispatch_def on_files_def)

lemma c_fputc_end: "at_end f \<Longrightarrow> \<exists>f'. c_fputc (uint (b :: byte)) f = (uint b, f') \<and> at_end f' \<and> f_bytes f' = f_bytes f @ [b]"
  using uint_lt2p [of b] by (simp add: c_fputc_def c_put_at_end at_end_def)

lemma c_fputs_end: "at_end f \<Longrightarrow> \<exists>f'. c_fputs str f = (1, f') \<and> at_end f' \<and> f_bytes f' = f_bytes f @ c_text str"
  by (simp add: c_fputs_def c_put_at_end at_end_def c_text_def)

lemma c_fwrite_end:
  "at_end f \<Longrightarrow> 0 < sz \<Longrightarrow> length bs = sz * nmemb \<Longrightarrow>
   \<exists>f'. c_fwrite bs sz nmemb f = (nmemb, f') \<and> at_end f' \<and> f_bytes f' = f_bytes f @ bs"
  by (auto simp: c_fwrite_def c_put_at_end at_end_def)

lemma c_fflush_wrote:
  assumes "on_files r" "fp \<in> {1, 2}"
  shows "\<exists>r'. c_fflush fp r = Some (0, r') \<and> wrote fp [] r r'"
proof -
  obtain f where "c_files r fp = Some f" using assms by (auto simp: on_files_def)
  then show ?thesis using assms(1)
    by (auto simp: c_fflush_def c_sync_def wrote_def on_files_def file_bytes_def split: option.split)
qed

lemma run_stdio_op_files:
  assumes r: "on_files r" and ok: "stdio_ok p"
  shows "\<exists>r'. run_stdio_op p r = Some (True, r') \<and> wrote (fst (stdio_data p)) (snd (stdio_data p)) r r'"
proof (cases p)
  case (Do_fputc b fp)
  then show ?thesis
    using on_file_wrote [OF r, of fp "c_fputc (uint b)", OF _ c_fputc_end] ok r
    by (auto simp: FCGI_fputc_def dispatch_file)
next
  case (Do_fputs str fp)
  then show ?thesis
    using on_file_wrote [OF r, of fp "c_fputs str", OF _ c_fputs_end] ok r
    by (auto simp: FCGI_fputs_def dispatch_file)
next
  case (Do_puts str)
  obtain r1 where 1: "on_file 1 (c_fputs str) r = Some (1, r1)" "wrote 1 (c_text str) r r1"
    using on_file_wrote [OF r, of 1 "c_fputs str", OF _ c_fputs_end] by auto
  then have "on_files r1" by (simp add: wrote_def)
  then obtain r2 where 2: "on_file 1 (c_fputc (uint (10 :: byte))) r1 = Some (10, r2)" "wrote 1 [10] r1 r2"
    using on_file_wrote [of r1 1 "c_fputc (uint (10 :: byte))", OF _ _ c_fputc_end] by auto
  show ?thesis
    using 1(1) 2(1) wrote_trans [OF 1(2) 2(2)] Do_puts r by (simp add: FCGI_puts_def dispatch_file)
next
  case (Do_fwrite bs sz nmemb fp)
  then show ?thesis
    using on_file_wrote [OF r, of fp "c_fwrite bs sz nmemb", OF _ c_fwrite_end] ok r
    by (auto simp: FCGI_fwrite_def dispatch_file)
next
  case (Do_fflush fp)
  then show ?thesis using c_fflush_wrote [OF r, of fp] ok r by (auto simp: FCGI_fflush_def dispatch_file)
qed

lemma run_stdio_files:
  assumes "on_files r" "\<forall>p \<in> set ps. stdio_ok p"
  shows "\<exists>r'. run_stdio ps r = Some (map (\<lambda>_. True) ps, r') \<and>
     (\<forall>fp \<in> {1, 2}. file_bytes fp r' = file_bytes fp r @ to_file fp ps)"
  using assms
proof (induction ps arbitrary: r)
  case (Cons p ps)
  obtain r1 where 1: "run_stdio_op p r = Some (True, r1)" "wrote (fst (stdio_data p)) (snd (stdio_data p)) r r1"
    using run_stdio_op_files [of r p] Cons.prems by auto
  then have "on_files r1" by (simp add: wrote_def)
  then show ?case using Cons.IH [of r1] Cons.prems 1 by (auto simp: wrote_def)
qed simp

section \<open>On the streams of a request\<close>

definition on_streams :: "stdio_state \<Rightarrow> bool" where
  "on_streams r \<longleftrightarrow>
     (\<forall>fp \<in> {1, 2}. fcgi_files r fp = Some \<lparr>stdio_stream = None, fcgx_stream = Some (std_stream fp)\<rparr>) \<and>
     acceptCalled r \<and> \<not> isCGI r"

lemma dispatch_stream:
  "on_streams r \<Longrightarrow> fp \<in> {1, 2} \<Longrightarrow> dispatch fp file stream neither r = stream (std_stream fp) r"
  by (auto simp: dispatch_def on_streams_def)

lemma on_streams_kept: "conn_kept c = conn_kept d \<Longrightarrow> on_streams c = on_streams d"
proof -
  assume e: "conn_kept c = conn_kept d"
  have "fcgi_files (conn_kept c) = fcgi_files (conn_kept d)" "acceptCalled (conn_kept c) = acceptCalled (conn_kept d)"
    "isCGI (conn_kept c) = isCGI (conn_kept d)" unfolding e by (rule refl)+
  then show ?thesis by (simp add: conn_kept_def on_streams_def)
qed

text \<open>
  \<open>writes i op x bs\<close>: on a writer of request \<open>i\<close> the operation \<open>op\<close> returns \<open>x\<close> and writes \<open>bs\<close>.
\<close>

definition writes ::
  "nat \<Rightarrow> (FCGX_Stream \<Rightarrow> stdio_state \<Rightarrow> ('a \<times> FCGX_Stream \<times> stdio_state) option) \<Rightarrow> 'a \<Rightarrow> byte list \<Rightarrow> bool" where
  "writes i op x bs \<longleftrightarrow> (\<forall>ty base k u s c out. writer_rel ty i base k u s c out \<longrightarrow>
     (\<exists>s' c'. op s c = Some (x, s', c') \<and> writer_rel ty i base k u s' c' (out @ bs)))"

lemma writes_at:
  assumes "writes i op x bs" "writer_at ty i s c"
  shows "\<exists>s' c' ds. op s c = Some (x, s', c') \<and> writer_at ty i s' c' \<and>
     sent c' = sent c @ out_frames ty i ds \<and> concat ds @ pending s' = pending s @ bs \<and>
     (\<forall>d \<in> set ds. d \<noteq> [] \<and> length d \<le> 65528) \<and> conn_kept c' = conn_kept c \<and>
     (isAnythingWritten s' \<longleftrightarrow> isAnythingWritten s \<or> ds \<noteq> [])"
proof -
  obtain s' c' where e: "op s c = Some (x, s', c')"
    and r: "writer_rel ty i (sent c) (conn_kept c) (isAnythingWritten s) s' c' (pending s @ bs)"
    using assms(1) writer_at_rel [OF assms(2)] unfolding writes_def by blast
  then show ?thesis using conn_keptD [of c' "conn_kept c"] conn_keptD [of c "conn_kept c"] assms(2)
    by (fastforce simp: writer_rel_def writer_at_def)
qed

lemma writes_PutStr: "writes i (FCGX_PutStr EmptyBuffProc bs) (int (length bs)) bs"
  using records.PutStr_rel by (fastforce simp: writes_def)

lemma writes_PutChar: "writes i (FCGX_PutChar EmptyBuffProc (uint b)) (uint b) [b]"
  using records.PutChar_rel by (fastforce simp: writes_def)

lemma writes_FFlush: "writes i (FCGX_FFlush EmptyBuffProc) 0 []"
  using records.FFlush_rel by (fastforce simp: writes_def)

definition served ::
  "nat \<Rightarrow> byte list \<Rightarrow> stdio_state \<Rightarrow> byte list \<Rightarrow> byte list \<Rightarrow> stdio_state \<Rightarrow> bool" where
  "served i base r0 outd errd r \<longleftrightarrow> on_streams r \<and> request_kept r = request_kept r0 \<and> c_files r = c_files r0 \<and>
     (\<exists>fs out err. serving_at i base fs outd errd r out err)"

definition if_fp :: "nat \<Rightarrow> nat \<Rightarrow> byte list \<Rightarrow> byte list" where
  "if_fp q fp bs = (if q = fp then bs else [])"

lemma if_fp_append: "if_fp q fp bs @ if_fp q fp cs = if_fp q fp (bs @ cs)"
  by (simp add: if_fp_def)

lemma c_files_kept: "conn_kept c = conn_kept d \<Longrightarrow> c_files c = c_files d"
proof -
  assume e: "conn_kept c = conn_kept d"
  have "c_files (conn_kept c) = c_files (conn_kept d)" unfolding e by (rule refl)
  then show ?thesis by (simp add: conn_kept_def)
qed

lemma served_writes:
  assumes "served i base r0 outd errd r" "fp \<in> {1, 2}" "writes i op x bs"
  shows "\<exists>r'. on_stream (std_stream fp) op r = Some (x, r') \<and>
     served i base r0 (outd @ if_fp 1 fp bs) (errd @ if_fp 2 fp bs) r'"
proof -
  obtain fs out err where s: "serving_at i base fs outd errd r out err"
    and r: "on_streams r" "request_kept r = request_kept r0" "c_files r = c_files r0"
    using assms(1) by (auto simp: served_def)
  show ?thesis
  proof (cases "fp = 1")
    case True
    have w: "writer_at 6 i out r" using s by (simp add: serving_at_def)
    obtain s' c' ds where e: "op out r = Some (x, s', c')" "writer_at 6 i s' c'"
      "sent c' = sent r @ out_frames 6 i ds" "concat ds @ pending s' = pending out @ bs"
      "\<forall>d \<in> set ds. d \<noteq> [] \<and> length d \<le> 65528" "conn_kept c' = conn_kept r"
      using writes_at [OF assms(3) w] by blast
    have "on_stream (std_stream fp) op r = Some (x, c'\<lparr>out_stream := Some s'\<rparr>)"
      using e(1) s True by (simp add: on_stream_def std_stream_def get_stream_def set_stream_def serving_at_def)
    moreover have "on_streams (c'\<lparr>out_stream := Some s'\<rparr>)" using on_streams_kept [OF e(6)] r(1) by (simp add: on_streams_def)
    ultimately show ?thesis using serving_out [OF s e(2-6)] c_files_kept [OF e(6)] r(2,3) True by (auto simp: served_def if_fp_def)
  next
    case False
    then have fp: "fp = 2" using assms(2) by simp
    have w: "writer_at 7 i err r" using s by (simp add: serving_at_def)
    obtain s' c' ds where e: "op err r = Some (x, s', c')" "writer_at 7 i s' c'"
      "sent c' = sent r @ out_frames 7 i ds" "concat ds @ pending s' = pending err @ bs"
      "\<forall>d \<in> set ds. d \<noteq> [] \<and> length d \<le> 65528" "conn_kept c' = conn_kept r"
      "isAnythingWritten s' \<longleftrightarrow> isAnythingWritten err \<or> ds \<noteq> []"
      using writes_at [OF assms(3) w] by blast
    have "on_stream (std_stream fp) op r = Some (x, c'\<lparr>err_stream := Some s'\<rparr>)"
      using e(1) s fp by (simp add: on_stream_def std_stream_def get_stream_def set_stream_def serving_at_def)
    moreover have "on_streams (c'\<lparr>err_stream := Some s'\<rparr>)" using on_streams_kept [OF e(6)] r(1) by (simp add: on_streams_def)
    ultimately show ?thesis using serving_err [OF s e(2-7)] c_files_kept [OF e(6)] r(2,3) fp by (auto simp: served_def if_fp_def)
  qed
qed

lemma PutS_text: "FCGX_PutS emp str = FCGX_PutStr emp (c_text str)"
  by (intro ext) (simp add: FCGX_PutS_def c_text_def)

lemma run_stdio_op_streams:
  assumes r: "served i base r0 outd errd r" and ok: "stdio_ok p"
  shows "\<exists>r'. run_stdio_op p r = Some (True, r') \<and>
     served i base r0 (outd @ if_fp 1 (fst (stdio_data p)) (snd (stdio_data p)))
       (errd @ if_fp 2 (fst (stdio_data p)) (snd (stdio_data p))) r'"
proof -
  have s: "on_streams r" using r by (simp add: served_def)
  show ?thesis
  proof (cases p)
    case (Do_fputc b fp)
    then have "fp \<in> {1, 2}" using ok by simp
    from served_writes [OF r this writes_PutChar [of i b]] Do_fputc s this show ?thesis
      by (auto simp: FCGI_fputc_def dispatch_stream)
  next
    case (Do_fputs str fp)
    then have "fp \<in> {1, 2}" using ok by simp
    from served_writes [OF r this writes_PutStr [of i "c_text str"]] Do_fputs s this show ?thesis
      by (auto simp: FCGI_fputs_def dispatch_stream PutS_text)
  next
    case (Do_puts str)
    have one: "(1 :: nat) \<in> {1, 2}" by simp
    obtain r1 where 1: "on_stream (std_stream 1) (FCGX_PutStr EmptyBuffProc (c_text str)) r = Some (int (length (c_text str)), r1)"
      "served i base r0 (outd @ if_fp 1 1 (c_text str)) (errd @ if_fp 2 1 (c_text str)) r1"
      using served_writes [OF r one writes_PutStr [of i "c_text str"]] by blast
    obtain r2 where 2: "on_stream (std_stream 1) (FCGX_PutChar EmptyBuffProc (uint (10 :: byte))) r1 = Some (uint (10 :: byte), r2)"
      "served i base r0 ((outd @ if_fp 1 1 (c_text str)) @ if_fp 1 1 [10]) ((errd @ if_fp 2 1 (c_text str)) @ if_fp 2 1 [10]) r2"
      using served_writes [OF 1(2) one writes_PutChar [of i 10]] by blast
    have "FCGI_puts str r = Some (10, r2)"
      using 1(1) 2(1) s by (simp add: FCGI_puts_def dispatch_stream PutS_text)
    then show ?thesis using 2(2) Do_puts by (simp add: if_fp_append)
  next
    case (Do_fwrite bs sz nmemb fp)
    then have l: "0 < sz" "length bs = sz * nmemb" "length bs < 2147483648" and fp: "fp \<in> {1, 2}" using ok by simp_all
    have b: "byte_count sz nmemb = length bs" using l by (simp add: byte_count_def)
    show ?thesis
    proof (cases "length bs = 0")
      case True
      then have "nmemb = 0" using l by simp
      then show ?thesis using True b r s fp Do_fwrite
        by (simp add: FCGI_fwrite_def dispatch_stream if_fp_def)
    next
      case False
      have n: "signed_to 32 (int (length bs)) = int (length bs)"
        using l(3) by (simp add: signed_to_def)
      have d: "size_of_int (int (length bs)) div sz = nmemb"
        using l by (simp add: size_of_int_def nat_mod_distrib flip: of_nat_mult)
      obtain r1 where "on_stream (std_stream fp) (FCGX_PutStr EmptyBuffProc bs) r = Some (int (length bs), r1)"
        "served i base r0 (outd @ if_fp 1 fp bs) (errd @ if_fp 2 fp bs) r1"
        using served_writes [OF r fp writes_PutStr [of i bs]] by blast
      then show ?thesis using b n d False Do_fwrite s fp
        by (simp add: FCGI_fwrite_def dispatch_stream Let_def)
    qed
  next
    case (Do_fflush fp)
    then have "fp \<in> {1, 2}" using ok by simp
    from served_writes [OF r this writes_FFlush] Do_fflush s this show ?thesis
      by (auto simp: FCGI_fflush_def dispatch_stream if_fp_def)
  qed
qed

lemma run_stdio_streams:
  assumes "served i base r0 outd errd r" "\<forall>p \<in> set ps. stdio_ok p"
  shows "\<exists>r'. run_stdio ps r = Some (map (\<lambda>_. True) ps, r') \<and>
     served i base r0 (outd @ to_file 1 ps) (errd @ to_file 2 ps) r'"
  using assms
proof (induction ps arbitrary: r outd errd)
  case (Cons p ps)
  obtain r1 where 1: "run_stdio_op p r = Some (True, r1)"
    "served i base r0 (outd @ if_fp 1 (fst (stdio_data p)) (snd (stdio_data p)))
       (errd @ if_fp 2 (fst (stdio_data p)) (snd (stdio_data p))) r1"
    using run_stdio_op_streams [OF Cons.prems(1), of p] Cons.prems(2) by auto
  show ?case using Cons.IH [OF 1(2)] Cons.prems(2) 1(1) by (auto simp: if_fp_def)
qed simp

lemma served_start:
  "serving_at i (sent r0) [] [] [] r0 out err \<Longrightarrow> on_streams r0 \<Longrightarrow> served i (sent r0) r0 [] [] r0"
  by (auto simp: served_def)

lemma served_Finish:
  assumes "served i (sent r0) r0 outd errd r1"
    and "in_stream r0 = Some s" "FCGX_GetError s = 0" "nWriters r0 = 2" "0 \<le> ipcFd r0" "\<not> detached r0"
  shows "\<exists>r2 fs gs. FCGI_Finish r1 = Some r2 \<and> frames_data 6 (fs @ gs) = outd \<and> frames_data 7 (fs @ gs) = errd \<and>
     (\<forall>f \<in> set (fs @ gs). response_frame i f) \<and>
     (let all = sent r0 @ response_bytes i (appStatus r0) fs (errd \<noteq> []) gs
      in if keepConnection r0 then sent r2 = all \<and> closed_fds r2 = closed_fds r0
         else closed_fds r2 = closed_fds r0 @ [(ipcFd r0, True, all)])"
proof -
  obtain fs out1 err1 where s1: "serving_at i (sent r0) fs outd errd r1 out1 err1"
    and k: "on_streams r1" "request_kept r1 = request_kept r0" using assms(1) by (auto simp: served_def)
  have k1: "in_stream r1 = Some s" "keepConnection r1 = keepConnection r0" "appStatus r1 = appStatus r0"
    "nWriters r1 = 2" "ipcFd r1 = ipcFd r0" "\<not> detached r1" "closed_fds r1 = closed_fds r0" "0 \<le> ipcFd r1"
    using k(2) assms(2-6) by (simp_all add: request_kept_def)
  from Finish_serving [OF s1 k1(1) assms(3) k1(4,8,6)] obtain r2 es gs where 2: "FCGX_Finish_r r1 = Some r2"
    "\<forall>f \<in> set (fs @ es @ gs). response_frame i f"
    "frames_data 6 (fs @ es @ gs) = outd" "frames_data 7 (fs @ es @ gs) = errd"
    "let all = sent r0 @ response_bytes i (appStatus r1) (fs @ es) (errd \<noteq> []) gs
     in if keepConnection r1 then sent r2 = all \<and> closed_fds r2 = closed_fds r1 \<and> ipcFd r2 = ipcFd r1
        else closed_fds r2 = closed_fds r1 @ [(ipcFd r1, True, all)] \<and> ipcFd r2 = -1"
    by blast
  define r3 where "r3 = (clear_std 2 (clear_std 1 (clear_std 0 r2)))\<lparr>environ := None\<rparr>"
  have r3: "FCGI_Finish r1 = Some r3" "sent r3 = sent r2" "closed_fds r3 = closed_fds r2"
    using k(1) 2(1) by (simp_all add: FCGI_Finish_def FCGX_Finish_def on_streams_def r3_def clear_std_def)
  show ?thesis
    using 2(2-5) r3 unfolding k1
    by (intro exI [of _ r3] exI [of _ "fs @ es"] exI [of _ gs]) (simp add: Let_def)
qed

text \<open>
  C17. A program that writes cannot tell the two kinds of process apart.  For any sequence of calls on
  standard output and standard error, all of them succeed, on the streams of a request and on the
  files of a CGI process; when \<open>FCGI_Finish\<close> has ended the request, what the connection has received
  is a whole response, whose frames of the two streams carry exactly the bytes the two files were
  extended by.
\<close>

theorem stdio_same_output:
  assumes "serving_at i (sent r0) [] [] [] r0 out err" "on_streams r0"
    and "in_stream r0 = Some s" "FCGX_GetError s = 0" "nWriters r0 = 2" "0 \<le> ipcFd r0" "\<not> detached r0"
    and "on_files f0" "\<forall>p \<in> set ps. stdio_ok p"
  shows "\<exists>r1 r2 f1 fs gs. run_stdio ps r0 = Some (map (\<lambda>_. True) ps, r1) \<and>
     run_stdio ps f0 = Some (map (\<lambda>_. True) ps, f1) \<and> FCGI_Finish r1 = Some r2 \<and>
     file_bytes 1 f1 = file_bytes 1 f0 @ frames_data 6 (fs @ gs) \<and>
     file_bytes 2 f1 = file_bytes 2 f0 @ frames_data 7 (fs @ gs) \<and>
     (\<forall>f \<in> set (fs @ gs). response_frame i f) \<and>
     (let all = sent r0 @ response_bytes i (appStatus r0) fs (frames_data 7 (fs @ gs) \<noteq> []) gs
      in if keepConnection r0 then sent r2 = all \<and> closed_fds r2 = closed_fds r0
         else closed_fds r2 = closed_fds r0 @ [(ipcFd r0, True, all)])"
proof -
  obtain r1 where 1: "run_stdio ps r0 = Some (map (\<lambda>_. True) ps, r1)" "served i (sent r0) r0 (to_file 1 ps) (to_file 2 ps) r1"
    using run_stdio_streams [OF served_start [OF assms(1,2)] assms(9)] by auto
  obtain f1 where 3: "run_stdio ps f0 = Some (map (\<lambda>_. True) ps, f1)"
    "\<forall>fp \<in> {1, 2}. file_bytes fp f1 = file_bytes fp f0 @ to_file fp ps"
    using run_stdio_files [OF assms(8,9)] by blast
  obtain r2 fs gs where 2: "FCGI_Finish r1 = Some r2"
    "frames_data 6 (fs @ gs) = to_file 1 ps" "frames_data 7 (fs @ gs) = to_file 2 ps"
    "\<forall>f \<in> set (fs @ gs). response_frame i f"
    "let all = sent r0 @ response_bytes i (appStatus r0) fs (to_file 2 ps \<noteq> []) gs
     in if keepConnection r0 then sent r2 = all \<and> closed_fds r2 = closed_fds r0
        else closed_fds r2 = closed_fds r0 @ [(ipcFd r0, True, all)]"
    using served_Finish [OF 1(2) assms(3-7)] by blast
  have "file_bytes 1 f1 = file_bytes 1 f0 @ frames_data 6 (fs @ gs)" "file_bytes 2 f1 = file_bytes 2 f0 @ frames_data 7 (fs @ gs)"
    using 3(2) unfolding 2(2,3) by simp_all
  then show ?thesis using 1(1) 2(1,4,5) 3(1) unfolding 2(3) [symmetric] by blast
qed

definition sample_process :: stdio_state where
  "sample_process = FCGX_Request.extend (sample_serving)
     \<lparr>fcgi_files = (\<lambda>fp. None)(1 := Some \<lparr>stdio_stream = None, fcgx_stream = Some Req_out\<rparr>,
         2 := Some \<lparr>stdio_stream = None, fcgx_stream = Some Req_err\<rparr>),
      c_files = (\<lambda>_. None), paths = (\<lambda>_. None), new_files = [], opened = [], allocs = [], process_env = (\<lambda>_. None),
      peer_errno = ENOTCONN, table_malloc = True, os_initialized = True, close_poll_timeout = 2000,
      keeper_poll_timeout = 2000, isFastCGI = 1, acceptCalled = True, isCGI = False, environ = None\<rparr>"

definition sample_cgi :: stdio_state where
  "sample_cgi = sample_process
     \<lparr>fcgi_files := (\<lambda>fp. Some \<lparr>stdio_stream = Some fp, fcgx_stream = None\<rparr>),
      c_files := (\<lambda>_. Some \<lparr>f_path = None, f_bytes = [88], f_pos = 1, f_back = [], f_eof = False, f_err = False,
        f_read = False, f_write = True, f_append = False\<rparr>)\<rparr>"

definition sample_writes :: "stdio_op list" where
  "sample_writes = [Do_puts [72, 105, 0, 5], Do_fputc 33 2, Do_fwrite [0, 1] 2 1 1]"

lemma stdio_same_output_witness:
  "\<exists>r1 r2 f1 fs gs.
     run_stdio sample_writes sample_process = Some ([True, True, True], r1) \<and>
     run_stdio sample_writes sample_cgi = Some ([True, True, True], f1) \<and> FCGI_Finish r1 = Some r2 \<and>
     file_bytes 1 f1 = 88 # frames_data 6 (fs @ gs) \<and> file_bytes 2 f1 = 88 # frames_data 7 (fs @ gs) \<and>
     closed_fds r2 = [(7, True, response_bytes 1 3 fs (frames_data 7 (fs @ gs) \<noteq> []) gs)]"
proof -
  let ?o = "NewWriter 0 32 6" and ?e = "NewWriter 0 32 7" and ?i = "NewReader 0 32 5"
  have o: "writer_ok 6 ?o" "wrNext ?o = 8" using NewWriter_ok [of 6 0 32] by simp_all
  have e: "writer_ok 7 ?e" "wrNext ?e = 8" "\<not> isAnythingWritten ?e" using NewWriter_ok [of 7 0 32] by simp_all
  have i: "FCGX_GetError ?i = 0" by (simp add: FCGX_GetError_def NewReader_def NewStream_def Let_def)
  note sample = sample_process_def sample_serving_def sample_request_def FCGX_Request.defs
  have r: "out_stream sample_process = Some ?o" "err_stream sample_process = Some ?e" "in_stream sample_process = Some ?i"
    "out_ok sample_process" "requestId sample_process = int 1" "nWriters sample_process = 2"
    "0 \<le> ipcFd sample_process" "\<not> detached sample_process" "on_streams sample_process"
    by (simp_all add: sample out_ok_def on_streams_def std_stream_def)
  have c: "sent sample_process = []" "closed_fds sample_process = []" "keepConnection sample_process = False"
    "ipcFd sample_process = 7" "appStatus sample_process = 3"
    by (simp_all add: sample)
  have f: "on_files sample_cgi" "file_bytes 1 sample_cgi = [88]" "file_bytes 2 sample_cgi = [88]"
    by (simp_all add: sample_cgi_def on_files_def at_end_def file_bytes_def)
  have ps: "\<forall>p \<in> set sample_writes. stdio_ok p" "map (\<lambda>_. True) sample_writes = [True, True, True]"
    by (simp_all add: sample_writes_def)
  have "(1 :: nat) < 65536" by simp
  from stdio_same_output [OF serving_start [OF r(1) o r(2) e r(4,5) this] r(9,3) i r(6-8) f(1) ps(1)]
  show ?thesis unfolding c f ps(2) Let_def if_False append_Nil append_Cons by blast
qed

text \<open>
  A failed \<open>FCGI_fwrite\<close> claims that it has written: on a stream that is closed, \<open>FCGX_PutStr\<close> answers
  \<open>-1\<close>, which as a \<open>size_t\<close> is the largest number there is, and not less than the items asked for.
\<close>

theorem fwrite_failure_hidden:
  assumes "fcgi_files r fp = Some \<lparr>stdio_stream = None, fcgx_stream = Some w\<rparr>"
    and "get_stream w r = Some s" "isClosed s" "stop s = wrNext s" "wrNext s \<le> length (buff s)"
    and "0 < length bs" "length bs < 2147483648"
  shows "\<exists>r'. FCGI_fwrite bs 1 (length bs) fp r = Some (2 ^ 64 - 1, r')"
proof -
  have "byte_count 1 (length bs) = length bs" using assms(7) by (simp add: byte_count_def)
  moreover have "signed_to 32 (int (length bs)) = int (length bs)" using assms(7) by (simp add: signed_to_def)
  moreover have "FCGX_PutStr EmptyBuffProc bs s r = Some (-1, s, r)"
    using assms(3-6) by (simp add: FCGX_PutStr_def PutStr_loop.simps(2) buf_write_def Let_def)
  ultimately show ?thesis
    using assms(1,2,6) by (simp add: FCGI_fwrite_def dispatch_def Let_def on_stream_def size_of_int_def)
qed

lemma fwrite_failure_hidden_witness:
  "\<exists>r'. FCGI_fwrite [1, 2] 1 2 1 (sample_process\<lparr>out_stream := Some ((NewWriter 0 32 6)\<lparr>isClosed := True, stop := 8\<rparr>)\<rparr>) =
     Some (2 ^ 64 - 1, r')"
proof -
  let ?s = "(NewWriter 0 32 6)\<lparr>isClosed := True, stop := 8\<rparr>" and ?r = "sample_process"
  have o: "wrNext (NewWriter 0 32 6) = 8" "writer_ok 6 (NewWriter 0 32 6)" using NewWriter_ok [of 6 0 32] by simp_all
  have 1: "fcgi_files (?r\<lparr>out_stream := Some ?s\<rparr>) 1 = Some \<lparr>stdio_stream = None, fcgx_stream = Some Req_out\<rparr>"
    by (simp add: sample_process_def FCGX_Request.defs)
  have 2: "get_stream Req_out (?r\<lparr>out_stream := Some ?s\<rparr>) = Some ?s" "isClosed ?s" "stop ?s = wrNext ?s"
    "wrNext ?s \<le> length (buff ?s)"
    using o by (simp_all add: get_stream_def writer_ok_def)
  show ?thesis using fwrite_failure_hidden [OF 1 2, of "[1, 2]"] by (simp add: numeral_2_eq_2)
qed

end
