(* ===== verification/Executor_Laws.thy ===== *)
theory Executor_Laws
  imports Executor Fcgi_Stdio_Laws
begin

text \<open>
  The executor: content types, the variables of a request, what reaches the peer, and how many
  programs a worker runs.
\<close>

section \<open>Content types\<close>

text \<open>
  What \<open>pcutils_get_next_token\<close> is documented to do: skip delimiters, and take what is before the next
  one.  With a length it looks at so many characters only.
\<close>

definition token_of :: "string \<Rightarrow> string \<Rightarrow> nat \<times> nat" where
  "token_of s delims =
     (length (takeWhile (\<lambda>c. c \<in> set delims) s),
      length (takeWhile (\<lambda>c. c \<notin> set delims) (dropWhile (\<lambda>c. c \<in> set delims) s)))"

definition tokens_ok :: "'f platform \<Rightarrow> bool" where
  "tokens_ok L \<longleftrightarrow> (\<forall>s delims. next_token L s delims = token_of s delims) \<and>
     (\<forall>s n delims. next_token_len L s n delims = token_of (take n s) delims)"

lemma takeWhile_first: "P x \<Longrightarrow> \<forall>y \<in> set xs. \<not> P y \<Longrightarrow> takeWhile (\<lambda>y. \<not> P y) (xs @ x # ys) = xs"
  by (induction xs) auto

lemma token_of_first:
  assumes "s \<noteq> []" "set s \<inter> set delims = {}" "rest = [] \<or> hd rest \<in> set delims"
  shows "token_of (s @ rest) delims = (0, length s)"
proof -
  have n: "\<forall>x \<in> set s. x \<notin> set delims" using assms(2) by auto
  obtain x xs where s: "s = x # xs" using assms(1) by (cases s) auto
  have "takeWhile (\<lambda>c. c \<notin> set delims) (s @ rest) = s"
    using n assms(3) by (cases rest) (auto simp: takeWhile_append2 [of s])
  moreover have "takeWhile (\<lambda>c. c \<in> set delims) (s @ rest) = []" "dropWhile (\<lambda>c. c \<in> set delims) (s @ rest) = s @ rest"
    using n s by auto
  ultimately show ?thesis by (simp add: token_of_def)
qed

lemma token_of_spaces:
  assumes "set sp \<subseteq> set delims" "s \<noteq> []" "set s \<inter> set delims = {}" "rest = [] \<or> hd rest \<in> set delims"
  shows "token_of (sp @ s @ rest) delims = (length sp, length s)"
proof -
  have t: "takeWhile (\<lambda>c. c \<in> set delims) (s @ rest) = []" "dropWhile (\<lambda>c. c \<in> set delims) (s @ rest) = s @ rest"
    "length (takeWhile (\<lambda>c. c \<notin> set delims) (s @ rest)) = length s"
    using token_of_first [OF assms(2-4)] assms(2,3) by (cases s; auto simp: token_of_def)+
  have "\<forall>x \<in> set sp. x \<in> set delims" using assms(1) by auto
  then show ?thesis using t by (simp add: token_of_def takeWhile_append2 dropWhile_append2)
qed

text \<open>The table of content types.\<close>

definition content_type_of :: "string \<Rightarrow> string \<Rightarrow> post_content_type" where
  "content_type_of mtype subtype =
     (if strcasecmp_eq mtype ''application'' \<and> strcasecmp_eq subtype ''x-www-form-urlencoded'' then CT_FORM_URLENCODED
      else if strcasecmp_eq mtype ''application'' \<and> strcasecmp_eq subtype ''json'' then CT_JSON
      else if strcasecmp_eq mtype ''multipart'' \<and> strcasecmp_eq subtype ''form-data'' then CT_FORM_DATA
      else if strcasecmp_eq mtype ''text'' \<and> strcasecmp_eq subtype ''xml'' then CT_XML
      else if strcasecmp_eq mtype ''text'' \<and> strcasecmp_eq subtype ''plain'' then CT_PLAIN
      else CT_NOT_SUPPORTED)"

lemma strcasecmp_eq_length: "strcasecmp_eq s t \<Longrightarrow> length s = length t"
  unfolding strcasecmp_eq_def by (metis length_map)

lemma eq_ltr_at:
  assumes "length x < 2 ^ 63" "length pre = p" "length x = n"
  shows "eq_ltr (pre @ x @ zs) p (int n) ltr = Some (strcasecmp_eq x ltr)"
proof (cases "length x = length ltr")
  case True
  then show ?thesis using assms by (auto simp: eq_ltr_def)
next
  case False
  then show ?thesis using assms strcasecmp_eq_length [of x ltr] by (auto simp: eq_ltr_def)
qed

lemma strcasecmp_eq_trans: "strcasecmp_eq mtype s \<Longrightarrow> strcasecmp_eq mtype t \<Longrightarrow> length s = length t"
  using strcasecmp_eq_length by metis

lemma media_type_ok:
  assumes L: "tokens_ok L" and t: "mtype \<noteq> []" "CHR 0x2F \<notin> set mtype"
    and n: "length mtype + 1 + length subtype = n" "n < 2 ^ 63" and m: "length pre = m"
  shows "media_type L (pre @ mtype @ [CHR 0x2F] @ subtype @ rest) m n = Some (content_type_of mtype subtype)"
proof -
  let ?s = "pre @ mtype @ [CHR 0x2F] @ subtype @ rest"
  have "take n (drop m ?s) = mtype @ [CHR 0x2F] @ subtype"
    using m by (simp flip: n(1))
  then have tok: "next_token_len L (drop m ?s) n [CHR 0x2F] = (0, length mtype)"
    using L token_of_first [of mtype "[CHR 0x2F]" "[CHR 0x2F] @ subtype"] t by (simp add: tokens_ok_def)
  have mtype: "eq_ltr ?s m (int (length mtype)) ltr = Some (strcasecmp_eq mtype ltr)" for ltr
    using eq_ltr_at [of mtype pre m "length mtype" "[CHR 0x2F] @ subtype @ rest"] n m by simp
  have i: "int n - int (length mtype) - 1 = int (length subtype)" using n(1) by simp
  have sub: "eq_ltr ?s (m + length mtype + 1) (int n - int (length mtype) - 1) ltr = Some (strcasecmp_eq subtype ltr)" for ltr
    using eq_ltr_at [of subtype "pre @ mtype @ [CHR 0x2F]" "m + length mtype + 1" "length subtype" rest] n m unfolding i by simp
  have ex: "\<not> (strcasecmp_eq mtype ''application'' \<and> strcasecmp_eq mtype ''multipart'')"
    "\<not> (strcasecmp_eq mtype ''application'' \<and> strcasecmp_eq mtype ''text'')"
    "\<not> (strcasecmp_eq mtype ''multipart'' \<and> strcasecmp_eq mtype ''text'')"
    using strcasecmp_eq_trans [of mtype] by fastforce+
  have "length mtype \<noteq> n" "length mtype \<noteq> 0" using n(1) t(1) by simp_all
  then show ?thesis using ex
    unfolding media_type_def tok Let_def prod.case add_0_right sub mtype content_type_of_def by auto
qed

text \<open>
  A media type without parameters is recognised by its two halves, in any case of its letters:
  the five supported ones and no other.
\<close>

theorem content_type_table:
  assumes "tokens_ok L" "mtype \<noteq> []" "set mtype \<inter> {CHR 0x2F, CHR '';''} = {}" "CHR '';'' \<notin> set subtype"
    and "length mtype + 1 + length subtype < 2 ^ 63"
  shows "check_post_content_type L (mtype @ [CHR 0x2F] @ subtype) = Some (content_type_of mtype subtype, None, None)"
proof -
  let ?s = "mtype @ [CHR 0x2F] @ subtype" and ?n = "length mtype + 1 + length subtype"
  have "next_token L ?s '';'' = (0, ?n)"
    using assms(1,3,4) token_of_first [of ?s "'';''" "[]"] by (auto simp: tokens_ok_def)
  moreover have "media_type L ?s 0 ?n = Some (content_type_of mtype subtype)"
    using media_type_ok [of L mtype subtype ?n "[]" 0 "[]"] assms by auto
  ultimately show ?thesis by (simp add: check_post_content_type_def)
qed

lemma drop_at: "drop (length xs) (xs @ y # ys) = y # ys \<and> (xs @ y # ys) ! length xs = y"
  by simp

text \<open>
  A character set is refused.  The length of its value is computed from the media type in place
  of the parameter (line 207), so that with a media type of another length than 13 every content type
  with a charset is bad, \<open>application/json; charset=utf-8\<close> among them.
\<close>

theorem charset_refused:
  assumes "tokens_ok L" "mime \<noteq> []" "CHR '';'' \<notin> set mime" "length mime < 2 ^ 63" "length mime \<noteq> 13"
    and "set sp \<subseteq> {CHR '' ''}" "strcasecmp_eq key ''charset''" "set key \<inter> {CHR '' '', CHR ''=''} = {}"
  shows "check_post_content_type L (mime @ '';'' @ sp @ key @ ''='' @ val) = Some (CT_BAD, None, None)"
proof -
  let ?s = "mime @ '';'' @ sp @ key @ ''='' @ val" and ?n = "length mime"
  have k: "length key = 7" "key \<noteq> []" using strcasecmp_eq_length [OF assms(7)] by auto
  have 1: "next_token L ?s '';'' = (0, ?n)"
    using assms(1-3) token_of_first [of mime "'';''" "'';'' @ sp @ key @ ''='' @ val"] by (auto simp: tokens_ok_def)
  have d: "drop (?n + 1) ?s = sp @ key @ ''='' @ val" by simp
  have 2: "next_token L (drop (?n + 1) ?s) '' ='' = (length sp, 7)"
    using assms(1,6,8) k token_of_spaces [of sp "'' =''" key "''='' @ val"] unfolding d by (auto simp: tokens_ok_def)
  let ?x = "?n + 1 + length sp"
  have 3: "eq_ltr ?s ?x (int 7) ltr = Some (strcasecmp_eq key ltr)" for ltr
    using eq_ltr_at [of key "mime @ '';'' @ sp" ?x 7 "''='' @ val"] k by simp
  have 4: "\<not> strcasecmp_eq key ''boundary''" using strcasecmp_eq_length [of key "''boundary''"] k by auto
  have "(int ?n - 8) mod 2 ^ 64 \<noteq> 5"
  proof (cases "8 \<le> ?n")
    case True
    then have "(int ?n - 8) mod 2 ^ 64 = int ?n - 8" using assms(4) by (intro mod_pos_pos_trivial) auto
    then show ?thesis using assms(5) by auto
  next
    case False
    then have "(int ?n - 8 + 2 ^ 64) mod 2 ^ 64 = int ?n - 8 + 2 ^ 64" by (intro mod_pos_pos_trivial) auto
    then have "(int ?n - 8) mod 2 ^ 64 = int ?n - 8 + 2 ^ 64" unfolding mod_add_self2 .
    then show ?thesis by simp
  qed
  then have 5: "eq_ltr ?s p (int ?n - int 7 - 1) ''utf-8'' = Some False" for p by (simp add: eq_ltr_def)
  have l: "length (mime @ '';'' @ sp @ key) = ?x + 7" using k by simp
  have 6: "drop (?x + 7) ?s = ''='' @ val" "?s ! (?x + 7) = CHR ''=''"
    using drop_at [of "mime @ '';'' @ sp @ key" "CHR ''=''" val] unfolding l by simp_all
  have "content_param L ?s ?n (?n + 1) = Some (Inl None)"
    using 3 4 5 6 assms(7) unfolding content_param_def 2 Let_def prod.case by simp
  then show ?thesis using assms(2) 1 by (simp add: check_post_content_type_def)
qed

section \<open>The variables of the server\<close>

text \<open>What PurC documents of its objects: a new one is empty, and setting a property changes that one.\<close>

definition objects_ok :: "('v, 'd, 'c, 'o, 'p) runtime \<Rightarrow> bool" where
  "objects_ok P \<longleftrightarrow> (\<forall>k. object_get P (make_object_0 P) k = None) \<and> string_const P None = None \<and>
     (\<forall>obj k v obj'. set_ckey P obj k v = Some obj' \<longrightarrow>
        (\<forall>k'. object_get P obj' k' = (if k' = k then Some v else object_get P obj k')))"

definition meta_value :: "('v, 'd, 'c, 'o, 'p) runtime \<Rightarrow> (string \<Rightarrow> string option) \<Rightarrow> string \<Rightarrow> value_type \<Rightarrow> 'v option" where
  "meta_value P env name ty =
     (case (env name, ty) of
        (Some val, VT_ULONG) \<Rightarrow> new_ulongint P (strtoul val)
      | (Some val, VT_STRING) \<Rightarrow> new_string P val
      | (None, VT_ULONG) \<Rightarrow> new_ulongint P 0
      | (None, VT_STRING) \<Rightarrow> None)"

lemma server_loop_get:
  assumes "objects_ok P" "distinct (map fst vars)" "server_loop P env vars server = Some server'"
    and "\<forall>(k, ty) \<in> set vars. object_get P server k = None"
  shows "object_get P server' name =
     (case map_of vars name of Some ty \<Rightarrow> meta_value P env name ty | None \<Rightarrow> object_get P server name)"
  using assms(2-4)
proof (induction vars arbitrary: server)
  case (Cons var vars)
  obtain k ty where var: "var = (k, ty)" by (cases var)
  have d: "distinct (map fst vars)" "k \<notin> fst ` set vars" using Cons.prems(1) var by simp_all
  show ?case
  proof (cases "meta_value P env k ty")
    case None
    then have "server_loop P env vars server = Some server'"
      using Cons.prems(2) var by (auto simp: meta_value_def Let_def split: option.splits value_type.splits if_splits)
    moreover have "map_of vars k = None" using d(2) by (simp add: map_of_eq_None_iff)
    ultimately show ?thesis using Cons.IH [OF d(1), of server] Cons.prems(3) None var
      by (auto split: option.splits)
  next
    case (Some v)
    then obtain s1 where s1: "set_ckey P server k v = Some s1" "server_loop P env vars s1 = Some server'"
      using Cons.prems(2) var
      by (auto simp: meta_value_def Let_def bind_eq_Some_conv split: option.splits value_type.splits if_splits)
    have g: "object_get P s1 k' = (if k' = k then Some v else object_get P server k')" for k'
      using assms(1) s1(1) by (auto simp: objects_ok_def)
    have "\<forall>(k', ty) \<in> set vars. object_get P s1 k' = None"
      using Cons.prems(3) d(2) var unfolding g by force
    from Cons.IH [OF d(1) s1(2) this] show ?thesis using Some var g d(2)
      by (auto split: option.splits dest: map_of_SomeD simp: rev_image_eqI)
  qed
qed (simp split: option.split)

lemma meta_vars_distinct: "distinct (map fst meta_vars)"
  by (simp add: meta_vars_def)

text \<open>
  C38. The object \<open>_SERVER\<close> holds the meta-variables of the request: a string for every one that is in
  the environment, a number for the three that are numbers, 0 where one of these is missing, and
  nothing else.
\<close>

theorem server_variables:
  assumes "objects_ok P" "server_loop P env meta_vars (make_object_0 P) = Some server"
  shows "object_get P server name =
     (case map_of meta_vars name of Some ty \<Rightarrow> meta_value P env name ty | None \<Rightarrow> None)"
  using server_loop_get [OF assms(1) meta_vars_distinct assms(2)] assms(1) by (auto simp: objects_ok_def split: option.splits)

lemma server_loop_get_meta:
  assumes "objects_ok P" "server_loop P env meta_vars (make_object_0 P) = Some server"
  shows "object_get P server name =
     (case map_of meta_vars name of Some ty \<Rightarrow> meta_value P env name ty | None \<Rightarrow> None)"
  using server_loop_get [OF assms(1) meta_vars_distinct assms(2)] assms(1) by (auto simp: objects_ok_def split: option.splits)

text \<open>
  A request without a method ends the worker: \<open>strcasecmp\<close> gets the null pointer that stands for the
  missing string.
\<close>

theorem no_method_crash:
  assumes "objects_ok P" "server_loop P (getenv (wio e)) meta_vars (make_object_0 P) = Some server"
    and "getenv (wio e) ''REQUEST_METHOD'' = None"
  shows "make_request P L e = None"
proof -
  have "map_of meta_vars ''REQUEST_METHOD'' = Some VT_STRING" by (simp add: meta_vars_def)
  then have "object_get P server ''REQUEST_METHOD'' = None"
    using server_loop_get_meta [OF assms(1,2), of "''REQUEST_METHOD''"] assms(3) by (simp add: meta_value_def)
  then show ?thesis using assms(1,2) by (simp add: make_request_def server_var_def no_request_def objects_ok_def)
qed

section \<open>How many programs a worker runs\<close>

lemma run_request_round:
  assumes "run_request P L limit verbose nr vdom info e = Some (s, e')"
  shows "s = Stop EXIT_RETRY nr \<or> s = (if limit < nr + 1 then Stop EXIT_SUCCESS (nr + 1) else Next 0 (nr + 1))"
  using assms by (auto simp: run_request_def Let_def bind_eq_Some_conv split: prod.splits option.splits bool.splits if_splits)

lemma serve_request_round:
  assumes "serve_request P L limit verbose nr e = Some (s, e')"
  shows "s = Stop EXIT_RETRY nr \<or> (\<exists>rc. rc \<noteq> 0 \<and> s = Next rc nr) \<or>
     s = (if limit < nr + 1 then Stop EXIT_SUCCESS (nr + 1) else Next 0 (nr + 1))"
  using assms run_request_round
  by (fastforce simp: serve_request_def bind_eq_Some_conv split: prod.splits if_splits)

lemma executor_loop_count:
  assumes "executor_loop n P L limit verbose rt nr e = Some (o1, k, e')" "nr \<le> limit"
  shows "nr \<le> k \<and> k \<le> limit + 1 \<and> (k = limit + 1 \<longrightarrow> o1 = Returned EXIT_SUCCESS)"
  using assms
proof (induction n arbitrary: rt nr e)
  case (Suc n)
  then obtain rc e1 where a: "on_io (FCGI_Accept (resolve L) (block_in L) (block_out L) (block_err L)) e = Some (rc, e1)"
    by (auto simp: bind_eq_Some_conv)
  show ?case
  proof (cases "\<exists>code. rc = Inl code \<or> rc = Inr code \<and> code < 0")
    case True
    then show ?thesis using Suc.prems a by auto
  next
    case False
    then obtain s e2 where s: "serve_request P L limit verbose nr e1 = Some (s, e2)"
      using Suc.prems(1) a by (cases rc) (auto simp: bind_eq_Some_conv)
    then have r: "(case s of Stop rt nr \<Rightarrow> Some (Returned rt, nr, e2) | Next rt nr \<Rightarrow> executor_loop n P L limit verbose rt nr e2) =
        Some (o1, k, e')"
      using Suc.prems(1) a False by (cases rc) auto
    show ?thesis
      using serve_request_round [OF s] r Suc.IH [of _ _ e2] Suc.prems(2)
      by (fastforce split: if_splits)
  qed
qed simp

text \<open>
  C37. A worker runs at most one program more than its option \<open>-e\<close> allows; when it has run that many,
  it returns with success, whatever is still to come.
\<close>

theorem executions_bounded:
  assumes "hvml_executor n P L app script query limit verbose e = Some (o1, k, e')" "0 \<le> limit"
  shows "0 \<le> k \<and> k \<le> limit + 1 \<and> (k = limit + 1 \<longrightarrow> o1 = Returned EXIT_SUCCESS)"
proof (cases "\<exists>rt e1. executor_loop n P L limit verbose rt 0 e1 = Some (o1, k, e')")
  case True
  then show ?thesis using executor_loop_count assms(2) by blast
next
  case False
  then have "k = 0"
    using assms(1) by (auto simp: hvml_executor_def Let_def split: if_splits option.splits prod.splits outcome.splits)
  then show ?thesis using assms(2) by simp
qed

end
