(* ===== verification/Executor_Output.thy ===== *)
theory Executor_Output
  imports Executor_Laws
begin

text \<open>
  What a worker of the FastCGI server makes of a request: where it reads the body from, and what its peer
  receives for a program that ran and for a request that is refused.
\<close>

section \<open>Writing through the package\<close>

lemma writes_printf:
  assumes "\<forall>(l, k) \<in> set ps. lit_ok l \<and> conv_ok k" "lit_ok lst"
  shows "writes i (\<lambda>s c. do {
      (n, _, s, c) \<leftarrow> FCGX_VFPrintF fd fexp EmptyBuffProc (format_of ps lst) (concat (map (conv_args \<circ> snd) ps)) s c;
      Some (n, s, c) }) (int (length (text_of ps lst))) (ascii (text_of ps lst))"
  using records.VFPrintF_rel [OF _ assms, of _ _ _ _ _ _ _ _ fd fexp] by (fastforce simp: writes_def)

definition served_worker ::
  "nat \<Rightarrow> byte list \<Rightarrow> stdio_state \<Rightarrow> byte list \<Rightarrow> byte list \<Rightarrow> 'p worker \<Rightarrow> bool" where
  "served_worker i base r0 outd errd e \<longleftrightarrow> served i base r0 outd errd (wio e)"

text \<open>\<open>printed i base r0 outd errd bs m e\<close>: the action \<open>m\<close> writes \<open>bs\<close> to standard output and changes nothing else.\<close>

definition printed ::
  "nat \<Rightarrow> byte list \<Rightarrow> stdio_state \<Rightarrow> byte list \<Rightarrow> ('p worker \<Rightarrow> 'p worker option) \<Rightarrow> bool" where
  "printed i base r0 bs m \<longleftrightarrow> (\<forall>e outd errd. served_worker i base r0 outd errd e \<longrightarrow>
     (\<exists>r. m e = Some (e\<lparr>wio := r\<rparr>) \<and> served_worker i base r0 (outd @ bs) errd (e\<lparr>wio := r\<rparr>)))"

named_theorems printed_intros

lemma printed_seq [printed_intros]:
  assumes "printed i base r0 bs m" "printed i base r0 cs m'"
  shows "printed i base r0 (bs @ cs) (\<lambda>e. do { e \<leftarrow> m e; m' e })"
  unfolding printed_def
proof (intro allI impI)
  fix e :: "'a worker" and outd errd
  assume s: "served_worker i base r0 outd errd e"
  obtain r where r: "m e = Some (e\<lparr>wio := r\<rparr>)" "served_worker i base r0 (outd @ bs) errd (e\<lparr>wio := r\<rparr>)"
    using assms(1) s unfolding printed_def by blast
  obtain r' where "m' (e\<lparr>wio := r\<rparr>) = Some (e\<lparr>wio := r\<rparr>\<lparr>wio := r'\<rparr>)"
    "served_worker i base r0 ((outd @ bs) @ cs) errd (e\<lparr>wio := r\<rparr>\<lparr>wio := r'\<rparr>)"
    using assms(2) r(2) unfolding printed_def by blast
  then show "\<exists>r. do { e \<leftarrow> m e; m' e } = Some (e\<lparr>wio := r\<rparr>) \<and>
      served_worker i base r0 (outd @ bs @ cs) errd (e\<lparr>wio := r\<rparr>)"
    using r(1) by auto
qed

lemma printed_nothing [printed_intros]: "printed i base r0 [] Some"
  unfolding printed_def
proof (intro allI impI)
  fix e :: "'a worker" and outd errd
  assume "served_worker i base r0 outd errd e"
  then show "\<exists>r. Some e = Some (e\<lparr>wio := r\<rparr>) \<and> served_worker i base r0 (outd @ []) errd (e\<lparr>wio := r\<rparr>)"
    by (intro exI [of _ "wio e"]) simp
qed

lemma printed_on_io:
  assumes "\<And>r outd errd. served i base r0 outd errd r \<Longrightarrow> \<exists>x r'. f r = Some (x, r') \<and> served i base r0 (outd @ bs) errd r'"
  shows "printed i base r0 bs (\<lambda>e. do { (_, e) \<leftarrow> on_io f e; Some e })"
  unfolding printed_def on_io_def served_worker_def using assms by fastforce

lemma printed_put_line [printed_intros]:
  assumes "\<forall>(l, k) \<in> set ps. lit_ok l \<and> conv_ok k" "lit_ok lst"
  shows "printed i base r0 (ascii (text_of ps lst)) (put_line L (format_of ps lst) (concat (map (conv_args \<circ> snd) ps)))"
  unfolding put_line_def
proof (rule printed_on_io)
  fix r outd errd
  assume s: "served i base r0 outd errd r"
  then have "on_streams r" by (simp add: served_def)
  then show "\<exists>x r'. FCGI_fprintf (vformat L) (format_double L) (exponent L) 1 (format_of ps lst)
      (concat (map (conv_args \<circ> snd) ps)) r = Some (x, r') \<and> served i base r0 (outd @ ascii (text_of ps lst)) errd r'"
    using served_writes [OF s _ writes_printf [OF assms], of 1 "format_double L" "exponent L"]
    by (auto simp: FCGI_fprintf_def dispatch_stream print_stream_def if_fp_def)
qed

lemma printed_literal [printed_intros]:
  "lit_ok lit \<Longrightarrow> printed i base r0 (ascii lit) (put_line L lit [])"
  using printed_put_line [of "[]" lit i base r0 L] by (simp add: format_of_def text_of_def)

lemma served_streams: "served i base r0 outd errd r \<Longrightarrow> on_streams r"
  by (simp add: served_def)

lemma served_fwrite:
  assumes "length bs < 2147483648" "length bs = sz * nmemb" and s: "served i base r0 outd errd r"
  shows "\<exists>x r'. FCGI_fwrite bs sz nmemb 1 r = Some (x, r') \<and> served i base r0 (outd @ bs) errd r'"
proof (cases "bs = []")
  case True
  then have "byte_count sz nmemb = 0" using assms(2) by (auto simp: byte_count_def)
  then show ?thesis using True s served_streams [OF s] by (simp add: FCGI_fwrite_def dispatch_stream)
next
  case False
  have c: "byte_count sz nmemb = length bs" "signed_to 32 (int (length bs)) = int (length bs)"
    using assms(1) by (simp_all add: byte_count_def signed_to_def flip: assms(2))
  then show ?thesis
    using False served_writes [OF s _ writes_PutStr [of i bs], of 1] served_streams [OF s]
    by (auto simp: FCGI_fwrite_def dispatch_stream Let_def if_fp_def)
qed

lemma printed_fwrite:
  assumes "length bs < 2147483648" "length bs = sz * nmemb"
  shows "printed i base r0 bs (\<lambda>e. do { (_, e) \<leftarrow> on_io (FCGI_fwrite bs sz nmemb 1) e; Some e })"
  by (rule printed_on_io) (rule served_fwrite [OF assms])

lemma printed_write_cb:
  assumes "length bs < 2147483648"
  shows "printed i base r0 bs (\<lambda>e. do { (_, e) \<leftarrow> on_io (cb_stdio_write bs) e; Some e })"
proof (rule printed_on_io)
  fix r outd errd
  assume "served i base r0 outd errd r"
  from served_fwrite [OF assms _ this, of 1 "length bs"]
  show "\<exists>x r'. cb_stdio_write bs r = Some (x, r') \<and> served i base r0 (outd @ bs) errd r'"
    by (auto simp: cb_stdio_write_def)
qed

lemma write_chunks_Cons:
  "write_chunks (bs # bss) = (\<lambda>e. do { e \<leftarrow> do { (_, e) \<leftarrow> on_io (cb_stdio_write bs) e; Some e }; write_chunks bss e })"
  by (rule ext) (simp add: split_def)

lemma printed_chunks [printed_intros]:
  "\<forall>bs \<in> set bss. length bs < 2147483648 \<Longrightarrow> printed i base r0 (concat bss) (write_chunks bss)"
proof (induction bss)
  case Nil
  have "write_chunks [] = Some" by (rule ext) simp
  then show ?case by (simp add: printed_nothing)
next
  case (Cons bs bss)
  have "length bs < 2147483648" "\<forall>bs \<in> set bss. length bs < 2147483648" using Cons.prems by simp_all
  then show ?case using printed_seq [OF printed_write_cb Cons.IH] unfolding write_chunks_Cons concat.simps by blast
qed

section \<open>The response of a program\<close>

lemma headers_ok: "lit_ok html_header" "lit_ok json_header"
  by (simp_all add: html_header_def json_header_def lit_ok_def CRLF2_def NUL_def)

text \<open>An item that has no bytes is left out.\<close>

definition item_text :: "('v, 'd, 'c, 'o, 'p) runtime \<Rightarrow> 'v \<Rightarrow> byte list" where
  "item_text P item = (case bytes_const P item of None \<Rightarrow> [] | Some bs \<Rightarrow> content_of P item bs)"

definition program_text :: "('v, 'd, 'c, 'o, 'p) runtime \<Rightarrow> 'o \<Rightarrow> 'v \<Rightarrow> byte list" where
  "program_text P doc result =
     (if is_html P doc then ascii html_header @ concat (serialize_doc P doc)
      else case array_items P result of
        Some (item # items) \<Rightarrow> concat (map (item_text P) (item # items))
      | _ \<Rightarrow> ascii json_header @ concat (serialize P result))"

text \<open>No piece is longer than an \<open>int\<close> can say.\<close>

definition pieces_ok :: "('v, 'd, 'c, 'o, 'p) runtime \<Rightarrow> 'o \<Rightarrow> 'v \<Rightarrow> bool" where
  "pieces_ok P doc result \<longleftrightarrow>
     (\<forall>bs \<in> set (serialize_doc P doc) \<union> set (serialize P result). length bs < 2147483648) \<and>
     (\<forall>items. array_items P result = Some items \<longrightarrow>
        (\<forall>item \<in> set items. \<forall>bs. bytes_const P item = Some bs \<longrightarrow> length bs < 2147483648))"

lemma printed_item:
  assumes "\<forall>bs. bytes_const P item = Some bs \<longrightarrow> length bs < 2147483648"
  shows "printed i base r0 (item_text P item) (write_item P item)"
proof (cases "\<exists>b bs. bytes_const P item = Some (b # bs)")
  case True
  then obtain b bs where b: "bytes_const P item = Some (b # bs)" by blast
  let ?c = "content_of P item (b # bs)"
  have "length (b # bs) < 2147483648" using assms b by blast
  then have "length ?c < 2147483648" by (auto simp: content_of_def)
  then have "printed i base r0 ?c (\<lambda>e. do { (_, e) \<leftarrow> on_io (FCGI_fwrite ?c (length ?c) 1 1) e; Some e })"
    by (intro printed_fwrite) auto
  moreover have "write_item P item = (\<lambda>e. do { (_, e) \<leftarrow> on_io (FCGI_fwrite ?c (length ?c) 1 1) e; Some e })"
    by (rule ext) (simp add: write_item_def b)
  ultimately show ?thesis by (simp add: item_text_def b)
next
  case False
  then have n: "bytes_const P item = None \<or> bytes_const P item = Some []"
    by (cases "bytes_const P item"; cases "the (bytes_const P item)") auto
  then have "item_text P item = []" by (auto simp: item_text_def content_of_def)
  moreover have "write_item P item = Some" by (rule ext) (use n in \<open>auto simp: write_item_def\<close>)
  ultimately show ?thesis by (simp add: printed_nothing)
qed

lemma printed_items:
  assumes "\<forall>item \<in> set items. \<forall>bs. bytes_const P item = Some bs \<longrightarrow> length bs < 2147483648"
  shows "printed i base r0 (concat (map (item_text P) items)) (write_items P items)"
  using assms
proof (induction items)
  case Nil
  have "write_items P [] = Some" by (rule ext) simp
  then show ?case by (simp add: printed_nothing)
next
  case (Cons item items)
  have "write_items P (item # items) = (\<lambda>e. do { e \<leftarrow> write_item P item e; write_items P items e })" by (rule ext) simp
  then show ?case using printed_seq [OF printed_item, of P item] Cons by simp
qed

lemma printed_exit:
  assumes "pieces_ok P doc result"
  shows "printed i base r0 (program_text P doc result) (prog_cond_handler P L True cor (Cor_exited cor doc result))"
proof -
  have p: "printed i base r0 (concat (serialize_doc P doc)) (write_chunks (serialize_doc P doc))"
    "printed i base r0 (concat (serialize P result)) (write_chunks (serialize P result))"
    using assms by (auto simp: pieces_ok_def intro!: printed_chunks)
  show ?thesis
  proof (cases "is_html P doc")
    case True
    then have "prog_cond_handler P L True cor (Cor_exited cor doc result) =
        (\<lambda>e. do { e \<leftarrow> put_line L html_header [] e; write_chunks (serialize_doc P doc) e })"
      by (intro ext) (simp add: prog_cond_handler_def)
    then show ?thesis using printed_seq [OF printed_literal [OF headers_ok(1)] p(1)] True by (simp add: program_text_def)
  next
    case False
    show ?thesis
    proof (cases "\<exists>item items. array_items P result = Some (item # items)")
      case True
      then obtain item items where a: "array_items P result = Some (item # items)" by blast
      have "printed i base r0 (concat (map (item_text P) (item # items))) (write_items P (item # items))"
        by (rule printed_items) (use assms a in \<open>auto simp: pieces_ok_def\<close>)
      moreover have "prog_cond_handler P L True cor (Cor_exited cor doc result) = write_items P (item # items)"
        "program_text P doc result = concat (map (item_text P) (item # items))"
        using a \<open>\<not> is_html P doc\<close> by (simp_all add: prog_cond_handler_def program_text_def fun_eq_iff)
      ultimately show ?thesis by simp
    next
      case False
      then have n: "array_items P result = None \<or> array_items P result = Some []"
        by (cases "array_items P result"; cases "the (array_items P result)") auto
      have "prog_cond_handler P L True cor (Cor_exited cor doc result) =
          (\<lambda>e. do { e \<leftarrow> put_line L json_header [] e; write_chunks (serialize P result) e })"
        by (rule ext) (use n \<open>\<not> is_html P doc\<close> in \<open>auto simp: prog_cond_handler_def\<close>)
      moreover have "program_text P doc result = ascii json_header @ concat (serialize P result)"
        using n \<open>\<not> is_html P doc\<close> by (auto simp: program_text_def)
      ultimately show ?thesis using printed_seq [OF printed_literal [OF headers_ok(2)] p(2)] by simp
    qed
  qed
qed

text \<open>What the handler writes for an event, in the worker's mode, which is verbose.\<close>

definition event_text :: "('v, 'd, 'c, 'o, 'p) runtime \<Rightarrow> 'c \<Rightarrow> ('c, 'o, 'v) cond \<Rightarrow> byte list" where
  "event_text P main_crtn event =
     (case event of Cor_exited cor doc result \<Rightarrow> if cor = main_crtn then program_text P doc result else [] | _ \<Rightarrow> [])"

text \<open>No coroutine ends by an exception, and what one leaves behind has pieces that can be written.\<close>

definition event_ok :: "('v, 'd, 'c, 'o, 'p) runtime \<Rightarrow> ('c, 'o, 'v) cond \<Rightarrow> bool" where
  "event_ok P event \<longleftrightarrow>
     (case event of One_run cor idx \<Rightarrow> True | Cor_exited cor doc result \<Rightarrow> pieces_ok P doc result | Cor_terminated cor doc \<Rightarrow> False)"

lemma printed_event:
  assumes "event_ok P event"
  shows "printed i base r0 (event_text P main_crtn event) (prog_cond_handler P L True main_crtn event)"
proof (cases event)
  case (One_run cor idx)
  have "prog_cond_handler P L True main_crtn event = Some"
    by (rule ext) (simp add: prog_cond_handler_def One_run)
  then show ?thesis by (simp add: event_text_def One_run printed_nothing)
next
  case (Cor_exited cor doc result)
  show ?thesis
  proof (cases "cor = main_crtn")
    case True
    then show ?thesis using printed_exit [of P doc result] assms by (simp add: event_text_def event_ok_def Cor_exited)
  next
    case False
    have "prog_cond_handler P L True main_crtn event = Some"
      by (rule ext) (simp add: prog_cond_handler_def Cor_exited False)
    then show ?thesis by (simp add: event_text_def Cor_exited False printed_nothing)
  qed
next
  case (Cor_terminated cor doc)
  then show ?thesis using assms by (simp add: event_ok_def)
qed

lemma handle_events_Cons:
  "handle_events P L verbose main_crtn (event # events) =
     (\<lambda>e. do { e \<leftarrow> prog_cond_handler P L verbose main_crtn event e; handle_events P L verbose main_crtn events e })"
  by (rule ext) simp

lemma printed_events:
  "\<forall>event \<in> set events. event_ok P event \<Longrightarrow>
   printed i base r0 (concat (map (event_text P main_crtn) events)) (handle_events P L True main_crtn events)"
proof (induction events)
  case Nil
  have "handle_events P L True main_crtn [] = Some" by (rule ext) simp
  then show ?case by (simp add: printed_nothing)
next
  case (Cons event events)
  then show ?case
    unfolding handle_events_Cons list.map concat.simps by (intro printed_seq [OF printed_event Cons.IH]) simp_all
qed

lemma run_request_printed:
  assumes s: "served_worker i base r0 outd errd e"
    and "schedule_vdom P vdom (i_request info) (interp e) = (Some cor, p1)"
    and "bind_all P cor (request_vars info) p1 = (True, p2)"
    and "purc_run P p2 = (events, 0, p3)" "\<forall>event \<in> set events. event_ok P event"
  shows "\<exists>e'. run_request P L limit True nr vdom info e =
       Some (if limit < nr + 1 then Stop EXIT_SUCCESS (nr + 1) else Next 0 (nr + 1), e') \<and>
     served_worker i base r0 (outd @ concat (map (event_text P cor) events)) errd e'"
proof -
  have "served_worker i base r0 outd errd (e\<lparr>interp := p3\<rparr>)" using s by (simp add: served_worker_def)
  then obtain e' where "handle_events P L True cor events (e\<lparr>interp := p3\<rparr>) = Some e'"
    "served_worker i base r0 (outd @ concat (map (event_text P cor) events)) errd e'"
    using printed_events [OF assms(5), of i base r0 cor L] unfolding printed_def by blast
  then show ?thesis using assms(2-4) by (simp add: run_request_def)
qed

text \<open>
  C4. What a program leaves behind is what the peer receives.  When the program of a request is run
  and its coroutines exit, the response, which \<open>FCGI_Finish\<close> completes, carries on standard
  output exactly the header and the document, the items of the result, or the result as JSON,
  and nothing on standard error.
\<close>

theorem program_answered:
  assumes "serving_at i (sent (wio e)) [] [] [] (wio e) out er" "on_streams (wio e)"
    and "in_stream (wio e) = Some s" "FCGX_GetError s = 0" "nWriters (wio e) = 2" "0 \<le> ipcFd (wio e)" "\<not> detached (wio e)"
    and "schedule_vdom P vdom (i_request info) (interp e) = (Some cor, p1)"
    and "bind_all P cor (request_vars info) p1 = (True, p2)"
    and "purc_run P p2 = (events, 0, p3)" "\<forall>event \<in> set events. event_ok P event"
  shows "\<exists>round e' r2 fs gs. run_request P L limit True nr vdom info e = Some (round, e') \<and>
     FCGI_Finish (wio e') = Some r2 \<and>
     frames_data 6 (fs @ gs) = concat (map (event_text P cor) events) \<and> frames_data 7 (fs @ gs) = [] \<and>
     (\<forall>f \<in> set (fs @ gs). response_frame i f) \<and>
     (let all = sent (wio e) @ response_bytes i (appStatus (wio e)) fs False gs
      in if keepConnection (wio e) then sent r2 = all \<and> closed_fds r2 = closed_fds (wio e)
         else closed_fds r2 = closed_fds (wio e) @ [(ipcFd (wio e), True, all)])"
proof -
  have "served_worker i (sent (wio e)) (wio e) [] [] e"
    using served_start [OF assms(1,2)] by (simp add: served_worker_def)
  from run_request_printed [OF this assms(8-11)] obtain round e' where
    1: "run_request P L limit True nr vdom info e = Some (round, e')"
      "served i (sent (wio e)) (wio e) (concat (map (event_text P cor) events)) [] (wio e')"
    unfolding served_worker_def append_Nil by blast
  show ?thesis using 1(1) served_Finish [OF 1(2) assms(3-7)] by simp
qed

section \<open>A request that is refused\<close>

lemma pages_ok: "lit_ok (error_page ''Bad Request'')" "lit_ok (error_page ''Internal Server Error'')"
  by (simp_all add: error_page_def lit_ok_def NUL_def)

lemma send_resp_400:
  "send_resp L 400 = (\<lambda>e. do { e \<leftarrow> put_line L html_header [] e; put_line L (error_page ''Bad Request'') [] e })"
  by (rule ext) (simp add: send_resp_def)

lemma printed_send_resp:
  "printed i base r0 (ascii (html_header @ error_page ''Bad Request'')) (send_resp L 400)"
  unfolding send_resp_400 ascii_def map_append
  by (intro printed_seq printed_literal [unfolded ascii_def] headers_ok pages_ok)

text \<open>
  C35. A request that is refused is answered with the page of status 400, which is a complete response
  of status 200: there is no status line in it.  The worker goes on.
\<close>

theorem refused_answered:
  assumes "make_request P L e = Some ((rc, info), e1)" "rc \<noteq> 0"
    and "serving_at i (sent (wio e1)) [] [] [] (wio e1) out er" "on_streams (wio e1)"
    and "in_stream (wio e1) = Some s" "FCGX_GetError s = 0" "nWriters (wio e1) = 2" "0 \<le> ipcFd (wio e1)" "\<not> detached (wio e1)"
  shows "\<exists>e' r2 fs gs. serve_request P L limit verbose nr e = Some (Next rc nr, e') \<and> FCGI_Finish (wio e') = Some r2 \<and>
     frames_data 6 (fs @ gs) = ascii (html_header @ error_page ''Bad Request'') \<and> frames_data 7 (fs @ gs) = [] \<and>
     (\<forall>f \<in> set (fs @ gs). response_frame i f) \<and>
     (let all = sent (wio e1) @ response_bytes i (appStatus (wio e1)) fs False gs
      in if keepConnection (wio e1) then sent r2 = all \<and> closed_fds r2 = closed_fds (wio e1)
         else closed_fds r2 = closed_fds (wio e1) @ [(ipcFd (wio e1), True, all)])"
proof -
  have "served_worker i (sent (wio e1)) (wio e1) [] [] e1"
    using served_start [OF assms(3,4)] by (simp add: served_worker_def)
  then obtain e' where 1: "send_resp L 400 e1 = Some e'"
    "served i (sent (wio e1)) (wio e1) (ascii (html_header @ error_page ''Bad Request'')) [] (wio e')"
    using printed_send_resp unfolding printed_def served_worker_def by (metis append_Nil)
  then have "serve_request P L limit verbose nr e = Some (Next rc nr, e')"
    using assms(1,2) by (simp add: serve_request_def)
  then show ?thesis using served_Finish [OF 1(2) assms(5-9)] by simp
qed

section \<open>The body\<close>

lemma c_getn_end:
  "f_read f \<Longrightarrow> f_back f = [] \<Longrightarrow> length (f_bytes f) \<le> f_pos f \<Longrightarrow> fst (c_getn n f) = []"
  by (induction n) (simp_all add: c_getc_def)

text \<open>
  C36. A form is not read from its request.  \<open>mpart-body-processor.c\<close> reads the standard input of the C
  library; when that is at its end, as it is in a worker of the process manager, whose descriptor 0
  is the listening socket, every form comes out empty, and the stream of the request, where the body is, is
  not touched.
\<close>

theorem form_body_ignored:
  assumes "served_worker i base r0 outd errd e" "NUL \<notin> set boundary"
    and "c_files (wio e) 0 = Some f" "f_read f" "f_back f = []" "length (f_bytes f) \<le> f_pos f"
  shows "\<exists>e'. body_part P L CT_FORM_DATA (Some boundary) n info e =
       Some ((True, info\<lparr>i_post := Some (make_object_0 P), i_files := Some (make_object_0 P)\<rparr>), e') \<and>
     in_stream (wio e') = in_stream (wio e)"
proof -
  have l: "\<forall>(l, k) \<in> set [(''boundary: '', C_str boundary)]. lit_ok l \<and> conv_ok k" "lit_ok [CHR 0x0A]"
    using assms(2) by (simp_all add: lit_ok_def NUL_def)
  have fmt: "format_of [(''boundary: '', C_str boundary)] [CHR 0x0A] = ''boundary: %s'' @ [CHR 0x0A]"
    "concat (map (conv_args \<circ> snd) [(''boundary: '', C_str boundary)]) = [A_str (Some boundary)]"
    by (simp_all add: format_of_def)
  obtain r where r: "put_line L (''boundary: %s'' @ [CHR 0x0A]) [A_str (Some boundary)] e = Some (e\<lparr>wio := r\<rparr>)"
    "served i base r0 (outd @ ascii (text_of [(''boundary: '', C_str boundary)] [CHR 0x0A])) errd r"
    using printed_put_line [OF l, of i base r0 L] assms(1) unfolding fmt printed_def served_worker_def by fastforce
  have k: "c_files r 0 = Some f" "in_stream r = in_stream (wio e)"
    using assms(1,3) r(2) by (auto simp: served_worker_def served_def request_kept_def)
  have "body_loop (purc.truncate P) [] p d 0 = Some (0, p, d)" for p d
    by (simp add: body_loop.simps multipart_parser_execute_def)
  then show ?thesis using r(1) k c_getn_end [OF assms(4-6)]
    by (simp add: body_part_def parse_form_def chars_def new_processor_def purc.defs)
qed

text \<open>
  C18. The body of a URL-encoded form is read from the request: as many bytes as the content length says, in
  whatever records and chunks they come, are handed to the parser of query strings; a body that is shorter
  gives no object.
\<close>

theorem urlencoded_body:
  assumes "fcgi_files (wio e) 0 = Some \<lparr>stdio_stream = None, fcgx_stream = Some Req_in\<rparr>" "in_stream (wio e) = Some s"
    and "at_start 5 i s (wio e) (packets_bytes 5 i ms @ frame_bytes (end_frame 5 i pad x) @ rest)"
    and "packets_ok 5 i ms" "length pad < 256" "has_memory L (n + 1)" "0 < n" "n < 2147483648"
  shows "\<exists>e'. parse_content_as_form_urlencoded P L n e =
     Some (if n \<le> length (packets_data ms) then query_object P (cstr (chars (take n (packets_data ms)))) True else None, e')"
proof -
  have n: "byte_count 1 n = n" "signed_to 32 (int n) = int n" using assms(8) by (simp_all add: byte_count_def signed_to_def)
  have "\<exists>s' c'. FCGX_GetStr FillBuffProc (int n) s (wio e) = Some (take n (packets_data ms), s', c')"
  proof (cases "n \<le> length (packets_data ms)")
    case True
    then show ?thesis using client.GetStr_enough [OF at_start_rel [OF assms(3-5)]] by blast
  next
    case False
    then show ?thesis using client.GetStr_short [OF at_start_rel [OF assms(3-5)], of n] by auto
  qed
  then obtain s' c' where g: "FCGX_GetStr FillBuffProc (int n) s (wio e) = Some (take n (packets_data ms), s', c')" by blast
  have "FCGI_fread 1 n 0 (wio e) = Some ((length (take n (packets_data ms)), take n (packets_data ms)), c'\<lparr>in_stream := Some s'\<rparr>)"
    using assms(1,2,7) n g
    by (simp add: FCGI_fread_def dispatch_def on_stream_def get_stream_def set_stream_def)
  then show ?thesis
    using assms(6) by (simp add: parse_content_as_form_urlencoded_def read_content_def on_io_def min_def)
qed

end
