(* ===== verification/Executor_Samples.thy ===== *)
theory Executor_Samples
  imports Executor_Output
begin

text \<open>
  A small interpreter and workers on it: the theorems about the executor at concrete inputs.
\<close>

datatype variant = V_null | V_num nat | V_str string | V_obj "(string \<times> variant) list"

fun sample_get :: "variant \<Rightarrow> string \<Rightarrow> variant option" where
  "sample_get (V_obj kvs) k = map_of kvs k"
| "sample_get _ k = None"

fun sample_set :: "variant \<Rightarrow> string \<Rightarrow> variant \<Rightarrow> variant option" where
  "sample_set (V_obj kvs) k v = Some (V_obj ((k, v) # kvs))"
| "sample_set _ k v = None"

fun sample_string :: "variant option \<Rightarrow> string option" where
  "sample_string (Some (V_str s)) = Some s"
| "sample_string _ = None"

fun sample_uint :: "variant option \<Rightarrow> nat option" where
  "sample_uint (Some (V_num n)) = Some n"
| "sample_uint _ = None"

fun sample_unite :: "variant \<Rightarrow> variant \<Rightarrow> variant option" where
  "sample_unite (V_obj xs) (V_obj ys) = Some (V_obj (ys @ xs))"
| "sample_unite _ _ = None"

definition sample_runtime :: "(variant, unit, nat, unit, nat) runtime" where
  "sample_runtime =
     \<lparr>make_object_0 = V_obj [], make_null = V_null, make_string = (\<lambda>s. Some (V_str s)), make_ulongint = V_num,
      object_set = (\<lambda>obj k v. case v of None \<Rightarrow> obj | Some v \<Rightarrow> the (sample_set obj k v)), object_get = sample_get,
      new_ulongint = (\<lambda>n. Some (V_num n)), new_string = (\<lambda>s. Some (V_str s)), set_ckey = sample_set,
      string_const = sample_string, to_uint32 = sample_uint,
      query_object = (\<lambda>s keep. Some (V_obj [(''q'', V_str s)])), reuse_buff = (\<lambda>bs. Some (V_str (chars bs))),
      json_load = (\<lambda>cb r. Some (None, r)), unite = sample_unite, load_hvml = map_option (\<lambda>_. ()),
      init_ex = (\<lambda>app runner. Some 0), new_stream = (\<lambda>_. True),
      schedule_vdom = (\<lambda>vdom request p. (Some 1, p)), bind_variable = (\<lambda>cor name v p. (True, p)),
      purc_run = (\<lambda>p. ([One_run 1 0, Cor_exited 1 () V_null], 0, p + 1)),
      is_html = (\<lambda>_. True), array_items = (\<lambda>_. None), bytes_const = (\<lambda>_. None),
      serialize_doc = (\<lambda>_. [[72, 105], [33]]), serialize = (\<lambda>_. []), dump_stack = (\<lambda>_. [])\<rparr>"

definition sample_platform :: "unit platform" where
  "sample_platform =
     \<lparr>resolve = (\<lambda>_. 0), block_in = 0, block_out = 0, block_err = 0, vformat = (\<lambda>format args. ascii format),
      format_double = (\<lambda>_ _. []), exponent = (\<lambda>_. 0), has_memory = (\<lambda>_. True),
      next_token = token_of, next_token_len = (\<lambda>s n. token_of (take n s)), getpid = 42\<rparr>"

lemma sample_tokens: "tokens_ok sample_platform"
  by (simp add: tokens_ok_def sample_platform_def)

lemma sample_set_get: "sample_set obj k v = Some obj' \<Longrightarrow> sample_get obj' k' = (if k' = k then Some v else sample_get obj k')"
  by (cases obj) auto

lemma sample_objects: "objects_ok sample_runtime"
  by (simp add: objects_ok_def sample_runtime_def sample_set_get)

section \<open>Content types and variables\<close>

lemma content_type_table_witness:
  "check_post_content_type sample_platform (''Text'' @ [CHR 0x2F] @ ''plain'') = Some (CT_PLAIN, None, None)"
proof -
  have "content_type_of ''Text'' ''plain'' = CT_PLAIN" by code_simp
  then show ?thesis using content_type_table [OF sample_tokens, of "''Text''" "''plain''"] by simp
qed

lemma charset_refused_witness:
  "check_post_content_type sample_platform ((''application'' @ [CHR 0x2F] @ ''json'') @ '';'' @ '' '' @ ''charset'' @ ''='' @ ''utf-8'') =
     Some (CT_BAD, None, None)"
  by (rule charset_refused [OF sample_tokens]) (simp_all add: strcasecmp_eq_def)

definition sample_cgi_env :: "string \<Rightarrow> string option" where
  "sample_cgi_env name = (if name = ''CONTENT_LENGTH'' then Some ''12'' else if name = ''HTTP_HOST'' then Some ''h'' else None)"

lemma sample_server_loop: "\<exists>server. server_loop sample_runtime env vars (V_obj kvs) = Some server"
  by (induction vars arbitrary: kvs) (auto simp: sample_runtime_def Let_def split: option.split)

lemma server_variables_witness:
  "\<exists>server. server_loop sample_runtime sample_cgi_env meta_vars (V_obj []) = Some server \<and>
     sample_get server ''CONTENT_LENGTH'' = Some (V_num 12) \<and> sample_get server ''HTTP_COOKIE'' = None"
proof -
  have g: "object_get sample_runtime = sample_get" "make_object_0 sample_runtime = V_obj []" by (simp_all add: sample_runtime_def)
  obtain server where s: "server_loop sample_runtime sample_cgi_env meta_vars (V_obj []) = Some server"
    using sample_server_loop by blast
  have m: "map_of meta_vars ''CONTENT_LENGTH'' = Some VT_ULONG" "map_of meta_vars ''HTTP_COOKIE'' = Some VT_STRING"
    "meta_value sample_runtime sample_cgi_env ''CONTENT_LENGTH'' VT_ULONG = Some (V_num 12)"
    "meta_value sample_runtime sample_cgi_env ''HTTP_COOKIE'' VT_STRING = None"
    by (simp_all add: meta_vars_def meta_value_def sample_cgi_env_def sample_runtime_def strtoul_def ULONG_MAX_def
        isspace_def is_digit_def number_def Let_def)
  show ?thesis
    using s server_variables [OF sample_objects, of sample_cgi_env server "''CONTENT_LENGTH''"]
      server_variables [OF sample_objects, of sample_cgi_env server "''HTTP_COOKIE''"]
    by (simp add: g m)
qed

section \<open>Workers\<close>

definition sample_worker :: "nat worker" where
  "sample_worker = \<lparr>wio = sample_process, tmp_files = [], saved = Map.empty, room = 0, interp = 0\<rparr>"

lemma no_method_crash_witness:
  "make_request sample_runtime sample_platform (sample_worker\<lparr>wio := sample_process\<lparr>environ := Some [None]\<rparr>\<rparr>) = None"
proof -
  let ?e = "sample_worker\<lparr>wio := sample_process\<lparr>environ := Some [None]\<rparr>\<rparr>"
  have env: "getenv (wio ?e) = (\<lambda>_. None)" by (rule ext) (simp add: getenv_def)
  have "make_object_0 sample_runtime = V_obj []" by (simp add: sample_runtime_def)
  then obtain server where "server_loop sample_runtime (getenv (wio ?e)) meta_vars (make_object_0 sample_runtime) = Some server"
    using sample_server_loop by metis
  then show ?thesis by (rule no_method_crash [OF sample_objects]) (simp only: env)
qed

lemma sample_process_served:
  "serving_at 1 (sent sample_process) [] [] [] sample_process (NewWriter 0 32 6) (NewWriter 0 32 7)"
  "on_streams sample_process" "in_stream sample_process = Some (NewReader 0 32 5)" "FCGX_GetError (NewReader 0 32 5) = 0"
  "nWriters sample_process = 2" "0 \<le> ipcFd sample_process" "\<not> detached sample_process"
  "sent sample_process = []" "closed_fds sample_process = []" "\<not> keepConnection sample_process"
  "ipcFd sample_process = 7" "appStatus sample_process = 3"
proof -
  have o: "writer_ok 6 (NewWriter 0 32 6)" "wrNext (NewWriter 0 32 6) = 8" using NewWriter_ok [of 6 0 32] by simp_all
  have e: "writer_ok 7 (NewWriter 0 32 7)" "wrNext (NewWriter 0 32 7) = 8" "\<not> isAnythingWritten (NewWriter 0 32 7)"
    using NewWriter_ok [of 7 0 32] by simp_all
  show "serving_at 1 (sent sample_process) [] [] [] sample_process (NewWriter 0 32 6) (NewWriter 0 32 7)"
    by (rule serving_start [OF _ o _ e])
      (simp_all add: sample_process_def sample_serving_def sample_request_def FCGX_Request.defs out_ok_def)
  show "FCGX_GetError (NewReader 0 32 5) = 0" by (simp add: FCGX_GetError_def NewReader_def NewStream_def Let_def)
qed (simp_all add: sample_process_def sample_serving_def sample_request_def FCGX_Request.defs on_streams_def std_stream_def)

lemma program_answered_witness:
  "\<exists>round e' r2 fs gs. run_request sample_runtime sample_platform 9 True 0 () no_request sample_worker = Some (round, e') \<and>
     FCGI_Finish (wio e') = Some r2 \<and> frames_data 6 (fs @ gs) = ascii html_header @ [72, 105, 33] \<and>
     closed_fds r2 = [(7, True, response_bytes 1 3 fs False gs)]"
proof -
  note s = sample_process_served
  have w: "wio sample_worker = sample_process" by (simp add: sample_worker_def)
  have 1: "schedule_vdom sample_runtime () (i_request no_request) (interp sample_worker) = (Some 1, 0)"
    "bind_all sample_runtime 1 (request_vars no_request) 0 = (True, 0)"
    "purc_run sample_runtime 0 = ([One_run 1 0, Cor_exited 1 () V_null], 0, 1)"
    by (simp_all add: sample_runtime_def sample_worker_def request_vars_def)
  have 2: "\<forall>event \<in> set [One_run 1 0, Cor_exited 1 () V_null]. event_ok sample_runtime event"
    by (simp add: event_ok_def pieces_ok_def sample_runtime_def)
  have 3: "concat (map (event_text sample_runtime 1) [One_run 1 0, Cor_exited 1 () V_null]) = ascii html_header @ [72, 105, 33]"
    by (simp add: event_text_def program_text_def sample_runtime_def)
  from program_answered [of 1 sample_worker, unfolded w, OF s(1-7) 1 2, of sample_platform 9 0]
  show ?thesis unfolding 3 Let_def s(8,9,11,12) if_not_P [OF s(10)] append_Nil by blast
qed

text \<open>An interpreter whose objects take no property: every request is refused.\<close>

definition bare_runtime :: "(variant, unit, nat, unit, nat) runtime" where
  "bare_runtime = sample_runtime\<lparr>set_ckey := (\<lambda>_ _ _. None)\<rparr>"

lemma refused_answered_witness:
  "\<exists>e' r2 fs gs. serve_request bare_runtime sample_platform 9 True 0 sample_worker = Some (Next (-1) 0, e') \<and>
     FCGI_Finish (wio e') = Some r2 \<and> frames_data 6 (fs @ gs) = ascii (html_header @ error_page ''Bad Request'') \<and>
     closed_fds r2 = [(7, True, response_bytes 1 3 fs False gs)]"
proof -
  note s = sample_process_served
  have w: "wio sample_worker = sample_process" by (simp add: sample_worker_def)
  have "server_loop bare_runtime env meta_vars v = None" for env v
    by (simp add: meta_vars_def bare_runtime_def sample_runtime_def Let_def split: option.split)
  then have "make_request bare_runtime sample_platform sample_worker = Some ((-1, no_request), sample_worker)"
    by (simp add: make_request_def release_request_def)
  from refused_answered [OF this, unfolded w, OF _ s(1-7), of 9 True 0]
  show ?thesis unfolding Let_def s(8,9,11,12) if_not_P [OF s(10)] append_Nil by auto
qed

text \<open>A worker with an empty standard input of the C library.\<close>

definition sample_empty :: FILE where
  "sample_empty = \<lparr>f_path = None, f_bytes = [], f_pos = 0, f_back = [], f_eof = False, f_err = False,
    f_read = True, f_write = False, f_append = False\<rparr>"

definition sample_form_worker :: "nat worker" where
  "sample_form_worker = sample_worker\<lparr>wio := sample_process\<lparr>c_files := (\<lambda>_. Some sample_empty)\<rparr>\<rparr>"

lemma form_body_ignored_witness:
  "\<exists>e'. body_part sample_runtime sample_platform CT_FORM_DATA (Some ''xyz'') 100 no_request sample_form_worker =
       Some ((True, no_request\<lparr>i_post := Some (V_obj []), i_files := Some (V_obj [])\<rparr>), e') \<and>
     in_stream (wio e') = Some (NewReader 0 32 5)"
proof -
  let ?r = "sample_process\<lparr>c_files := (\<lambda>_. Some sample_empty)\<rparr>"
  have o: "writer_ok 6 (NewWriter 0 32 6)" "wrNext (NewWriter 0 32 6) = 8" using NewWriter_ok [of 6 0 32] by simp_all
  have e: "writer_ok 7 (NewWriter 0 32 7)" "wrNext (NewWriter 0 32 7) = 8" "\<not> isAnythingWritten (NewWriter 0 32 7)"
    using NewWriter_ok [of 7 0 32] by simp_all
  have a: "serving_at 1 (sent ?r) [] [] [] ?r (NewWriter 0 32 6) (NewWriter 0 32 7)"
    by (rule serving_start [OF _ o _ e])
      (simp_all add: sample_process_def sample_serving_def sample_request_def FCGX_Request.defs out_ok_def)
  have b: "on_streams ?r" using sample_process_served(2) by (simp add: on_streams_def)
  have s: "served_worker 1 (sent ?r) ?r [] [] sample_form_worker"
    using served_start [OF a b] by (simp add: served_worker_def sample_form_worker_def)
  have "make_object_0 sample_runtime = V_obj []" "in_stream (wio sample_form_worker) = Some (NewReader 0 32 5)"
    "c_files (wio sample_form_worker) 0 = Some sample_empty"
    "f_read sample_empty" "f_back sample_empty = []" "length (f_bytes sample_empty) \<le> f_pos sample_empty" "NUL \<notin> set ''xyz''"
    using sample_process_served(3) by (simp_all add: sample_runtime_def sample_form_worker_def sample_empty_def NUL_def)
  then show ?thesis
    using form_body_ignored [OF s, of "''xyz''" sample_empty sample_runtime sample_platform 100 no_request] by simp
qed

definition sample_body_worker :: "nat worker" where
  "sample_body_worker = sample_worker\<lparr>wio := sample_process\<lparr>
     fcgi_files := (\<lambda>_. Some \<lparr>stdio_stream = None, fcgx_stream = Some Req_in\<rparr>),
     in_stream := Some (sample_reader (replicate 32 0)), isBeginProcessed := True,
     rd_script := map RData [take 5 sample_bytes, drop 5 sample_bytes]\<rparr>\<rparr>"

lemma urlencoded_body_witness:
  "\<exists>e'. parse_content_as_form_urlencoded sample_runtime sample_platform 2 sample_body_worker =
     Some (Some (V_obj [(''q'', V_str ''Hi'')]), e')"
proof -
  let ?e = sample_body_worker
  have 1: "fcgi_files (wio ?e) 0 = Some \<lparr>stdio_stream = None, fcgx_stream = Some Req_in\<rparr>"
    "in_stream (wio ?e) = Some (sample_reader (replicate 32 0))"
    by (simp_all add: sample_body_worker_def)
  have 2: "at_start 5 1 (sample_reader (replicate 32 0)) (wio ?e) (packets_bytes 5 1 sample_packets @ frame_bytes (end_frame 5 1 [0] 0) @ [1, 5])"
    by (simp add: at_start_def reader_ok_def net_ok_def out_ok_def sample_reader_def sample_body_worker_def sample_worker_def
      raw_def buffered_def sample_bytes_def sample_packets_def frame_bytes_def frame_header_def
      sample_process_def sample_serving_def sample_request_def FCGX_Request.defs)
  have 3: "packets_data sample_packets = [72, 105, 33]" by (simp add: sample_packets_def)
  have 4: "query_object sample_runtime (cstr (chars [72, 105])) True = Some (V_obj [(''q'', V_str ''Hi'')])"
    by (simp add: sample_runtime_def chars_def cstr_def NUL_def) code_simp
  show ?thesis
    using urlencoded_body [OF 1 2 sample_packets_ok, of sample_platform 2 sample_runtime] unfolding 3
    by (simp add: 4 sample_platform_def)
qed

section \<open>A CGI process\<close>

text \<open>The executor as a CGI program, with a limit of no program at all: it runs one.\<close>

definition cgi_process :: stdio_state where
  "cgi_process = sample_cgi\<lparr>isFastCGI := 0, acceptCalled := False,
     environ := Some [Some (ascii ''REQUEST_METHOD=GET''), Some (ascii ''SCRIPT_FILENAME=a''), None]\<rparr>"

definition cgi_worker :: "nat worker" where
  "cgi_worker = \<lparr>wio = cgi_process, tmp_files = [], saved = Map.empty, room = 0, interp = 0\<rparr>"

definition cgi_accepted :: stdio_state where
  "cgi_accepted = bind_std (\<lambda>i. \<lparr>stdio_stream = Some i, fcgx_stream = None\<rparr>) (cgi_process\<lparr>isCGI := True, acceptCalled := True\<rparr>)"

lemma cgi_Accept: "FCGI_Accept ia mb mo me cgi_process = Some (Inr 0, cgi_accepted)"
  by (simp add: FCGI_Accept_def cgi_process_def FCGX_IsCGI_def cgi_accepted_def)

lemma cgi_getenv:
  "getenv cgi_accepted ''REQUEST_METHOD'' = Some ''GET''" "getenv cgi_accepted ''SCRIPT_FILENAME'' = Some ''a''"
  "getenv cgi_accepted ''QUERY_STRING'' = None" "getenv cgi_accepted ''HTTP_COOKIE'' = None"
proof -
  have e: "environ cgi_accepted = Some [Some (ascii ''REQUEST_METHOD=GET''), Some (ascii ''SCRIPT_FILENAME=a''), None]"
    by (simp add: cgi_accepted_def cgi_process_def bind_std_def)
  have g: "map_option chars (FCGX_GetParam (ascii ''REQUEST_METHOD'') [Some (ascii ''REQUEST_METHOD=GET''), Some (ascii ''SCRIPT_FILENAME=a''), None]) = Some ''GET''"
    "map_option chars (FCGX_GetParam (ascii ''SCRIPT_FILENAME'') [Some (ascii ''REQUEST_METHOD=GET''), Some (ascii ''SCRIPT_FILENAME=a''), None]) = Some ''a''"
    "map_option chars (FCGX_GetParam (ascii ''QUERY_STRING'') [Some (ascii ''REQUEST_METHOD=GET''), Some (ascii ''SCRIPT_FILENAME=a''), None]) = None"
    "map_option chars (FCGX_GetParam (ascii ''HTTP_COOKIE'') [Some (ascii ''REQUEST_METHOD=GET''), Some (ascii ''SCRIPT_FILENAME=a''), None]) = None"
    by code_simp+
  show "getenv cgi_accepted ''REQUEST_METHOD'' = Some ''GET''" "getenv cgi_accepted ''SCRIPT_FILENAME'' = Some ''a''"
    "getenv cgi_accepted ''QUERY_STRING'' = None" "getenv cgi_accepted ''HTTP_COOKIE'' = None"
    unfolding getenv_def e option.case by (rule g)+
qed

lemma cgi_files: "on_files cgi_accepted"
  by (simp add: cgi_accepted_def on_files_def at_end_def bind_std_def cgi_process_def sample_cgi_def)

lemma c_vfprintf_end:
  "at_end f \<Longrightarrow> \<exists>f'. c_vfprintf vf fmt args f = (int (length (vf fmt args)), f') \<and> at_end f' \<and> f_bytes f' = f_bytes f @ vf fmt args"
  by (simp add: c_vfprintf_def c_put_at_end at_end_def)

lemma cgi_put_line:
  assumes "on_files (wio e)"
  shows "\<exists>r. put_line L fmt args e = Some (e\<lparr>wio := r\<rparr>) \<and> on_files r"
  using on_file_wrote [OF assms, of 1 "c_vfprintf (vformat L) fmt args", OF _ c_vfprintf_end] assms
  by (auto simp: put_line_def on_io_def FCGI_fprintf_def dispatch_file wrote_def)

lemma cgi_write_chunks:
  "on_files (wio e) \<Longrightarrow> \<exists>r. write_chunks bss e = Some (e\<lparr>wio := r\<rparr>) \<and> on_files r"
proof (induction bss arbitrary: e)
  case Nil
  then show ?case by (intro exI [of _ "wio e"]) simp
next
  case (Cons bs bss)
  have "\<exists>r. cb_stdio_write bs (wio e) = Some (signed_to 64 (int (length bs)), r) \<and> on_files r"
    using on_file_wrote [OF Cons.prems, of 1 "c_fwrite bs 1 (length bs)", OF _ c_fwrite_end] Cons.prems
    by (auto simp: cb_stdio_write_def FCGI_fwrite_def dispatch_file wrote_def)
  then obtain r where r: "cb_stdio_write bs (wio e) = Some (signed_to 64 (int (length bs)), r)" "on_files r" by blast
  then show ?case using Cons.IH [of "e\<lparr>wio := r\<rparr>"] by (auto simp: on_io_def)
qed

lemma executions_bounded_witness:
  "\<exists>e'. hvml_executor 5 sample_runtime sample_platform ''app'' None None 0 True cgi_worker =
     Some (Returned EXIT_SUCCESS, 1, e') \<and> (1 :: int) \<le> 0 + 1"
proof -
  let ?e = "cgi_worker\<lparr>wio := cgi_accepted\<rparr>"
  have g: "object_get sample_runtime = sample_get" "make_object_0 sample_runtime = V_obj []"
    "string_const sample_runtime = sample_string" by (simp_all add: sample_runtime_def)
  obtain server where s: "server_loop sample_runtime (getenv cgi_accepted) meta_vars (V_obj []) = Some server"
    using sample_server_loop by blast
  have get: "sample_get server name = (case map_of meta_vars name of
      Some ty \<Rightarrow> meta_value sample_runtime (getenv cgi_accepted) name ty | None \<Rightarrow> None)" for name
    using server_loop_get_meta [OF sample_objects, of "getenv cgi_accepted" server name] s by (simp add: g)
  have v: "sample_string (sample_get server ''REQUEST_METHOD'') = Some ''GET''"
    "sample_string (sample_get server ''QUERY_STRING'') = None" "sample_string (sample_get server ''HTTP_COOKIE'') = None"
    "sample_string (sample_get server ''SCRIPT_FILENAME'') = Some ''a''"
    by (simp_all add: get meta_vars_def meta_value_def cgi_getenv sample_runtime_def)
  have m: "\<exists>info. make_request sample_runtime sample_platform ?e = Some ((0, info), ?e) \<and> i_vdom info = Some ()"
    using s v by (simp add: make_request_def g server_var_def no_request_def strcasecmp_eq_def query_part_def
        complete_request_def Let_def) (simp add: sample_runtime_def)
  then obtain info where m: "make_request sample_runtime sample_platform ?e = Some ((0, info), ?e)" "i_vdom info = Some ()" by blast
  have f: "on_files (wio (?e\<lparr>interp := p\<rparr>))" for p using cgi_files by simp
  obtain r where r: "put_line sample_platform html_header [] (?e\<lparr>interp := 1\<rparr>) = Some (?e\<lparr>interp := 1\<rparr>\<lparr>wio := r\<rparr>)" "on_files r"
    using cgi_put_line [OF f] by blast
  have "on_files (wio (?e\<lparr>interp := 1\<rparr>\<lparr>wio := r\<rparr>))" using r(2) by simp
  from cgi_write_chunks [OF this] obtain e1 where
    "write_chunks [[72, 105], [33]] (?e\<lparr>interp := 1\<rparr>\<lparr>wio := r\<rparr>) = Some e1" by blast
  then have "handle_events sample_runtime sample_platform True 1 [One_run 1 0, Cor_exited 1 () V_null] (?e\<lparr>interp := 1\<rparr>) = Some e1"
    using r(1) by (simp add: prog_cond_handler_def) (simp add: sample_runtime_def)
  moreover have "schedule_vdom sample_runtime () (i_request info) (interp ?e) = (Some 1, 0)"
    "bind_all sample_runtime 1 (request_vars info) 0 = (True, 0)"
    "purc_run sample_runtime 0 = ([One_run 1 0, Cor_exited 1 () V_null], 0, 1)"
    by (simp_all add: sample_runtime_def cgi_worker_def request_vars_def)
  ultimately have run: "run_request sample_runtime sample_platform 0 True 0 () info ?e = Some (Stop EXIT_SUCCESS 1, e1)"
    unfolding run_request_def by (simp only: prod.case option.case bool.case Let_def) simp
  have "serve_request sample_runtime sample_platform 0 True 0 ?e = Some (Stop EXIT_SUCCESS 1, e1)"
    using m run by (simp add: serve_request_def)
  moreover have "cgi_worker\<lparr>interp := 0\<rparr> = cgi_worker" by (simp add: cgi_worker_def)
  moreover have "wio cgi_worker = cgi_process" by (simp add: cgi_worker_def)
  ultimately have "executor_loop 5 sample_runtime sample_platform 0 True EXIT_FAILURE 0 (cgi_worker\<lparr>interp := 0\<rparr>) = Some (Returned EXIT_SUCCESS, 1, e1)"
    by (simp add: eval_nat_numeral on_io_def cgi_Accept)
  moreover have "length (runner_name sample_platform) < 64" by code_simp
  ultimately have h: "hvml_executor 5 sample_runtime sample_platform ''app'' None None 0 True cgi_worker = Some (Returned EXIT_SUCCESS, 1, e1)"
    by (simp add: hvml_executor_def PURC_LEN_RUNNER_NAME_def) (simp add: sample_runtime_def)
  then show ?thesis using executions_bounded [OF h] by auto
qed

end
