(* ===== verification/Spec2Isabelle.thy ===== *)
theory Spec2Isabelle
  imports Fcgi_Serve Multipart_Safety Kvlist_Laws Os_Win32_Props Os_Async_Props Executor_Samples
begin

text \<open>
  HVML-FPM is a FastCGI process manager for HVML.  \<open>hvml-fpm.c\<close> opens the listening socket, drops the
  privileges of root and forks workers, which it supervises.  A worker runs the executor,
  \<open>hvml-executor.c\<close>, which accepts requests through the FastCGI library in \<open>libfcgi\<close>, makes the variables of a
  program from the environment and the body, and runs the program in the PurC
  interpreter.  Bodies that are forms go through \<open>multipart-parser.c\<close> and
  \<open>mpart-body-processor.c\<close>, which keeps headers and attributes in the key-value lists of \<open>util\<close>.  All
  paths are under \<open>src/source/hvmlfpm\<close>.

  \<^bold>\<open>The FastCGI library\<close> (\<open>libfcgi/fcgiapp.c\<close>, \<open>fastcgi.h\<close>, \<open>os_unix.c\<close>, \<open>os_win32.c\<close>).
  \<^item> \<open>Fcgi_Base\<close>: the records of \<open>fastcgi.h\<close>, the stream, the connection, and \<open>OS_Read\<close> and \<open>OS_Write\<close> on it.
  \<^item> \<open>Fcgi_Stream\<close>: the operations of a stream; the fill and the empty procedure are parameters, with
    contracts as the locales \<open>byte_source\<close> and \<open>byte_sink\<close>.
  \<^item> \<open>Fcgi_Params\<close>: the environment, \<open>PutParam\<close>, \<open>FCGX_GetParam\<close> and \<open>ReadParams\<close>.
  \<^item> \<open>Fcgi_Reader\<close>: \<open>FillBuffProc\<close> with \<open>ProcessHeader\<close>, \<open>ProcessBeginRecord\<close> and \<open>ProcessManagementRecord\<close>.
    \<open>Fcgi_Frames\<close>, \<open>Fcgi_Packets\<close>, \<open>Fcgi_Demux\<close>, \<open>Fcgi_Client\<close>: what a peer may send, and that the client of
    a stream gets its data and the others their answers.
  \<^item> \<open>Fcgi_Writer\<close>: \<open>EmptyBuffProc\<close> and what reaches the connection.
  \<^item> \<open>Os_Unix\<close>, \<open>Fcgi_Request\<close>, \<open>Fcgi_Serve\<close>: accepting a connection and a request, finishing it.  This theory
    puts the ends together.
  \<^item> \<open>Os_Async\<close>: \<open>OS_LibInit\<close>, the signals, the table of asynchronous operations, \<open>OS_Close\<close> with its drain, and
    \<open>OS_DoIo\<close>; a state is an \<open>aio_state\<close>, and an operation returns, exits or is undefined.  \<open>Os_Async_Laws\<close>,
    \<open>Os_Async_Loop\<close>: the invariant of the table.  \<open>Os_Async_Steps\<close>: the steps of an application as an inductive
    relation.  \<open>Os_Async_Round\<close>, \<open>Os_Async_Props\<close>: a round of the loop, and what closing does to it.
  \<^item> \<open>Os_Client\<close>: listening sockets, connecting, and starting a process, as system calls.
  \<^item> \<open>Os_Win32\<close>: \<open>os_win32.c\<close>, the same layer for Windows, with its table of descriptors (\<open>fd_entry\<close>), requests
    and completion ports; a state is a \<open>win_state\<close>.  \<open>Os_Win32_Laws\<close>: every operation keeps the table good.
    \<open>Os_Win32_Props\<close>: the states an application reaches, whom \<open>OS_Accept\<close> lets in, and where the layer goes wrong.

  \<^bold>\<open>Forms\<close> (\<open>multipart-parser.c\<close>, \<open>mpart-body-processor.c\<close>).
  \<^item> \<open>Multipart_Parser\<close>: the state machine, with the block of memory that holds the boundary and the look-behind,
    and that its chunks do not matter for a client as the locale \<open>mp_client\<close> describes it.
  \<^item> \<open>Multipart_Body\<close>: what a multipart body is, and what the parser tells its client about it (\<open>mp_client_split\<close>).
  \<^item> \<open>Mpart_Body\<close>: the callbacks that collect a form, and the loop over the body.  \<open>Mpart_Form\<close>: the form that comes out.
    \<open>Multipart_Safety\<close>: what happens on any bytes.

  \<^bold>\<open>Data structures\<close> (\<open>util/list.h\<close>, \<open>avl.c\<close>, \<open>kvlist.c\<close>).
  \<^item> \<open>Util_List\<close>, \<open>Avl\<close>, \<open>Kvlist\<close>: the operations, on a heap of addresses.  \<open>Avl_Search\<close>: the trees such a heap holds,
    and searching in them, for the orders of the locale \<open>comparator\<close>.
  \<^item> \<open>Avl_Zipper\<close>: a subtree in its place, the path to it as a list of crumbs.  \<open>Avl_Rotate\<close>: a rotation keeps the
    order of the nodes and the exactness of the balances.  \<open>Avl_Insert\<close>, \<open>Avl_Insert_Laws\<close>, \<open>Avl_Delete\<close>,
    \<open>Avl_Delete_Laws\<close>: the ways up, and that insertion and deletion lead from good trees to good trees (\<open>avl_ok\<close>).
    \<open>Kvlist_Laws\<close>: the lists are maps, for any sequence of operations.

  \<^bold>\<open>The process manager\<close> (\<open>hvml-fpm.c\<close>).
  \<^item> \<open>Posix\<close>: system calls as a trace, with what they return as a parameter.  \<open>Fpm\<close>: the functions of \<open>hvml-fpm.c\<close>.
    \<open>Fpm_Laws\<close>: descriptors, privileges, users and supervision.

  \<^bold>\<open>The executor\<close> (\<open>hvml-executor.c\<close>, \<open>libfcgi/fcgi_stdio.c\<close>).
  \<^item> \<open>Fcgi_Printf\<close>: \<open>FCGX_VFPrintF\<close>.  \<open>Fcgi_Stdio\<close>: the functions of \<open>fcgi_stdio.c\<close>, with files of the C library, and the
    request they work on.  \<open>Fcgi_Stdio_Laws\<close>: what is written arrives, on streams as on files.
  \<^item> \<open>Executor\<close>: the functions of \<open>hvml-executor.c\<close>; PurC is the record \<open>runtime\<close>, the rest of the platform the
    record \<open>platform\<close>.  \<open>Executor_Laws\<close>: content types, the variables of the server, the limit of a worker.
    \<open>Executor_Output\<close>: bodies and responses.  \<open>Executor_Samples\<close>: a small interpreter, and the theorems on it.

  \<^bold>\<open>Conventions.\<close>  A result \<open>None\<close> stands for undefined behaviour: a null pointer that is followed, an access outside a
  block, a failed assertion; a theorem that a function returns \<open>Some\<close> says that there is none.  What the network, the
  file system and the processes do is given by scripts in the state or, in \<open>Posix\<close>, by a function
  of the calls made so far.  The heap of \<open>util\<close> is a set of functions on addresses, and the
  addresses that the allocator gives are parameters.  Sizes are those of Linux on 64 bits.  What a peer or a body must be
  like for the code to do what it means to is spelled out in predicates (\<open>packet_ok\<close>, \<open>item_ok\<close>); beside them stand examples
  of what happens otherwise.

  \<^bold>\<open>Fuel.\<close>  \<open>FillBuffProc\<close> gets as much fuel as there are bytes to come, \<open>ReadParams\<close> as much as the input has bytes:
  every round takes a byte at least.  \<open>accept_rounds\<close> gets one round for every connection that is to come.  \<open>mp_loop\<close> gets
  two rounds for every byte of the chunk, since of two rounds one at least moves on.  \<open>post_delete_fuel\<close> has one call
  for every node, since the calls go up a path.  In the process manager the loops may go on for ever, and what they do in any number
  of rounds is shown; \<open>write_all_ends\<close> says when \<open>write_all\<close> ends.

  \<^bold>\<open>Not modelled.\<close>  \<open>strerror.c\<close>, the headers that describe
  the platform, and the declarations for C++; messages to the log and the error stream; PurC, whose functions are parameters.
  Of \<open>os_unix.c\<close> the build without \<open>USE_LOCKING\<close> is modelled, whose locks do nothing, and of \<open>os_win32.c\<close> the one
  with \<open>WSAAccept\<close>; its threads run in rounds between the calls of the application.
\<close>

section \<open>Both ends of a stream\<close>

lemma written_packets:
  "out_frames ty i ds = packets_bytes ty i (map (\<lambda>d. (Data d, replicate (pad8 (length d)) 0, 0)) ds)"
  by (induction ds) (simp_all add: out_frame_def)

lemma written_packets_data:
  "packets_data (map (\<lambda>d. (Data d, replicate (pad8 (length d)) 0, 0)) ds) = concat ds"
  by (induction ds) simp_all

lemma written_packets_ok:
  assumes "\<forall>d \<in> set ds. d \<noteq> [] \<and> length d \<le> 65528" "i < 65536"
  shows "packets_ok ty i (map (\<lambda>d. (Data d, replicate (pad8 (length d)) 0, 0)) ds)"
  using assms(1)
proof (induction ds)
  case (Cons d ds)
  have "pad8 (length d) < 256" using pad8_less [of "length d"] by simp
  then show ?case using Cons assms(2) by (simp add: frame_wf_def)
qed simp

lemma written_end: "eof_bytes ty i = frame_bytes (end_frame ty i [] 0)"
  by (simp add: eof_bytes_def out_frame_def end_frame_def pad8_def)

text \<open>
  C20. Both ends of a stream fit together.  What a program writes through a writer of the library
  and closes, in any calls and flushes and over a connection that takes it in any portions, a
  reader of the library at the other end gets back exactly, whatever chunks it arrives in
  and whatever follows it.
\<close>

theorem write_then_read:
  assumes "writer_ok ty s" "wrNext s = 8" "\<not> isAnythingWritten s"
    and "out_ok c" "requestId c = int i" "0 < i" "i < 65536" "ty \<noteq> 1" "ty \<noteq> 7 \<or> ops_data ps \<noteq> []"
    and "run_ops EmptyBuffProc ps s c = Some (s1, c1)"
    and "FCGX_FClose EmptyBuffProc (Some s1) c1 = Some (rc, s2, c2)"
    and "at_start ty i t d (drop (length (sent c)) (sent c2) @ rest)"
    and "length (ops_data ps) < n"
  shows "\<exists>t' d'. FCGX_GetStr FillBuffProc (int n) t d = Some (ops_data ps, t', d') \<and>
     isClosed t' \<and> FCGX_GetError t' = 0 \<and> sent d' = sent d"
proof -
  have w: "writer_at ty i s c" and p: "pending s = []"
    using assms(1-5,7) by (simp_all add: writer_at_def pending_def)
  have r0: "writer_rel ty i (sent c) (conn_kept c) False s c []"
    using writer_at_rel [OF w] p assms(3) by simp
  have r1: "writer_rel ty i (sent c) (conn_kept c) False s1 c1 (ops_data ps)"
    using records.run_ops_rel [OF r0, of ps] assms(10) by auto
  obtain ds where ds: "ops_data ps = concat ds" "\<forall>d \<in> set ds. d \<noteq> [] \<and> length d \<le> 65528"
    "sent c2 = sent c @ out_frames ty i ds @ close_bytes ty i (ds \<noteq> []) (appStatus (conn_kept c)) (nWriters (conn_kept c))"
    using writer_FClose [OF r1] assms(11) by auto
  have "ty \<noteq> 7 \<or> ds \<noteq> []" using assms(9) ds(1) by auto
  then obtain more where "drop (length (sent c)) (sent c2) = out_frames ty i ds @ eof_bytes ty i @ more"
    using ds(3) by (auto simp: close_bytes_def)
  then have st: "at_start ty i t d (packets_bytes ty i (map (\<lambda>d. (Data d, replicate (pad8 (length d)) 0, 0)) ds) @
      frame_bytes (end_frame ty i [] 0) @ more @ rest)"
    using assms(12) by (simp add: written_packets written_end)
  have "packets_answer (map (\<lambda>d. (Data d, replicate (pad8 (length d)) 0, 0)) ds) = []" by (induction ds) simp_all
  then show ?thesis
    using client.GetStr_short [OF at_start_rel [OF st written_packets_ok [OF ds(2) assms(7)]]] assms(13) ds(1)
    unfolding written_packets_data by (fastforce simp: reader_fin_def reading_def FCGX_GetError_def)
qed

lemma write_then_read_witness:
  "\<exists>s1 c1 rc s2 c2 t' d'. run_ops EmptyBuffProc sample_ops (sample_writer (replicate 16 0)) sample_out_conn = Some (s1, c1) \<and>
     FCGX_FClose EmptyBuffProc (Some s1) c1 = Some (rc, s2, c2) \<and>
     FCGX_GetStr FillBuffProc (int 20) (sample_reader (replicate 8 0)\<lparr>stype := 6\<rparr>) (sample_conn [drop 1 (sent c2)]) =
       Some ([1, 2, 3, 4, 5, 6, 7, 8, 9, 10, 11, 12], t', d')"
proof -
  let ?s = "sample_writer (replicate 16 0)"
  have h: "wrNext ?s = 8" "\<not> isAnythingWritten ?s" "out_ok sample_out_conn" "requestId sample_out_conn = int 1"
    "(0 :: nat) < 1" "(1 :: nat) < 65536" "(6 :: byte) \<noteq> 1" "(6 :: byte) \<noteq> 7 \<or> ops_data sample_ops \<noteq> []"
    by (simp_all add: sample_writer_def sample_out_conn_def out_ok_def)
  have d: "ops_data sample_ops = [1, 2, 3, 4, 5, 6, 7, 8, 9, 10, 11, 12]" by (simp add: ops_data_def sample_ops_def)
  have w: "writer_at 6 1 ?s sample_out_conn" "pending ?s = []"
    using sample_writer_ok h by (simp_all add: writer_at_def pending_def)
  have "writer_rel 6 1 (sent sample_out_conn) (conn_kept sample_out_conn) False ?s sample_out_conn []"
    using writer_at_rel [OF w(1)] w(2) h(2) by simp
  then obtain s1 c1 where r: "run_ops EmptyBuffProc sample_ops ?s sample_out_conn = Some (s1, c1)"
    and r1: "writer_rel 6 1 (sent sample_out_conn) (conn_kept sample_out_conn) False s1 c1 (ops_data sample_ops)"
    using records.run_ops_rel by fastforce
  obtain s2 c2 ds where f: "FCGX_FClose EmptyBuffProc (Some s1) c1 = Some (0, Some s2, c2)"
    "sent c2 = sent sample_out_conn @ out_frames 6 1 ds @ close_bytes 6 1 (ds \<noteq> []) 3 1"
    using writer_FClose [OF r1] by (auto simp: conn_kept_def sample_out_conn_def)
  have sc: "sent sample_out_conn = [9]" by (simp add: sample_out_conn_def)
  have ne: "drop 1 (sent c2) \<noteq> []" using f(2) by (simp add: sc close_bytes_def eof_bytes_def frame_bytes_def frame_header_def)
  have st: "at_start 6 1 (sample_reader (replicate 8 0)\<lparr>stype := 6\<rparr>) (sample_conn [drop 1 (sent c2)])
     (drop (length (sent sample_out_conn)) (sent c2) @ [])"
    using ne by (simp add: at_start_def reader_ok_def net_ok_def out_ok_def sample_reader_def sample_conn_def
      raw_def buffered_def sc)
  have l: "length (ops_data sample_ops) < 20" by (simp add: d)
  show ?thesis using write_then_read [OF sample_writer_ok h r f(1) st l] r f(1) unfolding d by blast
qed

section \<open>A connection from its acceptance to its end\<close>

lemma conn_fixed_kept:
  "conn_fixed c = conn_fixed d \<Longrightarrow> conn_kept (c\<lparr>rd_script := []\<rparr>) = conn_kept (d\<lparr>rd_script := []\<rparr>)"
  by (simp add: conn_fixed_def conn_kept_def)

lemma conn_fixed_request:
  assumes "conn_fixed c = conn_fixed d"
  shows "request_kept c = request_kept d \<and> out_stream c = out_stream d \<and> err_stream c = err_stream d"
  using conn_kept_request [OF conn_fixed_kept [OF assms]] by (simp add: request_kept_def)

text \<open>
  C1. A request is served from end to end.  An idle process accepts the connection of an allowed
  peer; the request on it is understood whatever its chunks and whatever packets that the reader can handle
  (\<open>packet_ok\<close>) stand between its records, when the begin record and the end of the environment have no padding; its body is read exactly; whatever the handler writes to the two output streams
  reaches the peer as one complete response, preceded only by the answers to the other
  packets; and the connection ends up closed in order, or open when the peer asked to
  keep it.
\<close>

theorem serve_connection:
  fixes r0 :: "'z FCGX_Request_scheme"
  assumes "idle r0" "\<not> detached r0" "accept_events r0 = Accept_conn fd p data rd wr # es" "0 \<le> fd"
    and "peer_ok inet_addr (webServerAddressList r0) p data" "chunks_ok rd wr"
    and "peer_request i ro flags ms ps (packets_bytes 5 i ss @ frame_bytes (end_frame 5 i pad x) @ rest) (script_bytes rd)"
    and "packets_ok 5 i ss" "length pad < 256" "length (packets_data ss) < n"
  shows "\<exists>r1 s s1 r2 r3 r4 fs gs. FCGX_Accept_r inet_addr mb mo me r0 = Some (0, r1) \<and>
     (\<exists>unused. envp r1 = map Some (the (role_string ro) # map nv_entry ps) @ None # unused) \<and>
     in_stream r1 = Some s \<and> FCGX_GetStr FillBuffProc (int n) s r1 = Some (packets_data ss, s1, r2) \<and>
     run_io ops (r2\<lparr>in_stream := Some s1\<rparr>) = Some r3 \<and> FCGX_Finish_r r3 = Some r4 \<and>
     (\<forall>f \<in> set (fs @ gs). response_frame i f) \<and>
     frames_data 6 (fs @ gs) = concat (map io_out ops) \<and> frames_data 7 (fs @ gs) = concat (map io_err ops) \<and>
     (let all = packets_answer ms @ packets_answer ss @
                response_bytes i (appStatus r0) fs (concat (map io_err ops) \<noteq> []) gs
      in if flags AND FCGI_KEEP_CONN \<noteq> 0 then sent r4 = all \<and> closed_fds r4 = closed_fds r0 \<and> ipcFd r4 = fd
         else closed_fds r4 = closed_fds r0 @ [(fd, True, all)] \<and> ipcFd r4 = -1)"
proof -
  obtain r1 where a: "FCGX_Accept_r inet_addr mb mo me r0 = Some (0, r1)"
    "closed_fds r1 = closed_fds r0" "appStatus r1 = appStatus r0" "detached r1 \<longrightarrow> detached r0"
    and acc: "accepted i ro flags (the (role_string ro) # map nv_entry ps) fd (packets_answer ms)
       (packets_bytes 5 i ss @ frame_bytes (end_frame 5 i pad x) @ rest) r1"
    using Accept_r_ok [OF assms(1,3-7)] by blast
  from acc obtain s out err where f: "requestId r1 = int i" "keepConnection r1 = (flags AND FCGI_KEEP_CONN \<noteq> 0)"
    "ipcFd r1 = fd" "nWriters r1 = 2" "in_stream r1 = Some s"
    "at_start 5 i s r1 (packets_bytes 5 i ss @ frame_bytes (end_frame 5 i pad x) @ rest)"
    "out_stream r1 = Some out" "writer_ok 6 out" "wrNext out = 8"
    "err_stream r1 = Some err" "writer_ok 7 err" "wrNext err = 8" "\<not> isAnythingWritten err" "sent r1 = packets_answer ms"
    by (auto simp: accepted_def)
  have i: "i < 65536" using f(6) by (simp add: at_start_def)
  obtain s1 r2 where g: "FCGX_GetStr FillBuffProc (int n) s r1 = Some (packets_data ss, s1, r2)"
    and fin: "reader_fin 5 i s1 r2 (pad @ rest, length pad, sent r1 @ packets_answer ss, conn_fixed r1)"
    using client.GetStr_short [OF at_start_rel [OF f(6) assms(8,9)] assms(10)] by blast
  have cf: "conn_fixed r2 = conn_fixed r1" "sent r2 = sent r1 @ packets_answer ss" "out_ok r2" "FCGX_GetError s1 = 0"
    using fin by (simp_all add: reader_fin_def reading_def FCGX_GetError_def)
  have k2: "request_kept r2 = request_kept r1" "out_stream r2 = out_stream r1" "err_stream r2 = err_stream r1"
    using conn_fixed_request [OF cf(1)] by simp_all
  define q where "q = r2\<lparr>in_stream := Some s1\<rparr>"
  have q: "out_stream q = Some out" "err_stream q = Some err" "out_ok q" "requestId q = int i" "in_stream q = Some s1"
    "nWriters q = 2" "0 \<le> ipcFd q" "\<not> detached q" "sent q = packets_answer ms @ packets_answer ss"
    "ipcFd q = fd" "keepConnection q = (flags AND FCGI_KEEP_CONN \<noteq> 0)" "appStatus q = appStatus r0" "closed_fds q = closed_fds r0"
    using k2 f cf conn_fixedD [OF cf(1)] a(2-4) assms(2,4) by (simp_all add: q_def request_kept_def out_ok_def)
  obtain r3 r4 fs gs where io: "run_io ops q = Some r3" "FCGX_Finish_r r3 = Some r4"
    "\<forall>f \<in> set (fs @ gs). response_frame i f"
    "frames_data 6 (fs @ gs) = concat (map io_out ops)" "frames_data 7 (fs @ gs) = concat (map io_err ops)"
    "let all = sent q @ response_bytes i (appStatus q) fs (concat (map io_err ops) \<noteq> []) gs
      in if keepConnection q then sent r4 = all \<and> closed_fds r4 = closed_fds q \<and> ipcFd r4 = ipcFd q
         else closed_fds r4 = closed_fds q @ [(ipcFd q, True, all)] \<and> ipcFd r4 = -1"
    using run_io_Finish [OF serving_start [OF q(1) f(8,9) q(2) f(11-13) q(3,4) i] q(5) cf(4) q(6-8), of ops] by blast
  have env: "\<exists>unused. envp r1 = map Some (the (role_string ro) # map nv_entry ps) @ None # unused"
    using acc unfolding accepted_def by blast
  have e: "run_io ops (r2\<lparr>in_stream := Some s1\<rparr>) = Some r3" using io(1) unfolding q_def .
  show ?thesis
    using a(1) env f(5) g e io(2-5) io(6) [unfolded q(9-13)] by (intro exI [of _ r1] exI [of _ s] exI [of _ s1]
      exI [of _ r2] exI [of _ r3] exI [of _ r4] exI [of _ fs] exI [of _ gs] conjI) simp_all
qed


definition sample_body :: "packet list" where
  "sample_body = [(Data [65, 66], [], 0), (Other 5 9 [1], [0], 0)]"

definition sample_connection :: "byte list" where
  "sample_connection = request_bytes 1 1 0 sample_env (packets_bytes 5 1 sample_body @ frame_bytes (end_frame 5 1 [0, 0] 0) @ [])"

definition sample_served_event :: accept_event where
  "sample_served_event = Accept_conn 7 Unix_peer True [RData (take 3 sample_connection), RData (drop 3 sample_connection)] []"

lemma serve_connection_witness:
  "\<exists>r1 s s1 r2 r3 r4 fs gs. FCGX_Accept_r (\<lambda>s. 0) 0 0 0 (sample_request [sample_served_event]) = Some (0, r1) \<and>
     in_stream r1 = Some s \<and> FCGX_GetStr FillBuffProc (int 10) s r1 = Some ([65, 66], s1, r2) \<and>
     run_io [On_out (Op_PutStr [72, 105])] (r2\<lparr>in_stream := Some s1\<rparr>) = Some r3 \<and> FCGX_Finish_r r3 = Some r4 \<and>
     frames_data 6 (fs @ gs) = [72, 105] \<and>
     closed_fds r4 = [(7, True, packets_answer sample_env @ response_bytes 1 0 fs False gs)]"
proof -
  let ?r = "sample_request [sample_served_event]"
  let ?rd = "[RData (take 3 sample_connection), RData (drop 3 sample_connection)]"
  have 1: "idle ?r" "\<not> detached ?r" by (simp_all add: idle_def sample_request_def)
  have 2: "accept_events ?r = Accept_conn 7 Unix_peer True ?rd [] # []"
    by (simp add: sample_request_def sample_served_event_def)
  have 3: "peer_ok (\<lambda>s. 0) (webServerAddressList ?r) Unix_peer True" by (simp add: peer_ok_def)
  have 4: "chunks_ok ?rd []"
    by (simp add: chunks_ok_def sample_connection_def request_bytes_def frame_bytes_def frame_header_def begin_frame_def)
  have 5: "peer_request 1 1 0 sample_env sample_pairs
     (packets_bytes 5 1 sample_body @ frame_bytes (end_frame 5 1 [0, 0] 0) @ []) (script_bytes ?rd)"
    using sample_env_ok by (simp add: peer_request_def sample_connection_def role_string_def FCGI_RESPONDER_def)
  have 6: "packets_ok 5 1 sample_body" "length [0, 0 :: byte] < 256" "length (packets_data sample_body) < 10"
    by (simp_all add: sample_body_def frame_wf_def)
  have 7: "packets_data sample_body = [65, 66]" "packets_answer sample_body = []" "closed_fds ?r = []" "appStatus ?r = 0"
    by (simp_all add: sample_body_def sample_request_def)
  show ?thesis
    using serve_connection [OF 1 2 _ 3 4 5 6, of 0 0 0 "[On_out (Op_PutStr [72, 105])]"]
    unfolding 7 by (fastforce simp: Let_def)
qed

end
